(* ===== verification/Prelude.thy ===== *)
theory Prelude
  imports Main "HOL-Library.Word" "HOL-Library.Monad_Syntax"
begin

unbundle bit_operations_syntax

text \<open>
  Shared vocabulary of the development: the C integer types, the byte memory and its regions,
  the base machine record (memory, port writes, interrupt flag), bounds-checked C arrays, the
  loop combinators, and the generic lemmas the component theories build on.

  Conventions used by every component theory:
  \<^item> an unsigned C integer of width \<open>w\<close> is a \<open>w word\<close>; a signed C integer is an \<open>int\<close>
    (signed overflow is undefined in C), converted with \<open>sint\<close> and \<open>word_of_int\<close> where
    the code converts;
  \<^item> a computation whose C execution has no defined result (an array index out of range, a
    missing variadic argument, a loop that never ends) is \<open>None\<close>;
  \<^item> a pointer is a block with a byte offset. \<open>Global\<close> is the flat address space the
    kernel runs in; every automatic array of a C function is a \<open>Local\<close> block of its own;
  \<^item> memory is the kernel's current virtual view of bytes.
\<close>

section \<open>Integers and pointers\<close>

type_synonym u8 = "8 word"
type_synonym u16 = "16 word"
type_synonym u32 = "32 word"

datatype blk = Global | Local nat

type_synonym ptr = "blk \<times> u32"
type_synonym mem = "ptr \<Rightarrow> u8"

named_theorems region_simps \<open>rewriting of byte regions\<close>
named_theorems wf_intros \<open>preservation of well-formedness invariants\<close>

abbreviation NULL :: ptr where
  "NULL \<equiv> (Global, 0)"

definition padd :: "ptr \<Rightarrow> u32 \<Rightarrow> ptr" where
  "padd p n = (fst p, snd p + n)"

definition bytes_at :: "mem \<Rightarrow> ptr \<Rightarrow> nat \<Rightarrow> u8 list" where
  "bytes_at m p n = map (\<lambda>i. m (padd p (of_nat i))) [0..<n]"

definition cstr :: "mem \<Rightarrow> ptr \<Rightarrow> u8 list \<Rightarrow> bool" where
  "cstr m p s \<longleftrightarrow> bytes_at m p (length s) = s \<and> m (padd p (of_nat (length s))) = 0
     \<and> 0 \<notin> set s \<and> length s < 2 ^ 32"

text \<open>A region is the \<open>n\<close> bytes from \<open>p\<close> on, with wrap-around at the top of the block.\<close>

definition in_region :: "ptr \<Rightarrow> nat \<Rightarrow> ptr \<Rightarrow> bool" where
  "in_region p n q \<longleftrightarrow> fst q = fst p \<and> unat (snd q - snd p) < n"

definition separate :: "ptr \<Rightarrow> nat \<Rightarrow> ptr \<Rightarrow> nat \<Rightarrow> bool" where
  "separate p n q k \<longleftrightarrow> fst p \<noteq> fst q \<or> (n \<le> unat (snd q - snd p) \<and> k \<le> unat (snd p - snd q))"

definition copy_region :: "mem \<Rightarrow> ptr \<Rightarrow> ptr \<Rightarrow> nat \<Rightarrow> mem" where
  "copy_region m d s n = (\<lambda>r. if in_region d n r then m (padd s (snd r - snd d)) else m r)"

definition fill_region :: "mem \<Rightarrow> ptr \<Rightarrow> nat \<Rightarrow> (u32 \<Rightarrow> u8) \<Rightarrow> mem" where
  "fill_region m d n f = (\<lambda>r. if in_region d n r then f (snd r - snd d) else m r)"

text \<open>The bytes of a C string literal, without its terminator.\<close>

definition cbytes :: "string \<Rightarrow> u8 list" where
  "cbytes s = map of_char s"

definition put_bytes :: "mem \<Rightarrow> ptr \<Rightarrow> u8 list \<Rightarrow> mem" where
  "put_bytes m p bs = fill_region m p (length bs) (\<lambda>k. bs ! unat k)"

text \<open>The part of a byte list before its first NUL.\<close>

definition upto_nul :: "u8 list \<Rightarrow> u8 list" where
  "upto_nul bs = takeWhile (\<lambda>b. b \<noteq> 0) bs"

text \<open>Little-endian 32-bit loads and stores.\<close>

definition ld32 :: "mem \<Rightarrow> ptr \<Rightarrow> u32" where
  "ld32 m p = ucast (m p) OR push_bit 8 (ucast (m (padd p 1)))
     OR push_bit 16 (ucast (m (padd p 2))) OR push_bit 24 (ucast (m (padd p 3)))"

definition st32 :: "mem \<Rightarrow> ptr \<Rightarrow> u32 \<Rightarrow> mem" where
  "st32 m p v = m(p := ucast v, padd p 1 := ucast (drop_bit 8 v),
     padd p 2 := ucast (drop_bit 16 v), padd p 3 := ucast (drop_bit 24 v))"

section \<open>The base machine\<close>

text \<open>
  \<open>io_log\<close> records the accesses to I/O ports, newest first. What a device answers to a port
  read is not code of the repository: it is a parameter \<open>dev\<close> of the operations that read
  ports, a function of all accesses made so far.
\<close>

datatype io_event = Out u16 u8 | In u16

type_synonym io_trace = "io_event list"

record machine =
  mem :: mem
  io_log :: io_trace
  iflag :: bool

type_synonym device = "io_trace \<Rightarrow> u16 \<Rightarrow> u8"

definition outb :: "u8 \<Rightarrow> u16 \<Rightarrow> 'a machine_scheme \<Rightarrow> 'a machine_scheme" where
  "outb data port s = s\<lparr>io_log := Out port data # io_log s\<rparr>"

definition inb :: "device \<Rightarrow> u16 \<Rightarrow> 'a machine_scheme \<Rightarrow> u8 \<times> 'a machine_scheme" where
  "inb dev port s = (dev (io_log s) port, s\<lparr>io_log := In port # io_log s\<rparr>)"

definition cli :: "'a machine_scheme \<Rightarrow> 'a machine_scheme" where
  "cli s = s\<lparr>iflag := False\<rparr>"

definition sti :: "'a machine_scheme \<Rightarrow> 'a machine_scheme" where
  "sti s = s\<lparr>iflag := True\<rparr>"

definition restore_flags :: "bool \<Rightarrow> 'a machine_scheme \<Rightarrow> 'a machine_scheme" where
  "restore_flags flags s = s\<lparr>iflag := flags\<rparr>"

text \<open>
  The view a device has of a trace: the last byte written to a port, and, for a device with an
  index port \<open>ip\<close> and a data port \<open>dp\<close>, the last byte written to the register \<open>r\<close>.
\<close>

fun last_out :: "u16 \<Rightarrow> io_trace \<Rightarrow> u8 option" where
  "last_out port [] = None"
| "last_out port (Out p v # l) = (if p = port then Some v else last_out port l)"
| "last_out port (In p # l) = last_out port l"

fun indexed_reg :: "u16 \<Rightarrow> u16 \<Rightarrow> u8 \<Rightarrow> io_trace \<Rightarrow> u8 option" where
  "indexed_reg ip dp r [] = None"
| "indexed_reg ip dp r (Out p v # l) =
     (if p = dp \<and> last_out ip l = Some r then Some v else indexed_reg ip dp r l)"
| "indexed_reg ip dp r (In p # l) = indexed_reg ip dp r l"

section \<open>Arrays and loops\<close>

definition arr_get :: "'a list \<Rightarrow> nat \<Rightarrow> 'a option" where
  "arr_get xs i = (if i < length xs then Some (xs ! i) else None)"

definition arr_set :: "'a list \<Rightarrow> nat \<Rightarrow> 'a \<Rightarrow> 'a list option" where
  "arr_set xs i v = (if i < length xs then Some (xs[i := v]) else None)"

text \<open>\<open>for_upto i n f s\<close> is the C loop \<open>for (; i < n; i++) s = f(i, s)\<close>.\<close>

definition for_upto :: "nat \<Rightarrow> nat \<Rightarrow> (nat \<Rightarrow> 's \<Rightarrow> 's) \<Rightarrow> 's \<Rightarrow> 's" where
  "for_upto i n f s = fold f [i..<n] s"

primrec foldo :: "('a \<Rightarrow> 's \<Rightarrow> 's option) \<Rightarrow> 'a list \<Rightarrow> 's \<Rightarrow> 's option" where
  "foldo f [] s = Some s"
| "foldo f (x # xs) s = f x s \<bind> foldo f xs"

text \<open>
  \<open>wait_until P irqs s\<close> is a busy-wait loop \<open>while (!P);\<close> with interrupts enabled: the
  handlers of the interrupts that arrive run one after the other until \<open>P\<close> holds. The result
  has the state and the interrupts still to come; \<open>None\<close> means the loop is still waiting when
  \<open>irqs\<close> are used up, or that a handler has no defined result.
\<close>

primrec wait_until :: "('s \<Rightarrow> bool) \<Rightarrow> ('s \<Rightarrow> 's option) list \<Rightarrow> 's \<Rightarrow> ('s \<times> ('s \<Rightarrow> 's option) list) option"
where
  "wait_until P [] s = (if P s then Some (s, []) else None)"
| "wait_until P (h # hs) s = (if P s then Some (s, h # hs) else h s \<bind> wait_until P hs)"

section \<open>Lemmas: pointers and regions\<close>

lemma padd_0 [simp]: "padd p 0 = p"
  by (simp add: padd_def)

lemma padd_padd [simp]: "padd (padd p a) b = padd p (a + b)"
  by (simp add: padd_def add.assoc)

lemma padd_eq_iff [simp]: "padd p a = padd p b \<longleftrightarrow> a = b"
  by (simp add: padd_def)

lemma padd_eq_self_iff [simp]: "padd p a = p \<longleftrightarrow> a = 0" "p = padd p a \<longleftrightarrow> a = 0"
  by (auto simp: padd_def prod_eq_iff)

lemma fst_padd [simp]: "fst (padd p n) = fst p"
  by (simp add: padd_def)

lemma snd_padd [simp]: "snd (padd p n) = snd p + n"
  by (simp add: padd_def)

lemma padd_diff [simp]: "fst q = fst p \<Longrightarrow> padd p (snd q - snd p) = q"
  by (simp add: padd_def prod_eq_iff)

lemma length_bytes_at [simp]: "length (bytes_at m p n) = n"
  by (simp add: bytes_at_def)

lemma nth_bytes_at [simp]: "i < n \<Longrightarrow> bytes_at m p n ! i = m (padd p (of_nat i))"
  by (simp add: bytes_at_def)

lemma bytes_at_eq_iff:
  "bytes_at m p n = bytes_at m' q n \<longleftrightarrow> (\<forall>i < n. m (padd p (of_nat i)) = m' (padd q (of_nat i)))"
  by (auto simp: bytes_at_def)

lemma bytes_at_append: "bytes_at m p (n + k) = bytes_at m p n @ bytes_at m (padd p (of_nat n)) k"
  by (rule nth_equalityI) (auto simp: nth_append of_nat_diff)

lemma bytes_at_Suc: "bytes_at m p (Suc n) = m p # bytes_at m (padd p 1) n"
  using bytes_at_append [of m p 1 n] by (simp add: bytes_at_def)

lemma upto_nul_Nil [simp]: "upto_nul [] = []"
  by (simp add: upto_nul_def)

lemma upto_nul_Cons [simp]: "upto_nul (b # bs) = (if b = 0 then [] else b # upto_nul bs)"
  by (simp add: upto_nul_def)

lemma length_upto_nul: "length (upto_nul bs) \<le> length bs"
  by (simp add: upto_nul_def length_takeWhile_le)

lemma nth_upto_nul: "i < length (upto_nul bs) \<Longrightarrow> upto_nul bs ! i = bs ! i \<and> bs ! i \<noteq> 0"
  using nth_mem [of i "upto_nul bs"]
  by (auto simp: upto_nul_def takeWhile_nth dest: set_takeWhileD)

lemma nth_length_upto_nul: "length (upto_nul bs) < length bs \<Longrightarrow> bs ! length (upto_nul bs) = 0"
  unfolding upto_nul_def by (drule nth_length_takeWhile) simp

lemma upto_nul_id: "0 \<notin> set bs \<Longrightarrow> upto_nul bs = bs"
  unfolding upto_nul_def by (rule takeWhile_eq_all_conv [THEN iffD2]) auto

lemma upto_nul_append: "0 \<notin> set bs \<Longrightarrow> upto_nul (bs @ 0 # cs) = bs"
  by (induction bs) auto

lemma in_region_padd [region_simps]: "in_region p n (padd p k) \<longleftrightarrow> unat k < n"
  by (simp add: in_region_def)

lemma in_region_0 [simp]: "\<not> in_region p 0 q"
  by (simp add: in_region_def)

lemma in_region_mono: "in_region p a r \<Longrightarrow> a \<le> b \<Longrightarrow> in_region p b r"
  by (simp add: in_region_def)

lemma in_regionE:
  assumes "in_region p n q"
  obtains k where "q = padd p k" and "unat k < n"
  using assms by (metis in_region_def padd_diff)

lemma unat_diff_cases:
  fixes a b :: u32
  shows "unat (a - b) = (if b \<le> a then unat a - unat b else 2 ^ 32 + unat a - unat b)"
  by (auto simp: unat_sub_if_size word_size word_le_nat_alt)

lemma unat_diff_le:
  fixes d e :: u32
  shows "e \<le> d \<Longrightarrow> unat (d - e) \<le> unat d"
  by (simp add: unat_diff_cases)

lemma separate_not_both:
  assumes "separate p n q k" and "in_region p n r"
  shows "\<not> in_region q k r"
proof
  assume "in_region q k r"
  with assms have n: "n \<le> unat (snd q - snd p)" and k: "k \<le> unat (snd p - snd q)"
    and d: "unat (snd r - snd p) < n" and e: "unat (snd r - snd q) < k"
    by (auto simp: separate_def in_region_def)
  have "unat (snd q - snd p) \<le> unat (snd r - snd p) \<or> unat (snd p - snd q) \<le> unat (snd r - snd q)"
    using unat_diff_le [of "snd r - snd q" "snd r - snd p"]
      unat_diff_le [of "snd r - snd p" "snd r - snd q"]
      linear [of "snd r - snd q" "snd r - snd p"] by auto
  with n k d e show False by auto
qed

lemma separate_sym: "separate p n q k \<longleftrightarrow> separate q k p n"
  by (auto simp: separate_def)

lemma separate_mono: "separate p n q k \<Longrightarrow> n' \<le> n \<Longrightarrow> k' \<le> k \<Longrightarrow> separate p n' q k'"
  by (auto simp: separate_def)

lemma unat_u32_less: "unat (d :: u32) < 2 ^ 32"
  using unsigned_less [of d] by simp

lemma sint_word_of_int_u32: "- (2 ^ 31) \<le> i \<Longrightarrow> i < 2 ^ 31 \<Longrightarrow> sint (word_of_int i :: u32) = i"
  by (simp add: signed_of_int signed_take_bit_int_eq_self)

lemma sint_eq_uint_u32: "uint (w :: u32) < 2 ^ 31 \<Longrightarrow> sint w = uint w"
proof -
  assume "uint w < 2 ^ 31"
  moreover have "- (2 ^ 31) \<le> (0 :: int)" "0 \<le> uint w" by simp_all
  then have "- (2 ^ 31) \<le> uint w" by linarith
  ultimately show ?thesis using sint_word_of_int_u32 [of "uint w"] by simp
qed

lemma uint_word_of_int_u32: "0 \<le> i \<Longrightarrow> i < 2 ^ 32 \<Longrightarrow> uint (word_of_int i :: u32) = i"
  by (simp add: uint_word_of_int_eq take_bit_int_eq_self)

lemma sint_u32_bounds: "- (2 ^ 31) \<le> sint (v :: u32)" "sint v < 2 ^ 31"
  using sint_range_size [of v] by (simp_all add: word_size)

lemma unat_word_of_int_u32: "0 \<le> i \<Longrightarrow> i < 2 ^ 32 \<Longrightarrow> unat (word_of_int i :: u32) = nat i"
  by (simp only: unat_eq_nat_uint uint_word_of_int_u32)

lemma unat_add_1_less: "(i :: u32) < n \<Longrightarrow> unat (i + 1) = Suc (unat i)"
  using unat_u32_less [of n] by (simp add: word_less_nat_alt unat_word_ariths)

lemma loop_measure: "(i :: u32) < n \<Longrightarrow> unat n - unat (i + 1) < unat n - unat i"
  by (simp add: unat_add_1_less) (simp add: word_less_nat_alt)

lemma unat_diff_of_nat_less:
  fixes d :: u32
  assumes "a + b \<le> 2 ^ 32"
  shows "unat (d - of_nat a) < b \<longleftrightarrow> a \<le> unat d \<and> unat d < a + b"
proof (cases "a < 2 ^ 32")
  case True
  then have "unat (of_nat a :: u32) = a" by (simp add: unat_of_nat)
  then show ?thesis
    using assms unat_u32_less [of d] by (auto simp: unat_diff_cases word_le_nat_alt)
next
  case False
  then have "b = 0" "a = 2 ^ 32" using assms by simp_all
  then show ?thesis using unat_u32_less [of d] by simp
qed

lemma in_region_offset [region_simps]:
  "a + b \<le> 2 ^ 32 \<Longrightarrow> in_region (padd p (of_nat a)) b r \<longleftrightarrow> in_region p (a + b) r \<and> \<not> in_region p a r"
  using unat_diff_of_nat_less [of a b "snd r - snd p"]
  by (auto simp: in_region_def diff_diff_eq)

lemma in_region_Suc:
  assumes "n < 2 ^ 32"
  shows "in_region p (Suc n) r \<longleftrightarrow> in_region p n r \<or> r = padd p (of_nat n)"
proof
  assume r: "in_region p (Suc n) r"
  then obtain k where k: "r = padd p k" by (rule in_regionE)
  with r have "unat k < n \<or> unat k = n" by (auto simp: in_region_padd)
  moreover have "unat k = n \<Longrightarrow> k = of_nat n" by auto
  ultimately show "in_region p n r \<or> r = padd p (of_nat n)" using k by (auto simp: in_region_padd)
next
  assume "in_region p n r \<or> r = padd p (of_nat n)"
  then show "in_region p (Suc n) r" using assms by (auto simp: in_region_def unat_of_nat)
qed

lemma fill_region_0 [simp]: "fill_region m p 0 f = m"
  by (simp add: fill_region_def)

lemma fill_region_1: "fill_region m p (Suc 0) f = m(p := f 0)"
  by (rule ext) (auto simp: fill_region_def in_region_def prod_eq_iff unat_eq_0)

lemma fill_region_apply [region_simps]:
  "fill_region m p n f (padd p k) = (if unat k < n then f k else m (padd p k))"
  by (simp add: fill_region_def in_region_padd)

lemma fill_region_other: "\<not> in_region p n r \<Longrightarrow> fill_region m p n f r = m r"
  by (simp add: fill_region_def)

lemma fill_region_cong:
  "(\<And>k. unat k < n \<Longrightarrow> f k = g k) \<Longrightarrow> fill_region m p n f = fill_region m p n g"
  by (rule ext) (simp add: fill_region_def in_region_def)

lemma fill_region_Suc:
  assumes "n < 2 ^ 32"
  shows "fill_region (m(padd p (of_nat n) := f (of_nat n))) p n f = fill_region m p (Suc n) f"
proof
  fix r
  show "fill_region (m(padd p (of_nat n) := f (of_nat n))) p n f r = fill_region m p (Suc n) f r"
  proof (cases "r = padd p (of_nat n)")
    case True
    then show ?thesis using assms by (simp add: fill_region_apply unat_of_nat)
  next
    case False
    then show ?thesis using in_region_Suc [OF assms, of p r] by (simp add: fill_region_def)
  qed
qed

lemma fill_region_append:
  assumes "a + b \<le> 2 ^ 32"
  shows "fill_region (fill_region m p a f) (padd p (of_nat a)) b (\<lambda>k. f (k + of_nat a))
    = fill_region m p (a + b) f"
proof
  fix r
  have "in_region p a r \<Longrightarrow> in_region p (a + b) r" by (auto simp: in_region_def)
  then show "fill_region (fill_region m p a f) (padd p (of_nat a)) b (\<lambda>k. f (k + of_nat a)) r
    = fill_region m p (a + b) f r"
    using assms by (auto simp: fill_region_def in_region_offset diff_diff_eq algebra_simps)
qed

lemma fill_region_upd_last:
  assumes "n < 2 ^ 32"
  shows "(fill_region m p n f)(padd p (of_nat n) := f (of_nat n)) = fill_region m p (Suc n) f"
proof
  fix r
  show "((fill_region m p n f)(padd p (of_nat n) := f (of_nat n))) r = fill_region m p (Suc n) f r"
    using in_region_Suc [OF assms, of p r] by (auto simp: fill_region_def)
qed

lemma put_bytes_Nil [simp]: "put_bytes m p [] = m"
  by (simp add: put_bytes_def)

lemma put_bytes_append:
  assumes "length xs + length ys \<le> 2 ^ 32"
  shows "put_bytes (put_bytes m p xs) (padd p (of_nat (length xs))) ys = put_bytes m p (xs @ ys)"
proof -
  let ?f = "\<lambda>k::u32. (xs @ ys) ! unat k"
  have "put_bytes m p xs = fill_region m p (length xs) ?f"
    unfolding put_bytes_def by (rule fill_region_cong) (simp add: nth_append)
  moreover have "ys ! unat k = ?f (k + of_nat (length xs))" if "unat k < length ys" for k :: u32
  proof -
    have "unat (k + of_nat (length xs)) = unat k + length xs"
      using that assms unat_add_lem [of k "of_nat (length xs)"] by (simp add: unat_of_nat)
    then show ?thesis by (simp add: nth_append)
  qed
  ultimately show ?thesis
    using fill_region_append [OF assms, of m p ?f]
      fill_region_cong [of "length ys" "\<lambda>k. ys ! unat k" "\<lambda>k. ?f (k + of_nat (length xs))"]
    by (simp add: put_bytes_def)
qed

lemma put_bytes_Cons:
  "length bs < 2 ^ 32 \<Longrightarrow> put_bytes (m(p := b)) (padd p 1) bs = put_bytes m p (b # bs)"
  using put_bytes_append [of "[b]" bs m p] by (simp add: put_bytes_def [of m p "[b]"] fill_region_1)

lemma bytes_at_put_bytes [simp]:
  "n = length bs \<Longrightarrow> n \<le> 2 ^ 32 \<Longrightarrow> bytes_at (put_bytes m p bs) p n = bs"
  by (rule nth_equalityI) (auto simp: put_bytes_def fill_region_apply unat_of_nat)

lemma put_bytes_commute:
  "separate p (length xs) q (length ys) \<Longrightarrow>
   put_bytes (put_bytes m p xs) q ys = put_bytes (put_bytes m q ys) p xs"
  using separate_not_both [of p "length xs" q "length ys"]
  by (intro ext) (auto simp: put_bytes_def fill_region_def)

lemma put_bytes_other: "\<not> in_region p (length bs) r \<Longrightarrow> put_bytes m p bs r = m r"
  by (simp add: put_bytes_def fill_region_other)

lemma cstr_nth:
  assumes "cstr m p s" and "i < length s"
  shows "m (padd p (of_nat i)) = s ! i" and "m (padd p (of_nat i)) \<noteq> 0"
proof -
  from assms have "bytes_at m p (length s) ! i = s ! i" by (simp add: cstr_def)
  then show eq: "m (padd p (of_nat i)) = s ! i" using assms(2) by simp
  have "s ! i \<in> set s" using assms(2) by simp
  then show "m (padd p (of_nat i)) \<noteq> 0" using assms(1) unfolding eq cstr_def by auto
qed

lemma cstr_end: "cstr m p s \<Longrightarrow> m (padd p (of_nat (length s))) = 0"
  by (simp add: cstr_def)

lemma cstr_put_bytes:
  "0 \<notin> set s \<Longrightarrow> length s < 2 ^ 32 \<Longrightarrow> cstr (put_bytes m p (s @ [0])) p s"
  unfolding cstr_def bytes_at_eq_iff
  by (auto simp: put_bytes_def fill_region_apply unat_of_nat nth_append intro!: nth_equalityI)

lemma copy_region_eq_fill: "copy_region m d s n = fill_region m d n (\<lambda>k. m (padd s k))"
  by (simp add: copy_region_def fill_region_def)

lemma copy_region_0 [simp]: "copy_region m d s 0 = m"
  by (simp add: copy_region_eq_fill)

lemma copy_region_1: "copy_region m d s (Suc 0) = m(d := m s)"
  by (simp add: copy_region_eq_fill fill_region_1)

text \<open>
  Two adjacent copies are one copy as long as the second does not read what the first wrote.
\<close>

lemma copy_region_append:
  assumes "a + b \<le> 2 ^ 32"
    and "\<And>k. unat k < b \<Longrightarrow> \<not> in_region d a (padd s (of_nat a + k))"
  shows "copy_region (copy_region m d s a) (padd d (of_nat a)) (padd s (of_nat a)) b
    = copy_region m d s (a + b)"
proof -
  have "copy_region (copy_region m d s a) (padd d (of_nat a)) (padd s (of_nat a)) b
    = fill_region (copy_region m d s a) (padd d (of_nat a)) b (\<lambda>k. m (padd s (k + of_nat a)))"
    unfolding copy_region_eq_fill [of "copy_region m d s a"]
    using assms(2) by (intro fill_region_cong) (simp add: copy_region_def add.commute)
  also have "\<dots> = copy_region m d s (a + b)"
    unfolding copy_region_eq_fill
    by (rule fill_region_append [OF assms(1), where f = "\<lambda>k. m (padd s k)"])
  finally show ?thesis .
qed

lemma separate_no_read:
  assumes "separate d n s n" and "unat k < n" and "a \<le> n"
  shows "\<not> in_region d a (padd s k)"
  using assms separate_not_both [of d n s n "padd s k"] in_region_mono [of d a "padd s k" n]
  by (auto simp: in_region_padd)

lemma unat_of_nat_add_less:
  fixes k :: u32
  assumes "unat k < b" and "a + b \<le> 2 ^ 32"
  shows "unat (of_nat a + k) < a + b"
proof -
  have "unat (of_nat a :: u32) = a" using assms by (simp add: unat_of_nat)
  then show ?thesis using assms unat_add_lem [of "of_nat a" k] by simp
qed

section \<open>Lemmas: loops and arrays\<close>

lemma for_upto_done [simp]: "n \<le> i \<Longrightarrow> for_upto i n f s = s"
  by (simp add: for_upto_def)

lemma for_upto_step: "i < n \<Longrightarrow> for_upto i n f s = for_upto (Suc i) n f (f i s)"
  by (simp add: for_upto_def upt_conv_Cons)

lemma for_upto_last: "i \<le> n \<Longrightarrow> for_upto i (Suc n) f s = f n (for_upto i n f s)"
  by (simp add: for_upto_def)

text \<open>The loop rule: an invariant indexed by the loop counter.\<close>

lemma for_upto_invariant:
  assumes "i \<le> n" and "I i s" and "\<And>k t. i \<le> k \<Longrightarrow> k < n \<Longrightarrow> I k t \<Longrightarrow> I (Suc k) (f k t)"
  shows "I n (for_upto i n f s)"
proof -
  have "k \<le> n \<Longrightarrow> i \<le> k \<Longrightarrow> I k (for_upto i k f s)" for k
  proof (induction k)
    case 0
    then show ?case using assms(2) by simp
  next
    case (Suc k)
    show ?case
    proof (cases "i \<le> k")
      case True
      with Suc have "I k (for_upto i k f s)" by simp
      then show ?thesis using assms(3) True Suc.prems by (simp add: for_upto_last)
    next
      case False
      with Suc.prems have "i = Suc k" by simp
      then show ?thesis using assms(2) by simp
    qed
  qed
  with assms(1) show ?thesis by simp
qed

lemma foldo_append: "foldo f (xs @ ys) s = foldo f xs s \<bind> foldo f ys"
proof (induction xs arbitrary: s)
  case Nil
  then show ?case by simp
next
  case (Cons x xs)
  then show ?case by (cases "f x s") auto
qed

lemma foldo_invariant:
  assumes "P s" and "\<And>x t. x \<in> set xs \<Longrightarrow> P t \<Longrightarrow> \<exists>t'. f x t = Some t' \<and> P t'"
  shows "\<exists>t. foldo f xs s = Some t \<and> P t"
  using assms
proof (induction xs arbitrary: s)
  case Nil
  then show ?case by simp
next
  case (Cons x xs)
  from Cons.prems obtain t where t: "f x s = Some t" "P t" by (metis list.set_intros(1))
  moreover have "\<exists>u. foldo f xs t = Some u \<and> P u"
    using Cons.IH [OF t(2)] Cons.prems(2) by simp
  ultimately show ?case by simp
qed

lemma foldo_cong [fundef_cong]:
  assumes "xs = ys" and "s = t" and "\<And>x u. x \<in> set ys \<Longrightarrow> f x u = g x u"
  shows "foldo f xs s = foldo g ys t"
  using assms(3) unfolding assms(1,2)
proof (induction ys arbitrary: t)
  case Nil
  then show ?case by simp
next
  case (Cons y ys)
  then show ?case by (cases "g y t") auto
qed

lemma arr_get_Some [simp]: "i < length xs \<Longrightarrow> arr_get xs i = Some (xs ! i)"
  by (simp add: arr_get_def)

lemma arr_get_None [simp]: "length xs \<le> i \<Longrightarrow> arr_get xs i = None"
  by (simp add: arr_get_def)

lemma arr_set_Some [simp]: "i < length xs \<Longrightarrow> arr_set xs i v = Some (xs[i := v])"
  by (simp add: arr_set_def)

lemma arr_set_None [simp]: "length xs \<le> i \<Longrightarrow> arr_set xs i v = None"
  by (simp add: arr_set_def)

lemma machine_ops [simp]:
  "mem (outb d p s) = mem s" "iflag (outb d p s) = iflag s"
  "io_log (outb d p s) = Out p d # io_log s"
  "mem (cli s) = mem s" "iflag (cli s) = False" "io_log (cli s) = io_log s"
  "mem (sti s) = mem s" "iflag (sti s) = True" "io_log (sti s) = io_log s"
  "mem (restore_flags b s) = mem s" "iflag (restore_flags b s) = b"
  "io_log (restore_flags b s) = io_log s"
  "machine.more (outb d p s) = machine.more s" "machine.more (cli s) = machine.more s"
  "machine.more (sti s) = machine.more s" "machine.more (restore_flags b s) = machine.more s"
  by (simp_all add: outb_def cli_def sti_def restore_flags_def)

lemma inb_simps [simp]:
  "fst (inb dev p s) = dev (io_log s) p" "io_log (snd (inb dev p s)) = In p # io_log s"
  "mem (snd (inb dev p s)) = mem s" "iflag (snd (inb dev p s)) = iflag s"
  "machine.more (snd (inb dev p s)) = machine.more s"
  by (simp_all add: inb_def)

text \<open>Waiting ends right after the first handler that makes the condition hold, and not before.\<close>

lemma wait_until_first:
  assumes "\<And>h t. h \<in> set hs \<Longrightarrow> I t \<Longrightarrow> \<exists>t'. h t = Some t' \<and> I t'" and "\<And>t. I t \<Longrightarrow> \<not> P t" and "I s"
    and "\<And>t. I t \<Longrightarrow> \<exists>t'. g t = Some t' \<and> P t'"
  shows "\<exists>t t'. foldo (\<lambda>h. h) hs s = Some t \<and> I t \<and> g t = Some t' \<and> P t'
    \<and> wait_until P (hs @ g # rest) s = Some (t', rest)"
  using assms(1,3)
proof (induction hs arbitrary: s)
  case Nil
  obtain t' where "g s = Some t'" "P t'" using assms(4) Nil.prems(2) by blast
  then show ?case using assms(2) [of s] Nil.prems(2) by (cases rest) auto
next
  case (Cons h hs)
  from Cons.prems obtain t where t: "h s = Some t" "I t" by (metis list.set_intros(1))
  with Cons.IH [OF _ t(2)] Cons.prems(1) assms(2) [OF Cons.prems(2)] show ?case by simp
qed

lemma wait_until_never:
  assumes "\<And>h t. h \<in> set hs \<Longrightarrow> I t \<Longrightarrow> \<exists>t'. h t = Some t' \<and> I t'" and "\<And>t. I t \<Longrightarrow> \<not> P t" and "I s"
  shows "wait_until P hs s = None"
  using assms(1,3)
proof (induction hs arbitrary: s)
  case Nil
  then show ?case using assms(2) by simp
next
  case (Cons h hs)
  from Cons.prems obtain t where "h s = Some t" "I t" by (metis list.set_intros(1))
  with Cons assms(2) show ?case by simp
qed

end
