(* ===== verification/Lib_Memory.thy ===== *)
theory Lib_Memory
  imports Prelude
begin

text \<open>
  The block operations of \<open>student-distrib/lib.c\<close>: \<open>memset\<close>, \<open>memset_word\<close>,
  \<open>memset_dword\<close>, \<open>memcpy\<close> and \<open>memmove\<close>. They are inline assembly in the source; each
  label of the assembly is one function here, the counters \<open>ecx\<close> and \<open>edx\<close> are natural
  numbers that count down, \<open>edi\<close> and \<open>esi\<close> are pointers, and a \<open>rep\<close> prefix is the
  recursion over the counter. The interface locale \<open>block_copy\<close> states what callers rely on;
  both copying routines are interpreted in it.
\<close>

section \<open>The assembly loops\<close>

primrec rep_stosl :: "nat \<Rightarrow> mem \<Rightarrow> u32 \<Rightarrow> ptr \<Rightarrow> mem \<times> ptr" where
  "rep_stosl 0 m eax edi = (m, edi)"
| "rep_stosl (Suc ecx) m eax edi = rep_stosl ecx (st32 m edi eax) eax (padd edi 4)"

primrec rep_stosw :: "nat \<Rightarrow> mem \<Rightarrow> u32 \<Rightarrow> ptr \<Rightarrow> mem \<times> ptr" where
  "rep_stosw 0 m eax edi = (m, edi)"
| "rep_stosw (Suc ecx) m eax edi =
     rep_stosw ecx (m(edi := ucast eax, padd edi 1 := ucast (drop_bit 8 eax))) eax (padd edi 2)"

primrec memset_bottom :: "nat \<Rightarrow> mem \<Rightarrow> u32 \<Rightarrow> ptr \<Rightarrow> mem" where
  "memset_bottom 0 m eax edi = m"
| "memset_bottom (Suc edx) m eax edi = memset_bottom edx (m(edi := ucast eax)) eax (padd edi 1)"

definition memset_aligned :: "nat \<Rightarrow> mem \<Rightarrow> u32 \<Rightarrow> ptr \<Rightarrow> mem" where
  "memset_aligned ecx m eax edi =
     (let (m', edi') = rep_stosl (ecx div 4) m eax edi in memset_bottom (ecx mod 4) m' eax edi')"

primrec memset_top :: "nat \<Rightarrow> mem \<Rightarrow> u32 \<Rightarrow> ptr \<Rightarrow> mem" where
  "memset_top 0 m eax edi = m"
| "memset_top (Suc ecx) m eax edi =
     (if snd edi AND 3 = 0 then memset_aligned (Suc ecx) m eax edi
      else memset_top ecx (m(edi := ucast eax)) eax (padd edi 1))"

definition memset :: "mem \<Rightarrow> ptr \<Rightarrow> u32 \<Rightarrow> u32 \<Rightarrow> mem" where
  "memset m s c n =
     (let c = c AND 0xFF
      in memset_top (unat n) m (push_bit 24 c OR push_bit 16 c OR push_bit 8 c OR c) s)"

definition memset_word :: "mem \<Rightarrow> ptr \<Rightarrow> u32 \<Rightarrow> u32 \<Rightarrow> mem" where
  "memset_word m s c n = fst (rep_stosw (unat n) m c s)"

definition memset_dword :: "mem \<Rightarrow> ptr \<Rightarrow> u32 \<Rightarrow> u32 \<Rightarrow> mem" where
  "memset_dword m s c n = fst (rep_stosl (unat n) m c s)"

primrec rep_movsl :: "nat \<Rightarrow> mem \<Rightarrow> ptr \<Rightarrow> ptr \<Rightarrow> mem \<times> ptr \<times> ptr" where
  "rep_movsl 0 m edi esi = (m, edi, esi)"
| "rep_movsl (Suc ecx) m edi esi =
     rep_movsl ecx (st32 m edi (ld32 m esi)) (padd edi 4) (padd esi 4)"

primrec memcpy_bottom :: "nat \<Rightarrow> mem \<Rightarrow> ptr \<Rightarrow> ptr \<Rightarrow> mem" where
  "memcpy_bottom 0 m edi esi = m"
| "memcpy_bottom (Suc edx) m edi esi =
     memcpy_bottom edx (m(edi := m esi)) (padd edi 1) (padd esi 1)"

definition memcpy_aligned :: "nat \<Rightarrow> mem \<Rightarrow> ptr \<Rightarrow> ptr \<Rightarrow> mem" where
  "memcpy_aligned ecx m edi esi =
     (let (m', edi', esi') = rep_movsl (ecx div 4) m edi esi
      in memcpy_bottom (ecx mod 4) m' edi' esi')"

primrec memcpy_top :: "nat \<Rightarrow> mem \<Rightarrow> ptr \<Rightarrow> ptr \<Rightarrow> mem" where
  "memcpy_top 0 m edi esi = m"
| "memcpy_top (Suc ecx) m edi esi =
     (if snd edi AND 3 = 0 then memcpy_aligned (Suc ecx) m edi esi
      else memcpy_top ecx (m(edi := m esi)) (padd edi 1) (padd esi 1))"

definition memcpy :: "mem \<Rightarrow> ptr \<Rightarrow> ptr \<Rightarrow> u32 \<Rightarrow> mem" where
  "memcpy m dest src n = memcpy_top (unat n) m dest src"

text \<open>
  \<open>rep movsb\<close> steps up or down with the direction flag. \<open>memmove\<close> returns the memory and the
  direction flag the routine leaves behind.
\<close>

primrec rep_movsb :: "bool \<Rightarrow> nat \<Rightarrow> mem \<Rightarrow> ptr \<Rightarrow> ptr \<Rightarrow> mem" where
  "rep_movsb df 0 m edi esi = m"
| "rep_movsb df (Suc ecx) m edi esi =
     (let d = (if df then - 1 else 1)
      in rep_movsb df ecx (m(edi := m esi)) (padd edi d) (padd esi d))"

definition memmove :: "mem \<Rightarrow> ptr \<Rightarrow> ptr \<Rightarrow> u32 \<Rightarrow> mem \<times> bool" where
  "memmove m dest src n =
     (if snd dest \<le> snd src then (rep_movsb False (unat n) m dest src, False)
      else (rep_movsb True (unat n) m (padd dest (n - 1)) (padd src (n - 1)), True))"

section \<open>What a caller of a block copy relies on\<close>

locale block_copy =
  fixes cp :: "mem \<Rightarrow> ptr \<Rightarrow> ptr \<Rightarrow> u32 \<Rightarrow> mem"
    and ok :: "ptr \<Rightarrow> ptr \<Rightarrow> nat \<Rightarrow> bool"
  assumes copies: "ok d s (unat n) \<Longrightarrow> cp m d s n = copy_region m d s (unat n)"
begin

lemma bytes_copied: "ok d s (unat n) \<Longrightarrow> bytes_at (cp m d s n) d (unat n) = bytes_at m s (unat n)"
  using unat_u32_less [of n]
  by (auto simp: copies bytes_at_eq_iff copy_region_def in_region_padd unat_of_nat)

lemma bytes_elsewhere:
  "ok d s (unat n) \<Longrightarrow> \<not> in_region d (unat n) r \<Longrightarrow> cp m d s n r = m r"
  by (simp add: copies copy_region_def)

lemma bytes_separate:
  assumes "ok d s (unat n)" and "separate d (unat n) q k" and "k \<le> 2 ^ 32"
  shows "bytes_at (cp m d s n) q k = bytes_at m q k"
proof -
  have "\<not> in_region d (unat n) (padd q (of_nat i))" if "i < k" for i
    using assms(2,3) that separate_not_both [of d "unat n" q k "padd q (of_nat i)"]
    by (auto simp: in_region_padd unat_of_nat)
  then show ?thesis using bytes_elsewhere [OF assms(1)] by (simp add: bytes_at_eq_iff)
qed

end

section \<open>Lemmas: filling\<close>

lemma drop_bit_byte_ld32:
  "ucast (ld32 m p) = m p" "ucast (drop_bit 8 (ld32 m p)) = m (padd p 1)"
  "ucast (drop_bit 16 (ld32 m p)) = m (padd p 2)" "ucast (drop_bit 24 (ld32 m p)) = m (padd p 3)"
  by (rule bit_word_eqI; auto simp: ld32_def bit_simps dest: bit_imp_le_length)+

lemma nat_less_4_cases: "(n::nat) < 4 \<longleftrightarrow> n = 0 \<or> n = 1 \<or> n = 2 \<or> n = 3"
  by auto

lemma unat_less_4_iff: "unat (k::u32) < 4 \<longleftrightarrow> k = 0 \<or> k = 1 \<or> k = 2 \<or> k = 3"
  by (simp add: word_unat_eq_iff) arith

lemma st32_eq_fill:
  "st32 m p v = fill_region m p 4 (\<lambda>k. ucast (drop_bit (8 * unat k) v))"
proof
  fix r
  show "st32 m p v r = fill_region m p 4 (\<lambda>k. ucast (drop_bit (8 * unat k) v)) r"
  proof (cases "in_region p 4 r")
    case True
    then obtain k where "r = padd p k" "unat k < 4" by (rule in_regionE)
    then show ?thesis by (auto simp: st32_def unat_less_4_iff fill_region_apply)
  next
    case False
    then have "r \<noteq> p" "r \<noteq> padd p 1" "r \<noteq> padd p 2" "r \<noteq> padd p 3"
      by (auto simp: in_region_padd in_region_def)
    with False show ?thesis by (simp add: st32_def fill_region_other)
  qed
qed

lemma ld32_st32 [simp]: "ld32 (st32 m p v) p = v"
proof (rule bit_word_eqI)
  fix n assume "n < LENGTH(32)"
  then have "n < 8 \<or> 8 \<le> n \<and> n < 16 \<or> 16 \<le> n \<and> n < 24 \<or> 24 \<le> n \<and> n < 32" by auto
  then show "bit (ld32 (st32 m p v) p) n = bit v n"
    by (elim disjE) (auto simp: ld32_def st32_def bit_simps)
qed

lemma st32_ld32: "st32 m d (ld32 m s) = copy_region m d s 4"
  unfolding st32_eq_fill copy_region_eq_fill
  by (rule fill_region_cong) (auto simp: unat_less_4_iff drop_bit_byte_ld32)

lemma ld32_cong:
  assumes "\<And>k. unat k < 4 \<Longrightarrow> m' (padd p k) = m (padd p k)"
  shows "ld32 m' p = ld32 m p"
  using assms [of 0] assms [of 1] assms [of 2] assms [of 3] by (simp add: ld32_def)

lemma copy_region_put_bytes: "n \<le> 2 ^ 32 \<Longrightarrow> copy_region m d s n = put_bytes m d (bytes_at m s n)"
  unfolding copy_region_eq_fill put_bytes_def length_bytes_at
  by (rule fill_region_cong) simp

text \<open>Disjoint non-empty regions are separate.\<close>

lemma separateI:
  assumes "\<And>r. in_region p n r \<Longrightarrow> \<not> in_region q k r" and "0 < n" and "0 < k"
  shows "separate p n q k"
proof -
  have "in_region q k q" "in_region p n p" using assms(2,3) by (simp_all add: in_region_def)
  then have "\<not> in_region p n q" "\<not> in_region q k p" using assms(1) by blast+
  then show ?thesis by (auto simp: separate_def in_region_def)
qed

lemma rep_stosl_snd: "snd (rep_stosl n m eax edi) = padd edi (of_nat (4 * n))"
  by (induction n arbitrary: m edi) (simp_all add: algebra_simps)

lemma rep_stosl_fill:
  "4 * n \<le> 2 ^ 32 \<Longrightarrow>
   fst (rep_stosl n m eax edi) = fill_region m edi (4 * n) (\<lambda>k. ucast (drop_bit (8 * (unat k mod 4)) eax))"
proof (induction n arbitrary: m edi)
  case 0
  then show ?case by simp
next
  case (Suc n)
  let ?f = "\<lambda>k::u32. ucast (drop_bit (8 * (unat k mod 4)) eax) :: u8"
  have "st32 m edi eax = fill_region m edi 4 ?f"
    unfolding st32_eq_fill by (rule fill_region_cong) simp
  moreover have "?f k = ?f (k + 4)" if "unat k < 4 * n" for k :: u32
  proof -
    have "unat (k + 4) = unat k + 4"
      using that Suc.prems unat_add_lem [of k 4] by simp
    then show ?thesis by simp
  qed
  ultimately show ?case
    using Suc fill_region_append [of 4 "4 * n" m edi ?f]
    by (simp add: fill_region_cong [of "4 * n" ?f "\<lambda>k. ?f (k + 4)"])
qed

lemma memset_bottom_fill:
  "n \<le> 2 ^ 32 \<Longrightarrow> memset_bottom n m eax edi = fill_region m edi n (\<lambda>_. ucast eax)"
proof (induction n arbitrary: m edi)
  case 0
  then show ?case by simp
next
  case (Suc n)
  then show ?case
    using fill_region_append [of 1 n m edi "\<lambda>_. ucast eax"] by (simp add: fill_region_1)
qed

lemma memset_aligned_fill:
  assumes "n \<le> 2 ^ 32" and "\<And>k. k < 4 \<Longrightarrow> (ucast (drop_bit (8 * k) eax) :: u8) = ucast eax"
  shows "memset_aligned n m eax edi = fill_region m edi n (\<lambda>_. ucast eax)"
proof -
  have "rep_stosl (n div 4) m eax edi
    = (fill_region m edi (4 * (n div 4)) (\<lambda>_. ucast eax), padd edi (of_nat (4 * (n div 4))))"
    using rep_stosl_fill [of "n div 4" m eax edi] rep_stosl_snd [of "n div 4" m eax edi] assms
    by (simp add: prod_eq_iff)
  then show ?thesis
    using fill_region_append [of "4 * (n div 4)" "n mod 4" m edi "\<lambda>_. ucast eax"] assms(1)
    by (simp add: memset_aligned_def memset_bottom_fill)
qed

lemma memset_top_fill:
  assumes "n \<le> 2 ^ 32" and "\<And>k. k < 4 \<Longrightarrow> (ucast (drop_bit (8 * k) eax) :: u8) = ucast eax"
  shows "memset_top n m eax edi = fill_region m edi n (\<lambda>_. ucast eax)"
  using assms(1)
proof (induction n arbitrary: m edi)
  case 0
  then show ?case by simp
next
  case (Suc n)
  show ?case
  proof (cases "snd edi AND 3 = 0")
    case True
    then show ?thesis using Suc.prems assms(2) by (simp add: memset_aligned_fill)
  next
    case False
    then show ?thesis
      using Suc fill_region_append [of 1 n m edi "\<lambda>_. ucast eax"] by (simp add: fill_region_1)
  qed
qed

lemma and_0xFF: "(c :: u32) AND 0xFF = ucast (ucast c :: u8)"
proof -
  have "c AND mask 8 = ucast (ucast c :: u8)"
    by (rule bit_word_eqI) (auto simp only: bit_simps, auto)
  then show ?thesis by (simp add: mask_eq_exp_minus_1)
qed

lemma replicated_byte:
  fixes b :: u8
  defines "c \<equiv> ucast b :: u32"
  assumes "k < 4"
  shows "(ucast (drop_bit (8 * k) (push_bit 24 c OR push_bit 16 c OR push_bit 8 c OR c)) :: u8) = b"
proof -
  from assms(2) have "k = 0 \<or> k = 1 \<or> k = 2 \<or> k = 3" by auto
  then show ?thesis unfolding c_def
    by (elim disjE; intro bit_word_eqI; auto simp: bit_simps dest: bit_imp_le_length)
qed

section \<open>Lemmas: copying\<close>

lemma separate_shift: "separate p (a + b) q (a + b) \<Longrightarrow> separate (padd p k) b (padd q k) b"
  by (auto simp: separate_def)

lemma rep_movsl_copy:
  "4 * n \<le> 2 ^ 32 \<Longrightarrow> separate edi (4 * n) esi (4 * n) \<Longrightarrow>
   rep_movsl n m edi esi
     = (copy_region m edi esi (4 * n), padd edi (of_nat (4 * n)), padd esi (of_nat (4 * n)))"
proof (induction n arbitrary: m edi esi)
  case 0
  then show ?case by simp
next
  case (Suc n)
  have "\<not> in_region edi 4 (padd esi (4 + k))" if "unat k < 4 * n" for k
  proof -
    have "unat (4 + k) < 4 * Suc n"
      using that Suc.prems(1) unat_of_nat_add_less [of k "4 * n" 4] by simp
    then show ?thesis by (intro separate_no_read [OF Suc.prems(2)]) simp_all
  qed
  moreover have "separate (padd edi 4) (4 * n) (padd esi 4) (4 * n)"
    using Suc.prems(2) by (intro separate_shift [where a = 4]) simp
  ultimately show ?case
    using Suc copy_region_append [of 4 "4 * n" edi esi m]
    by (simp add: st32_ld32 algebra_simps)
qed

lemma copy_step:
  assumes "Suc n \<le> 2 ^ 32" and "separate d (Suc n) s (Suc n)"
  shows "copy_region (m(d := m s)) (padd d 1) (padd s 1) n = copy_region m d s (Suc n)"
proof -
  have "\<not> in_region d 1 (padd s (1 + k))" if "unat k < n" for k
  proof -
    have "unat (1 + k) < Suc n"
      using that assms(1) unat_of_nat_add_less [of k n 1] by simp
    then show ?thesis by (intro separate_no_read [OF assms(2)]) simp_all
  qed
  then show ?thesis
    using copy_region_append [of 1 n d s m] assms(1) by (simp add: copy_region_1)
qed

lemma separate_step: "separate d (Suc n) s (Suc n) \<Longrightarrow> separate (padd d 1) n (padd s 1) n"
  by (rule separate_shift [where a = 1]) simp

lemma memcpy_bottom_copy:
  "n \<le> 2 ^ 32 \<Longrightarrow> separate edi n esi n \<Longrightarrow> memcpy_bottom n m edi esi = copy_region m edi esi n"
  by (induction n arbitrary: m edi esi) (simp_all add: copy_step separate_step)

lemma memcpy_aligned_copy:
  assumes "n \<le> 2 ^ 32" and "separate edi n esi n"
  shows "memcpy_aligned n m edi esi = copy_region m edi esi n"
proof -
  let ?a = "4 * (n div 4)"
  have sep: "separate edi ?a esi ?a" using assms(2) by (rule separate_mono) simp_all
  have sep2: "separate (padd edi (of_nat ?a)) (n mod 4) (padd esi (of_nat ?a)) (n mod 4)"
    by (rule separate_shift [where a = ?a]) (simp add: assms(2))
  have "\<not> in_region edi ?a (padd esi (of_nat ?a + k))" if "unat k < n mod 4" for k
  proof -
    have "unat (of_nat ?a + k) < n"
      using that assms(1) unat_of_nat_add_less [of k "n mod 4" ?a] by (simp del: of_nat_mult)
    then show ?thesis by (intro separate_no_read [OF assms(2)]) simp_all
  qed
  then show ?thesis
    using copy_region_append [of ?a "n mod 4" edi esi m] assms(1) sep sep2
    by (simp add: memcpy_aligned_def rep_movsl_copy memcpy_bottom_copy del: of_nat_mult)
qed

lemma memcpy_top_copy:
  "n \<le> 2 ^ 32 \<Longrightarrow> separate edi n esi n \<Longrightarrow> memcpy_top n m edi esi = copy_region m edi esi n"
proof (induction n arbitrary: m edi esi)
  case 0
  then show ?case by simp
next
  case (Suc n)
  then show ?case
    by (cases "snd edi AND 3 = 0") (simp_all add: memcpy_aligned_copy copy_step separate_step)
qed

lemma rep_movsb_up:
  "n \<le> 2 ^ 32 \<Longrightarrow> (\<And>k. k < n \<Longrightarrow> \<not> in_region edi k (padd esi (of_nat k))) \<Longrightarrow>
   rep_movsb False n m edi esi = copy_region m edi esi n"
proof (induction n arbitrary: m edi esi)
  case 0
  then show ?case by simp
next
  case (Suc n)
  have "\<not> in_region (padd edi 1) k (padd (padd esi 1) (of_nat k))" if "k < n" for k
    using Suc.prems(2) [of "Suc k"] that Suc.prems(1) in_region_offset [of 1 k edi]
    by (simp add: algebra_simps)
  then have "rep_movsb False n (m(edi := m esi)) (padd edi 1) (padd esi 1)
    = copy_region (copy_region m edi esi 1) (padd edi 1) (padd esi 1) n"
    using Suc.IH [of "padd edi 1" "padd esi 1"] Suc.prems(1) by (simp add: copy_region_1)
  moreover have "\<not> in_region edi 1 (padd esi (1 + k))" if "unat k < n" for k
    using Suc.prems(2) [of "Suc (unat k)"] that by (auto simp: in_region_def)
  ultimately show ?case using copy_region_append [of 1 n edi esi m] Suc.prems(1) by simp
qed

lemma rep_movsb_down:
  "n \<le> 2 ^ 32 \<Longrightarrow>
   (\<And>k. k < n \<Longrightarrow> \<not> in_region (padd edi (of_nat (Suc k))) (n - Suc k) (padd esi (of_nat k))) \<Longrightarrow>
   rep_movsb True n m (padd edi (of_nat n - 1)) (padd esi (of_nat n - 1)) = copy_region m edi esi n"
proof (induction n arbitrary: m)
  case 0
  then show ?case by simp
next
  case (Suc n)
  let ?m = "m(padd edi (of_nat n) := m (padd esi (of_nat n)))"
  have m: "?m = copy_region m (padd edi (of_nat n)) (padd esi (of_nat n)) 1"
    by (simp add: copy_region_1)
  have IH: "rep_movsb True n ?m (padd edi (of_nat n - 1)) (padd esi (of_nat n - 1))
    = copy_region ?m edi esi n"
  proof (rule Suc.IH)
    show "n \<le> 2 ^ 32" using Suc.prems(1) by simp
    show "\<not> in_region (padd edi (of_nat (Suc k))) (n - Suc k) (padd esi (of_nat k))"
      if "k < n" for k
      using Suc.prems(2) [of k] that by (auto simp: in_region_def)
  qed
  have src: "?m (padd esi k) = m (padd esi k)" if "unat k < n" for k
  proof -
    have "padd esi k \<noteq> padd edi (of_nat n)"
    proof
      assume eq: "padd esi k = padd edi (of_nat n)"
      have "unat (of_nat n - (1 + k) :: u32) = n - Suc (unat k)"
        using that Suc.prems(1) by (simp add: unat_diff_cases unat_of_nat word_le_nat_alt unat_word_ariths)
      then have "in_region (padd edi (of_nat (Suc (unat k)))) (Suc n - Suc (unat k)) (padd esi k)"
        unfolding eq using that by (simp add: in_region_def algebra_simps)
      then show False using Suc.prems(2) [of "unat k"] that by simp
    qed
    then show ?thesis by simp
  qed
  have "copy_region ?m edi esi n = fill_region ?m edi n (\<lambda>k. m (padd esi k))"
    unfolding copy_region_eq_fill by (rule fill_region_cong) (rule src)
  also have "\<dots> = copy_region m edi esi (Suc n)"
    unfolding copy_region_eq_fill using Suc.prems(1)
    by (intro fill_region_Suc [where f = "\<lambda>k. m (padd esi k)"]) simp
  finally show ?case using IH by (simp add: algebra_simps)
qed

section \<open>Correctness of the block operations\<close>

definition memmove_ok :: "ptr \<Rightarrow> ptr \<Rightarrow> nat \<Rightarrow> bool" where
  "memmove_ok d s n \<longleftrightarrow> fst d = fst s \<and> unat (snd d) + n \<le> 2 ^ 32 \<and> unat (snd s) + n \<le> 2 ^ 32"

lemma memcpy_copy: "separate d (unat n) s (unat n) \<Longrightarrow> memcpy m d s n = copy_region m d s (unat n)"
  using unat_u32_less [of n] by (simp add: memcpy_def memcpy_top_copy)

lemma memcpy_disjoint:
  assumes "\<And>r. in_region d (unat n) r \<Longrightarrow> \<not> in_region s (unat n) r"
  shows "memcpy m d s n = put_bytes m d (bytes_at m s (unat n))"
proof -
  have "separate d (unat n) s (unat n)"
    using separateI [OF assms] by (cases "unat n = 0") (simp_all add: separate_def)
  then show ?thesis using unat_u32_less [of n] by (simp add: memcpy_copy copy_region_put_bytes)
qed

lemma memmove_copy:
  assumes "memmove_ok d s (unat n)"
  shows "memmove m d s n = (copy_region m d s (unat n), snd s < snd d)"
proof (cases "snd d \<le> snd s")
  case True
  have "\<not> in_region d k (padd s (of_nat k))" if "k < unat n" for k
  proof -
    have "unat (snd s - snd d) + k < 2 ^ 32"
      using assms True that unat_u32_less [of "snd s"] by (auto simp: memmove_ok_def unat_diff_cases)
    then have "unat ((snd s - snd d) + of_nat k) = unat (snd s - snd d) + k"
      using unat_add_lem [of "snd s - snd d" "of_nat k"] by (simp add: unat_of_nat)
    then show ?thesis by (simp add: in_region_def diff_add_eq)
  qed
  then show ?thesis
    using True unat_u32_less [of n] by (simp add: memmove_def rep_movsb_up)
next
  case False
  have "\<not> in_region (padd d (of_nat (Suc k))) (unat n - Suc k) (padd s (of_nat k))"
    if "k < unat n" for k
  proof -
    have "in_region (padd d (of_nat (Suc k))) (unat n - Suc k) (padd s (of_nat k))
      \<Longrightarrow> unat (snd s - (snd d + 1)) < unat n - Suc k"
      by (simp add: in_region_def algebra_simps)
    moreover have "unat (snd s - (snd d + 1)) = 2 ^ 32 + unat (snd s) - (unat (snd d) + 1)"
      using False unat_u32_less [of "snd d"] unat_u32_less [of "snd s"]
      by (cases "unat (snd d) + 1 = 2 ^ 32")
        (auto simp: unat_diff_cases word_le_nat_alt unat_word_ariths)
    ultimately show ?thesis using assms that by (auto simp: memmove_ok_def)
  qed
  then have "rep_movsb True (unat n) m (padd d (of_nat (unat n) - 1)) (padd s (of_nat (unat n) - 1))
    = copy_region m d s (unat n)"
    using unat_u32_less [of n] by (intro rep_movsb_down) simp_all
  with False show ?thesis by (simp add: memmove_def not_le)
qed

interpretation memcpy_blk: block_copy memcpy "\<lambda>d s n. separate d n s n"
  by unfold_locales (rule memcpy_copy)

interpretation memmove_blk: block_copy "\<lambda>m d s n. fst (memmove m d s n)" memmove_ok
  by unfold_locales (simp add: memmove_copy)

lemma unat_plus_small: "unat (k :: u32) + unat d < 2 ^ 32 \<Longrightarrow> unat (k + d) = unat k + unat d"
  using unat_add_lem [of k d] by simp

lemma rep_stosw_fill:
  "2 * n \<le> 2 ^ 32 \<Longrightarrow>
   fst (rep_stosw n m eax edi) = fill_region m edi (2 * n) (\<lambda>k. ucast (drop_bit (8 * (unat k mod 2)) eax))"
proof (induction n arbitrary: m edi)
  case 0
  then show ?case by simp
next
  case (Suc n)
  let ?f = "\<lambda>k::u32. ucast (drop_bit (8 * (unat k mod 2)) eax) :: u8"
  have "m(edi := ucast eax, padd edi 1 := ucast (drop_bit 8 eax)) = fill_region m edi 2 ?f"
    using fill_region_append [of 1 1 m edi ?f] by (simp add: fill_region_1 flip: numeral_2_eq_2)
  moreover have "?f k = ?f (k + 2)" if "unat k < 2 * n" for k :: u32
    using that Suc.prems by (simp add: unat_plus_small)
  ultimately show ?case
    using Suc fill_region_append [of 2 "2 * n" m edi ?f]
    by (simp add: fill_region_cong [of "2 * n" ?f "\<lambda>k. ?f (k + 2)"])
qed

section \<open>Properties\<close>

text \<open>
  \<open>memset\<close> (a byte loop up to alignment, a dword loop and a byte tail) sets exactly the
  \<open>n\<close> bytes from \<open>s\<close> on to the low byte of \<open>c\<close> and changes no other byte, for every
  address, value and count.
\<close>

theorem memset_correct: "memset m s c n = fill_region m s (unat n) (\<lambda>_. ucast c)"
proof -
  let ?e = "push_bit 24 (c AND 0xFF) OR push_bit 16 (c AND 0xFF) OR push_bit 8 (c AND 0xFF) OR c AND 0xFF"
  have b: "(ucast (drop_bit (8 * k) ?e) :: u8) = ucast c" if "k < 4" for k
    using replicated_byte [OF that, of "ucast c"] by (simp add: and_0xFF)
  then have "(ucast ?e :: u8) = ucast c" using b [of 0] by simp
  then show ?thesis
    using memset_top_fill [of "unat n" ?e m s] unat_u32_less [of n] b
    by (simp add: memset_def Let_def)
qed

text \<open>
  \<open>memset_word\<close> and \<open>memset_dword\<close> store \<open>n\<close> little-endian words of two and of four
  bytes: as long as the region fits the address space, exactly \<open>2 * n\<close> (\<open>4 * n\<close>) bytes
  are written and byte \<open>k\<close> is byte \<open>k mod 2\<close> (\<open>k mod 4\<close>) of \<open>c\<close>.
\<close>

theorem memset_wide_correct:
  assumes "4 * unat n \<le> 2 ^ 32"
  shows "memset_word m s c n
      = fill_region m s (2 * unat n) (\<lambda>k. ucast (drop_bit (8 * (unat k mod 2)) c))
    \<and> memset_dword m s c n
      = fill_region m s (4 * unat n) (\<lambda>k. ucast (drop_bit (8 * (unat k mod 4)) c))"
  using assms by (simp add: memset_word_def memset_dword_def rep_stosw_fill rep_stosl_fill)

theorem memset_wide_correct_witness:
  "bytes_at (memset_word (\<lambda>_. 0) (Global, 16) 0x0720 2) (Global, 16) 5 = [0x20, 7, 0x20, 7, 0]
   \<and> bytes_at (memset_dword (\<lambda>_. 0) (Global, 16) 0x01020304 1) (Global, 16) 5 = [4, 3, 2, 1, 0]"
proof -
  have h: "4 * unat (2 :: u32) \<le> 2 ^ 32" "4 * unat (1 :: u32) \<le> 2 ^ 32" by simp_all
  show ?thesis
    using memset_wide_correct [OF h(1), of "\<lambda>_. 0" "(Global, 16)" "0x0720"]
      memset_wide_correct [OF h(2), of "\<lambda>_. 0" "(Global, 16)" "0x01020304"]
    by (simp add: bytes_at_def upt_rec fill_region_def in_region_def padd_def)
qed

text \<open>
  For separate regions \<open>memcpy\<close> leaves at the destination exactly the source's bytes and
  changes no byte outside the destination, whatever the alignment of the two pointers.
\<close>

theorem memcpy_correct:
  assumes "separate dest (unat n) src (unat n)"
  shows "bytes_at (memcpy m dest src n) dest (unat n) = bytes_at m src (unat n)
    \<and> (\<forall>r. \<not> in_region dest (unat n) r \<longrightarrow> memcpy m dest src n r = m r)"
  using memcpy_blk.bytes_copied [OF assms] memcpy_blk.bytes_elsewhere [OF assms] by simp

theorem memcpy_correct_witness:
  "bytes_at (memcpy (\<lambda>p. ucast (snd p)) (Global, 0x1001) (Global, 0x2003) 6) (Global, 0x1001) 6
     = [3, 4, 5, 6, 7, 8]
   \<and> memcpy (\<lambda>p. ucast (snd p)) (Global, 0x1001) (Global, 0x2003) 6 (Global, 0x1007) = 7"
proof -
  have h: "separate (Global, 0x1001) (unat (6 :: u32)) (Global, 0x2003) (unat (6 :: u32))"
    by (simp add: separate_def)
  have r: "\<not> in_region (Global, 0x1001) (unat (6 :: u32)) (Global, 0x1007)"
    by (simp add: in_region_def)
  show ?thesis
    using memcpy_correct [OF h, of "\<lambda>p. ucast (snd p)"] r
    by (simp add: bytes_at_def upt_rec padd_def)
qed

text \<open>
  \<open>memmove\<close> copies correctly for every overlap of two regions of one address space that
  do not wrap around its top, and the direction flag it returns with is set exactly when the
  copy ran downwards (\<open>std\<close> is never undone by \<open>cld\<close>).
\<close>

theorem memmove_correct:
  assumes "memmove_ok dest src (unat n)"
  shows "bytes_at (fst (memmove m dest src n)) dest (unat n) = bytes_at m src (unat n)
    \<and> (\<forall>r. \<not> in_region dest (unat n) r \<longrightarrow> fst (memmove m dest src n) r = m r)
    \<and> (snd (memmove m dest src n) \<longleftrightarrow> snd src < snd dest)"
  using memmove_blk.bytes_copied [OF assms] memmove_blk.bytes_elsewhere [OF assms] assms
  by (simp add: memmove_copy)

theorem memmove_correct_witness:
  "bytes_at (fst (memmove (\<lambda>p. ucast (snd p)) (Global, 0x12) (Global, 0x10) 5)) (Global, 0x12) 5
     = [0x10, 0x11, 0x12, 0x13, 0x14]
   \<and> fst (memmove (\<lambda>p. ucast (snd p)) (Global, 0x12) (Global, 0x10) 5) (Global, 0x17) = 0x17
   \<and> snd (memmove (\<lambda>p. ucast (snd p)) (Global, 0x12) (Global, 0x10) 5)"
proof -
  have h: "memmove_ok (Global, 0x12) (Global, 0x10) (unat (5 :: u32))"
    by (simp add: memmove_ok_def)
  have r: "\<not> in_region (Global, 0x12) (unat (5 :: u32)) (Global, 0x17)"
    by (simp add: in_region_def)
  show ?thesis
    using memmove_correct [OF h, of "\<lambda>p. ucast (snd p)"] r
    by (simp add: bytes_at_def upt_rec padd_def)
qed

end
