(* ===== verification/Lib_String.thy ===== *)
theory Lib_String
  imports Lib_Memory
begin

text \<open>
  The string functions of \<open>student-distrib/lib.c\<close>: \<open>strlen\<close>, \<open>strrev\<close>, \<open>itoa\<close>,
  \<open>strncmp\<close>, \<open>strcpy\<close> and \<open>strncpy\<close>, on NUL-terminated strings in memory. A loop that
  runs until it meets a NUL byte may never end, so \<open>strlen\<close>, \<open>strcpy\<close> and the digit loop of
  \<open>itoa\<close> return an option.
\<close>

section \<open>The functions\<close>

partial_function (option) strlen_from :: "mem \<Rightarrow> ptr \<Rightarrow> u32 \<Rightarrow> u32 option" where
  "strlen_from m s len = (if m (padd s len) \<noteq> 0 then strlen_from m s (len + 1) else Some len)"

definition strlen :: "mem \<Rightarrow> ptr \<Rightarrow> u32 option" where
  "strlen m s = strlen_from m s 0"

function strrev_loop :: "mem \<Rightarrow> ptr \<Rightarrow> int \<Rightarrow> int \<Rightarrow> mem" where
  "strrev_loop m s beg end' =
     (if beg < end'
      then let tmp = m (padd s (word_of_int end'));
               m = m(padd s (word_of_int end') := m (padd s (word_of_int beg)));
               m = m(padd s (word_of_int beg) := tmp)
           in strrev_loop m s (beg + 1) (end' - 1)
      else m)"
  by pat_completeness auto
termination
  by (relation "measure (\<lambda>(m, s, beg, end'). nat (end' - beg))") auto

definition strrev :: "mem \<Rightarrow> ptr \<Rightarrow> mem option" where
  "strrev m s = do { n \<leftarrow> strlen m s; Some (strrev_loop m s 0 (sint (n - 1))) }"

definition lookup :: "u8 list" where
  "lookup = cbytes ''0123456789ABCDEFGHIJKLMNOPQRSTUVWXYZ'' @ [0]"

text \<open>
  \<open>newval % radix\<close> and \<open>newval / radix\<close> are unsigned, since \<open>newval\<close> is. A zero radix
  divides by zero and a digit of 37 or more reads past \<open>lookup\<close>: both are \<open>None\<close>.
\<close>

partial_function (option) itoa_loop :: "mem \<Rightarrow> ptr \<Rightarrow> u32 \<Rightarrow> u32 \<Rightarrow> (mem \<times> ptr) option" where
  "itoa_loop m newbuf newval radix =
     (if newval > 0
      then if radix = 0 then None
           else do {
             c \<leftarrow> arr_get lookup (unat (newval mod radix));
             itoa_loop (m(newbuf := c)) (padd newbuf 1) (newval div radix) radix }
      else Some (m, newbuf))"

definition itoa :: "mem \<Rightarrow> u32 \<Rightarrow> ptr \<Rightarrow> int \<Rightarrow> mem option" where
  "itoa m value buf radix =
     (if value = 0 then Some (m(buf := 48, padd buf 1 := 0))
      else do {
        (m, newbuf) \<leftarrow> itoa_loop m buf value (word_of_int radix);
        strrev (m(newbuf := 0)) buf })"

function strncmp_from :: "mem \<Rightarrow> ptr \<Rightarrow> ptr \<Rightarrow> u32 \<Rightarrow> u32 \<Rightarrow> int" where
  "strncmp_from m s1 s2 n i =
     (if i < n
      then if m (padd s1 i) \<noteq> m (padd s2 i) \<or> m (padd s1 i) = 0
           then sint (m (padd s1 i)) - sint (m (padd s2 i))
           else strncmp_from m s1 s2 n (i + 1)
      else 0)"
  by pat_completeness auto
termination
  by (relation "measure (\<lambda>(m, s1, s2, n, i). unat n - unat i)")
    (auto simp: loop_measure)

definition strncmp :: "mem \<Rightarrow> ptr \<Rightarrow> ptr \<Rightarrow> u32 \<Rightarrow> int" where
  "strncmp m s1 s2 n = strncmp_from m s1 s2 n 0"

partial_function (option) strcpy_from :: "mem \<Rightarrow> ptr \<Rightarrow> ptr \<Rightarrow> u32 \<Rightarrow> mem option" where
  "strcpy_from m dest src i =
     (if m (padd src i) \<noteq> 0
      then strcpy_from (m(padd dest i := m (padd src i))) dest src (i + 1)
      else Some (m(padd dest i := 0)))"

definition strcpy :: "mem \<Rightarrow> ptr \<Rightarrow> ptr \<Rightarrow> mem option" where
  "strcpy m dest src = strcpy_from m dest src 0"

function strncpy_copy :: "mem \<Rightarrow> ptr \<Rightarrow> ptr \<Rightarrow> u32 \<Rightarrow> u32 \<Rightarrow> mem \<times> u32" where
  "strncpy_copy m dest src n i =
     (if m (padd src i) \<noteq> 0 \<and> i < n
      then strncpy_copy (m(padd dest i := m (padd src i))) dest src n (i + 1)
      else (m, i))"
  by pat_completeness auto
termination
  by (relation "measure (\<lambda>(m, d, s, n, i). unat n - unat i)")
    (auto simp: loop_measure)

function strncpy_pad :: "mem \<Rightarrow> ptr \<Rightarrow> u32 \<Rightarrow> u32 \<Rightarrow> mem" where
  "strncpy_pad m dest n i =
     (if i < n then strncpy_pad (m(padd dest i := 0)) dest n (i + 1) else m)"
  by pat_completeness auto
termination
  by (relation "measure (\<lambda>(m, d, n, i). unat n - unat i)")
    (auto simp: loop_measure)

definition strncpy :: "mem \<Rightarrow> ptr \<Rightarrow> ptr \<Rightarrow> u32 \<Rightarrow> mem" where
  "strncpy m dest src n = (let (m', i) = strncpy_copy m dest src n 0 in strncpy_pad m' dest n i)"

declare strrev_loop.simps [simp del] strncmp_from.simps [simp del]
  strncpy_copy.simps [simp del] strncpy_pad.simps [simp del]

section \<open>Lemmas: scanning and copying\<close>

lemma strlen_from_cstr:
  assumes "cstr m s str" and "k \<le> length str"
  shows "strlen_from m s (of_nat k) = Some (of_nat (length str))"
  using assms(2)
proof (induction "length str - k" arbitrary: k)
  case 0
  then show ?case using cstr_end [OF assms(1)] by (simp add: strlen_from.simps)
next
  case (Suc d)
  then have "k < length str" by simp
  moreover have "strlen_from m s (of_nat (Suc k)) = Some (of_nat (length str))"
    using Suc by (intro Suc.hyps) simp_all
  ultimately show ?case
    using cstr_nth(2) [OF assms(1), of k]
    by (simp add: strlen_from.simps [of m s "of_nat k"] add.commute)
qed

lemma strlen_cstr: "cstr m s str \<Longrightarrow> strlen m s = Some (of_nat (length str))"
  using strlen_from_cstr [of m s str 0] by (simp add: strlen_def)

lemma strlen_from_NUL:
  assumes ret: "strlen_from m s len = Some n"
  shows "m (padd s n) = 0"
proof (rule strlen_from.raw_induct [where P = "\<lambda>m s len n. m (padd s n) = 0", OF _ ret])
  fix f m s len n
  assume IH: "\<And>m s len n. f m s len = Some n \<Longrightarrow> m (padd s n) = (0 :: u8)"
    and eq: "(if m (padd s len) \<noteq> 0 then f m s (len + 1) else Some len) = Some n"
  show "m (padd s n) = 0"
    using IH [of m s "len + 1" n] eq by (cases "m (padd s len) = 0") simp_all
qed

lemma strcpy_from_copy:
  assumes "cstr m src str" and "separate dest (Suc (length str)) src (Suc (length str))"
    and "k \<le> length str"
  shows "strcpy_from (copy_region m dest src k) dest src (of_nat k)
    = Some (copy_region m dest src (Suc (length str)))"
  using assms(3)
proof (induction "length str - k" arbitrary: k)
  let ?n = "length str"
  have len: "?n < 2 ^ 32" using assms(1) by (simp add: cstr_def)
  have src: "copy_region m dest src k (padd src (of_nat k)) = m (padd src (of_nat k))"
    if "k \<le> ?n" for k
    using separate_no_read [OF assms(2), of "of_nat k" k] that len
    by (simp add: copy_region_def unat_of_nat)
  have upd: "(copy_region m dest src k)(padd dest (of_nat k) := m (padd src (of_nat k)))
    = copy_region m dest src (Suc k)" if "k \<le> ?n" for k
    unfolding copy_region_eq_fill using that len
    by (intro fill_region_upd_last [where f = "\<lambda>k. m (padd src k)"]) simp
  {
    case 0
    then have "k = ?n" by simp
    then show ?case
      using cstr_end [OF assms(1)] src [of k] upd [of k] by (simp add: strcpy_from.simps)
  next
    case (Suc d)
    then have k: "k < ?n" by simp
    have "strcpy_from (copy_region m dest src (Suc k)) dest src (of_nat (Suc k))
      = Some (copy_region m dest src (Suc ?n))"
      using Suc by (intro Suc.hyps) simp_all
    then show ?case
      using cstr_nth(2) [OF assms(1) k] src [of k] upd [of k] k
      by (simp add: strcpy_from.simps [of _ dest src "of_nat k"] add.commute)
  }
qed

lemma strcpy_copy:
  "cstr m src str \<Longrightarrow> separate dest (Suc (length str)) src (Suc (length str)) \<Longrightarrow>
   strcpy m dest src = Some (copy_region m dest src (Suc (length str)))"
  using strcpy_from_copy [of m src str dest 0] by (simp add: strcpy_def)

lemma sint_u8_diff_zero: "sint (a :: u8) - sint b = 0 \<longleftrightarrow> a = b"
  using signed_word_eqI [of a b] by auto

lemma strncmp_from_zero_iff:
  "i \<le> n \<Longrightarrow> strncmp_from m s1 s2 n i = 0 \<longleftrightarrow>
   upto_nul (bytes_at m (padd s1 i) (unat n - unat i)) = upto_nul (bytes_at m (padd s2 i) (unat n - unat i))"
proof (induction m s1 s2 n i rule: strncmp_from.induct)
  case (1 m s1 s2 n i)
  show ?case
  proof (cases "i < n")
    case True
    then have k: "unat n - unat i = Suc (unat n - unat (i + 1))" and i: "i + 1 \<le> n"
      using unat_add_1_less [OF True] by (simp_all add: word_less_nat_alt word_le_nat_alt)
    show ?thesis
    proof (cases "m (padd s1 i) \<noteq> m (padd s2 i) \<or> m (padd s1 i) = 0")
      case True
      with \<open>i < n\<close> show ?thesis
        unfolding k bytes_at_Suc
        by (subst strncmp_from.simps) (simp only: sint_u8_diff_zero if_True, auto)
    next
      case False
      with \<open>i < n\<close> show ?thesis
        unfolding k bytes_at_Suc using "1.IH" i by (subst strncmp_from.simps) simp
    qed
  next
    case False
    with "1.prems" have "i = n" by simp
    then show ?thesis by (simp add: strncmp_from.simps bytes_at_def)
  qed
qed

lemma strncpy_copy_prefix:
  assumes "separate dest (unat n) src (unat n)"
    and pre: "pre = upto_nul (bytes_at m src (unat n))" and "k \<le> length pre"
  shows "strncpy_copy (copy_region m dest src k) dest src n (of_nat k)
    = (copy_region m dest src (length pre), of_nat (length pre))"
  using assms(3)
proof (induction "length pre - k" arbitrary: k)
  have len: "length pre \<le> unat n" unfolding pre using length_upto_nul [of "bytes_at m src (unat n)"] by simp
  have src: "copy_region m dest src k (padd src (of_nat k)) = m (padd src (of_nat k))"
    if "k < unat n" for k
    using separate_no_read [OF assms(1), of "of_nat k" k] that unat_u32_less [of n]
    by (simp add: copy_region_def unat_of_nat)
  have lt: "of_nat k < n \<longleftrightarrow> k < unat n" if "k \<le> unat n" for k
    using that unat_u32_less [of n] by (simp add: word_less_nat_alt unat_of_nat)
  {
    case 0
    then have "k = length pre" by simp
    moreover have "m (padd src (of_nat (length pre))) = 0" if "length pre < unat n"
      using nth_length_upto_nul [of "bytes_at m src (unat n)"] that by (simp flip: pre)
    ultimately show ?case
      using src [of k] lt [of k] len by (subst strncpy_copy.simps) auto
  next
    case (Suc d)
    then have k: "k < length pre" by simp
    then have nz: "m (padd src (of_nat k)) \<noteq> 0"
      using nth_upto_nul [of k "bytes_at m src (unat n)"] len by (simp flip: pre)
    have upd: "(copy_region m dest src k)(padd dest (of_nat k) := m (padd src (of_nat k)))
      = copy_region m dest src (Suc k)"
      unfolding copy_region_eq_fill using k len unat_u32_less [of n]
      by (intro fill_region_upd_last [where f = "\<lambda>k. m (padd src k)"]) simp
    have "strncpy_copy (copy_region m dest src (Suc k)) dest src n (of_nat (Suc k))
      = (copy_region m dest src (length pre), of_nat (length pre))"
      using Suc by (intro Suc.hyps) simp_all
    then show ?case
      using src [of k] lt [of k] k len nz upd
      by (subst strncpy_copy.simps) (simp add: add.commute)
  }
qed

lemma strncpy_pad_zeros:
  "k \<le> unat n \<Longrightarrow> strncpy_pad m dest n (of_nat k)
    = put_bytes m (padd dest (of_nat k)) (replicate (unat n - k) 0)"
proof (induction "unat n - k" arbitrary: k m)
  case 0
  then have "k = unat n" by simp
  then show ?case by (subst strncpy_pad.simps) simp
next
  case (Suc d)
  then have k: "k < unat n" by simp
  then have lt: "of_nat k < n" using unat_u32_less [of n] by (simp add: word_less_nat_alt unat_of_nat)
  have "strncpy_pad (m(padd dest (of_nat k) := 0)) dest n (of_nat (Suc k))
    = put_bytes (m(padd dest (of_nat k) := 0)) (padd dest (of_nat (Suc k))) (replicate (unat n - Suc k) 0)"
    using Suc by (intro Suc.hyps) simp_all
  also have "\<dots> = put_bytes m (padd dest (of_nat k)) (0 # replicate (unat n - Suc k) 0)"
    using put_bytes_Cons [of "replicate (unat n - Suc k) 0" m "padd dest (of_nat k)" 0] unat_u32_less [of n]
    by (simp add: add.commute)
  also have "0 # replicate (unat n - Suc k) 0 = replicate (unat n - k) (0 :: u8)"
    using k by (simp flip: replicate_Suc add: Suc_diff_Suc)
  finally show ?case using lt by (subst strncpy_pad.simps) (simp add: add.commute fun_upd_def)
qed

lemma strncpy_put:
  fixes m :: mem
  assumes "separate dest (unat n) src (unat n)"
  defines "pre \<equiv> upto_nul (bytes_at m src (unat n))"
  shows "strncpy m dest src n = put_bytes m dest (pre @ replicate (unat n - length pre) 0)"
proof -
  have len: "length pre \<le> unat n"
    unfolding pre_def using length_upto_nul [of "bytes_at m src (unat n)"] by simp
  have cp: "copy_region m dest src (length pre) = put_bytes m dest pre"
    unfolding copy_region_eq_fill put_bytes_def
  proof (rule fill_region_cong)
    fix k :: u32 assume "unat k < length pre"
    then show "m (padd src k) = pre ! unat k"
      using nth_upto_nul [of "unat k" "bytes_at m src (unat n)"] len by (simp flip: pre_def)
  qed
  have "strncpy_copy m dest src n 0 = (put_bytes m dest pre, of_nat (length pre))"
    using strncpy_copy_prefix [OF assms(1) pre_def [THEN meta_eq_to_obj_eq], of 0] cp by simp
  then show ?thesis
    using strncpy_pad_zeros [OF len] len unat_u32_less [of n]
      put_bytes_append [of pre "replicate (unat n - length pre) 0" m dest]
    by (simp add: strncpy_def)
qed

section \<open>Lemmas: reversing and numbers\<close>

lemma uint_eq_iff_u32: "0 \<le> b \<Longrightarrow> b < 2 ^ 32 \<Longrightarrow> (k :: u32) = word_of_int b \<longleftrightarrow> uint k = b"
  by (auto simp: uint_word_of_int_eq take_bit_int_eq_self)

lemma uint_u32_bounds: "0 \<le> uint (k :: u32)" "uint k < 2 ^ 32"
  using uint_bounded [of k] by simp_all

lemma strrev_loop_apply:
  "0 \<le> b \<Longrightarrow> e < 2 ^ 31 \<Longrightarrow>
   strrev_loop m s b e r = (if fst r = fst s \<and> b \<le> uint (snd r - snd s) \<and> uint (snd r - snd s) \<le> e
     then m (padd s (word_of_int (b + e - uint (snd r - snd s)))) else m r)"
proof (induction m s b e rule: strrev_loop.induct)
  case (1 m s b e)
  show ?case
  proof (cases "b < e")
    case False
    then have "m (padd s (word_of_int (b + e - uint (snd r - snd s)))) = m r"
      if "fst r = fst s" "b \<le> uint (snd r - snd s)" "uint (snd r - snd s) \<le> e"
    proof -
      from False that have "b + e - uint (snd r - snd s) = uint (snd r - snd s)" by linarith
      with that(1) show ?thesis by (simp only:) simp
    qed
    with False show ?thesis by (subst strrev_loop.simps) simp
  next
    case True
    let ?k = "snd r - snd s"
    let ?m = "m(padd s (word_of_int e) := m (padd s (word_of_int b)),
        padd s (word_of_int b) := m (padd s (word_of_int e)))"
    have unfold: "strrev_loop m s b e = strrev_loop ?m s (b + 1) (e - 1)"
      using True by (subst strrev_loop.simps) (simp add: Let_def)
    have IH: "strrev_loop ?m s (b + 1) (e - 1) r =
      (if fst r = fst s \<and> b + 1 \<le> uint ?k \<and> uint ?k \<le> e - 1
       then ?m (padd s (word_of_int (b + e - uint ?k))) else ?m r)"
      using "1.IH" [OF True refl refl refl] "1.prems" by (simp add: fun_upd_def)
    have at: "padd s (word_of_int j) = padd s (word_of_int i) \<longleftrightarrow> j = i"
      if "0 \<le> i" "i < 2 ^ 32" "0 \<le> j" "j < 2 ^ 32" for i j :: int
      using that uint_eq_iff_u32 [of i "word_of_int j"]
      by (simp add: uint_word_of_int_eq take_bit_int_eq_self)
    have r: "r = padd s (word_of_int i) \<longleftrightarrow> fst r = fst s \<and> uint ?k = i"
      if "0 \<le> i" "i < 2 ^ 32" for i
      using that uint_eq_iff_u32 [of i ?k] by (auto simp: padd_def prod_eq_iff algebra_simps)
    have inner: "?m (padd s (word_of_int (b + e - uint ?k))) = m (padd s (word_of_int (b + e - uint ?k)))"
      if "b + 1 \<le> uint ?k" "uint ?k \<le> e - 1"
      using that "1.prems" True at [of b "b + e - uint ?k"] at [of e "b + e - uint ?k"] by simp
    have outer: "?m r = (if fst r = fst s \<and> uint ?k = b then m (padd s (word_of_int e))
      else if fst r = fst s \<and> uint ?k = e then m (padd s (word_of_int b)) else m r)"
      using r [of b] r [of e] "1.prems" True by simp
    consider "fst r = fst s" "b + 1 \<le> uint ?k" "uint ?k \<le> e - 1" | "fst r = fst s" "uint ?k = b"
      | "fst r = fst s" "uint ?k = e" | "\<not> (fst r = fst s \<and> b \<le> uint ?k \<and> uint ?k \<le> e)"
      by linarith
    then show ?thesis
    proof cases
      case 1
      then show ?thesis unfolding unfold IH using inner by simp
    next
      case 2
      then show ?thesis unfolding unfold IH outer using True by simp
    next
      case 3
      then show ?thesis unfolding unfold IH outer using True by simp
    next
      case 4
      then have "\<not> (fst r = fst s \<and> b + 1 \<le> uint ?k \<and> uint ?k \<le> e - 1)"
        "\<not> (fst r = fst s \<and> uint ?k = b)" "\<not> (fst r = fst s \<and> uint ?k = e)" using True by auto
      then show ?thesis unfolding unfold IH outer using 4 by (simp only: if_False)
    qed
  qed
qed

lemma strrev_cstr:
  assumes "cstr m s str" and "length str < 2 ^ 31"
  shows "strrev m s = Some (put_bytes m s (rev str))"
proof -
  let ?n = "length str"
  have e: "sint (of_nat ?n - 1 :: u32) = int ?n - 1"
    using assms(2) sint_word_of_int_u32 [of "int ?n - 1"] by simp
  have "strrev_loop m s 0 (int ?n - 1) = put_bytes m s (rev str)"
  proof
    fix r :: ptr
    let ?k = "snd r - snd s"
    have u: "uint ?k = int (unat ?k)" by simp
    show "strrev_loop m s 0 (int ?n - 1) r = put_bytes m s (rev str) r"
    proof (cases "in_region s ?n r")
      case True
      then have k: "fst r = fst s" "unat ?k < ?n" by (simp_all add: in_region_def)
      have j: "0 + (int ?n - 1) - uint ?k = int (?n - 1 - unat ?k)" and b: "uint ?k \<le> int ?n - 1"
        using k(2) u by linarith+
      have "strrev_loop m s 0 (int ?n - 1) r = m (padd s (of_nat (?n - 1 - unat ?k)))"
        using k b assms(2) by (subst strrev_loop_apply) (simp_all only: j of_int_of_nat_eq, simp_all)
      also have "\<dots> = str ! (?n - 1 - unat ?k)"
        using k(2) by (intro cstr_nth(1) [OF assms(1)]) simp
      also have "\<dots> = put_bytes m s (rev str) r"
        using k(2) by (simp add: put_bytes_def fill_region_def True rev_nth)
      finally show ?thesis .
    next
      case False
      then have "\<not> (fst r = fst s \<and> uint ?k \<le> int ?n - 1)"
        unfolding in_region_def using u by linarith
      then show ?thesis using assms(2) False by (auto simp: strrev_loop_apply put_bytes_other)
    qed
  qed
  with e show ?thesis by (simp add: strrev_def strlen_cstr [OF assms(1)])
qed

text \<open>The reference: the digits of a number, most significant first, and their value.\<close>

fun ldigits :: "nat \<Rightarrow> nat \<Rightarrow> nat list" where
  "ldigits r n = (if n = 0 \<or> r < 2 then [] else n mod r # ldigits r (n div r))"

declare ldigits.simps [simp del]

lemma ldigits_0 [simp]: "ldigits r 0 = []"
  by (simp add: ldigits.simps)

definition to_digits :: "nat \<Rightarrow> nat \<Rightarrow> nat list" where
  "to_digits r n = (if n = 0 then [0] else rev (ldigits r n))"

definition of_digits :: "nat \<Rightarrow> nat list \<Rightarrow> nat" where
  "of_digits r ds = foldl (\<lambda>a d. a * r + d) 0 ds"

definition digit_bytes :: "nat list \<Rightarrow> u8 list" where
  "digit_bytes ds = map (\<lambda>d. lookup ! d) ds"

lemma of_digits_rev: "of_digits r (rev ds) = foldr (\<lambda>d a. a * r + d) ds 0"
  by (simp add: of_digits_def foldl_conv_foldr)

lemma ldigits_value: "2 \<le> r \<Longrightarrow> foldr (\<lambda>d a. a * r + d) (ldigits r n) 0 = n"
proof (induction r n rule: ldigits.induct)
  case (1 r n)
  then show ?case by (cases "n = 0") (simp_all add: ldigits.simps [of r n])
qed

lemma ldigits_less: "2 \<le> r \<Longrightarrow> d \<in> set (ldigits r n) \<Longrightarrow> d < r"
proof (induction r n rule: ldigits.induct)
  case (1 r n)
  then show ?case by (cases "n = 0") (auto simp: ldigits.simps [of r n])
qed

lemma ldigits_length: "2 \<le> r \<Longrightarrow> n < r ^ k \<Longrightarrow> length (ldigits r n) \<le> k"
proof (induction k arbitrary: n)
  case 0
  then show ?case by (simp add: ldigits.simps)
next
  case (Suc k)
  then have "n div r < r ^ k" by (simp add: less_mult_imp_div_less mult.commute)
  with Suc show ?case by (cases "n = 0") (simp_all add: ldigits.simps [of r n])
qed

lemma length_lookup: "length lookup = 37"
  by (simp add: lookup_def cbytes_def)

lemma lookup_nonzero: "d < 36 \<Longrightarrow> lookup ! d \<noteq> 0"
proof -
  assume d: "d < 36"
  let ?ds = "cbytes ''0123456789ABCDEFGHIJKLMNOPQRSTUVWXYZ''"
  have len: "length ?ds = 36" and nz: "0 \<notin> set ?ds" by (simp_all add: cbytes_def)
  have "lookup ! d = ?ds ! d" unfolding lookup_def using d len by (simp only: nth_append if_True)
  moreover have "?ds ! d \<in> set ?ds" using d len by (intro nth_mem) (simp only:)
  ultimately show ?thesis using nz by metis
qed

lemma itoa_loop_digits:
  assumes "2 \<le> unat radix" and "unat radix \<le> 36"
  shows "itoa_loop m p v radix
    = Some (put_bytes m p (digit_bytes (ldigits (unat radix) (unat v))),
        padd p (of_nat (length (ldigits (unat radix) (unat v)))))"
proof (induction "unat v" arbitrary: m p v rule: less_induct)
  case less
  show ?case
  proof (cases "v = 0")
    case True
    then show ?thesis by (simp add: itoa_loop.simps ldigits.simps digit_bytes_def)
  next
    case False
    let ?r = "unat radix"
    have d: "unat (v div radix) = unat v div ?r" "unat (v mod radix) = unat v mod ?r"
      by (simp_all add: unat_div unat_mod)
    have v: "0 < unat v" using False by (simp add: unat_gt_0)
    have ds: "ldigits ?r (unat v) = unat v mod ?r # ldigits ?r (unat v div ?r)"
      using v assms(1) by (simp add: ldigits.simps [of ?r "unat v"])
    have "unat v div ?r < unat v" using v assms(1) by simp
    then have IH: "itoa_loop m' p' (v div radix) radix
      = Some (put_bytes m' p' (digit_bytes (ldigits ?r (unat v div ?r))),
          padd p' (of_nat (length (ldigits ?r (unat v div ?r)))))" for m' p'
      using less.hyps [of "v div radix"] unfolding d(1) by blast
    have "unat v div ?r < ?r ^ 32"
    proof -
      have "unat v div ?r < 2 ^ 32" using unat_u32_less [of v] div_le_dividend [of "unat v" ?r] by linarith
      also have "\<dots> \<le> ?r ^ 32" using assms(1) by (rule power_mono) simp
      finally show ?thesis .
    qed
    then have len: "length (ldigits ?r (unat v div ?r)) \<le> 32"
      using assms(1) by (intro ldigits_length)
    have "unat v mod ?r < 37" using assms by (intro less_le_trans [OF mod_less_divisor]) simp_all
    then have "itoa_loop m p v radix
      = itoa_loop (m(p := lookup ! (unat v mod ?r))) (padd p 1) (v div radix) radix"
      using v assms(1) by (subst itoa_loop.simps)
        (auto simp: d length_lookup word_less_nat_alt)
    then show ?thesis
      using len unfolding IH ds by (simp add: digit_bytes_def put_bytes_Cons)
  qed
qed

lemma digit_bytes_nonzero: "(\<And>d. d \<in> set ds \<Longrightarrow> d < 36) \<Longrightarrow> 0 \<notin> set (digit_bytes ds)"
  using lookup_nonzero by (fastforce simp: digit_bytes_def)

lemma to_digits_bounds:
  assumes "2 \<le> r" and "n < r ^ k" and "0 < k"
  shows "of_digits r (to_digits r n) = n" and "\<forall>d \<in> set (to_digits r n). d < r"
    and "length (to_digits r n) \<le> k"
proof -
  have "of_digits r [0] = 0" by (simp add: of_digits_def)
  then show "of_digits r (to_digits r n) = n"
    using assms(1) ldigits_value [of r n] by (simp add: to_digits_def of_digits_rev)
qed (use assms ldigits_less [of r _ n] ldigits_length [of r n k] in \<open>auto simp: to_digits_def\<close>)

lemma ldigits_u32: "2 \<le> r \<Longrightarrow> length (ldigits r (unat (v :: u32))) \<le> 32"
proof -
  assume r: "2 \<le> r"
  have "unat v < 2 ^ 32" by (rule unat_u32_less)
  also have "(2::nat) ^ 32 \<le> r ^ 32" using r by (rule power_mono) simp
  finally show ?thesis by (rule ldigits_length [OF r])
qed

lemma put_bytes_snoc:
  "length bs < 2 ^ 32 \<Longrightarrow> (put_bytes m p bs)(padd p (of_nat (length bs)) := b) = put_bytes m p (bs @ [b])"
  using put_bytes_append [of bs "[b]" m p] by (simp add: put_bytes_def [of _ _ "[b]"] fill_region_1)

lemma put_bytes_twice:
  "length xs = length ys \<Longrightarrow> put_bytes (put_bytes m p (xs @ zs)) p ys = put_bytes m p (ys @ zs)"
  by (rule ext) (auto simp: put_bytes_def fill_region_def in_region_def nth_append)

lemma itoa_digits:
  assumes "2 \<le> radix" and "radix \<le> 36"
  shows "itoa m v buf radix = Some (put_bytes m buf (digit_bytes (to_digits (nat radix) (unat v)) @ [0]))"
proof (cases "v = 0")
  case True
  have "lookup ! 0 = 48" by (simp add: lookup_def cbytes_def)
  then have "put_bytes m buf (digit_bytes (to_digits (nat radix) 0) @ [0]) = m(buf := 48, padd buf 1 := 0)"
    using put_bytes_Cons [of "[0]" m buf 48]
    by (simp add: to_digits_def digit_bytes_def put_bytes_def [of _ _ "[0]"] fill_region_1)
  with True show ?thesis by (simp add: itoa_def)
next
  case False
  let ?ds = "ldigits (nat radix) (unat v)"
  have r: "unat (word_of_int radix :: u32) = nat radix"
    using assms by (simp add: unat_eq_nat_uint uint_word_of_int_eq take_bit_int_eq_self)
  have small: "d < 36" if "d \<in> set ?ds" for d
    using ldigits_less [OF _ that] assms by fastforce
  have len: "length (digit_bytes ?ds) \<le> 32"
    using ldigits_u32 [of "nat radix" v] assms by (simp add: digit_bytes_def)
  have loop: "itoa_loop m buf v (word_of_int radix)
    = Some (put_bytes m buf (digit_bytes ?ds), padd buf (of_nat (length (digit_bytes ?ds))))"
    using itoa_loop_digits [of "word_of_int radix" m buf v] assms
    by (simp add: r digit_bytes_def)
  have "cstr (put_bytes m buf (digit_bytes ?ds @ [0])) buf (digit_bytes ?ds)"
    using digit_bytes_nonzero [OF small] len by (intro cstr_put_bytes) auto
  from strrev_cstr [OF this] len
  have "strrev (put_bytes m buf (digit_bytes ?ds @ [0])) buf
    = Some (put_bytes m buf (rev (digit_bytes ?ds) @ [0]))"
    by (simp add: put_bytes_twice)
  moreover have "unat v \<noteq> 0" using False by (simp add: unat_eq_0)
  then have "rev (digit_bytes ?ds) = digit_bytes (to_digits (nat radix) (unat v))"
    by (simp add: to_digits_def digit_bytes_def rev_map)
  ultimately show ?thesis
    using False len loop put_bytes_snoc [of "digit_bytes ?ds" m buf 0] by (simp add: itoa_def)
qed

section \<open>Correctness of the string functions\<close>

text \<open>on a NUL-terminated string \<open>strlen\<close> returns its length, whatever surrounds it; and
  whenever \<open>strlen\<close> returns, the byte at the returned index is a NUL.\<close>

theorem strlen_correct:
  assumes "cstr m s str"
  shows "strlen m s = Some (of_nat (length str)) \<and> unat (of_nat (length str) :: u32) = length str
    \<and> (\<forall>p n. strlen m p = Some n \<longrightarrow> m (padd p n) = 0)"
  using strlen_cstr [OF assms] strlen_from_NUL [of m] assms
  by (auto simp: strlen_def cstr_def unat_of_nat)

theorem strlen_correct_witness:
  "strlen (put_bytes (\<lambda>_. 7) (Global, 100) ([72, 105] @ [0])) (Global, 100) = Some 2"
  using strlen_correct [OF cstr_put_bytes [of "[72, 105]" "\<lambda>_. 7" "(Global, 100)"]] by simp

text \<open>\<open>strcpy\<close> to a buffer that does not overlap the source returns, leaves the source's
  string at the destination, terminator included, and changes no byte outside those
  \<open>length + 1\<close> bytes.\<close>

theorem strcpy_correct:
  assumes "cstr m src str" and "separate dest (Suc (length str)) src (Suc (length str))"
  shows "\<exists>m'. strcpy m dest src = Some m' \<and> cstr m' dest str
    \<and> (\<forall>r. \<not> in_region dest (Suc (length str)) r \<longrightarrow> m' r = m r)"
proof (intro exI conjI)
  show "strcpy m dest src = Some (copy_region m dest src (Suc (length str)))"
    by (rule strcpy_copy [OF assms])
  have "copy_region m dest src (Suc (length str)) (padd dest k) = m (padd src k)"
    if "unat k < Suc (length str)" for k
    using that by (simp add: copy_region_eq_fill fill_region_apply)
  moreover have "length str < 2 ^ 32" using assms(1) by (simp add: cstr_def)
  ultimately show "cstr (copy_region m dest src (Suc (length str))) dest str"
    using cstr_nth(1) [OF assms(1)] assms(1)
    by (auto simp: cstr_def unat_of_nat intro!: nth_equalityI)
  show "\<forall>r. \<not> in_region dest (Suc (length str)) r \<longrightarrow>
    copy_region m dest src (Suc (length str)) r = m r"
    by (simp add: copy_region_def)
qed

theorem strcpy_correct_witness:
  "\<exists>m'. strcpy (put_bytes (\<lambda>_. 7) (Global, 100) ([72, 105] @ [0])) (Global, 200) (Global, 100) = Some m'
    \<and> cstr m' (Global, 200) [72, 105]"
  using strcpy_correct [OF cstr_put_bytes [of "[72, 105]" "\<lambda>_. 7" "(Global, 100)"], of "(Global, 200)"]
  by (auto simp: separate_def)

text \<open>\<open>strncpy\<close> writes exactly \<open>n\<close> bytes: the source up to its first NUL or its
  first \<open>n\<close> bytes, then zero padding. So the destination holds the string when it is shorter
  than \<open>n\<close>, and no terminator when it is not.\<close>

theorem strncpy_correct:
  fixes m :: mem
  assumes "separate dest (unat n) src (unat n)"
  shows "strncpy m dest src n = put_bytes m dest
      (upto_nul (bytes_at m src (unat n))
       @ replicate (unat n - length (upto_nul (bytes_at m src (unat n)))) 0)
    \<and> (\<forall>r. \<not> in_region dest (unat n) r \<longrightarrow> strncpy m dest src n r = m r)"
  using strncpy_put [OF assms, of m] length_upto_nul [of "bytes_at m src (unat n)"]
  by (simp add: put_bytes_other)

theorem strncpy_correct_witness:
  "bytes_at (strncpy (put_bytes (\<lambda>_. 7) (Global, 100) ([72, 105] @ [0])) (Global, 200) (Global, 100) 4)
     (Global, 200) 4 = [72, 105, 0, 0]"
  using strncpy_correct [of "(Global, 200)" 4 "(Global, 100)" "put_bytes (\<lambda>_. 7) (Global, 100) ([72, 105] @ [0])"]
  by (simp add: separate_def put_bytes_def fill_region_def in_region_def bytes_at_def upt_conv_Cons padd_def)

text \<open>\<open>strncmp\<close> returns 0 exactly when the two strings agree on their first \<open>n\<close> bytes
  up to the first NUL.\<close>

theorem strncmp_zero_iff:
  "strncmp m s1 s2 n = 0 \<longleftrightarrow>
   upto_nul (bytes_at m s1 (unat n)) = upto_nul (bytes_at m s2 (unat n))"
  using strncmp_from_zero_iff [of 0 n m s1 s2] by (simp add: strncmp_def)

text \<open>\<open>itoa\<close> with a radix between 2 and 36 returns, writes a NUL-terminated string of at
  most 32 digits to the buffer and nothing else, and that string denotes the value: reading its
  digits back in the radix gives it.\<close>

theorem itoa_roundtrip:
  assumes "2 \<le> radix" and "radix \<le> 36"
  shows "\<exists>m' ds. itoa m v buf radix = Some m' \<and> cstr m' buf (digit_bytes ds)
    \<and> of_digits (nat radix) ds = unat v \<and> (\<forall>d \<in> set ds. d < nat radix) \<and> length ds \<le> 32
    \<and> (\<forall>r. \<not> in_region buf (Suc (length ds)) r \<longrightarrow> m' r = m r)"
proof (intro exI conjI)
  let ?ds = "to_digits (nat radix) (unat v)"
  let ?m = "put_bytes m buf (digit_bytes ?ds @ [0])"
  show "itoa m v buf radix = Some ?m" by (rule itoa_digits [OF assms])
  have r: "2 \<le> nat radix" using assms(1) by simp
  have "unat v < nat radix ^ 32"
    using unat_u32_less [of v] power_mono [OF r, of 32] by simp
  note b = to_digits_bounds [OF r this]
  show "of_digits (nat radix) ?ds = unat v" "\<forall>d \<in> set ?ds. d < nat radix" "length ?ds \<le> 32"
    using b by simp_all
  then show "cstr ?m buf (digit_bytes ?ds)"
    using assms(2) by (intro cstr_put_bytes digit_bytes_nonzero) (fastforce simp: digit_bytes_def)+
  show "\<forall>r. \<not> in_region buf (Suc (length ?ds)) r \<longrightarrow> ?m r = m r"
    by (auto simp: digit_bytes_def intro!: put_bytes_other)
qed

theorem itoa_roundtrip_witness:
  "\<exists>m' ds. itoa (\<lambda>_. 7) 391 (Global, 100) 10 = Some m' \<and> cstr m' (Global, 100) (digit_bytes ds)
    \<and> of_digits 10 ds = 391"
  using itoa_roundtrip [of 10 "\<lambda>_. 7" 391 "(Global, 100)"] by auto

text \<open>\<open>strrev\<close> reverses a NUL-terminated string in place and changes no other byte;
  reversing twice restores the memory.\<close>

theorem strrev_involution:
  assumes "cstr m s str" and "length str < 2 ^ 31"
  shows "\<exists>m'. strrev m s = Some m' \<and> cstr m' s (rev str) \<and> strrev m' s = Some m
    \<and> (\<forall>r. \<not> in_region s (length str) r \<longrightarrow> m' r = m r)"
proof (intro exI conjI)
  let ?m = "put_bytes m s (rev str)"
  show "strrev m s = Some ?m" by (rule strrev_cstr [OF assms])
  have "?m (padd s (of_nat (length str))) = 0"
    using assms by (simp add: cstr_def put_bytes_other in_region_padd unat_of_nat)
  then show c: "cstr ?m s (rev str)"
    using assms bytes_at_put_bytes [of "length str" "rev str" m s] by (simp add: cstr_def)
  have "put_bytes ?m s str = m"
  proof
    fix r
    show "put_bytes ?m s str r = m r"
      using cstr_nth(1) [OF assms(1), of "unat (snd r - snd s)"]
      by (auto simp: put_bytes_def fill_region_def in_region_def)
  qed
  with strrev_cstr [OF c] assms(2) show "strrev ?m s = Some m" by simp
  show "\<forall>r. \<not> in_region s (length str) r \<longrightarrow> ?m r = m r" by (simp add: put_bytes_other)
qed

theorem strrev_involution_witness:
  "\<exists>m'. strrev (put_bytes (\<lambda>_. 7) (Global, 100) ([72, 105] @ [0])) (Global, 100) = Some m'
    \<and> cstr m' (Global, 100) [105, 72]"
  using strrev_involution [OF cstr_put_bytes [of "[72, 105]" "\<lambda>_. 7" "(Global, 100)"]] by auto

end
