(* ===== verification/I8259.thy ===== *)
theory I8259
  imports Prelude
begin

text \<open>
  The driver of the two cascaded 8259 interrupt controllers, \<open>student-distrib/i8259.c\<close>: the
  cached interrupt masks and the four operations. The locale \<open>irq_controller\<close> is what the
  device drivers rely on when they bracket their port accesses between \<open>disable_irq\<close> and
  \<open>enable_irq\<close>; the driver is interpreted in it.
\<close>

record pic_state = machine +
  master_mask :: u8
  slave_mask :: u8

abbreviation MASTER_8259_PORT :: u16 where "MASTER_8259_PORT \<equiv> 0x20"
abbreviation SLAVE_8259_PORT :: u16 where "SLAVE_8259_PORT \<equiv> 0xA0"
abbreviation MASTER_8259_DATA :: u16 where "MASTER_8259_DATA \<equiv> 0x21"
abbreviation SLAVE_8259_DATA :: u16 where "SLAVE_8259_DATA \<equiv> 0xA1"
abbreviation SLAVE_OFFSET :: u32 where "SLAVE_OFFSET \<equiv> 8"
abbreviation EOI :: u32 where "EOI \<equiv> 0x60"
abbreviation IRQ_SLAVE :: u32 where "IRQ_SLAVE \<equiv> 2"
abbreviation CASCADE_IRQ :: u32 where "CASCADE_IRQ \<equiv> 2"

section \<open>The operations\<close>

text \<open>The C expression \<open>1 << n\<close>, with the shift count the processor uses.\<close>

definition one_shl :: "u32 \<Rightarrow> u32" where
  "one_shl n = push_bit (unat (n AND 31)) 1"

definition enable_irq :: "u32 \<Rightarrow> 'a pic_state_scheme \<Rightarrow> 'a pic_state_scheme" where
  "enable_irq irq_num s =
     (if irq_num AND SLAVE_OFFSET \<noteq> 0
      then let mask = ucast (NOT (one_shl (irq_num - SLAVE_OFFSET)));
               s = s\<lparr>slave_mask := slave_mask s AND mask\<rparr>
           in outb (slave_mask s) SLAVE_8259_DATA s
      else let mask = ucast (NOT (one_shl irq_num));
               s = s\<lparr>master_mask := master_mask s AND mask\<rparr>
           in outb (master_mask s) MASTER_8259_DATA s)"

definition disable_irq :: "u32 \<Rightarrow> 'a pic_state_scheme \<Rightarrow> 'a pic_state_scheme" where
  "disable_irq irq_num s =
     (if irq_num AND SLAVE_OFFSET \<noteq> 0
      then let mask = ucast (one_shl (irq_num - SLAVE_OFFSET));
               s = s\<lparr>slave_mask := slave_mask s OR mask\<rparr>
           in outb (slave_mask s) SLAVE_8259_DATA s
      else let mask = ucast (one_shl irq_num);
               s = s\<lparr>master_mask := master_mask s OR mask\<rparr>
           in outb (master_mask s) MASTER_8259_DATA s)"

definition send_eoi :: "u32 \<Rightarrow> 'a machine_scheme \<Rightarrow> 'a machine_scheme" where
  "send_eoi irq_num s =
     (if irq_num AND SLAVE_OFFSET \<noteq> 0
      then let mask = EOI OR (irq_num - SLAVE_OFFSET);
               s = outb (ucast mask) SLAVE_8259_PORT s
           in outb (ucast (EOI OR IRQ_SLAVE)) MASTER_8259_PORT s
      else let mask = EOI OR irq_num
           in outb (ucast mask) MASTER_8259_PORT s)"

definition i8259_init :: "'a pic_state_scheme \<Rightarrow> 'a pic_state_scheme" where
  "i8259_init s =
     (let s = outb 0xff MASTER_8259_DATA s;
          s = outb 0xff SLAVE_8259_DATA s;
          s = outb 0x11 MASTER_8259_PORT s;
          s = outb 0x20 MASTER_8259_DATA s;
          s = outb 0x04 MASTER_8259_DATA s;
          s = outb 0x01 MASTER_8259_DATA s;
          s = outb 0x11 SLAVE_8259_PORT s;
          s = outb 0x28 SLAVE_8259_DATA s;
          s = outb 0x02 SLAVE_8259_DATA s;
          s = outb 0x01 SLAVE_8259_DATA s;
          s = outb (master_mask s) MASTER_8259_DATA s;
          s = outb (slave_mask s) SLAVE_8259_DATA s
      in enable_irq CASCADE_IRQ s)"

section \<open>Specification\<close>

text \<open>Whether interrupt line \<open>i\<close> (0 to 15) is masked, by the cached masks.\<close>

definition irq_masked :: "'a pic_state_scheme \<Rightarrow> nat \<Rightarrow> bool" where
  "irq_masked s i = (if i < 8 then bit (master_mask s) i else bit (slave_mask s) (i - 8))"

text \<open>The masks the hardware holds are the cached ones.\<close>

definition pic_synced :: "'a pic_state_scheme \<Rightarrow> bool" where
  "pic_synced s \<longleftrightarrow> last_out MASTER_8259_DATA (io_log s) = Some (master_mask s)
     \<and> last_out SLAVE_8259_DATA (io_log s) = Some (slave_mask s)"

locale irq_controller =
  fixes enable disable :: "u32 \<Rightarrow> 's \<Rightarrow> 's" and masked :: "'s \<Rightarrow> nat \<Rightarrow> bool" and synced :: "'s \<Rightarrow> bool"
  assumes masked_enable: "unat irq < 16 \<Longrightarrow> i < 16 \<Longrightarrow> masked (enable irq s) i \<longleftrightarrow> masked s i \<and> i \<noteq> unat irq"
    and masked_disable: "unat irq < 16 \<Longrightarrow> i < 16 \<Longrightarrow> masked (disable irq s) i \<longleftrightarrow> masked s i \<or> i = unat irq"
    and synced_enable: "synced s \<Longrightarrow> synced (enable irq s)"
    and synced_disable: "synced s \<Longrightarrow> synced (disable irq s)"
begin

text \<open>
  A driver's bracket: a body that leaves the controller alone runs with its own line masked, and
  afterwards the line is enabled and every other line is as before.
\<close>

lemma bracket:
  assumes "unat irq < 16" and "i < 16" and "\<And>s i. masked (body s) i = masked s i"
  shows "masked (body (disable irq s)) (unat irq)"
    and "masked (enable irq (body (disable irq s))) i \<longleftrightarrow> masked s i \<and> i \<noteq> unat irq"
  using assms by (auto simp: masked_enable masked_disable)

lemma bracket_synced:
  "(\<And>s. synced s \<Longrightarrow> synced (body s)) \<Longrightarrow> synced s \<Longrightarrow> synced (enable irq (body (disable irq s)))"
  by (simp add: synced_enable synced_disable)

end

section \<open>Lemmas\<close>

lemma irq_numbers:
  "unat (irq :: u32) < 16 \<Longrightarrow> irq \<in> {0, 1, 2, 3, 4, 5, 6, 7, 8, 9, 10, 11, 12, 13, 14, 15}"
proof -
  assume "unat irq < 16"
  then have "unat irq \<in> {0, 1, 2, 3, 4, 5, 6, 7, 8, 9, 10, 11, 12, 13, 14, 15}"
    unfolding insert_iff empty_iff by arith
  then show ?thesis by (simp add: word_unat_eq_iff)
qed

lemma bit_ff: "i < 8 \<Longrightarrow> bit (0xff :: u8) i"
proof -
  assume "i < 8"
  moreover have "(0xff :: u8) = - 1" by simp
  ultimately show ?thesis by (simp only: bit_minus_1_iff) simp
qed

lemma irq_bit:
  fixes irq :: u32
  assumes "unat irq < 16" and "j < 8"
  shows "irq AND SLAVE_OFFSET \<noteq> 0 \<longleftrightarrow> 8 \<le> unat irq"
    and "unat irq < 8 \<Longrightarrow> bit (one_shl irq) j \<longleftrightarrow> j = unat irq"
    and "8 \<le> unat irq \<Longrightarrow> bit (one_shl (irq - SLAVE_OFFSET)) j \<longleftrightarrow> j + 8 = unat irq"
  using irq_numbers [OF assms(1)] assms(2)
  by (auto simp: one_shl_def bit_simps)

lemma pic_frame [simp]:
  "mem (enable_irq irq s) = mem s" "iflag (enable_irq irq s) = iflag s"
  "mem (disable_irq irq s) = mem s" "iflag (disable_irq irq s) = iflag s"
  "mem (send_eoi irq t) = mem t" "iflag (send_eoi irq t) = iflag t"
  "pic_state.more (enable_irq irq s) = pic_state.more s"
  "pic_state.more (disable_irq irq s) = pic_state.more s"
  "machine.more (send_eoi irq t) = machine.more t"
  by (simp_all add: enable_irq_def disable_irq_def send_eoi_def Let_def outb_def)

lemma irq_masked_enable:
  "unat irq < 16 \<Longrightarrow> i < 16 \<Longrightarrow> irq_masked (enable_irq irq s) i \<longleftrightarrow> irq_masked s i \<and> i \<noteq> unat irq"
  using irq_bit [of irq i] irq_bit [of irq "i - 8"]
  by (auto simp: irq_masked_def enable_irq_def outb_def Let_def bit_simps)

lemma irq_masked_disable:
  "unat irq < 16 \<Longrightarrow> i < 16 \<Longrightarrow> irq_masked (disable_irq irq s) i \<longleftrightarrow> irq_masked s i \<or> i = unat irq"
  using irq_bit [of irq i] irq_bit [of irq "i - 8"]
  by (auto simp: irq_masked_def disable_irq_def outb_def Let_def bit_simps)

lemma pic_synced_ops:
  "pic_synced s \<Longrightarrow> pic_synced (enable_irq irq s)"
  "pic_synced s \<Longrightarrow> pic_synced (disable_irq irq s)"
  by (simp_all add: pic_synced_def enable_irq_def disable_irq_def outb_def Let_def)

interpretation pic: irq_controller enable_irq disable_irq irq_masked pic_synced
  by unfold_locales (simp_all add: irq_masked_enable irq_masked_disable pic_synced_ops)

section \<open>Correctness of the interrupt controller driver\<close>

text \<open>for the sixteen interrupt lines, \<open>enable_irq\<close> unmasks exactly its own line and
  \<open>disable_irq\<close> masks exactly its own line, on the cached masks and on the hardware, which
  stay equal.\<close>

theorem irq_mask_correct:
  assumes "unat irq < 16" and "i < 16" and "pic_synced s"
  shows "(irq_masked (enable_irq irq s) i \<longleftrightarrow> irq_masked s i \<and> i \<noteq> unat irq)
    \<and> (irq_masked (disable_irq irq s) i \<longleftrightarrow> irq_masked s i \<or> i = unat irq)
    \<and> pic_synced (enable_irq irq s) \<and> pic_synced (disable_irq irq s)"
  using assms by (simp add: pic.masked_enable pic.masked_disable pic_synced_ops)

theorem irq_mask_correct_witness:
  "\<not> irq_masked (enable_irq 8 \<lparr>mem = \<lambda>_. 0, io_log = [Out 0x21 0xff, Out 0xA1 0xff], iflag = False,
      master_mask = 0xff, slave_mask = 0xff\<rparr>) 8
   \<and> irq_masked (enable_irq 8 \<lparr>mem = \<lambda>_. 0, io_log = [Out 0x21 0xff, Out 0xA1 0xff], iflag = False,
      master_mask = 0xff, slave_mask = 0xff\<rparr>) 9"
  using irq_mask_correct [of 8 8 "\<lparr>mem = \<lambda>_. 0, io_log = [Out 0x21 0xff, Out 0xA1 0xff], iflag = False,
      master_mask = 0xff, slave_mask = 0xff\<rparr>"]
    irq_mask_correct [of 8 9 "\<lparr>mem = \<lambda>_. 0, io_log = [Out 0x21 0xff, Out 0xA1 0xff], iflag = False,
      master_mask = 0xff, slave_mask = 0xff\<rparr>"]
  by (simp add: pic_synced_def) (simp add: irq_masked_def)

text \<open>\<open>i8259_init\<close>, from the boot-time masks, leaves every line masked except the cascade
  line 2, leaves hardware and cached masks equal, and sends each controller its four
  initialisation words in order, the vector bases being 0x20 and 0x28.\<close>

theorem i8259_init_correct:
  assumes "master_mask s = 0xff" and "slave_mask s = 0xff" and "i < 16"
  shows "(irq_masked (i8259_init s) i \<longleftrightarrow> i \<noteq> 2) \<and> pic_synced (i8259_init s)
    \<and> rev (io_log (i8259_init s)) = rev (io_log s)
        @ [Out 0x21 0xff, Out 0xA1 0xff, Out 0x20 0x11, Out 0x21 0x20, Out 0x21 0x04, Out 0x21 0x01,
           Out 0xA0 0x11, Out 0xA1 0x28, Out 0xA1 0x02, Out 0xA1 0x01, Out 0x21 0xff, Out 0xA1 0xff,
           Out 0x21 0xfb]"
proof -
  have "\<exists>l. i8259_init s = enable_irq 2 (s\<lparr>io_log := l\<rparr>)"
    unfolding i8259_init_def Let_def outb_def by (rule exI) simp
  then obtain l where init: "i8259_init s = enable_irq 2 (s\<lparr>io_log := l\<rparr>)" by blast
  have "irq_masked (s\<lparr>io_log := l\<rparr>) i"
    using assms bit_ff [of i] bit_ff [of "i - 8"] by (cases "i < 8") (simp_all add: irq_masked_def)
  then have "irq_masked (i8259_init s) i \<longleftrightarrow> i \<noteq> 2"
    using pic.masked_enable [of 2 i "s\<lparr>io_log := l\<rparr>"] assms(3) by (simp add: init)
  then show ?thesis
    using assms(1,2) by (auto simp: pic_synced_def i8259_init_def enable_irq_def one_shl_def Let_def outb_def)
qed

theorem i8259_init_correct_witness:
  "\<not> irq_masked (i8259_init \<lparr>mem = \<lambda>_. 0, io_log = [], iflag = False, master_mask = 0xff,
      slave_mask = 0xff\<rparr>) 2"
  using i8259_init_correct [of "\<lparr>mem = \<lambda>_. 0, io_log = [], iflag = False, master_mask = 0xff,
      slave_mask = 0xff\<rparr>" 2] by simp

text \<open>\<open>send_eoi\<close> acknowledges a line with a specific end-of-interrupt command: the master
  alone for lines 0 to 7, the slave and then the master's cascade line 2 for lines 8 to 15, and
  touches nothing but the port log.\<close>

theorem send_eoi_correct:
  assumes "unat irq < 16"
  shows "send_eoi irq s = s\<lparr>io_log := (if unat irq < 8
      then [Out MASTER_8259_PORT (0x60 OR of_nat (unat irq))]
      else [Out MASTER_8259_PORT 0x62, Out SLAVE_8259_PORT (0x60 OR of_nat (unat irq - 8))]) @ io_log s\<rparr>"
  using irq_numbers [OF assms] by (auto simp: send_eoi_def outb_def)

theorem send_eoi_correct_witness:
  "io_log (send_eoi 8 \<lparr>mem = \<lambda>_. 0, io_log = [], iflag = False\<rparr>) = [Out 0x20 0x62, Out 0xA0 0x60]"
  using send_eoi_correct [of 8 "\<lparr>mem = \<lambda>_. 0, io_log = [], iflag = False\<rparr>"] by simp

end
