(* ===== verification/Lib_Screen.thy ===== *)
theory Lib_Screen
  imports Lib_String I8259 "HOL-Library.Signed_Division"
begin

text \<open>
  The text console of \<open>student-distrib/lib.c\<close>: the per-terminal cursors \<open>screen_x\<close> and
  \<open>screen_y\<close>, video memory, \<open>putc\<close> and everything that prints through it. Video memory is a
  separate object, addressed by the offset from \<open>video_mem\<close>; terminal \<open>t\<close> owns the 4000
  bytes from \<open>8192 * t\<close> on (25 rows of 80 character-attribute pairs). The cursor arrays have
  one entry per terminal; an access past them is \<open>None\<close>.
\<close>

record screen_state = pic_state +
  video :: "u32 \<Rightarrow> u8"
  screen_x :: "int list"
  screen_y :: "int list"
  active_terminal :: u32

abbreviation NUM_COLS :: int where "NUM_COLS \<equiv> 80"
abbreviation NUM_ROWS :: int where "NUM_ROWS \<equiv> 25"
abbreviation ATTRIB :: u8 where "ATTRIB \<equiv> 0x7"
abbreviation INDEXREGISTER :: u16 where "INDEXREGISTER \<equiv> 0x3D5"
abbreviation DATAREGISTER :: u16 where "DATAREGISTER \<equiv> 0x3D4"

section \<open>The operations\<close>

text \<open>The address \<open>video_mem + 4096*2*terminal + (i << 1)\<close>, as an offset from \<open>video_mem\<close>.\<close>

definition vaddr :: "u32 \<Rightarrow> int \<Rightarrow> u32" where
  "vaddr terminal i = 4096 * 2 * terminal + word_of_int (2 * i)"

definition put_cell :: "u32 \<Rightarrow> int \<Rightarrow> u8 \<Rightarrow> u8 \<Rightarrow> (u32 \<Rightarrow> u8) \<Rightarrow> (u32 \<Rightarrow> u8)" where
  "put_cell terminal i c a v = v(vaddr terminal i := c, vaddr terminal i + 1 := a)"

definition update_cursor_position :: "int \<Rightarrow> int \<Rightarrow> 'a machine_scheme \<Rightarrow> 'a machine_scheme" where
  "update_cursor_position x_coord y_coord s =
     (let pos = word_of_int (y_coord * NUM_COLS + x_coord) :: u16;
          s = outb 0x0F DATAREGISTER s;
          s = outb (ucast (pos AND 0xFF)) INDEXREGISTER s;
          s = outb 0x0E DATAREGISTER s
      in outb (ucast (drop_bit 8 pos AND 0xFF)) INDEXREGISTER s)"

definition get_cursor :: "u32 \<Rightarrow> 'a screen_state_scheme \<Rightarrow> (int \<times> int) option" where
  "get_cursor terminal s = do {
     x \<leftarrow> arr_get (screen_x s) (unat terminal);
     y \<leftarrow> arr_get (screen_y s) (unat terminal);
     Some (x, y) }"

definition set_cursor :: "u32 \<Rightarrow> int \<Rightarrow> int \<Rightarrow> 'a screen_state_scheme \<Rightarrow> 'a screen_state_scheme option" where
  "set_cursor terminal x y s = do {
     xs \<leftarrow> arr_set (screen_x s) (unat terminal) x;
     ys \<leftarrow> arr_set (screen_y s) (unat terminal) y;
     Some (s\<lparr>screen_x := xs, screen_y := ys\<rparr>) }"

definition backspace :: "'a screen_state_scheme \<Rightarrow> 'a screen_state_scheme option" where
  "backspace s = do {
     let t = active_terminal s;
     (x, y) \<leftarrow> get_cursor t s;
     let i = y * NUM_COLS + (x - 1);
     if i < 0 then Some s
     else do {
       let s = s\<lparr>video := put_cell t i 32 ATTRIB (video s)\<rparr>;
       let (x', y') = (if y \<noteq> 0 \<and> x = 0 then (NUM_COLS - 1, y - 1) else (x - 1, y));
       s \<leftarrow> set_cursor t x' y' s;
       Some (update_cursor_position x' y' s) } }"

definition clear :: "u32 \<Rightarrow> 'a screen_state_scheme \<Rightarrow> 'a screen_state_scheme option" where
  "clear terminal s = do {
     let s = s\<lparr>video := for_upto 0 (nat (NUM_ROWS * NUM_COLS))
                 (\<lambda>i. put_cell terminal (int i) 32 ATTRIB) (video s)\<rparr>;
     s \<leftarrow> set_cursor (active_terminal s) 0 0 s;
     Some (update_cursor_position 0 0 s) }"

definition scroll_up :: "u32 \<Rightarrow> 'a screen_state_scheme \<Rightarrow> 'a screen_state_scheme option" where
  "scroll_up terminal s = do {
     let v = for_upto (nat NUM_COLS) (nat (NUM_ROWS * NUM_COLS))
               (\<lambda>i v. (let v = v(vaddr terminal (int i - NUM_COLS) := v (word_of_int (2 * int i)))
                       in v(vaddr terminal (int i - NUM_COLS) + 1 := v (word_of_int (2 * int i) + 1))))
               (video s);
     let v = for_upto (nat (NUM_COLS * (NUM_ROWS - 1))) (nat (NUM_ROWS * NUM_COLS))
               (\<lambda>i. put_cell terminal (int i) 32 ATTRIB) v;
     s \<leftarrow> set_cursor terminal 0 (NUM_ROWS - 1) (s\<lparr>video := v\<rparr>);
     Some (update_cursor_position 0 (NUM_ROWS - 1) s) }"

text \<open>
  \<open>putc\<close> calls \<open>tab\<close> on a tab character and \<open>tab\<close> calls \<open>putc\<close> on blanks: the mutual
  recursion of the source, two calls deep.
\<close>

function (sequential) putc :: "u8 \<Rightarrow> u32 \<Rightarrow> 'a screen_state_scheme \<Rightarrow> 'a screen_state_scheme option"
  and tab :: "u32 \<Rightarrow> 'a screen_state_scheme \<Rightarrow> 'a screen_state_scheme option"
where
  "putc c terminal s = do {
     (x, y) \<leftarrow> get_cursor terminal s;
     if c = 10 \<or> c = 13
     then if y = NUM_ROWS - 1 then scroll_up terminal s
          else do {
            s \<leftarrow> set_cursor terminal 0 (y + 1) s;
            Some (update_cursor_position 0 (y + 1) s) }
     else if c = 9 then tab terminal s
     else if x = NUM_COLS - 1 \<and> y = NUM_ROWS - 1 then scroll_up terminal s
     else do {
       let s = s\<lparr>video := put_cell terminal (NUM_COLS * y + x) c ATTRIB (video s)\<rparr>;
       let x = x + 1;
       let y = (y + x sdiv NUM_COLS) smod NUM_ROWS;
       let x = x smod NUM_COLS;
       s \<leftarrow> set_cursor terminal x y s;
       Some (update_cursor_position x y s) } }"
| "tab terminal s = do {
     (x, _) \<leftarrow> get_cursor terminal s;
     let tabsize = (if NUM_COLS - x > 8 then 8 - x smod 8 else 0);
     foldo (\<lambda>c. putc c terminal) (replicate (nat tabsize) 32) s }"
  by pat_completeness auto
termination
  by (relation "measure (case_sum (\<lambda>(c, _, _). if c = 9 then 2 else 0) (\<lambda>_. 1))") auto

definition test_interrupts :: "'a screen_state_scheme \<Rightarrow> 'a screen_state_scheme" where
  "test_interrupts s = s\<lparr>video := for_upto 0 (nat (NUM_ROWS * NUM_COLS))
     (\<lambda>i v. v(word_of_int (2 * int i) := v (word_of_int (2 * int i)) + 1)) (video s)\<rparr>"

declare putc.simps [simp del] tab.simps [simp del]

section \<open>Specification of the console\<close>

text \<open>
  The abstract console of one terminal: its 2000 character-attribute cells in reading order and
  the cursor as a cell number. \<open>src\<close> is the grid that is moved up on a scroll.
\<close>

type_synonym grid = "(u8 \<times> u8) list"

definition blank :: "u8 \<times> u8" where
  "blank = (32, ATTRIB)"

definition scrolled :: "grid \<Rightarrow> grid" where
  "scrolled g = drop 80 g @ replicate 80 blank"

definition tty_char :: "grid \<Rightarrow> u8 \<Rightarrow> grid \<times> nat \<Rightarrow> grid \<times> nat" where
  "tty_char src c = (\<lambda>(g, p).
     if c = 10 \<or> c = 13 then (if p div 80 = 24 then (scrolled src, 1920) else (g, 80 * (p div 80 + 1)))
     else if p = 1999 then (scrolled src, 1920) else (g[p := (c, ATTRIB)], p + 1))"

definition tty_putc :: "grid \<Rightarrow> u8 \<Rightarrow> grid \<times> nat \<Rightarrow> grid \<times> nat" where
  "tty_putc src c gp =
     (if c = 9 then (if snd gp mod 80 < 72 then (tty_char src 32 ^^ (8 - snd gp mod 8)) gp else gp)
      else tty_char src c gp)"

definition cells :: "(u32 \<Rightarrow> u8) \<Rightarrow> u32 \<Rightarrow> grid" where
  "cells v t = map (\<lambda>i. (v (vaddr t (int i)), v (vaddr t (int i) + 1))) [0..<2000]"

definition cursor_pos :: "'a screen_state_scheme \<Rightarrow> u32 \<Rightarrow> nat" where
  "cursor_pos s t = nat (NUM_COLS * screen_y s ! unat t + screen_x s ! unat t)"

definition console :: "'a screen_state_scheme \<Rightarrow> u32 \<Rightarrow> grid \<times> nat" where
  "console s t = (cells (video s) t, cursor_pos s t)"

text \<open>The bytes of video memory that belong to a terminal.\<close>

definition in_page :: "u32 \<Rightarrow> u32 \<Rightarrow> bool" where
  "in_page t r \<longleftrightarrow> 8192 * unat t \<le> unat r \<and> unat r < 8192 * unat t + 4000"

text \<open>The invariant of the console: one cursor per terminal, each inside the screen.\<close>

definition scr_ok :: "'a screen_state_scheme \<Rightarrow> bool" where
  "scr_ok s \<longleftrightarrow> length (screen_x s) = 3 \<and> length (screen_y s) = 3 \<and> unat (active_terminal s) < 3
     \<and> (\<forall>x \<in> set (screen_x s). 0 \<le> x \<and> x < NUM_COLS) \<and> (\<forall>y \<in> set (screen_y s). 0 \<le> y \<and> y < NUM_ROWS)"

text \<open>What the cursor registers of the display hold.\<close>

definition hw_cursor :: "io_trace \<Rightarrow> u16 option" where
  "hw_cursor l = do {
     lo \<leftarrow> indexed_reg DATAREGISTER INDEXREGISTER 0x0F l;
     hi \<leftarrow> indexed_reg DATAREGISTER INDEXREGISTER 0x0E l;
     Some (push_bit 8 (ucast hi) OR ucast lo) }"

text \<open>
  What an output operation on terminal \<open>t\<close> may touch: the terminal's page of video memory, its
  own cursor, and the cursor registers of the display.
\<close>

definition crtc_only :: "io_trace \<Rightarrow> io_trace \<Rightarrow> bool" where
  "crtc_only l l' \<longleftrightarrow> (\<exists>k. l' = k @ l \<and> (\<forall>e \<in> set k. \<exists>v. e = Out DATAREGISTER v \<or> e = Out INDEXREGISTER v))"

definition tty_frame :: "u32 \<Rightarrow> 'a screen_state_scheme \<Rightarrow> 'a screen_state_scheme \<Rightarrow> bool" where
  "tty_frame t s s' \<longleftrightarrow>
     mem s' = mem s \<and> iflag s' = iflag s \<and> master_mask s' = master_mask s
     \<and> slave_mask s' = slave_mask s \<and> active_terminal s' = active_terminal s
     \<and> screen_state.more s' = screen_state.more s \<and> (\<forall>r. \<not> in_page t r \<longrightarrow> video s' r = video s r) \<and> crtc_only (io_log s) (io_log s')
     \<and> (\<forall>u. u \<noteq> unat t \<longrightarrow> screen_x s' ! u = screen_x s ! u \<and> screen_y s' ! u = screen_y s ! u)"

text \<open>What any console operation leaves alone, on whatever terminal.\<close>

definition con_frame :: "'a screen_state_scheme \<Rightarrow> 'a screen_state_scheme \<Rightarrow> bool" where
  "con_frame s s' \<longleftrightarrow> scr_ok s' \<and> mem s' = mem s \<and> iflag s' = iflag s \<and> master_mask s' = master_mask s
     \<and> slave_mask s' = slave_mask s \<and> active_terminal s' = active_terminal s
     \<and> screen_state.more s' = screen_state.more s \<and> crtc_only (io_log s) (io_log s')"

definition tty_result :: "u32 \<Rightarrow> grid \<times> nat \<Rightarrow> 'a screen_state_scheme \<Rightarrow> 'a screen_state_scheme \<Rightarrow> bool" where
  "tty_result t gp s s' \<longleftrightarrow> scr_ok s' \<and> tty_frame t s s' \<and> console s' t = gp
     \<and> (s' = s \<or> hw_cursor (io_log s') = Some (of_nat (snd gp)))"

section \<open>Lemmas: cells\<close>

lemma unat_vaddr:
  assumes "unat t < 3" and "i < 2000"
  shows "unat (vaddr t (int i)) = 8192 * unat t + 2 * i" and "unat (vaddr t (int i) + 1) = 8192 * unat t + 2 * i + 1"
proof -
  have "vaddr t (int i) = of_nat (8192 * unat t + 2 * i)" by (simp add: vaddr_def)
  then show a: "unat (vaddr t (int i)) = 8192 * unat t + 2 * i"
    using assms by (simp only: unat_of_nat) simp
  then show "unat (vaddr t (int i) + 1) = 8192 * unat t + 2 * i + 1"
    using assms by (simp add: unat_word_ariths)
qed

lemma vaddr_eq_iff:
  assumes "unat t < 3" and "i < 2000" and "unat t' < 3" and "j < 2000"
  shows "vaddr t (int i) = vaddr t' (int j) \<longleftrightarrow> t = t' \<and> i = j"
    and "vaddr t (int i) + 1 = vaddr t' (int j) + 1 \<longleftrightarrow> t = t' \<and> i = j"
    and "vaddr t (int i) \<noteq> vaddr t' (int j) + 1" and "vaddr t' (int j) + 1 \<noteq> vaddr t (int i)"
proof -
  have "8192 * unat t + 2 * i = 8192 * unat t' + 2 * j \<longleftrightarrow> unat t = unat t' \<and> i = j"
  proof
    assume e: "8192 * unat t + 2 * i = 8192 * unat t' + 2 * j"
    have "(8192 * unat t + 2 * i) div 8192 = unat t" "(8192 * unat t' + 2 * j) div 8192 = unat t'"
      using assms by simp_all
    with e show "unat t = unat t' \<and> i = j" by simp
  qed simp
  then show e: "vaddr t (int i) = vaddr t' (int j) \<longleftrightarrow> t = t' \<and> i = j"
    using assms by (simp add: word_unat_eq_iff unat_vaddr)
  then show "vaddr t (int i) + 1 = vaddr t' (int j) + 1 \<longleftrightarrow> t = t' \<and> i = j" by simp
  have "even (8192 * unat t + 2 * i)" "odd (8192 * unat t' + 2 * j + 1)" by simp_all
  then have "8192 * unat t + 2 * i \<noteq> 8192 * unat t' + 2 * j + 1" by metis
  then show "vaddr t (int i) \<noteq> vaddr t' (int j) + 1"
    using assms by (simp add: word_unat_eq_iff unat_vaddr)
  then show "vaddr t' (int j) + 1 \<noteq> vaddr t (int i)" by (rule not_sym)
qed

lemma length_cells [simp]: "length (cells v t) = 2000"
  by (simp add: cells_def)

lemma nth_cells [simp]: "i < 2000 \<Longrightarrow> cells v t ! i = (v (vaddr t (int i)), v (vaddr t (int i) + 1))"
  by (simp add: cells_def)

lemma cells_put_cell:
  assumes "unat t < 3" and "i < 2000" and "unat t' < 3"
  shows "cells (put_cell t (int i) c a v) t' = (if t' = t then (cells v t)[i := (c, a)] else cells v t')"
  using assms vaddr_eq_iff [OF assms(1,2,3)] vaddr_eq_iff [OF assms(3) _ assms(1,2)]
  by (intro nth_equalityI) (auto simp: put_cell_def nth_list_update)

lemma put_cell_other:
  assumes "unat t < 3" and "i < 2000" and "\<not> in_page t r"
  shows "put_cell t (int i) c a v r = v r"
  using assms unat_vaddr [OF assms(1,2)] by (auto simp: put_cell_def in_page_def)

text \<open>A loop that writes cells \<open>a\<close> to \<open>b\<close> of one terminal.\<close>

lemma fill_cells:
  assumes "unat t < 3" and "a \<le> b" and "b \<le> 2000"
  shows "cells (for_upto a b (\<lambda>i. put_cell t (int i) c at) v) t
      = take a (cells v t) @ replicate (b - a) (c, at) @ drop b (cells v t)
    \<and> (\<forall>r. \<not> in_page t r \<longrightarrow> for_upto a b (\<lambda>i. put_cell t (int i) c at) v r = v r)"
proof (rule for_upto_invariant [OF assms(2), where I = "\<lambda>k w. cells w t
      = take a (cells v t) @ replicate (k - a) (c, at) @ drop k (cells v t) \<and> (\<forall>r. \<not> in_page t r \<longrightarrow> w r = v r)"])
  show "cells v t = take a (cells v t) @ replicate (a - a) (c, at) @ drop a (cells v t)
    \<and> (\<forall>r. \<not> in_page t r \<longrightarrow> v r = v r)" by simp
next
  fix k w
  assume k: "a \<le> k" "k < b" and w: "cells w t
      = take a (cells v t) @ replicate (k - a) (c, at) @ drop k (cells v t) \<and> (\<forall>r. \<not> in_page t r \<longrightarrow> w r = v r)"
  have "drop k (cells v t) = cells v t ! k # drop (Suc k) (cells v t)"
    using k assms(3) by (simp only: Cons_nth_drop_Suc length_cells)
  then have "(take a (cells v t) @ replicate (k - a) (c, at) @ drop k (cells v t))[k := (c, at)]
    = take a (cells v t) @ replicate (Suc k - a) (c, at) @ drop (Suc k) (cells v t)"
    using k assms(3) by (simp add: list_update_append Suc_diff_le replicate_append_same)
  then show "cells (put_cell t (int k) c at w) t
      = take a (cells v t) @ replicate (Suc k - a) (c, at) @ drop (Suc k) (cells v t)
    \<and> (\<forall>r. \<not> in_page t r \<longrightarrow> put_cell t (int k) c at w r = v r)"
    using w k assms cells_put_cell [OF assms(1) _ assms(1)] put_cell_other [OF assms(1)] by simp
qed

text \<open>The copying loop of \<open>scroll_up\<close>: every cell of the terminal becomes the cell one row below
  in terminal 0.\<close>

lemma scroll_step:
  assumes "unat t < 3" and "80 \<le> i" and "i < 2000"
  shows "(let v = v(vaddr t (int i - NUM_COLS) := v (word_of_int (2 * int i)))
      in v(vaddr t (int i - NUM_COLS) + 1 := v (word_of_int (2 * int i) + 1)))
    = put_cell t (int (i - 80)) (fst (cells v 0 ! i)) (snd (cells v 0 ! i)) v"
proof -
  have "word_of_int (2 * int i) = vaddr 0 (int i)" "int i - NUM_COLS = int (i - 80)"
    using assms by (simp_all add: vaddr_def)
  then show ?thesis
    using assms vaddr_eq_iff(3) [of t "i - 80" 0 i]
    by (simp only: put_cell_def Let_def nth_cells fst_conv snd_conv) (simp add: eq_commute)
qed

lemma scroll_cells:
  assumes "unat t < 3" and "80 \<le> b" and "b \<le> 2000"
  shows "cells (for_upto 80 b (\<lambda>i v.
        (let v = v(vaddr t (int i - NUM_COLS) := v (word_of_int (2 * int i)))
         in v(vaddr t (int i - NUM_COLS) + 1 := v (word_of_int (2 * int i) + 1)))) v) t
      = take (b - 80) (drop 80 (cells v 0)) @ drop (b - 80) (cells v t)
    \<and> (\<forall>r. \<not> in_page t r \<longrightarrow> for_upto 80 b (\<lambda>i v.
        (let v = v(vaddr t (int i - NUM_COLS) := v (word_of_int (2 * int i)))
         in v(vaddr t (int i - NUM_COLS) + 1 := v (word_of_int (2 * int i) + 1)))) v r = v r)"
proof (rule for_upto_invariant [OF assms(2), where I = "\<lambda>k w. cells w t
      = take (k - 80) (drop 80 (cells v 0)) @ drop (k - 80) (cells v t) \<and> (\<forall>r. \<not> in_page t r \<longrightarrow> w r = v r)"])
  show "cells v t = take (80 - 80) (drop 80 (cells v 0)) @ drop (80 - 80) (cells v t)
    \<and> (\<forall>r. \<not> in_page t r \<longrightarrow> v r = v r)" by simp
next
  fix k w
  assume k: "80 \<le> k" "k < b" and w: "cells w t
      = take (k - 80) (drop 80 (cells v 0)) @ drop (k - 80) (cells v t) \<and> (\<forall>r. \<not> in_page t r \<longrightarrow> w r = v r)"
  let ?g = "take (k - 80) (drop 80 (cells v 0)) @ drop (k - 80) (cells v t)"
  have k2000: "k < 2000" using k assms(3) by simp
  have src: "cells w 0 ! k = cells v 0 ! k"
  proof (cases "t = 0")
    case True
    then have "cells w 0 = ?g" using w by simp
    moreover have "\<not> k < k - 80" by simp
    ultimately show ?thesis using k k2000 True by (simp add: nth_append del: nth_cells)
  next
    case False
    then have "1 \<le> unat t" by (simp add: unat_eq_0 Suc_le_eq unat_gt_0)
    then have "\<not> in_page t (vaddr 0 (int k))" "\<not> in_page t (vaddr 0 (int k) + 1)"
      using unat_vaddr [of 0 k] k2000 by (simp_all add: in_page_def)
    then show ?thesis using w k2000 by simp
  qed
  have upd: "?g[k - 80 := cells v 0 ! k]
    = take (Suc k - 80) (drop 80 (cells v 0)) @ drop (Suc k - 80) (cells v t)"
  proof -
    have "drop (k - 80) (cells v t) = cells v t ! (k - 80) # drop (Suc (k - 80)) (cells v t)"
      using k2000 by (simp only: Cons_nth_drop_Suc length_cells)
    moreover have "take (Suc (k - 80)) (drop 80 (cells v 0))
      = take (k - 80) (drop 80 (cells v 0)) @ [cells v 0 ! k]"
      using k k2000 by (simp add: take_Suc_conv_app_nth del: nth_cells)
    moreover have "Suc k - 80 = Suc (k - 80)" using k by simp
    ultimately show ?thesis using k k2000 by (simp add: list_update_append del: nth_cells diff_Suc_eq_diff_pred)
  qed
  show "cells (let w = w(vaddr t (int k - NUM_COLS) := w (word_of_int (2 * int k)))
       in w(vaddr t (int k - NUM_COLS) + 1 := w (word_of_int (2 * int k) + 1))) t
      = take (Suc k - 80) (drop 80 (cells v 0)) @ drop (Suc k - 80) (cells v t)
    \<and> (\<forall>r. \<not> in_page t r \<longrightarrow> (let w = w(vaddr t (int k - NUM_COLS) := w (word_of_int (2 * int k)))
       in w(vaddr t (int k - NUM_COLS) + 1 := w (word_of_int (2 * int k) + 1))) r = v r)"
    unfolding scroll_step [OF assms(1) k(1) k2000] src upd [symmetric]
    using w k2000 cells_put_cell [OF assms(1) _ assms(1), of "k - 80"] put_cell_other [OF assms(1), of "k - 80"]
    by (simp del: nth_cells)
qed

section \<open>Lemmas: the cursor\<close>

lemma cursor_bytes:
  "push_bit 8 (ucast (ucast (drop_bit 8 pos AND 0xFF) :: u8)) OR ucast (ucast (pos AND 0xFF) :: u8) = (pos :: u16)"
  (is "?w = _")
proof (rule bit_word_eqI)
  have ff: "(0xFF :: u16) = mask 8" by (simp add: mask_eq_exp_minus_1)
  fix n assume "n < LENGTH(16)"
  then show "bit ?w n = bit pos n"
    unfolding ff by (auto simp: bit_simps)
qed

lemma update_cursor_frame [simp]:
  "mem (update_cursor_position x y s) = mem s" "iflag (update_cursor_position x y s) = iflag s"
  "machine.more (update_cursor_position x y s) = machine.more s"
  by (simp_all add: update_cursor_position_def Let_def)

lemma update_cursor_eq:
  "update_cursor_position x y s = s\<lparr>io_log := io_log (update_cursor_position x y s)\<rparr>"
  by (simp add: update_cursor_position_def Let_def outb_def)

lemma hw_cursor_update: "hw_cursor (io_log (update_cursor_position x y s)) = Some (word_of_int (80 * y + x))"
  using cursor_bytes [of "word_of_int (y * 80 + x)"]
  by (simp add: update_cursor_position_def Let_def outb_def hw_cursor_def mult.commute)

lemma crtc_only_update: "crtc_only (io_log s) (io_log (update_cursor_position x y s))"
  by (auto simp: crtc_only_def update_cursor_position_def Let_def outb_def)

lemma crtc_only_trans: "crtc_only a b \<Longrightarrow> crtc_only b c \<Longrightarrow> crtc_only a c"
  unfolding crtc_only_def by (metis append.assoc Un_iff set_append)

lemma crtc_only_refl [simp]: "crtc_only a a"
  by (simp add: crtc_only_def)

lemma last_out_crtc_only:
  assumes "crtc_only a b" and "port \<noteq> DATAREGISTER" and "port \<noteq> INDEXREGISTER"
  shows "last_out port b = last_out port a"
proof -
  have "(\<forall>e \<in> set k. \<exists>v. e = Out DATAREGISTER v \<or> e = Out INDEXREGISTER v) \<Longrightarrow> last_out port (k @ a) = last_out port a" for k
    by (induction k) (use assms(2,3) in auto)
  then show ?thesis using assms(1) by (auto simp: crtc_only_def)
qed

lemma tty_frame_refl [simp]: "tty_frame t s s"
  by (simp add: tty_frame_def)

lemma tty_frame_trans: "tty_frame t a b \<Longrightarrow> tty_frame t b c \<Longrightarrow> tty_frame t a c"
  unfolding tty_frame_def by (auto intro: crtc_only_trans)

lemma tty_frame_fields:
  "tty_frame t s s' \<Longrightarrow> mem s' = mem s \<and> iflag s' = iflag s \<and> master_mask s' = master_mask s
     \<and> slave_mask s' = slave_mask s \<and> active_terminal s' = active_terminal s
     \<and> screen_state.more s' = screen_state.more s"
  by (simp add: tty_frame_def)

lemma tty_frame_synced: "tty_frame t s s' \<Longrightarrow> pic_synced s' \<longleftrightarrow> pic_synced s"
  using tty_frame_fields [of t s s'] last_out_crtc_only [of "io_log s" "io_log s'" MASTER_8259_DATA]
    last_out_crtc_only [of "io_log s" "io_log s'" SLAVE_8259_DATA]
  unfolding pic_synced_def tty_frame_def by (elim conjE) (simp only:, simp)

lemma get_cursor_ok:
  "scr_ok s \<Longrightarrow> unat t < 3 \<Longrightarrow> get_cursor t s = Some (screen_x s ! unat t, screen_y s ! unat t)"
  by (simp add: get_cursor_def scr_ok_def)

lemma cursor_bounds:
  assumes "scr_ok s" and "unat t < 3"
  shows "0 \<le> screen_x s ! unat t" "screen_x s ! unat t < NUM_COLS"
    "0 \<le> screen_y s ! unat t" "screen_y s ! unat t < NUM_ROWS"
  using assms nth_mem [of "unat t" "screen_x s"] nth_mem [of "unat t" "screen_y s"]
  by (auto simp: scr_ok_def)

lemma cursor_pos_div:
  assumes "scr_ok s" and "unat t < 3"
  shows "int (cursor_pos s t div 80) = screen_y s ! unat t" "int (cursor_pos s t mod 80) = screen_x s ! unat t"
    "cursor_pos s t < 2000"
  using cursor_bounds [OF assms] by (auto simp: cursor_pos_def zdiv_int zmod_int nat_less_iff)

text \<open>Every operation ends by placing the cursor: the one lemma their proofs share.\<close>

lemma place_cursor:
  assumes "scr_ok s" and "unat t < 3" and "0 \<le> x" "x < NUM_COLS" and "0 \<le> y" "y < NUM_ROWS"
    and "\<And>r. \<not> in_page t r \<Longrightarrow> v r = video s r"
  shows "\<exists>s'. (do { s \<leftarrow> set_cursor t x y (s\<lparr>video := v\<rparr>); Some (update_cursor_position x y s) }) = Some s'
    \<and> tty_result t (cells v t, nat (80 * y + x)) s s'"
proof -
  let ?s = "s\<lparr>video := v, screen_x := (screen_x s)[unat t := x], screen_y := (screen_y s)[unat t := y]\<rparr>"
  let ?s' = "update_cursor_position x y ?s"
  have len: "length (screen_x s) = 3" "length (screen_y s) = 3" using assms(1) by (simp_all add: scr_ok_def)
  have "set_cursor t x y (s\<lparr>video := v\<rparr>) = Some ?s"
    using len assms(2) by (simp add: set_cursor_def)
  moreover have s': "video ?s' = v" "screen_x ?s' = (screen_x s)[unat t := x]"
    "screen_y ?s' = (screen_y s)[unat t := y]" "active_terminal ?s' = active_terminal s"
    by (subst update_cursor_eq, simp)+
  moreover have "scr_ok ?s'"
    using assms(1-6) len by (auto simp: scr_ok_def s' dest!: set_update_subset_insert [THEN subsetD])
  moreover have "console ?s' t = (cells v t, nat (80 * y + x))"
    using assms(2) len by (simp add: console_def cursor_pos_def s')
  moreover have "tty_frame t s ?s'"
  proof -
    have "master_mask ?s' = master_mask s" "slave_mask ?s' = slave_mask s"
      "screen_state.more ?s' = screen_state.more s"
      by (subst update_cursor_eq, simp)+
    then show ?thesis using assms(7) crtc_only_update [of ?s x y] by (simp add: tty_frame_def s')
  qed
  moreover have "hw_cursor (io_log ?s') = Some (of_nat (nat (80 * y + x)))"
    using assms(3,5) by (simp add: hw_cursor_update)
  ultimately show ?thesis by (simp add: tty_result_def)
qed

lemma tty_result_refl: "scr_ok s \<Longrightarrow> tty_result t (console s t) s s"
  by (simp add: tty_result_def)

lemma tty_result_trans: "tty_result t gp a b \<Longrightarrow> tty_result t gp' b c \<Longrightarrow> tty_result t gp' a c"
  unfolding tty_result_def by (auto intro: tty_frame_trans)

section \<open>Lemmas: output\<close>

lemma scroll_up_result:
  assumes "scr_ok s" and "unat t < 3"
  shows "\<exists>s'. scroll_up t s = Some s' \<and> tty_result t (scrolled (cells (video s) 0), 1920) s s'"
proof -
  let ?body = "\<lambda>i v. (let v = v(vaddr t (int i - NUM_COLS) := v (word_of_int (2 * int i)))
      in v(vaddr t (int i - NUM_COLS) + 1 := v (word_of_int (2 * int i) + 1)))"
  let ?v1 = "for_upto 80 2000 ?body (video s)"
  let ?v2 = "for_upto 1920 2000 (\<lambda>i. put_cell t (int i) 32 ATTRIB) ?v1"
  have v1: "cells ?v1 t = drop 80 (cells (video s) 0) @ drop 1920 (cells (video s) t)"
    "\<And>r. \<not> in_page t r \<Longrightarrow> ?v1 r = video s r"
    using scroll_cells [OF assms(2), of 2000 "video s"] by simp_all
  have v2: "cells ?v2 t = take 1920 (cells ?v1 t) @ replicate 80 (32, ATTRIB) @ drop 2000 (cells ?v1 t)"
    "\<And>r. \<not> in_page t r \<Longrightarrow> ?v2 r = ?v1 r"
    using fill_cells [OF assms(2), of 1920 2000 32 ATTRIB ?v1] by simp_all
  have "cells ?v2 t = scrolled (cells (video s) 0)"
    unfolding v2(1) v1(1) by (simp add: scrolled_def blank_def)
  moreover have "scroll_up t s = (do { s \<leftarrow> set_cursor t 0 24 (s\<lparr>video := ?v2\<rparr>); Some (update_cursor_position 0 24 s) })"
    by (simp add: scroll_up_def Let_def)
  ultimately show ?thesis
    using place_cursor [OF assms, of 0 24 ?v2] v1(2) v2(2) by simp
qed

lemma sdiv_smod_nonneg: "0 \<le> a \<Longrightarrow> 0 < b \<Longrightarrow> a sdiv b = a div b \<and> a smod b = a mod (b :: int)"
  by (cases "a = 0") (auto simp: signed_divide_int_def signed_modulo_int_def)

lemma putc_char_result:
  assumes "scr_ok s" and "unat t < 3" and "c \<noteq> 9"
  shows "\<exists>s'. putc c t s = Some s' \<and> tty_result t (tty_char (cells (video s) 0) c (console s t)) s s'"
proof -
  let ?x = "screen_x s ! unat t" and ?y = "screen_y s ! unat t"
  note b = cursor_bounds [OF assms(1,2)] and p = cursor_pos_div [OF assms(1,2)]
  have y24: "?y = 24 \<longleftrightarrow> cursor_pos s t div 80 = 24" using p(1) by linarith
  have corner: "?x = 79 \<and> ?y = 24 \<longleftrightarrow> cursor_pos s t = 1999"
    using p(1,2) by (auto simp: cursor_pos_def)
  consider (scroll) "(c = 10 \<or> c = 13) \<and> ?y = 24 \<or> \<not> (c = 10 \<or> c = 13) \<and> ?x = 79 \<and> ?y = 24"
    | (newline) "c = 10 \<or> c = 13" "?y \<noteq> 24"
    | (char) "\<not> (c = 10 \<or> c = 13)" "\<not> (?x = 79 \<and> ?y = 24)" by blast
  then show ?thesis
  proof cases
    case scroll
    then have "putc c t s = scroll_up t s"
      using assms(3) by (auto simp: putc.simps get_cursor_ok [OF assms(1,2)])
    moreover have "tty_char (cells (video s) 0) c (console s t) = (scrolled (cells (video s) 0), 1920)"
      using scroll y24 corner by (auto simp: tty_char_def console_def)
    ultimately show ?thesis using scroll_up_result [OF assms(1,2)] by simp
  next
    case newline
    then have "putc c t s = (do { s \<leftarrow> set_cursor t 0 (?y + 1) (s\<lparr>video := video s\<rparr>);
      Some (update_cursor_position 0 (?y + 1) s) })"
      by (simp add: putc.simps get_cursor_ok [OF assms(1,2)])
    moreover have "tty_char (cells (video s) 0) c (console s t) = (cells (video s) t, nat (80 * (?y + 1) + 0))"
      using newline y24 p(1) by (auto simp: tty_char_def console_def)
    ultimately show ?thesis
      using place_cursor [OF assms(1,2), of 0 "?y + 1" "video s"] b newline(2) by simp
  next
    case char
    let ?v = "put_cell t (NUM_COLS * ?y + ?x) c ATTRIB (video s)"
    define y' where "y' = (?y + (?x + 1) div 80) mod 25"
    define x' where "x' = (?x + 1) mod 80"
    have "0 \<le> ?y + (?x + 1) div 80" using b by simp
    then have step: "putc c t s = (do { s \<leftarrow> set_cursor t x' y' (s\<lparr>video := ?v\<rparr>); Some (update_cursor_position x' y' s) })"
      using char assms(3) b sdiv_smod_nonneg [of "?x + 1" 80] sdiv_smod_nonneg [of "?y + (?x + 1) div 80" 25]
      by (auto simp: putc.simps get_cursor_ok [OF assms(1,2)] Let_def x'_def y'_def)
    have cell: "NUM_COLS * ?y + ?x = int (cursor_pos s t)" using b by (simp add: cursor_pos_def)
    have "80 * y' + x' = 80 * ?y + ?x + 1"
    proof (cases "?x = 79")
      case True
      then have "?y < 24" using char(2) b by simp
      then show ?thesis using True b by (simp add: x'_def y'_def)
    next
      case False
      then show ?thesis using b by (simp add: x'_def y'_def)
    qed
    then have pos: "nat (80 * y' + x') = Suc (cursor_pos s t)" using cell by linarith
    have "\<And>r. \<not> in_page t r \<Longrightarrow> ?v r = video s r"
      unfolding cell by (rule put_cell_other [OF assms(2) p(3)])
    moreover have "tty_char (cells (video s) 0) c (console s t) = (cells ?v t, Suc (cursor_pos s t))"
      using char corner cells_put_cell [OF assms(2) p(3) assms(2)]
      by (auto simp: tty_char_def console_def cell)
    moreover have "0 \<le> x'" "x' < 80" "0 \<le> y'" "y' < 25" by (simp_all add: x'_def y'_def)
    ultimately show ?thesis using place_cursor [OF assms(1,2), of x' y' ?v] by (simp add: pos step)
  qed
qed

lemma blanks_result:
  "scr_ok s \<Longrightarrow> unat t < 3 \<Longrightarrow> cursor_pos s t + n \<le> 1999 \<Longrightarrow>
   \<exists>s'. foldo (\<lambda>c. putc c t) (replicate n 32) s = Some s' \<and> tty_result t ((tty_char src 32 ^^ n) (console s t)) s s'"
proof (induction n arbitrary: s)
  case 0
  then show ?case by (simp add: tty_result_refl)
next
  case (Suc n)
  from putc_char_result [OF Suc.prems(1,2), of 32]
  obtain s1 where s1: "putc 32 t s = Some s1"
    "tty_result t (tty_char (cells (video s) 0) 32 (console s t)) s s1" by auto
  have indep: "tty_char (cells (video s) 0) 32 (console s t) = tty_char src 32 (console s t)"
    using Suc.prems(3) by (simp add: tty_char_def console_def)
  have "scr_ok s1" "console s1 t = tty_char src 32 (console s t)"
    using s1(2) by (simp_all add: tty_result_def indep)
  moreover from this(2) have "cursor_pos s1 t = cursor_pos s t + 1"
    using Suc.prems(3) by (simp add: tty_char_def console_def)
  ultimately obtain s' where "foldo (\<lambda>c. putc c t) (replicate n 32) s1 = Some s'"
    "tty_result t ((tty_char src 32 ^^ n) (tty_char src 32 (console s t))) s1 s'"
    using Suc.IH [of s1] Suc.prems by auto
  then show ?case using s1 by (auto simp: funpow_swap1 intro: tty_result_trans)
qed

lemma putc_result:
  assumes "scr_ok s" and "unat t < 3"
  shows "\<exists>s'. putc c t s = Some s' \<and> tty_result t (tty_putc (cells (video s) 0) c (console s t)) s s'"
proof (cases "c = 9")
  case False
  then show ?thesis using putc_char_result [OF assms] by (simp add: tty_putc_def)
next
  case True
  let ?x = "screen_x s ! unat t"
  note b = cursor_bounds [OF assms] and p = cursor_pos_div [OF assms]
  have "cursor_pos s t mod 8 = (cursor_pos s t mod 80) mod 8" by (simp add: mod_mod_cancel)
  then have x8: "?x mod 8 = int (cursor_pos s t mod 8)" using p(2) by (simp add: zmod_int)
  have "putc c t s = (if ?x < 72 then foldo (\<lambda>c. putc c t) (replicate (8 - cursor_pos s t mod 8) 32) s else Some s)"
    using True b sdiv_smod_nonneg [of ?x 8] x8
    by (simp add: putc.simps [of 9] tab.simps get_cursor_ok [OF assms] nat_diff_distrib)
  moreover have "?x < 72 \<longleftrightarrow> cursor_pos s t mod 80 < 72" using p(2) by linarith
  moreover have "cursor_pos s t + (8 - cursor_pos s t mod 8) \<le> 1999" if "cursor_pos s t mod 80 < 72"
    using that p(1) b(4) mult_div_mod_eq [of 80 "cursor_pos s t"] by linarith
  ultimately show ?thesis
    using True blanks_result [OF assms, of "8 - cursor_pos s t mod 8"] tty_result_refl [OF assms(1)]
    by (auto simp: tty_putc_def console_def)
qed

lemma backspace_result:
  assumes "scr_ok s" and "t = active_terminal s"
  shows "\<exists>s'. backspace s = Some s' \<and> (if cursor_pos s t = 0 then s' = s
    else tty_result t ((cells (video s) t)[cursor_pos s t - 1 := blank], cursor_pos s t - 1) s s')"
proof -
  have t: "unat t < 3" using assms by (simp add: scr_ok_def)
  let ?x = "screen_x s ! unat t" and ?y = "screen_y s ! unat t"
  note b = cursor_bounds [OF assms(1) t] and p = cursor_pos_div [OF assms(1) t]
  note g = get_cursor_ok [OF assms(1) t]
  have cell: "NUM_COLS * ?y + ?x = int (cursor_pos s t)" using b by (simp add: cursor_pos_def)
  show ?thesis
  proof (cases "cursor_pos s t = 0")
    case True
    then show ?thesis using cell assms(2) g by (simp add: backspace_def mult.commute)
  next
    case False
    define x' where "x' = (if ?y \<noteq> 0 \<and> ?x = 0 then 79 else ?x - 1)"
    define y' where "y' = (if ?y \<noteq> 0 \<and> ?x = 0 then ?y - 1 else ?y)"
    let ?v = "put_cell t (int (cursor_pos s t - 1)) 32 ATTRIB (video s)"
    have i: "?y * NUM_COLS + (?x - 1) = int (cursor_pos s t - 1)" using cell False by linarith
    have "backspace s = (do { s \<leftarrow> set_cursor t x' y' (s\<lparr>video := ?v\<rparr>); Some (update_cursor_position x' y' s) })"
      using assms(2) g i by (auto simp: backspace_def x'_def y'_def Let_def)
    moreover have "nat (80 * y' + x') = cursor_pos s t - 1" using i by (auto simp: x'_def y'_def)
    moreover have "0 \<le> x'" "x' < 80" "0 \<le> y'" "y' < 25"
      using b cell False by (auto simp: x'_def y'_def)
    ultimately show ?thesis
      using place_cursor [OF assms(1) t, of x' y' ?v] False p(3)
        put_cell_other [OF t, of "cursor_pos s t - 1"] cells_put_cell [OF t _ t, of "cursor_pos s t - 1"]
      by (simp add: blank_def)
  qed
qed

lemma clear_result:
  assumes "scr_ok s" and "unat t < 3"
  shows "\<exists>s'. clear t s = Some s' \<and> scr_ok s' \<and> cells (video s') t = replicate 2000 blank
    \<and> cursor_pos s' (active_terminal s) = 0 \<and> (\<forall>r. \<not> in_page t r \<longrightarrow> video s' r = video s r)
    \<and> (\<forall>u. u \<noteq> unat (active_terminal s) \<longrightarrow> screen_x s' ! u = screen_x s ! u \<and> screen_y s' ! u = screen_y s ! u)
    \<and> hw_cursor (io_log s') = Some 0 \<and> con_frame s s'"
proof -
  let ?a = "active_terminal s"
  let ?v = "for_upto 0 2000 (\<lambda>i. put_cell t (int i) 32 ATTRIB) (video s)"
  have len: "length (screen_x s) = 3" "length (screen_y s) = 3" and a: "unat ?a < 3"
    using assms(1) by (simp_all add: scr_ok_def)
  have v: "cells ?v t = replicate 2000 blank" "\<And>r. \<not> in_page t r \<Longrightarrow> ?v r = video s r"
    using fill_cells [OF assms(2), of 0 2000 32 ATTRIB "video s"] by (simp_all add: blank_def)
  let ?s = "s\<lparr>video := ?v, screen_x := (screen_x s)[unat ?a := 0], screen_y := (screen_y s)[unat ?a := 0]\<rparr>"
  let ?s' = "update_cursor_position 0 0 ?s"
  have s': "video ?s' = ?v" "screen_x ?s' = (screen_x s)[unat ?a := 0]"
    "screen_y ?s' = (screen_y s)[unat ?a := 0]" "active_terminal ?s' = ?a"
    by (subst update_cursor_eq, simp)+
  have "scr_ok ?s'"
    using assms(1) by (auto simp: scr_ok_def s' dest!: set_update_subset_insert [THEN subsetD])
  moreover have "clear t s = Some ?s'" using len a by (simp add: clear_def set_cursor_def)
  moreover have "master_mask ?s' = master_mask s" "slave_mask ?s' = slave_mask s"
    "screen_state.more ?s' = screen_state.more s"
    by (subst update_cursor_eq, simp)+
  ultimately show ?thesis
    using v len a crtc_only_update [of ?s 0 0]
    by (auto simp: s' cursor_pos_def hw_cursor_update con_frame_def)
qed

lemma tty_result_con: "tty_result t gp s s' \<Longrightarrow> con_frame s s'"
  by (simp add: tty_result_def tty_frame_def con_frame_def)

lemma con_frame_refl: "scr_ok s \<Longrightarrow> con_frame s s"
  by (simp add: con_frame_def)

lemma con_frame_synced: "con_frame s s' \<Longrightarrow> pic_synced s' \<longleftrightarrow> pic_synced s"
  using last_out_crtc_only [of "io_log s" "io_log s'" MASTER_8259_DATA]
    last_out_crtc_only [of "io_log s" "io_log s'" SLAVE_8259_DATA]
  unfolding pic_synced_def con_frame_def by (elim conjE) (simp only:, simp)

lemma tab_eq_putc: "scr_ok s \<Longrightarrow> unat t < 3 \<Longrightarrow> tab t s = putc 9 t s"
  by (simp add: putc.simps [of 9] get_cursor_ok)

text \<open>Every console operation on an existing terminal returns and keeps the invariant.\<close>

lemma console_ops_total:
  assumes "scr_ok s" and "unat t < 3"
  shows "\<exists>s'. putc c t s = Some s' \<and> con_frame s s'" and "\<exists>s'. tab t s = Some s' \<and> con_frame s s'"
    and "\<exists>s'. clear t s = Some s' \<and> con_frame s s'" and "\<exists>s'. backspace s = Some s' \<and> con_frame s s'"
proof -
  show putc: "\<exists>s'. putc c t s = Some s' \<and> con_frame s s'" for c
    using putc_result [OF assms, of c] tty_result_con by blast
  show "\<exists>s'. tab t s = Some s' \<and> con_frame s s'"
    using putc [of 9] by (simp add: tab_eq_putc [OF assms])
  show "\<exists>s'. clear t s = Some s' \<and> con_frame s s'"
    using clear_result [OF assms] by blast
  show "\<exists>s'. backspace s = Some s' \<and> con_frame s s'"
    using backspace_result [OF assms(1) refl] tty_result_con con_frame_refl [OF assms(1)]
    by (fastforce split: if_splits)
qed

lemma other_console:
  assumes "tty_frame t s s'" and "unat t < 3" and "unat u < 3" and "u \<noteq> t"
  shows "console s' u = console s u"
proof -
  have ne: "unat u \<noteq> unat t" using assms(4) by (simp add: word_unat_eq_iff)
  then have "unat t + 1 \<le> unat u \<or> unat u + 1 \<le> unat t" by linarith
  then have "\<not> in_page t (vaddr u (int i)) \<and> \<not> in_page t (vaddr u (int i) + 1)" if "i < 2000" for i
    using that unat_vaddr [OF assms(3) that] by (auto simp: in_page_def)
  then have "cells (video s') u = cells (video s) u"
    using assms(1) by (auto simp: tty_frame_def intro!: nth_equalityI)
  then show ?thesis using assms(1) ne by (simp add: console_def cursor_pos_def tty_frame_def)
qed

section \<open>Correctness of the console\<close>

text \<open>A state to evaluate on: three blank terminals, terminal 1 shown.\<close>

definition boot_screen :: screen_state where
  "boot_screen = \<lparr>mem = \<lambda>_. 0, io_log = [], iflag = False, master_mask = 0xff, slave_mask = 0xff,
     video = \<lambda>_. 0, screen_x = [0, 5, 0], screen_y = [0, 0, 0], active_terminal = 1\<rparr>"

lemma boot_screen_ok: "scr_ok boot_screen" "cursor_pos boot_screen 1 = 5" "active_terminal boot_screen = 1"
  by (simp_all add: boot_screen_def scr_ok_def cursor_pos_def)

text \<open>C39: on every terminal and every character \<open>putc\<close> returns and does what the abstract
  console does: line breaks, tabs to the next multiple of eight, wrapping at the right margin,
  scrolling at the bottom, where the grid that is moved up is terminal 0's, whatever the terminal.
  It keeps every cursor on the screen, touches no byte outside the terminal's own page, leaves the
  other terminals' consoles, the memory and the interrupt controller as they were, and
  leaves the hardware cursor at the new position unless it did nothing.\<close>

theorem putc_refines:
  assumes "scr_ok s" and "unat t < 3"
  shows "\<exists>s'. putc c t s = Some s' \<and> scr_ok s'
    \<and> console s' t = tty_putc (cells (video s) 0) c (console s t)
    \<and> tty_frame t s s' \<and> (\<forall>u. unat u < 3 \<and> u \<noteq> t \<longrightarrow> console s' u = console s u)
    \<and> (pic_synced s' \<longleftrightarrow> pic_synced s)
    \<and> (s' = s \<or> hw_cursor (io_log s') = Some (of_nat (cursor_pos s' t)))"
proof -
  from putc_result [OF assms, of c] obtain s'
    where s': "putc c t s = Some s'" "tty_result t (tty_putc (cells (video s) 0) c (console s t)) s s'" by blast
  then have f: "tty_frame t s s'" and c: "console s' t = tty_putc (cells (video s) 0) c (console s t)"
    by (simp_all add: tty_result_def)
  then have "cursor_pos s' t = snd (tty_putc (cells (video s) 0) c (console s t))"
    by (metis console_def snd_conv)
  then show ?thesis
    using s' f c other_console [OF f assms(2)] tty_frame_synced [OF f] by (simp add: tty_result_def)
qed

theorem putc_refines_witness:
  "\<exists>s'. putc 65 1 boot_screen = Some s' \<and> snd (console s' 1) = 6"
  using putc_refines [OF boot_screen_ok(1), of 1 65] boot_screen_ok(2)
  by (auto simp: tty_putc_def tty_char_def console_def)

text \<open>\<open>backspace\<close> undoes a typed character: after \<open>putc\<close> of a printable character on the
  shown terminal, anywhere but in the last cell of the screen, \<open>backspace\<close> returns the cursor to
  where it was and blanks the cell, across a line wrap too; with the cursor in the top left
  corner it does nothing.\<close>

theorem backspace_undoes_putc:
  assumes "scr_ok s" and "t = active_terminal s" and "c \<notin> {9, 10, 13}" and "cursor_pos s t \<noteq> 1999"
  shows "(\<exists>s' s''. putc c t s = Some s' \<and> backspace s' = Some s'' \<and> scr_ok s'' \<and> tty_frame t s s''
      \<and> console s'' t = ((cells (video s) t)[cursor_pos s t := blank], cursor_pos s t))
    \<and> (cursor_pos s t = 0 \<longrightarrow> backspace s = Some s)"
proof -
  have t: "unat t < 3" using assms by (simp add: scr_ok_def)
  from putc_result [OF assms(1) t, of c] obtain s'
    where s': "putc c t s = Some s'" "tty_result t (tty_putc (cells (video s) 0) c (console s t)) s s'" by blast
  moreover have "tty_putc (cells (video s) 0) c (console s t)
    = ((cells (video s) t)[cursor_pos s t := (c, ATTRIB)], Suc (cursor_pos s t))"
    using assms(3,4) by (simp add: tty_putc_def tty_char_def console_def)
  ultimately have r: "scr_ok s'" "tty_frame t s s'" "cursor_pos s' t = Suc (cursor_pos s t)"
    "cells (video s') t = (cells (video s) t)[cursor_pos s t := (c, ATTRIB)]"
    by (simp_all add: tty_result_def console_def)
  then have a: "t = active_terminal s'" using assms(2) by (simp add: tty_frame_def)
  from backspace_result [OF r(1) a] r(3) obtain s''
    where "backspace s' = Some s''"
      "tty_result t ((cells (video s') t)[cursor_pos s t := blank], cursor_pos s t) s' s''" by auto
  moreover have "backspace s = Some s" if "cursor_pos s t = 0"
    using backspace_result [OF assms(1,2)] that by auto
  ultimately show ?thesis using s'(1) r by (auto simp: tty_result_def intro: tty_frame_trans)
qed

theorem backspace_undoes_putc_witness:
  "\<exists>s' s''. putc 65 1 boot_screen = Some s' \<and> backspace s' = Some s'' \<and> cursor_pos s'' 1 = 5"
  using backspace_undoes_putc [OF boot_screen_ok(1), of 1 65] boot_screen_ok(2,3)
  by (auto simp: console_def)

text \<open>\<open>clear\<close> blanks all 2000 cells of the terminal it is given and no other byte, and homes
  the cursor of the shown terminal, which is another one when the terminal cleared is not the one
  shown.\<close>

theorem clear_correct:
  assumes "scr_ok s" and "unat t < 3"
  shows "\<exists>s'. clear t s = Some s' \<and> scr_ok s' \<and> cells (video s') t = replicate 2000 blank
    \<and> cursor_pos s' (active_terminal s) = 0 \<and> hw_cursor (io_log s') = Some 0
    \<and> (\<forall>r. \<not> in_page t r \<longrightarrow> video s' r = video s r)
    \<and> (t \<noteq> active_terminal s \<longrightarrow> cursor_pos s' t = cursor_pos s t)"
proof -
  have "unat t \<noteq> unat (active_terminal s)" if "t \<noteq> active_terminal s"
    using that by (simp add: word_unat_eq_iff)
  then show ?thesis using clear_result [OF assms] by (auto simp: cursor_pos_def)
qed

theorem clear_correct_witness:
  "\<exists>s'. clear 1 boot_screen = Some s' \<and> cells (video s') 1 = replicate 2000 blank \<and> cursor_pos s' 1 = 0"
  using clear_correct [OF boot_screen_ok(1), of 1] boot_screen_ok(3) by auto

end
