(* ===== verification/Rtc.thy ===== *)
theory Rtc
  imports Lib_Screen
begin

text \<open>
  The drivers of the real-time clock, \<open>student-distrib/rtc.c\<close>, and of the interval timer,
  \<open>student-distrib/pit.c\<close>. The clock's registers are reached through an index port and a data
  port; what the clock answers is the parameter \<open>dev\<close>. The wait of \<open>rtc_read\<close> takes the
  interrupts that arrive while it spins.
\<close>

record rtc_state = screen_state +
  interrupt_occurred :: u8

abbreviation RTC_REG_PORT :: u16 where "RTC_REG_PORT \<equiv> 0x70"
abbreviation RTC_CMOS_PORT :: u16 where "RTC_CMOS_PORT \<equiv> 0x71"
abbreviation RTC_REG_A :: u8 where "RTC_REG_A \<equiv> 0x0A"
abbreviation RTC_REG_B :: u8 where "RTC_REG_B \<equiv> 0x0B"
abbreviation RTC_REG_C :: u8 where "RTC_REG_C \<equiv> 0x0C"
abbreviation DISABLE_NMI :: u8 where "DISABLE_NMI \<equiv> 0x80"
abbreviation SET_BIT_6 :: u8 where "SET_BIT_6 \<equiv> 0x40"
abbreviation RTC_IRQ :: u32 where "RTC_IRQ \<equiv> 8"
abbreviation HIGH_RATE_MASK :: u8 where "HIGH_RATE_MASK \<equiv> 0xF0"
abbreviation LOW_RATE_MASK :: u8 where "LOW_RATE_MASK \<equiv> 0x0F"

section \<open>The clock driver\<close>

text \<open>The chain of comparisons in \<open>rtc_write\<close>, from \<open>HZ0\<close> to \<open>HZ1024\<close>.\<close>

definition set_frequency :: "int \<Rightarrow> u8 option" where
  "set_frequency frequency =
     (if frequency > 1024 then None
      else if frequency = 0 then Some 0x00
      else if 0 < frequency \<and> frequency \<le> 2 then Some 0x0F
      else if 2 < frequency \<and> frequency \<le> 4 then Some 0x0E
      else if 4 < frequency \<and> frequency \<le> 8 then Some 0x0D
      else if 8 < frequency \<and> frequency \<le> 16 then Some 0x0C
      else if 16 < frequency \<and> frequency \<le> 32 then Some 0x0B
      else if 32 < frequency \<and> frequency \<le> 64 then Some 0x0A
      else if 64 < frequency \<and> frequency \<le> 128 then Some 0x09
      else if 128 < frequency \<and> frequency \<le> 256 then Some 0x08
      else if 256 < frequency \<and> frequency \<le> 512 then Some 0x07
      else if 512 < frequency \<and> frequency \<le> 1024 then Some 0x06
      else None)"

definition rtc_write ::
  "device \<Rightarrow> int \<Rightarrow> ptr \<Rightarrow> int \<Rightarrow> 'a pic_state_scheme \<Rightarrow> 'a pic_state_scheme \<times> int"
where
  "rtc_write dev fd buf nbytes s =
     (let frequency = sint (ld32 (mem s) buf)
      in if 4 \<noteq> nbytes then (s, -1)
         else if 0 = frequency then (s, -1)
         else if frequency < 0 then (s, -1)
         else (case set_frequency frequency of None \<Rightarrow> (s, -1)
           | Some hz \<Rightarrow>
               let rate = hz AND LOW_RATE_MASK;
                   s = disable_irq RTC_IRQ s;
                   s = outb (RTC_REG_A OR DISABLE_NMI) RTC_REG_PORT s;
                   (currentA, s) = inb dev RTC_CMOS_PORT s;
                   s = outb (RTC_REG_A OR DISABLE_NMI) RTC_REG_PORT s;
                   s = outb ((currentA AND HIGH_RATE_MASK) OR rate) RTC_CMOS_PORT s;
                   s = enable_irq RTC_IRQ s
               in (s, 0)))"

definition default_frequency_var :: ptr where
  "default_frequency_var = (Local 1, 0)"

definition rtc_open :: "device \<Rightarrow> ptr \<Rightarrow> 'a pic_state_scheme \<Rightarrow> 'a pic_state_scheme \<times> int" where
  "rtc_open dev filename s =
     (let s = s\<lparr>mem := st32 (mem s) default_frequency_var 2\<rparr>;
          (s, _) = rtc_write dev 0 default_frequency_var 4 s
      in (s, 0))"

definition rtc_close :: "int \<Rightarrow> 'a pic_state_scheme \<Rightarrow> 'a pic_state_scheme \<times> int" where
  "rtc_close fd s = (s, 0)"

definition rtc_init :: "device \<Rightarrow> 'a pic_state_scheme \<Rightarrow> 'a pic_state_scheme" where
  "rtc_init dev s =
     (let s = outb (RTC_REG_B OR DISABLE_NMI) RTC_REG_PORT s;
          (currentB, s) = inb dev RTC_CMOS_PORT s;
          s = outb (RTC_REG_B OR DISABLE_NMI) RTC_REG_PORT s;
          s = outb (currentB OR SET_BIT_6) RTC_CMOS_PORT s;
          s = s\<lparr>mem := st32 (mem s) default_frequency_var 0\<rparr>;
          (s, _) = rtc_write dev 0 default_frequency_var 4 s
      in enable_irq RTC_IRQ s)"

definition rtc_interrupt :: "device \<Rightarrow> 'a rtc_state_scheme \<Rightarrow> 'a rtc_state_scheme" where
  "rtc_interrupt dev s =
     (let flags = iflag s;
          s = cli s;
          s = disable_irq RTC_IRQ s;
          s = outb RTC_REG_C RTC_REG_PORT s;
          (_, s) = inb dev RTC_CMOS_PORT s;
          s = send_eoi RTC_IRQ s;
          s = s\<lparr>interrupt_occurred := 1\<rparr>;
          s = enable_irq RTC_IRQ s
      in restore_flags flags s)"

text \<open>
  \<open>irqs\<close> are the handlers of the interrupts that arrive during the wait; the result has those
  that are still to come.
\<close>

definition rtc_read ::
  "('a rtc_state_scheme \<Rightarrow> 'a rtc_state_scheme option) list \<Rightarrow> int \<Rightarrow> ptr \<Rightarrow> int \<Rightarrow> 'a rtc_state_scheme
   \<Rightarrow> ('a rtc_state_scheme \<times> int \<times> ('a rtc_state_scheme \<Rightarrow> 'a rtc_state_scheme option) list) option"
where
  "rtc_read irqs fd buf nbytes s = do {
     let flags = iflag s;
     let s = cli s;
     let s = disable_irq RTC_IRQ s;
     let s = s\<lparr>interrupt_occurred := 0\<rparr>;
     let s = enable_irq RTC_IRQ s;
     let s = sti s;
     (s, irqs) \<leftarrow> wait_until (\<lambda>s. interrupt_occurred s \<noteq> 0) irqs s;
     let s = s\<lparr>interrupt_occurred := 0\<rparr>;
     Some (restore_flags flags s, 0, irqs) }"

section \<open>The interval timer\<close>

abbreviation PIT_FREQUENCY :: u32 where "PIT_FREQUENCY \<equiv> 1193182"
abbreviation CHANNEL_ONE :: u16 where "CHANNEL_ONE \<equiv> 0x41"
abbreviation COMMAND_PORT :: u16 where "COMMAND_PORT \<equiv> 0x43"
abbreviation COMMAND_INPUT :: u8 where "COMMAND_INPUT \<equiv> 0x36"

definition pit_init :: "'a pic_state_scheme \<Rightarrow> 'a pic_state_scheme" where
  "pit_init s =
     (let s = disable_irq 0 s;
          divisor = PIT_FREQUENCY div 20;
          s = outb COMMAND_INPUT COMMAND_PORT s;
          s = outb (ucast (divisor AND 0xFF)) CHANNEL_ONE s;
          s = outb (ucast (drop_bit 8 divisor)) CHANNEL_ONE s
      in enable_irq 0 s)"

text \<open>A zero frequency divides by zero.\<close>

definition pit_update :: "u32 \<Rightarrow> 'a pic_state_scheme \<Rightarrow> 'a pic_state_scheme option" where
  "pit_update frequency s =
     (let s = disable_irq 0 s
      in if frequency = 0 then None
         else let divisor = PIT_FREQUENCY div frequency;
                  s = outb (ucast (divisor AND 0xFF)) CHANNEL_ONE s;
                  s = outb (ucast (signed_drop_bit 8 divisor)) CHANNEL_ONE s
              in Some (enable_irq 0 s))"

section \<open>Lemmas\<close>

lemma set_frequency_cases:
  assumes "0 < f" and "f \<le> 1024"
  obtains k where "1 \<le> k" and "k \<le> 10" and "set_frequency f = Some (of_nat (16 - k))"
    and "f \<le> 2 ^ k" and "k = 1 \<or> 2 ^ (k - 1) < f"
proof -
  consider "f \<le> 2" | "2 < f" "f \<le> 4" | "4 < f" "f \<le> 8" | "8 < f" "f \<le> 16" | "16 < f" "f \<le> 32"
    | "32 < f" "f \<le> 64" | "64 < f" "f \<le> 128" | "128 < f" "f \<le> 256" | "256 < f" "f \<le> 512" | "512 < f"
    by linarith
  then show thesis
  proof cases
    case 1 with assms show ?thesis by (intro that [of 1]) (simp_all add: set_frequency_def)
  next
    case 2 then show ?thesis by (intro that [of 2]) (simp_all add: set_frequency_def)
  next
    case 3 then show ?thesis by (intro that [of 3]) (simp_all add: set_frequency_def)
  next
    case 4 then show ?thesis by (intro that [of 4]) (simp_all add: set_frequency_def)
  next
    case 5 then show ?thesis by (intro that [of 5]) (simp_all add: set_frequency_def)
  next
    case 6 then show ?thesis by (intro that [of 6]) (simp_all add: set_frequency_def)
  next
    case 7 then show ?thesis by (intro that [of 7]) (simp_all add: set_frequency_def)
  next
    case 8 then show ?thesis by (intro that [of 8]) (simp_all add: set_frequency_def)
  next
    case 9 then show ?thesis by (intro that [of 9]) (simp_all add: set_frequency_def)
  next
    case 10 with assms show ?thesis by (intro that [of 10]) (simp_all add: set_frequency_def)
  qed
qed

text \<open>The part of \<open>rtc_write\<close> between \<open>disable_irq\<close> and \<open>enable_irq\<close>.\<close>

definition program_rate :: "device \<Rightarrow> u8 \<Rightarrow> 'a pic_state_scheme \<Rightarrow> 'a pic_state_scheme" where
  "program_rate dev rate s =
     s\<lparr>io_log := [Out RTC_CMOS_PORT ((dev (Out RTC_REG_PORT 0x8A # io_log s) RTC_CMOS_PORT AND HIGH_RATE_MASK) OR rate),
         Out RTC_REG_PORT 0x8A, In RTC_CMOS_PORT, Out RTC_REG_PORT 0x8A] @ io_log s\<rparr>"

lemma rtc_write_program:
  assumes "sint (ld32 (mem s) buf) = f" and "0 < f" and "set_frequency f = Some hz"
  shows "rtc_write dev fd buf 4 s
    = (enable_irq RTC_IRQ (program_rate dev (hz AND LOW_RATE_MASK) (disable_irq RTC_IRQ s)), 0)"
  using assms by (simp add: rtc_write_def program_rate_def Let_def inb_def outb_def)

lemma program_rate_masks:
  "irq_masked (program_rate dev r s) i = irq_masked s i" "pic_synced s \<Longrightarrow> pic_synced (program_rate dev r s)"
  by (simp_all add: irq_masked_def pic_synced_def program_rate_def)

lemma enable_irq_log: "\<exists>m p. io_log (enable_irq irq s) = Out p m # io_log s \<and> (p = MASTER_8259_DATA \<or> p = SLAVE_8259_DATA)"
  by (auto simp: enable_irq_def outb_def Let_def)

lemma disable_irq_log: "\<exists>m p. io_log (disable_irq irq s) = Out p m # io_log s \<and> (p = MASTER_8259_DATA \<or> p = SLAVE_8259_DATA)"
  by (auto simp: disable_irq_def outb_def Let_def)

text \<open>The rate the clock runs at: register A, as last written, and the frequency it selects.\<close>

definition rtc_register_A :: "'a machine_scheme \<Rightarrow> u8 option" where
  "rtc_register_A s = indexed_reg RTC_REG_PORT RTC_CMOS_PORT (RTC_REG_A OR DISABLE_NMI) (io_log s)"

definition rtc_hz :: "u8 \<Rightarrow> nat" where
  "rtc_hz a = 32768 div 2 ^ (unat (a AND 0x0F) - 1)"

lemma register_A_programmed:
  "rtc_register_A (enable_irq irq (program_rate dev r s))
    = Some ((dev (Out RTC_REG_PORT 0x8A # io_log s) RTC_CMOS_PORT AND HIGH_RATE_MASK) OR r)"
  using enable_irq_log [of irq "program_rate dev r s"]
  by (auto simp: rtc_register_A_def program_rate_def)

lemma low_nibble:
  assumes "1 \<le> k" and "k \<le> 10"
  shows "((a AND HIGH_RATE_MASK) OR (of_nat (16 - k) AND LOW_RATE_MASK)) AND 0x0F = (of_nat (16 - k) :: u8)"
    and "((a AND HIGH_RATE_MASK) OR (of_nat (16 - k) AND LOW_RATE_MASK)) AND HIGH_RATE_MASK = a AND HIGH_RATE_MASK"
proof -
  have "k \<in> {1, 2, 3, 4, 5, 6, 7, 8, 9, 10}" unfolding insert_iff empty_iff using assms by arith
  then have low: "of_nat (16 - k) AND 0x0F = (of_nat (16 - k) :: u8)" and "of_nat (16 - k) AND 0xF0 = (0 :: u8)"
    by (auto simp del: of_nat_diff)
  moreover have "HIGH_RATE_MASK AND 0x0F = 0" by simp
  ultimately show "((a AND HIGH_RATE_MASK) OR (of_nat (16 - k) AND LOW_RATE_MASK)) AND 0x0F = (of_nat (16 - k) :: u8)"
    and "((a AND HIGH_RATE_MASK) OR (of_nat (16 - k) AND LOW_RATE_MASK)) AND HIGH_RATE_MASK = a AND HIGH_RATE_MASK"
    by (simp_all add: bit.conj_disj_distrib2 and.assoc)
qed

lemma rtc_hz_rate: "1 \<le> k \<Longrightarrow> k \<le> 10 \<Longrightarrow> a AND 0x0F = of_nat (16 - k) \<Longrightarrow> rtc_hz a = 2 ^ k"
proof -
  assume k: "1 \<le> k" "k \<le> 10" and a: "a AND 0x0F = of_nat (16 - k)"
  then have "unat (a AND 0x0F) = 16 - k" by (simp add: unat_of_nat del: of_nat_diff)
  moreover have "(32768 :: nat) div 2 ^ (15 - k) = 2 ^ k"
  proof -
    have "k \<in> {1, 2, 3, 4, 5, 6, 7, 8, 9, 10}" unfolding insert_iff empty_iff using k by arith
    then show ?thesis by auto
  qed
  ultimately show ?thesis using k by (simp add: rtc_hz_def)
qed

text \<open>The interrupt handler: what it leaves alone, and that it signals the reader.\<close>

lemma rtc_interrupt_effect:
  "interrupt_occurred (rtc_interrupt dev s) = 1" "iflag (rtc_interrupt dev s) = iflag s"
  "mem (rtc_interrupt dev s) = mem s" "rtc_state.more (rtc_interrupt dev s) = rtc_state.more s"
  by (simp_all add: rtc_interrupt_def inb_def outb_def cli_def restore_flags_def send_eoi_def
      enable_irq_def disable_irq_def Let_def)

section \<open>Correctness of the clock and timer drivers\<close>

definition rtc_boot :: rtc_state where
  "rtc_boot = screen_state.extend boot_screen (rtc_state.fields 0)"

text \<open>\<open>rtc_write\<close> of a 4-byte frequency between 1 and 1024 returns 0 and programs register
  A of the clock to the lowest rate that is a power of two, at least 2 Hz and at least the frequency
  asked for, keeps the upper half of the register as read, and runs with the clock's line masked
  and the others untouched, leaving it enabled. Every other request returns -1 and changes
  nothing.\<close>

theorem rtc_write_correct:
  assumes f: "f = sint (ld32 (mem s) buf)" and i: "i < 16"
  shows "if nbytes = 4 \<and> 0 < f \<and> f \<le> 1024
    then \<exists>s' a old k. rtc_write dev fd buf nbytes s = (s', 0) \<and> rtc_register_A s' = Some a
      \<and> rtc_hz a = 2 ^ k \<and> 1 \<le> k \<and> f \<le> 2 ^ k \<and> (k = 1 \<or> 2 ^ (k - 1) < f)
      \<and> a AND 0xF0 = dev old RTC_CMOS_PORT AND 0xF0 \<and> last_out RTC_REG_PORT old = Some 0x8A
      \<and> (irq_masked s' i \<longleftrightarrow> irq_masked s i \<and> i \<noteq> 8) \<and> (pic_synced s \<longrightarrow> pic_synced s') \<and> mem s' = mem s
    else rtc_write dev fd buf nbytes s = (s, -1)"
proof (cases "nbytes = 4 \<and> 0 < f \<and> f \<le> 1024")
  case True
  then obtain k where k: "1 \<le> k" "k \<le> 10" "set_frequency f = Some (of_nat (16 - k))" "f \<le> 2 ^ k" "k = 1 \<or> 2 ^ (k - 1) < f"
    by (blast intro: set_frequency_cases)
  let ?r = "of_nat (16 - k) AND LOW_RATE_MASK"
  let ?t = "disable_irq RTC_IRQ s"
  let ?s' = "enable_irq RTC_IRQ (program_rate dev ?r ?t)"
  let ?old = "Out RTC_REG_PORT 0x8A # io_log ?t"
  let ?a = "(dev ?old RTC_CMOS_PORT AND HIGH_RATE_MASK) OR ?r"
  have w: "rtc_write dev fd buf nbytes s = (?s', 0)"
    using rtc_write_program [of s buf f "of_nat (16 - k)" dev fd] True k(3) by (simp add: f)
  have masks: "irq_masked ?s' i \<longleftrightarrow> irq_masked s i \<and> i \<noteq> 8"
    using pic.bracket(2) [of RTC_IRQ i "program_rate dev ?r" s] i by (simp add: program_rate_masks)
  have sync: "pic_synced s \<longrightarrow> pic_synced ?s'"
    using pic.bracket_synced [of "program_rate dev ?r" s RTC_IRQ] by (simp add: program_rate_masks)
  have "rtc_hz ?a = 2 ^ k" using low_nibble(1) [OF k(1,2)] by (intro rtc_hz_rate k)
  moreover have "mem ?s' = mem s" by (simp add: program_rate_def)
  ultimately show ?thesis
    unfolding if_P [OF True]
    using w masks sync k register_A_programmed [of RTC_IRQ dev ?r ?t] low_nibble(2) [OF k(1,2)]
    by (intro exI [of _ ?s'] exI [of _ ?a] exI [of _ ?old] exI [of _ k]) simp
next
  case False
  then have "nbytes \<noteq> 4 \<or> f = 0 \<or> f < 0 \<or> f > 1024" by linarith
  then show ?thesis using False
    by (auto simp: rtc_write_def f [symmetric] set_frequency_def)
qed

theorem rtc_write_correct_witness:
  "\<exists>s' a. rtc_write (\<lambda>_ _. 0x26) 3 (Global, 100) 4 (rtc_boot\<lparr>mem := st32 (\<lambda>_. 0) (Global, 100) 100\<rparr>) = (s', 0)
    \<and> rtc_register_A s' = Some a \<and> a AND 0xF0 = 0x20 \<and> \<not> irq_masked s' 8"
  using rtc_write_correct [of 100 "rtc_boot\<lparr>mem := st32 (\<lambda>_. 0) (Global, 100) 100\<rparr>" "(Global, 100)" 8 4 "\<lambda>_ _. 0x26" 3]
  by (force simp: ld32_st32)

text \<open>\<open>rtc_read\<close> returns 0 only after a clock interrupt: if the interrupts that arrive are
  any others, which leave the flag alone, followed by the clock's, it returns right after the
  clock's handler ran, with the flag reset and the interrupt flag as the caller had it; and as long
  as no clock interrupt arrives it does not return.\<close>

theorem rtc_read_waits:
  assumes "\<And>h t. h \<in> set hs \<Longrightarrow> \<exists>t'. h t = Some t' \<and> interrupt_occurred t' = interrupt_occurred t"
  shows "(\<exists>s'. rtc_read (hs @ (\<lambda>t. Some (rtc_interrupt dev t)) # rest) fd buf nbytes s = Some (s', 0, rest)
      \<and> interrupt_occurred s' = 0 \<and> iflag s' = iflag s)
    \<and> rtc_read hs fd buf nbytes s = None"
proof -
  let ?s = "sti (enable_irq RTC_IRQ ((disable_irq RTC_IRQ (cli s))\<lparr>interrupt_occurred := 0\<rparr>))"
  have s: "interrupt_occurred ?s = 0" by (simp add: sti_def enable_irq_def outb_def Let_def)
  have h: "\<exists>t'. h t = Some t' \<and> interrupt_occurred t' = 0" if "h \<in> set hs" "interrupt_occurred t = 0" for h t
    using assms [OF that(1), of t] that(2) by auto
  have g: "\<exists>t'. Some (rtc_interrupt dev t) = Some t' \<and> interrupt_occurred t' \<noteq> 0" for t :: "'a rtc_state_scheme"
    by (simp add: rtc_interrupt_effect)
  obtain t where "wait_until (\<lambda>s. interrupt_occurred s \<noteq> 0) (hs @ (\<lambda>t. Some (rtc_interrupt dev t)) # rest) ?s = Some (t, rest)"
    using wait_until_first [where hs = hs and s = ?s and rest = rest and I = "\<lambda>t. interrupt_occurred t = 0"
        and P = "\<lambda>s. interrupt_occurred s \<noteq> 0" and g = "\<lambda>t. Some (rtc_interrupt dev t)"] h g s by blast
  moreover have "wait_until (\<lambda>s. interrupt_occurred s \<noteq> 0) hs ?s = None"
    using wait_until_never [where hs = hs and s = ?s and I = "\<lambda>t. interrupt_occurred t = 0"
        and P = "\<lambda>s. interrupt_occurred s \<noteq> 0"] h s by blast
  ultimately show ?thesis by (simp add: rtc_read_def restore_flags_def)
qed

theorem rtc_read_waits_witness:
  "\<exists>s'. rtc_read [\<lambda>t. Some (cli t), \<lambda>t. Some (rtc_interrupt (\<lambda>_ _. 0) t)] 3 NULL 4 rtc_boot = Some (s', 0, [])"
  using rtc_read_waits [of "[\<lambda>t. Some (cli t)]" "\<lambda>_ _. 0" "[]" 3 NULL 4 rtc_boot]
  by (auto simp: cli_def)

text \<open>\<open>rtc_open\<close> always succeeds and sets the clock to 2 Hz; \<open>rtc_init\<close> enables periodic
  interrupts (bit 6 of register B) and unmasks the clock's line, but leaves register A, and so the
  rate, as it was: its call of \<open>rtc_write\<close> with frequency 0 is rejected.\<close>

theorem rtc_open_init:
  "(\<exists>s' a. rtc_open dev filename s = (s', 0) \<and> rtc_register_A s' = Some a \<and> rtc_hz a = 2
      \<and> (\<forall>a. mem s' (Global, a) = mem s (Global, a)))
   \<and> rtc_register_A (rtc_init dev s) = rtc_register_A s \<and> \<not> irq_masked (rtc_init dev s) 8
   \<and> (\<exists>b. indexed_reg RTC_REG_PORT RTC_CMOS_PORT (RTC_REG_B OR DISABLE_NMI) (io_log (rtc_init dev s)) = Some b \<and> bit b 6)"
proof -
  let ?s = "s\<lparr>mem := st32 (mem s) default_frequency_var 2\<rparr>"
  let ?t = "disable_irq RTC_IRQ ?s"
  let ?a = "(dev (Out RTC_REG_PORT 0x8A # io_log ?t) RTC_CMOS_PORT AND HIGH_RATE_MASK) OR 0x0F"
  have "rtc_write dev 0 default_frequency_var 4 ?s = (enable_irq RTC_IRQ (program_rate dev 0x0F ?t), 0)"
    using rtc_write_program [of ?s default_frequency_var 2 "0x0F" dev 0] by (simp add: set_frequency_def)
  moreover have "rtc_hz ?a = 2 ^ 1" using low_nibble(1) [of 1] by (intro rtc_hz_rate) simp_all
  moreover have "mem ?s (Global, a) = mem s (Global, a)" for a
    by (simp add: st32_def default_frequency_var_def padd_def)
  ultimately have open_ok: "\<exists>s' a. rtc_open dev filename s = (s', 0) \<and> rtc_register_A s' = Some a \<and> rtc_hz a = 2
      \<and> (\<forall>a. mem s' (Global, a) = mem s (Global, a))"
    using register_A_programmed [of RTC_IRQ dev "0x0F" ?t] by (simp add: rtc_open_def program_rate_def)
  define b where "b = dev (Out RTC_REG_PORT 0x8B # io_log s) RTC_CMOS_PORT OR SET_BIT_6"
  have init: "rtc_init dev s = enable_irq RTC_IRQ (s\<lparr>
      io_log := [Out RTC_CMOS_PORT b, Out RTC_REG_PORT 0x8B, In RTC_CMOS_PORT, Out RTC_REG_PORT 0x8B] @ io_log s,
      mem := st32 (mem s) default_frequency_var 0\<rparr>)"
    by (simp add: rtc_init_def rtc_write_def inb_def outb_def b_def Let_def)
  have "bit b 6" by (simp add: b_def bit_simps)
  then show ?thesis
    using open_ok pic.masked_enable [of RTC_IRQ 8] enable_irq_log [of RTC_IRQ]
    by (auto simp: init rtc_register_A_def enable_irq_def outb_def Let_def irq_masked_def)
qed

text \<open>\<open>pit_init\<close> sends the timer a 16-bit divisor, low byte first, that makes it fire at
  most 20 times a second and less than one tick away from it, and leaves exactly line 0 newly
  enabled. The bytes go to the data port of channel 1 although the command byte selects
  channel 0.\<close>

theorem pit_init_divisor:
  assumes "i < 16"
  shows "\<exists>lo hi m m'. io_log (pit_init s) = [Out MASTER_8259_DATA m', Out CHANNEL_ONE hi, Out CHANNEL_ONE lo,
        Out COMMAND_PORT COMMAND_INPUT, Out MASTER_8259_DATA m] @ io_log s
      \<and> 20 * (unat lo + 256 * unat hi) \<le> 1193182 \<and> 1193182 < 20 * (unat lo + 256 * unat hi + 1)
      \<and> drop_bit 6 COMMAND_INPUT = 0
      \<and> (irq_masked (pit_init s) i \<longleftrightarrow> irq_masked s i \<and> i \<noteq> 0) \<and> (pic_synced s \<longrightarrow> pic_synced (pit_init s))"
proof -
  let ?body = "\<lambda>s. s\<lparr>io_log := [Out CHANNEL_ONE 0xE9, Out CHANNEL_ONE 0x0B, Out COMMAND_PORT COMMAND_INPUT] @ io_log s\<rparr>"
  have p: "pit_init s = enable_irq 0 (?body (disable_irq 0 s))" by (simp add: pit_init_def outb_def Let_def)
  have "irq_masked (?body s) j = irq_masked s j" for s :: "'a pic_state_scheme" and j by (simp add: irq_masked_def)
  then have "irq_masked (pit_init s) i \<longleftrightarrow> irq_masked s i \<and> i \<noteq> 0"
    unfolding p using pic.bracket(2) [of 0 i ?body s] assms by simp
  moreover have "pic_synced s \<longrightarrow> pic_synced (pit_init s)"
    unfolding p by (intro impI pic.bracket_synced) (simp_all add: pic_synced_def)
  ultimately show ?thesis
    unfolding p by (auto simp: enable_irq_def disable_irq_def outb_def Let_def)
qed

theorem pit_init_divisor_witness:
  "\<not> irq_masked (pit_init rtc_boot) 0 \<and> irq_masked (pit_init rtc_boot) 1"
  using pit_init_divisor [of 0 rtc_boot] pit_init_divisor [of 1 rtc_boot]
  by (auto simp: irq_masked_def rtc_boot_def boot_screen_def screen_state.defs)

end
