(* ===== verification/Lib_Printf.thy ===== *)
theory Lib_Printf
  imports Lib_Screen
begin

text \<open>
  Formatted output of \<open>student-distrib/lib.c\<close>: \<open>puts\<close> and \<open>printf\<close>. Both print through
  \<open>putc\<close> on the shown terminal; what they rely on is the locale \<open>char_sink\<close>, interpreted on
  \<open>putc\<close>. The specification of \<open>printf\<close> is \<open>render\<close>, the text a format and its arguments
  stand for.
\<close>

section \<open>puts and printf\<close>

partial_function (option) puts_from :: "ptr \<Rightarrow> u32 \<Rightarrow> 'a screen_state_scheme \<Rightarrow> ('a screen_state_scheme \<times> u32) option"
where
  "puts_from p index s =
     (if mem s (padd p index) \<noteq> 0
      then do {
        s \<leftarrow> putc (mem s (padd p index)) (active_terminal s) s;
        puts_from p (index + 1) s }
      else Some (s, index))"

definition puts :: "ptr \<Rightarrow> 'a screen_state_scheme \<Rightarrow> ('a screen_state_scheme \<times> int) option" where
  "puts p s = map_option (map_prod id sint) (puts_from p 0 s)"

text \<open>
  The variadic arguments are the stack words after the format pointer, as a list; reading past
  them is \<open>None\<close>. \<open>conv_buf\<close> is the automatic array of the conversions that need one.
\<close>

definition conv_buf :: ptr where
  "conv_buf = (Local 0, 0)"

partial_function (option) format_char_switch :: "mem \<Rightarrow> ptr \<Rightarrow> bool \<Rightarrow> (ptr \<times> bool) option" where
  "format_char_switch m buf alternate =
     (if m buf = of_char CHR ''#'' then format_char_switch m (padd buf 1) True
      else Some (buf, alternate))"

function zero_fill :: "mem \<Rightarrow> int \<Rightarrow> mem" where
  "zero_fill m i =
     (if i < 8 then zero_fill (m(padd conv_buf (word_of_int i) := of_char CHR ''0'')) (i + 1) else m)"
  by pat_completeness auto
termination
  by (relation "measure (\<lambda>(m, i). nat (8 - i))") auto

definition printf_conversion ::
  "u8 \<Rightarrow> bool \<Rightarrow> u32 list \<Rightarrow> 'a screen_state_scheme \<Rightarrow> ('a screen_state_scheme \<times> u32 list) option"
where
  "printf_conversion c alternate esp s =
     (if c = of_char CHR ''%'' then do {
        s \<leftarrow> putc (of_char CHR ''%'') (active_terminal s) s;
        Some (s, esp) }
      else if c = of_char CHR ''x'' then do {
        v \<leftarrow> arr_get esp 0;
        s \<leftarrow> (if \<not> alternate then do {
            m \<leftarrow> itoa (mem s) v conv_buf 16;
            (s, _) \<leftarrow> puts conv_buf (s\<lparr>mem := m\<rparr>);
            Some s }
          else do {
            m \<leftarrow> itoa (mem s) v (padd conv_buf 8) 16;
            n \<leftarrow> strlen m (padd conv_buf 8);
            (s, _) \<leftarrow> puts (padd conv_buf n) (s\<lparr>mem := zero_fill m (sint n)\<rparr>);
            Some s });
        Some (s, tl esp) }
      else if c = of_char CHR ''u'' then do {
        v \<leftarrow> arr_get esp 0;
        m \<leftarrow> itoa (mem s) v conv_buf 10;
        (s, _) \<leftarrow> puts conv_buf (s\<lparr>mem := m\<rparr>);
        Some (s, tl esp) }
      else if c = of_char CHR ''d'' then do {
        v \<leftarrow> arr_get esp 0;
        m \<leftarrow> (if sint v < 0
               then itoa ((mem s)(conv_buf := of_char CHR ''-'')) (- v) (padd conv_buf 1) 10
               else itoa (mem s) v conv_buf 10);
        (s, _) \<leftarrow> puts conv_buf (s\<lparr>mem := m\<rparr>);
        Some (s, tl esp) }
      else if c = of_char CHR ''c'' then do {
        v \<leftarrow> arr_get esp 0;
        s \<leftarrow> putc (ucast v) (active_terminal s) s;
        Some (s, tl esp) }
      else if c = of_char CHR ''s'' then do {
        v \<leftarrow> arr_get esp 0;
        (s, _) \<leftarrow> puts (Global, v) s;
        Some (s, tl esp) }
      else Some (s, esp))"

partial_function (option) printf_from ::
  "ptr \<Rightarrow> u32 list \<Rightarrow> 'a screen_state_scheme \<Rightarrow> ('a screen_state_scheme \<times> ptr) option"
where
  "printf_from buf esp s =
     (if mem s buf \<noteq> 0
      then if mem s buf = of_char CHR ''%''
           then do {
             (buf, alternate) \<leftarrow> format_char_switch (mem s) (padd buf 1) False;
             (s, esp) \<leftarrow> printf_conversion (mem s buf) alternate esp s;
             printf_from (padd buf 1) esp s }
           else do {
             s \<leftarrow> putc (mem s buf) (active_terminal s) s;
             printf_from (padd buf 1) esp s }
      else Some (s, buf))"

definition printf :: "ptr \<Rightarrow> u32 list \<Rightarrow> 'a screen_state_scheme \<Rightarrow> ('a screen_state_scheme \<times> int) option" where
  "printf format args s = do {
     (s, buf) \<leftarrow> printf_from format args s;
     Some (s, sint (snd buf - snd format)) }"


declare zero_fill.simps [simp del]

section \<open>Character sinks\<close>

text \<open>
  The contract of a character output: it always returns, keeps an invariant, changes the state
  only as \<open>rel\<close> allows, and its visible effect is one step of an abstract device.
\<close>

locale char_sink =
  fixes put :: "u8 \<Rightarrow> 's \<Rightarrow> 's option" and inv :: "'s \<Rightarrow> bool" and rel :: "'s \<Rightarrow> 's \<Rightarrow> bool"
    and shown :: "'s \<Rightarrow> 'd" and dstep :: "u8 \<Rightarrow> 'd \<Rightarrow> 'd"
  assumes put_ok: "inv s \<Longrightarrow> \<exists>s'. put c s = Some s' \<and> inv s' \<and> rel s s' \<and> shown s' = dstep c (shown s)"
    and rel_refl: "rel s s"
    and rel_trans: "rel s t \<Longrightarrow> rel t u \<Longrightarrow> rel s u"
begin

definition emits :: "u8 list \<Rightarrow> 's \<Rightarrow> 's \<Rightarrow> bool" where
  "emits cs s s' \<longleftrightarrow> inv s' \<and> rel s s' \<and> shown s' = fold dstep cs (shown s)"

lemma emits_Nil: "inv s \<Longrightarrow> emits [] s s"
  by (simp add: emits_def rel_refl)

lemma emits_append: "emits cs a b \<Longrightarrow> emits ds b c \<Longrightarrow> emits (cs @ ds) a c"
  by (auto simp: emits_def intro: rel_trans)

lemma emits_put: "inv s \<Longrightarrow> \<exists>s'. put c s = Some s' \<and> emits [c] s s'"
  using put_ok [of s c] by (auto simp: emits_def)

lemma write_all: "inv s \<Longrightarrow> \<exists>s'. foldo put cs s = Some s' \<and> emits cs s s'"
proof (induction cs arbitrary: s)
  case Nil
  then show ?case by (simp add: emits_Nil)
next
  case (Cons c cs)
  from emits_put [OF Cons.prems] obtain s1 where s1: "put c s = Some s1" "emits [c] s s1" by blast
  moreover from s1(2) have "inv s1" by (simp add: emits_def)
  with Cons.IH obtain s' where "foldo put cs s1 = Some s'" "emits cs s1 s'" by blast
  ultimately show ?case using emits_append [of "[c]" s s1 cs s'] by auto
qed

end

text \<open>
  The abstract device behind the shown terminal: which terminal it is, the grid of terminal 0,
  and the console of the terminal.
\<close>

definition shown :: "'a screen_state_scheme \<Rightarrow> u32 \<times> grid \<times> grid \<times> nat" where
  "shown s = (active_terminal s, cells (video s) 0, console s (active_terminal s))"

definition tty_emit :: "u8 \<Rightarrow> u32 \<times> grid \<times> grid \<times> nat \<Rightarrow> u32 \<times> grid \<times> grid \<times> nat" where
  "tty_emit c = (\<lambda>(t, g0, gp). let gp' = tty_putc g0 c gp in (t, if t = 0 then fst gp' else g0, gp'))"

text \<open>Printing changes no memory but \<open>conv_buf\<close>.\<close>

definition print_frame :: "'a screen_state_scheme \<Rightarrow> 'a screen_state_scheme \<Rightarrow> bool" where
  "print_frame s s' \<longleftrightarrow> tty_frame (active_terminal s) (s\<lparr>mem := mem s'\<rparr>) s'
     \<and> (\<forall>r. \<not> in_region conv_buf 64 r \<longrightarrow> mem s' r = mem s r)"

lemma print_frame_trans: "print_frame a b \<Longrightarrow> print_frame b c \<Longrightarrow> print_frame a c"
  by (auto simp: print_frame_def tty_frame_def intro: crtc_only_trans)

lemma print_frame_refl: "print_frame s s"
  by (simp add: print_frame_def)

lemma tty_frame_imp_print_frame: "tty_frame (active_terminal s) s s' \<Longrightarrow> print_frame s s'"
  by (simp add: print_frame_def tty_frame_def)

interpretation con: char_sink "\<lambda>c s. putc c (active_terminal s) s" scr_ok print_frame shown tty_emit
proof
  fix s :: "'a screen_state_scheme" and c
  assume s: "scr_ok s"
  let ?t = "active_terminal s"
  have t: "unat ?t < 3" using s by (simp add: scr_ok_def)
  from putc_result [OF s t, of c] obtain s'
    where s': "putc c ?t s = Some s'" "tty_result ?t (tty_putc (cells (video s) 0) c (console s ?t)) s s'" by blast
  then have f: "tty_frame ?t s s'" by (simp add: tty_result_def)
  then have "cells (video s') 0 = cells (video s) 0" if "?t \<noteq> 0"
    using other_console [OF f t, of 0] that by (simp add: console_def)
  moreover have "cells (video s') 0 = fst (console s' ?t)" if "?t = 0"
    using that by (simp add: console_def)
  ultimately have "shown s' = tty_emit c (shown s)"
    using s'(2) f by (auto simp: shown_def tty_emit_def tty_result_def tty_frame_def Let_def)
  then show "\<exists>s'. putc c ?t s = Some s' \<and> scr_ok s' \<and> print_frame s s' \<and> shown s' = tty_emit c (shown s)"
    using s' tty_frame_imp_print_frame [OF f] by (simp add: tty_result_def)
qed (blast intro: print_frame_refl print_frame_trans)+

section \<open>Lemmas: printing strings\<close>

lemma emits_ok: "con.emits cs s s' \<Longrightarrow> scr_ok s' \<and> print_frame s s'"
  by (simp add: con.emits_def)

lemma putc_mem: "scr_ok s \<Longrightarrow> putc c (active_terminal s) s = Some s' \<Longrightarrow> mem s' = mem s"
  using putc_result [of s "active_terminal s" c] by (auto simp: scr_ok_def tty_result_def tty_frame_def)

lemma puts_from_cstr:
  "cstr (mem s) p str \<Longrightarrow> scr_ok s \<Longrightarrow> k \<le> length str \<Longrightarrow>
   \<exists>s'. puts_from p (of_nat k) s = Some (s', of_nat (length str)) \<and> con.emits (drop k str) s s' \<and> mem s' = mem s"
proof (induction "length str - k" arbitrary: k s)
  case 0
  then show ?case
    using cstr_end [of "mem s" p str] by (simp add: puts_from.simps con.emits_Nil)
next
  case (Suc d)
  then have k: "k < length str" by simp
  let ?c = "str ! k"
  have c: "mem s (padd p (of_nat k)) = ?c" "?c \<noteq> 0"
    using cstr_nth [OF Suc.prems(1) k] by simp_all
  from con.emits_put [OF Suc.prems(2), of ?c] obtain s1
    where s1: "putc ?c (active_terminal s) s = Some s1" "con.emits [?c] s s1" by blast
  have m: "mem s1 = mem s" by (rule putc_mem [OF Suc.prems(2) s1(1)])
  have "\<exists>s'. puts_from p (of_nat (Suc k)) s1 = Some (s', of_nat (length str))
    \<and> con.emits (drop (Suc k) str) s1 s' \<and> mem s' = mem s1"
    using Suc k emits_ok [OF s1(2)] by (intro Suc.hyps) (simp_all add: m)
  then obtain s' where s': "puts_from p (of_nat (Suc k)) s1 = Some (s', of_nat (length str))"
    "con.emits (drop (Suc k) str) s1 s'" "mem s' = mem s" unfolding m by blast
  have "con.emits (drop k str) s s'"
    using con.emits_append [OF s1(2) s'(2)] k by (simp add: Cons_nth_drop_Suc)
  moreover have "puts_from p (of_nat k) s = Some (s', of_nat (length str))"
    using s1(1) s'(1) c by (simp add: puts_from.simps [of p "of_nat k"] add.commute)
  ultimately show ?case using s'(3) by blast
qed

lemma puts_cstr:
  "cstr (mem s) p str \<Longrightarrow> scr_ok s \<Longrightarrow>
   \<exists>s'. puts p s = Some (s', sint (of_nat (length str) :: u32)) \<and> con.emits str s s' \<and> mem s' = mem s"
  using puts_from_cstr [of s p str 0] by (auto simp: puts_def)

lemma emits_mem:
  assumes "con.emits cs (s\<lparr>mem := m\<rparr>) s'" and "\<And>r. \<not> in_region conv_buf 64 r \<Longrightarrow> m r = mem s r"
  shows "con.emits cs s s'"
proof -
  have "print_frame s s'"
    using assms by (auto simp: con.emits_def print_frame_def tty_frame_def)
  moreover have "shown (s\<lparr>mem := m\<rparr>) = shown s"
    by (simp add: shown_def console_def cursor_pos_def)
  ultimately show ?thesis using assms(1) by (simp add: con.emits_def)
qed

text \<open>Printing a string that was just built in \<open>conv_buf\<close>.\<close>

lemma puts_conv_buf:
  assumes "scr_ok s" and "cstr m p str" and "\<And>r. \<not> in_region conv_buf 64 r \<Longrightarrow> m r = mem s r"
  shows "\<exists>s' n. puts p (s\<lparr>mem := m\<rparr>) = Some (s', n) \<and> con.emits str s s'"
proof -
  have "scr_ok (s\<lparr>mem := m\<rparr>)" using assms(1) by (simp add: scr_ok_def)
  then show ?thesis
    using puts_cstr [of "s\<lparr>mem := m\<rparr>" p str] assms(2) emits_mem [OF _ assms(3)] by fastforce
qed

section \<open>Specification of printf\<close>

definition digits_text :: "nat \<Rightarrow> nat \<Rightarrow> u8 list" where
  "digits_text r n = digit_bytes (to_digits r n)"

definition decimal_text :: "int \<Rightarrow> u8 list" where
  "decimal_text i = (if i < 0 then of_char CHR ''-'' # digits_text 10 (nat (- i)) else digits_text 10 (nat i))"

text \<open>
  The text of one conversion and the arguments left; \<open>strs\<close> gives the strings the pointer
  arguments point to. An unknown conversion prints nothing and takes no argument.
\<close>

definition conversion_text ::
  "(u32 \<rightharpoonup> u8 list) \<Rightarrow> u8 \<Rightarrow> bool \<Rightarrow> u32 list \<Rightarrow> (u8 list \<times> u32 list) option"
where
  "conversion_text strs c alternate args =
     (if c = of_char CHR ''%'' then Some ([of_char CHR ''%''], args)
      else if c \<in> of_char ` {CHR ''x'', CHR ''u'', CHR ''d'', CHR ''c'', CHR ''s''} then
        (case args of [] \<Rightarrow> None | v # rest \<Rightarrow>
          if c = of_char CHR ''x'' then
            (let ds = digits_text 16 (unat v)
             in Some ((if alternate then replicate (8 - length ds) (of_char CHR ''0'') else []) @ ds, rest))
          else if c = of_char CHR ''u'' then Some (digits_text 10 (unat v), rest)
          else if c = of_char CHR ''d'' then Some (decimal_text (sint v), rest)
          else if c = of_char CHR ''c'' then Some ([ucast v], rest)
          else map_option (\<lambda>str. (str, rest)) (strs v))
      else Some ([], args))"

text \<open>A format that ends inside a conversion has no text: the code reads past the terminator.\<close>

function (sequential) render :: "(u32 \<rightharpoonup> u8 list) \<Rightarrow> u8 list \<Rightarrow> u32 list \<Rightarrow> u8 list option" where
  "render strs [] args = Some []"
| "render strs (c # f) args =
     (if c = of_char CHR ''%''
      then (case dropWhile (\<lambda>b. b = of_char CHR ''#'') f of [] \<Rightarrow> None
            | k # f' \<Rightarrow> do {
                (out, args') \<leftarrow> conversion_text strs k (f \<noteq> [] \<and> hd f = of_char CHR ''#'') args;
                rest \<leftarrow> render strs f' args';
                Some (out @ rest) })
      else map_option (\<lambda>rest. c # rest) (render strs f args))"
  by pat_completeness auto
termination
proof (relation "measure (\<lambda>(_, f, _). length f)")
  fix strs :: "u32 \<rightharpoonup> u8 list" and c :: u8 and f :: "u8 list" and args :: "u32 list" and k f' p args'
  assume "dropWhile (\<lambda>b. b = of_char CHR ''#'') f = k # f'"
  then have "length f' < length f" using length_dropWhile_le [of "\<lambda>b. b = of_char CHR ''#''" f] by simp
  then show "((strs, f', args'), strs, c # f, args) \<in> measure (\<lambda>(_, f, _). length f)" by simp
qed simp_all

section \<open>Lemmas: conversions\<close>

lemma digits_text_ok:
  assumes "2 \<le> r" and "r \<le> 36" and "n < r ^ k" and "0 < k"
  shows "0 \<notin> set (digits_text r n)" and "length (digits_text r n) \<le> k"
proof -
  note b = to_digits_bounds [OF assms(1,3,4)]
  show "0 \<notin> set (digits_text r n)"
    unfolding digits_text_def using b(2) assms(2) by (intro digit_bytes_nonzero) auto
  show "length (digits_text r n) \<le> k" using b(3) by (simp add: digits_text_def digit_bytes_def)
qed

lemma conv_buf_frame:
  assumes "k + length bs \<le> 64" and "\<not> in_region conv_buf 64 r"
  shows "put_bytes m (padd conv_buf (of_nat k)) bs r = m r"
proof (rule put_bytes_other)
  have "\<not> in_region conv_buf (k + length bs) r"
    using in_region_mono [OF _ assms(1)] assms(2) by blast
  then show "\<not> in_region (padd conv_buf (of_nat k)) (length bs) r"
    using assms by (simp add: in_region_offset)
qed

lemma zero_fill_put:
  "n \<le> 8 \<Longrightarrow> zero_fill m (int n) = put_bytes m (padd conv_buf (of_nat n)) (replicate (8 - n) (of_char CHR ''0''))"
proof (induction "8 - n" arbitrary: n m)
  case 0
  then show ?case by (simp add: zero_fill.simps)
next
  case (Suc d)
  then have n: "n < 8" by simp
  let ?z = "of_char CHR ''0'' :: u8" and ?p = "padd conv_buf (of_nat n)"
  have "zero_fill (m(?p := ?z)) (int (Suc n)) = put_bytes (m(?p := ?z)) (padd conv_buf (of_nat (Suc n))) (replicate (8 - Suc n) ?z)"
    using Suc by (intro Suc.hyps) simp_all
  also have "\<dots> = put_bytes m ?p (?z # replicate (8 - Suc n) ?z)"
    using put_bytes_Cons [of "replicate (8 - Suc n) ?z" m ?p ?z] by (simp add: add.commute)
  also have "?z # replicate (8 - Suc n) ?z = replicate (8 - n) ?z"
    using n by (simp flip: replicate_Suc add: Suc_diff_Suc)
  finally show ?case using n by (subst zero_fill.simps) (simp add: add.commute fun_upd_def)
qed

lemma u32_digits:
  shows "0 \<notin> set (digits_text 10 (unat (v :: u32)))" "length (digits_text 10 (unat v)) \<le> 10"
    "0 \<notin> set (digits_text 16 (unat v))" "length (digits_text 16 (unat v)) \<le> 8"
  using digits_text_ok [of 10 "unat v" 10] digits_text_ok [of 16 "unat v" 8] unat_u32_less [of v]
  by simp_all

lemma print_number:
  assumes "scr_ok s" and "0 \<notin> set bs" and "length bs < 64"
  shows "\<exists>s' n. puts conv_buf (s\<lparr>mem := put_bytes (mem s) conv_buf (bs @ [0])\<rparr>) = Some (s', n) \<and> con.emits bs s s'"
  using assms conv_buf_frame [of 0 "bs @ [0]" _ "mem s"]
  by (intro puts_conv_buf cstr_put_bytes) simp_all

lemma unat_uminus_sint: "sint (v :: u32) < 0 \<Longrightarrow> unat (- v) = nat (- sint v)"
  using unat_word_of_int_u32 [of "- sint v"] sint_u32_bounds [of v] by simp

lemma unat_sint_nonneg: "0 \<le> sint (v :: u32) \<Longrightarrow> unat v = nat (sint v)"
  using unat_word_of_int_u32 [of "sint v"] sint_u32_bounds [of v] by simp

lemma print_hex_padded:
  fixes v :: u32
  defines "ds \<equiv> digits_text 16 (unat v)"
  assumes "scr_ok s"
  shows "\<exists>m n s' k. itoa (mem s) v (padd conv_buf 8) 16 = Some m \<and> strlen m (padd conv_buf 8) = Some n
    \<and> puts (padd conv_buf n) (s\<lparr>mem := zero_fill m (sint n)\<rparr>) = Some (s', k)
    \<and> con.emits (replicate (8 - length ds) (of_char CHR ''0'') @ ds) s s'"
proof -
  let ?p8 = "padd conv_buf 8" and ?n = "length ds"
  let ?z = "replicate (8 - ?n) (of_char CHR ''0'') :: u8 list"
  let ?m = "put_bytes (mem s) ?p8 (ds @ [0])" and ?pn = "padd conv_buf (of_nat ?n)"
  let ?m' = "put_bytes ?m ?pn ?z"
  have ds: "0 \<notin> set ds" "?n \<le> 8" using u32_digits(3,4) [of v] by (simp_all add: ds_def)
  have m: "itoa (mem s) v ?p8 16 = Some ?m"
    using itoa_digits [of 16] by (simp add: ds_def digits_text_def)
  have n: "strlen ?m ?p8 = Some (of_nat ?n)"
    using ds by (intro strlen_cstr cstr_put_bytes) simp_all
  have zf: "zero_fill ?m (sint (of_nat ?n :: u32)) = ?m'"
    using zero_fill_put [OF ds(2), of ?m] ds(2) sint_word_of_int_u32 [of "int ?n"] by simp
  have m': "?m' = put_bytes (mem s) ?pn (?z @ ds @ [0])"
  proof (cases "?n = 8")
    case True
    then show ?thesis by simp
  next
    case False
    then have lt: "?n < 8" using ds(2) by simp
    have "unat (8 - of_nat ?n :: u32) = 8 - ?n" "unat (of_nat ?n - 8 :: u32) = 2 ^ 32 + ?n - 8"
      using lt by (simp_all add: unat_diff_cases unat_of_nat word_le_nat_alt)
    then have "separate ?p8 (length (ds @ [0])) ?pn (length ?z)"
      using lt by (simp add: separate_def)
    from put_bytes_commute [OF this, of "mem s"]
    show ?thesis using put_bytes_append [of ?z "ds @ [0]" "mem s" ?pn] ds(2) by (simp flip: of_nat_add)
  qed
  have c: "cstr ?m' ?pn (?z @ ds)"
    unfolding m' using cstr_put_bytes [of "?z @ ds" "mem s" ?pn] ds by simp
  have fr: "?m' r = mem s r" if "\<not> in_region conv_buf 64 r" for r
    using that conv_buf_frame [of 8 "ds @ [0]" r "mem s"] conv_buf_frame [of ?n ?z r ?m] ds(2) by simp
  obtain s' k where "puts ?pn (s\<lparr>mem := ?m'\<rparr>) = Some (s', k)" "con.emits (?z @ ds) s s'"
    using puts_conv_buf [OF assms(2) c fr] by blast
  with m n zf show ?thesis by auto
qed

lemma print_unsigned:
  assumes "scr_ok s" and "r = 10 \<or> r = 16"
  shows "\<exists>m s' n. itoa (mem s) v conv_buf r = Some m \<and> puts conv_buf (s\<lparr>mem := m\<rparr>) = Some (s', n)
    \<and> con.emits (digits_text (nat r) (unat v)) s s'"
  using print_number [OF assms(1), of "digits_text (nat r) (unat v)"] u32_digits [of v] itoa_digits [of r "mem s" v conv_buf]
    assms(2)
  by (auto simp: digits_text_def)

lemma print_signed:
  assumes "scr_ok s"
  shows "\<exists>m s' n. (if sint v < 0
        then itoa ((mem s)(conv_buf := of_char CHR ''-'')) (- v) (padd conv_buf 1) 10
        else itoa (mem s) v conv_buf 10) = Some m
    \<and> puts conv_buf (s\<lparr>mem := m\<rparr>) = Some (s', n) \<and> con.emits (decimal_text (sint v)) s s'"
proof (cases "sint v < 0")
  case False
  then show ?thesis
    using print_unsigned [OF assms, of 10 v] by (simp add: decimal_text_def unat_sint_nonneg)
next
  case True
  let ?t = "of_char CHR ''-'' # digits_text 10 (unat (- v))"
  have "itoa ((mem s)(conv_buf := of_char CHR ''-'')) (- v) (padd conv_buf 1) 10
    = Some (put_bytes (mem s) conv_buf (?t @ [0]))"
    using itoa_digits [of 10 "(mem s)(conv_buf := of_char CHR ''-'')" "- v" "padd conv_buf 1"]
      put_bytes_Cons [of "digits_text 10 (unat (- v)) @ [0]" "mem s" conv_buf "of_char CHR ''-''"] u32_digits(2) [of "- v"]
    by (simp add: digits_text_def)
  moreover have "\<exists>s' n. puts conv_buf (s\<lparr>mem := put_bytes (mem s) conv_buf (?t @ [0])\<rparr>) = Some (s', n) \<and> con.emits ?t s s'"
    using u32_digits(1,2) [of "- v"] by (intro print_number [OF assms]) simp_all
  moreover have "?t = decimal_text (sint v)" using True by (simp add: decimal_text_def unat_uminus_sint)
  ultimately show ?thesis using True by auto
qed

lemma conversion_ok:
  assumes "scr_ok s" and "conversion_text strs c alternate args = Some (out, args')"
    and "\<And>v str. strs v = Some str \<Longrightarrow> cstr (mem s) (Global, v) str"
  shows "\<exists>s'. printf_conversion c alternate args s = Some (s', args') \<and> con.emits out s s'"
proof -
  consider (percent) "c = of_char CHR ''%''" | (x) "c = of_char CHR ''x''" | (u) "c = of_char CHR ''u''"
    | (d) "c = of_char CHR ''d''" | (c) "c = of_char CHR ''c''" | (s) "c = of_char CHR ''s''"
    | (other) "c \<notin> of_char ` {CHR ''%'', CHR ''x'', CHR ''u'', CHR ''d'', CHR ''c'', CHR ''s''}" by blast
  then show ?thesis
  proof cases
    case percent
    then show ?thesis
      using assms(2) con.emits_put [OF assms(1), of "of_char CHR ''%''"]
      by (auto simp: conversion_text_def printf_conversion_def)
  next
    case x
    then obtain v where "args = v # args'"
      "out = (if alternate then replicate (8 - length (digits_text 16 (unat v))) (of_char CHR ''0'') else [])
        @ digits_text 16 (unat v)"
      using assms(2) by (auto simp: conversion_text_def Let_def split: list.splits if_splits)
    then show ?thesis
      using x print_unsigned [OF assms(1), of 16 v] print_hex_padded [OF assms(1), of v]
      by (auto simp: printf_conversion_def)
  next
    case u
    then obtain v where "args = v # args'" "out = digits_text 10 (unat v)"
      using assms(2) by (auto simp: conversion_text_def split: list.splits if_splits)
    then show ?thesis using u print_unsigned [OF assms(1), of 10 v] by (auto simp: printf_conversion_def)
  next
    case d
    then obtain v where v: "args = v # args'" "out = decimal_text (sint v)"
      using assms(2) by (auto simp: conversion_text_def split: list.splits if_splits)
    obtain m s' n where m: "(if sint v < 0
        then itoa ((mem s)(conv_buf := of_char CHR ''-'')) (- v) (padd conv_buf 1) 10
        else itoa (mem s) v conv_buf 10) = Some m"
      "puts conv_buf (s\<lparr>mem := m\<rparr>) = Some (s', n)" "con.emits (decimal_text (sint v)) s s'"
      using print_signed [OF assms(1), of v] by blast
    have "printf_conversion c alternate args s = Some (s', args')"
      unfolding printf_conversion_def m(1) v d using m(2) by (simp add: m(1) [simplified])
    then show ?thesis using m(3) v(2) by auto
  next
    case c
    then obtain v where "args = v # args'" "out = [ucast v]"
      using assms(2) by (auto simp: conversion_text_def split: list.splits if_splits)
    then show ?thesis
      using c con.emits_put [OF assms(1), of "ucast v"] by (auto simp: printf_conversion_def)
  next
    case s
    then obtain v where "args = v # args'" "strs v = Some out"
      using assms(2) by (auto simp: conversion_text_def split: list.splits if_splits)
    then show ?thesis
      using s puts_cstr [OF assms(3) assms(1)] by (fastforce simp: printf_conversion_def)
  next
    case other
    then show ?thesis
      using assms(1,2) by (auto simp: conversion_text_def printf_conversion_def con.emits_Nil)
  qed
qed

lemma format_char_switch_skips:
  "cstr m p f \<Longrightarrow> dropWhile (\<lambda>b. b = of_char CHR ''#'') f = k # f' \<Longrightarrow>
   format_char_switch m p alt = Some (padd p (of_nat (length f - Suc (length f'))), alt \<or> hd f = of_char CHR ''#'')
   \<and> cstr m (padd p (of_nat (length f - Suc (length f')))) (k # f')"
proof (induction f arbitrary: p alt)
  case Nil
  then show ?case by simp
next
  case (Cons b f)
  have b: "m p = b" using cstr_nth(1) [OF Cons.prems(1), of 0] by simp
  have tail: "cstr m (padd p 1) f"
    using Cons.prems(1) by (simp add: cstr_def bytes_at_Suc add.commute)
  show ?case
  proof (cases "b = of_char CHR ''#''")
    case True
    then have dw: "dropWhile (\<lambda>b. b = of_char CHR ''#'') f = k # f'" using Cons.prems(2) by simp
    then have len: "Suc (length f') \<le> length f"
      using length_dropWhile_le [of "\<lambda>b. b = of_char CHR ''#''" f] by simp
    show ?thesis
      using Cons.IH [OF tail dw, of True] True b len
      by (simp add: format_char_switch.simps [of m p] Suc_diff_le)
  next
    case False
    then show ?thesis using Cons.prems b by (simp add: format_char_switch.simps)
  qed
qed

lemma cstr_frame:
  assumes "print_frame s s'" and "fst p \<noteq> Local 0" and "cstr (mem s) p f"
  shows "cstr (mem s') p f"
proof -
  have "\<not> in_region conv_buf 64 (padd p k)" for k
    using assms(2) by (simp add: in_region_def conv_buf_def)
  then have "mem s' (padd p k) = mem s (padd p k)" for k
    using assms(1) unfolding print_frame_def by blast
  then show ?thesis using assms(3) by (simp add: cstr_def bytes_at_def)
qed

lemma cstr_tl: "cstr m p (c # f) \<Longrightarrow> m p = c \<and> c \<noteq> 0 \<and> cstr m (padd p 1) f"
  using cstr_nth [of m p "c # f" 0] by (simp add: cstr_def bytes_at_Suc add.commute)

lemma printf_from_render:
  "cstr (mem s) p f \<Longrightarrow> fst p \<noteq> Local 0 \<Longrightarrow> scr_ok s \<Longrightarrow> render strs f args = Some out \<Longrightarrow>
   (\<And>v str. strs v = Some str \<Longrightarrow> cstr (mem s) (Global, v) str) \<Longrightarrow>
   \<exists>s'. printf_from p args s = Some (s', padd p (of_nat (length f))) \<and> con.emits out s s'"
proof (induction strs f args arbitrary: p s out rule: render.induct)
  case (1 strs args)
  then show ?case
    using cstr_end [OF "1.prems"(1)] by (auto simp: printf_from.simps con.emits_Nil)
next
  case (2 strs c f args)
  note tl = cstr_tl [OF "2.prems"(1)]
  show ?case
  proof (cases "c = of_char CHR ''%''")
    case True
    obtain k f' o1 args' o2 where kf: "dropWhile (\<lambda>b. b = of_char CHR ''#'') f = k # f'"
      and conv: "conversion_text strs k (f \<noteq> [] \<and> hd f = of_char CHR ''#'') args = Some (o1, args')"
      and rest: "render strs f' args' = Some o2" and out: "out = o1 @ o2"
      using "2.prems"(4) True by (auto split: list.splits bind_splits)
    have "f \<noteq> []" using kf by auto
    let ?q = "padd (padd p 1) (of_nat (length f - Suc (length f')))"
    have sw: "format_char_switch (mem s) (padd p 1) False = Some (?q, hd f = of_char CHR ''#'')"
      and q: "cstr (mem s) ?q (k # f')"
      using format_char_switch_skips [OF _ kf, of "mem s" "padd p 1" False] tl by simp_all
    obtain s1 where s1: "printf_conversion k (hd f = of_char CHR ''#'') args s = Some (s1, args')" "con.emits o1 s s1"
      using conversion_ok [OF "2.prems"(3) conv "2.prems"(5)] \<open>f \<noteq> []\<close> by auto
    have ok1: "scr_ok s1" and fr1: "print_frame s s1" using emits_ok [OF s1(2)] by simp_all
    have strs1: "cstr (mem s1) (Global, v) str" if "strs v = Some str" for v str
      using cstr_frame [OF fr1 _ "2.prems"(5) [OF that]] by simp
    have q1: "cstr (mem s1) (padd ?q 1) f'"
      using cstr_frame [OF fr1 _ cstr_tl [OF q, THEN conjunct2, THEN conjunct2]] "2.prems"(2) by simp
    obtain s' where s': "printf_from (padd ?q 1) args' s1 = Some (s', padd (padd ?q 1) (of_nat (length f')))"
      "con.emits o2 s1 s'"
      using "2.IH"(1) [OF True kf conv refl q1 _ ok1 rest strs1] "2.prems"(2) by auto
    have "length f = (length f - Suc (length f')) + Suc (length f')"
      using kf length_dropWhile_le [of "\<lambda>b. b = of_char CHR ''#''" f] by simp
    then have pos: "padd (padd ?q 1) (of_nat (length f')) = padd p (of_nat (length (c # f)))"
      by (metis (no_types, lifting) add.assoc add.commute length_Cons of_nat_Suc of_nat_add padd_padd)
    have "printf_from p args s = Some (s', padd p (of_nat (length (c # f))))"
      unfolding pos [symmetric] using tl True sw s1(1) s'(1) cstr_tl [OF q]
      by (simp add: printf_from.simps [of p])
    then show ?thesis using con.emits_append [OF s1(2) s'(2)] out by blast
  next
    case False
    then obtain o2 where o2: "render strs f args = Some o2" "out = c # o2" using "2.prems"(4) by auto
    obtain s1 where s1: "putc c (active_terminal s) s = Some s1" "con.emits [c] s s1"
      using con.emits_put [OF "2.prems"(3)] by blast
    have ok1: "scr_ok s1" and fr1: "print_frame s s1" using emits_ok [OF s1(2)] by simp_all
    have strs1: "cstr (mem s1) (Global, v) str" if "strs v = Some str" for v str
      using cstr_frame [OF fr1 _ "2.prems"(5) [OF that]] by simp
    have q1: "cstr (mem s1) (padd p 1) f" using cstr_frame [OF fr1] tl "2.prems"(2) by simp
    obtain s' where s': "printf_from (padd p 1) args s1 = Some (s', padd (padd p 1) (of_nat (length f)))"
      "con.emits o2 s1 s'"
      using "2.IH"(2) [OF False q1 _ ok1 o2(1) strs1] "2.prems"(2) by auto
    then have "printf_from p args s = Some (s', padd p (of_nat (length (c # f))))"
      using tl False s1(1) by (simp add: printf_from.simps [of p])
    then show ?thesis using con.emits_append [OF s1(2) s'(2)] o2(2) by auto
  qed
qed

lemma printf_result:
  assumes "scr_ok s" and "cstr (mem s) fmt f" and "length f < 2 ^ 31" and "fst fmt \<noteq> Local 0"
    and "render strs f args = Some out"
    and "\<And>v str. strs v = Some str \<Longrightarrow> cstr (mem s) (Global, v) str"
  shows "\<exists>s'. printf fmt args s = Some (s', int (length f)) \<and> scr_ok s'
    \<and> shown s' = fold tty_emit out (shown s) \<and> print_frame s s'"
proof -
  have "sint (of_nat (length f) :: u32) = int (length f)"
    using sint_word_of_int_u32 [of "int (length f)"] assms(3) by simp
  then show ?thesis
    using printf_from_render [OF assms(2,4,1,5,6)] by (auto simp: printf_def con.emits_def)
qed

section \<open>Correctness of formatted output\<close>

text \<open>\<open>puts\<close> of a NUL-terminated string returns its length, and what the shown terminal
  displays afterwards is what the abstract console displays after the string's characters;
  nothing else of memory or of the other terminals changes.\<close>

theorem puts_correct:
  assumes "scr_ok s" and "cstr (mem s) p str" and "length str < 2 ^ 31"
  shows "\<exists>s'. puts p s = Some (s', int (length str)) \<and> scr_ok s' \<and> shown s' = fold tty_emit str (shown s)
    \<and> mem s' = mem s \<and> tty_frame (active_terminal s) s s'"
proof -
  obtain s' where s': "puts p s = Some (s', sint (of_nat (length str) :: u32))" "con.emits str s s'" "mem s' = mem s"
    using puts_cstr [OF assms(2,1)] by blast
  moreover have "sint (of_nat (length str) :: u32) = int (length str)"
    using sint_word_of_int_u32 [of "int (length str)"] assms(3) by simp
  moreover have "tty_frame (active_terminal s) s s'"
    using s'(2,3) by (simp add: con.emits_def print_frame_def tty_frame_def)
  ultimately show ?thesis by (simp add: con.emits_def)
qed

theorem puts_correct_witness:
  "\<exists>s'. puts (Global, 100) (boot_screen\<lparr>mem := put_bytes (\<lambda>_. 7) (Global, 100) ([72, 105] @ [0])\<rparr>) = Some (s', 2)
    \<and> cursor_pos s' 1 = 7"
proof -
  let ?s = "boot_screen\<lparr>mem := put_bytes (\<lambda>_. 7) (Global, 100) ([72, 105] @ [0])\<rparr>"
  have "scr_ok ?s" using boot_screen_ok(1) by (simp add: scr_ok_def)
  moreover have "cstr (mem ?s) (Global, 100) [72, 105]"
    using cstr_put_bytes [of "[72, 105]" "\<lambda>_. 7" "(Global, 100)"] by simp
  moreover have "shown ?s = (1, cells (video ?s) 0, cells (video ?s) 1, 5)"
    using boot_screen_ok(2,3) by (simp add: shown_def console_def cursor_pos_def)
  ultimately show ?thesis
    using puts_correct [of ?s "(Global, 100)" "[72, 105]"]
    by (auto simp: tty_emit_def tty_putc_def tty_char_def shown_def console_def)
qed

text \<open>C38: \<open>printf\<close> prints the text its format stands for. For every format that does not end
  inside a conversion and arguments that suffice, it returns the length of the format, the shown
  terminal displays what the abstract console displays after the characters of \<open>render\<close>
  (decimal, signed and hexadecimal numbers, padded hexadecimal, characters, strings, literal
  percent signs), and no memory but the conversion buffer changes.\<close>

theorem printf_correct:
  assumes "scr_ok s" and "cstr (mem s) fmt f" and "length f < 2 ^ 31" and "fst fmt \<noteq> Local 0"
    and "render strs f args = Some out"
    and "\<And>v str. strs v = Some str \<Longrightarrow> cstr (mem s) (Global, v) str"
  shows "\<exists>s'. printf fmt args s = Some (s', int (length f)) \<and> scr_ok s'
    \<and> shown s' = fold tty_emit out (shown s) \<and> print_frame s s'"
  by (rule printf_result [OF assms])

theorem printf_correct_witness:
  "\<exists>s'. printf (Global, 100) [42] (boot_screen\<lparr>mem := put_bytes (\<lambda>_. 7) (Global, 100) (cbytes ''n=%u'' @ [0])\<rparr>)
      = Some (s', 4) \<and> cursor_pos s' 1 = 9"
proof -
  let ?s = "boot_screen\<lparr>mem := put_bytes (\<lambda>_. 7) (Global, 100) (cbytes ''n=%u'' @ [0])\<rparr>"
  have ok: "scr_ok ?s" using boot_screen_ok(1) by (simp add: scr_ok_def)
  have "cstr (mem ?s) (Global, 100) (cbytes ''n=%u'')"
    using cstr_put_bytes [of "cbytes ''n=%u''" "\<lambda>_. 7" "(Global, 100)"] by (simp add: cbytes_def)
  moreover have "render Map.empty (cbytes ''n=%u'') [42] = Some (cbytes ''n=42'')"
    by (simp add: cbytes_def conversion_text_def digits_text_def to_digits_def ldigits.simps digit_bytes_def lookup_def)
  moreover have "shown ?s = (1, cells (video ?s) 0, cells (video ?s) 1, 5)"
    using boot_screen_ok(2,3) by (simp add: shown_def console_def cursor_pos_def)
  ultimately show ?thesis
    using printf_correct [OF ok, of "(Global, 100)" "cbytes ''n=%u''" Map.empty "[42]" "cbytes ''n=42''"]
    by (auto simp: cbytes_def tty_emit_def tty_putc_def tty_char_def shown_def console_def)
qed

end
