(* ===== verification/Keyboard.thy ===== *)
theory Keyboard
  imports Rtc Lib_Printf
begin

text \<open>
  The keyboard driver, \<open>student-distrib/keyboard.c\<close>, and the terminal driver,
  \<open>student-distrib/terminal.c\<close>: the scancode tables, the modifier flags, the line buffer of each
  terminal, the interrupt handler and the read and write operations. A store past the end of a
  line buffer is \<open>None\<close>.
\<close>

record kbd_state = rtc_state +
  altStatus :: int
  F1Status :: int
  F2Status :: int
  F3Status :: int
  ctrlStatus :: int
  shiftStatus :: int
  capsStatus :: int
  keyboardBuffer :: "u8 list list"
  keyboardBufferIdx :: "u32 list"
  enterStatus :: u32
  pcb_terminal :: u32

abbreviation LSHIFT :: u8 where "LSHIFT \<equiv> 42"
abbreviation RSHIFT :: u8 where "RSHIFT \<equiv> 54"
abbreviation CTRL :: u8 where "CTRL \<equiv> 29"
abbreviation CAPSLOCK :: u8 where "CAPSLOCK \<equiv> 58"
abbreviation ALT :: u8 where "ALT \<equiv> 56"
abbreviation BACKSPACE :: u8 where "BACKSPACE \<equiv> 14"
abbreviation TAB :: u8 where "TAB \<equiv> 15"
abbreviation ENTER :: u8 where "ENTER \<equiv> 28"
abbreviation ESC :: u8 where "ESC \<equiv> 1"
abbreviation F1 :: u8 where "F1 \<equiv> 59"
abbreviation F2 :: u8 where "F2 \<equiv> 60"
abbreviation F3 :: u8 where "F3 \<equiv> 61"
abbreviation INPUTBUFFER :: u16 where "INPUTBUFFER \<equiv> 0x60"
abbreviation BUFFER_SIZE :: u32 where "BUFFER_SIZE \<equiv> 128"

section \<open>The scancode tables\<close>

definition keyboardUS :: "u8 list" where
  "keyboardUS = [0, 27] @ cbytes ''1234567890-='' @ [0, 9] @ cbytes ''qwertyuiop[]'' @ [10, 0]
     @ cbytes ''asdfghjkl;'' @ [39, 96, 0, 92] @ cbytes ''zxcvbnm,./'' @ [0] @ cbytes ''*'' @ [0, 32, 0]
     @ replicate 15 0 @ cbytes ''-'' @ replicate 3 0 @ cbytes ''+'' @ replicate 49 0"

definition keyboardUSShift :: "u8 list" where
  "keyboardUSShift = [0, 27] @ cbytes ''!@#$%^&*()_+'' @ [0, 9] @ cbytes ''QWERTYUIOP{}'' @ [10, 0]
     @ cbytes ''ASDFGHJKL:'' @ [34, 126, 0, 124] @ cbytes ''ZXCVBNM<>?'' @ [0] @ cbytes ''*'' @ [0, 32, 0]
     @ replicate 15 0 @ cbytes ''-'' @ replicate 3 0 @ cbytes ''+'' @ replicate 49 0"

section \<open>The interrupt handler\<close>

definition enableKeyboard :: "'a pic_state_scheme \<Rightarrow> 'a pic_state_scheme" where
  "enableKeyboard s = (let flags = iflag s; s = cli s; s = enable_irq 1 s in restore_flags flags s)"

text \<open>The branch for a released key (top bit of the scancode set).\<close>

definition key_released :: "u8 \<Rightarrow> 'a kbd_state_scheme \<Rightarrow> 'a kbd_state_scheme" where
  "key_released tempCode s =
     (let s = (if tempCode = LSHIFT \<or> tempCode = RSHIFT then s\<lparr>shiftStatus := 0\<rparr> else s);
          s = (if tempCode = CTRL then s\<lparr>ctrlStatus := 0\<rparr> else s);
          s = (if tempCode = ALT then s\<lparr>altStatus := 0\<rparr> else s);
          s = (if tempCode = F1 then s\<lparr>F1Status := 0\<rparr> else s);
          s = (if tempCode = F2 then s\<lparr>F2Status := 0\<rparr> else s)
      in if tempCode = F3 then s\<lparr>F3Status := 0\<rparr> else s)"

text \<open>The branch for a pressed key: the flags, then the character looked up in the tables.\<close>

definition key_pressed :: "u8 \<Rightarrow> 'a kbd_state_scheme \<Rightarrow> 'a kbd_state_scheme" where
  "key_pressed scancode s =
     (let s = (if scancode = LSHIFT \<or> scancode = RSHIFT then s\<lparr>shiftStatus := 1\<rparr> else s);
          s = (if scancode = CTRL then s\<lparr>ctrlStatus := 1\<rparr> else s);
          s = (if scancode = ALT then s\<lparr>altStatus := 1\<rparr> else s);
          s = (if scancode = F1 then s\<lparr>F1Status := 1\<rparr> else s);
          s = (if scancode = F2 then s\<lparr>F2Status := 1\<rparr> else s);
          s = (if scancode = F3 then s\<lparr>F3Status := 1\<rparr> else s);
          s = (if scancode = CAPSLOCK then s\<lparr>capsStatus := (if capsStatus s = 0 then 1 else 0)\<rparr> else s)
      in if scancode = ENTER then s\<lparr>enterStatus := 1\<rparr> else s)"

definition key_char :: "u8 \<Rightarrow> 'a kbd_state_scheme \<Rightarrow> u8 option" where
  "key_char scancode s = do {
     us \<leftarrow> arr_get keyboardUS (unat scancode);
     shifted \<leftarrow> arr_get keyboardUSShift (unat scancode);
     if of_char CHR ''a'' \<le> us \<and> us \<le> of_char CHR ''z''
     then Some (if shiftStatus s XOR capsStatus s \<noteq> 0 then shifted else us)
     else Some (if shiftStatus s \<noteq> 0 then shifted else us) }"

definition key_backspace :: "'a kbd_state_scheme \<Rightarrow> 'a kbd_state_scheme option" where
  "key_backspace s = do {
     let t = unat (active_terminal s);
     idx \<leftarrow> arr_get (keyboardBufferIdx s) t;
     if idx > 0 then do {
       s \<leftarrow> backspace s;
       row \<leftarrow> arr_get (keyboardBuffer s) t;
       row \<leftarrow> arr_set row (unat idx) 0;
       rows \<leftarrow> arr_set (keyboardBuffer s) t row;
       idxs \<leftarrow> arr_set (keyboardBufferIdx s) t (idx - 1);
       Some (s\<lparr>keyboardBuffer := rows, keyboardBufferIdx := idxs\<rparr>) }
     else Some s }"

definition switch_terminal :: "u8 \<Rightarrow> 'a kbd_state_scheme \<Rightarrow> 'a kbd_state_scheme \<times> u8" where
  "switch_terminal returnChar s =
     (if altStatus s \<noteq> 0 \<and> F1Status s \<noteq> 0 then (s\<lparr>active_terminal := 0\<rparr>, 0)
      else if altStatus s \<noteq> 0 \<and> F2Status s \<noteq> 0 then (s\<lparr>active_terminal := 1\<rparr>, 0)
      else if altStatus s \<noteq> 0 \<and> F3Status s \<noteq> 0 then (s\<lparr>active_terminal := 2\<rparr>, 0)
      else (s, returnChar))"

definition key_enqueue :: "u8 \<Rightarrow> 'a kbd_state_scheme \<Rightarrow> 'a kbd_state_scheme option" where
  "key_enqueue returnChar s = do {
     let t = unat (active_terminal s);
     idx \<leftarrow> arr_get (keyboardBufferIdx s) t;
     s \<leftarrow> (if idx < BUFFER_SIZE then do {
         row \<leftarrow> arr_get (keyboardBuffer s) t;
         row \<leftarrow> arr_set row (unat idx) returnChar;
         rows \<leftarrow> arr_set (keyboardBuffer s) t row;
         idxs \<leftarrow> arr_set (keyboardBufferIdx s) t (idx + 1);
         Some (s\<lparr>keyboardBuffer := rows, keyboardBufferIdx := idxs\<rparr>) }
       else Some s);
     putc returnChar (active_terminal s) s }"

definition keyboard_handler :: "device \<Rightarrow> 'a kbd_state_scheme \<Rightarrow> 'a kbd_state_scheme option" where
  "keyboard_handler dev s = do {
     let s = cli s;
     let s = disable_irq 1 s;
     let (scancode, s) = inb dev INPUTBUFFER s;
     (s, returnChar) \<leftarrow>
       (if scancode AND 0x80 \<noteq> 0 then Some (key_released (scancode AND 0x7F) s, 0)
        else do {
          let s = key_pressed scancode s;
          c \<leftarrow> key_char scancode s;
          Some (s, c) });
     s \<leftarrow> (if scancode = BACKSPACE then key_backspace s else Some s);
     (s, returnChar) \<leftarrow> (if scancode = TAB then map_option (\<lambda>s. (s, 0)) (tab (active_terminal s) s)
        else Some (s, returnChar));
     (s, returnChar) \<leftarrow> (if ctrlStatus s \<noteq> 0 \<and> (returnChar = of_char CHR ''l'' \<or> returnChar = of_char CHR ''L'')
        then map_option (\<lambda>s. (s, 0)) (clear (active_terminal s) s) else Some (s, returnChar));
     let (s, returnChar) = switch_terminal returnChar s;
     s \<leftarrow> (if returnChar \<noteq> 0 \<and> scancode \<noteq> ESC \<and> ctrlStatus s = 0 then key_enqueue returnChar s else Some s);
     let s = send_eoi 1 s;
     let s = enable_irq 1 s;
     Some (sti s) }"

section \<open>Reading and writing\<close>

definition clear_keyboardBuffer :: "u32 \<Rightarrow> 'a kbd_state_scheme \<Rightarrow> 'a kbd_state_scheme option" where
  "clear_keyboardBuffer terminal s = do {
     idxs \<leftarrow> arr_set (keyboardBufferIdx s) (unat terminal) 0;
     row \<leftarrow> arr_get (keyboardBuffer s) (unat terminal);
     row \<leftarrow> foldo (\<lambda>i row. arr_set row i 0) [0..<unat BUFFER_SIZE] row;
     rows \<leftarrow> arr_set (keyboardBuffer s) (unat terminal) row;
     Some (s\<lparr>keyboardBufferIdx := idxs, keyboardBuffer := rows\<rparr>) }"

text \<open>
  The waiting loop of \<open>keyboard_read\<close>, with the interrupts that arrive during it; it ends with
  \<open>None\<close> in the second place, or returns early with a code.
\<close>

fun keyboard_read_loop ::
  "('a kbd_state_scheme \<Rightarrow> 'a kbd_state_scheme option) list \<Rightarrow> ptr \<Rightarrow> int \<Rightarrow> 'a kbd_state_scheme
   \<Rightarrow> ('a kbd_state_scheme \<times> int option \<times> ('a kbd_state_scheme \<Rightarrow> 'a kbd_state_scheme option) list) option"
where
  "keyboard_read_loop irqs buf nbytes s =
     (if enterStatus s = 0 \<or> pcb_terminal s \<noteq> active_terminal s
      then let s = cli s
           in if nbytes < 0 \<or> buf = NULL then Some (s, Some (-1), irqs)
              else if nbytes = 0 then Some (s, Some 0, irqs)
              else (case irqs of [] \<Rightarrow> None
                | h # hs \<Rightarrow> h (sti s) \<bind> keyboard_read_loop hs buf nbytes)
      else Some (s, None, irqs))"

definition keyboard_read ::
  "('a kbd_state_scheme \<Rightarrow> 'a kbd_state_scheme option) list \<Rightarrow> int \<Rightarrow> ptr \<Rightarrow> int \<Rightarrow> 'a kbd_state_scheme
   \<Rightarrow> ('a kbd_state_scheme \<times> int \<times> ('a kbd_state_scheme \<Rightarrow> 'a kbd_state_scheme option) list) option"
where
  "keyboard_read irqs fd buf nbytes s = do {
     (s, early, irqs) \<leftarrow> keyboard_read_loop irqs buf nbytes s;
     case early of Some code \<Rightarrow> Some (s, code, irqs)
     | None \<Rightarrow> do {
         let s = s\<lparr>enterStatus := 0\<rparr>;
         idx \<leftarrow> arr_get (keyboardBufferIdx s) (unat (active_terminal s));
         row \<leftarrow> arr_get (keyboardBuffer s) (unat (active_terminal s));
         let n = min (unat idx) (nat nbytes);
         m \<leftarrow> foldo (\<lambda>i m. do { c \<leftarrow> arr_get row i; Some (m(padd buf (of_nat i) := c)) }) [0..<n] (mem s);
         s \<leftarrow> clear_keyboardBuffer (active_terminal s) (s\<lparr>mem := m\<rparr>);
         Some (s, int n, irqs) } }"

definition keyboard_write :: "int \<Rightarrow> ptr \<Rightarrow> int \<Rightarrow> 's \<Rightarrow> 's \<times> int" where
  "keyboard_write fd buf nbytes s = (s, -1)"

definition keyboard_open :: "ptr \<Rightarrow> 's \<Rightarrow> 's \<times> int" where
  "keyboard_open filename s = (s, -1)"

definition keyboard_close :: "int \<Rightarrow> 's \<Rightarrow> 's \<times> int" where
  "keyboard_close fd s = (s, -1)"

definition terminal_write ::
  "int \<Rightarrow> ptr \<Rightarrow> int \<Rightarrow> 'a kbd_state_scheme \<Rightarrow> ('a kbd_state_scheme \<times> int) option"
where
  "terminal_write fd buf nbytes s =
     (if nbytes < 0 \<or> buf = NULL then Some (s, -1)
      else do {
        let s = s\<lparr>enterStatus := 0\<rparr>;
        s \<leftarrow> foldo (\<lambda>i s. let c = mem s (padd buf (of_nat i))
                        in if c \<noteq> 0 then putc c (pcb_terminal s) s else Some s) [0..<nat nbytes] s;
        Some (s, nbytes) })"

definition terminal_open :: "ptr \<Rightarrow> 'a kbd_state_scheme \<Rightarrow> ('a kbd_state_scheme \<times> int) option" where
  "terminal_open filename s = do {
     let s = s\<lparr>enterStatus := 0\<rparr>;
     s \<leftarrow> clear_keyboardBuffer (pcb_terminal s) s;
     s \<leftarrow> clear (pcb_terminal s) s;
     Some (s, 0) }"

definition terminal_read :: "int \<Rightarrow> ptr \<Rightarrow> int \<Rightarrow> 's \<Rightarrow> 's \<times> int" where
  "terminal_read fd buf nbytes s = (s, -1)"

definition terminal_close :: "int \<Rightarrow> 's \<Rightarrow> 's \<times> int" where
  "terminal_close fd s = (s, -1)"

declare keyboard_read_loop.simps [simp del]

section \<open>Specification of the line buffers\<close>

text \<open>The line typed so far on terminal \<open>t\<close>.\<close>

definition line :: "'a kbd_state_scheme \<Rightarrow> nat \<Rightarrow> u8 list" where
  "line s t = take (unat (keyboardBufferIdx s ! t)) (keyboardBuffer s ! t)"

text \<open>The invariant: three line buffers of 128 bytes, each filled to at most its size.\<close>

definition kbd_ok :: "'a kbd_state_scheme \<Rightarrow> bool" where
  "kbd_ok s \<longleftrightarrow> scr_ok s \<and> length (keyboardBuffer s) = 3 \<and> (\<forall>row \<in> set (keyboardBuffer s). length row = 128)
     \<and> length (keyboardBufferIdx s) = 3 \<and> (\<forall>i \<in> set (keyboardBufferIdx s). unat i \<le> 128)
     \<and> unat (pcb_terminal s) < 3"

text \<open>The modifier flags and the other scalars of the driver.\<close>

definition flags_of :: "'a kbd_state_scheme \<Rightarrow> (int \<times> int \<times> int \<times> int \<times> int \<times> int \<times> int) \<times> u32 \<times> u32" where
  "flags_of s = ((altStatus s, F1Status s, F2Status s, F3Status s, ctrlStatus s, shiftStatus s, capsStatus s),
     enterStatus s, pcb_terminal s)"

text \<open>The character a key press enters into the line, 0 for none.\<close>

definition typed_char :: "u8 \<Rightarrow> 'a kbd_state_scheme \<Rightarrow> u8" where
  "typed_char sc s = (let p = key_pressed sc s in
     if sc AND 0x80 \<noteq> 0 \<or> sc = TAB \<or> sc = ESC \<or> ctrlStatus p \<noteq> 0
       \<or> altStatus p \<noteq> 0 \<and> (F1Status p \<noteq> 0 \<or> F2Status p \<noteq> 0 \<or> F3Status p \<noteq> 0) then 0
     else case key_char sc p of None \<Rightarrow> 0 | Some c \<Rightarrow> c)"

section \<open>Lemmas: the line buffers\<close>

lemma kbd_fields_more:
  assumes "screen_state.more s' = screen_state.more s"
  shows "flags_of s' = flags_of s" "keyboardBuffer s' = keyboardBuffer s" "keyboardBufferIdx s' = keyboardBufferIdx s"
    "interrupt_occurred s' = interrupt_occurred s" "line s' = line s" "pcb_terminal s' = pcb_terminal s"
    "kbd_state.more s' = kbd_state.more s" "enterStatus s' = enterStatus s"
  using assms by (cases s; cases s'; simp add: flags_of_def line_def fun_eq_iff)+

lemma con_frame_kbd_ok: "con_frame s s' \<Longrightarrow> kbd_ok s \<Longrightarrow> kbd_ok s'"
  using kbd_fields_more [of s' s] by (simp add: con_frame_def kbd_ok_def)

lemma kbd_ok_nth:
  assumes "kbd_ok s" and "t < 3"
  shows "length (keyboardBuffer s ! t) = 128" "unat (keyboardBufferIdx s ! t) \<le> 128"
    "t < length (keyboardBuffer s)" "t < length (keyboardBufferIdx s)"
    "length (line s t) = unat (keyboardBufferIdx s ! t)"
  using assms nth_mem [of t "keyboardBuffer s"] nth_mem [of t "keyboardBufferIdx s"]
  by (auto simp: kbd_ok_def line_def)

text \<open>Storing a byte at the fill index, and moving the index, keeps the invariant.\<close>

definition store_key :: "nat \<Rightarrow> nat \<Rightarrow> u8 \<Rightarrow> u32 \<Rightarrow> 'a kbd_state_scheme \<Rightarrow> 'a kbd_state_scheme" where
  "store_key t i c idx s = s\<lparr>keyboardBuffer := (keyboardBuffer s)[t := (keyboardBuffer s ! t)[i := c]],
     keyboardBufferIdx := (keyboardBufferIdx s)[t := idx]\<rparr>"

lemma store_key_ok:
  assumes "kbd_ok s" and "t < 3" and "unat idx \<le> 128"
  shows "kbd_ok (store_key t i c idx s)"
  using assms kbd_ok_nth(1) [OF assms(1,2)]
  by (auto simp: kbd_ok_def store_key_def scr_ok_def dest!: set_update_subset_insert [THEN subsetD])

lemma store_key_line:
  assumes "kbd_ok s" and "t < 3"
  shows "line (store_key t i c idx s) u
    = (if u = t then take (unat idx) ((keyboardBuffer s ! t)[i := c]) else line s u)"
  using kbd_ok_nth [OF assms] by (simp add: line_def store_key_def)

lemma store_key_frame [simp]:
  "flags_of (store_key t i c idx s) = flags_of s" "mem (store_key t i c idx s) = mem s"
  "active_terminal (store_key t i c idx s) = active_terminal s" "iflag (store_key t i c idx s) = iflag s"
  "scr_ok (store_key t i c idx s) = scr_ok s" "io_log (store_key t i c idx s) = io_log s"
  "master_mask (store_key t i c idx s) = master_mask s" "slave_mask (store_key t i c idx s) = slave_mask s"
  by (simp_all add: store_key_def flags_of_def scr_ok_def)

lemma active_less: "kbd_ok s \<Longrightarrow> unat (active_terminal s) < 3"
  by (simp add: kbd_ok_def scr_ok_def)

text \<open>What every stage of the handler keeps.\<close>

definition kbd_step :: "'a kbd_state_scheme \<Rightarrow> 'a kbd_state_scheme \<Rightarrow> bool" where
  "kbd_step s s' \<longleftrightarrow> kbd_ok s' \<and> mem s' = mem s \<and> iflag s' = iflag s \<and> master_mask s' = master_mask s
     \<and> slave_mask s' = slave_mask s \<and> crtc_only (io_log s) (io_log s')"

lemma kbd_step_trans: "kbd_step a b \<Longrightarrow> kbd_step b c \<Longrightarrow> kbd_step a c"
  by (auto simp: kbd_step_def intro: crtc_only_trans)

lemma kbd_step_refl: "kbd_ok s \<Longrightarrow> kbd_step s s"
  by (simp add: kbd_step_def)

lemma con_frame_step:
  assumes "con_frame s s'" and "kbd_ok s"
  shows "kbd_step s s'" "flags_of s' = flags_of s" "line s' = line s" "active_terminal s' = active_terminal s"
  using assms con_frame_kbd_ok [OF assms] kbd_fields_more [of s' s]
  by (simp_all add: con_frame_def kbd_step_def)

lemma key_backspace_ok:
  assumes "kbd_ok s" and "a = unat (active_terminal s)" and "length (line s a) \<noteq> 128"
  shows "\<exists>s'. key_backspace s = Some s' \<and> kbd_step s s' \<and> flags_of s' = flags_of s
    \<and> active_terminal s' = active_terminal s \<and> line s' = (line s)(a := butlast (line s a))"
proof -
  let ?idx = "keyboardBufferIdx s ! a"
  have a: "a < 3" using active_less [OF assms(1)] assms(2) by simp
  note n = kbd_ok_nth [OF assms(1) a]
  show ?thesis
  proof (cases "?idx = 0")
    case True
    then have "line s a = []" by (simp add: line_def)
    then have "line s = (line s)(a := butlast (line s a))" by (simp add: fun_eq_iff)
    then show ?thesis using True n assms(1,2) by (simp add: key_backspace_def kbd_step_refl Let_def)
  next
    case False
    obtain s1 where s1: "backspace s = Some s1" "con_frame s s1"
      using console_ops_total(4) [of s 0] assms(1) by (auto simp: kbd_ok_def)
    note f = con_frame_step [OF s1(2) assms(1)]
    have k1: "kbd_ok s1" using f(1) by (simp add: kbd_step_def)
    have eq: "keyboardBuffer s1 = keyboardBuffer s" "keyboardBufferIdx s1 = keyboardBufferIdx s"
      using kbd_fields_more [of s1 s] s1(2) by (simp_all add: con_frame_def)
    let ?s' = "store_key a (unat ?idx) 0 (?idx - 1) s1"
    have i: "unat ?idx < 128" using n(2,5) assms(3) by simp
    have i1: "unat (?idx - 1) = unat ?idx - 1" using False by (simp add: unat_minus_one)
    have "0 < ?idx" using False by (simp add: word_gt_0)
    then have "key_backspace s = Some ?s'"
      using n i s1(1) assms(2) by (simp add: key_backspace_def store_key_def eq Let_def)
    moreover have "line ?s' = (line s)(a := butlast (line s a))"
    proof -
      have "take (unat ?idx - 1) ((keyboardBuffer s ! a)[unat ?idx := 0]) = butlast (line s a)"
        using i n(1) by (simp add: line_def butlast_take take_update_cancel)
      then show ?thesis by (simp add: fun_eq_iff store_key_line [OF k1 a] f(3) eq i1)
    qed
    moreover have "kbd_ok ?s'" using i i1 by (intro store_key_ok [OF k1 a]) simp
    ultimately show ?thesis using f by (simp add: kbd_step_def)
  qed
qed

lemma key_enqueue_ok:
  assumes "kbd_ok s" and "a = unat (active_terminal s)"
  shows "\<exists>s'. key_enqueue c s = Some s' \<and> kbd_step s s' \<and> flags_of s' = flags_of s
    \<and> active_terminal s' = active_terminal s
    \<and> line s' = (line s)(a := if length (line s a) < 128 then line s a @ [c] else line s a)"
proof -
  let ?idx = "keyboardBufferIdx s ! a"
  have a: "a < 3" using active_less [OF assms(1)] assms(2) by simp
  note n = kbd_ok_nth [OF assms(1) a]
  define s1 where "s1 = (if ?idx < 128 then store_key a (unat ?idx) c (?idx + 1) s else s)"
  have idx: "?idx < 128 \<longleftrightarrow> length (line s a) < 128" using n(5) by (simp add: word_less_nat_alt)
  have i1: "?idx < 128 \<Longrightarrow> unat (?idx + 1) = Suc (unat ?idx)" by (rule unat_add_1_less)
  have k1: "kbd_ok s1"
    using assms(1) i1 store_key_ok [OF assms(1) a] by (auto simp: s1_def word_less_nat_alt)
  have l1: "line s1 = (line s)(a := if length (line s a) < 128 then line s a @ [c] else line s a)"
  proof (cases "?idx < 128")
    case True
    then have i: "unat ?idx < 128" by (simp add: word_less_nat_alt)
    have "take (Suc (unat ?idx)) ((keyboardBuffer s ! a)[unat ?idx := c]) = line s a @ [c]"
      using i n(1) by (simp add: line_def take_Suc_conv_app_nth take_update_cancel)
    then show ?thesis
      using True idx i1 by (simp add: fun_eq_iff s1_def store_key_line [OF assms(1) a])
  next
    case False
    then show ?thesis using idx by (simp add: fun_eq_iff s1_def)
  qed
  have fr: "flags_of s1 = flags_of s" "active_terminal s1 = active_terminal s" "kbd_step s s1"
    using k1 by (simp_all add: s1_def kbd_step_def)
  obtain s' where s': "putc c (active_terminal s1) s1 = Some s'" "con_frame s1 s'"
    using console_ops_total(1) [of s1 "active_terminal s1" c] k1 active_less [OF k1] by (auto simp: kbd_ok_def)
  note f = con_frame_step [OF s'(2) k1]
  have "key_enqueue c s = Some s'"
    using n s'(1) assms(2) by (simp add: key_enqueue_def s1_def store_key_def word_less_nat_alt Let_def split: if_splits)
  then show ?thesis using f fr l1 kbd_step_trans [OF fr(3) f(1)] by simp
qed

section \<open>Lemmas: the handler\<close>

lemma length_tables: "length keyboardUS = 128" "length keyboardUSShift = 128"
  by (simp_all add: keyboardUS_def keyboardUSShift_def cbytes_def)

lemma press_range: "sc AND 0x80 = 0 \<Longrightarrow> unat (sc :: u8) < 128"
proof -
  assume *: "sc AND 0x80 = 0"
  have "\<not> bit sc 7" using * and_exp_eq_0_iff_not_bit [of sc 7] by simp
  then have "bit sc n \<Longrightarrow> n < 8 \<Longrightarrow> n < 7" for n by (cases "n = 7") auto
  then have "take_bit 7 sc = sc" by (intro bit_word_eqI) (auto simp: bit_simps)
  then have "unat sc = take_bit 7 (unat sc)" by (metis unsigned_take_bit_eq)
  then show ?thesis using take_bit_nat_less_exp [of 7 "unat sc"] by simp
qed

lemma key_char_total: "sc AND 0x80 = 0 \<Longrightarrow> \<exists>c. key_char sc s = Some c"
  using press_range [of sc] by (simp add: key_char_def length_tables)

lemma key_flags_frame:
  "kbd_ok (key_pressed sc s) = kbd_ok s" "kbd_ok (key_released sc s) = kbd_ok s"
  "line (key_pressed sc s) = line s" "line (key_released sc s) = line s"
  "active_terminal (key_pressed sc s) = active_terminal s" "active_terminal (key_released sc s) = active_terminal s"
  "mem (key_pressed sc s) = mem s" "mem (key_released sc s) = mem s"
  "iflag (key_pressed sc s) = iflag s" "iflag (key_released sc s) = iflag s"
  "master_mask (key_pressed sc s) = master_mask s" "master_mask (key_released sc s) = master_mask s"
  "slave_mask (key_pressed sc s) = slave_mask s" "slave_mask (key_released sc s) = slave_mask s"
  "io_log (key_pressed sc s) = io_log s" "io_log (key_released sc s) = io_log s"
  by (simp_all add: key_pressed_def key_released_def Let_def kbd_ok_def scr_ok_def line_def fun_eq_iff)

text \<open>The state after the flags are updated, and the terminal that is then shown.\<close>

definition after_flags :: "u8 \<Rightarrow> 'a kbd_state_scheme \<Rightarrow> 'a kbd_state_scheme" where
  "after_flags sc s = (if sc AND 0x80 \<noteq> 0 then key_released (sc AND 0x7F) s else key_pressed sc s)"

definition next_terminal :: "'a kbd_state_scheme \<Rightarrow> u32" where
  "next_terminal p = (if altStatus p \<noteq> 0 \<and> F1Status p \<noteq> 0 then 0 else if altStatus p \<noteq> 0 \<and> F2Status p \<noteq> 0 then 1
     else if altStatus p \<noteq> 0 \<and> F3Status p \<noteq> 0 then 2 else active_terminal p)"

definition edit_line :: "u8 \<Rightarrow> nat \<Rightarrow> nat \<Rightarrow> u8 \<Rightarrow> (nat \<Rightarrow> u8 list) \<Rightarrow> (nat \<Rightarrow> u8 list)" where
  "edit_line sc a b c l =
     (let l = (if sc = BACKSPACE then l(a := butlast (l a)) else l)
      in if c \<noteq> 0 \<and> length (l b) < 128 then l(b := l b @ [c]) else l)"

lemma switch_terminal_eq:
  assumes "kbd_ok s"
  shows "switch_terminal c s = (s\<lparr>active_terminal := next_terminal s\<rparr>,
      if altStatus s \<noteq> 0 \<and> (F1Status s \<noteq> 0 \<or> F2Status s \<noteq> 0 \<or> F3Status s \<noteq> 0) then 0 else c)"
    and "kbd_ok (s\<lparr>active_terminal := next_terminal s\<rparr>)"
    and "line (s\<lparr>active_terminal := next_terminal s\<rparr>) = line s"
    and "flags_of (s\<lparr>active_terminal := next_terminal s\<rparr>) = flags_of s"
    and "kbd_step s (s\<lparr>active_terminal := next_terminal s\<rparr>)"
proof -
  show k: "kbd_ok (s\<lparr>active_terminal := next_terminal s\<rparr>)"
    using assms by (auto simp: kbd_ok_def scr_ok_def next_terminal_def)
  show "switch_terminal c s = (s\<lparr>active_terminal := next_terminal s\<rparr>,
      if altStatus s \<noteq> 0 \<and> (F1Status s \<noteq> 0 \<or> F2Status s \<noteq> 0 \<or> F3Status s \<noteq> 0) then 0 else c)"
    by (simp add: switch_terminal_def next_terminal_def)
  show "kbd_step s (s\<lparr>active_terminal := next_terminal s\<rparr>)" using k by (simp add: kbd_step_def)
qed (simp_all add: line_def flags_of_def fun_eq_iff)

lemma key_char_cong:
  assumes "shiftStatus s = shiftStatus t" and "capsStatus s = capsStatus t"
  shows "key_char sc s = key_char sc t"
  unfolding key_char_def assms ..

text \<open>The flag updates commute with the other components of the state.\<close>

lemma special_keys:
  obtains "sc = LSHIFT" | "sc = RSHIFT" | "sc = CTRL" | "sc = ALT" | "sc = F1" | "sc = F2" | "sc = F3"
    | "sc = CAPSLOCK" | "sc = ENTER" | "sc \<notin> {LSHIFT, RSHIFT, CTRL, ALT, F1, F2, F3, CAPSLOCK, ENTER}"
  by blast

lemma key_press_commute:
  "key_pressed sc (s\<lparr>io_log := l, iflag := f, master_mask := a, slave_mask := b\<rparr>)
    = (key_pressed sc s)\<lparr>io_log := l, iflag := f, master_mask := a, slave_mask := b\<rparr>"
  by (rule special_keys [of sc]) (simp_all add: key_pressed_def)

lemma key_release_commute:
  "key_released sc (s\<lparr>io_log := l, iflag := f, master_mask := a, slave_mask := b\<rparr>)
    = (key_released sc s)\<lparr>io_log := l, iflag := f, master_mask := a, slave_mask := b\<rparr>"
  by (rule special_keys [of sc]) (simp_all add: key_released_def)

lemma handler_entry:
  fixes s :: "'a kbd_state_scheme" and dev :: device
  defines "s0 \<equiv> snd (inb dev INPUTBUFFER (disable_irq 1 (cli s)))"
  shows "kbd_ok s0 = kbd_ok s" "line s0 = line s" "flags_of s0 = flags_of s" "active_terminal s0 = active_terminal s"
    "mem s0 = mem s" "typed_char sc s0 = typed_char sc s"
    "flags_of (after_flags sc s0) = flags_of (after_flags sc s)"
    "next_terminal (after_flags sc s0) = next_terminal (after_flags sc s)"
proof -
  obtain l a b where s0: "s0 = s\<lparr>io_log := l, iflag := False, master_mask := a, slave_mask := b\<rparr>"
  proof
    show "s0 = s\<lparr>io_log := io_log s0, iflag := False, master_mask := master_mask s0, slave_mask := slave_mask s0\<rparr>"
      by (simp add: s0_def inb_def disable_irq_def cli_def outb_def Let_def)
  qed
  show "kbd_ok s0 = kbd_ok s" "line s0 = line s" "flags_of s0 = flags_of s" "active_terminal s0 = active_terminal s"
    by (simp_all add: s0 kbd_ok_def scr_ok_def line_def flags_of_def fun_eq_iff)
  show "mem s0 = mem s" by (simp add: s0)
  have k: "key_pressed sc s0 = (key_pressed sc s)\<lparr>io_log := l, iflag := False, master_mask := a, slave_mask := b\<rparr>"
    "key_released sc' s0 = (key_released sc' s)\<lparr>io_log := l, iflag := False, master_mask := a, slave_mask := b\<rparr>" for sc'
    unfolding s0 by (rule key_press_commute, rule key_release_commute)
  have kc: "key_char sc (key_pressed sc s0) = key_char sc (key_pressed sc s)" by (rule key_char_cong) (simp_all add: k)
  have kf: "ctrlStatus (key_pressed sc s0) = ctrlStatus (key_pressed sc s)"
    "altStatus (key_pressed sc s0) = altStatus (key_pressed sc s)" "F1Status (key_pressed sc s0) = F1Status (key_pressed sc s)"
    "F2Status (key_pressed sc s0) = F2Status (key_pressed sc s)" "F3Status (key_pressed sc s0) = F3Status (key_pressed sc s)"
    by (simp_all add: k)
  show "typed_char sc s0 = typed_char sc s" unfolding typed_char_def Let_def kf kc ..
  show "flags_of (after_flags sc s0) = flags_of (after_flags sc s)"
    "next_terminal (after_flags sc s0) = next_terminal (after_flags sc s)"
    by (simp_all add: after_flags_def k flags_of_def next_terminal_def)
qed

lemma flags_eqD: "flags_of s' = flags_of s \<Longrightarrow> altStatus s' = altStatus s \<and> F1Status s' = F1Status s \<and> F2Status s' = F2Status s
   \<and> F3Status s' = F3Status s \<and> ctrlStatus s' = ctrlStatus s \<and> shiftStatus s' = shiftStatus s
   \<and> capsStatus s' = capsStatus s \<and> enterStatus s' = enterStatus s \<and> pcb_terminal s' = pcb_terminal s"
  by (simp add: flags_of_def)

lemma next_terminal_cong:
  "flags_of s' = flags_of s \<Longrightarrow> active_terminal s' = active_terminal s \<Longrightarrow> next_terminal s' = next_terminal s"
  unfolding next_terminal_def by (drule flags_eqD) simp

text \<open>Tab and clear, the two keys that act on the screen only.\<close>

lemma key_screen_ok:
  assumes "kbd_ok s"
  shows "\<exists>s'. (if sc = TAB then map_option (\<lambda>s. (s, 0)) (tab (active_terminal s) s) else Some (s, c))
      = Some (s', if sc = TAB then 0 else c) \<and> kbd_step s s' \<and> flags_of s' = flags_of s \<and> line s' = line s
      \<and> active_terminal s' = active_terminal s"
    and "\<exists>s'. (if P then map_option (\<lambda>s. (s, 0)) (clear (active_terminal s) s) else Some (s, c))
      = Some (s', if P then 0 else c) \<and> kbd_step s s' \<and> flags_of s' = flags_of s \<and> line s' = line s
      \<and> active_terminal s' = active_terminal s"
proof -
  have ok: "scr_ok s" using assms by (simp add: kbd_ok_def)
  obtain s1 where "tab (active_terminal s) s = Some s1" "con_frame s s1"
    using console_ops_total(2) [OF ok active_less [OF assms]] by blast
  then show "\<exists>s'. (if sc = TAB then map_option (\<lambda>s. (s, 0)) (tab (active_terminal s) s) else Some (s, c))
      = Some (s', if sc = TAB then 0 else c) \<and> kbd_step s s' \<and> flags_of s' = flags_of s \<and> line s' = line s
      \<and> active_terminal s' = active_terminal s"
    using con_frame_step [of s s1] kbd_step_refl assms by auto
  obtain s2 where "clear (active_terminal s) s = Some s2" "con_frame s s2"
    using console_ops_total(3) [OF ok active_less [OF assms]] by blast
  then show "\<exists>s'. (if P then map_option (\<lambda>s. (s, 0)) (clear (active_terminal s) s) else Some (s, c))
      = Some (s', if P then 0 else c) \<and> kbd_step s s' \<and> flags_of s' = flags_of s \<and> line s' = line s
      \<and> active_terminal s' = active_terminal s"
    using con_frame_step [of s s2] kbd_step_refl assms by auto
qed

lemma after_flags_char:
  "\<exists>c. (if sc AND 0x80 \<noteq> 0 then Some (key_released (sc AND 0x7F) s, 0)
        else do { let s = key_pressed sc s; c \<leftarrow> key_char sc s; Some (s, c) }) = Some (after_flags sc s, c)
    \<and> (sc AND 0x80 \<noteq> 0 \<longrightarrow> c = 0) \<and> (sc AND 0x80 = 0 \<longrightarrow> key_char sc (key_pressed sc s) = Some c)"
  using key_char_total [of sc "key_pressed sc s"] by (auto simp: after_flags_def)

lemma handler_result:
  assumes "kbd_ok s" and "sc = dev (io_log (disable_irq 1 (cli s))) INPUTBUFFER" and "a = unat (active_terminal s)"
    and "sc = BACKSPACE \<Longrightarrow> length (line s a) \<noteq> 128"
  shows "\<exists>s6 s0. s0 = snd (inb dev INPUTBUFFER (disable_irq 1 (cli s)))
    \<and> keyboard_handler dev s = Some (sti (enable_irq 1 (send_eoi 1 s6))) \<and> kbd_step s0 s6
    \<and> flags_of s6 = flags_of (after_flags sc s) \<and> active_terminal s6 = next_terminal (after_flags sc s)
    \<and> line s6 = edit_line sc a (unat (next_terminal (after_flags sc s))) (typed_char sc s) (line s)"
proof -
  define s0 where "s0 = snd (inb dev INPUTBUFFER (disable_irq 1 (cli s)))"
  note entry = handler_entry [where dev = dev and s = s, folded s0_def]
  define p where "p = after_flags sc s0"
  obtain c where c: "(if sc AND 0x80 \<noteq> 0 then Some (key_released (sc AND 0x7F) s0, 0)
        else do { let s = key_pressed sc s0; c \<leftarrow> key_char sc s; Some (s, c) }) = Some (p, c)"
    "sc AND 0x80 \<noteq> 0 \<longrightarrow> c = 0" "sc AND 0x80 = 0 \<longrightarrow> key_char sc (key_pressed sc s0) = Some c"
    using after_flags_char [of sc s0] p_def by blast
  have k0: "kbd_ok s0" using assms(1) by (simp add: entry)
  have p: "kbd_ok p" "line p = line s" "active_terminal p = active_terminal s" "kbd_step s0 p"
    using k0 by (simp_all add: p_def after_flags_def key_flags_frame entry kbd_step_def)
  obtain s2 where s2: "(if sc = BACKSPACE then key_backspace p else Some p) = Some s2" "kbd_step p s2"
    "flags_of s2 = flags_of p" "active_terminal s2 = active_terminal s"
    "line s2 = (if sc = BACKSPACE then (line s)(a := butlast (line s a)) else line s)"
    using key_backspace_ok [OF p(1), of a] assms(3,4) p kbd_step_refl [OF p(1)]
    by (cases "sc = BACKSPACE") auto
  have k2: "kbd_ok s2" using s2(2) by (simp add: kbd_step_def)
  define c3 where "c3 = (if sc = TAB then 0 else c)"
  obtain s3 where s3: "(if sc = TAB then map_option (\<lambda>s. (s, 0)) (tab (active_terminal s2) s2) else Some (s2, c)) = Some (s3, c3)"
    "kbd_step s2 s3" "flags_of s3 = flags_of s2" "line s3 = line s2" "active_terminal s3 = active_terminal s2"
    using key_screen_ok(1) [OF k2, of sc c] unfolding c3_def by blast
  have k3: "kbd_ok s3" using s3(2) by (simp add: kbd_step_def)
  define L where "L \<longleftrightarrow> ctrlStatus s3 \<noteq> 0 \<and> (c3 = of_char CHR ''l'' \<or> c3 = of_char CHR ''L'')"
  define c4 where "c4 = (if L then 0 else c3)"
  obtain s4 where s4: "(if L then map_option (\<lambda>s. (s, 0)) (clear (active_terminal s3) s3) else Some (s3, c3)) = Some (s4, c4)"
    "kbd_step s3 s4" "flags_of s4 = flags_of s3" "line s4 = line s3" "active_terminal s4 = active_terminal s3"
    using key_screen_ok(2) [OF k3, of L c3] unfolding c4_def by blast
  have k4: "kbd_ok s4" using s4(2) by (simp add: kbd_step_def)
  have fl: "flags_of s4 = flags_of p" using s2(3) s3(3) s4(3) by simp
  define s5 where "s5 = s4\<lparr>active_terminal := next_terminal s4\<rparr>"
  define c5 where "c5 = (if altStatus s4 \<noteq> 0 \<and> (F1Status s4 \<noteq> 0 \<or> F2Status s4 \<noteq> 0 \<or> F3Status s4 \<noteq> 0) then 0 else c4)"
  note sw = switch_terminal_eq [OF k4, folded s5_def]
  have act: "next_terminal s4 = next_terminal (after_flags sc s)"
    using next_terminal_cong [OF fl] p(3) s2(4) s3(5) s4(5) entry(8) [of sc] by (simp add: p_def)
  define typed where "typed \<longleftrightarrow> c5 \<noteq> 0 \<and> sc \<noteq> ESC \<and> ctrlStatus s5 = 0"
  have fp: "ctrlStatus s3 = ctrlStatus p" "ctrlStatus s5 = ctrlStatus p" "altStatus s4 = altStatus p"
    "F1Status s4 = F1Status p" "F2Status s4 = F2Status p" "F3Status s4 = F3Status p"
    using flags_eqD [OF fl] flags_eqD [OF s3(3)] flags_eqD [OF s2(3)] by (simp_all add: s5_def)
  have "typed_char sc s0 = (if typed then c5 else 0)"
    unfolding typed_char_def Let_def typed_def c5_def c4_def L_def c3_def fp
    using c(2,3) by (cases "sc AND 0x80 = 0") (auto simp: p_def after_flags_def)
  then have tc: "typed_char sc s = (if typed then c5 else 0)" by (simp add: entry(6))
  obtain s6 where s6: "(if typed then key_enqueue c5 s5 else Some s5) = Some s6" "kbd_step s5 s6" "flags_of s6 = flags_of s5"
    "active_terminal s6 = active_terminal s5"
    "line s6 = (if typed \<and> length (line s5 (unat (active_terminal s5))) < 128
      then (line s5)(unat (active_terminal s5) := line s5 (unat (active_terminal s5)) @ [c5]) else line s5)"
    using key_enqueue_ok [OF sw(2) refl, of c5] kbd_step_refl [OF sw(2)]
    by (cases typed; cases "length (line s5 (unat (active_terminal s5))) < 128") auto
  have "inb dev INPUTBUFFER (disable_irq 1 (cli s)) = (sc, s0)"
    by (simp add: s0_def assms(2) prod_eq_iff)
  then have "keyboard_handler dev s = Some (sti (enable_irq 1 (send_eoi 1 s6)))"
    unfolding keyboard_handler_def Let_def
    using c(1) s2(1) s3(1) s4(1) s6(1) sw(1) [of c4]
    by (simp only: prod.case bind.bind_lunit L_def typed_def c5_def [symmetric] s5_def [symmetric] Let_def)
  moreover have "kbd_step s0 s6"
    using p(4) s2(2) s3(2) s4(2) sw(5) s6(2) by (meson kbd_step_trans)
  moreover have "flags_of s6 = flags_of (after_flags sc s)"
    using s6(3) sw(4) fl entry(7) [of sc] by (simp add: p_def)
  moreover have "active_terminal s6 = next_terminal (after_flags sc s)"
    using s6(4) act by (simp add: s5_def)
  moreover have "line s6 = edit_line sc a (unat (next_terminal (after_flags sc s))) (typed_char sc s) (line s)"
  proof -
    have "line s5 = (if sc = BACKSPACE then (line s)(a := butlast (line s a)) else line s)"
      using sw(3) s4(4) s3(4) s2(5) by simp
    moreover have "active_terminal s5 = next_terminal (after_flags sc s)" using act by (simp add: s5_def)
    moreover have "typed \<Longrightarrow> c5 \<noteq> 0" by (simp add: typed_def)
    ultimately show ?thesis unfolding s6(5) edit_line_def Let_def tc by auto
  qed
  ultimately show ?thesis using s0_def by blast
qed

lemma handler_exit:
  fixes s :: "'a kbd_state_scheme"
  defines "s' \<equiv> sti (enable_irq 1 (send_eoi 1 s))"
  shows "kbd_ok s' = kbd_ok s" "line s' = line s" "flags_of s' = flags_of s" "active_terminal s' = active_terminal s"
    "mem s' = mem s" "iflag s'"
proof -
  have s': "s' = s\<lparr>io_log := io_log s', iflag := True, master_mask := master_mask s', slave_mask := slave_mask s'\<rparr>"
    by (simp add: s'_def sti_def send_eoi_def enable_irq_def outb_def Let_def)
  show "kbd_ok s' = kbd_ok s" "line s' = line s" "flags_of s' = flags_of s" "active_terminal s' = active_terminal s"
    "mem s' = mem s" "iflag s'"
    by (subst s', simp add: kbd_ok_def scr_ok_def line_def flags_of_def fun_eq_iff)+
qed

lemma sti_masks: "irq_masked (sti s) = irq_masked s" "irq_masked (send_eoi n s) = irq_masked s" "irq_masked (cli s) = irq_masked s"
    "irq_masked (snd (inb dev p s)) = irq_masked s"
  by (simp_all add: fun_eq_iff irq_masked_def sti_def cli_def send_eoi_def outb_def inb_def Let_def)

lemma handler_masks:
  assumes "kbd_step (snd (inb dev INPUTBUFFER (disable_irq 1 (cli s)))) s6" and "i < 16"
  shows "irq_masked (sti (enable_irq 1 (send_eoi 1 s6))) i \<longleftrightarrow> irq_masked s i \<and> i \<noteq> 1"
proof -
  have "irq_masked s6 i = irq_masked (disable_irq 1 (cli s)) i"
    using assms(1) by (simp add: kbd_step_def irq_masked_def inb_def)
  then show ?thesis
    using assms(2) pic.masked_enable [of 1 i "send_eoi 1 s6"] pic.masked_disable [of 1 i "cli s"] by (auto simp: sti_masks)
qed

lemma handler_ok:
  assumes "kbd_ok s" and "sc = dev (io_log (disable_irq 1 (cli s))) INPUTBUFFER" and "a = unat (active_terminal s)"
    and "sc = BACKSPACE \<Longrightarrow> length (line s a) \<noteq> 128"
  shows "\<exists>s'. keyboard_handler dev s = Some s' \<and> kbd_ok s' \<and> mem s' = mem s \<and> iflag s'
    \<and> flags_of s' = flags_of (after_flags sc s) \<and> active_terminal s' = next_terminal (after_flags sc s)
    \<and> line s' = edit_line sc a (unat (next_terminal (after_flags sc s))) (typed_char sc s) (line s)
    \<and> (\<forall>i < 16. irq_masked s' i \<longleftrightarrow> irq_masked s i \<and> i \<noteq> 1)"
proof -
  obtain s6 where s6: "keyboard_handler dev s = Some (sti (enable_irq 1 (send_eoi 1 s6)))"
    "kbd_step (snd (inb dev INPUTBUFFER (disable_irq 1 (cli s)))) s6"
    "flags_of s6 = flags_of (after_flags sc s)" "active_terminal s6 = next_terminal (after_flags sc s)"
    "line s6 = edit_line sc a (unat (next_terminal (after_flags sc s))) (typed_char sc s) (line s)"
    using handler_result [of s sc dev a, OF assms] by blast
  have "kbd_ok s6" "mem s6 = mem s" using s6(2) by (simp_all add: kbd_step_def)
  with s6 show ?thesis using handler_masks [OF s6(2)] by (simp add: handler_exit)
qed

section \<open>Lemmas: writing to the terminal of a process\<close>

text \<open>The terminal of the running process is a character sink as well.\<close>

definition pcb_shown :: "'a kbd_state_scheme \<Rightarrow> u32 \<times> grid \<times> grid \<times> nat" where
  "pcb_shown s = (pcb_terminal s, cells (video s) 0, console s (pcb_terminal s))"

interpretation pterm: char_sink "\<lambda>c s. putc c (pcb_terminal s) s" "\<lambda>s. scr_ok s \<and> unat (pcb_terminal s) < 3"
  "\<lambda>s s'. tty_frame (pcb_terminal s) s s'" pcb_shown tty_emit
proof
  fix s :: "'a kbd_state_scheme" and c
  assume s: "scr_ok s \<and> unat (pcb_terminal s) < 3"
  let ?t = "pcb_terminal s"
  from putc_result [of s ?t c] s obtain s'
    where s': "putc c ?t s = Some s'" "tty_result ?t (tty_putc (cells (video s) 0) c (console s ?t)) s s'" by blast
  then have f: "tty_frame ?t s s'" and pcb: "pcb_terminal s' = ?t"
    using kbd_fields_more(6) [of s' s] by (simp_all add: tty_result_def tty_frame_def)
  then have "cells (video s') 0 = cells (video s) 0" if "?t \<noteq> 0"
    using other_console [OF f, of 0] that s by (simp add: console_def)
  moreover have "cells (video s') 0 = fst (console s' ?t)" if "?t = 0"
    using that by (simp add: console_def)
  ultimately have "pcb_shown s' = tty_emit c (pcb_shown s)"
    using s'(2) pcb by (auto simp: pcb_shown_def tty_emit_def tty_result_def Let_def)
  then show "\<exists>s'. putc c ?t s = Some s' \<and> (scr_ok s' \<and> unat (pcb_terminal s') < 3) \<and> tty_frame ?t s s'
      \<and> pcb_shown s' = tty_emit c (pcb_shown s)"
    using s' f pcb s by (simp add: tty_result_def)
next
  fix s t u :: "'a kbd_state_scheme"
  assume "tty_frame (pcb_terminal s) s t" and "tty_frame (pcb_terminal t) t u"
  moreover from this(1) have "pcb_terminal t = pcb_terminal s"
    using kbd_fields_more(6) [of t s] by (simp add: tty_frame_def)
  ultimately show "tty_frame (pcb_terminal s) s u" by (auto intro: tty_frame_trans)
qed simp

lemma terminal_write_loop:
  assumes "scr_ok s \<and> unat (pcb_terminal s) < 3"
  shows "\<exists>s'. foldo (\<lambda>i s. let c = mem s (padd buf (of_nat i)) in if c \<noteq> 0 then putc c (pcb_terminal s) s else Some s)
      [0..<n] s = Some s' \<and> pterm.emits (filter (\<lambda>c. c \<noteq> 0) (bytes_at (mem s) buf n)) s s'"
proof (induction n)
  case 0
  then show ?case using pterm.emits_Nil [OF assms] by (simp add: bytes_at_def)
next
  case (Suc n)
  let ?f = "\<lambda>i s. let c = mem s (padd buf (of_nat i)) in if c \<noteq> 0 then putc c (pcb_terminal s) s else Some s"
  let ?t = "\<lambda>n. filter (\<lambda>c. c \<noteq> 0) (bytes_at (mem s) buf n)" and ?c = "mem s (padd buf (of_nat n))"
  obtain s1 where s1: "foldo ?f [0..<n] s = Some s1" "pterm.emits (?t n) s s1" using Suc by blast
  have ok: "scr_ok s1 \<and> unat (pcb_terminal s1) < 3" and m: "mem s1 = mem s"
    using s1(2) unfolding pterm.emits_def by (simp_all add: tty_frame_def)
  have b: "?t (Suc n) = ?t n @ (if ?c \<noteq> 0 then [?c] else [])" by (simp add: bytes_at_def)
  show ?case
  proof (cases "?c = 0")
    case True
    then show ?thesis using s1 m b by (simp add: foldo_append)
  next
    case False
    obtain s2 where "putc ?c (pcb_terminal s1) s1 = Some s2" "pterm.emits [?c] s1 s2"
      using pterm.emits_put [OF ok] by blast
    then show ?thesis using s1 m b False pterm.emits_append [OF s1(2)] by (simp add: foldo_append)
  qed
qed

text \<open>What a key shows of itself on the terminal of the running process.\<close>

lemma port_ops_shown:
  "pcb_shown (sti s) = pcb_shown s" "pcb_shown (cli s) = pcb_shown s" "pcb_shown (send_eoi n s) = pcb_shown s" "pcb_shown (enable_irq n s) = pcb_shown s"
  "pcb_shown (disable_irq n s) = pcb_shown s" "pcb_shown (snd (inb dev p s)) = pcb_shown s"
  "kbd_state.more (sti s) = kbd_state.more s" "kbd_state.more (cli s) = kbd_state.more s" "kbd_state.more (send_eoi n s) = kbd_state.more s"
  "kbd_state.more (enable_irq n s) = kbd_state.more s" "kbd_state.more (disable_irq n s) = kbd_state.more s" "kbd_state.more (snd (inb dev p s)) = kbd_state.more s"
  by (simp_all add: pcb_shown_def console_def cursor_pos_def sti_def cli_def send_eoi_def enable_irq_def disable_irq_def outb_def inb_def Let_def)

lemma key_enqueue_echo:
  assumes "kbd_ok s" and "pcb_terminal s = active_terminal s" and "key_enqueue c s = Some s'"
  shows "pcb_shown s' = tty_emit c (pcb_shown s)" "kbd_state.more s' = kbd_state.more s"
proof -
  obtain q where q: "putc c (pcb_terminal q) q = Some s'" "pcb_shown q = pcb_shown s" "kbd_state.more q = kbd_state.more s" "scr_ok q \<and> unat (pcb_terminal q) < 3"
  proof -
    let ?a = "unat (active_terminal s)"
    note k = kbd_ok_nth [OF assms(1) active_less [OF assms(1)]]
    let ?q = "if keyboardBufferIdx s ! ?a < 128 then store_key ?a (unat (keyboardBufferIdx s ! ?a)) c (keyboardBufferIdx s ! ?a + 1) s else s"
    have "unat (keyboardBufferIdx s ! ?a) < 128" if "keyboardBufferIdx s ! ?a < 128" using that by (simp add: word_less_nat_alt)
    then have "putc c (pcb_terminal ?q) ?q = Some s'"
      using assms(2,3) k by (auto simp: key_enqueue_def store_key_def Let_def split: if_splits)
    moreover have "pcb_shown ?q = pcb_shown s" "kbd_state.more ?q = kbd_state.more s" "scr_ok ?q \<and> unat (pcb_terminal ?q) < 3"
      using assms(1) by (simp_all add: store_key_def pcb_shown_def console_def cursor_pos_def kbd_ok_def scr_ok_def)
    ultimately show ?thesis by (rule that)
  qed
  then show "pcb_shown s' = tty_emit c (pcb_shown s)" "kbd_state.more s' = kbd_state.more s"
    using pterm.put_ok [of q c] kbd_fields_more(7) [of s' q] by (auto simp: tty_frame_def)
qed

section \<open>Lemmas: typing and reading a line\<close>

definition no_modifiers :: "'a kbd_state_scheme \<Rightarrow> bool" where
  "no_modifiers s \<longleftrightarrow> altStatus s = 0 \<and> ctrlStatus s = 0 \<and> shiftStatus s = 0 \<and> capsStatus s = 0"

text \<open>A key that enters its character: it has one in the table and is neither tab nor escape.\<close>

definition plain_key :: "u8 \<Rightarrow> bool" where
  "plain_key sc \<longleftrightarrow> unat sc < 128 \<and> keyboardUS ! unat sc \<noteq> 0 \<and> sc \<noteq> TAB \<and> sc \<noteq> ESC"

lemma plain_key_facts:
  assumes "plain_key sc"
  shows "sc AND 0x80 = 0" "sc \<notin> {LSHIFT, RSHIFT, CTRL, ALT, F1, F2, F3, CAPSLOCK, BACKSPACE}"
proof -
  have "take_bit 7 (unat sc) = unat sc"
    using assms by (simp add: plain_key_def take_bit_nat_eq_self_iff)
  then have "\<not> bit (unat sc) 7" by (metis bit_take_bit_iff less_irrefl)
  then have "\<not> bit sc 7" by (simp add: bit_unsigned_iff)
  then show "sc AND 0x80 = 0" using and_exp_eq_0_iff_not_bit [of sc 7] by simp
  show "sc \<notin> {LSHIFT, RSHIFT, CTRL, ALT, F1, F2, F3, CAPSLOCK, BACKSPACE}"
    using assms by (auto simp: plain_key_def keyboardUS_def cbytes_def nth_append)
qed

lemma plain_key_typed:
  assumes "plain_key sc" and "no_modifiers s"
  shows "typed_char sc s = keyboardUS ! unat sc"
    and "after_flags sc s = (if sc = ENTER then s\<lparr>enterStatus := 1\<rparr> else s)"
    and "next_terminal (after_flags sc s) = active_terminal s"
proof -
  note f = plain_key_facts [OF assms(1)]
  have p: "key_pressed sc s = (if sc = ENTER then s\<lparr>enterStatus := 1\<rparr> else s)"
    using f(2) by (simp add: key_pressed_def)
  show af: "after_flags sc s = (if sc = ENTER then s\<lparr>enterStatus := 1\<rparr> else s)"
    using f(1) by (simp add: after_flags_def p)
  show "next_terminal (after_flags sc s) = active_terminal s"
    using assms(2) by (simp add: af next_terminal_def no_modifiers_def)
  have "key_char sc (key_pressed sc s) = Some (keyboardUS ! unat sc)"
    using assms by (simp add: p key_char_def plain_key_def length_tables no_modifiers_def)
  moreover have "ctrlStatus (key_pressed sc s) = 0" "altStatus (key_pressed sc s) = 0"
    using assms(2) by (simp_all add: p no_modifiers_def)
  ultimately show "typed_char sc s = keyboardUS ! unat sc"
    using assms(1) f(1) by (simp add: typed_char_def plain_key_def Let_def)
qed

lemma plain_key_echo:
  assumes "kbd_ok s" and "no_modifiers s" and "plain_key sc" and "pcb_terminal s = active_terminal s" and "keyboard_handler (\<lambda>_ _. sc) s = Some s'"
  shows "pcb_shown s' = tty_emit (keyboardUS ! unat sc) (pcb_shown s)" "kbd_state.more s' = kbd_state.more s"
proof -
  let ?c = "keyboardUS ! unat sc"
  define s0 where "s0 = snd (inb (\<lambda>_ _. sc) INPUTBUFFER (disable_irq 1 (cli s)))"
  define p where "p = (if sc = ENTER then s0\<lparr>enterStatus := 1\<rparr> else s0)"
  note f = plain_key_facts [OF assms(3)]
  have i: "inb (\<lambda>_ _. sc) INPUTBUFFER (disable_irq 1 (cli s)) = (sc, s0)" by (simp add: s0_def prod_eq_iff)
  have e: "kbd_ok s0" "flags_of s0 = flags_of s" "active_terminal s0 = active_terminal s"
    using assms(1) handler_entry [where dev = "\<lambda>_ _. sc" and s = s, folded s0_def] by simp_all
  have n: "no_modifiers p" "kbd_ok p" "pcb_terminal p = active_terminal p"
    using assms(2,4) flags_eqD [OF e(2)] e(1,3) by (simp_all add: p_def no_modifiers_def kbd_ok_def scr_ok_def)
  have k: "key_pressed sc s0 = p" using f(2) by (simp add: key_pressed_def p_def)
  have c: "key_char sc p = Some ?c" using assms(3) n(1) by (simp add: key_char_def plain_key_def length_tables no_modifiers_def)
  have "keyboard_handler (\<lambda>_ _. sc) s = key_enqueue ?c p \<bind> (\<lambda>s. Some (sti (enable_irq 1 (send_eoi 1 s))))"
    using i f n(1) assms(3) by (simp add: keyboard_handler_def k c switch_terminal_def no_modifiers_def plain_key_def Let_def)
  then obtain q where q: "key_enqueue ?c p = Some q" "s' = sti (enable_irq 1 (send_eoi 1 q))" using assms(5) by (cases "key_enqueue ?c p") simp_all
  have "pcb_shown p = pcb_shown s" "kbd_state.more p = kbd_state.more s"
    by (simp_all add: p_def s0_def port_ops_shown) (simp_all add: pcb_shown_def console_def cursor_pos_def cli_def disable_irq_def inb_def outb_def Let_def)
  then show "pcb_shown s' = tty_emit ?c (pcb_shown s)" "kbd_state.more s' = kbd_state.more s"
    using key_enqueue_echo [OF n(2,3) q(1)] by (simp_all add: q(2) port_ops_shown)
qed
lemma plain_key_handled:
  assumes "kbd_ok s" and "no_modifiers s" and "plain_key sc" and "a = unat (active_terminal s)"
    and "length (line s a) < 128" and "pcb_terminal s = active_terminal s"
  shows "\<exists>s'. keyboard_handler (\<lambda>_ _. sc) s = Some s' \<and> kbd_ok s' \<and> no_modifiers s' \<and> mem s' = mem s
    \<and> active_terminal s' = active_terminal s \<and> pcb_terminal s' = pcb_terminal s
    \<and> enterStatus s' = (if sc = ENTER then 1 else enterStatus s)
    \<and> line s' = (line s)(a := line s a @ [keyboardUS ! unat sc])
    \<and> pcb_shown s' = tty_emit (keyboardUS ! unat sc) (pcb_shown s) \<and> kbd_state.more s' = kbd_state.more s"
proof -
  note p = plain_key_typed [OF assms(3,2)]
  have "sc \<noteq> BACKSPACE" using plain_key_facts(2) [OF assms(3)] by simp
  then obtain s' where s': "keyboard_handler (\<lambda>_ _. sc) s = Some s'" "kbd_ok s'" "mem s' = mem s"
    "flags_of s' = flags_of (if sc = ENTER then s\<lparr>enterStatus := 1\<rparr> else s)" "active_terminal s' = active_terminal s"
    "line s' = edit_line sc a a (keyboardUS ! unat sc) (line s)"
    using handler_ok [OF assms(1) _ assms(4), of sc "\<lambda>_ _. sc"] p assms(4) by auto
  moreover have "no_modifiers s'" "pcb_terminal s' = pcb_terminal s" "enterStatus s' = (if sc = ENTER then 1 else enterStatus s)"
    using flags_eqD [OF s'(4)] assms(2) by (auto simp: no_modifiers_def)
  moreover have "edit_line sc a a (keyboardUS ! unat sc) (line s) = (line s)(a := line s a @ [keyboardUS ! unat sc])"
    using assms(3,5) \<open>sc \<noteq> BACKSPACE\<close> by (simp add: edit_line_def plain_key_def Let_def)
  ultimately show ?thesis using plain_key_echo [OF assms(1-3,6) s'(1)] by auto
qed

lemma read_loop_step:
  assumes "enterStatus s = 0" and "0 < nbytes" and "buf \<noteq> NULL" and "h (sti (cli s)) = Some s'"
  shows "keyboard_read_loop (h # hs) buf nbytes s = keyboard_read_loop hs buf nbytes s'"
  using assms by (simp add: keyboard_read_loop.simps [of "h # hs"])

lemma sti_cli_kbd: "kbd_ok (sti (cli s)) = kbd_ok s" "no_modifiers (sti (cli s)) = no_modifiers s"
  "active_terminal (sti (cli s)) = active_terminal s" "pcb_terminal (sti (cli s)) = pcb_terminal s"
  "enterStatus (sti (cli s)) = enterStatus s" "line (sti (cli s)) = line s"
  by (simp_all add: sti_def cli_def kbd_ok_def scr_ok_def no_modifiers_def line_def fun_eq_iff)

lemma typing_ends_wait:
  assumes "kbd_ok s" and "no_modifiers s" and "\<forall>sc \<in> set scs. plain_key sc \<and> sc \<noteq> ENTER"
    and "a = unat (active_terminal s)" and "length (line s a) + length scs < 128" and "enterStatus s = 0"
    and "pcb_terminal s = active_terminal s" and "0 < nbytes" and "buf \<noteq> NULL"
  shows "\<exists>s'. keyboard_read_loop (map (\<lambda>sc. keyboard_handler (\<lambda>_ _. sc)) (scs @ [ENTER]) @ rest) buf nbytes s
      = Some (s', None, rest) \<and> kbd_ok s' \<and> no_modifiers s' \<and> mem s' = mem s \<and> active_terminal s' = active_terminal s \<and> pcb_terminal s' = pcb_terminal s
    \<and> line s' = (line s)(a := line s a @ map (\<lambda>sc. keyboardUS ! unat sc) scs @ [10])
    \<and> pcb_shown s' = fold tty_emit (map (\<lambda>sc. keyboardUS ! unat sc) scs @ [10]) (pcb_shown s) \<and> kbd_state.more s' = kbd_state.more s"
  using assms
proof (induction scs arbitrary: s)
  case Nil
  have "plain_key ENTER" by (simp add: plain_key_def keyboardUS_def cbytes_def)
  then obtain s' where s': "keyboard_handler (\<lambda>_ _. ENTER) (sti (cli s)) = Some s'" "kbd_ok s'" "no_modifiers s'"
    "mem s' = mem s" "active_terminal s' = active_terminal s" "pcb_terminal s' = pcb_terminal s" "enterStatus s' = 1"
    "line s' = (line s)(a := line s a @ [keyboardUS ! 28])" "pcb_shown s' = tty_emit (keyboardUS ! 28) (pcb_shown s)" "kbd_state.more s' = kbd_state.more s"
    using plain_key_handled [of "sti (cli s)" ENTER a] Nil by (auto simp: sti_cli_kbd port_ops_shown)
  moreover have "keyboardUS ! 28 = 10" by (simp add: keyboardUS_def cbytes_def)
  ultimately show ?case
    using Nil read_loop_step [of s nbytes buf "keyboard_handler (\<lambda>_ _. ENTER)" s' rest]
    by (simp add: keyboard_read_loop.simps [of rest] fun_upd_def)
next
  case (Cons sc scs)
  have sc: "plain_key sc" "sc \<noteq> ENTER" using Cons.prems(3) by simp_all
  obtain s1 where s1: "keyboard_handler (\<lambda>_ _. sc) (sti (cli s)) = Some s1" "kbd_ok s1" "no_modifiers s1"
    "mem s1 = mem s" "active_terminal s1 = active_terminal s" "pcb_terminal s1 = pcb_terminal s" "enterStatus s1 = 0"
    "line s1 = (line s)(a := line s a @ [keyboardUS ! unat sc])" "pcb_shown s1 = tty_emit (keyboardUS ! unat sc) (pcb_shown s)" "kbd_state.more s1 = kbd_state.more s"
    using plain_key_handled [of "sti (cli s)" sc a] Cons.prems sc by (auto simp: sti_cli_kbd port_ops_shown)
  have "\<forall>sc \<in> set scs. plain_key sc \<and> sc \<noteq> ENTER" "a = unat (active_terminal s1)"
    "length (line s1 a) + length scs < 128" "pcb_terminal s1 = active_terminal s1"
    using Cons.prems s1 by simp_all
  from Cons.IH [OF s1(2,3) this(1-3) s1(7) this(4) Cons.prems(8,9)]
  obtain s' where "keyboard_read_loop (map (\<lambda>sc. keyboard_handler (\<lambda>_ _. sc)) (scs @ [ENTER]) @ rest) buf nbytes s1
      = Some (s', None, rest)" "kbd_ok s'" "no_modifiers s'" "mem s' = mem s1" "active_terminal s' = active_terminal s1" "pcb_terminal s' = pcb_terminal s1"
    "line s' = (line s1)(a := line s1 a @ map (\<lambda>sc. keyboardUS ! unat sc) scs @ [10])"
    "pcb_shown s' = fold tty_emit (map (\<lambda>sc. keyboardUS ! unat sc) scs @ [10]) (pcb_shown s1)" "kbd_state.more s' = kbd_state.more s1" by blast
  then show ?case
    using s1 read_loop_step [OF Cons.prems(6,8,9), of "keyboard_handler (\<lambda>_ _. sc)" s1] by (simp add: fun_eq_iff)
qed

lemma copy_row:
  assumes "n \<le> length row" and "length row \<le> 2 ^ 32"
  shows "foldo (\<lambda>i m. do { c \<leftarrow> arr_get row i; Some (m(padd buf (of_nat i) := c)) }) [0..<n] m
    = Some (put_bytes m buf (take n row))"
  using assms(1)
proof (induction n)
  case 0
  then show ?case by simp
next
  case (Suc n)
  then have "length (take n row) < 2 ^ 32" using assms(2) by simp
  from put_bytes_snoc [OF this, of m buf "row ! n"] Suc show ?case
    by (simp add: foldo_append take_Suc_conv_app_nth fun_upd_def)
qed

lemma zero_row: "length row = n \<Longrightarrow> k \<le> n \<Longrightarrow>
  foldo (\<lambda>i row. arr_set row i 0) [0..<k] row = Some (replicate k 0 @ drop k row)"
proof (induction k)
  case 0
  then show ?case by simp
next
  case (Suc k)
  then have "drop k row = row ! k # drop (Suc k) row" by (simp add: Cons_nth_drop_Suc)
  with Suc show ?case by (simp add: foldo_append list_update_append replicate_append_same)
qed

lemma clear_buffer_ok:
  assumes "kbd_ok s" and "unat t < 3"
  shows "\<exists>s'. clear_keyboardBuffer t s = Some s' \<and> kbd_ok s' \<and> line s' = (line s)(unat t := [])
    \<and> mem s' = mem s \<and> active_terminal s' = active_terminal s \<and> scr_ok s' \<and> flags_of s' = flags_of s
    \<and> pcb_shown s' = pcb_shown s \<and> kbd_state.more s' = kbd_state.more s"
proof -
  let ?t = "unat t"
  note n = kbd_ok_nth [OF assms]
  let ?s' = "s\<lparr>keyboardBufferIdx := (keyboardBufferIdx s)[?t := 0], keyboardBuffer := (keyboardBuffer s)[?t := replicate 128 0]\<rparr>"
  have "foldo (\<lambda>i row. arr_set row i 0) [0..<128] (keyboardBuffer s ! ?t) = Some (replicate 128 0)"
    using zero_row [OF n(1), of 128] n(1) by simp
  then have "clear_keyboardBuffer t s = Some ?s'" using n by (simp add: clear_keyboardBuffer_def)
  moreover have "kbd_ok ?s'"
    using assms(1) by (auto simp: kbd_ok_def scr_ok_def dest!: set_update_subset_insert [THEN subsetD])
  moreover have "line ?s' = (line s)(?t := [])" using n by (simp add: line_def fun_eq_iff)
  ultimately show ?thesis by (simp add: kbd_ok_def flags_of_def pcb_shown_def console_def cursor_pos_def)
qed

lemma read_finish:
  assumes "kbd_ok s" and "keyboard_read_loop irqs buf nbytes s0 = Some (s, None, rest)"
    and "a = unat (active_terminal s)" and "n = min (length (line s a)) (nat nbytes)"
  shows "\<exists>s'. keyboard_read irqs fd buf nbytes s0 = Some (s', int n, rest) \<and> kbd_ok s'
    \<and> mem s' = put_bytes (mem s) buf (take n (line s a)) \<and> line s' = (line s)(a := []) \<and> enterStatus s' = 0
    \<and> pcb_shown s' = pcb_shown s \<and> kbd_state.more s' = kbd_state.more s
    \<and> no_modifiers s' = no_modifiers s \<and> active_terminal s' = active_terminal s \<and> pcb_terminal s' = pcb_terminal s"
proof -
  have a: "a < 3" using active_less [OF assms(1)] assms(3) by simp
  note k = kbd_ok_nth [OF assms(1) a]
  let ?row = "keyboardBuffer s ! a"
  have n: "n = min (unat (keyboardBufferIdx s ! a)) (nat nbytes)" using k(5) assms(4) by simp
  have t: "take n ?row = take n (line s a)" using n by (simp add: line_def)
  define s1 where "s1 = s\<lparr>enterStatus := 0, mem := put_bytes (mem s) buf (take n ?row)\<rparr>"
  have "n \<le> 128" using n k(2) by simp
  then have m: "foldo (\<lambda>i m. do { c \<leftarrow> arr_get ?row i; Some (m(padd buf (of_nat i) := c)) }) [0..<n] (mem s)
    = Some (put_bytes (mem s) buf (take n ?row))"
    using k(1) by (intro copy_row) simp_all
  have k1: "kbd_ok s1" "line s1 = line s" "active_terminal s1 = active_terminal s" "enterStatus s1 = 0"
    "pcb_shown s1 = pcb_shown s" "kbd_state.more s1 = kbd_state.more s" "no_modifiers s1 = no_modifiers s" "pcb_terminal s1 = pcb_terminal s"
    using assms(1) by (simp_all add: s1_def kbd_ok_def scr_ok_def line_def fun_eq_iff pcb_shown_def console_def cursor_pos_def no_modifiers_def)
  obtain s' where s': "clear_keyboardBuffer (active_terminal s) s1 = Some s'" "kbd_ok s'" "line s' = (line s)(a := [])"
    "mem s' = mem s1" "active_terminal s' = active_terminal s1" "flags_of s' = flags_of s1" "pcb_shown s' = pcb_shown s1" "kbd_state.more s' = kbd_state.more s1"
    using clear_buffer_ok [OF k1(1), of "active_terminal s"] a assms(3) k1(2) by auto
  have "keyboard_read irqs fd buf nbytes s0 = Some (s', int n, rest)"
    using assms(2) k s'(1) m assms(3) n
    by (simp add: keyboard_read_def s1_def Let_def)
  moreover have "no_modifiers s' = no_modifiers s" using flags_eqD [OF s'(6)] k1(7) by (simp add: no_modifiers_def)
  ultimately show ?thesis using s' t k1(3-6,8) flags_eqD [OF s'(6)] by (simp add: s1_def)
qed

lemma read_typed_line:
  assumes "kbd_ok s" and "no_modifiers s" and "\<forall>sc \<in> set scs. plain_key sc \<and> sc \<noteq> ENTER" and "length scs < 128"
    and "a = unat (active_terminal s)" and "line s a = []" and "enterStatus s = 0"
    and "pcb_terminal s = active_terminal s" and "0 < nbytes" and "buf \<noteq> NULL"
    and "text = map (\<lambda>sc. keyboardUS ! unat sc) scs @ [10]" and "n = min (length text) (nat nbytes)"
  shows "\<exists>s'. keyboard_read (map (\<lambda>sc. keyboard_handler (\<lambda>_ _. sc)) (scs @ [ENTER]) @ rest) fd buf nbytes s = Some (s', int n, rest)
    \<and> mem s' = put_bytes (mem s) buf (take n text) \<and> bytes_at (mem s') buf n = take n text
    \<and> line s' a = [] \<and> enterStatus s' = 0 \<and> kbd_ok s' \<and> pcb_shown s' = fold tty_emit text (pcb_shown s) \<and> kbd_state.more s' = kbd_state.more s
    \<and> no_modifiers s' \<and> active_terminal s' = active_terminal s \<and> pcb_terminal s' = pcb_terminal s"
proof -
  obtain s1 where s1: "keyboard_read_loop (map (\<lambda>sc. keyboard_handler (\<lambda>_ _. sc)) (scs @ [ENTER]) @ rest) buf nbytes s
      = Some (s1, None, rest)" "kbd_ok s1" "mem s1 = mem s" "active_terminal s1 = active_terminal s" "line s1 a = text"
    "pcb_shown s1 = fold tty_emit text (pcb_shown s)" "kbd_state.more s1 = kbd_state.more s" "no_modifiers s1" "pcb_terminal s1 = pcb_terminal s"
    using typing_ends_wait [OF assms(1-3,5) _ assms(7-10), of rest] assms(4,6,11) by auto
  have n: "n \<le> 128" "n \<le> length text" using assms(4,11,12) by simp_all
  then show ?thesis
    using read_finish [OF s1(2,1), of a n fd] s1(3-9) assms(5,12) bytes_at_put_bytes [of n "take n text" "mem s" buf] by auto
qed

section \<open>Correctness of the keyboard and terminal drivers\<close>

definition kbd_boot :: kbd_state where
  "kbd_boot = rtc_state.extend rtc_boot (kbd_state.fields 0 0 0 0 0 0 0 (replicate 3 (replicate 128 0)) [0, 0, 0] 0 1)"

lemma kbd_boot_ok: "kbd_ok kbd_boot" "no_modifiers kbd_boot" "line kbd_boot 1 = []" "active_terminal kbd_boot = 1"
  "enterStatus kbd_boot = 0" "pcb_terminal kbd_boot = 1" "scr_ok kbd_boot"
  by (simp_all add: kbd_boot_def rtc_boot_def boot_screen_def kbd_state.defs rtc_state.defs screen_state.defs kbd_ok_def
      scr_ok_def no_modifiers_def line_def)

text \<open>C40: the keyboard interrupt handler. On every scancode but a backspace into a full line
  buffer it returns and keeps the invariant, leaves memory alone, leaves interrupts on and its own
  line enabled with all others as they were, updates exactly the modifier flags of the key, shows
  the terminal selected by Alt and a function key, removes the last character of the line on
  backspace, and appends the character of the key to the line of the terminal shown, unless the
  line already has 128.\<close>

theorem keyboard_handler_correct:
  assumes "kbd_ok s" and "sc = dev (io_log (disable_irq 1 (cli s))) INPUTBUFFER" and "a = unat (active_terminal s)"
    and "sc = BACKSPACE \<Longrightarrow> length (line s a) \<noteq> 128"
  shows "\<exists>s'. keyboard_handler dev s = Some s' \<and> kbd_ok s' \<and> mem s' = mem s \<and> iflag s'
    \<and> flags_of s' = flags_of (after_flags sc s) \<and> active_terminal s' = next_terminal (after_flags sc s)
    \<and> line s' = edit_line sc a (unat (next_terminal (after_flags sc s))) (typed_char sc s) (line s)
    \<and> (\<forall>i < 16. irq_masked s' i \<longleftrightarrow> irq_masked s i \<and> i \<noteq> 1)"
  by (rule handler_ok) (use assms in auto)

theorem keyboard_handler_correct_witness:
  "\<exists>s'. keyboard_handler (\<lambda>_ _. 30) kbd_boot = Some s' \<and> kbd_ok s' \<and> line s' 1 = [97]"
proof -
  have p: "plain_key 30" by (simp add: plain_key_def keyboardUS_def cbytes_def)
  have "edit_line 30 1 1 (typed_char 30 kbd_boot) (line kbd_boot) 1 = [97]"
    using plain_key_typed(1) [OF p kbd_boot_ok(2)] kbd_boot_ok(3)
    by (simp add: edit_line_def Let_def) (simp add: keyboardUS_def cbytes_def)
  then show ?thesis
    using keyboard_handler_correct [OF kbd_boot_ok(1), of 30 "\<lambda>_ _. 30" 1] plain_key_typed(3) [OF p kbd_boot_ok(2)] kbd_boot_ok(4)
    by auto
qed

text \<open>C37: typing a line and reading it. With no modifier held and an empty line on the terminal of
  the reading process, if the keys of fewer than 128 printable characters are pressed while
  \<open>keyboard_read\<close> waits, and then enter, it returns the number of characters, the line break
  included, or \<open>nbytes\<close> if that is less; the buffer receives exactly those characters, no other
  byte of memory changes, the terminal shows the whole line, and the line buffer is empty again.\<close>

theorem type_then_read:
  assumes "kbd_ok s" and "no_modifiers s" and "\<forall>sc \<in> set scs. plain_key sc \<and> sc \<noteq> ENTER" and "length scs < 128"
    and "a = unat (active_terminal s)" and "line s a = []" and "enterStatus s = 0"
    and "pcb_terminal s = active_terminal s" and "0 < nbytes" and "buf \<noteq> NULL"
    and "text = map (\<lambda>sc. keyboardUS ! unat sc) scs @ [10]" and "n = min (length text) (nat nbytes)"
  shows "\<exists>s'. keyboard_read (map (\<lambda>sc. keyboard_handler (\<lambda>_ _. sc)) (scs @ [ENTER]) @ rest) fd buf nbytes s = Some (s', int n, rest)
    \<and> mem s' = put_bytes (mem s) buf (take n text) \<and> bytes_at (mem s') buf n = take n text
    \<and> line s' a = [] \<and> enterStatus s' = 0 \<and> kbd_ok s' \<and> pcb_shown s' = fold tty_emit text (pcb_shown s) \<and> kbd_state.more s' = kbd_state.more s"
  using read_typed_line [OF assms, of rest fd] by blast

theorem type_then_read_witness:
  "\<exists>s'. keyboard_read (map (\<lambda>sc. keyboard_handler (\<lambda>_ _. sc)) ([35, 23] @ [28]) @ []) 0 (Global, 100) 128 kbd_boot = Some (s', 3, [])
    \<and> bytes_at (mem s') (Global, 100) 3 = [104, 105, 10]"
proof -
  have "\<forall>sc \<in> set [35, 23]. plain_key sc \<and> sc \<noteq> ENTER" by (simp add: plain_key_def keyboardUS_def cbytes_def)
  moreover have "[104, 105, 10] = map (\<lambda>sc. keyboardUS ! unat sc) [35, 23 :: u8] @ [10]"
    by (simp add: keyboardUS_def cbytes_def)
  ultimately show ?thesis
    using type_then_read [OF kbd_boot_ok(1,2), of "[35, 23]" 1 128 "(Global, 100)" "[104, 105, 10]" 3 "[]" 0] kbd_boot_ok
    by auto
qed

text \<open>with the statuses of shift and caps lock 0 or 1, a letter key gives the capital letter,
  the small one's code less 32, exactly when one of the two is on but not both; every other key
  depends on shift only.\<close>

theorem key_char_shift_caps:
  assumes "unat sc < 128" and "shiftStatus s \<in> {0, 1}" and "capsStatus s \<in> {0, 1}" and "c = keyboardUS ! unat sc"
  shows "if 97 \<le> c \<and> c \<le> 122
    then key_char sc s = Some (if (shiftStatus s = 1) \<noteq> (capsStatus s = 1) then c - 32 else c)
    else key_char sc s = Some (if shiftStatus s = 1 then keyboardUSShift ! unat sc else c)"
proof -
  have "list_all (\<lambda>(u, v). 97 \<le> u \<and> u \<le> 122 \<longrightarrow> v = u - 32) (zip keyboardUS keyboardUSShift)" by code_simp
  then have "case zip keyboardUS keyboardUSShift ! unat sc of (u, v) \<Rightarrow> 97 \<le> u \<and> u \<le> 122 \<longrightarrow> v = u - 32"
    using assms(1) by (simp only: list_all_length) (simp add: length_tables)
  then have "97 \<le> c \<and> c \<le> 122 \<longrightarrow> keyboardUSShift ! unat sc = c - 32"
    using assms(1,4) by (simp add: length_tables)
  then show ?thesis using assms by (auto simp: key_char_def length_tables)
qed

theorem key_char_shift_caps_witness: "key_char 30 (kbd_boot\<lparr>shiftStatus := 1\<rparr>) = Some 65"
proof -
  have "keyboardUS ! 30 = 97" by (simp add: keyboardUS_def cbytes_def)
  then show ?thesis
    using key_char_shift_caps [of 30 "kbd_boot\<lparr>shiftStatus := 1\<rparr>" 97] kbd_boot_ok(2) by (simp add: no_modifiers_def)
qed

text \<open>A backspace pressed when the line buffer of the shown terminal is full stores past the
  end of the terminal's 128 bytes: the handler has no defined result.\<close>

theorem backspace_full_buffer:
  assumes "kbd_ok s" and "dev (io_log (disable_irq 1 (cli s))) INPUTBUFFER = BACKSPACE"
    and "length (line s (unat (active_terminal s))) = 128"
  shows "keyboard_handler dev s = None"
proof -
  define s0 where "s0 = snd (inb dev INPUTBUFFER (disable_irq 1 (cli s)))"
  define p where "p = key_pressed BACKSPACE s0"
  have e: "kbd_ok s0" "line s0 = line s" "active_terminal s0 = active_terminal s"
    unfolding s0_def using assms(1) by (simp_all add: handler_entry)
  have p: "kbd_ok p" "line p = line s" "active_terminal p = active_terminal s"
    using e by (simp_all add: p_def key_flags_frame)
  let ?a = "unat (active_terminal p)"
  note n = kbd_ok_nth [OF p(1) active_less [OF p(1)]]
  have idx: "unat (keyboardBufferIdx p ! ?a) = 128" using n(5) p assms(3) by simp
  then have "keyboardBufferIdx p ! ?a \<noteq> 0" by auto
  then have "0 < keyboardBufferIdx p ! ?a" by (simp add: word_gt_0)
  moreover obtain s1 where "backspace p = Some s1" "con_frame p s1"
    using console_ops_total(4) [of p 0] p(1) by (auto simp: kbd_ok_def)
  moreover from this(2) have "keyboardBuffer s1 = keyboardBuffer p"
    using kbd_fields_more [of s1 p] by (simp add: con_frame_def)
  ultimately have "key_backspace p = None" using n idx by (simp add: key_backspace_def Let_def)
  moreover obtain c where "key_char BACKSPACE p = Some c" using key_char_total [of BACKSPACE p] by auto
  moreover have "inb dev INPUTBUFFER (disable_irq 1 (cli s)) = (BACKSPACE, s0)"
    using assms(2) by (simp add: s0_def prod_eq_iff)
  ultimately show ?thesis by (simp add: keyboard_handler_def p_def)
qed

definition full_line_state :: kbd_state where
  "full_line_state = kbd_boot\<lparr>keyboardBufferIdx := [0, 128, 0]\<rparr>"

theorem backspace_full_buffer_witness: "keyboard_handler (\<lambda>_ _. 14) full_line_state = None"
proof -
  have "kbd_ok full_line_state" using kbd_boot_ok(1) by (simp add: full_line_state_def kbd_ok_def scr_ok_def)
  moreover have "length (line full_line_state (unat (active_terminal full_line_state))) = 128"
    using kbd_ok_nth(5) [OF \<open>kbd_ok full_line_state\<close>, of 1] kbd_boot_ok(4) by (simp add: full_line_state_def)
  ultimately show ?thesis by (intro backspace_full_buffer) simp_all
qed

lemma terminal_write_result:
  assumes "kbd_ok s" and "0 \<le> nbytes" and "buf \<noteq> NULL"
  shows "\<exists>s'. terminal_write fd buf nbytes s = Some (s', nbytes) \<and> kbd_ok s'
    \<and> pcb_shown s' = fold tty_emit (filter (\<lambda>c. c \<noteq> 0) (bytes_at (mem s) buf (nat nbytes))) (pcb_shown s)
    \<and> mem s' = mem s \<and> enterStatus s' = 0 \<and> line s' = line s \<and> kbd_state.more s' = kbd_state.more s
    \<and> (\<forall>u. unat u < 3 \<and> u \<noteq> pcb_terminal s \<longrightarrow> console s' u = console s u)
    \<and> active_terminal s' = active_terminal s \<and> pcb_terminal s' = pcb_terminal s \<and> no_modifiers s' = no_modifiers s"
proof -
  define s0 where "s0 = s\<lparr>enterStatus := 0\<rparr>"
  have k0: "kbd_ok s0" "pcb_shown s0 = pcb_shown s" "line s0 = line s" "pcb_terminal s0 = pcb_terminal s" "mem s0 = mem s"
    "\<And>u. console s0 u = console s u"
    using assms(1) by (simp_all add: s0_def kbd_ok_def scr_ok_def pcb_shown_def line_def console_def cursor_pos_def fun_eq_iff)
  have ok: "scr_ok s0 \<and> unat (pcb_terminal s0) < 3" using k0(1) by (simp add: kbd_ok_def)
  obtain s' where s': "terminal_write fd buf nbytes s = Some (s', nbytes)"
    "pterm.emits (filter (\<lambda>c. c \<noteq> 0) (bytes_at (mem s0) buf (nat nbytes))) s0 s'"
    using terminal_write_loop [OF ok, of buf "nat nbytes"] assms(2,3) by (auto simp: terminal_write_def s0_def Let_def)
  then have f: "tty_frame (pcb_terminal s) s0 s'" "scr_ok s'"
    "pcb_shown s' = fold tty_emit (filter (\<lambda>c. c \<noteq> 0) (bytes_at (mem s) buf (nat nbytes))) (pcb_shown s)"
    using k0 by (simp_all add: pterm.emits_def)
  then have "con_frame s0 s'" by (simp add: con_frame_def tty_frame_def)
  note c = con_frame_step [OF this k0(1)]
  have "enterStatus s' = 0" "pcb_terminal s' = pcb_terminal s" "no_modifiers s' = no_modifiers s" "active_terminal s0 = active_terminal s"
    using flags_eqD [OF c(2)] by (simp_all add: s0_def no_modifiers_def)
  moreover have "kbd_state.more s' = kbd_state.more s" using f(1) by (cases s; cases s'; simp add: tty_frame_def s0_def)
  ultimately show ?thesis using s'(1) f c k0 other_console [OF f(1)] ok by (auto simp: kbd_step_def)
qed

text \<open>\<open>terminal_write\<close> of a non-negative count from a non-null buffer returns the count, and
  the terminal of the running process, shown or not, displays what the abstract console
  displays after the buffer's bytes other than NUL; nothing else changes but the pending-enter
  flag. A negative count or a null buffer is an error with no effect.\<close>

theorem terminal_write_correct:
  assumes "kbd_ok s"
  shows "if 0 \<le> nbytes \<and> buf \<noteq> NULL
    then \<exists>s'. terminal_write fd buf nbytes s = Some (s', nbytes) \<and> kbd_ok s'
      \<and> pcb_shown s' = fold tty_emit (filter (\<lambda>c. c \<noteq> 0) (bytes_at (mem s) buf (nat nbytes))) (pcb_shown s)
      \<and> mem s' = mem s \<and> enterStatus s' = 0 \<and> line s' = line s
      \<and> (\<forall>u. unat u < 3 \<and> u \<noteq> pcb_terminal s \<longrightarrow> console s' u = console s u)
    else terminal_write fd buf nbytes s = Some (s, -1)"
  using terminal_write_result [OF assms, of nbytes buf fd] by (auto simp: terminal_write_def)

theorem terminal_write_correct_witness:
  "\<exists>s'. terminal_write 1 (Global, 100) 2 (kbd_boot\<lparr>mem := put_bytes (\<lambda>_. 7) (Global, 100) [72, 0]\<rparr>) = Some (s', 2)
    \<and> cursor_pos s' 1 = 6"
proof -
  let ?s = "kbd_boot\<lparr>mem := put_bytes (\<lambda>_. 7) (Global, 100) [72, 0]\<rparr>"
  have ok: "kbd_ok ?s" using kbd_boot_ok(1) by (simp add: kbd_ok_def scr_ok_def)
  have b: "bytes_at (mem ?s) (Global, 100) 2 = [72, 0]"
    using bytes_at_put_bytes [of 2 "[72, 0]" "\<lambda>_. 7" "(Global, 100)"] by simp
  have "cursor_pos ?s 1 = 5"
    by (simp add: kbd_boot_def rtc_boot_def boot_screen_def kbd_state.defs rtc_state.defs screen_state.defs cursor_pos_def)
  then have "pcb_shown ?s = (1, cells (video ?s) 0, cells (video ?s) 1, 5)"
    using kbd_boot_ok(6) by (simp add: pcb_shown_def console_def)
  then show ?thesis
    using terminal_write_correct [OF ok, of 2 "(Global, 100)" 1] b
    by (auto simp: tty_emit_def tty_putc_def tty_char_def pcb_shown_def console_def)
qed

end
