(* ===== verification/Filesystem.thy ===== *)
theory Filesystem
  imports Keyboard
begin

text \<open>
  The read-only file system of \<open>student-distrib/filesystem.c\<close>, on the image in memory: a boot
  block (counts and directory entries), one block per inode, then the data blocks. Structures are
  read from memory at their offsets; a \<open>dentry_t\<close> variable of a C function is a \<open>Local\<close>
  block, with whatever it held before. \<open>read_fs\<close> and \<open>read_fs_dir\<close>, which use the process
  control block, are in the theory of the system calls.
\<close>

record fs_state = kbd_state +
  bootblock_ptr :: u32
  inode_start_addr :: u32
  data_start_addr :: u32

abbreviation FS_BLOCK :: u32 where "FS_BLOCK \<equiv> 4096"

section \<open>Structures\<close>

abbreviation num_dir :: "mem \<Rightarrow> u32 \<Rightarrow> u32" where
  "num_dir m bb \<equiv> ld32 m (Global, bb)"

abbreviation num_inode :: "mem \<Rightarrow> u32 \<Rightarrow> u32" where
  "num_inode m bb \<equiv> ld32 m (Global, bb + 4)"

abbreviation num_data :: "mem \<Rightarrow> u32 \<Rightarrow> u32" where
  "num_data m bb \<equiv> ld32 m (Global, bb + 8)"

text \<open>\<open>&bootblock_ptr->dentry[i]\<close>, and the fields of a \<open>dentry_t\<close>.\<close>

definition dentry_at :: "u32 \<Rightarrow> u32 \<Rightarrow> ptr" where
  "dentry_at bb i = (Global, bb + 64 + 64 * i)"

definition filetype :: "mem \<Rightarrow> ptr \<Rightarrow> u32" where
  "filetype m d = ld32 m (padd d 32)"

definition idx_inode :: "mem \<Rightarrow> ptr \<Rightarrow> u32" where
  "idx_inode m d = ld32 m (padd d 36)"

text \<open>The fields of an \<open>inode_t\<close>.\<close>

definition inode_length :: "mem \<Rightarrow> u32 \<Rightarrow> u32" where
  "inode_length m p = ld32 m (Global, p)"

definition dblocks :: "mem \<Rightarrow> u32 \<Rightarrow> u32 \<Rightarrow> u32" where
  "dblocks m p k = ld32 m (Global, p + 4 + 4 * k)"

section \<open>The operations\<close>

definition filesystem_init :: "u32 \<Rightarrow> 'a fs_state_scheme \<Rightarrow> 'a fs_state_scheme" where
  "filesystem_init start_addr s =
     (let s = s\<lparr>bootblock_ptr := start_addr\<rparr>;
          s = s\<lparr>inode_start_addr := start_addr + 1 * FS_BLOCK\<rparr>
      in s\<lparr>data_start_addr := inode_start_addr s + num_inode (mem s) (bootblock_ptr s) * FS_BLOCK\<rparr>)"

definition open_fs :: "ptr \<Rightarrow> 's \<Rightarrow> 's \<times> int" where
  "open_fs filename s = (s, 0)"

text \<open>Printing a string literal, a static array of its own.\<close>

definition print_literal :: "string \<Rightarrow> u32 list \<Rightarrow> 'a screen_state_scheme \<Rightarrow> ('a screen_state_scheme \<times> int) option" where
  "print_literal str args s = printf (Local 2, 0) args (s\<lparr>mem := put_bytes (mem s) (Local 2, 0) (cbytes str @ [0])\<rparr>)"

definition write_fs :: "int \<Rightarrow> ptr \<Rightarrow> int \<Rightarrow> 'a screen_state_scheme \<Rightarrow> ('a screen_state_scheme \<times> int) option" where
  "write_fs fd buf nbytes s = do {
     (s, _) \<leftarrow> print_literal (''This filesystem is readonly'' @ [CHR 0x0A]) [] s;
     Some (s, -1) }"

definition close_fs :: "int \<Rightarrow> 's \<Rightarrow> 's \<times> int" where
  "close_fs fd s = (s, 0)"

text \<open>Filling in the caller's \<open>dentry_t\<close>: 31 bytes of the name, the type and the inode number.\<close>

definition fill_dentry :: "ptr \<Rightarrow> ptr \<Rightarrow> mem \<Rightarrow> mem" where
  "fill_dentry dentry e m =
     (let m = strncpy m dentry e 31;
          m = st32 m (padd dentry 32) (filetype m e)
      in st32 m (padd dentry 36) (idx_inode m e))"

partial_function (option) find_dentry :: "u32 \<Rightarrow> ptr \<Rightarrow> ptr \<Rightarrow> u32 \<Rightarrow> mem \<Rightarrow> (mem \<times> int) option" where
  "find_dentry bb fname dentry i m =
     (if i \<le> num_dir m bb
      then if strncmp m fname (dentry_at bb i) 31 = 0
           then Some (fill_dentry dentry (dentry_at bb i) m, 0)
           else find_dentry bb fname dentry (i + 1) m
      else Some (m, -1))"

definition read_dentry_by_name :: "ptr \<Rightarrow> ptr \<Rightarrow> 'a fs_state_scheme \<Rightarrow> ('a fs_state_scheme \<times> int) option" where
  "read_dentry_by_name fname dentry s = do {
     _ \<leftarrow> strlen (mem s) fname;
     (m, r) \<leftarrow> find_dentry (bootblock_ptr s) fname dentry 0 (mem s);
     Some (s\<lparr>mem := m\<rparr>, r) }"

definition get_filesize_by_name :: "ptr \<Rightarrow> 'a fs_state_scheme \<Rightarrow> ('a fs_state_scheme \<times> int) option" where
  "get_filesize_by_name fname s = do {
     let file = (Local 3, 0);
     (s, _) \<leftarrow> read_dentry_by_name fname file s;
     if filetype (mem s) file = 2
     then Some (s, sint (inode_length (mem s) (inode_start_addr s + idx_inode (mem s) file * FS_BLOCK)))
     else Some (s, 0) }"

definition read_dentry_by_index :: "u32 \<Rightarrow> ptr \<Rightarrow> 'a fs_state_scheme \<Rightarrow> 'a fs_state_scheme \<times> int" where
  "read_dentry_by_index index dentry s =
     (if index \<ge> num_dir (mem s) (bootblock_ptr s) then (s, -1)
      else let current_dir = (Local 4, 0);
               m = copy_region (mem s) current_dir (dentry_at (bootblock_ptr s) index) 64
           in (s\<lparr>mem := fill_dentry dentry current_dir m\<rparr>, 0))"

text \<open>
  The copying loop of \<open>read_data\<close>, once around the \<open>do\<close>: the block counters, \<open>n\<close> and
  \<open>written_bytes\<close> are 16 bits wide.
\<close>

partial_function (option) read_data_loop ::
  "u32 \<Rightarrow> u32 \<Rightarrow> u32 \<Rightarrow> u16 \<Rightarrow> mem \<Rightarrow> ptr \<Rightarrow> u32 \<Rightarrow> u32 \<Rightarrow> u16 \<Rightarrow> u16 \<Rightarrow> (mem \<times> int) option"
where
  "read_data_loop bb inode_ptr data_start total_blocks m buf offset len current_block written_bytes =
     (let offset_block = ucast (offset mod FS_BLOCK) :: u16;
          idx_block = ucast (dblocks m inode_ptr (ucast current_block)) :: u16
      in if uint idx_block \<ge> sint (num_data m bb) then Some (m, -1)
         else let n = (if len \<ge> FS_BLOCK - ucast offset_block then ucast (FS_BLOCK - ucast offset_block) else ucast len) :: u16;
                  current_data_addr = data_start + ucast idx_block * FS_BLOCK + ucast offset_block;
                  m = memcpy m buf (Global, current_data_addr) (ucast n);
                  buf = padd buf (ucast n);
                  offset = offset + ucast n;
                  len = len - ucast n;
                  written_bytes = written_bytes + n;
                  current_block = current_block + 1
              in if current_block \<le> total_blocks
                 then read_data_loop bb inode_ptr data_start total_blocks m buf offset len current_block written_bytes
                 else Some (m, uint written_bytes))"

definition read_data :: "u32 \<Rightarrow> u32 \<Rightarrow> ptr \<Rightarrow> u32 \<Rightarrow> 'a fs_state_scheme \<Rightarrow> ('a fs_state_scheme \<times> int) option" where
  "read_data inode offset buf len s =
     (let inode_ptr = inode_start_addr s + inode * FS_BLOCK;
          bb = bootblock_ptr s;
          flen = inode_length (mem s) inode_ptr
      in if inode \<ge> num_inode (mem s) bb then Some (s, -1)
         else if offset \<ge> flen then Some (s, 0)
         else let len = (if offset + len \<ge> flen then flen - offset else len);
                  current_block = ucast (offset div FS_BLOCK) :: u16;
                  total_blocks = ucast ((offset + len) div FS_BLOCK) :: u16
              in do {
                (m, r) \<leftarrow> read_data_loop bb inode_ptr (data_start_addr s) total_blocks (mem s) buf offset len current_block 0;
                Some (s\<lparr>mem := m\<rparr>, r) })"

text \<open>The four bytes at \<open>ELF_ENTRY\<close>, put together least significant first.\<close>

definition elf_entry :: "mem \<Rightarrow> ptr \<Rightarrow> u32" where
  "elf_entry m entry_buff =
     for_upto 0 4 (\<lambda>i e. e OR push_bit (i * 8) (ucast (m (padd entry_buff (24 + of_nat i))))) 0"

definition loadProcess :: "ptr \<Rightarrow> u32 \<Rightarrow> 'a fs_state_scheme \<Rightarrow> ('a fs_state_scheme \<times> u32) option" where
  "loadProcess command virtual_addr s = do {
     let process_dentry = (Local 5, 0);
     let entry_buff = (Local 6, 0);
     (s, _) \<leftarrow> read_dentry_by_name command process_dentry s;
     (s, length) \<leftarrow> get_filesize_by_name command s;
     (s, _) \<leftarrow> read_data (idx_inode (mem s) process_dentry) 0 entry_buff 40 s;
     (s, _) \<leftarrow> read_data (idx_inode (mem s) process_dentry) 0 (Global, virtual_addr) (word_of_int length) s;
     Some (s, elf_entry (mem s) entry_buff) }"

definition is_executable :: "ptr \<Rightarrow> 'a fs_state_scheme \<Rightarrow> ('a fs_state_scheme \<times> int) option" where
  "is_executable filename s =
     (if filename = NULL then Some (s, 0)
      else do {
        let file = (Local 7, 0);
        (s, r) \<leftarrow> read_dentry_by_name filename file s;
        if r = 0 \<and> filetype (mem s) file = 2 \<and> idx_inode (mem s) file \<noteq> 0
        then do {
          let buffer = (Local 8, 0);
          (s, _) \<leftarrow> read_data (idx_inode (mem s) file) 0 buffer 4 s;
          Some (s, if mem s buffer = 0x7F \<and> mem s (padd buffer 1) = 0x45 \<and> mem s (padd buffer 2) = 0x4C
                     \<and> mem s (padd buffer 3) = 0x46 then 1 else 0) }
        else Some (s, 0) })"

section \<open>Specification of the image\<close>

definition fs_size :: "mem \<Rightarrow> u32 \<Rightarrow> nat" where
  "fs_size m bb = 4096 * (1 + unat (num_inode m bb) + unat (num_data m bb))"

definition in_fs :: "mem \<Rightarrow> u32 \<Rightarrow> ptr \<Rightarrow> bool" where
  "in_fs m bb = in_region (Global, bb) (fs_size m bb)"

definition inode_addr :: "u32 \<Rightarrow> u32 \<Rightarrow> u32" where
  "inode_addr bb i = bb + 4096 + i * 4096"

definition data_addr :: "mem \<Rightarrow> u32 \<Rightarrow> u32" where
  "data_addr m bb = bb + 4096 + num_inode m bb * 4096"

definition file_length :: "mem \<Rightarrow> u32 \<Rightarrow> u32 \<Rightarrow> nat" where
  "file_length m bb i = unat (inode_length m (inode_addr bb i))"

text \<open>Byte \<open>k\<close> of the file of inode \<open>i\<close>, and the whole file.\<close>

definition file_byte :: "mem \<Rightarrow> u32 \<Rightarrow> u32 \<Rightarrow> nat \<Rightarrow> u8" where
  "file_byte m bb i k = m (Global, data_addr m bb
     + dblocks m (inode_addr bb i) (of_nat (k div 4096)) * 4096 + of_nat (k mod 4096))"

definition file_contents :: "mem \<Rightarrow> u32 \<Rightarrow> u32 \<Rightarrow> u8 list" where
  "file_contents m bb i = map (file_byte m bb i) [0..<file_length m bb i]"

text \<open>
  A well-formed image lies below the top of the address space and has at most 62 entries and
  65536 data blocks; a well-formed inode has a length its blocks can hold and block numbers in
  range, up to the block that the end of the file falls into.
\<close>

definition fs_wf :: "mem \<Rightarrow> u32 \<Rightarrow> bool" where
  "fs_wf m bb \<longleftrightarrow> unat bb + fs_size m bb \<le> 2 ^ 32 \<and> unat (num_dir m bb) \<le> 62 \<and> unat (num_data m bb) \<le> 65536"

definition inode_wf :: "mem \<Rightarrow> u32 \<Rightarrow> u32 \<Rightarrow> bool" where
  "inode_wf m bb i \<longleftrightarrow> i < num_inode m bb \<and> file_length m bb i < 1023 * 4096
     \<and> (\<forall>k \<le> file_length m bb i div 4096. dblocks m (inode_addr bb i) (of_nat k) < num_data m bb)"

definition fs_ready :: "'a fs_state_scheme \<Rightarrow> bool" where
  "fs_ready s \<longleftrightarrow> fs_wf (mem s) (bootblock_ptr s) \<and> inode_start_addr s = bootblock_ptr s + 4096
     \<and> data_start_addr s = data_addr (mem s) (bootblock_ptr s)"

section \<open>Lemmas: addresses in the image\<close>

lemma fs_size_bounds: "4096 \<le> fs_size m bb" "fs_wf m bb \<Longrightarrow> fs_size m bb \<le> 2 ^ 32"
  by (simp_all add: fs_size_def fs_wf_def)

lemma in_fs_offset:
  assumes "fs_wf m bb" and "d < fs_size m bb"
  shows "in_fs m bb (Global, bb + of_nat d)"
  using assms fs_size_bounds(2) [OF assms(1)] by (simp add: in_fs_def in_region_def unat_of_nat)

text \<open>A memory that agrees on the image gives the same structures.\<close>

definition same_fs :: "mem \<Rightarrow> u32 \<Rightarrow> mem \<Rightarrow> bool" where
  "same_fs m bb m' \<longleftrightarrow> (\<forall>r. in_fs m bb r \<longrightarrow> m' r = m r)"

lemma same_fs_ld32:
  assumes "fs_wf m bb" and "same_fs m bb m'" and "d + 4 \<le> fs_size m bb"
  shows "ld32 m' (Global, bb + of_nat d) = ld32 m (Global, bb + of_nat d)"
proof (rule ld32_cong)
  fix k :: u32
  assume "unat k < 4"
  then have "d + unat k < fs_size m bb" using assms(3) by simp
  from in_fs_offset [OF assms(1) this]
  have "in_fs m bb (padd (Global, bb + of_nat d) k)" by (simp add: padd_def add.assoc)
  then show "m' (padd (Global, bb + of_nat d) k) = m (padd (Global, bb + of_nat d) k)"
    using assms(2) unfolding same_fs_def by blast
qed

lemma same_fs_header:
  assumes "fs_wf m bb" and "same_fs m bb m'"
  shows "num_dir m' bb = num_dir m bb" "num_inode m' bb = num_inode m bb" "num_data m' bb = num_data m bb"
    "data_addr m' bb = data_addr m bb"
proof -
  note ld = same_fs_ld32 [OF assms]
  show "num_dir m' bb = num_dir m bb" using ld [of 0] fs_size_bounds(1) [of m bb] by simp
  show n: "num_inode m' bb = num_inode m bb" using ld [of 4] fs_size_bounds(1) [of m bb] by simp
  show "num_data m' bb = num_data m bb" using ld [of 8] fs_size_bounds(1) [of m bb] by simp
  show "data_addr m' bb = data_addr m bb" by (simp add: data_addr_def n)
qed

lemma inode_word_offset:
  "(Global, inode_addr bb i + 4 + 4 * of_nat k) = (Global, bb + of_nat (4096 * (1 + unat i) + 4 + 4 * k))"
  by (simp add: inode_addr_def algebra_simps)

lemma same_fs_inode:
  assumes "fs_wf m bb" and "same_fs m bb m'" and "i < num_inode m bb"
  shows "inode_length m' (inode_addr bb i) = inode_length m (inode_addr bb i)"
    and "k < 1023 \<Longrightarrow> dblocks m' (inode_addr bb i) (of_nat k) = dblocks m (inode_addr bb i) (of_nat k)"
proof -
  have i: "4096 * (2 + unat i) \<le> fs_size m bb" using assms(3) by (simp add: fs_size_def word_less_nat_alt)
  have "inode_addr bb i = bb + of_nat (4096 * (1 + unat i))" by (simp add: inode_addr_def algebra_simps)
  then show "inode_length m' (inode_addr bb i) = inode_length m (inode_addr bb i)"
    using same_fs_ld32 [OF assms(1,2), of "4096 * (1 + unat i)"] i by (simp add: inode_length_def)
  show "dblocks m' (inode_addr bb i) (of_nat k) = dblocks m (inode_addr bb i) (of_nat k)" if "k < 1023"
    using same_fs_ld32 [OF assms(1,2), of "4096 * (1 + unat i) + 4 + 4 * k"] i that
    unfolding dblocks_def inode_word_offset by simp
qed

lemma data_in_fs:
  assumes "fs_wf m bb" and "b < num_data m bb" and "j < 4096"
  shows "in_fs m bb (Global, data_addr m bb + b * 4096 + of_nat j)"
proof -
  let ?d = "4096 * (1 + unat (num_inode m bb) + unat b) + j"
  have "?d < fs_size m bb" using assms(2,3) by (simp add: fs_size_def word_less_nat_alt)
  moreover have "data_addr m bb + b * 4096 + of_nat j = bb + of_nat ?d" by (simp add: data_addr_def algebra_simps)
  ultimately show ?thesis using in_fs_offset [OF assms(1), of ?d] by (simp only:)
qed

section \<open>Lemmas: reading file data\<close>

lemma u16_of_nat: "n < 65536 \<Longrightarrow> unat (of_nat n :: u16) = n"
  by (simp add: unat_of_nat)

lemma ucast_u16_u32: "n < 65536 \<Longrightarrow> (ucast (of_nat n :: u16) :: u32) = of_nat n"
  by (simp add: word_unat_eq_iff unat_of_nat unsigned_ucast_eq take_bit_nat_eq_self)

lemma ucast_u32_u16: "(ucast (of_nat n :: u32) :: u16) = of_nat n"
  by (simp add: unsigned_of_nat word_unat_eq_iff unat_of_nat take_bit_eq_mod mod_mod_cancel)

text \<open>A block number in range fits the loop's 16-bit variable and passes its guard.\<close>

lemma u16_block:
  assumes "unat nd \<le> 65536" and "b < (nd :: u32)"
  shows "uint (ucast b :: u16) = uint b" and "(ucast (ucast b :: u16) :: u32) = b" and "uint (ucast b :: u16) < sint nd"
proof -
  have b16: "unat b < 65536" using assms by (simp add: word_less_nat_alt)
  have "int (unat b) < 65536" using b16 by linarith
  then have "uint b < 2 ^ 16" by simp
  then show u: "uint (ucast b :: u16) = uint b" by (simp add: unsigned_ucast_eq take_bit_int_eq_self)
  have "unat (ucast (ucast b :: u16) :: u32) = unat b"
    using b16 by (simp add: unsigned_ucast_eq unsigned_take_bit_eq take_bit_nat_eq_self)
  then show "(ucast (ucast b :: u16) :: u32) = b" by (simp add: word_unat_eq_iff)
  have "int (unat nd) \<le> 65536" using assms(1) by linarith
  then have "sint nd = uint nd" by (intro sint_eq_uint_u32) simp
  then show "uint (ucast b :: u16) < sint nd" using assms(2) unfolding u by (simp add: word_less_def)
qed

text \<open>One block: the bytes that \<open>memcpy\<close> copies are bytes of the file.\<close>

lemma block_bytes:
  assumes "fs_wf m0 bb" and "same_fs m0 bb m" and "o' mod 4096 + n \<le> 4096"
    and "b = dblocks m0 (inode_addr bb i) (of_nat (o' div 4096))" and "b < num_data m0 bb"
  shows "bytes_at m (Global, data_addr m0 bb + b * 4096 + of_nat (o' mod 4096)) n = map (file_byte m0 bb i) [o'..<o' + n]"
    and "in_region (Global, data_addr m0 bb + b * 4096 + of_nat (o' mod 4096)) n r \<Longrightarrow> in_fs m0 bb r"
proof -
  let ?a = "data_addr m0 bb + b * 4096 + of_nat (o' mod 4096)"
  have at: "padd (Global, ?a) (of_nat j) = (Global, data_addr m0 bb + b * 4096 + of_nat (o' mod 4096 + j))" for j
    by (simp add: padd_def add.assoc)
  have inf: "in_fs m0 bb (padd (Global, ?a) (of_nat j))" if "j < n" for j
    unfolding at using that assms(3) by (intro data_in_fs [OF assms(1,5)]) simp
  show "bytes_at m (Global, ?a) n = map (file_byte m0 bb i) [o'..<o' + n]"
  proof (rule nth_equalityI)
    fix j assume "j < length (bytes_at m (Global, ?a) n)"
    then have j: "j < n" by simp
    have "o' + j = 4096 * (o' div 4096) + (o' mod 4096 + j)" by simp
    moreover have "(4096 * q + r) div 4096 = q \<and> (4096 * q + r) mod 4096 = r" if "r < 4096" for q r :: nat
      using that by simp
    ultimately have "(o' + j) div 4096 = o' div 4096" "(o' + j) mod 4096 = o' mod 4096 + j"
      using j assms(3) by (metis add_less_cancel_left order_less_le_trans)+
    then have "file_byte m0 bb i (o' + j) = m0 (padd (Global, ?a) (of_nat j))"
      unfolding at by (simp add: file_byte_def assms(4))
    moreover have "m (padd (Global, ?a) (of_nat j)) = m0 (padd (Global, ?a) (of_nat j))"
      using inf [OF j] assms(2) unfolding same_fs_def by blast
    ultimately show "bytes_at m (Global, ?a) n ! j = map (file_byte m0 bb i) [o'..<o' + n] ! j" using j by simp
  qed simp
  show "in_fs m0 bb r" if "in_region (Global, ?a) n r"
  proof -
    from that obtain k where "r = padd (Global, ?a) k" "unat k < n" by (rule in_regionE)
    then show ?thesis using inf [of "unat k"] by simp
  qed
qed

text \<open>One iteration of the loop, with its 16-bit quantities as natural numbers.\<close>

lemma read_data_loop_step:
  assumes "fs_wf m0 bb" and "inode_wf m0 bb i" and "same_fs m0 bb m" and "o' + l \<le> file_length m0 bb i"
    and "n = min (4096 - o' mod 4096) l" and "b = dblocks m0 (inode_addr bb i) (of_nat (o' div 4096))"
    and "m' = memcpy m buf (Global, data_addr m0 bb + b * 4096 + of_nat (o' mod 4096)) (of_nat n)"
    and "T = (o' + l) div 4096"
  shows "read_data_loop bb (inode_addr bb i) (data_addr m0 bb) (of_nat T) m buf (of_nat o') (of_nat l) (of_nat (o' div 4096)) w
    = (if o' div 4096 < T
       then read_data_loop bb (inode_addr bb i) (data_addr m0 bb) (of_nat T) m' (padd buf (of_nat n))
         (of_nat (o' + n)) (of_nat (l - n)) (of_nat (o' div 4096 + 1)) (w + of_nat n)
       else Some (m', uint (w + of_nat n)))"
    and "b < num_data m0 bb"
proof -
  have inode: "i < num_inode m0 bb" and flen: "file_length m0 bb i < 4190208"
    using assms(2) by (simp_all add: inode_wf_def)
  have ol: "o' + l < 4190208" using assms(4) flen by simp
  then have T: "T < 1023" using assms(8) by simp
  have cb: "o' div 4096 \<le> T" using assms(8) by (simp add: div_le_mono)
  have rb: "o' mod 4096 < 4096" by simp
  have "o' div 4096 \<le> file_length m0 bb i div 4096" using assms(4) by (intro div_le_mono) simp
  then show b: "b < num_data m0 bb" using assms(2,6) by (simp add: inode_wf_def)
  have nd: "unat (num_data m0 bb) \<le> 65536" using assms(1) by (simp add: fs_wf_def)
  have off: "ucast ((of_nat o' :: u32) mod 4096) = (of_nat (o' mod 4096) :: u16)"
  proof -
    have "(of_nat o' :: u32) mod 4096 = of_nat (o' mod 4096)"
      using ol by (simp add: word_unat_eq_iff unat_mod unat_of_nat)
    then show ?thesis by (simp add: ucast_u32_u16)
  qed
  have off32: "(ucast (of_nat (o' mod 4096) :: u16) :: u32) = of_nat (o' mod 4096)" using rb by (intro ucast_u16_u32) simp
  have blk: "dblocks m (inode_addr bb i) (ucast (of_nat (o' div 4096) :: u16)) = b"
    using same_fs_inode(2) [OF assms(1,3) inode, of "o' div 4096"] cb T by (simp add: ucast_u16_u32 assms(6))
  note ib = u16_block(1,2) [OF nd b]
  have guard: "\<not> sint (num_data m bb) \<le> uint b"
    using u16_block(1,3) [OF nd b] unfolding same_fs_header(3) [OF assms(1,3)] by simp
  have rest: "4096 - (of_nat (o' mod 4096) :: u32) = of_nat (4096 - o' mod 4096)" by (simp add: of_nat_diff)
  have ge: "(of_nat (4096 - o' mod 4096) :: u32) \<le> of_nat l \<longleftrightarrow> 4096 - o' mod 4096 \<le> l"
  proof -
    have "unat (of_nat (4096 - o' mod 4096) :: u32) = 4096 - o' mod 4096" "unat (of_nat l :: u32) = l"
      using ol by (simp_all only: unat_of_nat) simp_all
    then show ?thesis by (simp only: word_le_nat_alt)
  qed
  have n16: "(if (of_nat (4096 - o' mod 4096) :: u32) \<le> of_nat l then ucast (of_nat (4096 - o' mod 4096) :: u32)
      else ucast (of_nat l :: u32)) = (of_nat n :: u16)"
    unfolding ge ucast_u32_u16 using assms(5) by (simp add: min_def)
  have n: "n \<le> 4096" "n \<le> l" using assms(5) by simp_all
  have n32: "(ucast (of_nat n :: u16) :: u32) = of_nat n" using n by (intro ucast_u16_u32) simp
  have le: "of_nat (o' div 4096) + 1 \<le> (of_nat T :: u16) \<longleftrightarrow> o' div 4096 < T"
  proof -
    have "(of_nat (o' div 4096) + 1 :: u16) = of_nat (o' div 4096 + 1)" by simp
    then show ?thesis using cb T by (simp only: word_le_nat_alt) (simp add: u16_of_nat Suc_le_eq del: of_nat_add of_nat_Suc)
  qed
  show "read_data_loop bb (inode_addr bb i) (data_addr m0 bb) (of_nat T) m buf (of_nat o') (of_nat l) (of_nat (o' div 4096)) w
    = (if o' div 4096 < T
       then read_data_loop bb (inode_addr bb i) (data_addr m0 bb) (of_nat T) m' (padd buf (of_nat n))
         (of_nat (o' + n)) (of_nat (l - n)) (of_nat (o' div 4096 + 1)) (w + of_nat n)
       else Some (m', uint (w + of_nat n)))"
    using n by (subst read_data_loop.simps)
      (simp only: Let_def off off32 blk guard if_False rest n16 n32 ib le assms(7) [symmetric],
       simp add: of_nat_diff add.commute)
qed

text \<open>The loop copies a stretch of the file that does not overlap the image.\<close>

lemma same_fs_put:
  assumes "same_fs m0 bb m" and "\<And>r. in_region buf (length bs) r \<Longrightarrow> \<not> in_fs m0 bb r"
  shows "same_fs m0 bb (put_bytes m buf bs)"
  using assms put_bytes_other [of buf bs _ m] unfolding same_fs_def by metis

lemma block_step:
  fixes d n :: nat
  assumes "n = min (4096 - d mod 4096) l"
  shows "d div 4096 < (d + l) div 4096 \<longleftrightarrow> n = 4096 - d mod 4096"
    and "n = 4096 - d mod 4096 \<Longrightarrow> (d + n) div 4096 = d div 4096 + 1"
    and "n \<noteq> 4096 - d mod 4096 \<Longrightarrow> n = l"
proof -
  let ?q = "d div 4096" and ?r = "d mod 4096"
  have d: "d = 4096 * ?q + ?r" and r: "?r < 4096" by simp_all
  have up: "(4096 * a + b) div 4096 = a + b div 4096" for a b :: nat by simp
  show "(d + n) div 4096 = ?q + 1" if "n = 4096 - ?r"
  proof -
    have "d + n = 4096 * ?q + (?r + n)" using d by (metis add.assoc)
    also have "?r + n = 4096" using that r by simp
    finally show ?thesis by simp
  qed
  have "(d + l) div 4096 = ?q + (?r + l) div 4096" using d up [of ?q "?r + l"] by (metis add.assoc)
  then have "?q < (d + l) div 4096 \<longleftrightarrow> 4096 \<le> ?r + l" by (simp add: div_greater_zero_iff)
  then show "?q < (d + l) div 4096 \<longleftrightarrow> n = 4096 - ?r" using assms r by (auto simp: min_def)
  show "n \<noteq> 4096 - ?r \<Longrightarrow> n = l" using assms by (simp add: min_def split: if_splits)
qed

lemma read_data_loop_copy:
  assumes "fs_wf m0 bb" and "inode_wf m0 bb i"
  shows "same_fs m0 bb m \<Longrightarrow> (\<And>r. in_region buf l r \<Longrightarrow> \<not> in_fs m0 bb r) \<Longrightarrow> d + l \<le> file_length m0 bb i \<Longrightarrow>
    read_data_loop bb (inode_addr bb i) (data_addr m0 bb) (of_nat ((d + l) div 4096)) m buf (of_nat d) (of_nat l)
      (of_nat (d div 4096)) w
    = Some (put_bytes m buf (map (file_byte m0 bb i) [d..<d + l]), uint (w + of_nat l))"
proof (induction "(d + l) div 4096 - d div 4096" arbitrary: m buf d l w rule: less_induct)
  case less
  define n where "n = min (4096 - d mod 4096) l"
  define b where "b = dblocks m0 (inode_addr bb i) (of_nat (d div 4096))"
  let ?src = "(Global, data_addr m0 bb + b * 4096 + of_nat (d mod 4096))"
  define m' where "m' = memcpy m buf ?src (of_nat n)"
  have nl: "n \<le> l" "n \<le> 4096" "d mod 4096 + n \<le> 4096" by (simp_all add: n_def)
  have u: "unat (of_nat n :: u32) = n" using nl by (simp add: unat_of_nat)
  have bok: "b < num_data m0 bb"
    and step: "read_data_loop bb (inode_addr bb i) (data_addr m0 bb) (of_nat ((d + l) div 4096)) m buf (of_nat d) (of_nat l) (of_nat (d div 4096)) w
      = (if d div 4096 < (d + l) div 4096
       then read_data_loop bb (inode_addr bb i) (data_addr m0 bb) (of_nat ((d + l) div 4096)) m' (padd buf (of_nat n))
         (of_nat (d + n)) (of_nat (l - n)) (of_nat (d div 4096 + 1)) (w + of_nat n)
       else Some (m', uint (w + of_nat n)))"
    using read_data_loop_step [OF assms less.prems(1,3) n_def b_def m'_def refl] by blast+
  note blk = block_bytes [OF assms(1) less.prems(1) nl(3) b_def bok]
  have out: "\<not> in_fs m0 bb r" if "in_region buf n r" for r
    using less.prems(2) in_region_mono [OF that nl(1)] by blast
  have m': "m' = put_bytes m buf (map (file_byte m0 bb i) [d..<d + n])"
    unfolding m'_def blk(1) [symmetric]
    using memcpy_disjoint [of buf "of_nat n" ?src m] out blk(2) unfolding u by blast
  show ?case
  proof (cases "n = 4096 - d mod 4096")
    case False
    then have "n = l" using block_step(3) [OF n_def] by blast
    then show ?thesis unfolding step using False block_step(1) [OF n_def] m' by simp
  next
    case True
    have lt: "d div 4096 < (d + l) div 4096" and dn: "(d + n) div 4096 = d div 4096 + 1"
      using True block_step(1,2) [OF n_def] by simp_all
    have dl: "d + n + (l - n) = d + l" using nl(1) by simp
    have "l < 2 ^ 32" using less.prems(3) assms(2) by (simp add: inode_wf_def)
    then have off: "\<not> in_fs m0 bb r" if "in_region (padd buf (of_nat n)) (l - n) r" for r
      using that less.prems(2) [of r] in_region_offset [of n "l - n" buf r] nl(1) by simp
    have same: "same_fs m0 bb m'" unfolding m' by (rule same_fs_put [OF less.prems(1)]) (simp add: out)
    have "read_data_loop bb (inode_addr bb i) (data_addr m0 bb) (of_nat ((d + n + (l - n)) div 4096)) m' (padd buf (of_nat n))
         (of_nat (d + n)) (of_nat (l - n)) (of_nat ((d + n) div 4096)) (w + of_nat n)
      = Some (put_bytes m' (padd buf (of_nat n)) (map (file_byte m0 bb i) [d + n..<d + n + (l - n)]), uint (w + of_nat n + of_nat (l - n)))"
    proof (rule less.hyps [OF _ same off])
      show "(d + n + (l - n)) div 4096 - (d + n) div 4096 < (d + l) div 4096 - d div 4096"
        unfolding dl dn using lt by linarith
    qed (use dl less.prems(3) in simp_all)
    moreover have "put_bytes m' (padd buf (of_nat n)) (map (file_byte m0 bb i) [d + n..<d + l])
      = put_bytes m buf (map (file_byte m0 bb i) [d..<d + l])"
      using put_bytes_append [of "map (file_byte m0 bb i) [d..<d + n]" "map (file_byte m0 bb i) [d + n..<d + l]" m buf]
        \<open>l < 2 ^ 32\<close> nl(1) upt_add_eq_append [of d "d + n" "l - n"] unfolding m' by (simp flip: map_append)
    moreover have "w + of_nat n + of_nat (l - n) = w + of_nat l" using nl(1) by (simp add: of_nat_diff)
    ultimately show ?thesis unfolding step dl dn using lt by simp
  qed
qed

lemma read_data_result:
  assumes "fs_ready s" and "bb = bootblock_ptr s" and "inode_wf (mem s) bb i"
    and "unat offset + unat len < 2 ^ 32"
    and "bs = take (unat len) (drop (unat offset) (file_contents (mem s) bb i))"
    and "\<And>r. in_region buf (length bs) r \<Longrightarrow> \<not> in_fs (mem s) bb r"
  shows "read_data i offset buf len s = Some (s\<lparr>mem := put_bytes (mem s) buf bs\<rparr>, int (length bs mod 65536))"
proof -
  let ?m = "mem s" and ?L = "file_length (mem s) bb i" and ?o = "unat offset"
  have wf: "fs_wf ?m bb" and ia: "inode_start_addr s + i * FS_BLOCK = inode_addr bb i"
    and da: "data_start_addr s = data_addr ?m bb"
    using assms(1,2) by (simp_all add: fs_ready_def inode_addr_def)
  have i: "i < num_inode ?m bb" and L: "?L < 4190208" using assms(3) by (simp_all add: inode_wf_def)
  have flen: "unat (inode_length ?m (inode_addr bb i)) = ?L" by (simp add: file_length_def)
  have lenbs: "length bs = min (unat len) (?L - ?o)" by (simp add: assms(5) file_contents_def)
  show ?thesis
  proof (cases "?L \<le> ?o")
    case True
    then have "bs = []" using lenbs by auto
    moreover have "inode_length ?m (inode_addr bb i) \<le> offset" using True flen by (simp add: word_le_nat_alt)
    ultimately show ?thesis using i assms(2) by (simp add: read_data_def Let_def ia not_le)
  next
    case False
    define l where "l = length bs"
    have lw: "(if offset + len \<ge> inode_length ?m (inode_addr bb i) then inode_length ?m (inode_addr bb i) - offset else len)
      = of_nat l"
    proof -
      have "unat (offset + len) = ?o + unat len" using assms(4) by (simp add: unat_plus_small)
      then show ?thesis
        using False lenbs flen L unat_u32_less [of len] by (auto simp: l_def word_le_nat_alt word_unat_eq_iff unat_sub_if_size word_size unat_of_nat not_le)
    qed
    have ol: "?o + l \<le> ?L" using lenbs False by (simp add: l_def)
    have cb: "(ucast (offset div 4096) :: u16) = of_nat (?o div 4096)"
    proof -
      have "?o div 4096 < 2 ^ 32" using unat_u32_less [of offset] by simp
      then have "offset div 4096 = of_nat (?o div 4096)" by (simp add: word_unat_eq_iff unat_div unat_of_nat)
      then show ?thesis by (simp add: ucast_u32_u16)
    qed
    have tb: "(ucast ((offset + of_nat l) div 4096) :: u16) = of_nat ((?o + l) div 4096)"
    proof -
      have "(offset + of_nat l) div 4096 = of_nat ((?o + l) div 4096)"
        using ol L by (simp add: word_unat_eq_iff unat_div unat_plus_small unat_of_nat)
      then show ?thesis by (simp add: ucast_u32_u16)
    qed
    have bs: "bs = map (file_byte ?m bb i) [?o..<?o + l]"
      by (rule nth_equalityI) (use lenbs False in \<open>simp_all add: l_def assms(5) file_contents_def less_diff_conv add.commute\<close>)
    have "read_data_loop bb (inode_addr bb i) (data_addr ?m bb) (of_nat ((?o + l) div 4096)) ?m buf (of_nat ?o) (of_nat l) (of_nat (?o div 4096)) 0
      = Some (put_bytes ?m buf bs, uint (0 + of_nat l :: u16))"
      unfolding bs using assms(6) ol by (intro read_data_loop_copy [OF wf assms(3)]) (simp_all add: same_fs_def l_def)
    moreover have "\<not> inode_length ?m (inode_addr bb i) \<le> offset" using False flen by (simp add: word_le_nat_alt)
    moreover have "uint (of_nat l :: u16) = int (l mod 65536)" by (simp add: unsigned_of_nat take_bit_eq_mod of_nat_mod)
    ultimately show ?thesis
      unfolding read_data_def Let_def assms(2) [symmetric] ia da lw cb tb using i by (simp add: not_le l_def)
  qed
qed

section \<open>Lemmas: directory lookup\<close>

definition name_matches :: "mem \<Rightarrow> u32 \<Rightarrow> ptr \<Rightarrow> nat \<Rightarrow> bool" where
  "name_matches m bb fname k \<longleftrightarrow>
     upto_nul (bytes_at m fname 31) = upto_nul (bytes_at m (dentry_at bb (of_nat k)) 31)"

text \<open>The entry a lookup finds: the first that matches, among one more than the directory has.\<close>

definition lookup_name :: "mem \<Rightarrow> u32 \<Rightarrow> ptr \<Rightarrow> nat option" where
  "lookup_name m bb fname = find (name_matches m bb fname) [0..<Suc (unat (num_dir m bb))]"

lemma find_dentry_lookup:
  assumes "unat (num_dir m bb) \<le> 62"
  shows "k \<le> Suc (unat (num_dir m bb)) \<Longrightarrow> find_dentry bb fname dentry (of_nat k) m
    = Some (case find (name_matches m bb fname) [k..<Suc (unat (num_dir m bb))] of
        None \<Rightarrow> (m, -1) | Some j \<Rightarrow> (fill_dentry dentry (dentry_at bb (of_nat j)) m, 0))"
proof (induction "Suc (unat (num_dir m bb)) - k" arbitrary: k)
  case 0
  then have k: "k = Suc (unat (num_dir m bb))" by simp
  then have "\<not> of_nat k \<le> num_dir m bb" using assms by (simp add: word_le_nat_alt unat_of_nat del: of_nat_Suc)
  then show ?case using k by (subst find_dentry.simps) simp
next
  case (Suc d)
  then have k: "k \<le> unat (num_dir m bb)" by simp
  then have le: "of_nat k \<le> num_dir m bb" using assms by (simp add: word_le_nat_alt unat_of_nat)
  have up: "[k..<Suc (unat (num_dir m bb))] = k # [Suc k..<Suc (unat (num_dir m bb))]" using k by (simp add: upt_conv_Cons)
  have IH: "find_dentry bb fname dentry (of_nat (Suc k)) m
    = Some (case find (name_matches m bb fname) [Suc k..<Suc (unat (num_dir m bb))] of
        None \<Rightarrow> (m, -1) | Some j \<Rightarrow> (fill_dentry dentry (dentry_at bb (of_nat j)) m, 0))"
    using Suc by (intro Suc.hyps) simp_all
  have match: "strncmp m fname (dentry_at bb (of_nat k)) 31 = 0 \<longleftrightarrow> name_matches m bb fname k"
    using strncmp_from_zero_iff [of 0 31 m fname "dentry_at bb (of_nat k)"] by (simp add: strncmp_def name_matches_def)
  show ?case
    unfolding up using le match IH by (subst find_dentry.simps) (simp add: add.commute)
qed

text \<open>Memory that differs in given local blocks only.\<close>

definition only_locals :: "nat set \<Rightarrow> mem \<Rightarrow> mem \<Rightarrow> bool" where
  "only_locals B m m' \<longleftrightarrow> (\<forall>r. fst r \<notin> Local ` B \<longrightarrow> m' r = m r)"

lemma only_locals_refl [simp]: "only_locals B m m"
  by (simp add: only_locals_def)

lemma only_locals_trans: "only_locals A m m' \<Longrightarrow> only_locals B m' m'' \<Longrightarrow> only_locals (A \<union> B) m m''"
  unfolding only_locals_def image_Un by (metis UnCI)

lemma only_locals_mono: "only_locals A m m' \<Longrightarrow> A \<subseteq> B \<Longrightarrow> only_locals B m m'"
  by (auto simp: only_locals_def)

lemma only_locals_put: "fst p = Local j \<Longrightarrow> only_locals {j} m (put_bytes m p bs)"
  by (auto simp: only_locals_def put_bytes_def fill_region_def in_region_def)

lemma only_locals_st32: "fst p = Local j \<Longrightarrow> only_locals {j} m (st32 m p v)"
  by (auto simp: only_locals_def st32_eq_fill fill_region_def in_region_def)

lemma only_locals_at: "only_locals B m m' \<Longrightarrow> fst r \<notin> Local ` B \<Longrightarrow> m' r = m r"
  unfolding only_locals_def by blast

lemma only_locals_views:
  assumes "only_locals B m m'" and "fst p \<notin> Local ` B"
  shows "ld32 m' p = ld32 m p" "bytes_at m' p n = bytes_at m p n" "cstr m' p str = cstr m p str"
proof -
  have eq: "m' (padd p k) = m (padd p k)" for k using only_locals_at [OF assms(1)] assms(2) by simp
  show "ld32 m' p = ld32 m p" by (rule ld32_cong) (rule eq)
  show b: "bytes_at m' p n = bytes_at m p n" for n by (simp add: bytes_at_def eq)
  show "cstr m' p str = cstr m p str" by (simp add: cstr_def b eq)
qed

lemma only_locals_fs:
  assumes "only_locals B m m'"
  shows "num_dir m' bb = num_dir m bb" "num_inode m' bb = num_inode m bb" "num_data m' bb = num_data m bb"
    "fs_wf m' bb = fs_wf m bb" "inode_wf m' bb i = inode_wf m bb i" "file_contents m' bb i = file_contents m bb i"
    "in_fs m' bb = in_fs m bb" "data_addr m' bb = data_addr m bb" "file_length m' bb i = file_length m bb i"
    "filetype m' (dentry_at bb k) = filetype m (dentry_at bb k)" "idx_inode m' (dentry_at bb k) = idx_inode m (dentry_at bb k)"
    "inode_length m' a = inode_length m a"
proof -
  have ld: "ld32 m' (Global, a) = ld32 m (Global, a)" for a using only_locals_views(1) [OF assms, of "(Global, a)"] by auto
  have at: "m' (Global, a) = m (Global, a)" for a using only_locals_at [OF assms, of "(Global, a)"] by auto
  show "num_dir m' bb = num_dir m bb" "num_inode m' bb = num_inode m bb" "num_data m' bb = num_data m bb"
    "fs_wf m' bb = fs_wf m bb" "inode_wf m' bb i = inode_wf m bb i" "file_contents m' bb i = file_contents m bb i"
    "in_fs m' bb = in_fs m bb" "data_addr m' bb = data_addr m bb" "file_length m' bb i = file_length m bb i"
    "filetype m' (dentry_at bb k) = filetype m (dentry_at bb k)" "idx_inode m' (dentry_at bb k) = idx_inode m (dentry_at bb k)"
    "inode_length m' a = inode_length m a"
    by (simp_all add: ld at fs_wf_def fs_size_def inode_wf_def file_contents_def file_byte_def file_length_def inode_length_def
        dblocks_def in_fs_def data_addr_def filetype_def idx_inode_def dentry_at_def padd_def)
qed

lemma only_locals_ready: "only_locals B (mem s) m' \<Longrightarrow> fs_ready s \<Longrightarrow> fs_ready (s\<lparr>mem := m'\<rparr>)"
  by (simp add: fs_ready_def only_locals_fs)

lemma lookup_name_locals:
  assumes "only_locals B m m'" and "fst fname \<notin> Local ` B"
  shows "lookup_name m' bb fname = lookup_name m bb fname"
proof -
  have "bytes_at m' (dentry_at bb k) n = bytes_at m (dentry_at bb k) n" for k n
    by (rule only_locals_views(2) [OF assms(1)]) (auto simp: dentry_at_def)
  then have "name_matches m' bb fname = name_matches m bb fname"
    by (simp add: fun_eq_iff name_matches_def only_locals_views(2) [OF assms])
  then show ?thesis by (simp add: lookup_name_def only_locals_fs(1) [OF assms(1)])
qed

lemma ld32_st32_above: "ld32 (st32 m (padd p (a + 4)) v) (padd p a) = ld32 m (padd p a)"
proof (rule ld32_cong)
  fix j :: u32
  assume "unat j < 4"
  moreover have "a + j - (a + 4) = j - 4" by simp
  ultimately have "\<not> in_region (padd p (a + 4)) 4 (padd (padd p a) j)"
    by (auto simp: unat_less_4_iff in_region_def add.assoc)
  then show "st32 m (padd p (a + 4)) v (padd (padd p a) j) = m (padd (padd p a) j)"
    unfolding st32_eq_fill by (rule fill_region_other)
qed

lemma bytes_at_st32_below:
  assumes "n + 4 \<le> unat a + 4" and "unat a + 4 < 2 ^ 32"
  shows "bytes_at (st32 m (padd p a) v) p n = bytes_at m p n"
proof (rule nth_equalityI)
  fix i assume "i < length (bytes_at (st32 m (padd p a) v) p n)"
  then have i: "i < n" by simp
  then have "i < unat a" using assms(1) by simp
  then have "unat (of_nat i - a) = 2 ^ 32 + i - unat a"
    using assms(2) by (simp add: unat_sub_if_size word_size unat_of_nat)
  then have "\<not> in_region (padd p a) 4 (padd p (of_nat i))" using assms by (simp add: in_region_def)
  then show "bytes_at (st32 m (padd p a) v) p n ! i = bytes_at m p n ! i"
    using i by (simp add: st32_eq_fill fill_region_other)
qed simp

lemma cstr_upto_nul:
  assumes "cstr m p str" and "length str < n"
  shows "upto_nul (bytes_at m p n) = str"
proof -
  obtain k where n: "n = length str + Suc k" using assms(2) less_imp_Suc_add by fastforce
  have "bytes_at m p n = str @ 0 # bytes_at m (padd p (of_nat (length str) + 1)) k"
    using assms(1) unfolding n bytes_at_append by (simp add: cstr_def bytes_at_Suc)
  then show ?thesis using assms(1) by (simp add: upto_nul_append cstr_def)
qed

text \<open>A filled entry: the fields of the source, nothing written outside the local block, and its byte 31, which \<open>strncpy\<close> with a bound of 31
  does not reach, left as it was.\<close>

lemma fill_dentry_effect:
  assumes "dentry = (Local j, b)" and "fst e \<noteq> Local j"
  shows "filetype (fill_dentry dentry e m) dentry = filetype m e"
    and "idx_inode (fill_dentry dentry e m) dentry = idx_inode m e"
    and "upto_nul (bytes_at (fill_dentry dentry e m) dentry 31) = upto_nul (bytes_at m e 31)"
    and "only_locals {j} m (fill_dentry dentry e m)" and "fill_dentry dentry e m (padd dentry 31) = m (padd dentry 31)"
proof -
  let ?n = "upto_nul (bytes_at m e 31)"
  define m1 where "m1 = put_bytes m dentry (?n @ replicate (31 - length ?n) 0)"
  define m2 where "m2 = st32 m1 (padd dentry 32) (filetype m e)"
  have len: "length ?n \<le> 31" using length_upto_nul [of "bytes_at m e 31"] by simp
  have "separate dentry (unat (31 :: u32)) e (unat (31 :: u32))" using assms by (simp add: separate_def)
  from strncpy_put [OF this, of m] have s: "strncpy m dentry e 31 = m1" by (simp add: m1_def)
  have o1: "only_locals {j} m m1" unfolding m1_def using assms(1) by (intro only_locals_put) simp
  have o2: "only_locals {j} m1 m2" unfolding m2_def using assms(1) by (intro only_locals_st32) simp
  have o12: "only_locals {j} m m2" using only_locals_trans [OF o1 o2] by simp
  have f1: "filetype m1 e = filetype m e" unfolding filetype_def using assms(2) by (intro only_locals_views(1) [OF o1]) simp
  have i2: "idx_inode m2 e = idx_inode m e" unfolding idx_inode_def using assms(2) by (intro only_locals_views(1) [OF o12]) simp
  have fin: "fill_dentry dentry e m = st32 m2 (padd dentry 36) (idx_inode m e)"
    by (simp add: fill_dentry_def s f1 Let_def i2 flip: m2_def)
  have "ld32 (st32 m2 (padd dentry 36) (idx_inode m e)) (padd dentry 32) = ld32 m2 (padd dentry 32)"
    using ld32_st32_above [of m2 dentry 32] by simp
  then show "filetype (fill_dentry dentry e m) dentry = filetype m e" unfolding fin by (simp add: filetype_def m2_def)
  show "idx_inode (fill_dentry dentry e m) dentry = idx_inode m e" unfolding fin by (simp add: idx_inode_def)
  have "bytes_at (fill_dentry dentry e m) dentry 31 = bytes_at m1 dentry 31"
    unfolding fin m2_def by (simp add: bytes_at_st32_below)
  also have "\<dots> = ?n @ replicate (31 - length ?n) 0"
    unfolding m1_def using len by (intro bytes_at_put_bytes) simp_all
  finally have "bytes_at (fill_dentry dentry e m) dentry 31 = ?n @ replicate (31 - length ?n) 0" .
  then show "upto_nul (bytes_at (fill_dentry dentry e m) dentry 31) = ?n"
    by (simp add: upto_nul_def takeWhile_append)
  have "\<not> in_region dentry (length (?n @ replicate (31 - length ?n) 0)) (padd dentry 31)" using len by (simp add: in_region_def assms(1))
  then have "m1 (padd dentry 31) = m (padd dentry 31)" unfolding m1_def by (rule put_bytes_other)
  then show "fill_dentry dentry e m (padd dentry 31) = m (padd dentry 31)" unfolding fin m2_def using assms(1) by (simp add: st32_def padd_def)
  show "only_locals {j} m (fill_dentry dentry e m)"
    using only_locals_trans [OF o12 only_locals_st32 [of "padd dentry 36" j m2 "idx_inode m e"]] assms(1) unfolding fin by simp
qed

lemma read_dentry_by_name_result:
  assumes "fs_ready s" and "cstr (mem s) fname name"
  shows "read_dentry_by_name fname dentry s
    = Some (case lookup_name (mem s) (bootblock_ptr s) fname of None \<Rightarrow> (s, -1)
        | Some k \<Rightarrow> (s\<lparr>mem := fill_dentry dentry (dentry_at (bootblock_ptr s) (of_nat k)) (mem s)\<rparr>, 0))"
proof -
  have "unat (num_dir (mem s) (bootblock_ptr s)) \<le> 62" using assms(1) by (simp add: fs_ready_def fs_wf_def)
  from find_dentry_lookup [OF this, of 0 fname dentry] show ?thesis
    using strlen_cstr [OF assms(2)] by (simp add: read_dentry_by_name_def lookup_name_def split: option.splits)
qed

section \<open>Lemmas: files by name\<close>

lemma sint_int_unat: "unat (w :: u32) < 2 ^ 31 \<Longrightarrow> sint w = int (unat w)"
proof -
  assume "unat w < 2 ^ 31"
  then have "int (unat w) < int (2 ^ 31)" by (simp only: of_nat_less_iff)
  then have "uint w < 2 ^ 31" unfolding uint_nat by (simp only: of_nat_power of_nat_numeral)
  then show "sint w = int (unat w)" unfolding uint_nat [symmetric] by (rule sint_eq_uint_u32)
qed

lemma get_filesize_result:
  assumes "fs_ready s" and "cstr (mem s) fname name" and "lookup_name (mem s) (bootblock_ptr s) fname = Some k"
    and "e = dentry_at (bootblock_ptr s) (of_nat k)" and "filetype (mem s) e = 2"
    and "inode_wf (mem s) (bootblock_ptr s) (idx_inode (mem s) e)"
  shows "get_filesize_by_name fname s
    = Some (s\<lparr>mem := fill_dentry (Local 3, 0) e (mem s)\<rparr>, int (file_length (mem s) (bootblock_ptr s) (idx_inode (mem s) e)))"
proof -
  let ?m = "fill_dentry (Local 3, 0) e (mem s)" and ?bb = "bootblock_ptr s" and ?i = "idx_inode (mem s) e"
  have "fst e \<noteq> Local 3" by (simp add: assms(4) dentry_at_def)
  note f = fill_dentry_effect [OF refl this, where b = 0 and m = "mem s"]
  have a: "inode_start_addr s + ?i * 4096 = inode_addr ?bb ?i" using assms(1) by (simp add: fs_ready_def inode_addr_def)
  have "unat (inode_length (mem s) (inode_addr ?bb ?i)) < 2 ^ 31"
    using assms(6) by (simp add: inode_wf_def file_length_def)
  then have "sint (inode_length (mem s) (inode_addr ?bb ?i)) = int (file_length (mem s) ?bb ?i)"
    unfolding file_length_def by (rule sint_int_unat)
  moreover have "read_dentry_by_name fname (Local 3, 0) s = Some (s\<lparr>mem := ?m\<rparr>, 0)"
    using read_dentry_by_name_result [OF assms(1,2), of "(Local 3, 0)"] assms(3,4) by simp
  ultimately show ?thesis
    using assms(5) by (simp add: get_filesize_by_name_def Let_def f(1,2) a only_locals_fs [OF f(4)])
qed

lemma elf_entry_ld32: "elf_entry m p = ld32 m (padd p 24)"
  by (simp add: elf_entry_def for_upto_step ld32_def or.assoc or.commute or.left_commute)

text \<open>Reading into a local block changes that block only.\<close>

lemma ld32_bytes:
  assumes "\<And>k. unat k < 4 \<Longrightarrow> m (padd p k) = m' (padd p' k)"
  shows "ld32 m p = ld32 m' p'"
  using assms [of 0] assms [of 1] assms [of 2] assms [of 3] by (simp add: ld32_def)

lemma put_bytes_padd: "unat k < length bs \<Longrightarrow> put_bytes m p bs (padd p k) = bs ! unat k"
  by (simp add: put_bytes_def fill_region_apply)

lemma not_in_fs_local: "\<not> in_fs m bb (Local j, b)"
  by (simp add: in_fs_def in_region_def)

lemma read_data_local:
  assumes "fs_ready s" and "inode_wf (mem s) (bootblock_ptr s) i" and "unat len < 2 ^ 32 - 1"
  defines "bs \<equiv> take (unat len) (file_contents (mem s) (bootblock_ptr s) i)"
  shows "read_data i 0 (Local j, 0) len s = Some (s\<lparr>mem := put_bytes (mem s) (Local j, 0) bs\<rparr>, int (length bs mod 65536))"
  using assms by (intro read_data_result [OF assms(1) refl assms(2)]) (auto simp: bs_def not_in_fs_local in_region_def in_fs_def)

section \<open>Printing string literals\<close>

lemma print_literal_result:
  assumes "scr_ok s" and "0 \<notin> set (cbytes str)" and "length str < 2 ^ 31" and "render Map.empty (cbytes str) args = Some out"
  shows "\<exists>s'. print_literal str args s = Some (s', int (length str)) \<and> scr_ok s' \<and> shown s' = fold tty_emit out (shown s)
    \<and> only_locals {0, 2} (mem s) (mem s') \<and> tty_frame (active_terminal s) (s\<lparr>mem := mem s'\<rparr>) s'"
proof -
  let ?m = "put_bytes (mem s) (Local 2, 0) (cbytes str @ [0])"
  let ?s = "s\<lparr>mem := ?m\<rparr>"
  have ok: "scr_ok ?s" using assms(1) by (simp add: scr_ok_def)
  have len: "length (cbytes str) = length str" by (simp add: cbytes_def)
  have "cstr (mem ?s) (Local 2, 0) (cbytes str)" using assms(2,3) len by (simp add: cstr_put_bytes)
  from printf_result [OF ok this _ _ assms(4)] len assms(3) obtain s'
    where s': "printf (Local 2, 0) args ?s = Some (s', int (length str))" "scr_ok s'" "shown s' = fold tty_emit out (shown ?s)" "print_frame ?s s'"
    by auto
  have "only_locals {0} ?m (mem s')"
    using s'(4) by (auto simp: only_locals_def print_frame_def conv_buf_def in_region_def)
  from only_locals_trans [OF only_locals_put [of "(Local 2, 0)" 2 "mem s" "cbytes str @ [0]"] this]
  have "only_locals {0, 2} (mem s) (mem s')" by (simp add: insert_commute)
  then show ?thesis using s' by (auto simp: print_literal_def shown_def print_frame_def console_def cursor_pos_def)
qed

section \<open>A small image\<close>

text \<open>One entry, \<open>hi\<close>, a program of 4100 bytes in blocks 2 and 0; the other bytes are 0.\<close>

definition demo_image :: mem where
  "demo_image = (\<lambda>(b, a). if b \<noteq> Global then 0
     else if a = 0x400000 then 1 else if a = 0x400004 then 2 else if a = 0x400008 then 3
     else if a = 0x400040 then 0x68 else if a = 0x400041 then 0x69 else if a = 0x400060 then 2 else if a = 0x400064 then 1
     else if a = 0x402000 then 4 else if a = 0x402001 then 0x10 else if a = 0x402004 then 2
     else if a = 0x405000 then 0x7F else if a = 0x405001 then 0x45 else if a = 0x405002 then 0x4C else if a = 0x405003 then 0x46
     else if a = 0x405018 then 0x48 else if a = 0x405019 then 0x80 else if a = 0x40501A then 4 else if a = 0x40501B then 8
     else if a = 0x405FFF then 0xAA else if a = 0x403000 then 0xBB
     else if a = 0x100 then 0x68 else if a = 0x101 then 0x69 else 0)"

definition fs_demo :: fs_state where
  "fs_demo = filesystem_init 0x400000
     (kbd_state.extend (kbd_boot\<lparr>mem := demo_image\<rparr>) \<lparr>bootblock_ptr = 0, inode_start_addr = 0, data_start_addr = 0\<rparr>)"

lemma demo_words:
  "ld32 demo_image (Global, 0x400000) = 1" "ld32 demo_image (Global, 0x400004) = 2" "ld32 demo_image (Global, 0x400008) = 3"
  "ld32 demo_image (Global, 0x402000) = 4100" "ld32 demo_image (Global, 0x402004) = 2" "ld32 demo_image (Global, 0x402008) = 0"
  "ld32 demo_image (Global, 0x400060) = 2" "ld32 demo_image (Global, 0x400064) = 1"
  by (simp_all add: ld32_def demo_image_def padd_def)

lemma fs_demo_simps:
  "mem fs_demo = demo_image" "bootblock_ptr fs_demo = 0x400000" "inode_start_addr fs_demo = 0x401000"
  "data_start_addr fs_demo = 0x403000"
  by (simp_all add: fs_demo_def filesystem_init_def kbd_state.defs kbd_boot_def rtc_boot_def boot_screen_def rtc_state.defs
      screen_state.defs demo_words Let_def)

lemma fs_demo_ready: "fs_ready fs_demo"
  by (simp add: fs_ready_def fs_wf_def fs_size_def data_addr_def fs_demo_simps demo_words)

lemma demo_inode: "inode_wf demo_image 0x400000 1" "file_length demo_image 0x400000 1 = 4100"
proof -
  show l: "file_length demo_image 0x400000 1 = 4100" by (simp add: file_length_def inode_length_def inode_addr_def demo_words)
  have "dblocks demo_image (inode_addr 0x400000 1) (of_nat k) < num_data demo_image 0x400000" if "k \<le> 1" for k
  proof -
    have "k = 0 \<or> k = 1" using that by auto
    then show ?thesis by (auto simp: dblocks_def inode_addr_def demo_words)
  qed
  then show "inode_wf demo_image 0x400000 1" by (simp add: inode_wf_def l demo_words)
qed

lemma demo_not_image: "b \<noteq> Global \<or> a < 0x400000 \<Longrightarrow> \<not> in_fs demo_image 0x400000 (b, a)"
proof -
  assume "b \<noteq> Global \<or> a < 0x400000"
  moreover have "unat (a - 0x400000) \<ge> 24576" if "a < 0x400000" using that
    by (simp add: unat_sub_if_size word_size word_less_nat_alt)
  ultimately show ?thesis by (auto simp: in_fs_def in_region_def fs_size_def demo_words)
qed

lemma demo_name: "cstr demo_image (Global, 0x100) [0x68, 0x69]"
  by (simp add: cstr_def bytes_at_def demo_image_def padd_def upt_conv_Cons)

lemma demo_lookup: "lookup_name demo_image 0x400000 (Global, 0x100) = Some 0"
proof -
  have "cstr demo_image (Global, 0x400040) [0x68, 0x69]"
    by (simp add: cstr_def bytes_at_def demo_image_def padd_def upt_conv_Cons)
  then have "name_matches demo_image 0x400000 (Global, 0x100) 0"
    using demo_name by (simp add: name_matches_def dentry_at_def cstr_upto_nul)
  then show ?thesis by (simp add: lookup_name_def demo_words upt_conv_Cons)
qed

section \<open>Correctness of the file system\<close>

text \<open>
  C35: \<open>read_data\<close> on a well-formed image copies exactly the requested part of the file, clipped
  at its end, to a buffer outside the image and writes nothing else; it returns the number of bytes
  (its counter has 16 bits), 0 at or past the end of the file, and -1 for an inode that does not exist.
\<close>

theorem read_data_correct:
  assumes "fs_ready s" and "unat offset + unat len < 2 ^ 32"
  shows "(num_inode (mem s) (bootblock_ptr s) \<le> i \<longrightarrow> read_data i offset buf len s = Some (s, -1))
    \<and> (inode_wf (mem s) (bootblock_ptr s) i \<longrightarrow>
        (let bs = take (unat len) (drop (unat offset) (file_contents (mem s) (bootblock_ptr s) i))
         in (\<forall>k < length bs. \<not> in_fs (mem s) (bootblock_ptr s) (padd buf (of_nat k))) \<longrightarrow>
            read_data i offset buf len s = Some (s\<lparr>mem := put_bytes (mem s) buf bs\<rparr>, int (length bs mod 65536))))"
proof -
  have out: "\<not> in_fs m bb r" if a: "\<forall>k < n. \<not> in_fs m bb (padd buf (of_nat k))" and b: "in_region buf n r" for m bb r n
  proof -
    obtain k where k: "r = padd buf k" "unat k < n" using b by (rule in_regionE)
    then have "\<not> in_fs m bb (padd buf (of_nat (unat k)))" using a by blast
    then show ?thesis using k(1) by simp
  qed
  show ?thesis
  proof (intro conjI impI)
    show "read_data i offset buf len s = Some (s, -1)" if "num_inode (mem s) (bootblock_ptr s) \<le> i"
      using that by (simp add: read_data_def)
  qed (unfold Let_def, intro impI, rule read_data_result [OF assms(1) refl _ assms(2) refl], assumption, rule out)
qed

theorem read_data_correct_witness:
  "\<exists>s'. read_data 1 4095 (Local 20, 0) 100 fs_demo = Some (s', 5) \<and> bytes_at (mem s') (Local 20, 0) 5 = [0xAA, 0xBB, 0, 0, 0]"
proof -
  have b: "dblocks demo_image 0x402000 0 = 2" "dblocks demo_image 0x402000 1 = 0" by (simp_all add: dblocks_def demo_words)
  have f: "file_byte demo_image 0x400000 1 4095 = 0xAA" "file_byte demo_image 0x400000 1 4096 = 0xBB" "file_byte demo_image 0x400000 1 4097 = 0"
    "file_byte demo_image 0x400000 1 4098 = 0" "file_byte demo_image 0x400000 1 4099 = 0"
    by (simp_all add: file_byte_def data_addr_def demo_words b inode_addr_def) (simp_all add: demo_image_def)
  have u: "[4095..<4100] = [4095, 4096, 4097, 4098, 4099 :: nat]" by (simp add: upt_conv_Cons)
  have "take 100 (drop 4095 (file_contents demo_image 0x400000 1)) = [0xAA, 0xBB, 0, 0, 0]"
    by (simp add: file_contents_def demo_inode drop_map u f)
  then show ?thesis
    using read_data_correct [OF fs_demo_ready, of 4095 100 1 "(Local 20, 0)"] demo_inode(1)
    by (simp add: fs_demo_simps not_in_fs_local padd_def)
qed

text \<open>The name of a directory entry.\<close>

definition entry_name :: "mem \<Rightarrow> u32 \<Rightarrow> nat \<Rightarrow> u8 list" where
  "entry_name m bb k = upto_nul (bytes_at m (dentry_at bb (of_nat k)) 31)"

lemma bytes_at_take: "n \<le> k \<Longrightarrow> bytes_at m p n = take n (bytes_at m p k)"
  by (rule nth_equalityI) simp_all

lemma upto_nul_take: "upto_nul (take n bs) = take n (upto_nul bs)"
  by (induction bs arbitrary: n) (auto simp: take_Cons split: nat.splits)

lemma name_31: "cstr m fname name \<Longrightarrow> upto_nul (bytes_at m fname 31) = take 31 name"
  using cstr_upto_nul [of m fname name "32 + length name"] bytes_at_take [of 31 "32 + length name" m fname]
  by (simp add: upto_nul_take)

lemma name_matches_entry: "cstr m fname name \<Longrightarrow> name_matches m bb fname k \<longleftrightarrow> entry_name m bb k = take 31 name"
  by (auto simp: name_matches_def entry_name_def name_31)

text \<open>The first entry with a given name, and what of the image decides the answers.\<close>

definition dir_lookup :: "mem \<Rightarrow> u32 \<Rightarrow> u8 list \<Rightarrow> nat option" where
  "dir_lookup m bb name = find (\<lambda>k. entry_name m bb k = take 31 name) [0..<Suc (unat (num_dir m bb))]"

lemma lookup_name_dir: "cstr m fname name \<Longrightarrow> lookup_name m bb fname = dir_lookup m bb name"
proof -
  assume "cstr m fname name"
  then have "name_matches m bb fname = (\<lambda>k. entry_name m bb k = take 31 name)" by (simp add: fun_eq_iff name_matches_entry)
  then show ?thesis by (simp only: lookup_name_def dir_lookup_def)
qed

lemma dir_lookup_le: "fs_wf m bb \<Longrightarrow> dir_lookup m bb name = Some k \<Longrightarrow> k \<le> 62"
  by (auto simp: dir_lookup_def find_Some_iff fs_wf_def simp del: upt_Suc)

lemma same_fs_wf:
  assumes "fs_wf m bb" and "same_fs m bb m'"
  shows "fs_wf m' bb" "in_fs m' bb = in_fs m bb"
  using assms(1) same_fs_header [OF assms] by (simp_all add: fs_wf_def fs_size_def in_fs_def)

lemma same_fs_dentry:
  assumes "fs_wf m bb" and "same_fs m bb m'" and "k \<le> 62"
  shows "entry_name m' bb k = entry_name m bb k" "filetype m' (dentry_at bb (of_nat k)) = filetype m (dentry_at bb (of_nat k))"
    "idx_inode m' (dentry_at bb (of_nat k)) = idx_inode m (dentry_at bb (of_nat k))"
proof -
  have at: "m' (padd (dentry_at bb (of_nat k)) j) = m (padd (dentry_at bb (of_nat k)) j)" if "unat j < 64" for j
  proof -
    let ?d = "64 + 64 * k + unat j"
    have "?d < fs_size m bb" using that assms(3) fs_size_bounds(1) [of m bb] by simp
    moreover have "padd (dentry_at bb (of_nat k)) j = (Global, bb + of_nat ?d)" by (simp add: dentry_at_def padd_def add.assoc)
    ultimately have "in_fs m bb (padd (dentry_at bb (of_nat k)) j)" using in_fs_offset [OF assms(1), of ?d] by (simp only:)
    then show ?thesis using assms(2) unfolding same_fs_def by blast
  qed
  have w: "ld32 m' (padd (dentry_at bb (of_nat k)) a) = ld32 m (padd (dentry_at bb (of_nat k)) a)" if "a = 32 \<or> a = 36" for a
  proof (rule ld32_cong)
    fix j :: u32
    assume "unat j < 4"
    then have "unat (a + j) < 64" using that by (auto simp: unat_less_4_iff)
    then show "m' (padd (padd (dentry_at bb (of_nat k)) a) j) = m (padd (padd (dentry_at bb (of_nat k)) a) j)" using at by simp
  qed
  have "bytes_at m' (dentry_at bb (of_nat k)) 31 = bytes_at m (dentry_at bb (of_nat k)) 31"
    by (rule nth_equalityI) (simp_all add: at unat_of_nat)
  then show "entry_name m' bb k = entry_name m bb k" by (simp add: entry_name_def)
  show "filetype m' (dentry_at bb (of_nat k)) = filetype m (dentry_at bb (of_nat k))"
    "idx_inode m' (dentry_at bb (of_nat k)) = idx_inode m (dentry_at bb (of_nat k))" using w by (simp_all add: filetype_def idx_inode_def)
qed

lemma same_fs_lookup:
  assumes "fs_wf m bb" and "same_fs m bb m'"
  shows "dir_lookup m' bb name = dir_lookup m bb name"
proof -
  have "unat (num_dir m bb) \<le> 62" using assms(1) by (simp add: fs_wf_def)
  then have "find (\<lambda>k. entry_name m' bb k = take 31 name) [0..<Suc (unat (num_dir m bb))]
      = find (\<lambda>k. entry_name m bb k = take 31 name) [0..<Suc (unat (num_dir m bb))]"
    using same_fs_dentry(1) [OF assms] by (intro find_cong refl) (auto simp del: upt_Suc)
  then show ?thesis using same_fs_header(1) [OF assms] by (simp add: dir_lookup_def)
qed

lemma same_fs_contents:
  assumes "fs_wf m bb" and "same_fs m bb m'" and "inode_wf m bb i"
  shows "inode_wf m' bb i" "file_length m' bb i = file_length m bb i" "file_contents m' bb i = file_contents m bb i"
proof -
  have i: "i < num_inode m bb" and L: "file_length m bb i < 4190208" using assms(3) by (simp_all add: inode_wf_def)
  note h = same_fs_header [OF assms(1,2)] and d = same_fs_inode [OF assms(1,2) i]
  show len: "file_length m' bb i = file_length m bb i" by (simp add: file_length_def d(1))
  have b: "dblocks m' (inode_addr bb i) (of_nat k) = dblocks m (inode_addr bb i) (of_nat k)" if "k \<le> file_length m bb i div 4096" for k
  proof -
    have "file_length m bb i div 4096 < 1023" using L by (simp add: div_less_iff_less_mult)
    then show ?thesis using that by (intro d(2)) simp
  qed
  then show "inode_wf m' bb i" using assms(3) len h by (simp add: inode_wf_def)
  have "file_byte m' bb i k = file_byte m bb i k" if "k < file_length m bb i" for k
  proof -
    let ?b = "dblocks m (inode_addr bb i) (of_nat (k div 4096))"
    have kd: "k div 4096 \<le> file_length m bb i div 4096" using that by (intro div_le_mono) simp
    then have "?b < num_data m bb" using assms(3) by (simp add: inode_wf_def)
    then have "in_fs m bb (Global, data_addr m bb + ?b * 4096 + of_nat (k mod 4096))" by (intro data_in_fs [OF assms(1)]) simp_all
    then show ?thesis using assms(2) b [OF kd] h(4) unfolding same_fs_def file_byte_def by simp
  qed
  then show "file_contents m' bb i = file_contents m bb i" by (simp add: file_contents_def len)
qed

lemma lookup_name_cases:
  assumes "cstr m fname name"
  shows "(lookup_name m bb fname = None \<longleftrightarrow> (\<forall>k \<le> unat (num_dir m bb). entry_name m bb k \<noteq> take 31 name))
    \<and> (lookup_name m bb fname = Some k \<longleftrightarrow> k \<le> unat (num_dir m bb) \<and> entry_name m bb k = take 31 name
        \<and> (\<forall>l < k. entry_name m bb l \<noteq> take 31 name))"
  unfolding lookup_name_def find_None_iff find_Some_iff name_matches_entry [OF assms]
  by (auto simp: less_Suc_eq_le simp del: upt_Suc)

text \<open>
  \<open>read_dentry_by_name\<close> looks a name up among the entries 0 to \<open>num_dir\<close>, comparing 31
  bytes: it fills the caller's entry from the first that matches and returns 0, or returns -1
  and changes nothing.
\<close>

theorem read_dentry_by_name_correct:
  assumes "fs_ready s" and "cstr (mem s) fname name" and "dentry = (Local j, b)" and "bb = bootblock_ptr s"
  shows "\<exists>s' r. read_dentry_by_name fname dentry s = Some (s', r) \<and> s' = s\<lparr>mem := mem s'\<rparr> \<and> only_locals {j} (mem s) (mem s')
    \<and> (if \<forall>k \<le> unat (num_dir (mem s) bb). entry_name (mem s) bb k \<noteq> take 31 name then r = -1 \<and> s' = s
       else r = 0 \<and> (\<exists>k \<le> unat (num_dir (mem s) bb). entry_name (mem s) bb k = take 31 name
         \<and> (\<forall>l < k. entry_name (mem s) bb l \<noteq> take 31 name)
         \<and> filetype (mem s') dentry = filetype (mem s) (dentry_at bb (of_nat k))
         \<and> idx_inode (mem s') dentry = idx_inode (mem s) (dentry_at bb (of_nat k))
         \<and> upto_nul (bytes_at (mem s') dentry 31) = take 31 name))"
proof (cases "lookup_name (mem s) bb fname")
  case None
  then have "\<forall>k \<le> unat (num_dir (mem s) bb). entry_name (mem s) bb k \<noteq> take 31 name"
    using lookup_name_cases [OF assms(2), of bb] by blast
  then show ?thesis using read_dentry_by_name_result [OF assms(1,2), of dentry] None assms(4) by simp
next
  case (Some k)
  then have k: "k \<le> unat (num_dir (mem s) bb)" "entry_name (mem s) bb k = take 31 name"
    "\<forall>l < k. entry_name (mem s) bb l \<noteq> take 31 name"
    using lookup_name_cases [OF assms(2), of bb] by blast+
  let ?e = "dentry_at bb (of_nat k)"
  have "fst ?e \<noteq> Local j" by (simp add: dentry_at_def)
  note f = fill_dentry_effect [OF assms(3) this, of "mem s"]
  have r: "read_dentry_by_name fname dentry s = Some (s\<lparr>mem := fill_dentry dentry ?e (mem s)\<rparr>, 0)"
    using read_dentry_by_name_result [OF assms(1,2), of dentry] Some assms(4) by simp
  have nn: "\<not> (\<forall>k \<le> unat (num_dir (mem s) bb). entry_name (mem s) bb k \<noteq> take 31 name)" using k by blast
  show ?thesis
    unfolding r if_not_P [OF nn] using k f
    by (intro exI [of _ "s\<lparr>mem := fill_dentry dentry ?e (mem s)\<rparr>"] exI [of _ 0] conjI exI [of _ k]) (auto simp: entry_name_def)
qed

theorem read_dentry_by_name_correct_witness:
  "\<exists>s'. read_dentry_by_name (Global, 0x100) (Local 20, 0) fs_demo = Some (s', 0)
    \<and> only_locals {20} demo_image (mem s')"
proof -
  have "cstr (mem fs_demo) (Global, 0x100) [0x68, 0x69]" using demo_name by (simp add: fs_demo_simps)
  moreover have "entry_name demo_image 0x400000 0 = [0x68, 0x69]"
    using lookup_name_cases [OF demo_name, of "0x400000" 0] demo_lookup by simp
  ultimately show ?thesis
    using read_dentry_by_name_correct [OF fs_demo_ready _ refl refl, of "(Global, 0x100)" "[0x68, 0x69]" 20 0]
    by (force simp: fs_demo_simps split: if_splits)
qed

text \<open>
  Lookup by name goes one entry past the directory: when every entry has a name and the unused
  entry after them has none, looking up the empty name succeeds, although \<open>read_dentry_by_index\<close>
  rejects that entry.
\<close>

theorem read_dentry_past_end:
  assumes "fs_ready s" and "cstr (mem s) fname []" and "bb = bootblock_ptr s"
    and "\<forall>k < unat (num_dir (mem s) bb). entry_name (mem s) bb k \<noteq> []" and "entry_name (mem s) bb (unat (num_dir (mem s) bb)) = []"
  shows "(\<exists>s'. read_dentry_by_name fname dentry s = Some (s', 0))
    \<and> read_dentry_by_index (num_dir (mem s) bb) dentry s = (s, -1)"
proof -
  have "lookup_name (mem s) bb fname = Some (unat (num_dir (mem s) bb))"
    using lookup_name_cases [OF assms(2), of bb "unat (num_dir (mem s) bb)"] assms(4,5) by simp
  then show ?thesis
    using read_dentry_by_name_result [OF assms(1,2), of dentry] assms(3) by (simp add: read_dentry_by_index_def)
qed

theorem read_dentry_past_end_witness:
  "\<exists>s'. read_dentry_by_name (Local 21, 0) (Local 20, 0) fs_demo = Some (s', 0)"
proof -
  have e: "cstr (mem fs_demo) (Local 21, 0) []" by (simp add: fs_demo_simps cstr_def bytes_at_def demo_image_def)
  have "entry_name demo_image 0x400000 0 = [0x68, 0x69]"
    using lookup_name_cases [OF demo_name, of "0x400000" 0] demo_lookup by simp
  moreover have "cstr demo_image (Global, 0x400080) []" by (simp add: cstr_def bytes_at_def demo_image_def)
  then have "entry_name demo_image 0x400000 1 = []" by (simp add: entry_name_def dentry_at_def cstr_upto_nul)
  ultimately show ?thesis
    using read_dentry_past_end [OF fs_demo_ready e refl, of "(Local 20, 0)"] by (simp add: fs_demo_simps demo_words)
qed

lemma is_executable_result:
  assumes "fs_ready s" and "cstr (mem s) fname name" and "fname \<noteq> NULL" and "bb = bootblock_ptr s"
    and "\<And>k. lookup_name (mem s) bb fname = Some k \<Longrightarrow> filetype (mem s) (dentry_at bb (of_nat k)) = 2 \<Longrightarrow>
        inode_wf (mem s) bb (idx_inode (mem s) (dentry_at bb (of_nat k)))
        \<and> 4 \<le> file_length (mem s) bb (idx_inode (mem s) (dentry_at bb (of_nat k)))"
  shows "\<exists>s' r. is_executable fname s = Some (s', r) \<and> s' = s\<lparr>mem := mem s'\<rparr> \<and> only_locals {7, 8} (mem s) (mem s') \<and> r \<in> {0, 1}
    \<and> (r = 1 \<longleftrightarrow> (case lookup_name (mem s) bb fname of None \<Rightarrow> False | Some k \<Rightarrow>
         filetype (mem s) (dentry_at bb (of_nat k)) = 2 \<and> idx_inode (mem s) (dentry_at bb (of_nat k)) \<noteq> 0
         \<and> take 4 (file_contents (mem s) bb (idx_inode (mem s) (dentry_at bb (of_nat k)))) = [0x7F, 0x45, 0x4C, 0x46]))"
proof (cases "lookup_name (mem s) bb fname")
  case None
  then show ?thesis
    using read_dentry_by_name_result [OF assms(1,2), of "(Local 7, 0)"] assms(3,4) by (simp add: is_executable_def Let_def)
next
  case (Some k)
  let ?e = "dentry_at bb (of_nat k)"
  let ?m = "fill_dentry (Local 7, 0) ?e (mem s)" and ?i = "idx_inode (mem s) ?e"
  let ?s = "s\<lparr>mem := ?m\<rparr>"
  have "fst ?e \<noteq> Local 7" by (simp add: dentry_at_def)
  note f = fill_dentry_effect [OF refl this, where b = 0 and m = "mem s"]
  have o7: "only_locals {7, 8} (mem s) ?m" by (rule only_locals_mono [OF f(4)]) simp
  have r: "read_dentry_by_name fname (Local 7, 0) s = Some (?s, 0)"
    using read_dentry_by_name_result [OF assms(1,2), of "(Local 7, 0)"] Some assms(4) by simp
  show ?thesis
  proof (cases "filetype (mem s) ?e = 2 \<and> ?i \<noteq> 0")
    case False
    then show ?thesis using r assms(3) Some o7 by (auto simp: is_executable_def Let_def f(1,2))
  next
    case True
    define bs where "bs = take 4 (file_contents (mem s) bb ?i)"
    have wf: "inode_wf (mem s) bb ?i" and len: "4 \<le> file_length (mem s) bb ?i" using assms(5) [OF Some] True by blast+
    have fs': "fs_ready ?s" by (rule only_locals_ready [OF f(4) assms(1)])
    have wf': "inode_wf (mem ?s) (bootblock_ptr ?s) ?i" using wf assms(4) only_locals_fs(5) [OF f(4)] by simp
    have bs: "take (unat (4 :: u32)) (file_contents (mem ?s) (bootblock_ptr ?s) ?i) = bs"
      using only_locals_fs(6) [OF f(4)] assms(4) by (simp add: bs_def)
    have rd: "read_data ?i 0 (Local 8, 0) 4 ?s = Some (?s\<lparr>mem := put_bytes ?m (Local 8, 0) bs\<rparr>, int (length bs mod 65536))"
      using read_data_local [OF fs' wf', of 4 8] unfolding bs by simp
    have lbs: "length bs = 4" using len by (simp add: bs_def file_contents_def)
    then obtain a b c d where abcd: "bs = [a, b, c, d]" by (auto simp: eval_nat_numeral length_Suc_conv)
    have at: "put_bytes ?m (Local 8, 0) bs (padd (Local 8, 0) k) = bs ! unat k" if "unat k < 4" for k
      using that lbs by (simp add: put_bytes_def fill_region_apply)
    have o8: "only_locals {7, 8} (mem s) (put_bytes ?m (Local 8, 0) bs)"
      using only_locals_trans [OF f(4) only_locals_put [of "(Local 8, 0)" 8 ?m bs]] by (simp add: insert_commute)
    have "is_executable fname s = Some (?s\<lparr>mem := put_bytes ?m (Local 8, 0) bs\<rparr>, if bs = [0x7F, 0x45, 0x4C, 0x46] then 1 else 0)"
      using r True assms(3) rd at [of 0] at [of 1] at [of 2] at [of 3]
      by (simp add: is_executable_def Let_def f(1,2) abcd)
    then show ?thesis using o8 True Some by (auto simp: bs_def [symmetric])
  qed
qed

text \<open>
  \<open>is_executable\<close> answers 1 exactly for the name of a regular file (type 2, inode not 0) whose
  contents start with the ELF magic number, given that the inodes of such files are well formed
  and hold at least four bytes; it changes nothing but its own variables.
\<close>

theorem is_executable_correct:
  assumes "fs_ready s" and "cstr (mem s) fname name" and "fname \<noteq> NULL" and "bb = bootblock_ptr s"
    and "\<And>k. lookup_name (mem s) bb fname = Some k \<Longrightarrow> filetype (mem s) (dentry_at bb (of_nat k)) = 2 \<Longrightarrow>
        inode_wf (mem s) bb (idx_inode (mem s) (dentry_at bb (of_nat k)))
        \<and> 4 \<le> file_length (mem s) bb (idx_inode (mem s) (dentry_at bb (of_nat k)))"
  shows "\<exists>s' r. is_executable fname s = Some (s', r) \<and> s' = s\<lparr>mem := mem s'\<rparr> \<and> only_locals {7, 8} (mem s) (mem s') \<and> r \<in> {0, 1}
    \<and> (r = 1 \<longleftrightarrow> (case lookup_name (mem s) bb fname of None \<Rightarrow> False | Some k \<Rightarrow>
         filetype (mem s) (dentry_at bb (of_nat k)) = 2 \<and> idx_inode (mem s) (dentry_at bb (of_nat k)) \<noteq> 0
         \<and> take 4 (file_contents (mem s) bb (idx_inode (mem s) (dentry_at bb (of_nat k)))) = [0x7F, 0x45, 0x4C, 0x46]))"
  by (rule is_executable_result [OF assms])

lemma demo_entry:
  "filetype demo_image (dentry_at 0x400000 0) = 2" "idx_inode demo_image (dentry_at 0x400000 0) = 1"
  by (simp_all add: filetype_def idx_inode_def dentry_at_def padd_def demo_words)

lemma take_contents: "n \<le> file_length m bb i \<Longrightarrow> take n (file_contents m bb i) = map (file_byte m bb i) [0..<n]"
  by (rule nth_equalityI) (simp_all add: file_contents_def)

theorem is_executable_correct_witness: "\<exists>s'. is_executable (Global, 0x100) fs_demo = Some (s', 1)"
proof -
  have n: "cstr (mem fs_demo) (Global, 0x100) [0x68, 0x69]" using demo_name by (simp add: fs_demo_simps)
  have b: "dblocks demo_image 0x402000 0 = 2" by (simp add: dblocks_def demo_words)
  have "file_byte demo_image 0x400000 1 0 = 0x7F" "file_byte demo_image 0x400000 1 1 = 0x45" "file_byte demo_image 0x400000 1 2 = 0x4C"
    "file_byte demo_image 0x400000 1 3 = 0x46"
    by (simp_all add: file_byte_def data_addr_def demo_words b inode_addr_def) (simp_all add: demo_image_def)
  then have "take 4 (file_contents demo_image 0x400000 1) = [0x7F, 0x45, 0x4C, 0x46]"
    by (simp add: take_contents demo_inode upt_conv_Cons numeral_2_eq_2 numeral_3_eq_3)
  then show ?thesis
    using is_executable_correct [OF fs_demo_ready n _ refl] demo_inode
    by (auto simp: fs_demo_simps demo_lookup demo_entry)
qed

lemma loadProcess_result:
  assumes "fs_ready s" and "cstr (mem s) command name" and "fst command \<noteq> Local 5" and "bb = bootblock_ptr s"
    and "lookup_name (mem s) bb command = Some k" and "e = dentry_at bb (of_nat k)" and "filetype (mem s) e = 2"
    and "i = idx_inode (mem s) e" and "inode_wf (mem s) bb i" and "28 \<le> file_length (mem s) bb i"
    and "\<And>r. in_region (Global, va) (file_length (mem s) bb i) r \<Longrightarrow> \<not> in_fs (mem s) bb r"
  shows "\<exists>s'. loadProcess command va s = Some (s', ld32 (mem s') (Global, va + 24)) \<and> s' = s\<lparr>mem := mem s'\<rparr>
    \<and> bytes_at (mem s') (Global, va) (file_length (mem s) bb i) = file_contents (mem s) bb i
    \<and> (\<forall>r. fst r \<notin> {Local 3, Local 5, Local 6} \<and> \<not> in_region (Global, va) (file_length (mem s) bb i) r \<longrightarrow> mem s' r = mem s r)"
proof -
  let ?L = "file_length (mem s) bb i" and ?c = "file_contents (mem s) bb i"
  let ?m1 = "fill_dentry (Local 5, 0) e (mem s)"
  let ?m2 = "fill_dentry (Local 3, 0) e ?m1"
  define m3 where "m3 = put_bytes ?m2 (Local 6, 0) (take 40 ?c)"
  define m4 where "m4 = put_bytes m3 (Global, va) ?c"
  have e: "fst e \<noteq> Local 5" "fst e \<noteq> Local 3" by (simp_all add: assms(6) dentry_at_def)
  note f1 = fill_dentry_effect [OF refl e(1), where b = 0 and m = "mem s"]
  note f2 = fill_dentry_effect [OF refl e(2), where b = 0 and m = ?m1]
  have r1: "read_dentry_by_name command (Local 5, 0) s = Some (s\<lparr>mem := ?m1\<rparr>, 0)"
    using read_dentry_by_name_result [OF assms(1,2), of "(Local 5, 0)"] assms(4,5,6) by simp
  have o2: "only_locals {3, 5, 6} (mem s) ?m2" using only_locals_trans [OF f1(4) f2(4)] by (rule only_locals_mono) simp
  have o3: "only_locals {3, 5, 6} (mem s) m3" unfolding m3_def
    using only_locals_trans [OF o2 only_locals_put [of "(Local 6, 0)" 6]] by (rule only_locals_mono) simp_all
  have ready: "fs_ready (s\<lparr>mem := m\<rparr>)" "inode_wf m bb i" "file_contents m bb i = ?c" "in_fs m bb = in_fs (mem s) bb"
    if "only_locals {3, 5, 6} (mem s) m" for m
    using only_locals_ready [OF that assms(1)] only_locals_fs(5,6,7) [OF that] assms(9) by simp_all
  have o1: "only_locals {3, 5, 6} (mem s) ?m1" by (rule only_locals_mono [OF f1(4)]) simp
  have e1: "filetype ?m1 e = 2" "idx_inode ?m1 e = i" "file_length ?m1 bb i = ?L"
    using only_locals_fs(9,10,11) [OF f1(4)] assms(6,7,8) by simp_all
  have c1: "cstr ?m1 command name" using only_locals_views(3) [OF f1(4), of command] assms(2,3) by simp
  have l1: "lookup_name ?m1 bb command = Some k" using lookup_name_locals [OF f1(4), of command] assms(3,5) by simp
  have r2: "get_filesize_by_name command (s\<lparr>mem := ?m1\<rparr>) = Some (s\<lparr>mem := ?m2\<rparr>, int ?L)"
    using get_filesize_result [OF ready(1) [OF o1], of command name k e] c1 l1 assms(4,6) e1 ready(2) [OF o1] by simp
  have i2: "idx_inode ?m2 (Local 5, 0) = i"
    unfolding idx_inode_def using only_locals_views(1) [OF f2(4), of "padd (Local 5, 0) 36"] f1(2) assms(8) by (simp add: idx_inode_def)
  have i3: "idx_inode m3 (Local 5, 0) = i"
    unfolding m3_def idx_inode_def
    using only_locals_views(1) [OF only_locals_put, of "(Local 6, 0)" 6 "padd (Local 5, 0) 36" ?m2 "take 40 ?c"] i2
    by (simp add: idx_inode_def)
  obtain n3 where r3: "read_data i 0 (Local 6, 0) 40 (s\<lparr>mem := ?m2\<rparr>) = Some (s\<lparr>mem := m3\<rparr>, n3)"
    using read_data_local [OF ready(1) [OF o2], of i 40 6] ready(2,3) [OF o2] assms(4) by (simp add: m3_def)
  have L: "?L < 2 ^ 31" using assms(9) by (simp add: inode_wf_def)
  have lc: "length ?c = ?L" by (simp add: file_contents_def)
  have Lw: "unat (word_of_int (int ?L) :: u32) = ?L" using L by (simp add: unat_of_nat)
  obtain n4 where r4: "read_data i 0 (Global, va) (word_of_int (int ?L)) (s\<lparr>mem := m3\<rparr>) = Some (s\<lparr>mem := m4\<rparr>, n4)"
    using read_data_result [OF ready(1) [OF o3] refl, of i 0 "word_of_int (int ?L)" ?c "(Global, va)"]
      ready(2,3,4) [OF o3] assms(4,11) L Lw lc by (simp add: m4_def)
  have load: "loadProcess command va s = Some (s\<lparr>mem := m4\<rparr>, elf_entry m4 (Local 6, 0))"
    using r1 r2 r3 r4 i2 i3 by (simp add: loadProcess_def Let_def)
  have m4_at: "m4 (padd (Global, va) k) = ?c ! unat k" if "unat k < ?L" for k
    unfolding m4_def using that lc by (intro put_bytes_padd) simp
  have m4_out: "m4 r = m3 r" if "\<not> in_region (Global, va) ?L r" for r
    unfolding m4_def using that lc by (intro put_bytes_other) simp
  have entry: "elf_entry m4 (Local 6, 0) = ld32 m4 (Global, va + 24)"
    unfolding elf_entry_ld32
  proof (rule ld32_bytes)
    fix k :: u32
    assume "unat k < 4"
    then have k: "unat (24 + k) < 28" "unat (24 + k) < ?L" using assms(10) by (auto simp: unat_less_4_iff)
    have "m4 (padd (padd (Local 6, 0) 24) k) = m3 (padd (Local 6, 0) (24 + k))"
      using m4_out [of "padd (Local 6, 0) (24 + k)"] by (simp add: in_region_def)
    also have "\<dots> = take 40 ?c ! unat (24 + k)"
      unfolding m3_def by (rule put_bytes_padd) (use k lc in simp)
    also have "\<dots> = m4 (padd (Global, va) (24 + k))" using m4_at [OF k(2)] k(1) by simp
    finally show "m4 (padd (padd (Local 6, 0) 24) k) = m4 (padd (Global, va + 24) k)" by (simp add: padd_def add.assoc)
  qed
  have bytes: "bytes_at m4 (Global, va) ?L = ?c" unfolding m4_def using lc L by (intro bytes_at_put_bytes) simp_all
  have out: "m4 r = mem s r" if "fst r \<notin> {Local 3, Local 5, Local 6}" "\<not> in_region (Global, va) ?L r" for r
    using that m4_out only_locals_at [OF o3, of r] by simp
  show ?thesis unfolding load entry using bytes out by (intro exI [of _ "s\<lparr>mem := m4\<rparr>"]) simp
qed

text \<open>
  C36: \<open>loadProcess\<close> on the name of a regular file with a well-formed inode and room for an ELF header
  copies the whole file to the virtual address and returns the little-endian word at byte 24 of the file,
  its entry point; besides the program's pages only its own variables are written.
\<close>

theorem loadProcess_correct:
  assumes "fs_ready s" and "cstr (mem s) command name" and "fst command \<noteq> Local 5" and "bb = bootblock_ptr s"
    and "lookup_name (mem s) bb command = Some k" and "e = dentry_at bb (of_nat k)" and "filetype (mem s) e = 2"
    and "i = idx_inode (mem s) e" and "inode_wf (mem s) bb i" and "28 \<le> file_length (mem s) bb i"
    and "\<And>r. in_region (Global, va) (file_length (mem s) bb i) r \<Longrightarrow> \<not> in_fs (mem s) bb r"
  shows "\<exists>s'. loadProcess command va s = Some (s', ld32 (mem s') (Global, va + 24)) \<and> s' = s\<lparr>mem := mem s'\<rparr>
    \<and> bytes_at (mem s') (Global, va) (file_length (mem s) bb i) = file_contents (mem s) bb i
    \<and> (\<forall>r. fst r \<notin> {Local 3, Local 5, Local 6} \<and> \<not> in_region (Global, va) (file_length (mem s) bb i) r \<longrightarrow> mem s' r = mem s r)"
  by (rule loadProcess_result [OF assms])

theorem loadProcess_correct_witness:
  "\<exists>s'. loadProcess (Global, 0x100) 0x08048000 fs_demo = Some (s', 0x08048048)
    \<and> bytes_at (mem s') (Global, 0x08048000) 4100 = file_contents demo_image 0x400000 1"
proof -
  have n: "cstr (mem fs_demo) (Global, 0x100) [0x68, 0x69]" using demo_name by (simp add: fs_demo_simps)
  have out: "\<not> in_fs demo_image 0x400000 r" if r: "in_region (Global, 0x08048000) 4100 r" for r
  proof -
    obtain a where a: "r = (Global, 0x08048000 + a)" "unat a < 4100"
      using r by (auto elim!: in_regionE simp: padd_def)
    have "unat (0x7C48000 + a) \<ge> 24576" using a(2) unat_plus_small [of "0x7C48000" a] by simp
    moreover have "fs_size demo_image 0x400000 = 24576" by (simp add: fs_size_def demo_words)
    ultimately show ?thesis using a(1) by (simp add: in_fs_def in_region_def add.commute)
  qed
  have b: "dblocks demo_image 0x402000 0 = 2" by (simp add: dblocks_def demo_words)
  have f: "file_byte demo_image 0x400000 1 24 = 0x48" "file_byte demo_image 0x400000 1 25 = 0x80" "file_byte demo_image 0x400000 1 26 = 4"
    "file_byte demo_image 0x400000 1 27 = 8"
    by (simp_all add: file_byte_def data_addr_def demo_words b inode_addr_def) (simp_all add: demo_image_def)
  have "ld32 m (Global, 0x08048018) = 0x08048048" if "bytes_at m (Global, 0x08048000) 4100 = file_contents demo_image 0x400000 1" for m
  proof -
    have "m (Global, 0x08048000 + of_nat k) = file_byte demo_image 0x400000 1 k" if "k < 4100" for k
      using arg_cong [OF \<open>bytes_at m _ _ = _\<close>, of "\<lambda>xs. xs ! k"] that by (simp add: file_contents_def demo_inode padd_def)
    from this [of 24] this [of 25] this [of 26] this [of 27] show ?thesis by (simp add: f ld32_def padd_def)
  qed
  then show ?thesis
    using loadProcess_correct [OF fs_demo_ready n _ refl _ refl _ refl, of 0 "0x08048000"] demo_inode out
    by (auto simp: fs_demo_simps demo_lookup demo_entry)
qed

text \<open>
  A read that ends on a block boundary looks at one block number more than it copies: for a file
  of exactly one block whose unused second block number is out of range, reading the whole file
  copies all of it and still returns -1.
\<close>

theorem read_data_block_boundary:
  assumes "fs_ready s" and "bb = bootblock_ptr s" and "i < num_inode (mem s) bb" and "file_length (mem s) bb i = 4096"
    and "dblocks (mem s) (inode_addr bb i) 0 < num_data (mem s) bb"
    and "sint (num_data (mem s) bb) \<le> uint (ucast (dblocks (mem s) (inode_addr bb i) 1) :: u16)"
    and "\<And>r. in_region buf 4096 r \<Longrightarrow> \<not> in_fs (mem s) bb r"
  shows "read_data i 0 buf 4096 s = Some (s\<lparr>mem := put_bytes (mem s) buf (file_contents (mem s) bb i)\<rparr>, -1)"
proof -
  let ?m = "mem s" and ?ia = "inode_addr bb i" and ?b = "dblocks (mem s) (inode_addr bb i) 0"
  have wf: "fs_wf ?m bb" and ia: "inode_start_addr s + i * FS_BLOCK = ?ia" and da: "data_start_addr s = data_addr ?m bb"
    using assms(1,2) by (simp_all add: fs_ready_def inode_addr_def)
  have flen: "inode_length ?m ?ia = 4096" using assms(4) by (simp add: file_length_def word_unat_eq_iff)
  have nd: "unat (num_data ?m bb) \<le> 65536" using wf by (simp add: fs_wf_def)
  have b16: "(ucast (ucast ?b :: u16) :: u32) = ?b" "uint (ucast ?b :: u16) < sint (num_data ?m bb)"
    using u16_block [OF nd assms(5)] by simp_all
  note blk = block_bytes [OF wf, of ?m 0 4096 ?b i, simplified]
  let ?src = "(Global, data_addr ?m bb + ?b * 4096)"
  have src: "bytes_at ?m ?src 4096 = file_contents ?m bb i" and inf: "in_region ?src 4096 r \<Longrightarrow> in_fs ?m bb r" for r
    using blk assms(5) by (simp_all add: same_fs_def file_contents_def assms(4))
  define m' where "m' = put_bytes ?m buf (file_contents ?m bb i)"
  have cp: "memcpy ?m buf ?src 4096 = m'"
    using memcpy_disjoint [of buf 4096 ?src ?m] inf assms(7) src unfolding m'_def by fastforce
  have same: "same_fs ?m bb m'" unfolding m'_def
    by (rule same_fs_put) (simp_all add: same_fs_def file_contents_def assms(4,7))
  have d1: "dblocks m' ?ia 1 = dblocks ?m ?ia 1" using same_fs_inode(2) [OF wf same assms(3), of 1] by simp
  have "read_data_loop bb ?ia (data_addr ?m bb) 1 ?m buf 0 4096 0 0 = Some (m', -1)"
    using assms(6) b16 same_fs_header(3) [OF wf same]
    by (subst read_data_loop.simps, subst read_data_loop.simps) (simp add: Let_def cp d1)
  then show ?thesis
    unfolding read_data_def Let_def assms(2) [symmetric] ia da flen using assms(3) by (simp add: m'_def not_le)
qed

text \<open>The image with a file of exactly one block, its second block number out of range.\<close>

definition full_block_image :: mem where
  "full_block_image = demo_image((Global, 0x402000) := 0, (Global, 0x402008) := 9)"

theorem read_data_block_boundary_witness:
  "\<exists>s'. read_data 1 0 (Local 20, 0) 4096 (fs_demo\<lparr>mem := full_block_image\<rparr>) = Some (s', -1)"
proof -
  let ?s = "fs_demo\<lparr>mem := full_block_image\<rparr>"
  have w: "ld32 full_block_image (Global, 0x400000) = 1" "ld32 full_block_image (Global, 0x400004) = 2"
    "ld32 full_block_image (Global, 0x400008) = 3" "ld32 full_block_image (Global, 0x402000) = 4096"
    "ld32 full_block_image (Global, 0x402004) = 2" "ld32 full_block_image (Global, 0x402008) = 9"
    by (simp_all add: ld32_def full_block_image_def demo_image_def padd_def)
  have "fs_ready ?s" by (simp add: fs_ready_def fs_wf_def fs_size_def data_addr_def fs_demo_simps w)
  from read_data_block_boundary [OF this refl, of 1 "(Local 20, 0)"] show ?thesis
    by (simp add: fs_demo_simps w file_length_def inode_length_def dblocks_def inode_addr_def in_fs_def in_region_def)
qed

end
