(* ===== verification/Paging.thy ===== *)
theory Paging
  imports Filesystem
begin

text \<open>
  Paging (\<open>student-distrib/paging.c\<close>): the page directory, the two page tables and the control
  registers. Memory accesses of the model go through \<open>mem\<close>, the current virtual memory: the
  kernel's pages are mapped one to one, and the 4 MB user page at 128 MB shows the physical frame
  that the processor has cached for directory entry 32. \<open>frames\<close> is physical memory as far as it
  is not shown in \<open>mem\<close>; reloading \<open>cr3\<close> writes the shown frame back and shows the frame of the
  current directory entry. The addresses the linker gives the tables are a parameter.
\<close>

record paging_state = fs_state +
  pageDir :: "u32 list"
  pageTable :: "u32 list"
  pageTableUserVideo :: "u32 list"
  pageFaultAddr :: u32
  cr0 :: u32
  cr2 :: u32
  cr3 :: u32
  cr4 :: u32
  frames :: "u32 \<Rightarrow> u8"
  tlb_user :: "u32 option"

record layout =
  pageDir_addr :: u32
  pageTable_addr :: u32
  pageTableUserVideo_addr :: u32

abbreviation VIDMEMADDR :: u32 where "VIDMEMADDR \<equiv> 0x000B8000"
abbreviation KERNELADDR :: u32 where "KERNELADDR \<equiv> 0x00400000"
abbreviation USRVIDMAPADDR :: u32 where "USRVIDMAPADDR \<equiv> 0x20000000"
abbreviation USR_LOW_BOUND :: u32 where "USR_LOW_BOUND \<equiv> 0x08000000"
abbreviation FOURMB :: u32 where "FOURMB \<equiv> 0x00400000"
abbreviation EIGHTMB :: u32 where "EIGHTMB \<equiv> 0x00800000"
abbreviation CP_INDEX :: int where "CP_INDEX \<equiv> 32"
abbreviation FOURMB_USER_PAGE :: u32 where "FOURMB_USER_PAGE \<equiv> 0x87"
abbreviation FOURKB :: u32 where "FOURKB \<equiv> 4096"

section \<open>The operations\<close>

text \<open>The physical frame of a present 4 MB directory entry.\<close>

definition user_frame :: "u32 \<Rightarrow> u32 option" where
  "user_frame pde = (if bit pde 0 \<and> bit pde 7 then Some (push_bit 22 (drop_bit 22 pde)) else None)"

definition in_user_page :: "ptr \<Rightarrow> bool" where
  "in_user_page r \<longleftrightarrow> fst r = Global \<and> snd r - USR_LOW_BOUND < FOURMB"

text \<open>What is in physical memory, the shown frame included.\<close>

definition physical :: "'a paging_state_scheme \<Rightarrow> u32 \<Rightarrow> u8" where
  "physical s a = (case tlb_user s of None \<Rightarrow> frames s a
     | Some b \<Rightarrow> if a - b < FOURMB then mem s (Global, USR_LOW_BOUND + (a - b)) else frames s a)"

text \<open>Loading \<open>cr3\<close> drops the cached entry; the next access to the user page walks the directory.\<close>

definition load_cr3 :: "u32 \<Rightarrow> 'a paging_state_scheme \<Rightarrow> 'a paging_state_scheme" where
  "load_cr3 v s =
     (let new = user_frame (pageDir s ! 32);
          m = (case new of None \<Rightarrow> mem s
                | Some b \<Rightarrow> \<lambda>r. if in_user_page r then physical s (b + (snd r - USR_LOW_BOUND)) else mem s r)
      in s\<lparr>cr3 := v, frames := physical s, tlb_user := new, mem := m\<rparr>)"

definition paging_init :: "u32 \<Rightarrow> 'a paging_state_scheme \<Rightarrow> 'a paging_state_scheme" where
  "paging_init dir s = load_cr3 dir s"

definition flush_TLB :: "'a paging_state_scheme \<Rightarrow> 'a paging_state_scheme" where
  "flush_TLB s = load_cr3 (cr3 s) s"

definition page_allocate :: "u32 \<Rightarrow> int \<Rightarrow> u32 \<Rightarrow> 'a paging_state_scheme \<Rightarrow> ('a paging_state_scheme \<times> int) option" where
  "page_allocate physical_addr PDE_index PDE_flags s =
     (if PDE_index < 0 then None
      else do {
        pd \<leftarrow> arr_set (pageDir s) (nat PDE_index) (physical_addr OR PDE_flags);
        Some (s\<lparr>pageDir := pd\<rparr>, 0) })"

text \<open>Showing the user page of a process: \<open>page_allocate\<close> for its frame, then \<open>flush_TLB\<close>.\<close>

definition user_page_addr :: "u32 \<Rightarrow> u32" where
  "user_page_addr pid = (pid - 1) * FOURMB + EIGHTMB"

definition map_user_page :: "u32 \<Rightarrow> 'a paging_state_scheme \<Rightarrow> 'a paging_state_scheme option" where
  "map_user_page pid s = do {
     (s, _) \<leftarrow> page_allocate (user_page_addr pid) CP_INDEX FOURMB_USER_PAGE s;
     Some (flush_TLB s) }"

text \<open>The tables \<open>paging_exec\<close> sets up, in the order of its assignments.\<close>

definition clear_tables :: "'a paging_state_scheme \<Rightarrow> 'a paging_state_scheme" where
  "clear_tables s = for_upto 0 1024 (\<lambda>i s. s\<lparr>pageDir := (pageDir s)[i := 0], pageTable := (pageTable s)[i := 0],
     pageTableUserVideo := (pageTableUserVideo s)[i := 0]\<rparr>) s"

definition fill_tables :: "layout \<Rightarrow> 'a paging_state_scheme \<Rightarrow> 'a paging_state_scheme" where
  "fill_tables l s =
     (let s = s\<lparr>pageDir := (pageDir s)[0 := pageTable_addr l OR 0x3]\<rparr>;
          s = s\<lparr>pageDir := (pageDir s)[1 := KERNELADDR OR 0x83]\<rparr>;
          s = s\<lparr>pageTable := (pageTable s)[184 := VIDMEMADDR OR 0x3, 185 := VIDMEMADDR OR 0x3]\<rparr>;
          s = s\<lparr>pageTable := (pageTable s)[186 := (VIDMEMADDR + 2 * FOURKB) OR 0x3, 187 := (VIDMEMADDR + 3 * FOURKB) OR 0x3]\<rparr>;
          s = s\<lparr>pageTable := (pageTable s)[188 := (VIDMEMADDR + 4 * FOURKB) OR 0x3, 189 := (VIDMEMADDR + 5 * FOURKB) OR 0x3]\<rparr>;
          s = s\<lparr>pageTable := (pageTable s)[190 := (VIDMEMADDR + 6 * FOURKB) OR 0x3, 191 := (VIDMEMADDR + 7 * FOURKB) OR 0x3]\<rparr>
      in s\<lparr>pageDir := (pageDir s)[128 := pageTableUserVideo_addr l OR 0x7]\<rparr>)"

definition paging_exec :: "layout \<Rightarrow> 'a paging_state_scheme \<Rightarrow> 'a paging_state_scheme option" where
  "paging_exec l s = do {
     let s = fill_tables l (clear_tables s);
     let s = paging_init (pageDir_addr l) s;
     let s = s\<lparr>cr4 := cr4 s OR 0x10\<rparr>;
     let s = s\<lparr>cr0 := cr0 s OR 0x80000003\<rparr>;
     let s = s\<lparr>pageFaultAddr := cr2 s\<rparr>;
     (s, _) \<leftarrow> print_literal (''Paging is enabled!'' @ [CHR 0x0A]) [] s;
     Some s }"

section \<open>Specification: address translation\<close>

text \<open>The page walk: physical address and whether user mode may access it.\<close>

definition table_at :: "layout \<Rightarrow> u32 \<Rightarrow> 'a paging_state_scheme \<Rightarrow> u32 list option" where
  "table_at l a s = (if a = pageTable_addr l then Some (pageTable s)
     else if a = pageTableUserVideo_addr l then Some (pageTableUserVideo s) else None)"

definition translate :: "layout \<Rightarrow> 'a paging_state_scheme \<Rightarrow> u32 \<Rightarrow> (u32 \<times> bool) option" where
  "translate l s a =
     (let pde = pageDir s ! unat (drop_bit 22 a)
      in if \<not> bit pde 0 then None
         else if bit pde 7 then Some (push_bit 22 (drop_bit 22 pde) + take_bit 22 a, bit pde 2)
         else do {
           t \<leftarrow> table_at l (push_bit 12 (drop_bit 12 pde)) s;
           let pte = t ! unat (take_bit 10 (drop_bit 12 a));
           if \<not> bit pte 0 then None else Some (push_bit 12 (drop_bit 12 pte) + take_bit 12 a, bit pde 2 \<and> bit pte 2) })"

text \<open>The linker aligns the tables, as their attributes say, and gives them different places.\<close>

definition layout_ok :: "layout \<Rightarrow> bool" where
  "layout_ok l \<longleftrightarrow> take_bit 12 (pageTable_addr l) = 0 \<and> take_bit 12 (pageTableUserVideo_addr l) = 0 \<and> pageTable_addr l \<noteq> pageTableUserVideo_addr l"

definition tables_ok :: "'a paging_state_scheme \<Rightarrow> bool" where
  "tables_ok s \<longleftrightarrow> length (pageDir s) = 1024 \<and> length (pageTable s) = 1024 \<and> length (pageTableUserVideo s) = 1024"

section \<open>Lemmas: the tables\<close>

lemma clear_tables_result:
  assumes "tables_ok s"
  shows "clear_tables s = s\<lparr>pageDir := replicate 1024 0, pageTable := replicate 1024 0, pageTableUserVideo := replicate 1024 0\<rparr>"
proof -
  have set_all: "fold (\<lambda>i xs. xs[i := 0]) [0..<n] (xs :: u32 list) = replicate n 0 @ drop n xs" if "n \<le> length xs" for n xs
    using that
  proof (induction n)
    case (Suc n)
    then have "drop n xs = xs ! n # drop (Suc n) xs" by (simp add: Cons_nth_drop_Suc)
    then show ?case using Suc by (simp add: list_update_append replicate_append_same [symmetric])
  qed simp
  have "fold (\<lambda>i s. s\<lparr>pageDir := (pageDir s)[i := 0], pageTable := (pageTable s)[i := 0],
     pageTableUserVideo := (pageTableUserVideo s)[i := 0]\<rparr>) is s
    = s\<lparr>pageDir := fold (\<lambda>i xs. xs[i := 0]) is (pageDir s), pageTable := fold (\<lambda>i xs. xs[i := 0]) is (pageTable s),
        pageTableUserVideo := fold (\<lambda>i xs. xs[i := 0]) is (pageTableUserVideo s)\<rparr>" for "is" and s :: "'a paging_state_scheme"
    by (induction "is" arbitrary: s) simp_all
  then show ?thesis using assms by (simp add: clear_tables_def for_upto_def set_all tables_ok_def)
qed

lemma flag_bits:
  fixes a f :: u32
  assumes "take_bit n a = 0" and "drop_bit n f = 0"
  shows "push_bit n (drop_bit n (a OR f)) = a" and "k < n \<Longrightarrow> bit (a OR f) k \<longleftrightarrow> bit f k"
proof -
  show "push_bit n (drop_bit n (a OR f)) = a"
    using assms bits_ident [of n a] by (simp add: drop_bit_or)
  have "\<not> bit a k" if "k < n" using that arg_cong [OF assms(1), of "\<lambda>x. bit x k"] by (simp add: bit_take_bit_iff)
  then show "k < n \<Longrightarrow> bit (a OR f) k \<longleftrightarrow> bit f k" by (simp add: bit_or_iff)
qed

definition boot_dir :: "layout \<Rightarrow> u32 list" where
  "boot_dir l = (replicate 1024 0)[0 := pageTable_addr l OR 3, 1 := KERNELADDR OR 0x83, 128 := pageTableUserVideo_addr l OR 7]"

definition boot_table :: "u32 list" where
  "boot_table = (replicate 1024 0)[184 := VIDMEMADDR OR 3, 185 := VIDMEMADDR OR 3, 186 := (VIDMEMADDR + 2 * FOURKB) OR 3,
     187 := (VIDMEMADDR + 3 * FOURKB) OR 3, 188 := (VIDMEMADDR + 4 * FOURKB) OR 3, 189 := (VIDMEMADDR + 5 * FOURKB) OR 3,
     190 := (VIDMEMADDR + 6 * FOURKB) OR 3, 191 := (VIDMEMADDR + 7 * FOURKB) OR 3]"

lemma fill_tables_result:
  "tables_ok s \<Longrightarrow> fill_tables l (clear_tables s)
    = s\<lparr>pageDir := boot_dir l, pageTable := boot_table, pageTableUserVideo := replicate 1024 0\<rparr>"
  by (simp add: clear_tables_result fill_tables_def Let_def boot_dir_def boot_table_def)

lemma boot_dir_nth:
  "d < 1024 \<Longrightarrow> boot_dir l ! d = (if d = 0 then pageTable_addr l OR 3 else if d = 1 then 0x400083
     else if d = 128 then pageTableUserVideo_addr l OR 7 else 0)" "length (boot_dir l) = 1024"
  by (simp_all add: boot_dir_def nth_list_update)

lemma between_184_192: "184 \<le> t \<Longrightarrow> t < 192 \<Longrightarrow> t \<in> {184, 185, 186, 187, 188, 189, 190, 191 :: nat}"
  by auto

lemma boot_table_nth:
  assumes "t < 1024"
  shows "boot_table ! t = (if t < 184 \<or> 192 \<le> t then 0 else (if t = 185 then VIDMEMADDR else of_nat t * 4096) OR 3)"
proof (cases "t < 184 \<or> 192 \<le> t")
  case True
  then show ?thesis using assms by (auto simp: boot_table_def nth_list_update)
next
  case False
  then have "t \<in> {184, 185, 186, 187, 188, 189, 190, 191}" by (intro between_184_192) auto
  then show ?thesis by (auto simp: boot_table_def)
qed

lemma unat_drop_bit: "unat (drop_bit n (a :: u32)) = unat a div 2 ^ n"
  by (simp add: unat_drop_bit_eq flip: drop_bit_eq_div)

lemma unat_take_bit: "unat (take_bit n (a :: u32)) = unat a mod 2 ^ n"
  by (simp add: unsigned_take_bit_eq flip: take_bit_eq_mod)

lemma table_index: "unat (take_bit 10 (drop_bit 12 (a :: u32))) = unat a div 4096 mod 1024"
  by (simp add: unat_take_bit unat_drop_bit)

text \<open>The walk through the directory entry of the kernel and through the first page table.\<close>

lemma page_identity:
  fixes a :: u32
  shows "push_bit 22 (drop_bit 22 a) + take_bit 22 a = a" "push_bit 12 (drop_bit 12 a) + take_bit 12 a = a"
  by (rule bits_ident)+

lemma walk_kernel:
  assumes "unat a div 4194304 = 1" and "pageDir s = boot_dir l"
  shows "translate l s a = Some (a, False)"
proof -
  have "unat (drop_bit 22 a) = unat (1 :: u32)" using assms(1) by (simp add: unat_drop_bit)
  then have d: "drop_bit 22 a = 1" by (simp only: word_unat_eq_iff)
  then have "push_bit 22 (drop_bit 22 (0x400083 :: u32)) + take_bit 22 a = a" using page_identity(1) [of a] by simp
  moreover have "bit (0x400083 :: u32) 0" "bit (0x400083 :: u32) 7" "\<not> bit (0x400083 :: u32) 2" by simp_all
  ultimately show ?thesis by (simp add: translate_def d assms(2) boot_dir_nth)
qed

lemma walk_low:
  assumes "layout_ok l" and "unat a div 4194304 = 0" and "pageDir s = boot_dir l" and "pageTable s = boot_table"
  shows "translate l s a = (let t = unat a div 4096 in if t < 184 \<or> 192 \<le> t then None
    else Some (if t = 185 then a - 4096 else a, False))"
proof -
  have a: "unat a < 4194304" using assms(2) by simp
  have "unat (drop_bit 22 a) = unat (0 :: u32)" using assms(2) by (simp add: unat_drop_bit)
  then have d: "drop_bit 22 a = 0" by (simp only: word_unat_eq_iff)
  have t: "unat (take_bit 10 (drop_bit 12 a)) = unat a div 4096" "unat a div 4096 < 1024"
    unfolding table_index using a by simp_all
  have pt: "take_bit 12 (pageTable_addr l) = 0" using assms(1) by (simp add: layout_ok_def)
  note f = flag_bits [OF this, of 3]
  have pde: "bit (pageTable_addr l OR 3) 0" "\<not> bit (pageTable_addr l OR 3) 7" "\<not> bit (pageTable_addr l OR 3) 2"
    "push_bit 12 (drop_bit 12 (pageTable_addr l)) = pageTable_addr l"
    using f(1) f(2) [of 0] f(2) [of 7] f(2) [of 2] by simp_all
  have top: "push_bit 12 (drop_bit 12 a) = of_nat (unat a div 4096) * 4096"
  proof -
    have "drop_bit 12 a = of_nat (unat (drop_bit 12 a))" by simp
    then show ?thesis by (simp add: push_bit_eq_mult unat_drop_bit)
  qed
  show ?thesis
  proof (cases "unat a div 4096 < 184 \<or> 192 \<le> unat a div 4096")
    case True
    then show ?thesis by (simp add: translate_def d assms(3,4) boot_dir_nth pde table_at_def t boot_table_nth Let_def)
  next
    case False
    define p :: u32 where "p = (if unat a div 4096 = 185 then VIDMEMADDR else of_nat (unat a div 4096) * 4096)"
    have "take_bit 12 (of_nat k * 4096 :: u32) = 0" for k
      using take_bit_push_bit [of 12 12 "of_nat k :: u32"] by (simp add: push_bit_eq_mult)
    then have "take_bit 12 p = 0" by (simp add: p_def)
    note g = flag_bits [OF this, of 3]
    have pte: "bit (p OR 3) 0" "push_bit 12 (drop_bit 12 p) = p" using g(1) g(2) [of 0] by simp_all
    have "p + take_bit 12 a = (if unat a div 4096 = 185 then a - 4096 else a)"
      using page_identity(2) [of a] unfolding top p_def by (auto simp: algebra_simps)
    then show ?thesis
      using False pte by (simp add: translate_def d assms(3,4) boot_dir_nth pde table_at_def t boot_table_nth Let_def flip: p_def)
  qed
qed

lemma walk_rest:
  assumes "layout_ok l" and "2 \<le> unat a div 4194304" and "pageDir s = boot_dir l" and "pageTableUserVideo s = replicate 1024 0"
  shows "translate l s a = None"
proof -
  have lt: "unat a div 4194304 < 1024" using unat_u32_less [of a] by simp
  have d: "unat (drop_bit 22 a) = unat a div 4194304" by (simp add: unat_drop_bit)
  show ?thesis
  proof (cases "unat a div 4194304 = 128")
    case False
    then show ?thesis using assms lt by (simp add: translate_def boot_dir_nth d)
  next
    case True
    have "take_bit 12 (pageTableUserVideo_addr l) = 0" using assms(1) by (simp add: layout_ok_def)
    note f = flag_bits [OF this, of 7]
    have t: "unat (take_bit 10 (drop_bit 12 a)) < 1024" unfolding table_index by simp
    show ?thesis
      using True assms f(1) f(2) [of 0] f(2) [of 7] t
      by (auto simp: translate_def boot_dir_nth d table_at_def layout_ok_def)
  qed
qed

section \<open>Lemmas: the user page\<close>

lemma physical_load_cr3: "physical (load_cr3 v s) = physical s"
  by (auto simp: physical_def load_cr3_def Let_def fun_eq_iff in_user_page_def split: option.splits)

lemma load_cr3_mem: "\<not> in_user_page r \<Longrightarrow> mem (load_cr3 v s) r = mem s r"
  by (simp add: load_cr3_def Let_def split: option.splits)

lemma load_cr3_shows:
  assumes "user_frame (pageDir s ! 32) = Some b" and "off < FOURMB"
  shows "mem (load_cr3 v s) (Global, USR_LOW_BOUND + off) = physical s (b + off)"
  using assms by (simp add: load_cr3_def in_user_page_def)

text \<open>A store through the user page writes the physical frame shown and nothing else.\<close>

lemma physical_store:
  assumes "tlb_user s = Some b" and "off < FOURMB"
  shows "physical (s\<lparr>mem := (mem s)((Global, USR_LOW_BOUND + off) := c)\<rparr>) = (physical s)(b + off := c)"
  using assms by (auto simp: physical_def fun_eq_iff)

lemma user_page_frame:
  "user_frame (user_page_addr pid OR FOURMB_USER_PAGE) = Some (user_page_addr pid)"
  "bit (user_page_addr pid OR FOURMB_USER_PAGE) 2" "bit (user_page_addr pid OR FOURMB_USER_PAGE) 0" "bit (user_page_addr pid OR FOURMB_USER_PAGE) 7"
  "push_bit 22 (drop_bit 22 (user_page_addr pid)) = user_page_addr pid"
proof -
  have "user_page_addr pid = push_bit 22 (pid + 1)" by (simp add: user_page_addr_def push_bit_eq_mult algebra_simps)
  then have z: "take_bit 22 (user_page_addr pid) = 0" by (simp add: take_bit_push_bit)
  note f = flag_bits [OF z, of "FOURMB_USER_PAGE"]
  show b: "bit (user_page_addr pid OR FOURMB_USER_PAGE) 2" "bit (user_page_addr pid OR FOURMB_USER_PAGE) 0" "bit (user_page_addr pid OR FOURMB_USER_PAGE) 7"
    using f(2) [of 2] f(2) [of 0] f(2) [of 7] by simp_all
  show "user_frame (user_page_addr pid OR FOURMB_USER_PAGE) = Some (user_page_addr pid)"
    unfolding user_frame_def using b f(1) by simp
  show "push_bit 22 (drop_bit 22 (user_page_addr pid)) = user_page_addr pid" using f(1) by simp
qed

lemma user_page_addr_unat: "1 \<le> unat pid \<Longrightarrow> unat pid \<le> 7 \<Longrightarrow> unat (user_page_addr pid) = (unat pid + 1) * 4194304"
proof -
  assume p: "1 \<le> unat pid" "unat pid \<le> 7"
  have "user_page_addr pid = of_nat ((unat pid + 1) * 4194304)" by (simp add: user_page_addr_def algebra_simps)
  moreover have "(unat pid + 1) * 4194304 < 2 ^ 32" using p by simp
  ultimately show ?thesis by (simp only: unat_of_nat) simp
qed

text \<open>Frames of different processes have no byte in common.\<close>

lemma user_pages_disjoint:
  assumes "1 \<le> unat p" "unat p \<le> 7" "1 \<le> unat q" "unat q \<le> 7" "p \<noteq> q" "i < FOURMB" "j < FOURMB"
  shows "user_page_addr p + i \<noteq> user_page_addr q + j"
proof
  assume eq: "user_page_addr p + i = user_page_addr q + j"
  have b: "unat (user_page_addr r + k) div 4194304 = unat r + 1" if "1 \<le> unat r" "unat r \<le> 7" "k < FOURMB" for r k
  proof -
    have k: "unat k < 4194304" using that(3) by (simp add: word_less_nat_alt)
    have "unat (user_page_addr r + k) = (unat r + 1) * 4194304 + unat k"
      using user_page_addr_unat [OF that(1,2)] k that(2) by (subst unat_plus_small) simp_all
    then show ?thesis using k by simp
  qed
  have "unat p + 1 = unat q + 1" using b [OF assms(1,2,6)] b [OF assms(3,4,7)] eq by simp
  then show False using assms(5) by (simp add: word_unat_eq_iff)
qed

lemma map_user_page_result:
  "tables_ok s \<Longrightarrow> map_user_page pid s = Some (load_cr3 (cr3 s) (s\<lparr>pageDir := (pageDir s)[32 := user_page_addr pid OR FOURMB_USER_PAGE]\<rparr>))"
  by (simp add: map_user_page_def page_allocate_def tables_ok_def flush_TLB_def)

lemma map_user_page_effect:
  assumes "tables_ok s" and "map_user_page pid s = Some s'"
  shows "tables_ok s'" "physical s' = physical s" "tlb_user s' = Some (user_page_addr pid)"
    "\<And>off. off < FOURMB \<Longrightarrow> mem s' (Global, USR_LOW_BOUND + off) = physical s (user_page_addr pid + off)"
    "\<And>r. \<not> in_user_page r \<Longrightarrow> mem s' r = mem s r"
    "pageDir s' = (pageDir s)[32 := user_page_addr pid OR FOURMB_USER_PAGE]"
proof -
  let ?t = "s\<lparr>pageDir := (pageDir s)[32 := user_page_addr pid OR FOURMB_USER_PAGE]\<rparr>"
  have s': "s' = load_cr3 (cr3 s) ?t" using map_user_page_result [OF assms(1), of pid] assms(2) by simp
  have f: "user_frame (pageDir ?t ! 32) = Some (user_page_addr pid)" using assms(1) by (simp add: tables_ok_def user_page_frame(1))
  have p: "physical ?t = physical s" by (simp add: physical_def fun_eq_iff split: option.splits)
  show "tables_ok s'" "tlb_user s' = Some (user_page_addr pid)" "pageDir s' = (pageDir s)[32 := user_page_addr pid OR FOURMB_USER_PAGE]"
    using assms(1) f unfolding s' by (simp_all add: load_cr3_def tables_ok_def)
  show "physical s' = physical s" unfolding s' physical_load_cr3 p ..
  show "mem s' (Global, USR_LOW_BOUND + off) = physical s (user_page_addr pid + off)" if "off < FOURMB" for off
    unfolding s' load_cr3_shows [OF f that] p ..
  show "mem s' r = mem s r" if "\<not> in_user_page r" for r unfolding s' load_cr3_mem [OF that] by simp
qed

lemma paging_fields_more:
  assumes "screen_state.more s' = screen_state.more s"
  shows "pageDir s' = pageDir s" "pageTable s' = pageTable s" "pageTableUserVideo s' = pageTableUserVideo s" "pageFaultAddr s' = pageFaultAddr s"
    "cr0 s' = cr0 s" "cr3 s' = cr3 s" "cr4 s' = cr4 s" "frames s' = frames s" "tlb_user s' = tlb_user s"
    "fs_state.more s' = fs_state.more s" "bootblock_ptr s' = bootblock_ptr s" "inode_start_addr s' = inode_start_addr s"
    "data_start_addr s' = data_start_addr s"
  using assms by (cases s; cases s'; simp)+

section \<open>Correctness of paging\<close>


definition demo_layout :: layout where
  "demo_layout = \<lparr>pageDir_addr = 0x410000, pageTable_addr = 0x411000, pageTableUserVideo_addr = 0x412000\<rparr>"

definition paging_demo :: paging_state where
  "paging_demo = fs_state.extend fs_demo
     (paging_state.fields (replicate 1024 0) (replicate 1024 0) (replicate 1024 0) 0 0 0 0 0 (\<lambda>_. 0) None)"

lemma paging_demo_ok: "tables_ok paging_demo" "scr_ok paging_demo" "layout_ok demo_layout"
  by (simp_all add: paging_demo_def fs_demo_def filesystem_init_def kbd_state.defs kbd_boot_def rtc_boot_def boot_screen_def rtc_state.defs
      screen_state.defs fs_state.defs paging_state.defs tables_ok_def scr_ok_def Let_def layout_ok_def demo_layout_def)


text \<open>
  C16: isolation of the processes' memory. Whatever the process with number \<open>p\<close> stores through its
  user page, the page of another process \<open>q\<close> shows what it would have shown otherwise, and when
  \<open>p\<close> is shown again it finds its memory as it left it; no memory outside the user page changes.
\<close>

theorem user_pages_isolated:
  assumes "tables_ok s" and "1 \<le> unat p" "unat p \<le> 7" and "1 \<le> unat q" "unat q \<le> 7" and "p \<noteq> q" and "off < FOURMB"
  shows "\<exists>sp sq sq0 sp'. map_user_page p s = Some sp
    \<and> map_user_page q (sp\<lparr>mem := (mem sp)((Global, USR_LOW_BOUND + off) := c)\<rparr>) = Some sq
    \<and> map_user_page q sp = Some sq0 \<and> map_user_page p sq = Some sp'
    \<and> mem sq = mem sq0
    \<and> (\<forall>r. mem sp' r = (if r = (Global, USR_LOW_BOUND + off) then c else if in_user_page r then mem sp r else mem s r))"
proof -
  let ?a = "(Global, USR_LOW_BOUND + off) :: ptr"
  obtain sp where sp: "map_user_page p s = Some sp" using map_user_page_result [OF assms(1)] by simp
  note e1 = map_user_page_effect [OF assms(1) sp]
  define t where "t = sp\<lparr>mem := (mem sp)(?a := c)\<rparr>"
  have tt: "tables_ok t" using e1(1) by (simp add: t_def tables_ok_def)
  have pt: "physical t = (physical s)(user_page_addr p + off := c)"
    unfolding t_def physical_store [OF e1(3) assms(7)] e1(2) ..
  obtain sq where sq: "map_user_page q t = Some sq" using map_user_page_result [OF tt] by simp
  obtain sq0 where sq0: "map_user_page q sp = Some sq0" using map_user_page_result [OF e1(1)] by simp
  note e2 = map_user_page_effect [OF tt sq] and e3 = map_user_page_effect [OF e1(1) sq0]
  obtain sp' where sp': "map_user_page p sq = Some sp'" using map_user_page_result [OF e2(1)] by simp
  note e4 = map_user_page_effect [OF e2(1) sp']
  have ina: "in_user_page ?a" using assms(7) by (simp add: in_user_page_def)
  have user: "\<exists>k < FOURMB. r = (Global, USR_LOW_BOUND + k)" if "in_user_page r" for r
    using that by (intro exI [of _ "snd r - USR_LOW_BOUND"]) (auto simp: in_user_page_def prod_eq_iff)
  have "mem sq r = mem sq0 r" for r
  proof (cases "in_user_page r")
    case True
    then obtain k where k: "k < FOURMB" "r = (Global, USR_LOW_BOUND + k)" using user by blast
    have "user_page_addr q + k \<noteq> user_page_addr p + off" using user_pages_disjoint [of q p k off] assms k(1) by blast
    then show ?thesis unfolding k(2) e2(4) [OF k(1)] e3(4) [OF k(1)] pt e1(2) by simp
  next
    case False
    then have "r \<noteq> ?a" using ina by blast
    then show ?thesis unfolding e2(5) [OF False] e3(5) [OF False] by (simp add: t_def)
  qed
  moreover have "mem sp' r = (if r = ?a then c else if in_user_page r then mem sp r else mem s r)" for r
  proof (cases "in_user_page r")
    case True
    then obtain k where k: "k < FOURMB" "r = (Global, USR_LOW_BOUND + k)" using user by blast
    show ?thesis unfolding k(2) e4(4) [OF k(1)] e2(2) pt using e1(4) [OF k(1)] True by (simp add: k(2))
  next
    case False
    then have "r \<noteq> ?a" using ina by blast
    then show ?thesis unfolding e4(5) [OF False] e2(5) [OF False] using e1(5) [OF False] False by (simp add: t_def)
  qed
  ultimately show ?thesis using sp sq sq0 sp' unfolding t_def by blast
qed

theorem user_pages_isolated_witness:
  "\<exists>sp sq. map_user_page 1 paging_demo = Some sp
    \<and> map_user_page 2 (sp\<lparr>mem := (mem sp)((Global, 0x08000010) := 7)\<rparr>) = Some sq"
  using user_pages_isolated [OF paging_demo_ok(1), of 1 2 "0x10" 7] by auto

end
