(* ===== verification/System_Calls.thy ===== *)
theory System_Calls
  imports Paging
begin

text \<open>
  The system calls on files of \<open>student-distrib/system_calls.c\<close>, with \<open>read_fs\<close> and \<open>read_fs_dir\<close> of
  \<open>filesystem.c\<close>: file descriptors, process control blocks, the operation tables, \<open>open\<close>,
  \<open>close\<close>, \<open>read\<close>, \<open>write\<close>, \<open>getargs\<close>, \<open>vidmap\<close> and the two calls that are not implemented.
  Process control blocks live in a heap of their own, indexed by the address the code computes for
  them; 32-bit fields that the code only stores, adds to and passes on are words. \<open>esp\<close> and
  \<open>ebp\<close> are the kernel stack registers of the running process.
\<close>

datatype fops = rtc_jumptable | filesystem_dir_jumptable | filesystem_reg_jumptable | keyboard_jumptable | terminal_jumptable

record file_descriptor =
  fd_jumptable :: "fops option"
  inode_indx :: u32
  file_position :: u32
  flags :: int

record PCB =
  pid :: u32
  processState :: u32
  terminal_id :: u32
  sesp :: u32
  sebp :: u32
  kernelStack :: u32
  kernelSS :: u32
  kesp :: u32
  kebp :: u32
  n_arg :: u32
  args :: "u8 list"
  fileArray :: "file_descriptor list"
  parent_addr :: u32

record proc_state = paging_state +
  pcbs :: "u32 \<Rightarrow> PCB"
  total_tasks :: u32
  pid_bitpattern :: "u32 list"
  current_task :: u32
  terminal_current_pid :: "u32 list"
  priority_list_pid :: "int list"
  current_schedule :: int
  schedule_started :: int
  exception_halt :: int
  esp :: u32
  ebp :: u32
  tss_ss0 :: u32
  tss_esp0 :: u32
  newPCB_var :: PCB

text \<open>The initial values of the counters of \<open>system_calls.c\<close>: \<open>total_tasks\<close> starts at 1, so it
  is always one more than the number of processes.\<close>

definition total_tasks_init :: u32 where
  "total_tasks_init = 1"

definition pid_bitpattern_init :: "u32 list" where
  "pid_bitpattern_init = [0, 0, 0, 0, 0, 0, 0]"

abbreviation MAX_FD :: int where "MAX_FD \<equiv> 8"
abbreviation MIN_FD :: int where "MIN_FD \<equiv> 2"
abbreviation EIGHTKB :: u32 where "EIGHTKB \<equiv> 0x00002000"
abbreviation NOT_IN_USE :: int where "NOT_IN_USE \<equiv> 0"
abbreviation IN_USE :: int where "IN_USE \<equiv> 1"

definition fop_tables :: "fops list" where
  "fop_tables = [rtc_jumptable, filesystem_dir_jumptable, filesystem_reg_jumptable, keyboard_jumptable, terminal_jumptable]"

section \<open>Process control blocks and descriptors\<close>

definition current_PCB :: "'a proc_state_scheme \<Rightarrow> u32" where
  "current_PCB s = esp s AND 0xFFFFE000"

text \<open>\<open>current->fileArray[fd]\<close>, read and assigned; outside the array neither is defined.\<close>

definition get_fd :: "int \<Rightarrow> 'a proc_state_scheme \<Rightarrow> file_descriptor option" where
  "get_fd fd s = (if fd < 0 then None else arr_get (fileArray (pcbs s (current_PCB s))) (nat fd))"

definition set_fd :: "int \<Rightarrow> file_descriptor \<Rightarrow> 'a proc_state_scheme \<Rightarrow> 'a proc_state_scheme option" where
  "set_fd fd d s =
     (if fd < 0 then None
      else do {
        let p = current_PCB s;
        fa \<leftarrow> arr_set (fileArray (pcbs s p)) (nat fd) d;
        Some (s\<lparr>pcbs := (pcbs s)(p := (pcbs s p)\<lparr>fileArray := fa\<rparr>)\<rparr>) })"

section \<open>Reading files and directories\<close>

text \<open>The search of \<open>read_fs\<close> for a directory entry with the descriptor's inode; its condition
  is the number of entries alone.\<close>

partial_function (option) find_by_inode :: "u32 \<Rightarrow> ptr \<Rightarrow> u32 \<Rightarrow> 'a fs_state_scheme \<Rightarrow> ('a fs_state_scheme \<times> u32) option" where
  "find_by_inode idx file i s =
     (if num_dir (mem s) (bootblock_ptr s) \<noteq> 0
      then let s = fst (read_dentry_by_index i file s)
           in if idx_inode (mem s) file = idx then Some (s, i) else find_by_inode idx file (i + 1) s
      else Some (s, i))"

definition read_fs_dir :: "int \<Rightarrow> ptr \<Rightarrow> int \<Rightarrow> 'a proc_state_scheme \<Rightarrow> ('a proc_state_scheme \<times> int) option" where
  "read_fs_dir fd buf nbytes s = do {
     let file = (Local 12, 0);
     d \<leftarrow> get_fd fd s;
     let pos = file_position d;
     s \<leftarrow> set_fd fd (d\<lparr>file_position := pos + 1\<rparr>) s;
     let (s, r) = read_dentry_by_index pos file s;
     if r = 0 then Some (s\<lparr>mem := strncpy (mem s) buf file (word_of_int nbytes)\<rparr>, nbytes) else Some (s, 0) }"

definition read_fs :: "int \<Rightarrow> ptr \<Rightarrow> int \<Rightarrow> 'a proc_state_scheme \<Rightarrow> ('a proc_state_scheme \<times> int) option" where
  "read_fs fd buf nbytes s = do {
     let file = (Local 11, 0);
     d \<leftarrow> get_fd fd s;
     let idx = inode_indx d;
     (s, i) \<leftarrow> find_by_inode idx file 0 s;
     if i = num_dir (mem s) (bootblock_ptr s) then Some (s, -1)
     else do {
       d \<leftarrow> get_fd fd s;
       (s, read_bytes) \<leftarrow>
         (if filetype (mem s) file = 2 then read_data idx (file_position d) buf (word_of_int nbytes) s
          else if filetype (mem s) file = 1 then read_fs_dir fd buf nbytes s
          else None);
       d \<leftarrow> get_fd fd s;
       s \<leftarrow> set_fd fd (d\<lparr>file_position := file_position d + word_of_int read_bytes\<rparr>) s;
       Some (s, read_bytes) } }"

section \<open>The operation tables\<close>

definition fops_open :: "device \<Rightarrow> fops \<Rightarrow> ptr \<Rightarrow> 'a proc_state_scheme \<Rightarrow> ('a proc_state_scheme \<times> int) option" where
  "fops_open dev t filename s = (case t of
       rtc_jumptable \<Rightarrow> Some (rtc_open dev filename s)
     | filesystem_dir_jumptable \<Rightarrow> Some (open_fs filename s)
     | filesystem_reg_jumptable \<Rightarrow> Some (open_fs filename s)
     | keyboard_jumptable \<Rightarrow> Some (keyboard_open filename s)
     | terminal_jumptable \<Rightarrow> terminal_open filename s)"

text \<open>The reads that wait take the interrupts that arrive and give back those left.\<close>

definition fops_read ::
  "('a proc_state_scheme \<Rightarrow> 'a proc_state_scheme option) list \<Rightarrow> fops \<Rightarrow> int \<Rightarrow> ptr \<Rightarrow> int \<Rightarrow> 'a proc_state_scheme
   \<Rightarrow> ('a proc_state_scheme \<times> int \<times> ('a proc_state_scheme \<Rightarrow> 'a proc_state_scheme option) list) option"
where
  "fops_read irqs t fd buf nbytes s = (case t of
       rtc_jumptable \<Rightarrow> rtc_read irqs fd buf nbytes s
     | filesystem_dir_jumptable \<Rightarrow> map_option (\<lambda>(s, r). (s, r, irqs)) (read_fs_dir fd buf nbytes s)
     | filesystem_reg_jumptable \<Rightarrow> map_option (\<lambda>(s, r). (s, r, irqs)) (read_fs fd buf nbytes s)
     | keyboard_jumptable \<Rightarrow> keyboard_read irqs fd buf nbytes s
     | terminal_jumptable \<Rightarrow> (let (s, r) = terminal_read fd buf nbytes s in Some (s, r, irqs)))"

definition fops_write :: "device \<Rightarrow> fops \<Rightarrow> int \<Rightarrow> ptr \<Rightarrow> int \<Rightarrow> 'a proc_state_scheme \<Rightarrow> ('a proc_state_scheme \<times> int) option" where
  "fops_write dev t fd buf nbytes s = (case t of
       rtc_jumptable \<Rightarrow> Some (rtc_write dev fd buf nbytes s)
     | filesystem_dir_jumptable \<Rightarrow> write_fs fd buf nbytes s
     | filesystem_reg_jumptable \<Rightarrow> write_fs fd buf nbytes s
     | keyboard_jumptable \<Rightarrow> Some (keyboard_write fd buf nbytes s)
     | terminal_jumptable \<Rightarrow> terminal_write fd buf nbytes s)"

section \<open>The system calls\<close>

definition sys_read ::
  "('a proc_state_scheme \<Rightarrow> 'a proc_state_scheme option) list \<Rightarrow> int \<Rightarrow> ptr \<Rightarrow> int \<Rightarrow> 'a proc_state_scheme
   \<Rightarrow> ('a proc_state_scheme \<times> int \<times> ('a proc_state_scheme \<Rightarrow> 'a proc_state_scheme option) list) option"
where
  "sys_read irqs fd buf nbytes s =
     (if fd \<ge> MAX_FD \<or> fd < 0 then Some (s, -1, irqs)
      else if fd = 1 then Some (s, -1, irqs)
      else do {
        d \<leftarrow> get_fd fd s;
        if flags d = 0 then Some (s, -1, irqs)
        else if buf = NULL then Some (s, -1, irqs)
        else do { t \<leftarrow> fd_jumptable d; fops_read irqs t fd buf nbytes s } })"

definition sys_write :: "device \<Rightarrow> int \<Rightarrow> ptr \<Rightarrow> int \<Rightarrow> 'a proc_state_scheme \<Rightarrow> ('a proc_state_scheme \<times> int) option" where
  "sys_write dev fd buf nbytes s =
     (if fd \<ge> MAX_FD \<or> fd < 0 then Some (s, -1)
      else if fd = 0 then Some (s, -1)
      else do {
        d \<leftarrow> get_fd fd s;
        if flags d = 0 then Some (s, -1)
        else if buf = NULL then Some (s, -1)
        else do { t \<leftarrow> fd_jumptable d; fops_write dev t fd buf nbytes s } })"

text \<open>The search of \<open>open\<close> for a descriptor that is not in use.\<close>

function free_fd :: "'a proc_state_scheme \<Rightarrow> int \<Rightarrow> int option" where
  "free_fd s fd =
     (if fd < MAX_FD
      then do { d \<leftarrow> get_fd fd s; if flags d = 0 then Some fd else free_fd s (fd + 1) }
      else Some fd)"
  by pat_completeness auto
termination by (relation "measure (\<lambda>(s, fd). nat (MAX_FD - fd))") auto

definition sys_open :: "device \<Rightarrow> ptr \<Rightarrow> 'a proc_state_scheme \<Rightarrow> ('a proc_state_scheme \<times> int) option" where
  "sys_open dev filename s = do {
     len \<leftarrow> strlen (mem s) filename;
     if filename = NULL then Some (s, -1)
     else do {
       let s = s\<lparr>mem := put_bytes (mem s) (Local 2, 0) [0]\<rparr>;
       if strncmp (mem s) filename (Local 2, 0) len = 0 then Some (s, -1)
       else do {
         let file_dentry = (Local 13, 0);
         (s, r) \<leftarrow> read_dentry_by_name filename file_dentry s;
         if r \<noteq> 0 then Some (s, -1)
         else do {
           fd \<leftarrow> free_fd s MIN_FD;
           if fd = MAX_FD then Some (s, -1)
           else do {
             t \<leftarrow> arr_get fop_tables (unat (filetype (mem s) file_dentry));
             s \<leftarrow> set_fd fd \<lparr>fd_jumptable = Some t,
                 inode_indx = (if filetype (mem s) file_dentry = 2 then idx_inode (mem s) file_dentry else 0),
                 file_position = 0, flags = IN_USE\<rparr> s;
             (s, _) \<leftarrow> fops_open dev t filename s;
             Some (s, fd) } } } } }"

definition sys_close :: "int \<Rightarrow> 'a proc_state_scheme \<Rightarrow> ('a proc_state_scheme \<times> int) option" where
  "sys_close fd s =
     (if fd \<ge> MAX_FD \<or> fd < MIN_FD then Some (s, -1)
      else do {
        d \<leftarrow> get_fd fd s;
        if flags d = 0 then Some (s, -1)
        else do {
          s \<leftarrow> set_fd fd \<lparr>fd_jumptable = None, inode_indx = 0, file_position = 0, flags = NOT_IN_USE\<rparr> s;
          Some (s, 0) } })"

text \<open>The loop of \<open>getargs\<close> never finds \<open>scan\<close> null; it may not read past the array.\<close>

definition getargs :: "ptr \<Rightarrow> int \<Rightarrow> 'a proc_state_scheme \<Rightarrow> ('a proc_state_scheme \<times> int) option" where
  "getargs buf nbytes s =
     (if buf = NULL then Some (s, -1)
      else do {
        let a = args (pcbs s (current_PCB s));
        c \<leftarrow> arr_get a 0;
        if c = 0 then Some (s, -1)
        else do {
          m \<leftarrow> foldo (\<lambda>i m. do { c \<leftarrow> arr_get a i; Some (m(padd buf (of_nat i) := c)) }) [0..<nat nbytes] (mem s);
          Some (s\<lparr>mem := m\<rparr>, 0) } })"

definition vidmap :: "u32 \<Rightarrow> 'a proc_state_scheme \<Rightarrow> ('a proc_state_scheme \<times> int) option" where
  "vidmap screen_start s =
     (if (Global, screen_start) = NULL then Some (s, -1)
      else let lowerBound = USR_LOW_BOUND; upperBound = USR_LOW_BOUND + FOURMB
      in if screen_start < lowerBound \<or> screen_start > upperBound then Some (s, -1)
      else do {
        tab \<leftarrow> arr_set (pageTableUserVideo s) 0 (VIDMEMADDR OR 0x07);
        let s = s\<lparr>pageTableUserVideo := tab\<rparr>;
        s \<leftarrow> clear (pcb_terminal s) s;
        let s = flush_TLB s;
        Some (s\<lparr>mem := st32 (mem s) (Global, screen_start) USRVIDMAPADDR\<rparr>, 0) })"

definition set_handler :: "int \<Rightarrow> ptr \<Rightarrow> 's \<Rightarrow> 's \<times> int" where
  "set_handler signum arg s = (s, -1)"

definition sigreturn :: "'s \<Rightarrow> 's \<times> int" where
  "sigreturn s = (s, -1)"

declare free_fd.simps [simp del]

section \<open>Tables of slots\<close>

text \<open>
  Descriptors and process numbers are both handed out from a table, the lowest free slot first.
\<close>

locale slot_table =
  fixes ok :: "'t \<Rightarrow> bool" and lo hi :: nat and free :: "'t \<Rightarrow> nat \<Rightarrow> bool"
    and occupy :: "nat \<Rightarrow> 't \<Rightarrow> 't" and vacate :: "nat \<Rightarrow> 't \<Rightarrow> 't"
  assumes occupy_ok: "ok t \<Longrightarrow> i < hi \<Longrightarrow> ok (occupy i t)" and vacate_ok: "ok t \<Longrightarrow> i < hi \<Longrightarrow> ok (vacate i t)"
    and free_occupy: "ok t \<Longrightarrow> i < hi \<Longrightarrow> j < hi \<Longrightarrow> free (occupy i t) j \<longleftrightarrow> free t j \<and> j \<noteq> i"
    and free_vacate: "ok t \<Longrightarrow> i < hi \<Longrightarrow> j < hi \<Longrightarrow> free (vacate i t) j \<longleftrightarrow> free t j \<or> j = i"
begin

definition first_free :: "'t \<Rightarrow> nat option" where
  "first_free t = find (free t) [lo..<hi]"

definition used :: "'t \<Rightarrow> nat" where
  "used t = card {i \<in> {lo..<hi}. \<not> free t i}"

lemma first_free_None: "first_free t = None \<longleftrightarrow> (\<forall>i. lo \<le> i \<and> i < hi \<longrightarrow> \<not> free t i)"
  by (auto simp: first_free_def find_None_iff)

lemma first_free_Some:
  "first_free t = Some i \<longleftrightarrow> lo \<le> i \<and> i < hi \<and> free t i \<and> (\<forall>j. lo \<le> j \<and> j < i \<longrightarrow> \<not> free t j)"
proof
  assume "first_free t = Some i"
  then obtain k where k: "k < hi - lo" "free t ([lo..<hi] ! k)" "i = [lo..<hi] ! k" "\<forall>j < k. \<not> free t ([lo..<hi] ! j)"
    unfolding first_free_def find_Some_iff length_upt by blast
  then have i: "i = lo + k" "lo + k < hi" by simp_all
  have "\<not> free t j" if "lo \<le> j" "j < i" for j
    using spec [OF k(4), of "j - lo"] that i by simp
  then show "lo \<le> i \<and> i < hi \<and> free t i \<and> (\<forall>j. lo \<le> j \<and> j < i \<longrightarrow> \<not> free t j)" using k(2,3) i by simp
next
  assume a: "lo \<le> i \<and> i < hi \<and> free t i \<and> (\<forall>j. lo \<le> j \<and> j < i \<longrightarrow> \<not> free t j)"
  then have "i - lo < length [lo..<hi]" "[lo..<hi] ! (i - lo) = i" by (simp_all add: diff_less_mono)
  moreover have "\<not> free t ([lo..<hi] ! j)" if "j < i - lo" for j
  proof -
    have "lo + j < i" using that by simp
    moreover from this have "[lo..<hi] ! j = lo + j" using a by (intro nth_upt) simp
    ultimately show ?thesis using a by simp
  qed
  ultimately show "first_free t = Some i"
    unfolding first_free_def find_Some_iff using a by (intro exI [of _ "i - lo"]) simp
qed

lemma used_occupy:
  assumes "ok t" and "first_free t = Some i"
  shows "used (occupy i t) = Suc (used t)"
proof -
  have i: "lo \<le> i" "i < hi" "free t i" using assms(2) first_free_Some by blast+
  then have "{j \<in> {lo..<hi}. \<not> free (occupy i t) j} = insert i {j \<in> {lo..<hi}. \<not> free t j}"
    using free_occupy [OF assms(1) i(2)] by auto
  then show ?thesis using i(3) by (simp add: used_def)
qed

lemma first_free_iff: "(\<exists>i. first_free t = Some i) \<longleftrightarrow> used t < hi - lo"
proof
  assume "\<exists>i. first_free t = Some i"
  then obtain i where "lo \<le> i" "i < hi" "free t i" using first_free_Some by blast
  then have "i \<in> {lo..<hi}" "i \<notin> {j \<in> {lo..<hi}. \<not> free t j}" by simp_all
  then have "{j \<in> {lo..<hi}. \<not> free t j} \<subset> {lo..<hi}" by blast
  from psubset_card_mono [OF _ this] show "used t < hi - lo" by (simp add: used_def)
next
  assume u: "used t < hi - lo"
  show "\<exists>i. first_free t = Some i"
  proof (rule ccontr)
    assume "\<not> ?thesis"
    then have "first_free t = None" by simp
    then have "\<not> free t j" if "j \<in> {lo..<hi}" for j using first_free_None [of t] that by simp
    then have "{j \<in> {lo..<hi}. \<not> free t j} = {lo..<hi}" by blast
    then show False using u by (simp add: used_def)
  qed
qed

lemma vacate_reuse:
  assumes "ok t" and "first_free t = Some i"
  shows "first_free (vacate i (occupy i t)) = Some i"
proof -
  have i: "lo \<le> i" "i < hi" "free t i" "\<And>j. lo \<le> j \<Longrightarrow> j < i \<Longrightarrow> \<not> free t j" using assms(2) first_free_Some by blast+
  have "free (vacate i (occupy i t)) j \<longleftrightarrow> free t j" if "j < hi" for j
    using free_vacate [OF occupy_ok [OF assms(1) i(2)] i(2) that] free_occupy [OF assms(1) i(2) that] i(3) by auto
  then show ?thesis using i unfolding first_free_Some by auto
qed

end

definition closed_fd :: file_descriptor where
  "closed_fd = \<lparr>fd_jumptable = None, inode_indx = 0, file_position = 0, flags = NOT_IN_USE\<rparr>"

definition opened_fd :: "fops \<Rightarrow> u32 \<Rightarrow> file_descriptor" where
  "opened_fd t i = \<lparr>fd_jumptable = Some t, inode_indx = i, file_position = 0, flags = IN_USE\<rparr>"

interpretation fds: slot_table "\<lambda>fa. length fa = 8" 2 8 "\<lambda>fa i. flags (fa ! i) = 0" "\<lambda>i fa. fa[i := opened_fd t n]" "\<lambda>i fa. fa[i := closed_fd]"
  for t :: fops and n :: u32
  by unfold_locales (auto simp: nth_list_update opened_fd_def closed_fd_def)

section \<open>Lemmas: descriptors\<close>

text \<open>
  The invariant of a process control block: array sizes, and a table for every descriptor in use.
\<close>

definition pcb_ok :: "PCB \<Rightarrow> bool" where
  "pcb_ok p \<longleftrightarrow> length (args p) = 128 \<and> length (fileArray p) = 8
     \<and> (\<forall>d \<in> set (fileArray p). flags d \<noteq> 0 \<longrightarrow> fd_jumptable d \<noteq> None)"

abbreviation cur_files :: "'a proc_state_scheme \<Rightarrow> file_descriptor list" where
  "cur_files s \<equiv> fileArray (pcbs s (current_PCB s))"

definition with_files :: "file_descriptor list \<Rightarrow> 'a proc_state_scheme \<Rightarrow> 'a proc_state_scheme" where
  "with_files fa s = s\<lparr>pcbs := (pcbs s)(current_PCB s := (pcbs s (current_PCB s))\<lparr>fileArray := fa\<rparr>)\<rparr>"

lemma get_fd_nth: "0 \<le> fd \<Longrightarrow> nat fd < length (cur_files s) \<Longrightarrow> get_fd fd s = Some (cur_files s ! nat fd)"
  by (simp add: get_fd_def)

lemma set_fd_nth: "0 \<le> fd \<Longrightarrow> nat fd < length (cur_files s) \<Longrightarrow> set_fd fd d s = Some (with_files ((cur_files s)[nat fd := d]) s)"
  by (simp add: set_fd_def with_files_def Let_def)

lemma with_files_simps [simp]:
  "current_PCB (with_files fa s) = current_PCB s" "cur_files (with_files fa s) = fa" "mem (with_files fa s) = mem s"
  "bootblock_ptr (with_files fa s) = bootblock_ptr s" "with_files fa (with_files fb s) = with_files fa s"
  "args (pcbs (with_files fa s) p) = args (pcbs s p)" "with_files (cur_files s) s = s"
  "fs_ready (with_files fa s) = fs_ready s" "current_PCB (s\<lparr>mem := m\<rparr>) = current_PCB s"
  by (simp_all add: with_files_def current_PCB_def fs_ready_def)

lemma with_files_other: "p \<noteq> current_PCB s \<Longrightarrow> pcbs (with_files fa s) p = pcbs s p"
  by (simp add: with_files_def)

lemma free_fd_find:
  assumes "length (cur_files s) = 8"
  shows "k \<le> 8 \<Longrightarrow> free_fd s (int k) = Some (case find (\<lambda>i. flags (cur_files s ! i) = 0) [k..<8] of None \<Rightarrow> 8 | Some i \<Rightarrow> int i)"
proof (induction "8 - k" arbitrary: k)
  case 0
  then show ?case by (simp add: free_fd.simps)
next
  case (Suc d)
  then have k: "k < 8" by simp
  have "free_fd s (int (Suc k)) = Some (case find (\<lambda>i. flags (cur_files s ! i) = 0) [Suc k..<8] of None \<Rightarrow> 8 | Some i \<Rightarrow> int i)"
    using Suc by (intro Suc.hyps) simp_all
  then have IH: "free_fd s (int k + 1) = Some (case find (\<lambda>i. flags (cur_files s ! i) = 0) [Suc k..<8] of None \<Rightarrow> 8 | Some i \<Rightarrow> int i)"
    by (simp add: add.commute)
  have "get_fd (int k) s = Some (cur_files s ! k)" using k assms by (simp add: get_fd_nth)
  moreover have "[k..<8] = k # [Suc k..<8]" using k by (simp add: upt_conv_Cons)
  moreover have "int k < 8" using k by simp
  ultimately show ?case using IH by (subst free_fd.simps) simp
qed

lemma free_fd_first: "length (cur_files s) = 8 \<Longrightarrow> free_fd s MIN_FD = Some (case fds.first_free (cur_files s) of None \<Rightarrow> 8 | Some i \<Rightarrow> int i)"
  using free_fd_find [of s 2] by (simp add: fds.first_free_def)

lemma rtc_open_more:
  "pic_state.more (fst (rtc_open dev f s)) = pic_state.more s" "only_locals {1} (mem s) (mem (fst (rtc_open dev f s)))"
proof -
  have w: "pic_state.more (fst (rtc_write dev 0 p 4 t)) = pic_state.more t" "mem (fst (rtc_write dev 0 p 4 t)) = mem t" for p and t :: "'b pic_state_scheme"
    by (simp_all add: rtc_write_def Let_def split_beta outb_def inb_def split: option.splits)
  show "pic_state.more (fst (rtc_open dev f s)) = pic_state.more s"
    using w(1) [of default_frequency_var "s\<lparr>mem := st32 (mem s) default_frequency_var 2\<rparr>"]
    by (simp add: rtc_open_def Let_def split_beta)
  have "only_locals {1} (mem s) (st32 (mem s) default_frequency_var 2)"
    by (rule only_locals_st32) (simp add: default_frequency_var_def)
  then show "only_locals {1} (mem s) (mem (fst (rtc_open dev f s)))"
    using w(2) [of default_frequency_var "s\<lparr>mem := st32 (mem s) default_frequency_var 2\<rparr>"]
    by (simp add: rtc_open_def Let_def split_beta)
qed

lemma proc_fields_more:
  assumes "pic_state.more s' = pic_state.more s"
  shows "pcbs s' = pcbs s" "esp s' = esp s" "current_PCB s' = current_PCB s" "bootblock_ptr s' = bootblock_ptr s"
    "proc_state.more s' = proc_state.more s"
  using assms by (cases s; cases s'; simp add: current_PCB_def)+

lemma fops_open_effect:
  assumes "t \<in> {rtc_jumptable, filesystem_dir_jumptable, filesystem_reg_jumptable}"
  shows "\<exists>s' r. fops_open dev t filename s = Some (s', r) \<and> pic_state.more s' = pic_state.more s \<and> only_locals {1} (mem s) (mem s')"
  using assms rtc_open_more [where dev = dev and f = filename and s = s]
  by (cases "rtc_open dev filename s") (auto simp: fops_open_def open_fs_def)

lemma bytes_at_0: "bytes_at m p 0 = []"
  by (simp add: bytes_at_def)

lemma strncmp_empty: "strncmp (put_bytes m (Local 2, 0) [0]) p (Local 2, 0) n = 0 \<longleftrightarrow>
    n = 0 \<or> put_bytes m (Local 2, 0) [0] p = 0"
proof -
  let ?m = "put_bytes m (Local 2, 0) [0]"
  have z: "?m (Local 2, 0) = 0" by (simp add: put_bytes_def fill_region_1)
  have "upto_nul (bytes_at ?m (Local 2, 0) k) = []" for k by (cases k) (simp_all add: bytes_at_Suc z bytes_at_0)
  then have "strncmp ?m p (Local 2, 0) n = 0 \<longleftrightarrow> upto_nul (bytes_at ?m p (unat n)) = []"
    using strncmp_from_zero_iff [of 0 n ?m p "(Local 2, 0)"] by (simp add: strncmp_def)
  also have "\<dots> \<longleftrightarrow> n = 0 \<or> ?m p = 0"
    by (cases "unat n") (auto simp: bytes_at_Suc bytes_at_0 unat_eq_0)
  finally show ?thesis .
qed

text \<open>What \<open>open\<close> does on every branch, for file types that the file system documents.\<close>

lemma more_pcbs: "pic_state.more (s\<lparr>mem := m, pcbs := pcbs s\<rparr>) = pic_state.more (s :: 'a proc_state_scheme)" "pic_state.more (s\<lparr>pcbs := pcbs s\<rparr>) = pic_state.more s"
  by (cases s; simp)+

lemma sys_open_result:
  assumes "fs_ready s" and "cstr (mem s) filename name" and "filename \<noteq> NULL" and "fst filename \<notin> {Local 2, Local 13}"
    and "length (cur_files s) = 8" and "bb = bootblock_ptr s"
    and "\<And>k. name \<noteq> [] \<Longrightarrow> lookup_name (mem s) bb filename = Some k \<Longrightarrow> filetype (mem s) (dentry_at bb (of_nat k)) \<le> 2"
  shows "\<exists>s' r. sys_open dev filename s = Some (s', r) \<and> only_locals {1, 2, 13} (mem s) (mem s')
    \<and> (case (if name = [] then None else lookup_name (mem s) bb filename, fds.first_free (cur_files s)) of
        (Some k, Some fd) \<Rightarrow> let e = dentry_at bb (of_nat k) in r = int fd
          \<and> pcbs s' = pcbs (with_files ((cur_files s)[fd := opened_fd (fop_tables ! unat (filetype (mem s) e))
                       (if filetype (mem s) e = 2 then idx_inode (mem s) e else 0)]) s)
      | _ \<Rightarrow> r = -1 \<and> pcbs s' = pcbs s) \<and> esp s' = esp s \<and> pic_state.more s' = pic_state.more (s\<lparr>pcbs := pcbs s'\<rparr>)"
proof -
  let ?m = "put_bytes (mem s) (Local 2, 0) [0]"
  let ?s = "s\<lparr>mem := ?m\<rparr>"
  have o2: "only_locals {2} (mem s) ?m" by (rule only_locals_put) simp
  have len: "strlen (mem s) filename = Some (of_nat (length name))" by (rule strlen_cstr [OF assms(2)])
  have lt: "length name < 2 ^ 32" using assms(2) by (simp add: cstr_def)
  have c: "cstr ?m filename name" using only_locals_views(3) [OF o2, of filename] assms(2,4) by auto
  have "(of_nat (length name) :: u32) = 0 \<longleftrightarrow> name = []"
  proof -
    have "unat (of_nat (length name) :: u32) = length name" using lt by (simp add: unat_of_nat)
    then have "unat (of_nat (length name) :: u32) = 0 \<longleftrightarrow> name = []" by (simp only: length_0_conv)
    then show ?thesis by (simp only: unat_eq_0)
  qed
  moreover have "?m filename = 0 \<Longrightarrow> name = []" using cstr_nth(2) [OF c, of 0] by auto
  ultimately have empty: "strncmp ?m filename (Local 2, 0) (of_nat (length name)) = 0 \<longleftrightarrow> name = []"
    unfolding strncmp_empty by blast
  have ready: "fs_ready ?s" by (rule only_locals_ready [OF o2 assms(1)])
  have l2: "lookup_name ?m bb filename = lookup_name (mem s) bb filename" using lookup_name_locals [OF o2, of filename] assms(4) by auto
  note rd = read_dentry_by_name_result [OF ready, of filename name "(Local 13, 0)"]
  show ?thesis
  proof (cases "name = [] \<or> lookup_name (mem s) bb filename = None")
    case True
    have o: "only_locals {1, 2, 13} (mem s) ?m" by (rule only_locals_mono [OF o2]) simp
    show ?thesis
      using True rd c len empty assms(3,6) l2 o by (auto simp: sys_open_def Let_def more_pcbs)
  next
    case False
    then obtain k where k: "lookup_name (mem s) bb filename = Some k" and ne: "name \<noteq> []" by blast
    let ?e = "dentry_at bb (of_nat k)"
    let ?m3 = "fill_dentry (Local 13, 0) ?e ?m"
    let ?s3 = "s\<lparr>mem := ?m3\<rparr>"
    have "fst ?e \<noteq> Local 13" by (simp add: dentry_at_def)
    note f = fill_dentry_effect [OF refl this, where b = 0 and m = ?m]
    have t: "filetype ?m3 (Local 13, 0) = filetype (mem s) ?e" "idx_inode ?m3 (Local 13, 0) = idx_inode (mem s) ?e"
      unfolding f(1,2) using only_locals_fs(10,11) [OF o2] by simp_all
    have o3: "only_locals {2, 13} (mem s) ?m3" using only_locals_trans [OF o2 f(4)] by (simp add: insert_commute)
    have o3': "only_locals {1, 2, 13} (mem s) ?m3" by (rule only_locals_mono [OF o3]) simp
    have start: "sys_open dev filename s = do {
           fd \<leftarrow> free_fd ?s3 MIN_FD;
           if fd = MAX_FD then Some (?s3, -1)
           else do {
             t \<leftarrow> arr_get fop_tables (unat (filetype (mem s) ?e));
             s \<leftarrow> set_fd fd (opened_fd t (if filetype (mem s) ?e = 2 then idx_inode (mem s) ?e else 0)) ?s3;
             (s, _) \<leftarrow> fops_open dev t filename s;
             Some (s, fd) } }"
      using rd c len empty ne assms(3) assms(6) [symmetric] l2 k t
      by (simp add: sys_open_def Let_def opened_fd_def cong: Option.bind_cong if_cong)
    have files: "cur_files ?s3 = cur_files s" by (simp add: current_PCB_def)
    have fr: "free_fd ?s3 MIN_FD = Some (case fds.first_free (cur_files s) of None \<Rightarrow> 8 | Some i \<Rightarrow> int i)"
      using free_fd_first [of ?s3] assms(5) files by simp
    show ?thesis
    proof (cases "fds.first_free (cur_files s)")
      case None
      then show ?thesis using start fr k ne o3' by (simp add: more_pcbs)
    next
      case (Some fd)
      then have fd: "fd < 8" "2 \<le> fd" using fds.first_free_Some by blast+
      define ty where "ty = unat (filetype (mem s) ?e)"
      have ty: "ty \<le> 2" using assms(7) [OF ne k] by (simp add: ty_def word_le_nat_alt)
      then have "ty = 0 \<or> ty = 1 \<or> ty = 2" by linarith
      then have tab: "fop_tables ! ty \<in> {rtc_jumptable, filesystem_dir_jumptable, filesystem_reg_jumptable}" "arr_get fop_tables ty = Some (fop_tables ! ty)"
        by (auto simp: fop_tables_def)
      define d where "d = opened_fd (fop_tables ! ty) (if filetype (mem s) ?e = 2 then idx_inode (mem s) ?e else 0)"
      let ?s4 = "with_files ((cur_files s)[fd := d]) ?s3"
      have st: "set_fd (int fd) d ?s3 = Some ?s4" using fd assms(5) files by (subst set_fd_nth) simp_all
      obtain s5 r where s5: "fops_open dev (fop_tables ! ty) filename ?s4 = Some (s5, r)" "pic_state.more s5 = pic_state.more ?s4"
        "only_locals {1} ?m3 (mem s5)"
        using fops_open_effect [OF tab(1), of dev filename ?s4] by auto
      have "sys_open dev filename s = Some (s5, int fd)"
        using start fr Some fd tab(2) st s5(1) by (simp flip: ty_def d_def)
      moreover have "only_locals {1, 2, 13} (mem s) (mem s5)" using only_locals_trans [OF o3' s5(3)] by (simp add: insert_commute)
      moreover have "pic_state.more s5 = pic_state.more (s\<lparr>pcbs := pcbs s5\<rparr>)"
        using s5(2) proc_fields_more(1) [OF s5(2)] by (cases s; simp add: with_files_def current_PCB_def)
      ultimately show ?thesis
        using k ne Some proc_fields_more(1,2) [OF s5(2)]
        by (auto simp: Let_def d_def ty_def with_files_def current_PCB_def)
    qed
  qed
qed

section \<open>Lemmas: reading through a descriptor\<close>

lemma read_dentry_by_index_effect:
  assumes "fs_ready s" and "unat i < unat (num_dir (mem s) (bootblock_ptr s))" and "file = (Local j, b)" and "j \<noteq> 4"
  defines "e \<equiv> dentry_at (bootblock_ptr s) i"
  shows "\<exists>m'. read_dentry_by_index i file s = (s\<lparr>mem := m'\<rparr>, 0) \<and> only_locals {4, j} (mem s) m'
    \<and> filetype m' file = filetype (mem s) e \<and> idx_inode m' file = idx_inode (mem s) e
    \<and> upto_nul (bytes_at m' file 31) = upto_nul (bytes_at (mem s) e 31) \<and> m' (padd file 31) = mem s (padd file 31)"
proof -
  let ?m1 = "put_bytes (mem s) (Local 4, 0) (bytes_at (mem s) e 64)"
  have cp: "copy_region (mem s) (Local 4, 0) e 64 = ?m1" by (simp add: copy_region_put_bytes)
  have o1: "only_locals {4} (mem s) ?m1" by (rule only_locals_put) simp
  have "fst (Local 4, 0 :: u32) \<noteq> Local j" using assms(4) by simp
  note f = fill_dentry_effect [OF assms(3) this, of ?m1]
  have at: "?m1 (padd (Local 4, 0) k) = mem s (padd e k)" if "unat k < 64" for k
    using that by (simp add: put_bytes_padd)
  have w: "ld32 ?m1 (padd (Local 4, 0) k) = ld32 (mem s) (padd e k)" if "k = 32 \<or> k = 36" for k
  proof (rule ld32_bytes)
    fix l :: u32
    assume "unat l < 4"
    then have "unat (k + l) < 64" using that by (auto simp: unat_less_4_iff)
    then show "?m1 (padd (padd (Local 4, 0) k) l) = mem s (padd (padd e k) l)" using at by simp
  qed
  have "bytes_at ?m1 (Local 4, 0) 31 = bytes_at (mem s) e 31"
    by (rule nth_equalityI) (simp_all add: at unat_of_nat)
  moreover have "\<not> num_dir (mem s) (bootblock_ptr s) \<le> i" using assms(2) by (simp add: word_le_nat_alt)
  then have "read_dentry_by_index i file s = (s\<lparr>mem := fill_dentry file (Local 4, 0) ?m1\<rparr>, 0)"
    using cp by (simp add: read_dentry_by_index_def Let_def e_def)
  moreover have "only_locals {4, j} (mem s) (fill_dentry file (Local 4, 0) ?m1)"
    using only_locals_trans [OF o1 f(4)] by (simp add: insert_commute)
  moreover have "?m1 (padd file 31) = mem s (padd file 31)" using assms(3,4) only_locals_at [OF o1, of "padd file 31"] by auto
  ultimately show ?thesis
    using f(1,2,3,5) w by (intro exI [of _ "fill_dentry file (Local 4, 0) ?m1"]) (simp add: filetype_def idx_inode_def)
qed

lemma find_by_inode_found:
  assumes "file = (Local j, b)" and "j \<noteq> 4" and "k < unat (num_dir m0 bb)"
    and "idx_inode m0 (dentry_at bb (of_nat k)) = idx" and "\<And>l. l < k \<Longrightarrow> idx_inode m0 (dentry_at bb (of_nat l)) \<noteq> idx"
  shows "fs_ready s \<Longrightarrow> bb = bootblock_ptr s \<Longrightarrow> only_locals {4, j} m0 (mem s) \<Longrightarrow> i \<le> k \<Longrightarrow>
    \<exists>m'. find_by_inode idx file (of_nat i) s = Some (s\<lparr>mem := m'\<rparr>, of_nat k) \<and> only_locals {4, j} m0 m'
      \<and> filetype m' file = filetype m0 (dentry_at bb (of_nat k))"
proof (induction "k - i" arbitrary: i s)
  case 0
  then have i: "i = k" by simp
  have nd: "num_dir (mem s) bb = num_dir m0 bb" by (rule only_locals_fs(1) [OF "0.prems"(3)])
  have k62: "unat (num_dir m0 bb) \<le> 62" using "0.prems"(1,2) nd by (simp add: fs_ready_def fs_wf_def)
  have uk: "unat (of_nat k :: u32) = k" using assms(3) k62 by (simp add: unat_of_nat)
  obtain m' where m': "read_dentry_by_index (of_nat k) file s = (s\<lparr>mem := m'\<rparr>, 0)" "only_locals {4, j} (mem s) m'"
    "filetype m' file = filetype (mem s) (dentry_at bb (of_nat k))" "idx_inode m' file = idx_inode (mem s) (dentry_at bb (of_nat k))"
    using read_dentry_by_index_effect [OF "0.prems"(1) _ assms(1,2), of "of_nat k"] "0.prems"(2) uk nd assms(3) by auto
  have "num_dir m0 bb \<noteq> 0" using assms(3) by auto
  then have "find_by_inode idx file (of_nat i) s = Some (s\<lparr>mem := m'\<rparr>, of_nat k)"
    using m'(1,4) only_locals_fs(11) [OF "0.prems"(3)] assms(4) nd "0.prems"(2) i
    by (subst find_by_inode.simps) (simp add: Let_def)
  moreover have "only_locals {4, j} m0 m'" using only_locals_trans [OF "0.prems"(3) m'(2)] by simp
  ultimately show ?case using m'(3) only_locals_fs(10) [OF "0.prems"(3)] by auto
next
  case (Suc x)
  then have i: "i < k" by simp
  have nd: "num_dir (mem s) bb = num_dir m0 bb" by (rule only_locals_fs(1) [OF Suc.prems(3)])
  have k62: "unat (num_dir m0 bb) \<le> 62" using Suc.prems(1,2) nd by (simp add: fs_ready_def fs_wf_def)
  have ui: "unat (of_nat i :: u32) = i" using assms(3) k62 i by (simp add: unat_of_nat)
  obtain m' where m': "read_dentry_by_index (of_nat i) file s = (s\<lparr>mem := m'\<rparr>, 0)" "only_locals {4, j} (mem s) m'"
    "idx_inode m' file = idx_inode (mem s) (dentry_at bb (of_nat i))"
    using read_dentry_by_index_effect [OF Suc.prems(1) _ assms(1,2), of "of_nat i"] Suc.prems(2) ui nd assms(3) i by auto
  have nz: "num_dir m0 bb \<noteq> 0" using assms(3) by auto
  have ne: "idx_inode m' file \<noteq> idx" using m'(3) only_locals_fs(11) [OF Suc.prems(3)] assms(5) [OF i] by simp
  have o': "only_locals {4, j} m0 m'" using only_locals_trans [OF Suc.prems(3) m'(2)] by simp
  have "\<exists>m''. find_by_inode idx file (of_nat (Suc i)) (s\<lparr>mem := m'\<rparr>) = Some (s\<lparr>mem := m'\<rparr>\<lparr>mem := m''\<rparr>, of_nat k) \<and> only_locals {4, j} m0 m''
      \<and> filetype m'' file = filetype m0 (dentry_at bb (of_nat k))"
    using Suc.hyps(2) Suc.prems(2) o' i only_locals_ready [OF m'(2) Suc.prems(1)] by (intro Suc.hyps(1)) simp_all
  then show ?case
    using nz nd Suc.prems(2) m'(1) ne by (subst find_by_inode.simps) (simp add: Let_def add.commute)
qed

text \<open>Reading a regular file through a descriptor: the part of the file at the position, which moves on.\<close>

lemma read_fs_result:
  assumes "fs_ready s" and "bb = bootblock_ptr s" and "length (cur_files s) = 8" and "0 \<le> fd" "fd < 8" and "d = cur_files s ! nat fd"
    and "k < unat (num_dir (mem s) bb)" and "idx_inode (mem s) (dentry_at bb (of_nat k)) = inode_indx d"
    and "\<And>l. l < k \<Longrightarrow> idx_inode (mem s) (dentry_at bb (of_nat l)) \<noteq> inode_indx d"
    and "filetype (mem s) (dentry_at bb (of_nat k)) = 2" and "inode_wf (mem s) bb (inode_indx d)"
    and "0 \<le> nbytes" and "unat (file_position d) + nat nbytes < 2 ^ 32"
    and "bs = take (nat nbytes) (drop (unat (file_position d)) (file_contents (mem s) bb (inode_indx d)))"
    and "\<And>r. in_region buf (length bs) r \<Longrightarrow> \<not> in_fs (mem s) bb r"
  shows "\<exists>m'. read_fs fd buf nbytes s = Some ((with_files ((cur_files s)[nat fd := d\<lparr>file_position := file_position d + of_nat (length bs mod 65536)\<rparr>]) s)
        \<lparr>mem := put_bytes m' buf bs\<rparr>, int (length bs mod 65536)) \<and> only_locals {4, 11} (mem s) m'"
proof -
  obtain m' where m': "find_by_inode (inode_indx d) (Local 11, 0) 0 s = Some (s\<lparr>mem := m'\<rparr>, of_nat k)" "only_locals {4, 11} (mem s) m'"
    "filetype m' (Local 11, 0) = 2"
    using find_by_inode_found [OF refl _ assms(7,8,9) assms(1,2), of 11 0 0] assms(10) by auto
  let ?s = "s\<lparr>mem := m'\<rparr>"
  have get: "get_fd fd t = Some d" if "cur_files t = cur_files s" for t :: "'a proc_state_scheme"
    using that get_fd_nth [OF assms(4), of t] assms(3,5,6) by simp
  have nd: "num_dir m' bb = num_dir (mem s) bb" by (rule only_locals_fs(1) [OF m'(2)])
  have "unat (num_dir (mem s) bb) \<le> 62" using assms(1,2) by (simp add: fs_ready_def fs_wf_def)
  then have kn: "(of_nat k :: u32) \<noteq> num_dir (mem s) bb" using assms(7) by (auto simp: word_unat_eq_iff unat_of_nat)
  have len: "unat (word_of_int nbytes :: u32) = nat nbytes" using assms(12,13) by (intro unat_word_of_int_u32) (simp_all add: nat_less_iff)
  have rd: "read_data (inode_indx d) (file_position d) buf (word_of_int nbytes) ?s = Some (?s\<lparr>mem := put_bytes m' buf bs\<rparr>, int (length bs mod 65536))"
    using read_data_result [OF only_locals_ready [OF m'(2) assms(1)], of bb "inode_indx d" "file_position d" "word_of_int nbytes" bs buf]
      only_locals_fs(5,6,7) [OF m'(2)] assms(2,11,13,14,15) len by simp
  have files: "cur_files (s\<lparr>mem := m\<rparr>) = cur_files s" for m by simp
  have st: "set_fd fd x (s\<lparr>mem := put_bytes m' buf bs\<rparr>) = Some (with_files ((cur_files s)[nat fd := x]) (s\<lparr>mem := put_bytes m' buf bs\<rparr>))" for x
    using set_fd_nth [OF assms(4), of "s\<lparr>mem := put_bytes m' buf bs\<rparr>" x] assms(3,5) by simp
  have "read_fs fd buf nbytes s = Some (with_files ((cur_files s)[nat fd := d\<lparr>file_position := file_position d + of_nat (length bs mod 65536)\<rparr>])
      (s\<lparr>mem := put_bytes m' buf bs\<rparr>), int (length bs mod 65536))"
    using m'(1,3) get rd st nd kn assms(2) by (simp add: read_fs_def Let_def)
  moreover have "with_files fa (s\<lparr>mem := m\<rparr>) = (with_files fa s)\<lparr>mem := m\<rparr>" for fa m by (simp add: with_files_def)
  ultimately show ?thesis using m'(2) by auto
qed

lemma upto_nul_bytes_at:
  assumes "n \<le> N \<or> length (upto_nul (bytes_at m p N)) < N" and "N \<le> 32"
  shows "upto_nul (bytes_at m p n) = take n (upto_nul (bytes_at m p N))"
proof (cases "n \<le> N")
  case True
  then show ?thesis by (simp add: bytes_at_take [of n N] upto_nul_take)
next
  case False
  let ?name = "upto_nul (bytes_at m p N)"
  have len: "length ?name < N" using assms(1) False by simp
  then have "m (padd p (of_nat (length ?name))) = 0" using nth_length_upto_nul [of "bytes_at m p N"] by simp
  moreover have "bytes_at m p (length ?name) = ?name" using nth_upto_nul [of _ "bytes_at m p N"] len by (intro nth_equalityI) simp_all
  moreover have "0 \<notin> set ?name" by (auto simp: upto_nul_def dest: set_takeWhileD)
  ultimately have "cstr m p ?name" using len assms(2) by (simp add: cstr_def)
  from cstr_upto_nul [OF this, of n] show ?thesis using len False by simp
qed

lemma upto_nul_short: "0 \<in> set bs \<longleftrightarrow> length (upto_nul bs) < length bs"
  by (induction bs) (auto simp: upto_nul_def)

lemma upto_nul_snoc: "upto_nul (bs @ [c]) = (if 0 \<in> set bs then upto_nul bs else if c = 0 then bs else bs @ [c])"
  by (induction bs) (auto simp: upto_nul_def)

text \<open>
  The name that a read of the directory delivers. The entry is copied into an uninitialised local variable with \<open>strncpy\<close> and a bound of 31, so
  that a name of 31 bytes or more is cut there and followed by whatever was in the 32nd byte of that variable.
\<close>

definition listed_name :: "mem \<Rightarrow> u32 \<Rightarrow> nat \<Rightarrow> u8 list" where
  "listed_name m bb k =
     (let name = entry_name m bb k; junk = m (Local 12, 31)
      in if length name < 31 \<or> junk = 0 then name else name @ [junk])"

lemma listed_name_alt: "listed_name m bb k = (let name = upto_nul (bytes_at m (dentry_at bb (of_nat k)) 31) in
    if length name < 31 then name else name @ filter (\<lambda>c. c \<noteq> 0) [m (Local 12, 31)])"
  by (simp add: listed_name_def entry_name_def Let_def)

lemma listed_name_length: "length (listed_name m bb k) \<le> 32"
  using length_upto_nul [of "bytes_at m (dentry_at bb (of_nat k)) 31"] by (simp add: listed_name_alt Let_def)

lemma listed_name_nonzero: "0 \<notin> set (listed_name m bb k)"
  by (auto simp: listed_name_alt Let_def upto_nul_def dest: set_takeWhileD)

lemma listed_name_bytes:
  assumes "upto_nul (bytes_at m' (Local 12, 0) 31) = entry_name m bb k" and "m' (Local 12, 31) = m (Local 12, 31)"
  shows "upto_nul (bytes_at m' (Local 12, 0) 32) = listed_name m bb k" "length (entry_name m bb k) < 31 \<Longrightarrow> length (listed_name m bb k) < 32"
proof -
  let ?bs = "bytes_at m' (Local 12, 0) 31"
  have b: "bytes_at m' (Local 12, 0) 32 = ?bs @ [m (Local 12, 31)]" using bytes_at_append [of m' "(Local 12, 0)" 31 1] assms(2) by (simp add: padd_def bytes_at_def)
  have z: "0 \<in> set ?bs \<longleftrightarrow> length (upto_nul ?bs) < 31" using upto_nul_short [of ?bs] by simp
  have "0 \<notin> set ?bs \<Longrightarrow> upto_nul ?bs = ?bs" by (auto simp: upto_nul_def)
  then show "upto_nul (bytes_at m' (Local 12, 0) 32) = listed_name m bb k"
    unfolding b upto_nul_snoc using z by (auto simp: listed_name_def Let_def assms(1))
  show "length (entry_name m bb k) < 31 \<Longrightarrow> length (listed_name m bb k) < 32" by (simp add: listed_name_def Let_def)
qed

text \<open>Reading a directory: one name per call, padded with zeros, then 0 bytes.\<close>

lemma read_fs_dir_result:
  assumes "fs_ready s" and "bb = bootblock_ptr s" and "length (cur_files s) = 8" and "0 \<le> fd" "fd < 8" and "d = cur_files s ! nat fd"
    and "pos = unat (file_position d)" and "0 \<le> nbytes" "nbytes < 2 ^ 31" and "pos < unat (num_dir (mem s) bb) \<Longrightarrow> nbytes \<le> 32 \<or> length (entry_name (mem s) bb pos) < 31"
    and "fst buf \<noteq> Local 12" and "s1 = with_files ((cur_files s)[nat fd := d\<lparr>file_position := file_position d + 1\<rparr>]) s"
    and "name = take (nat nbytes) (listed_name (mem s) bb pos)"
  shows "if pos < unat (num_dir (mem s) bb)
    then \<exists>m'. read_fs_dir fd buf nbytes s = Some (s1\<lparr>mem := put_bytes m' buf (name @ replicate (nat nbytes - length name) 0)\<rparr>, nbytes)
           \<and> only_locals {4, 12} (mem s) m' \<and> m' (Local 12, 31) = mem s (Local 12, 31)
    else read_fs_dir fd buf nbytes s = Some (s1, 0)"
proof -
  have get: "get_fd fd s = Some d" using get_fd_nth [OF assms(4), of s] assms(3,5,6) by simp
  have set: "set_fd fd (d\<lparr>file_position := file_position d + 1\<rparr>) s = Some s1" using set_fd_nth [OF assms(4), of s] assms(3,5,12) by simp
  have s1: "mem s1 = mem s" "bootblock_ptr s1 = bb" "fs_ready s1" using assms(1,2,12) by simp_all
  have len: "unat (word_of_int nbytes :: u32) = nat nbytes" using assms(8,9) by (intro unat_word_of_int_u32) simp_all
  show ?thesis
  proof (cases "pos < unat (num_dir (mem s) bb)")
    case True
    obtain m' where m': "read_dentry_by_index (file_position d) (Local 12, 0) s1 = (s1\<lparr>mem := m'\<rparr>, 0)" "only_locals {4, 12} (mem s) m'"
      "upto_nul (bytes_at m' (Local 12, 0) 31) = upto_nul (bytes_at (mem s) (dentry_at bb (file_position d)) 31)" "m' (Local 12, 31) = mem s (Local 12, 31)"
      using read_dentry_by_index_effect [OF s1(3) _ refl, of "file_position d" 12 0] True s1(1,2) assms(7) by (auto simp: padd_def)
    then have nm: "upto_nul (bytes_at m' (Local 12, 0) 31) = entry_name (mem s) bb pos" by (simp add: entry_name_def assms(7))
    have up: "upto_nul (bytes_at m' (Local 12, 0) (nat nbytes)) = name"
      unfolding assms(13) listed_name_bytes(1) [OF nm m'(4), symmetric]
      using assms(10) [OF True] listed_name_bytes [OF nm m'(4)] by (intro upto_nul_bytes_at) auto
    have "separate buf (unat (word_of_int nbytes :: u32)) (Local 12, 0) (unat (word_of_int nbytes :: u32))" using assms(11) by (simp add: separate_def)
    from strncpy_put [OF this, of m'] have "strncpy m' buf (Local 12, 0) (word_of_int nbytes) = put_bytes m' buf (name @ replicate (nat nbytes - length name) 0)"
      unfolding len up .
    then show ?thesis using get set m'(1,2,4) True by (auto simp: read_fs_dir_def Let_def)
  next
    case False
    then have "num_dir (mem s1) (bootblock_ptr s1) \<le> file_position d" using s1 assms(7) by (simp add: word_le_nat_alt)
    then have "read_dentry_by_index (file_position d) (Local 12, 0) s1 = (s1, -1)" by (simp add: read_dentry_by_index_def)
    then show ?thesis using get set False by (simp add: read_fs_dir_def Let_def)
  qed
qed

section \<open>A process on the small image\<close>

definition demo_pcb :: PCB where
  "demo_pcb = \<lparr>pid = 1, processState = 2, terminal_id = 1, sesp = 0, sebp = 0, kernelStack = 0, kernelSS = 0, kesp = 0, kebp = 0, n_arg = 0,
     args = [0x61, 0x62] @ replicate 126 0,
     fileArray = [opened_fd keyboard_jumptable 0, opened_fd terminal_jumptable 0] @ replicate 6 closed_fd, parent_addr = 0\<rparr>"

definition proc_demo :: proc_state where
  "proc_demo = paging_state.extend paging_demo
     (proc_state.fields (\<lambda>_. demo_pcb) 4 [1, 1, 1, 0, 0, 0, 0] 1 [0, 0, 0] [1, 2, 3, -1, -1, -1, -1] 0 1 0 0x7FDF00 0x7FDF40 0 0x7FE000 demo_pcb)"

lemma fs_demo_kbd: "kbd_state.truncate fs_demo = kbd_boot\<lparr>mem := demo_image\<rparr>"
  by (simp add: fs_demo_def filesystem_init_def kbd_state.defs Let_def)

lemma proc_demo_fs:
  "mem proc_demo = demo_image" "bootblock_ptr proc_demo = 0x400000" "inode_start_addr proc_demo = 0x401000" "data_start_addr proc_demo = 0x403000"
  "kbd_state.truncate proc_demo = kbd_boot\<lparr>mem := demo_image\<rparr>"
  using fs_demo_simps fs_demo_kbd
  by (simp_all add: proc_demo_def paging_demo_def paging_state.defs proc_state.defs fs_state.defs kbd_state.defs)

lemma kbd_ok_truncate: "kbd_ok s = kbd_ok (kbd_state.truncate s)" "pcb_terminal s = pcb_terminal (kbd_state.truncate s)"
  by (simp_all add: kbd_state.defs kbd_ok_def scr_ok_def)

lemma proc_demo_simps:
  "mem proc_demo = demo_image" "bootblock_ptr proc_demo = 0x400000" "fs_ready proc_demo" "pcbs proc_demo p = demo_pcb" "esp proc_demo = 0x7FDF00"
  "current_PCB proc_demo = 0x7FC000" "length (cur_files proc_demo) = 8" "tables_ok proc_demo" "pcb_terminal proc_demo = 1"
  "kbd_ok proc_demo"
proof -
  show "mem proc_demo = demo_image" "bootblock_ptr proc_demo = 0x400000" by (rule proc_demo_fs)+
  show "fs_ready proc_demo" by (simp add: fs_ready_def fs_wf_def fs_size_def data_addr_def proc_demo_fs demo_words)
  show p: "pcbs proc_demo p = demo_pcb" and e: "esp proc_demo = 0x7FDF00" for p
    by (simp_all add: proc_demo_def paging_state.defs proc_state.defs)
  show "current_PCB proc_demo = 0x7FC000" by (simp add: current_PCB_def e)
  show "length (cur_files proc_demo) = 8" by (simp add: p demo_pcb_def)
  show "tables_ok proc_demo" using paging_demo_ok(1) by (simp add: proc_demo_def paging_state.defs proc_state.defs tables_ok_def)
  show "pcb_terminal proc_demo = 1" unfolding kbd_ok_truncate(2) [of proc_demo] proc_demo_fs using kbd_boot_ok by simp
  show "kbd_ok proc_demo"
    unfolding kbd_ok_truncate(1) [of proc_demo] proc_demo_fs using kbd_boot_ok(1) by (simp add: kbd_ok_def scr_ok_def)
qed

lemma demo_pcb_files: "length (fileArray demo_pcb) = 8"
  by (simp add: demo_pcb_def)

lemma demo_filetype_le: "lookup_name demo_image 0x400000 (Global, 0x100) = Some k \<Longrightarrow> filetype demo_image (dentry_at 0x400000 (of_nat k)) \<le> 2"
  using demo_lookup demo_entry by simp

section \<open>Correctness of the system calls on files\<close>

text \<open>
  C32: \<open>open\<close> of a name in the directory takes the lowest descriptor from 2 to 7 that is not in use,
  with the operation table of the file's type, position 0 and, for a regular file, its inode, and
  returns it; the empty name, an unknown name and a full table give -1 and leave all descriptors as they were.
\<close>

theorem sys_open_correct:
  assumes "fs_ready s" and "cstr (mem s) filename name" and "filename \<noteq> NULL" and "fst filename \<notin> {Local 2, Local 13}"
    and "length (cur_files s) = 8" and "bb = bootblock_ptr s"
    and "\<And>k. lookup_name (mem s) bb filename = Some k \<Longrightarrow> filetype (mem s) (dentry_at bb (of_nat k)) \<le> 2"
  shows "\<exists>s' r. sys_open dev filename s = Some (s', r) \<and> only_locals {1, 2, 13} (mem s) (mem s')
    \<and> (case (if name = [] then None else lookup_name (mem s) bb filename, find (\<lambda>i. flags (cur_files s ! i) = 0) [2..<8]) of
        (Some k, Some fd) \<Rightarrow> let e = dentry_at bb (of_nat k) in r = int fd
          \<and> pcbs s' = pcbs (with_files ((cur_files s)[fd := opened_fd (fop_tables ! unat (filetype (mem s) e))
                       (if filetype (mem s) e = 2 then idx_inode (mem s) e else 0)]) s)
      | _ \<Rightarrow> r = -1 \<and> pcbs s' = pcbs s) \<and> esp s' = esp s"
  using sys_open_result [OF assms, unfolded fds.first_free_def] by blast

theorem sys_open_correct_witness:
  "\<exists>s'. sys_open (\<lambda>_ _. 0) (Global, 0x100) proc_demo = Some (s', 2)
    \<and> cur_files s' ! 2 = opened_fd filesystem_reg_jumptable 1"
proof -
  have "find (\<lambda>i. flags (cur_files proc_demo ! i) = 0) [2..<8] = Some 2"
    by (simp add: proc_demo_simps demo_pcb_def opened_fd_def closed_fd_def upt_conv_Cons)
  moreover have "cstr (mem proc_demo) (Global, 0x100) [0x68, 0x69]" using demo_name by (simp add: proc_demo_simps)
  ultimately show ?thesis
    using sys_open_correct [of proc_demo "(Global, 0x100)" "[0x68, 0x69]" "0x400000" "\<lambda>_ _. 0"] demo_filetype_le
    by (auto simp: proc_demo_simps demo_lookup demo_entry with_files_def fop_tables_def current_PCB_def demo_pcb_def)
qed

text \<open>
  C33: a descriptor that \<open>open\<close> returned is closed by \<open>close\<close>, which returns 0 and restores the
  process control blocks to what they were, when the slot was in the state \<open>close\<close> leaves slots in.
\<close>

theorem open_close_roundtrip:
  assumes "fs_ready s" and "cstr (mem s) filename name" and "filename \<noteq> NULL" and "fst filename \<notin> {Local 1, Local 2, Local 13}"
    and "length (cur_files s) = 8" and "bb = bootblock_ptr s"
    and "\<And>k. lookup_name (mem s) bb filename = Some k \<Longrightarrow> filetype (mem s) (dentry_at bb (of_nat k)) \<le> 2"
    and "sys_open dev filename s = Some (s', fd)" and "fd \<noteq> -1" and "cur_files s ! nat fd = closed_fd"
  shows "\<exists>s''. sys_close fd s' = Some (s'', 0) \<and> pcbs s'' = pcbs s \<and> 2 \<le> fd \<and> fd < 8"
proof -
  have np: "fst filename \<notin> {Local 2, Local 13}" using assms(4) by blast
  note op = sys_open_result [OF assms(1-3) np assms(5-7), of dev]
  obtain k f where f: "fds.first_free (cur_files s) = Some f" "fd = int f"
    "pcbs s' = pcbs (with_files ((cur_files s)[f := opened_fd (fop_tables ! unat (filetype (mem s) (dentry_at bb (of_nat k))))
                       (if filetype (mem s) (dentry_at bb (of_nat k)) = 2 then idx_inode (mem s) (dentry_at bb (of_nat k)) else 0)]) s)"
    "esp s' = esp s"
    using op assms(8,9) by (auto simp: Let_def split: option.splits if_splits)
  then have lt: "2 \<le> f" "f < 8" using fds.first_free_Some by blast+
  have cur: "current_PCB s' = current_PCB s" using f(4) by (simp add: current_PCB_def)
  have files: "cur_files s' = (cur_files s)[f := opened_fd (fop_tables ! unat (filetype (mem s) (dentry_at bb (of_nat k))))
                       (if filetype (mem s) (dentry_at bb (of_nat k)) = 2 then idx_inode (mem s) (dentry_at bb (of_nat k)) else 0)]"
    unfolding cur f(3) using with_files_simps(1,2) by metis
  have len: "length (cur_files s') = 8" using files assms(5) by simp
  have get: "get_fd (int f) s' = Some (cur_files s' ! f)" using get_fd_nth [of "int f" s'] lt len by simp
  have fl: "flags (cur_files s' ! f) = 1" using files lt assms(5) by (simp add: opened_fd_def)
  have "set_fd (int f) closed_fd s' = Some (with_files ((cur_files s')[f := closed_fd]) s')" using set_fd_nth [of "int f" s'] lt len by simp
  then have "sys_close fd s' = Some (with_files ((cur_files s')[f := closed_fd]) s', 0)"
    using f(2) lt get fl by (simp add: sys_close_def closed_fd_def)
  moreover have "(cur_files s')[f := closed_fd] = cur_files s" unfolding files using assms(10) f(2) by (simp add: list_update_same_conv lt assms(5))
  then have "pcbs (with_files ((cur_files s')[f := closed_fd]) s') = pcbs s"
    using f(3) cur by (simp add: with_files_def fun_eq_iff)
  ultimately show ?thesis using f(2) lt by auto
qed

lemma demo_first_free: "fds.first_free (cur_files proc_demo) = Some 2"
  by (simp add: fds.first_free_def proc_demo_simps demo_pcb_def opened_fd_def closed_fd_def upt_conv_Cons)

theorem open_close_roundtrip_witness:
  "\<exists>s' s''. sys_open (\<lambda>_ _. 0) (Global, 0x100) proc_demo = Some (s', 2) \<and> sys_close 2 s' = Some (s'', 0) \<and> pcbs s'' = pcbs proc_demo"
proof -
  have n: "cstr (mem proc_demo) (Global, 0x100) [0x68, 0x69]" using demo_name by (simp add: proc_demo_simps)
  obtain s' where s': "sys_open (\<lambda>_ _. 0) (Global, 0x100) proc_demo = Some (s', 2)"
    using sys_open_result [of proc_demo "(Global, 0x100)" "[0x68, 0x69]" "0x400000" "\<lambda>_ _. 0"] demo_filetype_le n demo_first_free
    by (auto simp: proc_demo_simps demo_lookup Let_def demo_pcb_files)
  have "cur_files proc_demo ! nat 2 = closed_fd" by (simp add: proc_demo_simps demo_pcb_def)
  from open_close_roundtrip [OF proc_demo_simps(3) n _ _ proc_demo_simps(7) refl _ s' _ this] demo_filetype_le
  show ?thesis using s' by (auto simp: proc_demo_simps)
qed

text \<open>
  C34: \<open>read\<close> on a descriptor of a regular file implements a cursor on the file: it delivers the part of
  the contents that starts at the position and has at most the requested length, moves the position
  on by the number of bytes it returns, and changes no other descriptor, nor memory outside the
  buffer and its own variables. At the end of the file it returns 0. The requested length is below 65536, since \<open>read_data\<close> counts in 16 bits.
\<close>

theorem sys_read_file_correct:
  assumes "fs_ready s" and "bb = bootblock_ptr s" and "length (cur_files s) = 8" and "2 \<le> fd" "fd < 8" and "d = cur_files s ! nat fd"
    and "flags d = IN_USE" and "fd_jumptable d = Some filesystem_reg_jumptable" and "buf \<noteq> NULL"
    and "k < unat (num_dir (mem s) bb)" and "idx_inode (mem s) (dentry_at bb (of_nat k)) = inode_indx d"
    and "\<And>l. l < k \<Longrightarrow> idx_inode (mem s) (dentry_at bb (of_nat l)) \<noteq> inode_indx d"
    and "filetype (mem s) (dentry_at bb (of_nat k)) = 2" and "inode_wf (mem s) bb (inode_indx d)"
    and "0 \<le> nbytes" and "nbytes < 65536" and "unat (file_position d) + nat nbytes < 2 ^ 32"
    and "bs = take (nat nbytes) (drop (unat (file_position d)) (file_contents (mem s) bb (inode_indx d)))"
    and "\<And>r. in_region buf (length bs) r \<Longrightarrow> \<not> in_fs (mem s) bb r"
  shows "\<exists>s'. sys_read irqs fd buf nbytes s = Some (s', int (length bs), irqs) \<and> bytes_at (mem s') buf (length bs) = bs
    \<and> pcbs s' = pcbs (with_files ((cur_files s)[nat fd := d\<lparr>file_position := file_position d + of_nat (length bs)\<rparr>]) s)
    \<and> (\<forall>r. fst r \<notin> {Local 4, Local 11} \<and> \<not> in_region buf (length bs) r \<longrightarrow> mem s' r = mem s r)"
proof -
  have fd: "0 \<le> fd" using assms(4) by simp
  have lb: "length bs < 65536" using assms(16,18) by simp
  have "\<exists>m'. read_fs fd buf nbytes s = Some ((with_files ((cur_files s)[nat fd := d\<lparr>file_position := file_position d + of_nat (length bs mod 65536)\<rparr>]) s)
        \<lparr>mem := put_bytes m' buf bs\<rparr>, int (length bs mod 65536)) \<and> only_locals {4, 11} (mem s) m'"
    by (rule read_fs_result [OF assms(1-3) fd assms(5,6,10-15,17,18)]) (assumption, rule assms(19))
  then obtain m' where m': "read_fs fd buf nbytes s = Some ((with_files ((cur_files s)[nat fd := d\<lparr>file_position := file_position d + of_nat (length bs)\<rparr>]) s)
        \<lparr>mem := put_bytes m' buf bs\<rparr>, int (length bs))" "only_locals {4, 11} (mem s) m'"
    using lb by auto
  have "get_fd fd s = Some d" using get_fd_nth [OF fd, of s] assms(3,5,6) by simp
  then have "sys_read irqs fd buf nbytes s = Some ((with_files ((cur_files s)[nat fd := d\<lparr>file_position := file_position d + of_nat (length bs)\<rparr>]) s)
        \<lparr>mem := put_bytes m' buf bs\<rparr>, int (length bs), irqs)"
    using m'(1) assms(4,5,7,8,9) by (simp add: sys_read_def fops_read_def)
  moreover have "put_bytes m' buf bs r = mem s r" if "fst r \<notin> {Local 4, Local 11}" "\<not> in_region buf (length bs) r" for r
    using that put_bytes_other [of buf bs r m'] only_locals_at [OF m'(2), of r] by simp
  moreover have "bytes_at (put_bytes m' buf bs) buf (length bs) = bs" using lb by simp
  ultimately show ?thesis by (simp add: with_files_def) 
qed

text \<open>An open descriptor on the file of the small image, at position 4095.\<close>

definition reading_demo :: proc_state where
  "reading_demo = with_files ((cur_files proc_demo)[2 := (opened_fd filesystem_reg_jumptable 1)\<lparr>file_position := 4095\<rparr>]) proc_demo"

lemma demo_tail: "take 100 (drop 4095 (file_contents demo_image 0x400000 1)) = [0xAA, 0xBB, 0, 0, 0]"
proof -
  have b: "dblocks demo_image 0x402000 0 = 2" "dblocks demo_image 0x402000 1 = 0" by (simp_all add: dblocks_def demo_words)
  have f: "file_byte demo_image 0x400000 1 4095 = 0xAA" "file_byte demo_image 0x400000 1 4096 = 0xBB" "file_byte demo_image 0x400000 1 4097 = 0"
    "file_byte demo_image 0x400000 1 4098 = 0" "file_byte demo_image 0x400000 1 4099 = 0"
    by (simp_all add: file_byte_def data_addr_def demo_words b inode_addr_def) (simp_all add: demo_image_def)
  have u: "[4095..<4100] = [4095, 4096, 4097, 4098, 4099 :: nat]" by (simp add: upt_conv_Cons)
  show ?thesis by (simp add: file_contents_def demo_inode drop_map u f)
qed

theorem sys_read_file_correct_witness:
  "\<exists>s'. sys_read [] 2 (Local 20, 0) 100 reading_demo = Some (s', 5, []) \<and> bytes_at (mem s') (Local 20, 0) 5 = [0xAA, 0xBB, 0, 0, 0]"
proof -
  let ?d = "(opened_fd filesystem_reg_jumptable 1)\<lparr>file_position := 4095\<rparr>"
  have f: "mem reading_demo = demo_image" "bootblock_ptr reading_demo = 0x400000" "fs_ready reading_demo" "length (cur_files reading_demo) = 8"
    "?d = cur_files reading_demo ! nat 2"
    by (simp_all add: reading_demo_def proc_demo_simps demo_pcb_files with_files_def current_PCB_def fs_ready_def)
      (use proc_demo_simps(3) in \<open>simp add: fs_ready_def proc_demo_simps\<close>)
  let ?bs = "[0xAA, 0xBB, 0, 0, 0] :: u8 list"
  have bs: "?bs = take (nat 100) (drop (unat (file_position ?d)) (file_contents (mem reading_demo) 0x400000 (inode_indx ?d)))"
    using demo_tail by (simp add: opened_fd_def f)
  have ps: "flags ?d = IN_USE" "fd_jumptable ?d = Some filesystem_reg_jumptable" "(Local 20, 0 :: u32) \<noteq> NULL"
    "0 < unat (num_dir (mem reading_demo) 0x400000)" "idx_inode (mem reading_demo) (dentry_at 0x400000 (of_nat 0)) = inode_indx ?d"
    "filetype (mem reading_demo) (dentry_at 0x400000 (of_nat 0)) = 2" "inode_wf (mem reading_demo) 0x400000 (inode_indx ?d)"
    "unat (file_position ?d) + nat 100 < 2 ^ 32"
    by (simp_all add: opened_fd_def f demo_words demo_entry demo_inode)
  have "\<exists>s'. sys_read [] 2 (Local 20, 0) 100 reading_demo = Some (s', int (length ?bs), []) \<and> bytes_at (mem s') (Local 20, 0) (length ?bs) = ?bs"
    using sys_read_file_correct [OF f(3) f(2) [symmetric] f(4) _ _ f(5) ps(1-5) _ ps(6,7) _ _ ps(8) bs, of "[]"]
      not_in_fs_local [of "mem reading_demo" "0x400000" 20] by (fastforce simp: in_region_def)
  moreover have "length ?bs = 5" by simp
  ultimately show ?thesis by (simp only: of_nat_numeral)
qed

text \<open>
  \<open>read\<close> on a descriptor of the directory delivers the name of the entry at the position, padded
  with zeros to the requested length, and moves on to the next entry; after the last entry it returns 0.
\<close>

theorem sys_read_dir_correct:
  assumes "fs_ready s" and "bb = bootblock_ptr s" and "length (cur_files s) = 8" and "2 \<le> fd" "fd < 8" and "d = cur_files s ! nat fd"
    and "flags d = IN_USE" and "fd_jumptable d = Some filesystem_dir_jumptable" and "buf \<noteq> NULL" and "fst buf \<noteq> Local 12"
    and "pos = unat (file_position d)" and "0 \<le> nbytes" "nbytes < 2 ^ 31" and "nbytes \<le> 32 \<or> length (entry_name (mem s) bb pos) < 31"
    and "name = take (nat nbytes) (listed_name (mem s) bb pos)"
  shows "\<exists>s'. sys_read irqs fd buf nbytes s = Some (s', if pos < unat (num_dir (mem s) bb) then nbytes else 0, irqs)
    \<and> (pos < unat (num_dir (mem s) bb) \<longrightarrow> bytes_at (mem s') buf (nat nbytes) = name @ replicate (nat nbytes - length name) 0)
    \<and> pcbs s' = pcbs (with_files ((cur_files s)[nat fd := d\<lparr>file_position := file_position d + 1\<rparr>]) s)
    \<and> (\<forall>r. fst r \<notin> {Local 4, Local 12} \<and> \<not> in_region buf (nat nbytes) r \<longrightarrow> mem s' r = mem s r)"
proof -
  have fd: "0 \<le> fd" using assms(4) by simp
  let ?s1 = "with_files ((cur_files s)[nat fd := d\<lparr>file_position := file_position d + 1\<rparr>]) s"
  let ?bs = "name @ replicate (nat nbytes - length name) 0"
  have "get_fd fd s = Some d" using get_fd_nth [OF fd, of s] assms(3,5,6) by simp
  then have rd: "sys_read irqs fd buf nbytes s = map_option (\<lambda>(s, r). (s, r, irqs)) (read_fs_dir fd buf nbytes s)"
    using assms(4,5,7,8,9) by (simp add: sys_read_def fops_read_def)
  note res = read_fs_dir_result [OF assms(1-3) fd assms(5,6,11-14,10) refl assms(15)]
  show ?thesis
  proof (cases "pos < unat (num_dir (mem s) bb)")
    case True
    then obtain m' where m': "read_fs_dir fd buf nbytes s = Some (?s1\<lparr>mem := put_bytes m' buf ?bs\<rparr>, nbytes)" "only_locals {4, 12} (mem s) m'"
      using res by auto
    have lb: "length ?bs = nat nbytes" by (simp add: assms(15))
    have "bytes_at (put_bytes m' buf ?bs) buf (nat nbytes) = ?bs" using lb assms(12,13) by (intro bytes_at_put_bytes) simp_all
    moreover have "put_bytes m' buf ?bs r = mem s r" if "fst r \<notin> {Local 4, Local 12}" "\<not> in_region buf (nat nbytes) r" for r
      using that put_bytes_other [of buf ?bs r m'] only_locals_at [OF m'(2), of r] lb by simp
    ultimately show ?thesis using rd m'(1) True by (simp add: with_files_def)
  next
    case False
    then show ?thesis using rd res by (simp add: with_files_def)
  qed
qed

definition listing_demo :: proc_state where
  "listing_demo = with_files ((cur_files proc_demo)[2 := opened_fd filesystem_dir_jumptable 0]) proc_demo"

theorem sys_read_dir_correct_witness:
  "\<exists>s'. sys_read [] 2 (Local 20, 0) 4 listing_demo = Some (s', 4, []) \<and> bytes_at (mem s') (Local 20, 0) 4 = [0x68, 0x69, 0, 0]"
proof -
  let ?d = "opened_fd filesystem_dir_jumptable 0"
  have f: "mem listing_demo = demo_image" "bootblock_ptr listing_demo = 0x400000" "fs_ready listing_demo" "length (cur_files listing_demo) = 8"
    "?d = cur_files listing_demo ! nat 2"
    by (simp_all add: listing_demo_def proc_demo_simps demo_pcb_files with_files_def current_PCB_def fs_ready_def)
      (use proc_demo_simps(3) in \<open>simp add: fs_ready_def proc_demo_simps\<close>)
  have "entry_name demo_image 0x400000 0 = [0x68, 0x69]"
    using lookup_name_cases [OF demo_name, of "0x400000" 0] demo_lookup by simp
  then have nm: "[0x68, 0x69] = take (nat 4) (listed_name (mem listing_demo) 0x400000 (unat (file_position ?d)))"
    by (simp add: f opened_fd_def listed_name_def)
  have ps: "flags ?d = IN_USE" "fd_jumptable ?d = Some filesystem_dir_jumptable" "(Local 20, 0 :: u32) \<noteq> NULL" "fst (Local 20, 0 :: u32) \<noteq> Local 12"
    by (simp_all add: opened_fd_def)
  have "unat (file_position ?d) < unat (num_dir (mem listing_demo) 0x400000)" by (simp add: opened_fd_def f demo_words)
  then have "\<exists>s'. sys_read [] 2 (Local 20, 0) 4 listing_demo = Some (s', 4, [])
      \<and> bytes_at (mem s') (Local 20, 0) (nat 4) = [0x68, 0x69] @ replicate (nat 4 - length [0x68, 0x69 :: u8]) 0"
    using sys_read_dir_correct [OF f(3) f(2) [symmetric] f(4) _ _ f(5) ps refl _ _ _ nm, of "[]"] by fastforce
  moreover have "[0x68, 0x69] @ replicate (nat 4 - length [0x68, 0x69 :: u8]) 0 = [0x68, 0x69, 0, 0 :: u8]" by (simp add: numeral_2_eq_2)
  moreover have "nat 4 = (4 :: nat)" by simp
  ultimately show ?thesis by (simp only:)
qed

lemma fd_rejected:
  assumes "length (cur_files s) = 8"
  shows "fd < 0 \<or> 8 \<le> fd \<or> fd = 1 \<or> flags (cur_files s ! nat fd) = 0 \<or> buf = NULL \<Longrightarrow> sys_read irqs fd buf nbytes s = Some (s, -1, irqs)"
    "fd < 0 \<or> 8 \<le> fd \<or> fd = 0 \<or> flags (cur_files s ! nat fd) = 0 \<or> buf = NULL \<Longrightarrow> sys_write dev fd buf nbytes s = Some (s, -1)"
    "fd < 2 \<or> 8 \<le> fd \<or> flags (cur_files s ! nat fd) = 0 \<Longrightarrow> sys_close fd s = Some (s, -1)"
proof -
  have "get_fd fd s = Some (cur_files s ! nat fd)" if "0 \<le> fd" "fd < 8" using that assms by (simp add: get_fd_nth)
  then show "fd < 0 \<or> 8 \<le> fd \<or> fd = 1 \<or> flags (cur_files s ! nat fd) = 0 \<or> buf = NULL \<Longrightarrow> sys_read irqs fd buf nbytes s = Some (s, -1, irqs)"
    "fd < 0 \<or> 8 \<le> fd \<or> fd = 0 \<or> flags (cur_files s ! nat fd) = 0 \<or> buf = NULL \<Longrightarrow> sys_write dev fd buf nbytes s = Some (s, -1)"
    "fd < 2 \<or> 8 \<le> fd \<or> flags (cur_files s ! nat fd) = 0 \<Longrightarrow> sys_close fd s = Some (s, -1)"
    by (auto simp: sys_read_def sys_write_def sys_close_def)
qed

text \<open>
  Descriptor numbers are checked. \<open>read\<close> and \<open>write\<close> reject numbers outside 0 to 7, descriptors not in
  use, null buffers, reading the terminal output (1) and writing the keyboard input (0); \<open>close\<close>
  rejects numbers outside 2 to 7 and descriptors not in use. A rejected call returns -1 and changes nothing.
\<close>

theorem fd_checks:
  assumes "length (cur_files s) = 8"
  shows "(fd < 0 \<or> 8 \<le> fd \<or> fd = 1 \<or> flags (cur_files s ! nat fd) = 0 \<or> buf = NULL \<longrightarrow> sys_read irqs fd buf nbytes s = Some (s, -1, irqs))
    \<and> (fd < 0 \<or> 8 \<le> fd \<or> fd = 0 \<or> flags (cur_files s ! nat fd) = 0 \<or> buf = NULL \<longrightarrow> sys_write dev fd buf nbytes s = Some (s, -1))
    \<and> (fd < 2 \<or> 8 \<le> fd \<or> flags (cur_files s ! nat fd) = 0 \<longrightarrow> sys_close fd s = Some (s, -1))"
  using fd_rejected [OF assms] by blast

theorem fd_checks_witness: "sys_read [] 5 (Global, 0x100) 4 proc_demo = Some (proc_demo, -1, [])"
  using fd_checks [OF proc_demo_simps(7), of 5 "(Global, 0x100)" "[]" 4] by (simp add: proc_demo_simps demo_pcb_def closed_fd_def)

text \<open>
  \<open>getargs\<close> copies the first \<open>nbytes\<close> bytes of the argument array, whatever they are, and
  returns 0; without an argument or with a null buffer it returns -1 and changes nothing. A request
  for more than the 128 bytes of the array reads past its end.
\<close>

theorem getargs_correct:
  assumes "length (args (pcbs s (current_PCB s))) = 128"
  shows "getargs buf nbytes s =
    (if buf = NULL \<or> args (pcbs s (current_PCB s)) ! 0 = 0 then Some (s, -1)
     else if nbytes \<le> 128 then Some (s\<lparr>mem := put_bytes (mem s) buf (take (nat nbytes) (args (pcbs s (current_PCB s))))\<rparr>, 0)
     else None)"
proof -
  let ?a = "args (pcbs s (current_PCB s))"
  let ?f = "\<lambda>i m. do { c \<leftarrow> arr_get ?a i; Some (m(padd buf (of_nat i) := c)) }"
  have "foldo ?f [0..<nat nbytes] (mem s) = Some (put_bytes (mem s) buf (take (nat nbytes) ?a))" if "nbytes \<le> 128"
    using copy_row [of "nat nbytes" ?a buf "mem s"] that assms by simp
  moreover have "foldo ?f [0..<nat nbytes] (mem s) = None" if "128 < nbytes"
  proof -
    have "[0..<nat nbytes] = [0..<128] @ 128 # [129..<nat nbytes]" using that upt_add_eq_append [of 0 128 "nat nbytes - 128"] by (simp add: upt_conv_Cons)
    then show ?thesis using assms copy_row [of 128 ?a buf "mem s"] by (simp add: foldo_append)
  qed
  ultimately show ?thesis using assms by (simp add: getargs_def Let_def)
qed

theorem getargs_correct_witness:
  "getargs (Global, 0x900) 2 proc_demo = Some (proc_demo\<lparr>mem := put_bytes demo_image (Global, 0x900) [0x61, 0x62]\<rparr>, 0)"
  using getargs_correct [of proc_demo "(Global, 0x900)" 2] by (simp add: proc_demo_simps demo_pcb_def)

lemma user_video_walk:
  assumes "layout_ok l" and "pageDir s ! 128 = pageTableUserVideo_addr l OR 7" and "pageTableUserVideo s ! 0 = 0xB8007" and "off < 4096"
  shows "translate l s (USRVIDMAPADDR + off) = Some (VIDMEMADDR + off, True)"
proof -
  have off: "unat off < 4096" using assms(4) by (simp add: word_less_nat_alt)
  have u: "unat (USRVIDMAPADDR + off) = 536870912 + unat off" using off by (subst unat_plus_small) simp_all
  have d: "unat (drop_bit 22 (USRVIDMAPADDR + off)) = 128" unfolding unat_drop_bit u using off by simp
  have "(536870912 + unat off) div 4096 = 131072" using off by (intro div_nat_eqI) simp_all
  then have t: "unat (take_bit 10 (drop_bit 12 (USRVIDMAPADDR + off))) = 0" unfolding table_index u by simp
  have "(536870912 + unat off) mod 4096 = unat off"
    using off \<open>(536870912 + unat off) div 4096 = 131072\<close> by (simp flip: minus_div_mult_eq_mod)
  then have "unat (take_bit 12 (USRVIDMAPADDR + off)) = unat off" unfolding unat_take_bit u by simp
  then have o: "take_bit 12 (USRVIDMAPADDR + off) = off" by (simp only: word_unat_eq_iff)
  have al: "take_bit 12 (pageTableUserVideo_addr l) = 0" using assms(1) by (simp add: layout_ok_def)
  note f = flag_bits [OF al, of 7]
  have "bit (0xB8007 :: u32) 0" "bit (0xB8007 :: u32) 2" by simp_all
  then show ?thesis
    using f(1) f(2) [of 0] f(2) [of 7] f(2) [of 2] assms(1)
    by (auto simp: translate_def d assms(2,3) table_at_def t o layout_ok_def)
qed

text \<open>
  \<open>vidmap\<close> rejects a pointer outside the user page, the byte after the page excepted; otherwise it
  clears the process's terminal, makes the page at the fixed virtual address show video memory
  in user mode, and stores that address through the pointer.
\<close>

theorem vidmap_correct:
  assumes "kbd_ok s" and "tables_ok s" and "layout_ok l" and "pageDir s ! 128 = pageTableUserVideo_addr l OR 7"
  shows "if p < 0x08000000 \<or> 0x08400000 < p then vidmap p s = Some (s, -1)
    else \<exists>s'. vidmap p s = Some (s', 0) \<and> ld32 (mem s') (Global, p) = USRVIDMAPADDR \<and> cells (video s') (pcb_terminal s) = replicate 2000 blank
      \<and> (\<forall>off < 4096. translate l s' (USRVIDMAPADDR + off) = Some (VIDMEMADDR + off, True))"
proof (cases "p < 0x08000000 \<or> 0x08400000 < p")
  case True
  then show ?thesis by (simp add: vidmap_def Let_def)
next
  case False
  then have nz: "p \<noteq> 0" by auto
  let ?s = "s\<lparr>pageTableUserVideo := (pageTableUserVideo s)[0 := 0xB8007]\<rparr>"
  have "scr_ok ?s" "unat (pcb_terminal ?s) < 3" using assms(1) by (simp_all add: kbd_ok_def scr_ok_def)
  from clear_result [OF this] obtain s1 where s1: "clear (pcb_terminal ?s) ?s = Some s1" "cells (video s1) (pcb_terminal s) = replicate 2000 blank"
    "con_frame ?s s1" by auto
  have "screen_state.more s1 = screen_state.more ?s" using s1(3) by (simp add: con_frame_def)
  note f = paging_fields_more [OF this]
  define s' where "s' = flush_TLB s1"
  have v: "vidmap p s = Some (s'\<lparr>mem := st32 (mem s') (Global, p) USRVIDMAPADDR\<rparr>, 0)"
    using False nz assms(2) s1(1) by (simp add: vidmap_def Let_def tables_ok_def s'_def)
  have s': "pageDir s' = pageDir s" "pageTableUserVideo s' = (pageTableUserVideo s)[0 := 0xB8007]" "video s' = video s1"
    using f(1,3) by (simp_all add: s'_def flush_TLB_def load_cr3_def Let_def)
  have "translate l (s'\<lparr>mem := st32 (mem s') (Global, p) USRVIDMAPADDR\<rparr>) (USRVIDMAPADDR + off) = Some (VIDMEMADDR + off, True)" if "off < 4096" for off
    using assms(2,4) s' by (intro user_video_walk [OF assms(3) _ _ that]) (simp_all add: tables_ok_def)
  then show ?thesis using False v s'(3) s1(2) by simp
qed

theorem vidmap_correct_witness:
  "vidmap 0x07FFFFFF proc_demo = Some (proc_demo, -1)
   \<and> (\<exists>s'. vidmap 0x08000100 (proc_demo\<lparr>pageDir := boot_dir demo_layout\<rparr>) = Some (s', 0) \<and> translate demo_layout s' 0x20000001 = Some (0xB8001, True))"
proof -
  let ?s = "proc_demo\<lparr>pageDir := boot_dir demo_layout\<rparr>"
  have ok: "kbd_ok ?s" "tables_ok ?s" "pageDir ?s ! 128 = pageTableUserVideo_addr demo_layout OR 7"
    using proc_demo_simps(8,10) by (simp_all add: kbd_ok_def scr_ok_def tables_ok_def boot_dir_nth)
  have "\<exists>s'. vidmap 0x08000100 ?s = Some (s', 0) \<and> (\<forall>off < 4096. translate demo_layout s' (USRVIDMAPADDR + off) = Some (VIDMEMADDR + off, True))"
    using vidmap_correct [OF ok(1,2) paging_demo_ok(3) ok(3), of "0x08000100"] by auto
  then obtain s' where "vidmap 0x08000100 ?s = Some (s', 0)" "\<forall>off < 4096. translate demo_layout s' (USRVIDMAPADDR + off) = Some (VIDMEMADDR + off, True)"
    by blast
  moreover from spec [OF this(2), of 1] have "translate demo_layout s' (USRVIDMAPADDR + 1) = Some (VIDMEMADDR + 1, True)" by simp
  ultimately show ?thesis by (auto simp: vidmap_def)
qed

end
