(* ===== verification/Process.thy ===== *)
theory Process
  imports System_Calls
begin

text \<open>
  Processes (\<open>execute\<close>, \<open>halt\<close> and \<open>PCB_init\<close> of \<open>student-distrib/system_calls.c\<close>). Both calls end in
  assembly that does not return to the caller: the result says which instructions they end with.
  The arrays \<open>k_command\<close> and \<open>args\<close> of \<open>execute\<close> are the local blocks 9 and 10, its \<open>newPCB\<close>
  the field \<open>newPCB_var\<close>; a store past an array, a load of the uninitialised \<open>pid\<close> and a string
  without terminator inside its array have no defined result.
\<close>

text \<open>Ordinary return; \<open>iret\<close> with the frame pushed (\<open>ss\<close>, \<open>esp\<close>, flags, \<open>cs\<close>, \<open>eip\<close>);
  \<open>leave; ret\<close> with new \<open>esp\<close>, \<open>ebp\<close> and \<open>eax\<close>.\<close>

datatype control = Returns int | Iret u32 u32 u32 u32 u32 | Leave_Ret u32 u32 u32

abbreviation KERNEL_DS :: u32 where "KERNEL_DS \<equiv> 0x0018"
abbreviation USER_CS :: u32 where "USER_CS \<equiv> 0x0023"
abbreviation USER_DS :: u32 where "USER_DS \<equiv> 0x002B"
abbreviation CP_VADDR :: u32 where "CP_VADDR \<equiv> 0x08048000"
abbreviation USERSTACKADDR :: u32 where "USERSTACKADDR \<equiv> 0x08400000"

definition kernel_stack :: "u32 \<Rightarrow> u32" where
  "kernel_stack p = EIGHTMB - p * EIGHTKB"

definition pcb_addr :: "u32 \<Rightarrow> u32" where
  "pcb_addr p = kernel_stack p - EIGHTKB"

section \<open>PCB_init\<close>

text \<open>The search for a slot of the run queue that holds no process; \<open>None\<close> is the early return.\<close>

function free_slot :: "int list \<Rightarrow> nat \<Rightarrow> nat \<Rightarrow> nat option" where
  "free_slot pl i j =
     (if pl ! i > 0
      then let i = i + 1; j = j + 1; i = (if i > 6 then 0 else i)
           in if j > 6 then None else free_slot pl i j
      else Some i)"
  by pat_completeness auto
termination by (relation "measure (\<lambda>(pl, i, j). 7 - j)") auto

declare free_slot.simps [simp del]

text \<open>\<open>strcpy\<close> into the 128 bytes of \<open>args\<close>.\<close>

definition strcpy_args :: "mem \<Rightarrow> ptr \<Rightarrow> u8 list \<Rightarrow> u8 list option" where
  "strcpy_args m p old = do {
     n \<leftarrow> strlen m p;
     if unat n < 128 then Some (bytes_at m p (unat n + 1) @ drop (unat n + 1) old) else None }"

text \<open>The slot of the run queue: the parent's for a child, a free one for a base shell.\<close>

definition PCB_slot :: "u32 \<Rightarrow> 'a proc_state_scheme \<Rightarrow> nat option" where
  "PCB_slot p s =
     (if p > 3
      then Some (case find (\<lambda>i. word_of_int (priority_list_pid s ! i) = pid (pcbs s (current_PCB s))) [0..<7] of None \<Rightarrow> 7 | Some i \<Rightarrow> i)
      else free_slot (priority_list_pid s) 0 0)"

definition PCB_header :: "u32 \<Rightarrow> 'a proc_state_scheme \<Rightarrow> PCB" where
  "PCB_header p s =
     (let n = (newPCB_var s)\<lparr>pid := p, processState := 0, terminal_id := active_terminal s, parent_addr := - 1\<rparr>;
          n = n\<lparr>fileArray := for_upto 2 8 (\<lambda>i fa. fa[i := closed_fd]) (fileArray n)\<rparr>
      in if p > 3 then n\<lparr>terminal_id := terminal_id (pcbs s (current_PCB s)), parent_addr := current_PCB s\<rparr> else n)"

definition PCB_init :: "u32 \<Rightarrow> ptr \<Rightarrow> 'a proc_state_scheme \<Rightarrow> ('a proc_state_scheme \<times> int) option" where
  "PCB_init p arg s = do {
     let slot = PCB_slot p s;
     let s = s\<lparr>newPCB_var := PCB_header p s\<rparr>;
     case slot of None \<Rightarrow> Some (s, -1)
     | Some i \<Rightarrow> do {
         pl \<leftarrow> arr_set (priority_list_pid s) i (sint p);
         let s = s\<lparr>priority_list_pid := pl, current_schedule := int i\<rparr>;
         a \<leftarrow> strcpy_args (mem s) arg (args (newPCB_var s));
         let fa = (fileArray (newPCB_var s))[0 := opened_fd keyboard_jumptable 0, 1 := opened_fd terminal_jumptable 0];
         Some (s\<lparr>newPCB_var := (newPCB_var s)\<lparr>args := a, fileArray := fa\<rparr>\<rparr>, 0) } }"

section \<open>execute\<close>

definition word_end :: "u8 \<Rightarrow> bool" where
  "word_end c \<longleftrightarrow> c = 0 \<or> c = 32 \<or> c = 10"

partial_function (option) scan_word :: "mem \<Rightarrow> ptr \<Rightarrow> ptr option" where
  "scan_word m scan = (if \<not> word_end (m scan) then scan_word m (padd scan 1) else Some scan)"

partial_function (option) copy_arg :: "mem \<Rightarrow> ptr \<Rightarrow> nat \<Rightarrow> (mem \<times> ptr) option" where
  "copy_arg m scan i =
     (if \<not> word_end (m scan)
      then if i < 128 then copy_arg (m((Local 10, of_nat i) := m scan)) (padd scan 1) (i + 1) else None
      else Some (m, scan))"

text \<open>Splitting \<open>k_command\<close> into the program's name, left in place, and one argument.\<close>

definition parse_command :: "mem \<Rightarrow> mem option" where
  "parse_command m = do {
     let m = for_upto 0 128 (\<lambda>i m. m((Local 10, of_nat i) := 0)) m;
     scan \<leftarrow> scan_word m (Local 9, 0);
     if m scan \<noteq> 0
     then do {
       let m = m(scan := 0);
       (m, scan) \<leftarrow> copy_arg m (padd scan 1) 0;
       Some (if m scan \<noteq> 0 then m(scan := 0) else m) }
     else Some m }"

text \<open>The lowest process number not taken; when all are, \<open>pid\<close> stays uninitialised.\<close>

definition alloc_pid :: "'a proc_state_scheme \<Rightarrow> ('a proc_state_scheme \<times> u32) option" where
  "alloc_pid s = do {
     i \<leftarrow> find (\<lambda>i. pid_bitpattern s ! i = 0) [0..<7];
     Some (s\<lparr>pid_bitpattern := (pid_bitpattern s)[i := 1]\<rparr>, of_nat i + 1) }"

definition start_process :: "u32 \<Rightarrow> u32 \<Rightarrow> u32 \<Rightarrow> u32 \<Rightarrow> 'a proc_state_scheme \<Rightarrow> ('a proc_state_scheme \<times> control) option" where
  "start_process p sp bp peip s = do {
     let a = pcb_addr p;
     (s, _) \<leftarrow> PCB_init p (Local 10, 0) s;
     let s = s\<lparr>pcbs := (pcbs s)(a := newPCB_var s)\<rparr>;
     let s = s\<lparr>tss_ss0 := KERNEL_DS, tss_esp0 := kernel_stack p\<rparr>;
     let s = s\<lparr>pcbs := (pcbs s)(a := (pcbs s a)\<lparr>kernelStack := kernel_stack p, kernelSS := KERNEL_DS\<rparr>)\<rparr>;
     let s = s\<lparr>current_task := p\<rparr>;
     let s = s\<lparr>pcbs := (pcbs s)(a := (pcbs s a)\<lparr>kesp := sp, kebp := bp, processState := 2\<rparr>)\<rparr>;
     tp \<leftarrow> arr_set (terminal_current_pid s) (unat (active_terminal s)) p;
     Some (s\<lparr>terminal_current_pid := tp\<rparr>, Iret USER_DS (USERSTACKADDR - 4) 0x0200 USER_CS peip) }"

definition execute :: "ptr \<Rightarrow> 'a proc_state_scheme \<Rightarrow> ('a proc_state_scheme \<times> control) option" where
  "execute command s = do {
     let s = cli s;
     let sp = esp s; let bp = ebp s;
     len \<leftarrow> strlen (mem s) command;
     if len < 1 then Some (s, Returns (-1))
     else if total_tasks s \<ge> 7 then Some (s, Returns (-1))
     else do {
       m \<leftarrow> (if len < 1024 then strcpy (mem s) (Local 9, 0) command else None);
       m \<leftarrow> parse_command m;
       (s, r) \<leftarrow> is_executable (Local 9, 0) (s\<lparr>mem := m\<rparr>);
       if r = 0 then Some (s, Returns (-1))
       else do {
         let s = s\<lparr>total_tasks := total_tasks s + 1\<rparr>;
         (s, p) \<leftarrow> alloc_pid s;
         s \<leftarrow> map_user_page p s;
         (s, peip) \<leftarrow> loadProcess (Local 9, 0) CP_VADDR s;
         start_process p sp bp peip s } } }"

definition shell_literal :: "'a proc_state_scheme \<Rightarrow> 'a proc_state_scheme" where
  "shell_literal s = s\<lparr>mem := put_bytes (mem s) (Local 2, 0) (cbytes ''shell'' @ [0])\<rparr>"

section \<open>halt\<close>

text \<open>After the parent's page and stack are back: its process takes over the slot of the run queue.\<close>

definition halt_finish :: "u8 \<Rightarrow> 'a proc_state_scheme \<Rightarrow> 'a proc_state_scheme \<times> control" where
  "halt_finish status s =
     (let cur = pcbs s (current_PCB s);
          s = (case find (\<lambda>i. word_of_int (priority_list_pid s ! i) = pid cur) [0..<7] of None \<Rightarrow> s
            | Some i \<Rightarrow> s\<lparr>priority_list_pid := (priority_list_pid s)[i := sint (current_task s)]\<rparr>)
      in if exception_halt s = 1 then (s\<lparr>exception_halt := 0\<rparr>, Leave_Ret (kesp cur) (kebp cur) 256)
         else (s, Leave_Ret (kebp cur) (kebp cur) (ucast status)))"

definition halt :: "u8 \<Rightarrow> 'a proc_state_scheme \<Rightarrow> ('a proc_state_scheme \<times> control) option" where
  "halt status s = do {
     let s = cli s;
     let c = current_PCB s;
     let s = s\<lparr>total_tasks := total_tasks s - 1\<rparr>;
     let s = s\<lparr>pcbs := (pcbs s)(c := (pcbs s c)\<lparr>fileArray := for_upto 0 8 (\<lambda>i fa. fa[i := closed_fd]) (fileArray (pcbs s c))\<rparr>)\<rparr>;
     if pid (pcbs s c) > 3
     then do {
       let parent = pcbs s (parent_addr (pcbs s c));
       let s = s\<lparr>tss_ss0 := KERNEL_DS, tss_esp0 := kernelStack parent\<rparr>;
       s \<leftarrow> map_user_page (pid parent) s;
       Some (halt_finish status (s\<lparr>current_task := pid parent\<rparr>)) }
     else do {
       bp \<leftarrow> arr_set (pid_bitpattern s) (unat (pid (pcbs s c) - 1)) 0;
       (s, r) \<leftarrow> execute (Local 2, 0) (shell_literal (s\<lparr>pid_bitpattern := bp\<rparr>));
       case r of Returns _ \<Rightarrow> Some (halt_finish status s) | _ \<Rightarrow> Some (s, r) } }"

section \<open>Lemmas: the command line\<close>

definition prog_name :: "u8 list \<Rightarrow> u8 list" where
  "prog_name cmd = takeWhile (\<lambda>c. \<not> word_end c) cmd"

definition prog_arg :: "u8 list \<Rightarrow> u8 list" where
  "prog_arg cmd = takeWhile (\<lambda>c. \<not> word_end c) (drop (Suc (length (prog_name cmd))) cmd)"

lemma cstr_Nil: "cstr m p [] \<longleftrightarrow> m p = 0"
  by (simp add: cstr_def bytes_at_0)

lemma scan_word_cstr:
  "cstr m p str \<Longrightarrow> scan_word m p = Some (padd p (of_nat (length (takeWhile (\<lambda>c. \<not> word_end c) str))))"
proof (induction str arbitrary: p)
  case Nil
  then show ?case by (subst scan_word.simps) (simp add: cstr_Nil word_end_def)
next
  case (Cons c str)
  then have "m p = c" "cstr m (padd p 1) str" using cstr_tl by blast+
  with Cons.IH [OF this(2)] show ?case by (subst scan_word.simps) (simp add: word_end_def add.commute)
qed

lemma cstr_drop:
  assumes "cstr m p str" and "k \<le> length str"
  shows "cstr m (padd p (of_nat k)) (drop k str)"
  using assms
proof (induction k arbitrary: p str)
  case (Suc k)
  then obtain c t where str: "str = c # t" by (cases str) auto
  then have "cstr m (padd p 1) t" using Suc.prems(1) cstr_tl by blast
  from Suc.IH [OF this] show ?case using Suc.prems(2) str by (simp add: add.commute)
qed simp

lemma cstr_upd_other: "cstr m p str \<Longrightarrow> fst q \<noteq> fst p \<Longrightarrow> cstr (m(q := c)) p str"
proof -
  assume c: "cstr m p str" and q: "fst q \<noteq> fst p"
  have "padd p k \<noteq> q" for k using q by (metis fst_padd)
  then have "(m(q := c)) (padd p k) = m (padd p k)" for k by simp
  then show ?thesis using c by (simp add: cstr_def bytes_at_def)
qed

lemma copy_arg_cstr:
  "cstr m p str \<Longrightarrow> fst p = Local 9 \<Longrightarrow> a = takeWhile (\<lambda>c. \<not> word_end c) str \<Longrightarrow> i + length a \<le> 128 \<Longrightarrow>
   copy_arg m p i = Some (put_bytes m (Local 10, of_nat i) a, padd p (of_nat (length a)))"
proof (induction str arbitrary: m p i a)
  case Nil
  then show ?case by (subst copy_arg.simps) (simp add: cstr_Nil word_end_def)
next
  case (Cons c str)
  have mp: "m p = c" and tl: "cstr m (padd p 1) str" using Cons.prems(1) cstr_tl by blast+
  show ?case
  proof (cases "word_end c")
    case True
    then show ?thesis using Cons.prems(3) mp by (subst copy_arg.simps) simp
  next
    case False
    define a' where "a' = takeWhile (\<lambda>c. \<not> word_end c) str"
    have a: "a = c # a'" using Cons.prems(3) False by (simp add: a'_def)
    let ?m = "m((Local 10, of_nat i) := c)"
    have "cstr ?m (padd p 1) str" using cstr_upd_other [OF tl, of "(Local 10, of_nat i)" c] Cons.prems(2) by simp
    from Cons.IH [OF this _ a'_def, of "Suc i"] Cons.prems(2,4) a
    have IH: "copy_arg ?m (padd p 1) (Suc i) = Some (put_bytes ?m (Local 10, of_nat (Suc i)) a', padd (padd p 1) (of_nat (length a')))" by (simp add: fun_upd_def)
    have "put_bytes ?m (Local 10, of_nat (Suc i)) a' = put_bytes m (Local 10, of_nat i) a"
      using put_bytes_Cons [of a' m "(Local 10, of_nat i)" c] Cons.prems(4) by (simp add: a padd_def add.commute)
    then show ?thesis using IH False mp Cons.prems(4) a by (subst copy_arg.simps) (simp add: add.commute)
  qed
qed

lemma zero_args: "n \<le> 128 \<Longrightarrow> for_upto 0 n (\<lambda>i m. m((Local 10, of_nat i) := 0)) m = put_bytes m (Local 10, 0) (replicate n 0)"
proof (induction n)
  case (Suc n)
  then show ?case
    using put_bytes_snoc [of "replicate n 0" m "(Local 10, 0)" 0]
    by (simp add: for_upto_last padd_def replicate_append_same fun_upd_def)
qed simp

lemma cstr_cut:
  assumes "cstr m p str" and "k \<le> length str"
  shows "cstr (m(padd p (of_nat k) := 0)) p (take k str)"
proof -
  have len: "length str < 2 ^ 32" using assms(1) by (simp add: cstr_def)
  have "(m(padd p (of_nat k) := 0)) (padd p (of_nat i)) = str ! i" if "i < k" for i
  proof -
    have "(of_nat i :: u32) \<noteq> of_nat k" using that assms(2) len by (simp add: word_unat_eq_iff unat_of_nat)
    then show ?thesis using cstr_nth(1) [OF assms(1), of i] that assms(2) by simp
  qed
  then have "bytes_at (m(padd p (of_nat k) := 0)) p k = take k str" using assms(2) by (intro nth_equalityI) simp_all
  moreover have "0 \<notin> set (take k str)" using assms(1) by (auto simp: cstr_def dest: in_set_takeD)
  ultimately show ?thesis using len assms(2) by (simp add: cstr_def min_def)
qed

lemma cstr_cong:
  assumes "cstr m p str" and "\<And>k. k \<le> length str \<Longrightarrow> m' (padd p (of_nat k)) = m (padd p (of_nat k))"
  shows "cstr m' p str"
proof -
  have "bytes_at m' p (length str) = bytes_at m p (length str)" using assms(2) by (intro nth_equalityI) simp_all
  then show ?thesis using assms by (simp add: cstr_def)
qed

lemma only_locals_upd: "fst q = Local j \<Longrightarrow> only_locals {j} m (m(q := c))"
  by (auto simp: only_locals_def)

lemma parse_command_result:
  assumes "cstr m (Local 9, 0) cmd" and "length (prog_arg cmd) < 128"
  shows "\<exists>m'. parse_command m = Some m' \<and> cstr m' (Local 9, 0) (prog_name cmd) \<and> cstr m' (Local 10, 0) (prog_arg cmd)
    \<and> only_locals {9, 10} m m'"
proof -
  let ?n = "length (prog_name cmd)"
  define m1 where "m1 = put_bytes m (Local 10, 0) (replicate 128 0)"
  define scan where "scan = padd (Local 9, 0) (of_nat ?n)"
  have z: "for_upto 0 128 (\<lambda>i m. m((Local 10, of_nat i) := 0)) m = m1" by (simp add: zero_args m1_def)
  have o1: "only_locals {10} m m1" unfolding m1_def by (rule only_locals_put) simp
  have c1: "cstr m1 (Local 9, 0) cmd" using only_locals_views(3) [OF o1, of "(Local 9, 0)"] assms(1) by auto
  have sc: "scan_word m1 (Local 9, 0) = Some scan" using scan_word_cstr [OF c1] by (simp add: scan_def prog_name_def)
  have n: "?n \<le> length cmd" by (simp add: prog_name_def length_takeWhile_le)
  have t: "take ?n cmd = prog_name cmd" unfolding prog_name_def by (rule takeWhile_eq_take [symmetric])
  have zero: "m1 (Local 10, k) = 0" if "unat k < 128" for k
    using put_bytes_padd [of k "replicate 128 0" m "(Local 10, 0)"] that by (simp add: m1_def padd_def)
  have o19: "only_locals {9, 10} m m1" by (rule only_locals_mono [OF o1]) simp
  show ?thesis
  proof (cases "m1 scan = 0")
    case True
    have "?n = length cmd" using cstr_nth(2) [OF c1, of ?n] True n by (cases "?n < length cmd") (auto simp: scan_def)
    then have "prog_name cmd = cmd" "prog_arg cmd = []" using t by (simp_all add: prog_arg_def)
    moreover have "m1 (Local 10, 0) = 0" using zero [of 0] by simp
    ultimately show ?thesis using z sc True c1 o19 by (simp add: parse_command_def cstr_Nil)
  next
    case False
    have lt: "?n < length cmd" using cstr_end [OF c1] False n by (cases "?n = length cmd") (auto simp: scan_def)
    define m2 where "m2 = m1(scan := 0)"
    let ?a = "prog_arg cmd" and ?rest = "drop (Suc ?n) cmd"
    define m3 where "m3 = put_bytes m2 (Local 10, 0) ?a"
    have c2: "cstr m2 (Local 9, 0) (prog_name cmd)" using cstr_cut [OF c1, of ?n] lt unfolding m2_def scan_def t by simp
    have len: "length cmd < 2 ^ 32" using c1 by (simp add: cstr_def)
    have "cstr m1 (padd (Local 9, 0) (of_nat (Suc ?n))) ?rest" using cstr_drop [OF c1, of "Suc ?n"] lt by simp
    then have "cstr m1 (padd scan 1) ?rest" by (simp add: scan_def add.commute)
    moreover have "m2 (padd (padd scan 1) (of_nat k)) = m1 (padd (padd scan 1) (of_nat k))" if "k \<le> length ?rest" for k
    proof -
      have "unat (1 + of_nat k :: u32) = Suc k" using that len lt by (subst unat_plus_small) (simp_all add: unat_of_nat)
      then have "(1 + of_nat k :: u32) \<noteq> 0" by auto
      then show ?thesis by (simp add: m2_def)
    qed
    ultimately have cr: "cstr m2 (padd scan 1) ?rest" by (rule cstr_cong)
    have cp: "copy_arg m2 (padd scan 1) 0 = Some (m3, padd (padd scan 1) (of_nat (length ?a)))"
      using copy_arg_cstr [OF cr, of ?a 0] assms(2) by (simp add: prog_arg_def m3_def scan_def)
    let ?scan' = "padd (padd scan 1) (of_nat (length ?a))"
    define m4 where "m4 = (if m3 ?scan' \<noteq> 0 then m3(?scan' := 0) else m3)"
    have o2: "only_locals {9} m1 m2" unfolding m2_def by (rule only_locals_upd) (simp add: scan_def)
    have o3: "only_locals {10} m2 m3" unfolding m3_def by (rule only_locals_put) simp
    have o4: "only_locals {9} m3 m4" unfolding m4_def using only_locals_upd [of ?scan' 9 m3 0] by (simp add: scan_def)
    have la: "length ?a \<le> length ?rest" unfolding prog_arg_def by (rule length_takeWhile_le)
    have "cstr m3 (Local 9, 0) (prog_name cmd)" using only_locals_views(3) [OF o3, of "(Local 9, 0)"] c2 by auto
    then have "cstr m4 (Local 9, 0) (prog_name cmd)"
    proof (rule cstr_cong)
      fix k assume k: "k \<le> length (prog_name cmd)"
      have e: "?scan' = padd (Local 9, 0) (of_nat (?n + Suc (length ?a)))" by (simp add: scan_def add.assoc)
      have "k < ?n + Suc (length ?a)" "?n + Suc (length ?a) < 2 ^ 32" using k la len lt by simp_all
      then have "(of_nat k :: u32) \<noteq> of_nat (?n + Suc (length ?a))" by (simp only: word_unat_eq_iff unat_of_nat) simp
      then show "m4 (padd (Local 9, 0) (of_nat k)) = m3 (padd (Local 9, 0) (of_nat k))" unfolding m4_def e by simp
    qed
    moreover have "cstr m3 (Local 10, 0) ?a"
    proof -
      have "\<not> in_region (Local 10, 0) (length ?a) (padd (Local 10, 0) (of_nat (length ?a)))" using assms(2) by (simp add: in_region_padd unat_of_nat)
      then have "m3 (padd (Local 10, 0) (of_nat (length ?a))) = m2 (padd (Local 10, 0) (of_nat (length ?a)))" unfolding m3_def by (rule put_bytes_other)
      also have "\<dots> = 0" using zero [of "of_nat (length ?a)"] assms(2) by (simp add: m2_def scan_def padd_def unat_of_nat)
      finally show ?thesis using assms(2) by (auto simp: cstr_def m3_def prog_arg_def word_end_def dest: set_takeWhileD)
    qed
    then have "cstr m4 (Local 10, 0) ?a" using only_locals_views(3) [OF o4, of "(Local 10, 0)"] by auto
    moreover have "only_locals {9, 10} m m4"
      using only_locals_trans [OF only_locals_trans [OF only_locals_trans [OF o1 o2] o3] o4] by (rule only_locals_mono) auto
    moreover have "parse_command m = Some m4" using z sc False cp unfolding parse_command_def by (simp add: m4_def flip: m2_def)
    ultimately show ?thesis by blast
  qed
qed

section \<open>Lemmas: starting a program\<close>

text \<open>The file system image is not mapped through the user page; a program that can be started.\<close>

definition image_safe :: "'a fs_state_scheme \<Rightarrow> bool" where
  "image_safe s \<longleftrightarrow> (\<forall>r. in_fs (mem s) (bootblock_ptr s) r \<longrightarrow> \<not> in_user_page r)"

definition program_at :: "mem \<Rightarrow> u32 \<Rightarrow> u8 list \<Rightarrow> u32 \<Rightarrow> bool" where
  "program_at m bb name i \<longleftrightarrow>
     (\<exists>k. dir_lookup m bb name = Some k \<and> filetype m (dentry_at bb (of_nat k)) = 2 \<and> idx_inode m (dentry_at bb (of_nat k)) = i)
     \<and> i \<noteq> 0 \<and> inode_wf m bb i \<and> 28 \<le> file_length m bb i \<and> file_length m bb i \<le> 0x3B8000
     \<and> take 4 (file_contents m bb i) = [0x7F, 0x45, 0x4C, 0x46]"

lemma program_at_same:
  assumes "fs_wf m bb" and "same_fs m bb m'" and "program_at m bb name i"
  shows "program_at m' bb name i" "file_contents m' bb i = file_contents m bb i" "file_length m' bb i = file_length m bb i"
proof -
  have wf: "inode_wf m bb i" using assms(3) by (simp add: program_at_def)
  note c = same_fs_contents [OF assms(1,2) wf]
  obtain k where k: "dir_lookup m bb name = Some k" "filetype m (dentry_at bb (of_nat k)) = 2" "idx_inode m (dentry_at bb (of_nat k)) = i"
    using assms(3) unfolding program_at_def by blast
  have "k \<le> 62" by (rule dir_lookup_le [OF assms(1) k(1)])
  then show "program_at m' bb name i"
    using k assms(3) c same_fs_lookup [OF assms(1,2), of name] same_fs_dentry(2,3) [OF assms(1,2), of k] by (simp add: program_at_def)
  show "file_contents m' bb i = file_contents m bb i" "file_length m' bb i = file_length m bb i" by (rule c)+
qed

lemma only_locals_same_fs: "only_locals B m m' \<Longrightarrow> same_fs m bb m'"
  by (auto simp: same_fs_def only_locals_def in_fs_def in_region_def)

lemma is_executable_program:
  assumes "fs_ready s" and "cstr (mem s) fname name" and "fname \<noteq> NULL" and "program_at (mem s) (bootblock_ptr s) name i"
  shows "\<exists>m'. is_executable fname s = Some (s\<lparr>mem := m'\<rparr>, 1) \<and> only_locals {7, 8} (mem s) m'"
proof -
  let ?bb = "bootblock_ptr s"
  obtain k where k: "lookup_name (mem s) ?bb fname = Some k" "filetype (mem s) (dentry_at ?bb (of_nat k)) = 2"
    "idx_inode (mem s) (dentry_at ?bb (of_nat k)) = i"
    using assms(4) unfolding program_at_def lookup_name_dir [OF assms(2)] by blast
  have p: "i \<noteq> 0" "inode_wf (mem s) ?bb i" "28 \<le> file_length (mem s) ?bb i" "take 4 (file_contents (mem s) ?bb i) = [0x7F, 0x45, 0x4C, 0x46]"
    using assms(4) by (simp_all add: program_at_def)
  have "inode_wf (mem s) ?bb (idx_inode (mem s) (dentry_at ?bb (of_nat l))) \<and> 4 \<le> file_length (mem s) ?bb (idx_inode (mem s) (dentry_at ?bb (of_nat l)))"
    if "lookup_name (mem s) ?bb fname = Some l" for l using that k p(2,3) by simp
  from is_executable_result [OF assms(1-3) refl this] obtain s' r where s': "is_executable fname s = Some (s', r)" "s' = s\<lparr>mem := mem s'\<rparr>"
    "only_locals {7, 8} (mem s) (mem s')"
    "r = 1 \<longleftrightarrow> (case lookup_name (mem s) ?bb fname of None \<Rightarrow> False | Some k \<Rightarrow>
         filetype (mem s) (dentry_at ?bb (of_nat k)) = 2 \<and> idx_inode (mem s) (dentry_at ?bb (of_nat k)) \<noteq> 0
         \<and> take 4 (file_contents (mem s) ?bb (idx_inode (mem s) (dentry_at ?bb (of_nat k)))) = [0x7F, 0x45, 0x4C, 0x46])"
    by blast
  have "r = 1" using s'(4) k p(1,4) by simp
  then show ?thesis using s'(1,3) by (intro exI [of _ "mem s'"]) (simp flip: s'(2))
qed

text \<open>Loading a program through the user page.\<close>

lemma loadProcess_program:
  assumes "fs_ready s" and "image_safe s" and "cstr (mem s) fname name" and "fst fname \<notin> {Local 5}" and "program_at (mem s) (bootblock_ptr s) name i"
  shows "\<exists>m'. loadProcess fname CP_VADDR s = Some (s\<lparr>mem := m'\<rparr>, ld32 m' (Global, CP_VADDR + 24))
    \<and> bytes_at m' (Global, CP_VADDR) (file_length (mem s) (bootblock_ptr s) i) = file_contents (mem s) (bootblock_ptr s) i
    \<and> (\<forall>r. \<not> in_user_page r \<and> fst r \<notin> {Local 3, Local 5, Local 6} \<longrightarrow> m' r = mem s r)"
proof -
  let ?bb = "bootblock_ptr s" and ?L = "file_length (mem s) (bootblock_ptr s) i"
  obtain k where k: "lookup_name (mem s) ?bb fname = Some k" "filetype (mem s) (dentry_at ?bb (of_nat k)) = 2"
    "idx_inode (mem s) (dentry_at ?bb (of_nat k)) = i"
    using assms(5) unfolding program_at_def lookup_name_dir [OF assms(3)] by blast
  have p: "inode_wf (mem s) ?bb i" "28 \<le> ?L" "?L \<le> 0x3B8000" using assms(5) by (simp_all add: program_at_def)
  have up: "in_user_page r" if r: "in_region (Global, CP_VADDR) ?L r" for r
  proof -
    obtain j where j: "r = (Global, CP_VADDR + j)" "unat j < ?L" using r by (auto elim!: in_regionE simp: padd_def)
    have "unat (0x48000 + j) = 0x48000 + unat j" using j(2) p(3) by (subst unat_plus_small) simp_all
    moreover have "CP_VADDR + j - USR_LOW_BOUND = 0x48000 + j" by (simp add: algebra_simps)
    ultimately show ?thesis using j p(3) by (simp add: in_user_page_def word_less_nat_alt)
  qed
  then have out: "\<not> in_fs (mem s) ?bb r" if "in_region (Global, CP_VADDR) ?L r" for r using that assms(2) unfolding image_safe_def by blast
  have "fst fname \<noteq> Local 5" using assms(4) by simp
  from loadProcess_result [OF assms(1,3) this refl k(1) refl k(2) k(3) [symmetric] p(1,2) out]
  obtain s' where s': "loadProcess fname CP_VADDR s = Some (s', ld32 (mem s') (Global, CP_VADDR + 24))" "s' = s\<lparr>mem := mem s'\<rparr>"
    "bytes_at (mem s') (Global, CP_VADDR) ?L = file_contents (mem s) ?bb i"
    "\<forall>r. fst r \<notin> {Local 3, Local 5, Local 6} \<and> \<not> in_region (Global, CP_VADDR) ?L r \<longrightarrow> mem s' r = mem s r"
    by blast
  moreover have "mem s' r = mem s r" if "\<not> in_user_page r" "fst r \<notin> {Local 3, Local 5, Local 6}" for r
    using that s'(4) up by blast
  ultimately show ?thesis by (intro exI [of _ "mem s'"]) (metis s'(2))
qed

interpretation pids: slot_table "\<lambda>t. length t = 7" 0 7 "\<lambda>t i. (t :: u32 list) ! i = 0" "\<lambda>i t. t[i := 1]" "\<lambda>i t. t[i := 0]"
  by unfold_locales (auto simp: nth_list_update)

text \<open>The command, copied and split: memory but the two arrays is as before.\<close>

lemma command_ready:
  assumes "cstr m command cmd" and "fst command \<noteq> Local 9" and "length cmd < 1024" and "length (prog_arg cmd) < 128"
  shows "\<exists>m' m''. strcpy m (Local 9, 0) command = Some m' \<and> parse_command m' = Some m'' \<and> cstr m'' (Local 9, 0) (prog_name cmd)
    \<and> cstr m'' (Local 10, 0) (prog_arg cmd) \<and> only_locals {9, 10} m m''"
proof -
  let ?n = "Suc (length cmd)"
  have "separate (Local 9, 0) ?n command ?n" using assms(2) by (auto simp: separate_def)
  from strcpy_copy [OF assms(1) this] have sc: "strcpy m (Local 9, 0) command = Some (put_bytes m (Local 9, 0) (bytes_at m command ?n))"
    using assms(3) by (simp add: copy_region_put_bytes)
  have "bytes_at m command ?n = cmd @ [0]" using assms(1) bytes_at_append [of m command "length cmd" 1] by (simp add: cstr_def bytes_at_def)
  moreover have "0 \<notin> set cmd" "length cmd < 2 ^ 32" using assms(1) by (simp_all add: cstr_def)
  ultimately have c: "cstr (put_bytes m (Local 9, 0) (bytes_at m command ?n)) (Local 9, 0) cmd"
    using cstr_put_bytes [of cmd m "(Local 9, 0)"] by (simp only: not_False_eq_True)
  have o1: "only_locals {9} m (put_bytes m (Local 9, 0) (bytes_at m command ?n))" by (rule only_locals_put) simp
  from parse_command_result [OF c assms(4)] obtain m'' where m'': "parse_command (put_bytes m (Local 9, 0) (bytes_at m command ?n)) = Some m''"
    "cstr m'' (Local 9, 0) (prog_name cmd)" "cstr m'' (Local 10, 0) (prog_arg cmd)" "only_locals {9, 10} (put_bytes m (Local 9, 0) (bytes_at m command ?n)) m''"
    by blast
  have "only_locals {9, 10} m m''" using only_locals_trans [OF o1 m''(4)] by (rule only_locals_mono) simp
  then show ?thesis using sc m''(1-3) by blast
qed

lemma strlen_pos: "cstr m p str \<Longrightarrow> str \<noteq> [] \<Longrightarrow> length str < 1024 \<Longrightarrow> \<exists>n. strlen m p = Some n \<and> \<not> n < 1 \<and> n < 1024"
proof -
  assume a: "cstr m p str" "str \<noteq> []" "length str < 1024"
  have "unat (of_nat (length str) :: u32) = length str" using a(3) by (simp add: unat_of_nat)
  then show ?thesis using strlen_cstr [OF a(1)] a(2,3) by (simp add: word_less_nat_alt)
qed

lemma map_user_page_state:
  assumes "tables_ok s"
  shows "\<exists>m f. map_user_page p s = Some (s\<lparr>pageDir := (pageDir s)[32 := user_page_addr p OR FOURMB_USER_PAGE], frames := f,
      tlb_user := Some (user_page_addr p), mem := m\<rparr>) \<and> (\<forall>r. \<not> in_user_page r \<longrightarrow> m r = mem s r)
    \<and> f = physical s \<and> (\<forall>off < FOURMB. m (Global, USR_LOW_BOUND + off) = physical s (user_page_addr p + off))"
proof -
  let ?t = "s\<lparr>pageDir := (pageDir s)[32 := user_page_addr p OR FOURMB_USER_PAGE]\<rparr>"
  have f: "user_frame (pageDir ?t ! 32) = Some (user_page_addr p)" using assms by (simp add: tables_ok_def user_page_frame(1))
  have "physical ?t = physical s" by (simp add: physical_def fun_eq_iff split: option.splits)
  then show ?thesis
    unfolding map_user_page_result [OF assms] using load_cr3_mem [of _ "cr3 s" ?t] load_cr3_shows [OF f, of _ "cr3 s"]
    by (intro exI [of _ "mem (load_cr3 (cr3 s) ?t)"] exI [of _ "frames (load_cr3 (cr3 s) ?t)"]) (use f in \<open>simp add: load_cr3_def Let_def\<close>)
qed

lemma not_user_page_local: "\<not> in_user_page (Local j, a)"
  by (simp add: in_user_page_def)

lemma execute_loads:
  assumes "fs_ready s" and "image_safe s" and "tables_ok s" and "cstr (mem s) command cmd" and "fst command \<noteq> Local 9"
    and "cmd \<noteq> []" and "length cmd < 1024" and "length (prog_arg cmd) < 128" and "total_tasks s < 7"
    and "program_at (mem s) (bootblock_ptr s) (prog_name cmd) i" and "pids.first_free (pid_bitpattern s) = Some n" and "p = of_nat n + 1"
  shows "\<exists>M F. execute command s = start_process p (esp s) (ebp s) (ld32 M (Global, CP_VADDR + 24))
      (s\<lparr>iflag := False, mem := M, pageDir := (pageDir s)[32 := user_page_addr p OR FOURMB_USER_PAGE], frames := F, tlb_user := Some (user_page_addr p),
        total_tasks := total_tasks s + 1, pid_bitpattern := (pid_bitpattern s)[n := 1]\<rparr>)
    \<and> bytes_at M (Global, CP_VADDR) (file_length (mem s) (bootblock_ptr s) i) = file_contents (mem s) (bootblock_ptr s) i
    \<and> cstr M (Local 10, 0) (prog_arg cmd)
    \<and> (\<forall>r. \<not> in_user_page r \<and> fst r \<notin> Local ` {3, 5, 6, 7, 8, 9, 10} \<longrightarrow> M r = mem s r) \<and> F = physical s"
proof -
  let ?bb = "bootblock_ptr s"
  have wf: "fs_wf (mem s) ?bb" using assms(1) by (simp add: fs_ready_def)
  obtain len where len: "strlen (mem s) command = Some len" "\<not> len < 1" "len < 1024" using strlen_pos [OF assms(4,6,7)] by blast
  obtain m1 m2 where m2: "strcpy (mem s) (Local 9, 0) command = Some m1" "parse_command m1 = Some m2" "cstr m2 (Local 9, 0) (prog_name cmd)"
    "cstr m2 (Local 10, 0) (prog_arg cmd)" "only_locals {9, 10} (mem s) m2"
    using command_ready [OF assms(4,5,7,8)] by blast
  let ?s2 = "s\<lparr>iflag := False, mem := m2\<rparr>"
  have r2: "fs_ready ?s2" using only_locals_ready [OF m2(5) assms(1)] by (simp add: fs_ready_def)
  have p2: "program_at (mem ?s2) (bootblock_ptr ?s2) (prog_name cmd) i" using program_at_same(1) [OF wf only_locals_same_fs [OF m2(5)] assms(10)] by simp
  obtain m3 where m3: "is_executable (Local 9, 0) ?s2 = Some (?s2\<lparr>mem := m3\<rparr>, 1)" "only_locals {7, 8} m2 m3"
    using is_executable_program [OF r2 _ _ p2, of "(Local 9, 0)"] m2(3) by auto
  have o3: "only_locals {7, 8, 9, 10} (mem s) m3" using only_locals_trans [OF m2(5) m3(2)] by (rule only_locals_mono) simp
  define s3 where "s3 = s\<lparr>iflag := False, mem := m3, total_tasks := total_tasks s + 1, pid_bitpattern := (pid_bitpattern s)[n := 1]\<rparr>"
  have t3: "tables_ok s3" using assms(3) by (simp add: s3_def tables_ok_def)
  obtain m4 F where m4: "map_user_page p s3 = Some (s3\<lparr>pageDir := (pageDir s3)[32 := user_page_addr p OR FOURMB_USER_PAGE], frames := F,
      tlb_user := Some (user_page_addr p), mem := m4\<rparr>)" "\<forall>r. \<not> in_user_page r \<longrightarrow> m4 r = mem s3 r" "F = physical s3"
    using map_user_page_state [OF t3] by blast
  have "m3 (Global, a) = mem s (Global, a)" for a using only_locals_at [OF o3, of "(Global, a)"] by auto
  then have fr: "F = physical s" unfolding m4(3) by (simp add: physical_def s3_def fun_eq_iff split: option.splits)
  define s4 where "s4 = s3\<lparr>pageDir := (pageDir s3)[32 := user_page_addr p OR FOURMB_USER_PAGE], frames := F, tlb_user := Some (user_page_addr p), mem := m4\<rparr>"
  have eq4: "m4 r = mem s r" if "\<not> in_user_page r" "fst r \<notin> Local ` {7, 8, 9, 10}" for r
    using that spec [OF m4(2), of r] only_locals_at [OF o3, of r] by (simp add: s3_def)
  have sf: "same_fs (mem s) ?bb m4"
    unfolding same_fs_def
  proof (intro allI impI)
    fix r assume r: "in_fs (mem s) ?bb r"
    have "\<not> in_user_page r" using r assms(2) unfolding image_safe_def by blast
    moreover have "fst r = Global" using r by (simp add: in_fs_def in_region_def)
    ultimately show "m4 r = mem s r" using eq4 [of r] by auto
  qed
  have w4: "fs_wf m4 ?bb" "in_fs m4 ?bb = in_fs (mem s) ?bb" by (rule same_fs_wf [OF wf sf])+
  have fs4: "mem s4 = m4" "bootblock_ptr s4 = ?bb" "inode_start_addr s4 = inode_start_addr s" "data_start_addr s4 = data_start_addr s"
    by (simp_all add: s4_def s3_def)
  have r4: "fs_ready s4" using assms(1) w4 same_fs_header(4) [OF wf sf] by (simp add: fs_ready_def fs4)
  have i4: "image_safe s4" using assms(2) w4 by (simp add: image_safe_def fs4)
  note p4 = program_at_same [OF wf sf assms(10)]
  have c4: "cstr m4 (Local 9, 0) (prog_name cmd)" "cstr m4 (Local 10, 0) (prog_arg cmd)"
  proof -
    have "m4 (padd (Local j, 0) k) = m2 (padd (Local j, 0) k)" if "j \<in> {9, 10}" for j k
      using m4(2) not_user_page_local [of j "0 + k"] only_locals_at [OF m3(2), of "padd (Local j, 0) k"] that by (auto simp: s3_def padd_def)
    then show "cstr m4 (Local 9, 0) (prog_name cmd)" "cstr m4 (Local 10, 0) (prog_arg cmd)"
      using cstr_cong [OF m2(3), of m4] cstr_cong [OF m2(4), of m4] by simp_all
  qed
  obtain M where M: "loadProcess (Local 9, 0) CP_VADDR s4 = Some (s4\<lparr>mem := M\<rparr>, ld32 M (Global, CP_VADDR + 24))"
    "bytes_at M (Global, CP_VADDR) (file_length (mem s) ?bb i) = file_contents (mem s) ?bb i"
    "\<forall>r. \<not> in_user_page r \<and> fst r \<notin> {Local 3, Local 5, Local 6} \<longrightarrow> M r = m4 r"
    using loadProcess_program [OF r4 i4, of "(Local 9, 0)" "prog_name cmd" i] c4(1) p4 by (auto simp: fs4)
  have "cstr M (Local 10, 0) (prog_arg cmd)"
    using M(3) not_user_page_local by (intro cstr_cong [OF c4(2)]) (auto simp: padd_def)
  moreover have "M r = mem s r" if "\<not> in_user_page r" "fst r \<notin> Local ` {3, 5, 6, 7, 8, 9, 10}" for r
    using that spec [OF M(3), of r] eq4 [of r] by auto
  moreover have "execute command s = start_process p (esp s) (ebp s) (ld32 M (Global, CP_VADDR + 24)) (s4\<lparr>mem := M\<rparr>)"
  proof -
    have "alloc_pid (s\<lparr>iflag := False, mem := m3, total_tasks := total_tasks s + 1\<rparr>) = Some (s3, p)"
      using assms(11,12) by (simp add: alloc_pid_def pids.first_free_def s3_def)
    moreover have "\<not> 7 \<le> total_tasks s" using assms(9) by (simp add: not_le)
    ultimately show ?thesis
      using len m2(1,2) m3(1) m4(1) M(1) by (simp add: execute_def Let_def cli_def flip: s4_def)
  qed
  moreover have "s4\<lparr>mem := M\<rparr> = s\<lparr>iflag := False, mem := M, pageDir := (pageDir s)[32 := user_page_addr p OR FOURMB_USER_PAGE], frames := F,
      tlb_user := Some (user_page_addr p), total_tasks := total_tasks s + 1, pid_bitpattern := (pid_bitpattern s)[n := 1]\<rparr>"
    by (simp add: s4_def s3_def)
  ultimately show ?thesis using M(2) fr by (intro exI [of _ M] exI [of _ F]) simp
qed

section \<open>Lemmas: the new process\<close>

definition std_files :: "file_descriptor list" where
  "std_files = [opened_fd keyboard_jumptable 0, opened_fd terminal_jumptable 0] @ replicate 6 closed_fd"

lemma length_8: "length xs = 8 \<Longrightarrow> \<exists>a b c d e f g h. xs = [a, b, c, d, e, f, g, h]"
proof -
  assume "length xs = 8"
  then have "length xs = Suc (Suc (Suc (Suc (Suc (Suc (Suc (Suc 0)))))))" by simp
  then show ?thesis by (simp only: length_Suc_conv length_0_conv) blast
qed

lemma std_files_made:
  "length fa = 8 \<Longrightarrow> (for_upto 2 8 (\<lambda>i fa. fa[i := closed_fd]) fa)[0 := opened_fd keyboard_jumptable 0, 1 := opened_fd terminal_jumptable 0] = std_files"
  "length fa = 8 \<Longrightarrow> for_upto 0 8 (\<lambda>i fa. fa[i := closed_fd]) fa = replicate 8 closed_fd"
  using length_8 [of fa] by (auto simp: for_upto_def std_files_def upt_conv_Cons numeral_eq_Suc)

lemma free_slot_find:
  "k \<le> 6 \<Longrightarrow> free_slot pl k k = find (\<lambda>i. pl ! i \<le> 0) [k..<7]"
proof (induction "6 - k" arbitrary: k)
  case 0
  then have "k = 6" by simp
  then show ?case by (simp add: free_slot.simps Let_def not_less)
next
  case (Suc d)
  have "[k..<7] = k # [Suc k..<7]" using Suc by (simp add: upt_conv_Cons)
  moreover have "free_slot pl (Suc k) (Suc k) = find (\<lambda>i. pl ! i \<le> 0) [Suc k..<7]" using Suc by (intro Suc.hyps) simp_all
  ultimately show ?case using Suc by (subst free_slot.simps) (simp add: Let_def not_less)
qed

lemma strcpy_args_result:
  assumes "cstr m p a" and "length a < 128" and "length old = 128"
  shows "\<exists>v. strcpy_args m p old = Some v \<and> length v = 128 \<and> upto_nul v = a"
proof -
  have n: "unat (of_nat (length a) :: u32) = length a" using assms(2) by (simp add: unat_of_nat)
  have "bytes_at m p (Suc (length a)) = a @ [0]" using assms(1) bytes_at_append [of m p "length a" 1] by (simp add: cstr_def bytes_at_def)
  moreover have "upto_nul (a @ 0 # r) = a" for r using assms(1) by (intro upto_nul_append) (simp add: cstr_def)
  ultimately show ?thesis using assms n strlen_cstr [OF assms(1)] by (auto simp: strcpy_args_def)
qed

text \<open>What \<open>execute\<close> relies on about the kernel's own tables.\<close>

definition proc_tables :: "'a proc_state_scheme \<Rightarrow> bool" where
  "proc_tables s \<longleftrightarrow> length (fileArray (newPCB_var s)) = 8 \<and> length (args (newPCB_var s)) = 128 \<and> unat (active_terminal s) < 3
     \<and> length (terminal_current_pid s) = 3 \<and> length (priority_list_pid s) = 7 \<and> length (pid_bitpattern s) = 7"

definition new_pcb :: "u32 \<Rightarrow> u32 \<Rightarrow> u32 \<Rightarrow> u8 list \<Rightarrow> 'a proc_state_scheme \<Rightarrow> PCB \<Rightarrow> bool" where
  "new_pcb p sp bp arg s n \<longleftrightarrow> pid n = p \<and> processState n = 2 \<and> kernelStack n = kernel_stack p \<and> kernelSS n = KERNEL_DS \<and> kesp n = sp \<and> kebp n = bp
     \<and> upto_nul (args n) = arg \<and> fileArray n = std_files \<and> pcb_ok n
     \<and> terminal_id n = (if p > 3 then terminal_id (pcbs s (current_PCB s)) else active_terminal s)
     \<and> parent_addr n = (if p > 3 then current_PCB s else - 1)"

lemma start_process_result:
  assumes "proc_tables s" and "cstr (mem s) (Local 10, 0) arg" and "length arg < 128" and "PCB_slot p s = Some i" and "i < 7"
  shows "\<exists>n v. start_process p sp bp e s = Some (s\<lparr>pcbs := (pcbs s)(pcb_addr p := n), newPCB_var := v,
        priority_list_pid := (priority_list_pid s)[i := sint p], current_schedule := int i, tss_ss0 := KERNEL_DS, tss_esp0 := kernel_stack p,
        current_task := p, terminal_current_pid := (terminal_current_pid s)[unat (active_terminal s) := p]\<rparr>,
        Iret USER_DS (USERSTACKADDR - 4) 0x0200 USER_CS e)
    \<and> new_pcb p sp bp arg s n \<and> length (fileArray v) = 8 \<and> length (args v) = 128"
proof -
  have t: "length (fileArray (newPCB_var s)) = 8" "length (args (newPCB_var s)) = 128" "unat (active_terminal s) < length (terminal_current_pid s)"
    "i < length (priority_list_pid s)" using assms(1,5) by (simp_all add: proc_tables_def)
  let ?h = "PCB_header p s"
  have h: "length (args ?h) = 128" "(fileArray ?h)[0 := opened_fd keyboard_jumptable 0, 1 := opened_fd terminal_jumptable 0] = std_files" "pid ?h = p"
    "terminal_id ?h = (if p > 3 then terminal_id (pcbs s (current_PCB s)) else active_terminal s)" "parent_addr ?h = (if p > 3 then current_PCB s else - 1)"
    using t(1,2) std_files_made(1) by (simp_all add: PCB_header_def Let_def)
  obtain v where v: "strcpy_args (mem s) (Local 10, 0) (args ?h) = Some v" "length v = 128" "upto_nul v = arg"
    using strcpy_args_result [OF assms(2,3) h(1)] by blast
  define w where "w = ?h\<lparr>args := v, fileArray := std_files\<rparr>"
  have "PCB_init p (Local 10, 0) s = Some (s\<lparr>newPCB_var := w, priority_list_pid := (priority_list_pid s)[i := sint p], current_schedule := int i\<rparr>, 0)"
    using assms(4) t(4) v(1) h(2) by (simp add: PCB_init_def Let_def w_def)
  moreover have sf: "length std_files = 8" by (simp add: std_files_def)
  moreover have "pcb_ok (w\<lparr>kernelStack := kernel_stack p, kernelSS := KERNEL_DS, kesp := sp, kebp := bp, processState := 2\<rparr>)"
    using v(2) sf by (auto simp: pcb_ok_def w_def std_files_def opened_fd_def closed_fd_def)
  ultimately show ?thesis
    using t(3) v(2,3) h(3,4,5)
    by (intro exI [of _ "w\<lparr>kernelStack := kernel_stack p, kernelSS := KERNEL_DS, kesp := sp, kebp := bp, processState := 2\<rparr>"] exI [of _ w])
      (simp add: start_process_def Let_def new_pcb_def w_def)
qed

section \<open>Lemmas: kernel stacks\<close>

lemma block_mask: "(a :: u32) AND 0xFFFFE000 = push_bit 13 (drop_bit 13 a)"
proof -
  have "(0xFFFFE000 :: u32) = NOT (mask 13)" by (simp add: mask_eq_exp_minus_1)
  then show ?thesis by (auto simp: bit_eq_iff bit_simps)
qed

lemma pcb_addr_unat:
  assumes "1 \<le> unat p" and "unat p \<le> 7"
  shows "unat (pcb_addr p) = (1023 - unat p) * 8192" "unat (kernel_stack p) = (1024 - unat p) * 8192"
proof -
  have a: "pcb_addr p = of_nat ((1023 - unat p) * 8192)" "kernel_stack p = of_nat ((1024 - unat p) * 8192)"
    using assms by (simp_all add: pcb_addr_def kernel_stack_def of_nat_diff algebra_simps)
  have "(1023 - unat p) * 8192 < 2 ^ 32" "(1024 - unat p) * 8192 < 2 ^ 32" by simp_all
  then show "unat (pcb_addr p) = (1023 - unat p) * 8192" "unat (kernel_stack p) = (1024 - unat p) * 8192"
    unfolding a by (simp_all only: unat_of_nat) simp_all
qed

lemma stack_block:
  assumes "1 \<le> unat p" and "unat p \<le> 7" and "1 \<le> unat d" and "unat d \<le> 8192"
  shows "(kernel_stack p - d) AND 0xFFFFE000 = pcb_addr p"
proof -
  have "unat (kernel_stack p - d) = (1024 - unat p) * 8192 - unat d"
    using pcb_addr_unat(2) [OF assms(1,2)] assms(2,4) by (simp add: unat_sub_if_size)
  moreover have "((1024 - unat p) * 8192 - unat d) div 8192 = 1023 - unat p"
    using assms by (intro div_nat_eqI) (simp_all add: algebra_simps)
  ultimately have "unat (drop_bit 13 (kernel_stack p - d)) = 1023 - unat p" by (simp add: unat_drop_bit)
  moreover have "drop_bit 13 (kernel_stack p - d) = of_nat (unat (drop_bit 13 (kernel_stack p - d)))" by simp
  ultimately have "drop_bit 13 (kernel_stack p - d) = of_nat (1023 - unat p)" by (simp only:)
  moreover have "push_bit 13 (of_nat (1023 - unat p)) = pcb_addr p"
    using assms(1,2) by (simp add: push_bit_eq_mult pcb_addr_def kernel_stack_def of_nat_diff algebra_simps)
  ultimately show ?thesis by (simp add: block_mask)
qed

lemma pcb_addr_inj:
  assumes "1 \<le> unat p" "unat p \<le> 7" "1 \<le> unat q" "unat q \<le> 7" "pcb_addr p = pcb_addr q"
  shows "p = q"
proof -
  have "(1023 - unat p) * 8192 = (1023 - unat q) * 8192" using pcb_addr_unat(1) [OF assms(1,2)] pcb_addr_unat(1) [OF assms(3,4)] assms(5) by simp
  then show ?thesis using assms(1-4) by (simp add: word_unat_eq_iff)
qed

text \<open>The state in which \<open>execute\<close> enters user mode.\<close>

lemma execute_result:
  assumes "fs_ready s" and "image_safe s" and "tables_ok s" and "proc_tables s" and "cstr (mem s) command cmd" and "fst command \<noteq> Local 9"
    and "cmd \<noteq> []" and "length cmd < 1024" and "length (prog_arg cmd) < 128" and "total_tasks s < 7"
    and "program_at (mem s) (bootblock_ptr s) (prog_name cmd) i" and "find (\<lambda>i. pid_bitpattern s ! i = 0) [0..<7] = Some n" and "p = of_nat n + 1"
    and "find (\<lambda>j. if p > 3 then word_of_int (priority_list_pid s ! j) = pid (pcbs s (current_PCB s)) else priority_list_pid s ! j \<le> 0) [0..<7] = Some slot"
  shows "\<exists>M F n' v. execute command s = Some (s\<lparr>iflag := False, mem := M, pageDir := (pageDir s)[32 := user_page_addr p OR FOURMB_USER_PAGE],
        frames := F, tlb_user := Some (user_page_addr p), total_tasks := total_tasks s + 1, pid_bitpattern := (pid_bitpattern s)[n := 1],
        pcbs := (pcbs s)(pcb_addr p := n'), newPCB_var := v,
        priority_list_pid := (priority_list_pid s)[slot := sint p], current_schedule := int slot, tss_ss0 := KERNEL_DS, tss_esp0 := kernel_stack p,
        current_task := p, terminal_current_pid := (terminal_current_pid s)[unat (active_terminal s) := p]\<rparr>,
        Iret USER_DS 0x083FFFFC 0x0200 USER_CS (ld32 M (Global, CP_VADDR + 24)))
    \<and> bytes_at M (Global, CP_VADDR) (file_length (mem s) (bootblock_ptr s) i) = file_contents (mem s) (bootblock_ptr s) i
    \<and> new_pcb p (esp s) (ebp s) (prog_arg cmd) s n' \<and> length (fileArray v) = 8 \<and> length (args v) = 128
    \<and> (\<forall>r. \<not> in_user_page r \<and> fst r \<notin> Local ` {3, 5, 6, 7, 8, 9, 10} \<longrightarrow> M r = mem s r) \<and> F = physical s"
proof -
  have ff: "pids.first_free (pid_bitpattern s) = Some n" using assms(12) by (simp add: pids.first_free_def)
  obtain M F where e: "execute command s = start_process p (esp s) (ebp s) (ld32 M (Global, CP_VADDR + 24))
      (s\<lparr>iflag := False, mem := M, pageDir := (pageDir s)[32 := user_page_addr p OR FOURMB_USER_PAGE], frames := F, tlb_user := Some (user_page_addr p),
        total_tasks := total_tasks s + 1, pid_bitpattern := (pid_bitpattern s)[n := 1]\<rparr>)" (is "_ = start_process _ _ _ _ ?t")
    and M: "bytes_at M (Global, CP_VADDR) (file_length (mem s) (bootblock_ptr s) i) = file_contents (mem s) (bootblock_ptr s) i"
    and arg: "cstr M (Local 10, 0) (prog_arg cmd)" and fr: "\<forall>r. \<not> in_user_page r \<and> fst r \<notin> Local ` {3, 5, 6, 7, 8, 9, 10} \<longrightarrow> M r = mem s r" and F: "F = physical s"
    using execute_loads [OF assms(1-3,5-11) ff assms(13)] by blast
  have pt: "proc_tables ?t" using assms(4) by (simp add: proc_tables_def)
  have cur: "current_PCB ?t = current_PCB s" by (simp add: current_PCB_def)
  have slot: "PCB_slot p ?t = Some slot"
    using assms(14) free_slot_find [of 0 "priority_list_pid s"] cur by (cases "p > 3") (simp_all add: PCB_slot_def)
  have sl: "slot < 7" using assms(14) by (auto simp: find_Some_iff)
  have arg': "cstr (mem ?t) (Local 10, 0) (prog_arg cmd)" using arg by simp
  obtain n' v where r: "start_process p (esp s) (ebp s) (ld32 M (Global, CP_VADDR + 24)) ?t = Some (?t\<lparr>pcbs := (pcbs ?t)(pcb_addr p := n'), newPCB_var := v,
        priority_list_pid := (priority_list_pid ?t)[slot := sint p], current_schedule := int slot, tss_ss0 := KERNEL_DS, tss_esp0 := kernel_stack p,
        current_task := p, terminal_current_pid := (terminal_current_pid ?t)[unat (active_terminal ?t) := p]\<rparr>,
        Iret USER_DS (USERSTACKADDR - 4) 0x0200 USER_CS (ld32 M (Global, CP_VADDR + 24)))"
    "new_pcb p (esp s) (ebp s) (prog_arg cmd) ?t n'" "length (fileArray v) = 8" "length (args v) = 128"
    using start_process_result [OF pt arg' assms(9) slot sl, of "esp s" "ebp s" "ld32 M (Global, CP_VADDR + 24)"] by blast
  have "new_pcb p (esp s) (ebp s) (prog_arg cmd) s n'" using r(2) cur by (simp add: new_pcb_def)
  then show ?thesis unfolding e r(1) using M fr F r(3,4) by (intro exI [of _ M] exI [of _ F] exI [of _ n'] exI [of _ v]) simp
qed

text \<open>The state in which \<open>halt\<close> of a child returns to its parent.\<close>

lemma halt_child_result:
  assumes "tables_ok s" and "n = pcbs s (current_PCB s)" and "pid n > 3" and "length (fileArray n) = 8" and "parent_addr n \<noteq> current_PCB s"
    and "q = pcbs s (parent_addr n)"
  shows "\<exists>M F. halt status s = Some (s\<lparr>iflag := False, total_tasks := total_tasks s - 1, pcbs := (pcbs s)(current_PCB s := n\<lparr>fileArray := replicate 8 closed_fd\<rparr>),
        tss_ss0 := KERNEL_DS, tss_esp0 := kernelStack q, pageDir := (pageDir s)[32 := user_page_addr (pid q) OR FOURMB_USER_PAGE], frames := F,
        tlb_user := Some (user_page_addr (pid q)), mem := M, current_task := pid q,
        priority_list_pid := (case find (\<lambda>i. word_of_int (priority_list_pid s ! i) = pid n) [0..<7] of None \<Rightarrow> priority_list_pid s
          | Some i \<Rightarrow> (priority_list_pid s)[i := sint (pid q)]),
        exception_halt := (if exception_halt s = 1 then 0 else exception_halt s)\<rparr>,
        Leave_Ret (if exception_halt s = 1 then kesp n else kebp n) (kebp n) (if exception_halt s = 1 then 256 else ucast status))
    \<and> (\<forall>r. \<not> in_user_page r \<longrightarrow> M r = mem s r) \<and> (\<forall>off < FOURMB. M (Global, USR_LOW_BOUND + off) = physical s (user_page_addr (pid q) + off))"
proof -
  let ?c = "current_PCB s"
  define t where "t = s\<lparr>iflag := False, total_tasks := total_tasks s - 1, pcbs := (pcbs s)(?c := n\<lparr>fileArray := replicate 8 closed_fd\<rparr>),
    tss_ss0 := KERNEL_DS, tss_esp0 := kernelStack q\<rparr>"
  have tt: "tables_ok t" using assms(1) by (simp add: t_def tables_ok_def)
  obtain M F where m: "map_user_page (pid q) t = Some (t\<lparr>pageDir := (pageDir t)[32 := user_page_addr (pid q) OR FOURMB_USER_PAGE], frames := F,
      tlb_user := Some (user_page_addr (pid q)), mem := M\<rparr>)" "\<forall>r. \<not> in_user_page r \<longrightarrow> M r = mem t r"
    "\<forall>off < FOURMB. M (Global, USR_LOW_BOUND + off) = physical t (user_page_addr (pid q) + off)"
    using map_user_page_state [OF tt] by blast
  have "physical t = physical s" by (simp add: physical_def t_def fun_eq_iff split: option.splits)
  note page = m(3) [unfolded this]
  let ?u = "t\<lparr>pageDir := (pageDir t)[32 := user_page_addr (pid q) OR FOURMB_USER_PAGE], frames := F, tlb_user := Some (user_page_addr (pid q)), mem := M,
    current_task := pid q\<rparr>"
  have "halt status s = Some (halt_finish status ?u)"
    using m(1) assms(2-6) std_files_made(2) by (simp add: halt_def Let_def cli_def current_PCB_def t_def)
  moreover have "pcbs ?u (current_PCB ?u) = n\<lparr>fileArray := replicate 8 closed_fd\<rparr>" "priority_list_pid ?u = priority_list_pid s"
    "exception_halt ?u = exception_halt s" by (simp_all add: t_def current_PCB_def)
  ultimately have "halt status s = Some (?u\<lparr>priority_list_pid := (case find (\<lambda>i. word_of_int (priority_list_pid s ! i) = pid n) [0..<7] of None \<Rightarrow> priority_list_pid s
          | Some i \<Rightarrow> (priority_list_pid s)[i := sint (pid q)]), exception_halt := (if exception_halt s = 1 then 0 else exception_halt s)\<rparr>,
        Leave_Ret (if exception_halt s = 1 then kesp n else kebp n) (kebp n) (if exception_halt s = 1 then 256 else ucast status))"
    by (cases "find (\<lambda>i. word_of_int (priority_list_pid s ! i) = pid n) [0..<7]") (simp_all add: halt_finish_def Let_def del: upt.simps upt_Suc)
  then show ?thesis using m(2) page by (intro exI [of _ M] exI [of _ F]) (simp add: t_def del: upt_Suc)
qed

lemma halt_child_facts:
  assumes "tables_ok s" and "n = pcbs s (current_PCB s)" and "pid n > 3" and "length (fileArray n) = 8" and "parent_addr n \<noteq> current_PCB s"
    and "q = pcbs s (parent_addr n)" and "find (\<lambda>i. word_of_int (priority_list_pid s ! i) = pid n) [0..<7] = Some slot"
  shows "\<exists>s'. halt status s = Some (s', Leave_Ret (if exception_halt s = 1 then kesp n else kebp n) (kebp n) (if exception_halt s = 1 then 256 else ucast status))
    \<and> tlb_user s' = Some (user_page_addr (pid q)) \<and> tss_esp0 s' = kernelStack q \<and> current_task s' = pid q \<and> total_tasks s' = total_tasks s - 1
    \<and> fileArray (pcbs s' (current_PCB s)) = replicate 8 closed_fd \<and> (\<forall>a. a \<noteq> current_PCB s \<longrightarrow> pcbs s' a = pcbs s a)
    \<and> priority_list_pid s' = (priority_list_pid s)[slot := sint (pid q)] \<and> exception_halt s' \<noteq> 1 \<and> pid_bitpattern s' = pid_bitpattern s"
  using halt_child_result [OF assms(1-6), of status] assms(7) by (elim exE conjE) (intro exI conjI, assumption, simp_all)

text \<open>What the device and screen part of the state does not hold.\<close>

lemma proc_same_more:
  fixes s s' :: "'a proc_state_scheme"
  assumes "kbd_state.more s' = kbd_state.more s"
  shows "pcbs s' = pcbs s" "total_tasks s' = total_tasks s" "pid_bitpattern s' = pid_bitpattern s" "priority_list_pid s' = priority_list_pid s"
    "current_schedule s' = current_schedule s" "schedule_started s' = schedule_started s" "tlb_user s' = tlb_user s" "tss_esp0 s' = tss_esp0 s"
    "current_PCB s' = current_PCB s" "ebp s' = ebp s" "exception_halt s' = exception_halt s" "tables_ok s' = tables_ok s"
    "newPCB_var s' = newPCB_var s" "terminal_current_pid s' = terminal_current_pid s" "esp s' = esp s"
  using assms by (cases s; cases s'; simp add: current_PCB_def tables_ok_def)+

section \<open>Correctness of process control\<close>

text \<open>
  C31: kernel stacks and process control blocks. With the stack pointer anywhere in the 8 KB stack of
  process number 1 to 7, \<open>current_PCB\<close> is the address where \<open>execute\<close> put that process's control block; the
  blocks and stacks of different processes do not overlap and all lie in the kernel's page.
\<close>

theorem current_PCB_correct:
  assumes "1 \<le> unat p" and "unat p \<le> 7" and "1 \<le> unat d" and "unat d \<le> 8192"
  shows "current_PCB (s\<lparr>esp := kernel_stack p - d\<rparr>) = pcb_addr p
    \<and> unat (pcb_addr p) + 8192 = unat (kernel_stack p) \<and> 0x400000 \<le> unat (pcb_addr p) \<and> unat (kernel_stack p) \<le> 0x800000
    \<and> (\<forall>q. 1 \<le> unat q \<and> unat q \<le> 7 \<and> q \<noteq> p \<longrightarrow> unat (kernel_stack q) \<le> unat (pcb_addr p) \<or> unat (kernel_stack p) \<le> unat (pcb_addr q))"
proof -
  have sep: "unat (kernel_stack q) \<le> unat (pcb_addr p) \<or> unat (kernel_stack p) \<le> unat (pcb_addr q)"
    if q: "1 \<le> unat q" "unat q \<le> 7" "q \<noteq> p" for q
  proof -
    have "unat q \<noteq> unat p" using q(3) by (simp add: word_unat_eq_iff)
    then show ?thesis
      unfolding pcb_addr_unat [OF assms(1,2)] pcb_addr_unat [OF q(1,2)] mult_le_cancel2 using assms(2) q(2) by linarith
  qed
  have "unat (pcb_addr p) + 8192 = unat (kernel_stack p)" "0x400000 \<le> unat (pcb_addr p)" "unat (kernel_stack p) \<le> 0x800000"
    unfolding pcb_addr_unat [OF assms(1,2)] using assms(1,2) by simp_all
  then show ?thesis using stack_block [OF assms] sep by (simp add: current_PCB_def)
qed

theorem current_PCB_correct_witness: "current_PCB (proc_demo\<lparr>esp := 0x7FDF00\<rparr>) = 0x7FC000 \<and> pcb_addr 1 = 0x7FC000"
  using current_PCB_correct [of 1 "0x100" proc_demo] by (simp add: kernel_stack_def pcb_addr_def)

text \<open>
  C15: \<open>execute\<close> of a command whose first word names a program in the file system starts it: with the
  lowest free process number, the whole file loaded at its address in a user page of its own, and
  a control block with standard input and output open, the other descriptors closed and the
  command's second word as argument; it enters user mode at the program's entry point with the user
  stack below 132 MB and interrupts enabled. Other processes' control blocks are not touched.
\<close>

theorem execute_correct:
  assumes "fs_ready s" and "image_safe s" and "tables_ok s" and "proc_tables s" and "cstr (mem s) command cmd" and "fst command \<noteq> Local 9"
    and "cmd \<noteq> []" and "length cmd < 1024" and "length (prog_arg cmd) < 128" and "total_tasks s < 7"
    and "program_at (mem s) (bootblock_ptr s) (prog_name cmd) i" and "find (\<lambda>i. pid_bitpattern s ! i = 0) [0..<7] = Some n" and "p = of_nat n + 1"
    and "find (\<lambda>j. if p > 3 then word_of_int (priority_list_pid s ! j) = pid (pcbs s (current_PCB s)) else priority_list_pid s ! j \<le> 0) [0..<7] = Some slot"
  shows "\<exists>s' entry. execute command s = Some (s', Iret USER_DS 0x083FFFFC 0x0200 USER_CS entry) \<and> entry = ld32 (mem s') (Global, CP_VADDR + 24)
    \<and> bytes_at (mem s') (Global, CP_VADDR) (file_length (mem s) (bootblock_ptr s) i) = file_contents (mem s) (bootblock_ptr s) i
    \<and> new_pcb p (esp s) (ebp s) (prog_arg cmd) s (pcbs s' (pcb_addr p)) \<and> (\<forall>a. a \<noteq> pcb_addr p \<longrightarrow> pcbs s' a = pcbs s a)
    \<and> tlb_user s' = Some (user_page_addr p) \<and> tss_esp0 s' = kernel_stack p \<and> current_task s' = p \<and> total_tasks s' = total_tasks s + 1
    \<and> pid_bitpattern s' = (pid_bitpattern s)[n := 1] \<and> priority_list_pid s' = (priority_list_pid s)[slot := sint p] \<and> current_schedule s' = int slot
    \<and> terminal_current_pid s' = (terminal_current_pid s)[unat (active_terminal s) := p]"
  using execute_result [OF assms] by (elim exE conjE) (intro exI conjI, assumption, simp_all)

lemma proc_demo_exec:
  "fs_ready proc_demo" "image_safe proc_demo" "tables_ok proc_demo" "proc_tables proc_demo" "cstr (mem proc_demo) (Global, 0x100) [0x68, 0x69]"
  "total_tasks proc_demo = 4" "program_at (mem proc_demo) (bootblock_ptr proc_demo) [0x68, 0x69] 1" "prog_name [0x68, 0x69] = [0x68, 0x69]"
  "prog_arg [0x68, 0x69] = []" "pid_bitpattern proc_demo = [1, 1, 1, 0, 0, 0, 0]" "priority_list_pid proc_demo = [1, 2, 3, -1, -1, -1, -1]"
  "exception_halt proc_demo = 0" "active_terminal proc_demo = 1"
proof -
  show "fs_ready proc_demo" "tables_ok proc_demo" by (rule proc_demo_simps)+
  have "fs_size demo_image 0x400000 = 24576" by (simp add: fs_size_def demo_words)
  then have "\<not> in_user_page r" if r: "in_fs demo_image 0x400000 r" for r
  proof -
    obtain j where j: "r = (Global, 0x400000 + j)" "unat j < 24576"
      using r \<open>fs_size demo_image 0x400000 = 24576\<close> unfolding in_fs_def by (auto elim!: in_regionE simp: padd_def)
    then show ?thesis by (simp add: in_user_page_def word_less_nat_alt unat_sub_if_size word_size)
  qed
  then show "image_safe proc_demo" by (simp add: image_safe_def proc_demo_simps)
  show "cstr (mem proc_demo) (Global, 0x100) [0x68, 0x69]" using demo_name by (simp add: proc_demo_simps)
  have b: "dblocks demo_image 0x402000 0 = 2" by (simp add: dblocks_def demo_words)
  have "file_byte demo_image 0x400000 1 0 = 0x7F" "file_byte demo_image 0x400000 1 1 = 0x45" "file_byte demo_image 0x400000 1 2 = 0x4C"
    "file_byte demo_image 0x400000 1 3 = 0x46"
    by (simp_all add: file_byte_def data_addr_def demo_words b inode_addr_def) (simp_all add: demo_image_def)
  then have elf: "take 4 (file_contents demo_image 0x400000 1) = [0x7F, 0x45, 0x4C, 0x46]"
    by (simp add: take_contents demo_inode upt_conv_Cons numeral_2_eq_2 numeral_3_eq_3)
  have "dir_lookup demo_image 0x400000 [0x68, 0x69] = Some 0" using lookup_name_dir [OF demo_name] demo_lookup by simp
  then show "program_at (mem proc_demo) (bootblock_ptr proc_demo) [0x68, 0x69] 1"
    using elf demo_entry demo_inode by (simp add: program_at_def proc_demo_simps)
  show "prog_name [0x68, 0x69] = [0x68, 0x69]" "prog_arg [0x68, 0x69] = []" by (simp_all add: prog_name_def prog_arg_def word_end_def)
  have k: "kbd_state.truncate proc_demo = kbd_boot\<lparr>mem := demo_image\<rparr>" by (rule proc_demo_fs)
  have "active_terminal proc_demo = active_terminal (kbd_state.truncate proc_demo)" by (simp add: kbd_state.defs)
  then show a: "active_terminal proc_demo = 1" unfolding k using kbd_boot_ok(4) by simp
  show "proc_tables proc_demo" unfolding proc_tables_def a by (simp add: proc_demo_def paging_state.defs proc_state.defs demo_pcb_def)
  show "total_tasks proc_demo = 4" "pid_bitpattern proc_demo = [1, 1, 1, 0, 0, 0, 0]" "priority_list_pid proc_demo = [1, 2, 3, -1, -1, -1, -1]"
    "exception_halt proc_demo = 0"
    by (simp_all add: proc_demo_def paging_state.defs proc_state.defs)
qed

lemma proc_demo_slots:
  "find (\<lambda>i. pid_bitpattern proc_demo ! i = 0) [0..<7] = Some 3"
  "find (\<lambda>j. if (4 :: u32) > 3 then word_of_int (priority_list_pid proc_demo ! j) = pid (pcbs proc_demo (current_PCB proc_demo))
     else priority_list_pid proc_demo ! j \<le> 0) [0..<7] = Some 0"
proof -
  have u: "[0..<7] = [0, 1, 2, 3, 4, 5, 6 :: nat]" by (simp add: upt_conv_Cons numeral_2_eq_2 numeral_3_eq_3)
  show "find (\<lambda>i. pid_bitpattern proc_demo ! i = 0) [0..<7] = Some 3"
    "find (\<lambda>j. if (4 :: u32) > 3 then word_of_int (priority_list_pid proc_demo ! j) = pid (pcbs proc_demo (current_PCB proc_demo))
     else priority_list_pid proc_demo ! j \<le> 0) [0..<7] = Some 0"
    unfolding u by (simp_all add: proc_demo_exec proc_demo_simps demo_pcb_def)
qed

theorem execute_correct_witness:
  "\<exists>s'. execute (Global, 0x100) proc_demo = Some (s', Iret USER_DS 0x083FFFFC 0x0200 USER_CS (ld32 (mem s') (Global, CP_VADDR + 24)))
    \<and> pid (pcbs s' (pcb_addr 4)) = 4 \<and> pid_bitpattern s' = [1, 1, 1, 1, 0, 0, 0] \<and> priority_list_pid s' = [4, 2, 3, -1, -1, -1, -1]"
proof -
  note ps = proc_demo_exec(1-5)
  have "program_at (mem proc_demo) (bootblock_ptr proc_demo) (prog_name [0x68, 0x69]) 1" using proc_demo_exec(7,8) by simp
  moreover have "fst (Global, 0x100 :: u32) \<noteq> Local 9" "[0x68, 0x69 :: u8] \<noteq> []" "length [0x68, 0x69 :: u8] < 1024" "length (prog_arg [0x68, 0x69]) < 128"
    "total_tasks proc_demo < 7" "(4 :: u32) = of_nat 3 + 1" by (simp_all add: proc_demo_exec)
  ultimately obtain s' entry where s': "execute (Global, 0x100) proc_demo = Some (s', Iret USER_DS 0x083FFFFC 0x0200 USER_CS entry)"
    "entry = ld32 (mem s') (Global, CP_VADDR + 24)" "new_pcb 4 (esp proc_demo) (ebp proc_demo) (prog_arg [0x68, 0x69]) proc_demo (pcbs s' (pcb_addr 4))"
    "pid_bitpattern s' = (pid_bitpattern proc_demo)[3 := 1]" "priority_list_pid s' = (priority_list_pid proc_demo)[0 := sint (4 :: u32)]"
    using execute_correct [OF ps _ _ _ _ _ _ proc_demo_slots(1) _ proc_demo_slots(2)] by blast
  then show ?thesis by (intro exI [of _ s']) (simp add: proc_demo_exec new_pcb_def)
qed

lemma execute_rejects_result:
  assumes "fs_ready s" and "cstr (mem s) command cmd" and "fst command \<noteq> Local 9" and "length cmd < 1024" and "length (prog_arg cmd) < 128"
    and "bb = bootblock_ptr s"
    and "\<And>k. dir_lookup (mem s) bb (prog_name cmd) = Some k \<Longrightarrow> filetype (mem s) (dentry_at bb (of_nat k)) = 2 \<Longrightarrow>
        inode_wf (mem s) bb (idx_inode (mem s) (dentry_at bb (of_nat k))) \<and> 4 \<le> file_length (mem s) bb (idx_inode (mem s) (dentry_at bb (of_nat k)))"
    and "cmd = [] \<or> 7 \<le> total_tasks s \<or> (case dir_lookup (mem s) bb (prog_name cmd) of None \<Rightarrow> True | Some k \<Rightarrow>
         filetype (mem s) (dentry_at bb (of_nat k)) \<noteq> 2 \<or> idx_inode (mem s) (dentry_at bb (of_nat k)) = 0
         \<or> take 4 (file_contents (mem s) bb (idx_inode (mem s) (dentry_at bb (of_nat k)))) \<noteq> [0x7F, 0x45, 0x4C, 0x46])"
  shows "\<exists>m'. execute command s = Some (s\<lparr>iflag := False, mem := m'\<rparr>, Returns (-1)) \<and> only_locals {7, 8, 9, 10} (mem s) m'"
proof (cases "cmd = [] \<or> 7 \<le> total_tasks s")
  case True
  then have "execute command s = Some (s\<lparr>iflag := False, mem := mem s\<rparr>, Returns (-1))"
    using strlen_cstr [OF assms(2)] by (auto simp: execute_def Let_def cli_def)
  then show ?thesis using only_locals_refl by blast
next
  case False
  obtain len where len: "strlen (mem s) command = Some len" "\<not> len < 1" "len < 1024" using strlen_pos [OF assms(2) _ assms(4)] False by blast
  obtain m1 m2 where m2: "strcpy (mem s) (Local 9, 0) command = Some m1" "parse_command m1 = Some m2" "cstr m2 (Local 9, 0) (prog_name cmd)"
    "only_locals {9, 10} (mem s) m2"
    using command_ready [OF assms(2-5)] by blast
  let ?s2 = "s\<lparr>iflag := False, mem := m2\<rparr>"
  have wf: "fs_wf (mem s) bb" using assms(1,6) by (simp add: fs_ready_def)
  have r2: "fs_ready ?s2" using only_locals_ready [OF m2(4) assms(1)] by (simp add: fs_ready_def)
  have l2: "lookup_name m2 bb (Local 9, 0) = dir_lookup (mem s) bb (prog_name cmd)"
    unfolding lookup_name_dir [OF m2(3)] by (rule same_fs_lookup [OF wf only_locals_same_fs [OF m2(4)]])
  note f = only_locals_fs [OF m2(4)]
  have hyp: "inode_wf (mem ?s2) bb (idx_inode (mem ?s2) (dentry_at bb (of_nat k))) \<and> 4 \<le> file_length (mem ?s2) bb (idx_inode (mem ?s2) (dentry_at bb (of_nat k)))"
    if "lookup_name (mem ?s2) bb (Local 9, 0) = Some k" "filetype (mem ?s2) (dentry_at bb (of_nat k)) = 2" for k
    using assms(7) [of k] that by (simp add: l2 f)
  have pre: "cstr (mem ?s2) (Local 9, 0) (prog_name cmd)" "(Local 9, 0) \<noteq> NULL" "bb = bootblock_ptr ?s2" using m2(3) assms(6) by simp_all
  from is_executable_result [OF r2 pre hyp] obtain s' r where s': "is_executable (Local 9, 0) ?s2 = Some (s', r)" "s' = ?s2\<lparr>mem := mem s'\<rparr>" "only_locals {7, 8} (mem ?s2) (mem s')" "r \<in> {0, 1}"
    "r = 1 \<longleftrightarrow> (case lookup_name (mem ?s2) bb (Local 9, 0) of None \<Rightarrow> False | Some k \<Rightarrow>
         filetype (mem ?s2) (dentry_at bb (of_nat k)) = 2 \<and> idx_inode (mem ?s2) (dentry_at bb (of_nat k)) \<noteq> 0
         \<and> take 4 (file_contents (mem ?s2) bb (idx_inode (mem ?s2) (dentry_at bb (of_nat k)))) = [0x7F, 0x45, 0x4C, 0x46])"
    by blast
  have o': "only_locals {7, 8} m2 (mem s')" using s'(3) by simp
  have "r \<noteq> 1" using s'(5) assms(8) False by (auto simp: l2 f split: option.splits)
  then have "r = 0" using s'(4) by simp
  moreover have "only_locals {7, 8, 9, 10} (mem s) (mem s')" using only_locals_trans [OF m2(4) o'] by (rule only_locals_mono) simp
  moreover have "s' = s\<lparr>iflag := False, mem := mem s'\<rparr>" using s'(2) by simp
  moreover have "\<not> 7 \<le> total_tasks s" using False by simp
  ultimately show ?thesis
    using len m2(1,2) s'(1) by (intro exI [of _ "mem s'"]) (simp add: execute_def Let_def cli_def)
qed

text \<open>
  C30: \<open>execute\<close> rejects the empty command, a seventh task, and a command whose first word does not name
  an executable file: it returns -1, with interrupts disabled, and changes nothing of any process,
  no page and no memory but its own variables.
\<close>

theorem execute_rejects:
  assumes "fs_ready s" and "cstr (mem s) command cmd" and "fst command \<noteq> Local 9" and "length cmd < 1024" and "length (prog_arg cmd) < 128"
    and "bb = bootblock_ptr s"
    and "\<And>k. dir_lookup (mem s) bb (prog_name cmd) = Some k \<Longrightarrow> filetype (mem s) (dentry_at bb (of_nat k)) = 2 \<Longrightarrow>
        inode_wf (mem s) bb (idx_inode (mem s) (dentry_at bb (of_nat k))) \<and> 4 \<le> file_length (mem s) bb (idx_inode (mem s) (dentry_at bb (of_nat k)))"
    and "cmd = [] \<or> 7 \<le> total_tasks s \<or> (case dir_lookup (mem s) bb (prog_name cmd) of None \<Rightarrow> True | Some k \<Rightarrow>
         filetype (mem s) (dentry_at bb (of_nat k)) \<noteq> 2 \<or> idx_inode (mem s) (dentry_at bb (of_nat k)) = 0
         \<or> take 4 (file_contents (mem s) bb (idx_inode (mem s) (dentry_at bb (of_nat k)))) \<noteq> [0x7F, 0x45, 0x4C, 0x46])"
  shows "\<exists>m'. execute command s = Some (s\<lparr>iflag := False, mem := m'\<rparr>, Returns (-1)) \<and> only_locals {7, 8, 9, 10} (mem s) m'"
  by (rule execute_rejects_result [OF assms])

theorem execute_rejects_witness:
  "\<exists>m'. execute (Global, 0x100) (proc_demo\<lparr>total_tasks := 7\<rparr>) = Some (proc_demo\<lparr>total_tasks := 7, iflag := False, mem := m'\<rparr>, Returns (-1))"
proof -
  let ?s = "proc_demo\<lparr>total_tasks := 7\<rparr>"
  have r: "fs_ready ?s" using proc_demo_exec(1) by (simp add: fs_ready_def)
  have l: "dir_lookup demo_image 0x400000 [0x68, 0x69] = Some 0" using lookup_name_dir [OF demo_name] demo_lookup by simp
  have "\<exists>m'. execute (Global, 0x100) ?s = Some (?s\<lparr>iflag := False, mem := m'\<rparr>, Returns (-1)) \<and> only_locals {7, 8, 9, 10} (mem ?s) m'"
    using demo_inode demo_entry l proc_demo_exec(5)
    by (intro execute_rejects [OF r, of _ "[0x68, 0x69]" "0x400000"]) (simp_all add: proc_demo_exec proc_demo_simps)
  then show ?thesis by auto
qed

lemma execute_pid_exhausted_result:
  assumes "fs_ready s" and "cstr (mem s) command cmd" and "fst command \<noteq> Local 9"
    and "cmd \<noteq> []" and "length cmd < 1024" and "length (prog_arg cmd) < 128" and "total_tasks s < 7"
    and "program_at (mem s) (bootblock_ptr s) (prog_name cmd) i" and "\<forall>j < 7. pid_bitpattern s ! j \<noteq> 0"
  shows "execute command s = None"
proof -
  obtain len where len: "strlen (mem s) command = Some len" "\<not> len < 1" "len < 1024" using strlen_pos [OF assms(2,4,5)] by blast
  obtain m1 m2 where m2: "strcpy (mem s) (Local 9, 0) command = Some m1" "parse_command m1 = Some m2" "cstr m2 (Local 9, 0) (prog_name cmd)"
    "only_locals {9, 10} (mem s) m2"
    using command_ready [OF assms(2,3,5,6)] by blast
  let ?s2 = "s\<lparr>iflag := False, mem := m2\<rparr>"
  have wf: "fs_wf (mem s) (bootblock_ptr s)" using assms(1) by (simp add: fs_ready_def)
  have r2: "fs_ready ?s2" using only_locals_ready [OF m2(4) assms(1)] by (simp add: fs_ready_def)
  have p2: "program_at (mem ?s2) (bootblock_ptr ?s2) (prog_name cmd) i" using program_at_same(1) [OF wf only_locals_same_fs [OF m2(4)] assms(8)] by simp
  obtain m3 where m3: "is_executable (Local 9, 0) ?s2 = Some (?s2\<lparr>mem := m3\<rparr>, 1)"
    using is_executable_program [OF r2 _ _ p2, of "(Local 9, 0)"] m2(3) by auto
  have "find (\<lambda>j. pid_bitpattern s ! j = 0) [0..<7] = None" using assms(9) by (auto simp: find_None_iff)
  moreover have "\<not> 7 \<le> total_tasks s" using assms(7) by (simp add: not_le)
  ultimately show ?thesis using len m2(1,2) m3 by (simp add: execute_def Let_def cli_def alloc_pid_def)
qed

text \<open>
  Process numbers run out although the task limit is not reached: when all seven numbers are marked
  taken, \<open>execute\<close> of a valid program goes on with a process number that was never assigned.
\<close>

theorem execute_pid_exhausted:
  assumes "fs_ready s" and "cstr (mem s) command cmd" and "fst command \<noteq> Local 9"
    and "cmd \<noteq> []" and "length cmd < 1024" and "length (prog_arg cmd) < 128" and "total_tasks s < 7"
    and "program_at (mem s) (bootblock_ptr s) (prog_name cmd) i" and "\<forall>j < 7. pid_bitpattern s ! j \<noteq> 0"
  shows "execute command s = None"
  by (rule execute_pid_exhausted_result [OF assms])

theorem execute_pid_exhausted_witness: "execute (Global, 0x100) (proc_demo\<lparr>pid_bitpattern := replicate 7 1\<rparr>) = None"
proof -
  let ?s = "proc_demo\<lparr>pid_bitpattern := replicate 7 1\<rparr>"
  have "fs_ready ?s" using proc_demo_exec(1) by (simp add: fs_ready_def)
  then show ?thesis
    using proc_demo_exec(5,6,7) by (intro execute_pid_exhausted [of ?s "(Global, 0x100)" "[0x68, 0x69]" 1]) (simp_all add: proc_demo_exec(8,9))
qed

text \<open>
  \<open>halt\<close> of a child process returns to the frame in which its parent called \<open>execute\<close>, with the status, or
  256 after an exception, as the result: the parent's page is mapped, its kernel stack is installed,
  it takes the child's place in the run queue, and the child's descriptors are all closed. The
  child's process number stays marked as taken.
\<close>

theorem halt_child:
  assumes "tables_ok s" and "n = pcbs s (current_PCB s)" and "pid n > 3" and "length (fileArray n) = 8" and "parent_addr n \<noteq> current_PCB s"
    and "q = pcbs s (parent_addr n)" and "find (\<lambda>i. word_of_int (priority_list_pid s ! i) = pid n) [0..<7] = Some slot"
  shows "\<exists>s'. halt status s = Some (s', Leave_Ret (if exception_halt s = 1 then kesp n else kebp n) (kebp n) (if exception_halt s = 1 then 256 else ucast status))
    \<and> tlb_user s' = Some (user_page_addr (pid q)) \<and> tss_esp0 s' = kernelStack q \<and> current_task s' = pid q \<and> total_tasks s' = total_tasks s - 1
    \<and> fileArray (pcbs s' (current_PCB s)) = replicate 8 closed_fd \<and> (\<forall>a. a \<noteq> current_PCB s \<longrightarrow> pcbs s' a = pcbs s a)
    \<and> priority_list_pid s' = (priority_list_pid s)[slot := sint (pid q)] \<and> exception_halt s' \<noteq> 1 \<and> pid_bitpattern s' = pid_bitpattern s"
  by (rule halt_child_facts [OF assms])

definition halt_demo :: proc_state where
  "halt_demo = proc_demo\<lparr>esp := 0x7F7F00, priority_list_pid := [4, 2, 3, -1, -1, -1, -1],
     pcbs := (\<lambda>_. demo_pcb)(0x7F6000 := demo_pcb\<lparr>pid := 4, parent_addr := 0x7FC000, kebp := 0x7FDF40\<rparr>)\<rparr>"

theorem halt_child_witness:
  "\<exists>s'. halt 7 halt_demo = Some (s', Leave_Ret 0x7FDF40 0x7FDF40 7) \<and> current_task s' = 1 \<and> priority_list_pid s' = [1, 2, 3, -1, -1, -1, -1]"
proof -
  let ?n = "demo_pcb\<lparr>pid := 4, parent_addr := 0x7FC000, kebp := 0x7FDF40\<rparr>"
  have u: "[0..<7] = [0, 1, 2, 3, 4, 5, 6 :: nat]" by (simp add: upt_conv_Cons numeral_2_eq_2 numeral_3_eq_3)
  have c: "current_PCB halt_demo = 0x7F6000" by (simp add: halt_demo_def current_PCB_def)
  have f: "tables_ok halt_demo" "?n = pcbs halt_demo (current_PCB halt_demo)" "pid ?n > 3" "length (fileArray ?n) = 8" "parent_addr ?n \<noteq> current_PCB halt_demo"
    "demo_pcb = pcbs halt_demo (parent_addr ?n)" "exception_halt halt_demo = 0" "priority_list_pid halt_demo = [4, 2, 3, -1, -1, -1, -1]"
    "find (\<lambda>i. word_of_int (priority_list_pid halt_demo ! i) = pid ?n) [0..<7] = Some 0"
    using proc_demo_exec(3,12) unfolding c u by (simp_all add: halt_demo_def tables_ok_def demo_pcb_files)
  from halt_child [OF f(1-6,9), of 7] obtain s' where s': "halt 7 halt_demo = Some (s', Leave_Ret (if exception_halt halt_demo = 1 then kesp ?n else kebp ?n) (kebp ?n)
      (if exception_halt halt_demo = 1 then 256 else ucast (7 :: u8)))" "current_task s' = pid demo_pcb" "priority_list_pid s' = (priority_list_pid halt_demo)[0 := sint (pid demo_pcb)]"
    by blast
  moreover have "pid demo_pcb = 1" by (simp add: demo_pcb_def)
  ultimately show ?thesis using f(7,8) by simp
qed

text \<open>
  C14: running a child and halting it brings the parent back. After \<open>execute\<close> of a program as a child of
  the current process, \<open>halt\<close> in the child returns to the frame of that \<open>execute\<close> call with the status as its result;
  run queue, task count, task, stack and page are the parent's again, the parent's control
  block is as it was, and only the process number is not given back.
\<close>

theorem execute_halt_roundtrip:
  assumes "fs_ready s" and "image_safe s" and "tables_ok s" and "proc_tables s" and "cstr (mem s) command cmd" and "fst command \<noteq> Local 9"
    and "cmd \<noteq> []" and "length cmd < 1024" and "length (prog_arg cmd) < 128" and "total_tasks s < 7"
    and "program_at (mem s) (bootblock_ptr s) (prog_name cmd) i" and "find (\<lambda>i. pid_bitpattern s ! i = 0) [0..<7] = Some n" and "p = of_nat n + 1"
    and "3 \<le> n" and "1 \<le> unat q" "unat q < unat p" and "current_PCB s = pcb_addr q" and "pid (pcbs s (pcb_addr q)) = q"
    and "slot < 7" and "priority_list_pid s ! slot = sint q" and "\<And>j. j < 7 \<Longrightarrow> j \<noteq> slot \<Longrightarrow> priority_list_pid s ! j \<noteq> sint q \<and> priority_list_pid s ! j \<noteq> sint p"
    and "\<And>j. j < 7 \<Longrightarrow> - (2 ^ 31) \<le> priority_list_pid s ! j \<and> priority_list_pid s ! j < 2 ^ 31" and "exception_halt s \<noteq> 1"
  shows "\<exists>s' c. execute command s = Some (s', c) \<and> (\<forall>e status. e AND 0xFFFFE000 = pcb_addr p \<longrightarrow>
    (\<exists>s''. halt status (s'\<lparr>esp := e\<rparr>) = Some (s'', Leave_Ret (ebp s) (ebp s) (ucast status))
      \<and> priority_list_pid s'' = priority_list_pid s \<and> total_tasks s'' = total_tasks s \<and> current_task s'' = q
      \<and> tss_esp0 s'' = kernelStack (pcbs s (pcb_addr q)) \<and> tlb_user s'' = Some (user_page_addr q)
      \<and> pcbs s'' (pcb_addr q) = pcbs s (pcb_addr q) \<and> pid_bitpattern s'' = (pid_bitpattern s)[n := 1]))"
proof -
  have n7: "n < 7" using assms(12) by (auto simp: find_Some_iff)
  have up: "unat p = n + 1" using n7 by (simp add: assms(13) unat_add_lem [THEN iffD1] unat_of_nat unat_word_ariths)
  have p3: "p > 3" using up assms(14) by (simp add: word_less_nat_alt)
  have len7: "length (priority_list_pid s) = 7" using assms(4) by (simp add: proc_tables_def)
  have eq: "word_of_int (priority_list_pid s ! j) = w \<longleftrightarrow> priority_list_pid s ! j = sint w" if "j < 7" for j and w :: u32
    using assms(22) [OF that] sint_word_of_int_u32 by auto
  have one: "find P [0..<7] = Some slot" if "P slot" and "\<And>j. j < 7 \<Longrightarrow> j \<noteq> slot \<Longrightarrow> \<not> P j" for P
    using that assms(19) by (auto simp: find_Some_iff intro!: exI [of _ slot])
  have slot: "find (\<lambda>j. if p > 3 then word_of_int (priority_list_pid s ! j) = pid (pcbs s (current_PCB s)) else priority_list_pid s ! j \<le> 0) [0..<7] = Some slot"
    using p3 assms(17,18,20,21) eq assms(19) by (intro one) auto
  obtain M F n' v where ex: "execute command s = Some (s\<lparr>iflag := False, mem := M, pageDir := (pageDir s)[32 := user_page_addr p OR FOURMB_USER_PAGE],
        frames := F, tlb_user := Some (user_page_addr p), total_tasks := total_tasks s + 1, pid_bitpattern := (pid_bitpattern s)[n := 1],
        pcbs := (pcbs s)(pcb_addr p := n'), newPCB_var := v,
        priority_list_pid := (priority_list_pid s)[slot := sint p], current_schedule := int slot, tss_ss0 := KERNEL_DS, tss_esp0 := kernel_stack p,
        current_task := p, terminal_current_pid := (terminal_current_pid s)[unat (active_terminal s) := p]\<rparr>,
        Iret USER_DS 0x083FFFFC 0x0200 USER_CS (ld32 M (Global, CP_VADDR + 24)))" (is "_ = Some (?t, ?c)")
    and np: "new_pcb p (esp s) (ebp s) (prog_arg cmd) s n'"
    using execute_result [OF assms(1-13) slot] by blast
  have ne: "pcb_addr q \<noteq> pcb_addr p" using pcb_addr_inj [of q p] assms(15,16) up n7 by auto
  have n': "pid n' = p" "kebp n' = ebp s" "length (fileArray n') = 8" "parent_addr n' = pcb_addr q"
    using np p3 assms(17) by (simp_all add: new_pcb_def std_files_def)
  have "\<exists>s''. halt status (?t\<lparr>esp := e\<rparr>) = Some (s'', Leave_Ret (ebp s) (ebp s) (ucast status))
      \<and> priority_list_pid s'' = priority_list_pid s \<and> total_tasks s'' = total_tasks s \<and> current_task s'' = q
      \<and> tss_esp0 s'' = kernelStack (pcbs s (pcb_addr q)) \<and> tlb_user s'' = Some (user_page_addr q)
      \<and> pcbs s'' (pcb_addr q) = pcbs s (pcb_addr q) \<and> pid_bitpattern s'' = (pid_bitpattern s)[n := 1]"
    if e: "e AND 0xFFFFE000 = pcb_addr p" for e status
  proof -
    let ?u = "?t\<lparr>esp := e\<rparr>"
    have cur: "current_PCB ?u = pcb_addr p" using e by (simp add: current_PCB_def)
    have u: "n' = pcbs ?u (current_PCB ?u)" "pid n' > 3" "tables_ok ?u" "parent_addr n' \<noteq> current_PCB ?u" "pcbs s (pcb_addr q) = pcbs ?u (parent_addr n')"
      using cur n' p3 assms(3) ne by (simp_all add: tables_ok_def)
    have pl: "priority_list_pid ?u = (priority_list_pid s)[slot := sint p]" "exception_halt ?u = exception_halt s" by simp_all
    have "find (\<lambda>j. word_of_int (priority_list_pid ?u ! j) = pid n') [0..<7] = Some slot"
      unfolding pl using n'(1) assms(19,21) len7 eq by (intro one) (simp_all add: nth_list_update)
    moreover have "((priority_list_pid s)[slot := sint p])[slot := sint q] = priority_list_pid s" using assms(20) by (metis list_update_id list_update_overwrite)
    ultimately show ?thesis
      using halt_child_facts [OF u(3,1,2) n'(3) u(4,5), of slot status] pl assms(18,23) n'(2) ne cur by auto
  qed
  then show ?thesis unfolding ex by blast
qed

theorem execute_halt_roundtrip_witness:
  "\<exists>s' c s''. execute (Global, 0x100) proc_demo = Some (s', c) \<and> halt 7 (s'\<lparr>esp := 0x7F7F00\<rparr>) = Some (s'', Leave_Ret (ebp proc_demo) (ebp proc_demo) 7)
    \<and> priority_list_pid s'' = [1, 2, 3, -1, -1, -1, -1] \<and> pid_bitpattern s'' = [1, 1, 1, 1, 0, 0, 0]"
proof -
  have prog: "program_at (mem proc_demo) (bootblock_ptr proc_demo) (prog_name [0x68, 0x69]) 1" using proc_demo_exec(7,8) by simp
  have lst: "\<And>j. j < 7 \<Longrightarrow> j \<noteq> 0 \<Longrightarrow> priority_list_pid proc_demo ! j \<noteq> sint (1 :: u32) \<and> priority_list_pid proc_demo ! j \<noteq> sint (4 :: u32)"
    "\<And>j. j < 7 \<Longrightarrow> - (2 ^ 31) \<le> priority_list_pid proc_demo ! j \<and> priority_list_pid proc_demo ! j < 2 ^ 31"
    unfolding proc_demo_exec by (auto simp: less_Suc_eq numeral_eq_Suc nth_Cons split: nat.splits)
  have pre: "fst (Global, 0x100 :: u32) \<noteq> Local 9" "[0x68, 0x69 :: u8] \<noteq> []" "length [0x68, 0x69 :: u8] < 1024" "length (prog_arg [0x68, 0x69]) < 128"
    "total_tasks proc_demo < 7" "(4 :: u32) = of_nat 3 + 1" "3 \<le> (3 :: nat)" "1 \<le> unat (1 :: u32)" "unat (1 :: u32) < unat (4 :: u32)"
    "current_PCB proc_demo = pcb_addr 1" "pid (pcbs proc_demo (pcb_addr 1)) = 1" "0 < (7 :: nat)" "priority_list_pid proc_demo ! 0 = sint (1 :: u32)"
    "exception_halt proc_demo \<noteq> 1"
    by (simp_all add: proc_demo_exec proc_demo_simps demo_pcb_def pcb_addr_def kernel_stack_def)
  have "\<exists>s' c. execute (Global, 0x100) proc_demo = Some (s', c) \<and> (\<forall>e status. e AND 0xFFFFE000 = pcb_addr 4 \<longrightarrow>
    (\<exists>s''. halt status (s'\<lparr>esp := e\<rparr>) = Some (s'', Leave_Ret (ebp proc_demo) (ebp proc_demo) (ucast status))
      \<and> priority_list_pid s'' = priority_list_pid proc_demo \<and> total_tasks s'' = total_tasks proc_demo \<and> current_task s'' = 1
      \<and> tss_esp0 s'' = kernelStack (pcbs proc_demo (pcb_addr 1)) \<and> tlb_user s'' = Some (user_page_addr 1)
      \<and> pcbs s'' (pcb_addr 1) = pcbs proc_demo (pcb_addr 1) \<and> pid_bitpattern s'' = (pid_bitpattern proc_demo)[3 := 1]))"
    by (rule execute_halt_roundtrip [OF proc_demo_exec(1-5) pre(1-5) prog proc_demo_slots(1) pre(6-13) lst pre(14)])
  then obtain s' c where s': "execute (Global, 0x100) proc_demo = Some (s', c)" and h: "\<And>e status. e AND 0xFFFFE000 = pcb_addr 4 \<Longrightarrow>
    \<exists>s''. halt status (s'\<lparr>esp := e\<rparr>) = Some (s'', Leave_Ret (ebp proc_demo) (ebp proc_demo) (ucast status))
      \<and> priority_list_pid s'' = priority_list_pid proc_demo \<and> pid_bitpattern s'' = (pid_bitpattern proc_demo)[3 := 1]"
    by blast
  have "(0x7F7F00 :: u32) AND 0xFFFFE000 = pcb_addr 4" by (simp add: pcb_addr_def kernel_stack_def)
  from h [OF this, of 7] show ?thesis using s' by (auto simp: proc_demo_exec)
qed

end
