(* ===== verification/Schedule.thy ===== *)
theory Schedule
  imports Process "HOL-Library.Signed_Division"
begin

text \<open>
  The scheduler (\<open>student-distrib/schedule.c\<close>): a round-robin walk over the seven slots of the run queue
  \<open>priority_list_pid\<close>, driven by the timer interrupt. A context switch ends with new values of \<open>esp\<close>
  and \<open>ebp\<close>; it returns into the frame of the process switched to. Until three base shells have
  been started, a tick starts the next one instead.
\<close>

section \<open>The operations\<close>

definition scheduler_init :: "'a proc_state_scheme \<Rightarrow> 'a proc_state_scheme option" where
  "scheduler_init s = do {
     let s = s\<lparr>schedule_started := 0\<rparr>;
     let s = s\<lparr>current_schedule := -1\<rparr>;
     let s = s\<lparr>active_terminal := 3\<rparr>;
     pl \<leftarrow> foldo (\<lambda>i pl. arr_set pl i (-1)) [0..<7] (priority_list_pid s);
     Some (s\<lparr>priority_list_pid := pl\<rparr>) }"

text \<open>The search for the next slot in use; without one it does not end.\<close>

partial_function (option) next_slot :: "int list \<Rightarrow> nat \<Rightarrow> nat option" where
  "next_slot pl i = do {
     p \<leftarrow> arr_get pl i;
     if p < 0 then next_slot pl (if i + 1 > 6 then 0 else i + 1) else Some i }"

definition switch_to :: "nat \<Rightarrow> 'a proc_state_scheme \<Rightarrow> ('a proc_state_scheme \<times> control) option" where
  "switch_to planned s = do {
     next_pid \<leftarrow> arr_get (priority_list_pid s) planned;
     let p = word_of_int next_pid;
     s \<leftarrow> map_user_page p s;
     let s = s\<lparr>current_schedule := int planned\<rparr>;
     let s = send_eoi 0 s;
     let a = pcb_addr p;
     let s = s\<lparr>tss_ss0 := KERNEL_DS, tss_esp0 := kernel_stack p\<rparr>;
     let c = current_PCB s;
     let s = s\<lparr>pcbs := (pcbs s)(c := (pcbs s c)\<lparr>processState := 3\<rparr>)\<rparr>;
     let s = s\<lparr>pcbs := (pcbs s)(a := (pcbs s a)\<lparr>processState := 2\<rparr>)\<rparr>;
     let s = s\<lparr>pcb_terminal := terminal_id (pcbs s c)\<rparr>;
     Some (s\<lparr>esp := sesp (pcbs s a), ebp := sebp (pcbs s a)\<rparr>, Returns 0) }"

definition switch_tasks :: "'a proc_state_scheme \<Rightarrow> ('a proc_state_scheme \<times> control) option" where
  "switch_tasks s = do {
     let c = current_PCB s;
     let s = s\<lparr>pcbs := (pcbs s)(c := (pcbs s c)\<lparr>sesp := esp s, sebp := ebp s\<rparr>)\<rparr>;
     if schedule_started s = 1
     then do {
       let planned = (current_schedule s + 1) smod 7;
       planned \<leftarrow> (if planned < 0 then None else next_slot (priority_list_pid s) (nat planned));
       switch_to planned s }
     else do {
       let s = s\<lparr>active_terminal := active_terminal s - 1\<rparr>;
       let s = (if active_terminal s = 0 then s\<lparr>schedule_started := 1\<rparr> else s);
       let s = send_eoi 0 s;
       execute (Local 2, 0) (shell_literal s) } }"

definition schedule :: "'a proc_state_scheme \<Rightarrow> ('a proc_state_scheme \<times> control) option" where
  "schedule s = do {
     let s = cli s;
     (s, r) \<leftarrow> switch_tasks s;
     case r of Returns _ \<Rightarrow> Some (sti s, r) | _ \<Rightarrow> Some (s, r) }"

section \<open>Round robin\<close>

text \<open>
  A queue of \<open>N\<close> slots and a choice of the next slot: the first one in use after the given one, going round.
\<close>

locale round_robin =
  fixes N :: nat and occupied :: "nat \<Rightarrow> bool" and nxt :: "nat \<Rightarrow> nat"
  assumes some_slot: "\<exists>j < N. occupied j"
    and nxt_law: "i < N \<Longrightarrow> \<exists>k < N. nxt i = (i + 1 + k) mod N \<and> occupied (nxt i) \<and> (\<forall>l < k. \<not> occupied ((i + 1 + l) mod N))"
begin

lemma nxt_less: "i < N \<Longrightarrow> nxt i < N"
  using nxt_law [of i] some_slot by (metis mod_less_divisor gr_implies_not0 neq0_conv)

lemma nxt_occupied: "i < N \<Longrightarrow> occupied (nxt i)"
  using nxt_law by blast

text \<open>Every slot in use comes up after at most \<open>N\<close> choices, wherever one starts.\<close>

lemma reaches:
  "i < N \<Longrightarrow> d < N \<Longrightarrow> occupied ((i + 1 + d) mod N) \<Longrightarrow> \<exists>n \<le> Suc d. 0 < n \<and> (nxt ^^ n) i = (i + 1 + d) mod N"
proof (induction d arbitrary: i rule: less_induct)
  case (less d)
  obtain k where k: "k < N" "nxt i = (i + 1 + k) mod N" "\<forall>l < k. \<not> occupied ((i + 1 + l) mod N)" using nxt_law [OF less.prems(1)] by blast
  have kd: "k \<le> d" using k(3) less.prems(3) by (meson not_less)
  show ?case
  proof (cases "k = d")
    case True
    then show ?thesis using k(2) by (intro exI [of _ 1]) simp
  next
    case False
    then have lt: "d - Suc k < d" "d - Suc k < N" using kd less.prems(2) by simp_all
    have "(nxt i + 1 + (d - Suc k)) mod N = (i + 1 + k + (1 + (d - Suc k))) mod N" unfolding k(2) by (simp only: mod_add_left_eq add.assoc)
    also have "i + 1 + k + (1 + (d - Suc k)) = i + 1 + d" using False kd by simp
    finally have eq: "(nxt i + 1 + (d - Suc k)) mod N = (i + 1 + d) mod N" .
    from less.IH [OF lt(1) nxt_less [OF less.prems(1)] lt(2)] less.prems(3) eq
    obtain n where "n \<le> Suc (d - Suc k)" "(nxt ^^ n) (nxt i) = (i + 1 + d) mod N" by auto
    then show ?thesis using False kd by (intro exI [of _ "Suc n"]) (simp add: funpow_swap1)
  qed
qed

lemma fair: "i < N \<Longrightarrow> j < N \<Longrightarrow> occupied j \<Longrightarrow> \<exists>n \<le> N. 0 < n \<and> (nxt ^^ n) i = j"
proof -
  assume ij: "i < N" "j < N" "occupied j"
  let ?d = "(j + N - (i + 1)) mod N"
  have "(i + 1 + ?d) mod N = (i + 1 + (j + N - (i + 1))) mod N" by (rule mod_add_right_eq)
  also have "i + 1 + (j + N - (i + 1)) = j + N" using ij(1) by simp
  finally have e: "(i + 1 + ?d) mod N = j" using ij(2) by simp
  have "?d < N" using ij(1) by simp
  from reaches [OF ij(1) this] e ij(3) obtain n where "n \<le> Suc ?d" "0 < n" "(nxt ^^ n) i = j" by auto
  then show ?thesis using \<open>?d < N\<close> by (intro exI [of _ n]) simp
qed

end

section \<open>Lemmas: the next slot\<close>

lemma next_slot_used:
  assumes ret: "next_slot pl i = Some j"
  shows "j < length pl \<and> pl ! j \<ge> 0"
proof (rule next_slot.raw_induct [where P = "\<lambda>pl i j. j < length pl \<and> pl ! j \<ge> 0", OF _ ret])
  fix f pl i j
  assume IH: "\<And>pl i j. f pl i = Some j \<Longrightarrow> j < length pl \<and> (0 :: int) \<le> pl ! j"
    and eq: "do { p \<leftarrow> arr_get pl i; if p < 0 then f pl (if i + 1 > 6 then 0 else i + 1) else Some i } = Some j"
  show "j < length pl \<and> 0 \<le> pl ! j"
    using eq IH by (cases "i < length pl") (auto simp: arr_get_def split: if_splits)
qed

lemma next_slot_first:
  "length pl = 7 \<Longrightarrow> i < 7 \<Longrightarrow> pl ! ((i + k) mod 7) \<ge> 0 \<Longrightarrow> (\<And>l. l < k \<Longrightarrow> pl ! ((i + l) mod 7) < 0) \<Longrightarrow>
   next_slot pl i = Some ((i + k) mod 7)"
proof (induction k arbitrary: i)
  case 0
  then show ?case by (subst next_slot.simps) (simp add: arr_get_def)
next
  case (Suc k)
  let ?i = "if i + 1 > 6 then 0 else i + 1"
  have m: "(?i + l) mod 7 = (i + Suc l) mod 7" for l 
  proof (cases "i = 6")
    case False
    then show ?thesis using Suc.prems(2) by simp
  qed (simp add: mod_simps)
  have "next_slot pl ?i = Some ((?i + k) mod 7)"
    using Suc.prems(1-3) Suc.prems(4) [of "Suc _"] m by (intro Suc.IH) auto
  moreover have "pl ! i < 0" using Suc.prems(4) [of 0] Suc.prems(2) by simp
  ultimately show ?case using Suc.prems(1,2) m by (subst next_slot.simps) (simp add: arr_get_def)
qed

lemma next_slot_round:
  assumes "length pl = 7" and "i < 7" and "j < 7" and "pl ! j \<ge> 0"
  shows "\<exists>k < 7. next_slot pl i = Some ((i + k) mod 7) \<and> pl ! ((i + k) mod 7) \<ge> 0 \<and> (\<forall>l < k. pl ! ((i + l) mod 7) < 0)"
proof -
  define d where "d = (j + 7 - i) mod 7"
  have "(i + d) mod 7 = (i + (j + 7 - i)) mod 7" unfolding d_def by (rule mod_add_right_eq)
  also have "i + (j + 7 - i) = j + 7" using assms(2) by simp
  finally have d: "(i + d) mod 7 = j" "d < 7" using assms(3) by (simp_all add: d_def)
  define k where "k = (LEAST k. pl ! ((i + k) mod 7) \<ge> 0)"
  have k: "pl ! ((i + k) mod 7) \<ge> 0" "k \<le> d" unfolding k_def using d(1) assms(4) by (auto intro: LeastI Least_le)
  have least: "pl ! ((i + l) mod 7) < 0" if "l < k" for l using not_less_Least [of l] that unfolding k_def by fastforce
  show ?thesis using next_slot_first [OF assms(1,2) k(1) least] k d(2) least by (intro exI [of _ k]) simp
qed

text \<open>
  C12: the search for the next slot ends exactly when the run queue holds a process; it then yields the
  first slot in use at or after the start, going round.
\<close>

theorem next_slot_terminates:
  assumes "length pl = 7" and "i < 7"
  shows "((\<exists>j. next_slot pl i = Some j) \<longleftrightarrow> (\<exists>j < 7. pl ! j \<ge> 0))
    \<and> (\<forall>j. next_slot pl i = Some j \<longrightarrow> (\<exists>k < 7. j = (i + k) mod 7 \<and> pl ! j \<ge> 0 \<and> (\<forall>l < k. pl ! ((i + l) mod 7) < 0)))"
proof -
  have "(\<exists>j < 7. pl ! j \<ge> 0)" if "next_slot pl i = Some j" for j using next_slot_used [OF that] assms(1) by auto
  then show ?thesis using next_slot_round [OF assms] by fastforce
qed

theorem next_slot_terminates_witness: "next_slot [1, -1, -1, 2, -1, -1, -1] 4 = Some 0"
proof -
  let ?pl = "[1, -1, -1, 2, -1, -1, -1] :: int list"
  have "(\<exists>j < 7. ?pl ! j \<ge> 0)" by (rule exI [of _ 0]) simp
  then obtain j where j: "next_slot ?pl 4 = Some j" using next_slot_terminates [of ?pl 4] by auto
  moreover have "\<exists>k < 7. j = (4 + k) mod 7 \<and> ?pl ! j \<ge> 0 \<and> (\<forall>l < k. ?pl ! ((4 + l) mod 7) < 0)"
    using next_slot_terminates [of ?pl 4] j by simp
  then obtain k where k: "k < 7" "j = (4 + k) mod 7" "?pl ! j \<ge> 0" "\<forall>l < k. ?pl ! ((4 + l) mod 7) < 0" by blast
  have "\<not> 3 < k" using spec [OF k(4), of 3] by simp
  then have "k = 0 \<or> k = 1 \<or> k = 2 \<or> k = 3" by auto
  with k(2,3) have "j = 0" by auto
  with j show ?thesis by simp
qed

text \<open>The choice of slot a timer tick makes, as a function of the slot of the current process.\<close>

definition tick_slot :: "int list \<Rightarrow> nat \<Rightarrow> nat" where
  "tick_slot pl i = the (next_slot pl ((i + 1) mod 7))"

lemma tick_slot_law:
  assumes "length pl = 7" and "\<exists>j < 7. pl ! j \<ge> 0" and "i < 7"
  shows "\<exists>k < 7. tick_slot pl i = (i + 1 + k) mod 7 \<and> pl ! tick_slot pl i \<ge> 0 \<and> (\<forall>l < k. \<not> pl ! ((i + 1 + l) mod 7) \<ge> 0)"
    "next_slot pl ((i + 1) mod 7) = Some (tick_slot pl i)"
proof -
  obtain j where "j < 7" "pl ! j \<ge> 0" using assms(2) by blast
  from next_slot_round [OF assms(1) _ this, of "(i + 1) mod 7"]
  obtain k where k: "k < 7" "next_slot pl ((i + 1) mod 7) = Some (((i + 1) mod 7 + k) mod 7)" "pl ! (((i + 1) mod 7 + k) mod 7) \<ge> 0"
    "\<forall>l < k. pl ! (((i + 1) mod 7 + l) mod 7) < 0" by auto
  have e: "((i + 1) mod 7 + l) mod 7 = (i + 1 + l) mod 7" for l by (rule mod_add_left_eq)
  show "next_slot pl ((i + 1) mod 7) = Some (tick_slot pl i)" using k(2) by (simp add: tick_slot_def)
  show "\<exists>k < 7. tick_slot pl i = (i + 1 + k) mod 7 \<and> pl ! tick_slot pl i \<ge> 0 \<and> (\<forall>l < k. \<not> pl ! ((i + 1 + l) mod 7) \<ge> 0)"
    using k unfolding e by (intro exI [of _ k]) (simp add: tick_slot_def not_le)
qed

text \<open>The run queues that hold a process, on which the choice is a round robin.\<close>

typedef run_queue = "{pl :: int list. length pl = 7 \<and> (\<exists>j < 7. pl ! j \<ge> 0)}"
proof
  show "[0, -1, -1, -1, -1, -1, -1] \<in> {pl :: int list. length pl = 7 \<and> (\<exists>j < 7. pl ! j \<ge> 0)}" by (auto intro!: exI [of _ 0])
qed

lemma run_queue_slots: "length (Rep_run_queue q) = 7" "\<exists>j < 7. Rep_run_queue q ! j \<ge> 0"
  using Rep_run_queue [of q] by simp_all

interpretation rr: round_robin 7 "\<lambda>j. Rep_run_queue q ! j \<ge> 0" "tick_slot (Rep_run_queue q)" for q
  using run_queue_slots [of q] tick_slot_law(1) [OF run_queue_slots] by unfold_locales simp_all

lemma tick_slot_fair:
  assumes "length pl = 7" and "i < 7" and "j < 7" and "pl ! j \<ge> 0"
  shows "\<exists>n \<le> 7. 0 < n \<and> (tick_slot pl ^^ n) i = j"
proof -
  have "Rep_run_queue (Abs_run_queue pl) = pl" using assms by (intro Abs_run_queue_inverse) auto
  then show ?thesis using rr.fair [of i j "Abs_run_queue pl"] assms(2-4) by simp
qed

section \<open>Lemmas: the context switch\<close>

lemma send_eoi_log: "send_eoi n s = s\<lparr>io_log := io_log (send_eoi n s)\<rparr>"
  by (simp add: send_eoi_def outb_def Let_def)

lemma smod_7: "-1 \<le> i \<Longrightarrow> i < 7 \<Longrightarrow> (i + 1) smod 7 = (i + 1) mod (7 :: int)"
  by (cases "i = -1") (simp_all add: signed_modulo_int_def sgn_if)

text \<open>The control blocks after the switch from \<open>c\<close> to \<open>a\<close>.\<close>

definition switched :: "u32 \<Rightarrow> u32 \<Rightarrow> 'a proc_state_scheme \<Rightarrow> u32 \<Rightarrow> PCB" where
  "switched c a s = (let P = (pcbs s)(c := (pcbs s c)\<lparr>sesp := esp s, sebp := ebp s, processState := 3\<rparr>) in P(a := (P a)\<lparr>processState := 2\<rparr>))"

lemma switched_simps:
  "sesp (switched c a s x) = (if x = c then esp s else sesp (pcbs s x))"
  "sebp (switched c a s x) = (if x = c then ebp s else sebp (pcbs s x))"
  "processState (switched c a s x) = (if x = a then 2 else if x = c then 3 else processState (pcbs s x))"
  "pid (switched c a s x) = pid (pcbs s x)" "terminal_id (switched c a s x) = terminal_id (pcbs s x)"
  "kernelStack (switched c a s x) = kernelStack (pcbs s x)" "kesp (switched c a s x) = kesp (pcbs s x)" "kebp (switched c a s x) = kebp (pcbs s x)"
  "args (switched c a s x) = args (pcbs s x)" "fileArray (switched c a s x) = fileArray (pcbs s x)" "parent_addr (switched c a s x) = parent_addr (pcbs s x)"
  by (simp_all add: switched_def Let_def)

lemma switch_tasks_result:
  assumes "tables_ok s" and "schedule_started s = 1" and "-1 \<le> current_schedule s" and "current_schedule s < 7"
    and "next_slot (priority_list_pid s) (nat ((current_schedule s + 1) mod 7)) = Some j" and "p = word_of_int (priority_list_pid s ! j)"
  shows "\<exists>M F. switch_tasks s = Some (s\<lparr>pageDir := (pageDir s)[32 := user_page_addr p OR FOURMB_USER_PAGE], frames := F,
        tlb_user := Some (user_page_addr p), mem := M, current_schedule := int j, io_log := io_log (send_eoi 0 s),
        tss_ss0 := KERNEL_DS, tss_esp0 := kernel_stack p, pcbs := switched (current_PCB s) (pcb_addr p) s,
        pcb_terminal := terminal_id (pcbs s (current_PCB s)),
        esp := sesp (switched (current_PCB s) (pcb_addr p) s (pcb_addr p)), ebp := sebp (switched (current_PCB s) (pcb_addr p) s (pcb_addr p))\<rparr>, Returns 0)
    \<and> (\<forall>r. \<not> in_user_page r \<longrightarrow> M r = mem s r)"
proof -
  let ?c = "current_PCB s"
  define t where "t = s\<lparr>pcbs := (pcbs s)(?c := (pcbs s ?c)\<lparr>sesp := esp s, sebp := ebp s\<rparr>)\<rparr>"
  have "tables_ok t" using assms(1) by (simp add: t_def tables_ok_def)
  then obtain M F where m: "map_user_page p t = Some (t\<lparr>pageDir := (pageDir t)[32 := user_page_addr p OR FOURMB_USER_PAGE], frames := F,
      tlb_user := Some (user_page_addr p), mem := M\<rparr>)" "\<forall>r. \<not> in_user_page r \<longrightarrow> M r = mem t r"
    using map_user_page_state by blast
  have g: "arr_get (priority_list_pid t) j = Some (priority_list_pid s ! j)" using next_slot_used [OF assms(5)] by (simp add: arr_get_def t_def)
  have io: "send_eoi 0 (u\<lparr>current_schedule := k\<rparr>) = u\<lparr>current_schedule := k, io_log := io_log (send_eoi 0 u)\<rparr>" for u :: "'a proc_state_scheme" and k
    by (simp add: send_eoi_def outb_def)
  have sw: "switch_tasks s = switch_to j t"
    using assms(2,5) smod_7 [OF assms(3,4)] leD [OF pos_mod_sign [of 7 "current_schedule s + 1"]] by (simp add: switch_tasks_def Let_def t_def)
  show ?thesis
    unfolding sw using m(2) g m(1)
    by (intro exI [of _ M] exI [of _ F]) (simp add: switch_to_def Let_def io current_PCB_def assms(6) t_def switched_def send_eoi_def outb_def)
qed

lemma schedule_result:
  assumes "tables_ok s" and "schedule_started s = 1" and "-1 \<le> current_schedule s" and "current_schedule s < 7"
    and "next_slot (priority_list_pid s) (nat ((current_schedule s + 1) mod 7)) = Some j" and "p = word_of_int (priority_list_pid s ! j)"
  shows "\<exists>M F L. schedule s = Some (s\<lparr>iflag := True, pageDir := (pageDir s)[32 := user_page_addr p OR FOURMB_USER_PAGE], frames := F,
        tlb_user := Some (user_page_addr p), mem := M, current_schedule := int j, io_log := L,
        tss_ss0 := KERNEL_DS, tss_esp0 := kernel_stack p, pcbs := switched (current_PCB s) (pcb_addr p) s,
        pcb_terminal := terminal_id (pcbs s (current_PCB s)),
        esp := sesp (switched (current_PCB s) (pcb_addr p) s (pcb_addr p)), ebp := sebp (switched (current_PCB s) (pcb_addr p) s (pcb_addr p))\<rparr>, Returns 0)
    \<and> (\<forall>r. \<not> in_user_page r \<longrightarrow> M r = mem s r)"
proof -
  have c: "tables_ok (cli s)" "current_PCB (cli s) = current_PCB s" "switched c a (cli s) = switched c a s" for c a
    using assms(1) by (simp_all add: cli_def tables_ok_def current_PCB_def switched_def)
  have "schedule_started (cli s) = 1" "-1 \<le> current_schedule (cli s)" "current_schedule (cli s) < 7"
    "next_slot (priority_list_pid (cli s)) (nat ((current_schedule (cli s) + 1) mod 7)) = Some j" "p = word_of_int (priority_list_pid (cli s) ! j)"
    using assms(2-6) by (simp_all add: cli_def)
  from switch_tasks_result [OF c(1) this] obtain M F where
    "switch_tasks (cli s) = Some ((cli s)\<lparr>pageDir := (pageDir s)[32 := user_page_addr p OR FOURMB_USER_PAGE], frames := F,
        tlb_user := Some (user_page_addr p), mem := M, current_schedule := int j, io_log := io_log (send_eoi 0 (cli s)),
        tss_ss0 := KERNEL_DS, tss_esp0 := kernel_stack p, pcbs := switched (current_PCB s) (pcb_addr p) s,
        pcb_terminal := terminal_id (pcbs s (current_PCB s)),
        esp := sesp (switched (current_PCB s) (pcb_addr p) s (pcb_addr p)), ebp := sebp (switched (current_PCB s) (pcb_addr p) s (pcb_addr p))\<rparr>, Returns 0)"
    "\<forall>r. \<not> in_user_page r \<longrightarrow> M r = mem s r"
    unfolding c(2,3) by (elim exE conjE) (simp add: cli_def)
  then show ?thesis
    by (intro exI [of _ M] exI [of _ F] exI [of _ "io_log (send_eoi 0 (cli s))"]) (simp add: schedule_def cli_def sti_def)
qed

lemma schedule_slot:
  assumes "tables_ok s" and "schedule_started s = 1" and "-1 \<le> current_schedule s" and "current_schedule s < 7"
    and "next_slot (priority_list_pid s) (nat ((current_schedule s + 1) mod 7)) = Some j"
  shows "\<exists>t. schedule s = Some (t, Returns 0) \<and> current_schedule t = int j"
  using schedule_result [OF assms refl] by (elim exE conjE) (rule exI, rule conjI, assumption, simp)

section \<open>Correctness of the scheduler\<close>

text \<open>
  C9: a timer tick, once scheduling has started, saves the stack of the running process in its control block
  and resumes the process of the next slot in use, going round: its page is mapped, its kernel
  stack installed in the task segment, its saved stack and frame pointers loaded, its state set to running. Keyboard
  input and terminal output then go to the terminal of the process that was switched away from.
\<close>

theorem schedule_correct:
  assumes "tables_ok s" and "schedule_started s = 1" and "length (priority_list_pid s) = 7" and "0 \<le> current_schedule s" and "current_schedule s < 7"
    and "j < 7" and "priority_list_pid s ! j \<ge> 0" and "c = current_PCB s"
  shows "\<exists>s' k p. schedule s = Some (s', Returns 0) \<and> 0 \<le> k \<and> k < 7 \<and> current_schedule s' = (current_schedule s + 1 + k) mod 7
    \<and> p = word_of_int (priority_list_pid s ! nat (current_schedule s')) \<and> priority_list_pid s ! nat (current_schedule s') \<ge> 0
    \<and> (\<forall>l. 0 \<le> l \<and> l < k \<longrightarrow> priority_list_pid s ! nat ((current_schedule s + 1 + l) mod 7) < 0)
    \<and> tlb_user s' = Some (user_page_addr p) \<and> tss_esp0 s' = kernel_stack p \<and> iflag s'
    \<and> (pcb_addr p \<noteq> c \<longrightarrow> esp s' = sesp (pcbs s (pcb_addr p)) \<and> ebp s' = sebp (pcbs s (pcb_addr p)) \<and> processState (pcbs s' c) = 3)
    \<and> (pcb_addr p = c \<longrightarrow> esp s' = esp s \<and> ebp s' = ebp s) \<and> processState (pcbs s' (pcb_addr p)) = 2
    \<and> sesp (pcbs s' c) = esp s \<and> sebp (pcbs s' c) = ebp s \<and> (\<forall>a. a \<noteq> c \<and> a \<noteq> pcb_addr p \<longrightarrow> pcbs s' a = pcbs s a)
    \<and> priority_list_pid s' = priority_list_pid s \<and> pcb_terminal s' = terminal_id (pcbs s c)
    \<and> (\<forall>r. \<not> in_user_page r \<longrightarrow> mem s' r = mem s r)"
proof -
  let ?i = "nat (current_schedule s)"
  have i: "?i < 7" "current_schedule s = int ?i" using assms(4,5) by simp_all
  have ex: "\<exists>j < 7. priority_list_pid s ! j \<ge> 0" using assms(6,7) by blast
  define t where "t = tick_slot (priority_list_pid s) ?i"
  obtain k where k: "k < 7" "t = (?i + 1 + k) mod 7" "priority_list_pid s ! t \<ge> 0" "\<forall>l < k. \<not> priority_list_pid s ! ((?i + 1 + l) mod 7) \<ge> 0"
    using tick_slot_law(1) [OF assms(3) ex i(1)] unfolding t_def by blast
  have "nat ((current_schedule s + 1) mod 7) = (?i + 1) mod 7" using assms(4) by (simp add: nat_mod_distrib nat_add_distrib)
  then have n: "next_slot (priority_list_pid s) (nat ((current_schedule s + 1) mod 7)) = Some t"
    using tick_slot_law(2) [OF assms(3) ex i(1)] by (simp add: t_def)
  have t: "int t = (current_schedule s + 1 + int k) mod 7" unfolding k(2) using assms(4) by (simp add: zmod_int add_ac)
  have gap: "priority_list_pid s ! nat ((current_schedule s + 1 + l) mod 7) < 0" if "0 \<le> l \<and> l < int k" for l
  proof -
    have "nat ((current_schedule s + 1 + l) mod 7) = (?i + 1 + nat l) mod 7" using assms(4) that by (simp add: nat_mod_distrib nat_add_distrib)
    then show ?thesis using spec [OF k(4), of "nat l"] that by (simp add: not_le nat_less_iff)
  qed
  have lt: "-1 \<le> current_schedule s" using assms(4) by simp
  let ?p = "word_of_int (priority_list_pid s ! t)"
  from schedule_result [OF assms(1,2) lt assms(5) n refl] obtain M F L where
    e: "schedule s = Some (s\<lparr>iflag := True, pageDir := (pageDir s)[32 := user_page_addr ?p OR FOURMB_USER_PAGE], frames := F,
        tlb_user := Some (user_page_addr ?p), mem := M, current_schedule := int t, io_log := L,
        tss_ss0 := KERNEL_DS, tss_esp0 := kernel_stack ?p, pcbs := switched (current_PCB s) (pcb_addr ?p) s,
        pcb_terminal := terminal_id (pcbs s (current_PCB s)),
        esp := sesp (switched (current_PCB s) (pcb_addr ?p) s (pcb_addr ?p)), ebp := sebp (switched (current_PCB s) (pcb_addr ?p) s (pcb_addr ?p))\<rparr>, Returns 0)"
      (is "_ = Some (?s', _)") and M: "\<forall>r. \<not> in_user_page r \<longrightarrow> M r = mem s r"
    by blast
  have other: "\<forall>a. a \<noteq> c \<and> a \<noteq> pcb_addr ?p \<longrightarrow> pcbs ?s' a = pcbs s a" by (simp add: switched_def Let_def assms(8))
  show ?thesis
    by (rule exI [of _ ?s'], rule exI [of _ "int k"], rule exI [of _ ?p], intro conjI)
      (use e M gap k(1,3) t [symmetric] other in \<open>simp_all add: switched_simps assms(8)\<close>)
qed

text \<open>Three base shells, the first one running.\<close>

definition sched_demo :: proc_state where
  "sched_demo = proc_demo\<lparr>schedule_started := 1, current_schedule := 0,
     pcbs := (\<lambda>_. demo_pcb)(0x7FA000 := demo_pcb\<lparr>pid := 2, sesp := 0x7FBF00, sebp := 0x7FBF40\<rparr>,
       0x7F8000 := demo_pcb\<lparr>pid := 3, sesp := 0x7F9F00, sebp := 0x7F9F40\<rparr>)\<rparr>"

lemma sched_demo_simps:
  "tables_ok sched_demo" "schedule_started sched_demo = 1" "priority_list_pid sched_demo = [1, 2, 3, -1, -1, -1, -1]" "current_schedule sched_demo = 0"
  "current_PCB sched_demo = 0x7FC000" "esp sched_demo = 0x7FDF00"
  "pcbs sched_demo 0x7FA000 = demo_pcb\<lparr>pid := 2, sesp := 0x7FBF00, sebp := 0x7FBF40\<rparr>"
  using proc_demo_exec(3,11) proc_demo_simps(5) by (simp_all add: sched_demo_def tables_ok_def current_PCB_def)

theorem schedule_correct_witness:
  "\<exists>s'. schedule sched_demo = Some (s', Returns 0) \<and> current_schedule s' = 1 \<and> esp s' = 0x7FBF00 \<and> sesp (pcbs s' 0x7FC000) = 0x7FDF00
    \<and> tlb_user s' = Some 0xC00000"
proof -
  have pre: "length (priority_list_pid sched_demo) = 7" "0 \<le> current_schedule sched_demo" "current_schedule sched_demo < 7" "(0 :: nat) < 7"
    "priority_list_pid sched_demo ! 0 \<ge> 0" "0x7FC000 = current_PCB sched_demo" by (simp_all add: sched_demo_simps)
  obtain s' k p where s': "schedule sched_demo = Some (s', Returns 0)" "0 \<le> k" "current_schedule s' = (current_schedule sched_demo + 1 + k) mod 7"
    "p = word_of_int (priority_list_pid sched_demo ! nat (current_schedule s'))"
    "\<forall>l. 0 \<le> l \<and> l < k \<longrightarrow> priority_list_pid sched_demo ! nat ((current_schedule sched_demo + 1 + l) mod 7) < 0"
    "tlb_user s' = Some (user_page_addr p)" "pcb_addr p \<noteq> 0x7FC000 \<longrightarrow> esp s' = sesp (pcbs sched_demo (pcb_addr p)) \<and> ebp s' = sebp (pcbs sched_demo (pcb_addr p)) \<and> processState (pcbs s' 0x7FC000) = 3"
    "sesp (pcbs s' 0x7FC000) = esp sched_demo"
    using schedule_correct [OF sched_demo_simps(1,2) pre] by (elim exE conjE) (rule that, assumption+)
  have "\<not> 0 < k" using spec [OF s'(5), of 0] by (simp add: sched_demo_simps)
  with s'(2) have "k = 0" by simp
  then have "current_schedule s' = 1" "p = 2" using s'(3,4) by (simp_all add: sched_demo_simps)
  moreover have "pcb_addr 2 = 0x7FA000" "user_page_addr 2 = 0xC00000" by (simp_all add: pcb_addr_def kernel_stack_def user_page_addr_def)
  ultimately show ?thesis using s'(1,6,7,8) sched_demo_simps(6,7) by (intro exI [of _ s']) simp
qed

text \<open>
  C11: a context switch away from a process and back to it preserves its context: whatever runs in between,
  as long as it leaves the process's saved pointers alone, when its slot comes up again it
  continues with the stack pointer, frame pointer and page it had.
\<close>

theorem context_switch_roundtrip:
  assumes "tables_ok s" and "schedule_started s = 1" and "length (priority_list_pid s) = 7" and "0 \<le> current_schedule s" and "current_schedule s < 7"
    and "p = word_of_int (priority_list_pid s ! nat (current_schedule s))" and "priority_list_pid s ! nat (current_schedule s) \<ge> 0" and "current_PCB s = pcb_addr p"
    and "schedule s = Some (s1, r)"
    and "tables_ok s2" and "schedule_started s2 = 1" and "-1 \<le> current_schedule s2" and "current_schedule s2 < 7" and "current_PCB s2 \<noteq> pcb_addr p"
    and "sesp (pcbs s2 (pcb_addr p)) = sesp (pcbs s1 (pcb_addr p))" and "sebp (pcbs s2 (pcb_addr p)) = sebp (pcbs s1 (pcb_addr p))"
    and "next_slot (priority_list_pid s2) (nat ((current_schedule s2 + 1) mod 7)) = Some j" and "word_of_int (priority_list_pid s2 ! j) = p"
  shows "\<exists>s3. schedule s2 = Some (s3, Returns 0) \<and> esp s3 = esp s \<and> ebp s3 = ebp s \<and> current_PCB s3 = pcb_addr p
    \<and> tlb_user s3 = Some (user_page_addr p) \<and> tss_esp0 s3 = kernel_stack p"
proof -
  have ex: "\<exists>j < 7. priority_list_pid s ! j \<ge> 0" using assms(4,5,7) by (intro exI [of _ "nat (current_schedule s)"]) simp
  have i: "nat (current_schedule s) < 7" using assms(4,5) by simp
  have "nat ((current_schedule s + 1) mod 7) = (nat (current_schedule s) + 1) mod 7" using assms(4) by (simp add: nat_mod_distrib nat_add_distrib)
  then have n: "next_slot (priority_list_pid s) (nat ((current_schedule s + 1) mod 7)) = Some (tick_slot (priority_list_pid s) (nat (current_schedule s)))"
    using tick_slot_law(2) [OF assms(3) ex i] by simp
  have lt: "-1 \<le> current_schedule s" using assms(4) by simp
  have "pcbs s1 = switched (pcb_addr p) (pcb_addr (word_of_int (priority_list_pid s ! tick_slot (priority_list_pid s) (nat (current_schedule s))))) s"
    using schedule_result [OF assms(1,2) lt assms(5) n refl] assms(8,9) by (elim exE conjE) auto
  then have saved: "sesp (pcbs s1 (pcb_addr p)) = esp s" "sebp (pcbs s1 (pcb_addr p)) = ebp s" by (simp_all add: switched_simps)
  let ?w = "switched (current_PCB s2) (pcb_addr p) s2"
  have w: "sesp (?w (pcb_addr p)) = esp s" "sebp (?w (pcb_addr p)) = ebp s" using assms(14-16) saved by (simp_all add: switched_simps)
  show ?thesis
    using schedule_result [OF assms(10-13,17) assms(18) [symmetric]] assms(8) unfolding w
    by (elim exE conjE) (rule exI, rule conjI, assumption, simp add: current_PCB_def)
qed

theorem context_switch_roundtrip_witness:
  "\<exists>s1 s3. schedule sched_demo = Some (s1, Returns 0) \<and> schedule (s1\<lparr>current_schedule := 2\<rparr>) = Some (s3, Returns 0) \<and> esp s3 = 0x7FDF00"
proof -
  let ?pl = "[1, 2, 3, -1, -1, -1, -1] :: int list"
  have n: "next_slot ?pl 1 = Some 1" "next_slot ?pl 3 = Some 0"
    by (subst next_slot.simps, simp add: arr_get_def)+
  have a: "pcb_addr 1 = 0x7FC000" "pcb_addr 2 = 0x7FA000" by (simp_all add: pcb_addr_def kernel_stack_def)
  have "next_slot (priority_list_pid sched_demo) (nat ((current_schedule sched_demo + 1) mod 7)) = Some 1" using n(1) by (simp add: sched_demo_simps)
  from schedule_result [OF sched_demo_simps(1,2) _ _ this refl] obtain M F L where s1: "schedule sched_demo = Some (sched_demo\<lparr>iflag := True,
        pageDir := (pageDir sched_demo)[32 := user_page_addr 2 OR FOURMB_USER_PAGE], frames := F,
        tlb_user := Some (user_page_addr 2), mem := M, current_schedule := int 1, io_log := L,
        tss_ss0 := KERNEL_DS, tss_esp0 := kernel_stack 2, pcbs := switched 0x7FC000 0x7FA000 sched_demo,
        pcb_terminal := terminal_id (pcbs sched_demo 0x7FC000),
        esp := 0x7FBF00, ebp := 0x7FBF40\<rparr>, Returns 0)" (is "_ = Some (?s1, _)")
    by (auto simp: sched_demo_simps a switched_simps)
  have "\<exists>s3. schedule (?s1\<lparr>current_schedule := 2\<rparr>) = Some (s3, Returns 0) \<and> esp s3 = esp sched_demo \<and> ebp s3 = ebp sched_demo
    \<and> current_PCB s3 = pcb_addr 1 \<and> tlb_user s3 = Some (user_page_addr 1) \<and> tss_esp0 s3 = kernel_stack 1"
    using sched_demo_simps(1) n
    by (intro context_switch_roundtrip [OF sched_demo_simps(1,2) _ _ _ _ _ _ s1, of 1 _ 0])
      (simp_all add: sched_demo_simps a current_PCB_def tables_ok_def)
  then show ?thesis using s1 sched_demo_simps(6) by auto
qed

text \<open>
  C10: the scheduler is fair: along any run in which the timer ticks again and again and the run queue
  does not change, every process in the queue is resumed within seven ticks.
\<close>

theorem schedule_fair:
  assumes "\<And>n. tables_ok (f n) \<and> schedule_started (f n) = 1 \<and> priority_list_pid (f n) = pl"
    and "\<And>n. \<exists>t r. schedule (f n) = Some (t, r) \<and> current_schedule (f (Suc n)) = current_schedule t"
    and "length pl = 7" and "j < 7" and "pl ! j \<ge> 0" and "0 \<le> current_schedule (f 0)" and "current_schedule (f 0) < 7"
  shows "\<exists>n \<le> 7. 0 < n \<and> current_schedule (f n) = int j"
proof -
  have ex: "\<exists>j < 7. pl ! j \<ge> 0" using assms(4,5) by blast
  have step: "current_schedule (f (Suc n)) = int (tick_slot pl i)" if i: "current_schedule (f n) = int i" "i < 7" for n i
  proof -
    have "nat ((current_schedule (f n) + 1) mod 7) = (i + 1) mod 7" using i(1) by (simp add: nat_mod_distrib nat_add_distrib)
    then have "next_slot (priority_list_pid (f n)) (nat ((current_schedule (f n) + 1) mod 7)) = Some (tick_slot pl i)"
      using tick_slot_law(2) [OF assms(3) ex i(2)] assms(1) by simp
    from schedule_slot [OF _ _ _ _ this] assms(1,2) [of n] i show ?thesis by auto
  qed
  have run: "current_schedule (f n) = int ((tick_slot pl ^^ n) (nat (current_schedule (f 0)))) \<and> (tick_slot pl ^^ n) (nat (current_schedule (f 0))) < 7" for n
  proof (induction n)
    case (Suc n)
    then show ?case using step [of n] tick_slot_law(1) [OF assms(3) ex, of "(tick_slot pl ^^ n) (nat (current_schedule (f 0)))"] by auto
  qed (use assms(6,7) in simp)
  have "nat (current_schedule (f 0)) < 7" using assms(6,7) by simp
  from tick_slot_fair [OF assms(3) this assms(4,5)] run show ?thesis by metis
qed

theorem schedule_fair_witness: "\<exists>n \<le> 7. 0 < n \<and> current_schedule (sched_demo\<lparr>current_schedule := int (n mod 3)\<rparr>) = int 2"
proof -
  let ?f = "\<lambda>n. sched_demo\<lparr>current_schedule := int (n mod 3)\<rparr>" and ?pl = "[1, 2, 3, -1, -1, -1, -1] :: int list"
  have nx: "next_slot ?pl 1 = Some 1" "next_slot ?pl 2 = Some 2" "next_slot ?pl 3 = Some 0"
    by (subst next_slot.simps, simp add: arr_get_def)+
  have "\<exists>t r. schedule (?f n) = Some (t, r) \<and> current_schedule (?f (Suc n)) = current_schedule t" for n
  proof -
    have "n mod 3 < 3" by simp
    then have "n mod 3 = 0 \<or> n mod 3 = 1 \<or> n mod 3 = 2" by linarith
    then have "next_slot (priority_list_pid (?f n)) (nat ((current_schedule (?f n) + 1) mod 7)) = Some (Suc n mod 3)"
      using nx by (auto simp: sched_demo_simps mod_Suc)
    moreover have "tables_ok (?f n)" using sched_demo_simps(1) by (simp add: tables_ok_def)
    ultimately have "\<exists>t. schedule (?f n) = Some (t, Returns 0) \<and> current_schedule t = int (Suc n mod 3)"
      by (intro schedule_slot) (simp_all add: sched_demo_simps)
    then show ?thesis by auto
  qed
  then show ?thesis
    using sched_demo_simps(1) by (intro schedule_fair [of ?f ?pl 2]) (simp_all add: sched_demo_simps tables_ok_def)
qed

end
