(* ===== verification/Multitasking.thy ===== *)
theory Multitasking
  imports Schedule
begin

text \<open>
  Process control and the scheduler together: a kernel whose slots each hold a stack of processes, a base
  shell at the bottom and each process waiting for the one above it. The slots take turns at every timer
  tick; \<open>execute\<close> pushes onto the stack whose turn it is, \<open>halt\<close> pops it. The theory states
  this as an abstract machine and shows that the kernel's control blocks, run queue, page tables and
  task segment implement it.
\<close>

section \<open>The abstract machine\<close>

record tasks =
  stacks :: "u32 list list"
  turn :: nat

definition live :: "tasks \<Rightarrow> u32 set" where
  "live a = set (concat (stacks a))"

definition next_turn :: "tasks \<Rightarrow> tasks" where
  "next_turn a = (case find (\<lambda>k. stacks a ! ((turn a + 1 + k) mod 7) \<noteq> []) [0..<7] of None \<Rightarrow> a | Some k \<Rightarrow> a\<lparr>turn := (turn a + 1 + k) mod 7\<rparr>)"

definition push :: "u32 \<Rightarrow> tasks \<Rightarrow> tasks" where
  "push p a = a\<lparr>stacks := (stacks a)[turn a := p # stacks a ! turn a]\<rparr>"

definition pop :: "tasks \<Rightarrow> tasks" where
  "pop a = a\<lparr>stacks := (stacks a)[turn a := tl (stacks a ! turn a)]\<rparr>"

datatype event = Run | Tick | Spawn | Reject | Exit

inductive astep :: "event \<Rightarrow> tasks \<Rightarrow> tasks \<Rightarrow> bool" where
  arun: "astep Run a a"
| atick: "astep Tick a (next_turn a)"
| aspawn: "length (concat (stacks a)) < 6 \<Longrightarrow> p \<notin> live a \<Longrightarrow> 3 < p \<Longrightarrow> unat p \<le> 7 \<Longrightarrow> astep Spawn a (push p a)"
| areject: "astep Reject a a"
| aexit: "stacks a ! turn a = p # q # ps \<Longrightarrow> astep Exit a (pop a)"

section \<open>The kernel as a state machine\<close>

abbreviation in_stack :: "u32 \<Rightarrow> u32 \<Rightarrow> bool" where
  "in_stack e a \<equiv> e AND 0xFFFFE000 = a"

text \<open>
  Between two events the running process moves its stack pointer inside its own kernel stack, opens
  and closes files, and stores anywhere but in the file system image. After \<open>iret\<close> the
  process runs in user mode until it traps onto the stack the task segment names; \<open>leave; ret\<close> pops
  two words off the frame it is given.
\<close>

definition rejected :: "'a proc_state_scheme \<Rightarrow> u8 list \<Rightarrow> bool" where
  "rejected s cmd \<longleftrightarrow> (let bb = bootblock_ptr s; m = mem s; at = dir_lookup m bb (prog_name cmd) in
     (\<forall>k. at = Some k \<longrightarrow> filetype m (dentry_at bb (of_nat k)) = 2 \<longrightarrow>
        inode_wf m bb (idx_inode m (dentry_at bb (of_nat k))) \<and> 4 \<le> file_length m bb (idx_inode m (dentry_at bb (of_nat k))))
     \<and> (cmd = [] \<or> 7 \<le> total_tasks s \<or> (case at of None \<Rightarrow> True | Some k \<Rightarrow>
         filetype m (dentry_at bb (of_nat k)) \<noteq> 2 \<or> idx_inode m (dentry_at bb (of_nat k)) = 0
         \<or> take 4 (file_contents m bb (idx_inode m (dentry_at bb (of_nat k)))) \<noteq> [0x7F, 0x45, 0x4C, 0x46])))"

inductive kstep :: "event \<Rightarrow> 'a proc_state_scheme \<Rightarrow> 'a proc_state_scheme \<Rightarrow> bool" where
  krun: "in_stack e (current_PCB s) \<Longrightarrow> same_fs (mem s) (bootblock_ptr s) m \<Longrightarrow> length fa = 8 \<Longrightarrow>
    kstep Run s ((with_files fa s)\<lparr>esp := e, ebp := b, mem := m\<rparr>)"
| ktick: "schedule s = Some (s', Returns r) \<Longrightarrow> kstep Tick s s'"
| kspawn: "cstr (mem s) command cmd \<Longrightarrow> fst command \<noteq> Local 9 \<Longrightarrow> cmd \<noteq> [] \<Longrightarrow> length cmd < 1024 \<Longrightarrow> length (prog_arg cmd) < 128 \<Longrightarrow>
    total_tasks s < 7 \<Longrightarrow> program_at (mem s) (bootblock_ptr s) (prog_name cmd) i \<Longrightarrow> in_stack (ebp s + 8) (current_PCB s) \<Longrightarrow>
    execute command s = Some (t, Iret ss usp fl cs ip) \<Longrightarrow> 1 \<le> unat d \<Longrightarrow> unat d \<le> 8192 \<Longrightarrow>
    kstep Spawn s (t\<lparr>esp := tss_esp0 t - d, ebp := b\<rparr>)"
| kreject: "cstr (mem s) command cmd \<Longrightarrow> fst command \<noteq> Local 9 \<Longrightarrow> length cmd < 1024 \<Longrightarrow> length (prog_arg cmd) < 128 \<Longrightarrow> rejected s cmd \<Longrightarrow>
    execute command s = Some (s', Returns r) \<Longrightarrow> kstep Reject s s'"
| kexit: "3 < pid (pcbs s (current_PCB s)) \<Longrightarrow> halt status s = Some (t, Leave_Ret e b v) \<Longrightarrow>
    kstep Exit s (t\<lparr>esp := b + 8, ebp := b'\<rparr>)"

inductive_cases kstep_Run: "kstep Run s s'"
inductive_cases kstep_Tick: "kstep Tick s s'"
inductive_cases kstep_Spawn: "kstep Spawn s s'"
inductive_cases kstep_Reject: "kstep Reject s s'"
inductive_cases kstep_Exit: "kstep Exit s s'"

section \<open>Representation\<close>

definition kernel_ok :: "'a proc_state_scheme \<Rightarrow> bool" where
  "kernel_ok s \<longleftrightarrow> tables_ok s \<and> proc_tables s \<and> fs_ready s \<and> image_safe s"

fun linked :: "(u32 \<Rightarrow> PCB) \<Rightarrow> u32 list \<Rightarrow> bool" where
  "linked P (p # q # ps) \<longleftrightarrow> 3 < p \<and> parent_addr (P (pcb_addr p)) = pcb_addr q \<and> in_stack (kebp (P (pcb_addr p)) + 8) (pcb_addr q) \<and> linked P (q # ps)"
| "linked P [p] \<longleftrightarrow> p \<le> 3"
| "linked P [] \<longleftrightarrow> True"

definition own_pcb :: "(u32 \<Rightarrow> PCB) \<Rightarrow> u32 \<Rightarrow> bool" where
  "own_pcb P p \<longleftrightarrow> pid (P (pcb_addr p)) = p \<and> kernelStack (P (pcb_addr p)) = kernel_stack p \<and> length (fileArray (P (pcb_addr p))) = 8"

definition slot_pid :: "u32 list \<Rightarrow> int" where
  "slot_pid st = (case st of [] \<Rightarrow> -1 | p # _ \<Rightarrow> sint p)"

definition wf_tasks :: "tasks \<Rightarrow> bool" where
  "wf_tasks a \<longleftrightarrow> length (stacks a) = 7 \<and> turn a < 7 \<and> stacks a ! turn a \<noteq> [] \<and> distinct (concat (stacks a))
     \<and> (\<forall>p \<in> live a. 1 \<le> unat p \<and> unat p \<le> 7) \<and> {1, 2, 3} \<subseteq> live a \<and> length (concat (stacks a)) \<le> 6"

definition running :: "tasks \<Rightarrow> u32" where
  "running a = hd (stacks a ! turn a)"

definition represents :: "tasks \<Rightarrow> 'a proc_state_scheme \<Rightarrow> bool" where
  "represents a s \<longleftrightarrow> wf_tasks a \<and> kernel_ok s \<and> schedule_started s = 1
     \<and> (\<forall>p \<in> live a. pid_bitpattern s ! (unat p - 1) \<noteq> 0 \<and> own_pcb (pcbs s) p)
     \<and> (\<forall>j < 7. linked (pcbs s) (stacks a ! j))
     \<and> (\<forall>j < 7. j \<noteq> turn a \<and> stacks a ! j \<noteq> [] \<longrightarrow> in_stack (sesp (pcbs s (pcb_addr (hd (stacks a ! j))))) (pcb_addr (hd (stacks a ! j))))
     \<and> priority_list_pid s = map slot_pid (stacks a) \<and> current_schedule s = int (turn a)
     \<and> total_tasks s = of_nat (length (concat (stacks a))) + 1
     \<and> current_PCB s = pcb_addr (running a) \<and> tlb_user s = Some (user_page_addr (running a)) \<and> tss_esp0 s = kernel_stack (running a)"

section \<open>Lemmas: stacks\<close>

lemma concat_update:
  assumes "i < length xs"
  shows "set (concat (xs[i := p # xs ! i])) = insert p (set (concat xs))"
    "distinct (concat (xs[i := p # xs ! i])) \<longleftrightarrow> p \<notin> set (concat xs) \<and> distinct (concat xs)"
    "length (concat (xs[i := p # xs ! i])) = Suc (length (concat xs))"
proof -
  obtain A y B where "xs = A @ y # B" "length A = i" using assms id_take_nth_drop [OF assms] by (metis length_take min_absorb2 less_imp_le)
  then show "set (concat (xs[i := p # xs ! i])) = insert p (set (concat xs))"
    "distinct (concat (xs[i := p # xs ! i])) \<longleftrightarrow> p \<notin> set (concat xs) \<and> distinct (concat xs)"
    "length (concat (xs[i := p # xs ! i])) = Suc (length (concat xs))"
    by (auto simp: nth_append list_update_append)
qed

lemma concat_pop:
  assumes "i < length xs" and "xs ! i = p # ps" and "distinct (concat xs)"
  shows "set (concat (xs[i := ps])) = set (concat xs) - {p}" "distinct (concat (xs[i := ps]))" "length (concat xs) = Suc (length (concat (xs[i := ps])))"
proof -
  let ?ys = "xs[i := ps]"
  have y: "i < length ?ys" "xs = ?ys[i := p # ?ys ! i]" using assms(1,2) list_update_id [of xs i] by simp_all
  note c = concat_update [OF y(1), of p, folded y(2)]
  show "distinct (concat ?ys)" "set (concat ?ys) = set (concat xs) - {p}" "length (concat xs) = Suc (length (concat ?ys))"
    using c assms(3) by auto
qed

lemma one_stack: "distinct (concat xs) \<Longrightarrow> i < length xs \<Longrightarrow> j < length xs \<Longrightarrow> p \<in> set (xs ! i) \<Longrightarrow> p \<in> set (xs ! j) \<Longrightarrow> i = j"
proof (induction xs arbitrary: i j)
  case (Cons x xs)
  have "k < length xs \<Longrightarrow> p \<in> set (xs ! k) \<Longrightarrow> p \<in> set (concat xs)" for k by auto
  then show ?case using Cons by (auto simp: nth_Cons split: nat.splits)
qed simp

lemma pid_range:
  assumes "1 \<le> unat p" and "unat p \<le> 7"
  shows "sint p = int (unat p)" "word_of_int (sint p) = (p :: u32)"
proof -
  have "int (unat p) \<le> 7" using assms(2) by linarith
  then have "uint p \<le> 7" by simp
  then show "sint p = int (unat p)" "word_of_int (sint p) = p" using sint_eq_uint_u32 [of p] by simp_all
qed

lemma live_range: "wf_tasks a \<Longrightarrow> p \<in> live a \<Longrightarrow> 1 \<le> unat p \<and> unat p \<le> 7"
  by (simp add: wf_tasks_def)

lemma live_nth: "wf_tasks a \<Longrightarrow> j < 7 \<Longrightarrow> p \<in> set (stacks a ! j) \<Longrightarrow> p \<in> live a"
  by (auto simp: live_def wf_tasks_def)

lemma live_pcb_inj: "wf_tasks a \<Longrightarrow> p \<in> live a \<Longrightarrow> q \<in> live a \<Longrightarrow> pcb_addr p = pcb_addr q \<longleftrightarrow> p = q"
  using pcb_addr_inj live_range by blast

lemma running_live: "wf_tasks a \<Longrightarrow> running a \<in> live a" "wf_tasks a \<Longrightarrow> running a \<in> set (stacks a ! turn a)"
  using live_nth [of a "turn a" "running a"] by (auto simp: wf_tasks_def running_def)

lemma same_slot: "wf_tasks a \<Longrightarrow> i < 7 \<Longrightarrow> j < 7 \<Longrightarrow> p \<in> set (stacks a ! i) \<Longrightarrow> p \<in> set (stacks a ! j) \<Longrightarrow> i = j"
  using one_stack [of "stacks a" i j p] by (simp add: wf_tasks_def)

text \<open>The run queue shows the tops of the stacks.\<close>

lemma top_slot:
  assumes "wf_tasks a" and "j < 7"
  shows "slot_pid (stacks a ! j) \<ge> 0 \<longleftrightarrow> stacks a ! j \<noteq> []" "slot_pid (stacks a ! j) \<le> 0 \<longleftrightarrow> stacks a ! j = []"
    "stacks a ! j \<noteq> [] \<Longrightarrow> word_of_int (slot_pid (stacks a ! j)) = hd (stacks a ! j)"
    "p \<in> live a \<Longrightarrow> word_of_int (slot_pid (stacks a ! j)) = p \<Longrightarrow> p \<in> set (stacks a ! j)"
proof -
  have "(0 \<le> slot_pid (stacks a ! j)) = (stacks a ! j \<noteq> []) \<and> (slot_pid (stacks a ! j) \<le> 0) = (stacks a ! j = [])
      \<and> (stacks a ! j \<noteq> [] \<longrightarrow> word_of_int (slot_pid (stacks a ! j)) = hd (stacks a ! j))
      \<and> (p \<in> live a \<longrightarrow> word_of_int (slot_pid (stacks a ! j)) = p \<longrightarrow> p \<in> set (stacks a ! j))"
  proof (cases "stacks a ! j")
    case Nil
    have "unat (- 1 :: u32) = 2 ^ 32 - 1" by (simp add: unsigned_minus_1_eq_mask mask_eq_exp_minus_1)
    then have "- 1 \<notin> live a" using live_range [OF assms(1)] by force
    then show ?thesis
      using Nil by (auto simp: slot_pid_def)
  next
    case (Cons q qs)
    then have q: "1 \<le> unat q" "unat q \<le> 7" using live_range [OF assms(1) live_nth [OF assms, of q]] by simp_all
    moreover have "q \<noteq> 0" using q(1) by auto
    ultimately show ?thesis using Cons pid_range [OF q] by (simp add: slot_pid_def uint_0_iff)
  qed
  then show "slot_pid (stacks a ! j) \<ge> 0 \<longleftrightarrow> stacks a ! j \<noteq> []" "slot_pid (stacks a ! j) \<le> 0 \<longleftrightarrow> stacks a ! j = []"
    "stacks a ! j \<noteq> [] \<Longrightarrow> word_of_int (slot_pid (stacks a ! j)) = hd (stacks a ! j)"
    "p \<in> live a \<Longrightarrow> word_of_int (slot_pid (stacks a ! j)) = p \<Longrightarrow> p \<in> set (stacks a ! j)"
    by blast+
qed

lemma find_unique: "k < n \<Longrightarrow> P k \<Longrightarrow> (\<And>j. j < k \<Longrightarrow> \<not> P j) \<Longrightarrow> find P [0..<n] = Some k"
  by (auto simp: find_Some_iff intro!: exI [of _ k])

lemma find_running:
  assumes "wf_tasks a"
  shows "find (\<lambda>j. word_of_int (map slot_pid (stacks a) ! j) = running a) [0..<7] = Some (turn a)"
proof (rule find_unique)
  have t: "turn a < 7" "stacks a ! turn a \<noteq> []" "length (stacks a) = 7" using assms by (simp_all add: wf_tasks_def)
  show "turn a < 7" by (rule t)
  show "word_of_int (map slot_pid (stacks a) ! turn a) = running a" using top_slot(3) [OF assms t(1,2)] t by (simp add: running_def)
  show "word_of_int (map slot_pid (stacks a) ! j) \<noteq> running a" if "j < turn a" for j
    using top_slot(4) [OF assms _ running_live(1) [OF assms], of j] same_slot [OF assms, of j "turn a"] running_live(2) [OF assms] that t by auto
qed

lemma linked_cong:
  "(\<And>p. p \<in> set st \<Longrightarrow> parent_addr (Q (pcb_addr p)) = parent_addr (P (pcb_addr p)) \<and> kebp (Q (pcb_addr p)) = kebp (P (pcb_addr p))) \<Longrightarrow>
   linked Q st = linked P st"
  by (induction P st rule: linked.induct) auto

section \<open>Lemmas: the kernel's own data\<close>

lemma same_fs_frame:
  assumes "image_safe s" and "\<forall>r. \<not> in_user_page r \<and> fst r \<notin> Local ` B \<longrightarrow> m r = mem s r"
  shows "same_fs (mem s) (bootblock_ptr s) m"
  unfolding same_fs_def
proof (intro allI impI)
  fix r assume r: "in_fs (mem s) (bootblock_ptr s) r"
  have "\<not> in_user_page r" using r assms(1) unfolding image_safe_def by blast
  moreover have "fst r = Global" using r by (simp add: in_fs_def in_region_def)
  ultimately show "m r = mem s r" using spec [OF assms(2), of r] by auto
qed

lemma kernel_ok_frame:
  assumes "kernel_ok s" and "same_fs (mem s) (bootblock_ptr s) (mem t)"
    and "bootblock_ptr t = bootblock_ptr s" "inode_start_addr t = inode_start_addr s" "data_start_addr t = data_start_addr s"
    and "tables_ok t" and "proc_tables t"
  shows "kernel_ok t"
proof -
  have wf: "fs_wf (mem s) (bootblock_ptr s)" using assms(1) by (simp add: kernel_ok_def fs_ready_def)
  note w = same_fs_wf [OF wf assms(2)] same_fs_header(4) [OF wf assms(2)]
  show ?thesis using assms(1,3-7) w by (simp add: kernel_ok_def fs_ready_def image_safe_def)
qed

lemma representsD:
  assumes "represents a s"
  shows "wf_tasks a" "kernel_ok s" "schedule_started s = 1" "\<And>p. p \<in> live a \<Longrightarrow> pid_bitpattern s ! (unat p - 1) \<noteq> 0 \<and> own_pcb (pcbs s) p"
    "\<And>j. j < 7 \<Longrightarrow> linked (pcbs s) (stacks a ! j)"
    "\<And>j. j < 7 \<Longrightarrow> j \<noteq> turn a \<Longrightarrow> stacks a ! j \<noteq> [] \<Longrightarrow> in_stack (sesp (pcbs s (pcb_addr (hd (stacks a ! j))))) (pcb_addr (hd (stacks a ! j)))"
    "priority_list_pid s = map slot_pid (stacks a)" "current_schedule s = int (turn a)" "total_tasks s = of_nat (length (concat (stacks a))) + 1"
    "current_PCB s = pcb_addr (running a)" "tlb_user s = Some (user_page_addr (running a))" "tss_esp0 s = kernel_stack (running a)"
    "length (stacks a) = 7" "turn a < 7" "stacks a ! turn a \<noteq> []"
  using assms by (simp_all add: represents_def wf_tasks_def)

text \<open>The counter starts at 1, so its limit of 7 admits six processes.\<close>

lemma total_few:
  assumes "wf_tasks a"
  shows "of_nat (length (concat (stacks a))) + 1 < (7 :: u32) \<longleftrightarrow> length (concat (stacks a)) < 6"
proof -
  have l: "length (concat (stacks a)) \<le> 6" using assms by (simp add: wf_tasks_def)
  define n where "n = length (concat (stacks a))"
  have "unat (of_nat n + 1 :: u32) = n + 1" using l unfolding n_def [symmetric] by (simp add: unat_word_ariths unat_of_nat)
  then show ?thesis unfolding n_def [symmetric] by (simp add: word_less_nat_alt)
qed

section \<open>Each event of the kernel implements its event of the abstract machine\<close>

lemma run_represents:
  assumes "represents a s" and "kstep Run s s'"
  shows "represents a s'"
proof -
  obtain e m fa b where 1: "s' = with_files fa s\<lparr>esp := e, ebp := b, mem := m\<rparr>" "in_stack e (current_PCB s)"
    "same_fs (mem s) (bootblock_ptr s) m" "length fa = 8" using assms(2) by (rule kstep_Run)
  note d = representsD [OF assms(1)]
  have o: "own_pcb (pcbs s') p" if "p \<in> live a" for p using d(4) [OF that] 1 by (auto simp: own_pcb_def with_files_def)
  have l: "linked (pcbs s') st = linked (pcbs s) st" for st by (rule linked_cong) (simp add: 1(1) with_files_def)
  have "kernel_ok s'"
    using d(2) 1 by (intro kernel_ok_frame [OF d(2)]) (simp_all add: with_files_def kernel_ok_def tables_ok_def proc_tables_def)
  moreover have "sesp (pcbs s' x) = sesp (pcbs s x)" for x by (simp add: 1(1) with_files_def)
  moreover have "schedule_started s' = 1" "pid_bitpattern s' = pid_bitpattern s" "priority_list_pid s' = priority_list_pid s" "current_schedule s' = current_schedule s"
    "total_tasks s' = total_tasks s" "current_PCB s' = current_PCB s" "tlb_user s' = tlb_user s" "tss_esp0 s' = tss_esp0 s"
    using 1(1,2) d(3) by (simp_all add: with_files_def current_PCB_def)
  ultimately show ?thesis
    unfolding represents_def using d(1,4-12) o l by simp
qed

lemma next_turn_slot:
  assumes "wf_tasks a"
  shows "next_turn a = a\<lparr>turn := tick_slot (map slot_pid (stacks a)) (turn a)\<rparr>"
    "next_slot (map slot_pid (stacks a)) ((turn a + 1) mod 7) = Some (tick_slot (map slot_pid (stacks a)) (turn a))"
    "tick_slot (map slot_pid (stacks a)) (turn a) < 7" "stacks a ! tick_slot (map slot_pid (stacks a)) (turn a) \<noteq> []"
proof -
  have l: "length (map slot_pid (stacks a)) = 7" "turn a < 7" "stacks a ! turn a \<noteq> []" using assms by (simp_all add: wf_tasks_def)
  have tp: "map slot_pid (stacks a) ! j \<ge> 0 \<longleftrightarrow> stacks a ! j \<noteq> []" if "j < 7" for j using top_slot(1) [OF assms that] l(1) that by simp
  have ex: "\<exists>j < 7. map slot_pid (stacks a) ! j \<ge> 0" using tp [OF l(2)] l by blast
  show n: "next_slot (map slot_pid (stacks a)) ((turn a + 1) mod 7) = Some (tick_slot (map slot_pid (stacks a)) (turn a))" by (rule tick_slot_law(2) [OF l(1) ex l(2)])
  obtain k where k: "k < 7" "tick_slot (map slot_pid (stacks a)) (turn a) = (turn a + 1 + k) mod 7" "map slot_pid (stacks a) ! tick_slot (map slot_pid (stacks a)) (turn a) \<ge> 0"
    "\<forall>l < k. \<not> map slot_pid (stacks a) ! ((turn a + 1 + l) mod 7) \<ge> 0"
    using tick_slot_law(1) [OF l(1) ex l(2)] by blast
  show lt: "tick_slot (map slot_pid (stacks a)) (turn a) < 7" unfolding k(2) by simp
  show ne: "stacks a ! tick_slot (map slot_pid (stacks a)) (turn a) \<noteq> []" using k(3) tp [OF lt] by simp
  have "find (\<lambda>k. stacks a ! ((turn a + 1 + k) mod 7) \<noteq> []) [0..<7] = Some k"
  proof (rule find_unique [OF k(1)])
    show "stacks a ! ((turn a + 1 + k) mod 7) \<noteq> []" using ne unfolding k(2) .
    show "\<not> stacks a ! ((turn a + 1 + j) mod 7) \<noteq> []" if "j < k" for j using k(4) that tp [of "(turn a + 1 + j) mod 7"] by simp
  qed
  then show "next_turn a = a\<lparr>turn := tick_slot (map slot_pid (stacks a)) (turn a)\<rparr>" by (simp add: next_turn_def k(2))
qed

lemma tick_represents:
  assumes "represents a s"
  shows "\<exists>s'. schedule s = Some (s', Returns 0) \<and> represents (next_turn a) s'"
proof -
  note d = representsD [OF assms]
  note nt = next_turn_slot [OF d(1)]
  let ?j = "tick_slot (map slot_pid (stacks a)) (turn a)" and ?c = "pcb_addr (running a)"
  define p where "p = hd (stacks a ! ?j)"
  have p: "word_of_int (priority_list_pid s ! ?j) = p" using top_slot(3) [OF d(1) nt(3,4)] nt(3) d(13) by (simp add: d(7) p_def)
  have pm: "p \<in> set (stacks a ! ?j)" "p \<in> live a" using nt(3,4) live_nth [OF d(1) nt(3)] by (simp_all add: p_def)
  have sl: "next_slot (priority_list_pid s) (nat ((current_schedule s + 1) mod 7)) = Some ?j" using nt(2) by (simp add: d(7,8) nat_mod_distrib nat_add_distrib)
  let ?w = "switched ?c (pcb_addr p) s"
  have t: "tables_ok s" "-1 \<le> current_schedule s" "current_schedule s < 7" using d(2,8,14) by (simp_all add: kernel_ok_def)
  obtain M F L where e: "schedule s = Some (s\<lparr>iflag := True, pageDir := (pageDir s)[32 := user_page_addr p OR FOURMB_USER_PAGE], frames := F,
        tlb_user := Some (user_page_addr p), mem := M, current_schedule := int ?j, io_log := L,
        tss_ss0 := KERNEL_DS, tss_esp0 := kernel_stack p, pcbs := ?w, pcb_terminal := terminal_id (pcbs s ?c),
        esp := sesp (?w (pcb_addr p)), ebp := sebp (?w (pcb_addr p))\<rparr>, Returns 0)" (is "_ = Some (?s', _)")
    and M: "\<forall>r. \<not> in_user_page r \<longrightarrow> M r = mem s r"
    using schedule_result [OF t(1) d(3) t(2,3) sl p [symmetric]] unfolding d(10) by blast
  have run: "running (next_turn a) = p" by (simp add: running_def nt(1) p_def)
  have wf: "wf_tasks (next_turn a)" using d(1) nt(3,4) by (simp add: nt(1) wf_tasks_def live_def)
  have "same_fs (mem s) (bootblock_ptr s) M" using M d(2) by (intro same_fs_frame [of _ "{}"]) (simp_all add: kernel_ok_def)
  then have ok: "kernel_ok ?s'" using d(2) by (intro kernel_ok_frame [OF d(2)]) (simp_all add: kernel_ok_def tables_ok_def proc_tables_def)
  have cur: "in_stack (esp s) ?c" using d(10) by (simp add: current_PCB_def)
  have saved: "in_stack (sesp (?w (pcb_addr (hd (stacks a ! i))))) (pcb_addr (hd (stacks a ! i)))" if i: "i < 7" "stacks a ! i \<noteq> []" for i
  proof (cases "i = turn a")
    case True
    then have "hd (stacks a ! i) = running a" by (simp add: running_def)
    then show ?thesis using cur by (simp add: switched_simps)
  next
    case False
    have h: "hd (stacks a ! i) \<in> set (stacks a ! i)" using i(2) by simp
    then have "hd (stacks a ! i) \<noteq> running a" using same_slot [OF d(1) i(1) d(14), of "running a"] running_live(2) [OF d(1)] False by metis
    then have "pcb_addr (hd (stacks a ! i)) \<noteq> ?c" using live_pcb_inj [OF d(1) live_nth [OF d(1) i(1) h] running_live(1) [OF d(1)]] by simp
    then show ?thesis using d(6) [OF i(1) False i(2)] by (simp add: switched_simps)
  qed
  have l: "linked ?w st = linked (pcbs s) st" for st by (rule linked_cong) (simp add: switched_simps)
  have "represents (next_turn a) ?s'"
    unfolding represents_def run
    using wf ok d(3-5,7,9) saved l saved [OF nt(3,4)] by (simp add: nt(1) live_def own_pcb_def switched_simps current_PCB_def p_def)
  with e show ?thesis by blast
qed

lemma spawn_represents:
  assumes "represents a s" and "kstep Spawn s s'"
  shows "\<exists>p. length (concat (stacks a)) < 6 \<and> p \<notin> live a \<and> 3 < p \<and> unat p \<le> 7 \<and> represents (push p a) s'"
proof -
  note d = representsD [OF assms(1)]
  obtain command cmd i t ss usp fl cs ip dd b where k: "s' = t\<lparr>esp := tss_esp0 t - dd, ebp := b\<rparr>" "cstr (mem s) command cmd" "fst command \<noteq> Local 9" "cmd \<noteq> []"
      "length cmd < 1024" "length (prog_arg cmd) < 128" "total_tasks s < 7" "program_at (mem s) (bootblock_ptr s) (prog_name cmd) i"
      "in_stack (ebp s + 8) (current_PCB s)" "execute command s = Some (t, Iret ss usp fl cs ip)" "Suc 0 \<le> unat dd" "unat dd \<le> 8192"
    using assms(2) by (rule kstep_Spawn) (rule that, assumption+)
  have ok: "fs_ready s" "image_safe s" "tables_ok s" "proc_tables s" using d(2) by (simp_all add: kernel_ok_def)
  have "\<not> (\<forall>j < 7. pid_bitpattern s ! j \<noteq> 0)" using execute_pid_exhausted_result [OF ok(1) k(2-8)] k(10) by auto
  then obtain n where n: "find (\<lambda>i. pid_bitpattern s ! i = 0) [0..<7] = Some n" by (cases "find (\<lambda>i. pid_bitpattern s ! i = 0) [0..<7]") (auto simp: find_None_iff)
  then have n7: "n < 7" "pid_bitpattern s ! n = 0" by (auto simp: find_Some_iff)
  define p where "p = (of_nat n + 1 :: u32)"
  have up: "unat p = n + 1" using n7(1) by (simp add: p_def unat_add_lem [THEN iffD1] unat_of_nat unat_word_ariths)
  have fresh: "p \<notin> live a" using d(4) [of p] n7(2) up by auto
  have "{1, 2, 3} \<subseteq> live a" using d(1) by (simp add: wf_tasks_def)
  then have "pid_bitpattern s ! 0 \<noteq> 0" "pid_bitpattern s ! 1 \<noteq> 0" "pid_bitpattern s ! 2 \<noteq> 0" using d(4) [of 1] d(4) [of 2] d(4) [of 3] by simp_all
  then have "n \<noteq> 0" "n \<noteq> 1" "n \<noteq> 2" using n7(2) by metis+
  then have p3: "3 < p" using up by (simp add: word_less_nat_alt)
  let ?r = "running a"
  have pr: "pid (pcbs s (current_PCB s)) = ?r" using d(4) [OF running_live(1) [OF d(1)]] by (simp add: d(10) own_pcb_def)
  have slot: "find (\<lambda>j. if p > 3 then word_of_int (priority_list_pid s ! j) = pid (pcbs s (current_PCB s)) else priority_list_pid s ! j \<le> 0) [0..<7] = Some (turn a)"
    using find_running [OF d(1)] p3 by (simp add: d(7) pr)
  obtain M F n' v where e: "t = s\<lparr>iflag := False, mem := M, pageDir := (pageDir s)[32 := user_page_addr p OR FOURMB_USER_PAGE],
        frames := F, tlb_user := Some (user_page_addr p), total_tasks := total_tasks s + 1, pid_bitpattern := (pid_bitpattern s)[n := 1],
        pcbs := (pcbs s)(pcb_addr p := n'), newPCB_var := v,
        priority_list_pid := (priority_list_pid s)[turn a := sint p], current_schedule := int (turn a), tss_ss0 := KERNEL_DS, tss_esp0 := kernel_stack p,
        current_task := p, terminal_current_pid := (terminal_current_pid s)[unat (active_terminal s) := p]\<rparr>"
      and np: "new_pcb p (esp s) (ebp s) (prog_arg cmd) s n'" "length (fileArray v) = 8" "length (args v) = 128"
      and M: "\<forall>r. \<not> in_user_page r \<and> fst r \<notin> Local ` {3, 5, 6, 7, 8, 9, 10} \<longrightarrow> M r = mem s r"
    using execute_result [OF ok k(2-8) n p_def slot] k(10) by auto
  have n': "pid n' = p" "kebp n' = ebp s" "kernelStack n' = kernel_stack p" "length (fileArray n') = 8" "parent_addr n' = pcb_addr ?r"
    using np(1) p3 by (simp_all add: new_pcb_def std_files_def d(10))
  have pne: "pcb_addr q \<noteq> pcb_addr p" if "q \<in> live a" for q using pcb_addr_inj [of q p] live_range [OF d(1) that] up n7(1) that fresh by auto
  have ks: "kernel_ok s'"
    using d(2) same_fs_frame [OF ok(2) M] np(2,3) by (intro kernel_ok_frame [OF d(2)]) (simp_all add: k(1) e kernel_ok_def tables_ok_def proc_tables_def)
  have P: "pcbs s' = (pcbs s)(pcb_addr p := n')" by (simp add: k(1) e)
  note cu = concat_update [of "turn a" "stacks a" p, unfolded d(13), OF d(14)]
  have lv: "live (push p a) = insert p (live a)" using cu(1) by (simp add: live_def push_def)
  have room: "length (concat (stacks a)) < 6" using total_few [OF d(1), unfolded d(9) [symmetric]] k(7) by simp
  have wf: "wf_tasks (push p a)"
    using d(1,13,14) cu(2,3) fresh up n7(1) lv room by (auto simp: wf_tasks_def push_def live_def simp del: length_concat)
  have st: "stacks (push p a) ! j = (if j = turn a then p # stacks a ! j else stacks a ! j)" if "j < 7" for j using that d(13) by (simp add: push_def nth_list_update)
  have old: "linked (pcbs s') (stacks a ! j)" if "j < 7" for j
    using d(5) [OF that] live_nth [OF d(1) that] pne by (subst linked_cong [of _ _ "pcbs s"]) (simp_all add: P)
  have lk: "linked (pcbs s') (stacks (push p a) ! j)" if "j < 7" for j
  proof (cases "j = turn a")
    case True
    obtain q qs where q: "stacks a ! turn a = q # qs" using d(15) by (cases "stacks a ! turn a") auto
    then have "q = ?r" by (simp add: running_def)
    then show ?thesis using st [OF that] True old [OF that] q p3 n'(2,5) k(9) by (simp add: P d(10))
  qed (use st [OF that] old [OF that] in simp)
  have own: "pid_bitpattern s' ! (unat q - 1) \<noteq> 0 \<and> own_pcb (pcbs s') q" if "q \<in> live (push p a)" for q
  proof (cases "q = p")
    case True
    then show ?thesis using n' up n7(1) ok(4) by (simp add: own_pcb_def P k(1) e proc_tables_def)
  next
    case False
    then have q: "q \<in> live a" using that lv by simp
    then have "unat q - 1 \<noteq> n" using d(4) [OF q] n7(2) by auto
    then show ?thesis using d(4) [OF q] pne [OF q] by (simp add: own_pcb_def P k(1) e)
  qed
  have sv: "in_stack (sesp (pcbs s' (pcb_addr (hd (stacks (push p a) ! j))))) (pcb_addr (hd (stacks (push p a) ! j)))"
    if j: "j < 7" "j \<noteq> turn a" "stacks (push p a) ! j \<noteq> []" for j
  proof -
    have ne: "stacks a ! j \<noteq> []" using j st by simp
    then show ?thesis using d(6) [OF j(1,2) ne] st [OF j(1)] j(2) pne [OF live_nth [OF d(1) j(1)], of "hd (stacks a ! j)"] by (simp add: P)
  qed
  have run: "running (push p a) = p" "turn (push p a) = turn a" using st [OF d(14)] by (simp_all add: running_def push_def)
  have pl: "priority_list_pid s' = map slot_pid (stacks (push p a))" by (simp add: k(1) e d(7) push_def map_update slot_pid_def)
  have "current_PCB s' = pcb_addr p" using stack_block [of p dd] up n7(1) k(11,12) by (simp add: current_PCB_def k(1) e)
  moreover have "total_tasks s' = of_nat (length (concat (stacks (push p a)))) + 1" using cu(3) d(9) by (simp add: k(1) e push_def)
  ultimately have "represents (push p a) s'"
    unfolding represents_def run using wf ks own lk sv pl d(3) by (simp add: run k(1) e)
  then show ?thesis using fresh p3 up n7(1) room by auto
qed

lemma exit_represents:
  assumes "represents a s" and "kstep Exit s s'"
  shows "\<exists>p q ps. stacks a ! turn a = p # q # ps \<and> represents (pop a) s'"
proof -
  note d = representsD [OF assms(1)]
  let ?r = "running a"
  have rl: "?r \<in> live a" by (rule running_live(1) [OF d(1)])
  obtain status t e b v b' where k: "s' = t\<lparr>esp := b + 8, ebp := b'\<rparr>" "3 < pid (pcbs s (current_PCB s))" "halt status s = Some (t, Leave_Ret e b v)"
    using assms(2) by (rule kstep_Exit) (rule that, assumption+)
  have own: "own_pcb (pcbs s) x" if "x \<in> live a" for x using d(4) [OF that] by blast
  have pr: "pid (pcbs s (current_PCB s)) = ?r" using own [OF rl] by (simp add: d(10) own_pcb_def)
  obtain qs where qs: "stacks a ! turn a = ?r # qs" using d(15) by (cases "stacks a ! turn a") (auto simp: running_def)
  then obtain q ps where st: "stacks a ! turn a = ?r # q # ps" using d(5) [OF d(14)] k(2) pr by (cases qs) auto
  have lq: "3 < ?r" "parent_addr (pcbs s (pcb_addr ?r)) = pcb_addr q" "in_stack (kebp (pcbs s (pcb_addr ?r)) + 8) (pcb_addr q)" "linked (pcbs s) (q # ps)"
    using d(5) [OF d(14)] st by simp_all
  have ql: "q \<in> live a" using live_nth [OF d(1,14), of q] st by simp
  have rq: "?r \<notin> set (q # ps)"
  proof -
    have "distinct (stacks a ! turn a)" using d(1,13,14) by (auto simp: wf_tasks_def distinct_concat_iff)
    then show ?thesis by (simp add: st)
  qed
  have ne: "pcb_addr x \<noteq> pcb_addr ?r" if "x \<in> live a" "x \<noteq> ?r" for x using live_pcb_inj [OF d(1) that(1) rl] that(2) by simp
  let ?n = "pcbs s (pcb_addr ?r)" and ?q = "pcbs s (pcb_addr q)"
  have qq: "pid ?q = q" "kernelStack ?q = kernel_stack q" using own [OF ql] by (simp_all add: own_pcb_def)
  have h: "tables_ok s" "?n = pcbs s (current_PCB s)" "pid ?n > 3" "length (fileArray ?n) = 8" "parent_addr ?n \<noteq> current_PCB s" "?q = pcbs s (parent_addr ?n)"
    using d(2) own [OF rl] k(2) pr ne [OF ql] rq lq(2) by (auto simp: kernel_ok_def d(10) own_pcb_def)
  have fnd: "find (\<lambda>i. word_of_int (priority_list_pid s ! i) = pid ?n) [0..<7] = Some (turn a)" using find_running [OF d(1)] own [OF rl] by (simp add: d(7) own_pcb_def)
  define u where "u M F = s\<lparr>iflag := False, total_tasks := total_tasks s - 1, pcbs := (pcbs s)(pcb_addr ?r := ?n\<lparr>fileArray := replicate 8 closed_fd\<rparr>),
        tss_ss0 := KERNEL_DS, tss_esp0 := kernel_stack q, pageDir := (pageDir s)[32 := user_page_addr q OR FOURMB_USER_PAGE], frames := F,
        tlb_user := Some (user_page_addr q), mem := M, current_task := q, priority_list_pid := (priority_list_pid s)[turn a := sint q],
        exception_halt := (if exception_halt s = 1 then 0 else exception_halt s)\<rparr>" for M F
  obtain M F where "halt status s = Some (u M F, Leave_Ret (if exception_halt s = 1 then kesp ?n else kebp ?n) (kebp ?n) (if exception_halt s = 1 then 256 else ucast status))"
      and M: "\<forall>r. \<not> in_user_page r \<longrightarrow> M r = mem s r"
    using halt_child_result [OF h, of status] unfolding fnd option.case qq d(10) u_def by blast
  then have hr: "b = kebp ?n" "t = u M F" using k(3) by simp_all
  note hr = hr [unfolded u_def]
  have P: "pcbs s' = (pcbs s)(pcb_addr ?r := ?n\<lparr>fileArray := replicate 8 closed_fd\<rparr>)" by (simp add: k(1) hr)
  have flds: "sesp (pcbs s' x) = sesp (pcbs s x)" "parent_addr (pcbs s' x) = parent_addr (pcbs s x)" "kebp (pcbs s' x) = kebp (pcbs s x)" for x by (simp_all add: P)
  have "same_fs (mem s) (bootblock_ptr s) M" using M d(2) by (intro same_fs_frame [of _ "{}"]) (simp_all add: kernel_ok_def)
  then have ks: "kernel_ok s'" using d(2) by (intro kernel_ok_frame [OF d(2)]) (simp_all add: k(1) hr kernel_ok_def tables_ok_def proc_tables_def)
  have dc: "turn a < length (stacks a)" "distinct (concat (stacks a))" using d(1,13,14) by (simp_all add: wf_tasks_def)
  note cp = concat_pop [OF dc(1) st dc(2)]
  have sp: "stacks (pop a) = (stacks a)[turn a := q # ps]" "turn (pop a) = turn a" "running (pop a) = q"
    using dc(1) arg_cong [OF st, of tl] by (simp_all add: pop_def running_def)
  have lv: "live (pop a) = live a - {?r}" using cp(1) by (simp add: live_def sp)
  have base: "{1, 2, 3} \<subseteq> live (pop a)" using d(1) lq(1) by (auto simp: lv wf_tasks_def)
  have wf: "wf_tasks (pop a)" using d(1,13,14) base cp(2,3) lv unfolding wf_tasks_def sp(1,2) by (simp add: live_def [symmetric])
  have nth: "stacks (pop a) ! j = (if j = turn a then q # ps else stacks a ! j)" if "j < 7" for j using that d(13) by (simp add: sp nth_list_update)
  have lk: "linked (pcbs s') (stacks (pop a) ! j)" if "j < 7" for j
    using d(5) [OF that] lq(4) nth [OF that] by (subst linked_cong [of _ _ "pcbs s"]) (simp_all add: flds)
  have ow: "pid_bitpattern s' ! (unat x - 1) \<noteq> 0 \<and> own_pcb (pcbs s') x" if "x \<in> live (pop a)" for x
    using d(4) [of x] that ne [of x] lv by (simp add: own_pcb_def P k(1) hr)
  have tt: "total_tasks s' = of_nat (length (concat (stacks (pop a)))) + 1" using d(9) cp(3) by (simp add: k(1) hr sp)
  have pl: "priority_list_pid s' = map slot_pid (stacks (pop a))" by (simp add: k(1) hr d(7) sp map_update slot_pid_def)
  have cur: "current_PCB s' = pcb_addr q" using lq(3) by (simp add: current_PCB_def k(1) hr)
  have "represents (pop a) s'"
    unfolding represents_def sp(2,3) using wf ks ow lk tt pl cur d(3,6,8) nth flds by (simp add: k(1) hr)
  then show ?thesis using st by blast
qed

lemma reject_represents:
  assumes "represents a s" and "kstep Reject s s'"
  shows "represents a s'"
proof -
  note d = representsD [OF assms(1)]
  obtain command cmd r where k: "cstr (mem s) command cmd" "fst command \<noteq> Local 9" "length cmd < 1024" "length (prog_arg cmd) < 128" "rejected s cmd"
    "execute command s = Some (s', Returns r)" using assms(2) by (rule kstep_Reject)
  have rdy: "fs_ready s" using d(2) by (simp add: kernel_ok_def)
  have "\<exists>m'. execute command s = Some (s\<lparr>iflag := False, mem := m'\<rparr>, Returns (-1)) \<and> only_locals {7, 8, 9, 10} (mem s) m'"
    using k(5) by (intro execute_rejects_result [OF rdy k(1-4) refl]) (simp_all add: rejected_def Let_def)
  then obtain m where m: "s' = s\<lparr>iflag := False, mem := m\<rparr>" "only_locals {7, 8, 9, 10} (mem s) m" using k(6) by auto
  have "kernel_ok s'" using only_locals_same_fs [OF m(2)] d(2) by (intro kernel_ok_frame [OF d(2)]) (simp_all add: m(1) kernel_ok_def tables_ok_def proc_tables_def)
  moreover have "current_PCB s' = current_PCB s" by (simp add: m(1) current_PCB_def)
  ultimately show ?thesis unfolding represents_def using d by (simp add: m(1))
qed

lemma step_represents:
  assumes "represents a s" and "kstep e s s'"
  shows "\<exists>a'. astep e a a' \<and> represents a' s'"
proof (cases e)
  case Run
  then show ?thesis using run_represents [OF assms(1)] assms(2) arun by blast
next
  case Tick
  then obtain r where "schedule s = Some (s', Returns r)" using assms(2) by (auto elim: kstep_Tick)
  then have "represents (next_turn a) s'" using tick_represents [OF assms(1)] by auto
  then show ?thesis using Tick atick by blast
next
  case Spawn
  then show ?thesis using spawn_represents [OF assms(1)] assms(2) aspawn by metis
next
  case Reject
  then show ?thesis using reject_represents [OF assms(1)] assms(2) areject by blast
next
  case Exit
  then show ?thesis using exit_represents [OF assms(1)] assms(2) aexit by metis
qed

section \<open>Correctness of multitasking\<close>

inductive reachable :: "'a proc_state_scheme \<Rightarrow> 'a proc_state_scheme \<Rightarrow> bool" for s0 where
  start: "reachable s0 s0"
| step: "reachable s0 s \<Longrightarrow> kstep e s s' \<Longrightarrow> reachable s0 s'"

lemma reachable_represents: "reachable s0 s \<Longrightarrow> represents a0 s0 \<Longrightarrow> \<exists>a. represents a s"
proof (induction rule: reachable.induct)
  case (step s e s')
  then show ?case using step_represents by blast
qed blast

text \<open>The kernel with three base shells, the first one running.\<close>

definition tasks_demo :: tasks where
  "tasks_demo = \<lparr>stacks = [[1], [2], [3], [], [], [], []], turn = 0\<rparr>"

definition multi_demo :: proc_state where
  "multi_demo = sched_demo\<lparr>total_tasks := 4, tlb_user := Some (user_page_addr 1), tss_esp0 := kernel_stack 1,
     pcbs := (\<lambda>_. demo_pcb)(0x7FC000 := demo_pcb\<lparr>kernelStack := 0x7FE000\<rparr>,
       0x7FA000 := demo_pcb\<lparr>pid := 2, kernelStack := 0x7FC000, sesp := 0x7FBF00, sebp := 0x7FBF40\<rparr>,
       0x7F8000 := demo_pcb\<lparr>pid := 3, kernelStack := 0x7FA000, sesp := 0x7F9F00, sebp := 0x7F9F40\<rparr>)\<rparr>"

lemma less_7: "j < 7 \<longleftrightarrow> j \<in> {0, 1, 2, 3, 4, 5, 6 :: nat}"
  by auto

lemma demo_represents: "represents tasks_demo multi_demo"
proof -
  have l: "live tasks_demo = {1, 2, 3}" by (auto simp: live_def tasks_demo_def)
  have w: "wf_tasks tasks_demo" unfolding wf_tasks_def l by (simp add: tasks_demo_def)
  have a: "pcb_addr 1 = 0x7FC000" "pcb_addr 2 = 0x7FA000" "pcb_addr 3 = 0x7F8000" "kernel_stack 1 = 0x7FE000" "kernel_stack 2 = 0x7FC000" "kernel_stack 3 = 0x7FA000"
    by (simp_all add: pcb_addr_def kernel_stack_def)
  have k: "kernel_ok multi_demo"
    using proc_demo_exec(1-4) by (simp add: kernel_ok_def multi_demo_def sched_demo_def tables_ok_def proc_tables_def fs_ready_def image_safe_def)
  have f: "priority_list_pid multi_demo = [1, 2, 3, -1, -1, -1, -1]" "pid_bitpattern multi_demo = [1, 1, 1, 0, 0, 0, 0]" "current_PCB multi_demo = 0x7FC000"
    "schedule_started multi_demo = 1" "current_schedule multi_demo = 0" "total_tasks multi_demo = 4" "tlb_user multi_demo = Some (user_page_addr 1)" "tss_esp0 multi_demo = kernel_stack 1"
    using proc_demo_exec(10,11) sched_demo_simps(2-5) by (simp_all add: multi_demo_def sched_demo_def current_PCB_def proc_demo_simps(5))
  have P: "pcbs multi_demo = (\<lambda>_. demo_pcb)(0x7FC000 := demo_pcb\<lparr>kernelStack := 0x7FE000\<rparr>,
       0x7FA000 := demo_pcb\<lparr>pid := 2, kernelStack := 0x7FC000, sesp := 0x7FBF00, sebp := 0x7FBF40\<rparr>,
       0x7F8000 := demo_pcb\<lparr>pid := 3, kernelStack := 0x7FA000, sesp := 0x7F9F00, sebp := 0x7F9F40\<rparr>)" by (simp add: multi_demo_def)
  have own: "\<forall>p \<in> {1, 2, 3}. pid_bitpattern multi_demo ! (unat p - 1) \<noteq> 0 \<and> own_pcb (pcbs multi_demo) p"
    by (simp add: f(2) own_pcb_def P a demo_pcb_files) (simp add: demo_pcb_def)
  have sv: "\<forall>j < 7. j \<noteq> 0 \<and> stacks tasks_demo ! j \<noteq> [] \<longrightarrow>
      in_stack (sesp (pcbs multi_demo (pcb_addr (hd (stacks tasks_demo ! j))))) (pcb_addr (hd (stacks tasks_demo ! j)))"
    unfolding less_7 by (auto simp: tasks_demo_def P a)
  have lk: "\<forall>j < 7. linked (pcbs multi_demo) (stacks tasks_demo ! j)" unfolding less_7 by (auto simp: tasks_demo_def)
  have rn: "turn tasks_demo = 0" "running tasks_demo = 1" by (simp_all add: running_def tasks_demo_def)
  show ?thesis
    unfolding represents_def rn l using w k own sv lk f a by (simp add: tasks_demo_def slot_pid_def)
qed





section \<open>Booting\<close>

text \<open>
  A timer tick before scheduling has started leaves the kernel through the \<open>iret\<close> of \<open>execute\<close>; the new shell then
  runs until it traps onto its kernel stack.
\<close>

definition boot_tick :: "u32 \<Rightarrow> u32 \<Rightarrow> 'a proc_state_scheme \<Rightarrow> 'a proc_state_scheme option" where
  "boot_tick d b s = (case schedule s of Some (t, Iret _ _ _ _ _) \<Rightarrow> Some (t\<lparr>esp := tss_esp0 t - d, ebp := b\<rparr>) | _ \<Rightarrow> None)"

definition shell_name :: "u8 list" where
  "shell_name = cbytes ''shell''"

text \<open>The kernel with \<open>k\<close> base shells started; at first it runs on the boot stack, which is no process's.\<close>

definition booting :: "nat \<Rightarrow> 'a proc_state_scheme \<Rightarrow> bool" where
  "booting k s \<longleftrightarrow> tables_ok s \<and> fs_ready s \<and> image_safe s \<and> proc_tables (s\<lparr>active_terminal := 0\<rparr>)
     \<and> (\<exists>i. program_at (mem s) (bootblock_ptr s) shell_name i)
     \<and> active_terminal s = of_nat (3 - k) \<and> schedule_started s = (if k = 3 then 1 else 0)
     \<and> pid_bitpattern s = replicate k 1 @ replicate (7 - k) 0 \<and> priority_list_pid s = map int [1..<Suc k] @ replicate (7 - k) (-1)
     \<and> total_tasks s = of_nat k + 1 \<and> (\<forall>p. 1 \<le> unat p \<and> unat p \<le> k \<longrightarrow> own_pcb (pcbs s) p)
     \<and> (\<forall>p. 1 \<le> unat p \<and> unat p < k \<longrightarrow> in_stack (sesp (pcbs s (pcb_addr p))) (pcb_addr p))
     \<and> (if k = 0 then \<forall>p. 1 \<le> unat p \<and> unat p \<le> 7 \<longrightarrow> current_PCB s \<noteq> pcb_addr p
        else current_PCB s = pcb_addr (of_nat k) \<and> current_schedule s = int k - 1 \<and> tlb_user s = Some (user_page_addr (of_nat k)) \<and> tss_esp0 s = kernel_stack (of_nat k))"

lemma shell_command:
  "prog_name shell_name = shell_name" "prog_arg shell_name = []" "length shell_name = 5" "shell_name \<noteq> []"
  "cstr (put_bytes m (Local 2, 0) (shell_name @ [0])) (Local 2, 0) shell_name"
proof -
  have s: "shell_name = [0x73, 0x68, 0x65, 0x6C, 0x6C]" by (simp add: shell_name_def cbytes_def)
  show "prog_name shell_name = shell_name" "prog_arg shell_name = []" "length shell_name = 5" "shell_name \<noteq> []"
    by (simp_all add: s prog_name_def prog_arg_def word_end_def)
  show "cstr (put_bytes m (Local 2, 0) (shell_name @ [0])) (Local 2, 0) shell_name"
    by (rule cstr_put_bytes) (simp_all add: s)
qed

lemma shell_ready:
  assumes "fs_ready s" and "image_safe s" and "program_at (mem s) (bootblock_ptr s) shell_name i"
    and "mem t = put_bytes (mem s) (Local 2, 0) (shell_name @ [0])" and "bootblock_ptr t = bootblock_ptr s"
    and "inode_start_addr t = inode_start_addr s" and "data_start_addr t = data_start_addr s"
  shows "fs_ready t" "image_safe t" "program_at (mem t) (bootblock_ptr t) (prog_name shell_name) i" "cstr (mem t) (Local 2, 0) shell_name"
proof -
  have ol: "only_locals {2} (mem s) (mem t)" by (simp add: assms(4) only_locals_put)
  have wf: "fs_wf (mem s) (bootblock_ptr s)" using assms(1) by (simp add: fs_ready_def)
  show "fs_ready t" using only_locals_ready [OF ol assms(1)] assms(5-7) by (simp add: fs_ready_def)
  show "image_safe t" using assms(2,5) only_locals_fs(7) [OF ol] by (simp add: image_safe_def)
  show "program_at (mem t) (bootblock_ptr t) (prog_name shell_name) i"
    using program_at_same(1) [OF wf only_locals_same_fs [OF ol] assms(3)] assms(5) by (simp add: shell_command)
  show "cstr (mem t) (Local 2, 0) shell_name" using shell_command(5) by (simp add: assms(4))
qed

lemma boot_step:
  assumes "booting k s" and "k < 3" and "1 \<le> unat d" and "unat d \<le> 8192"
  shows "\<exists>s'. boot_tick d b s = Some s' \<and> booting (Suc k) s'"
proof -
  note bk = assms(1) [unfolded booting_def]
  define p where "p = (of_nat k + 1 :: u32)"
  have p: "p = of_nat (Suc k)" "unat p = Suc k" "\<not> 3 < p" using assms(2) by (auto simp: p_def unat_of_nat word_less_nat_alt unat_word_ariths)
  let ?c = "current_PCB s"
  define t where "t = s\<lparr>iflag := False, pcbs := (pcbs s)(?c := (pcbs s ?c)\<lparr>sesp := esp s, sebp := ebp s\<rparr>), active_terminal := of_nat (2 - k),
    schedule_started := (if k = 2 then 1 else 0), io_log := io_log (send_eoi 0 s), mem := put_bytes (mem s) (Local 2, 0) (shell_name @ [0])\<rparr>"
  have dec: "(of_nat (3 - k) :: u32) - 1 = of_nat (2 - k)" "(of_nat (2 - k) :: u32) = 0 \<longleftrightarrow> k = 2"
    using assms(2) by (auto simp: less_Suc_eq numeral_eq_Suc)
  have bd: "schedule_started s = 0" "active_terminal s = of_nat (3 - k)" using bk assms(2) by simp_all
  have sw: "schedule s = Some (u, Iret ss usp fl cs ip)" if "execute (Local 2, 0) t = Some (u, Iret ss usp fl cs ip)" for u ss usp fl cs ip
  proof -
    let ?a = "(cli s)\<lparr>pcbs := (pcbs s)(?c := (pcbs s ?c)\<lparr>sesp := esp s, sebp := ebp s\<rparr>), active_terminal := of_nat (2 - k)\<rparr>"
    have "shell_literal (send_eoi 0 (if k = 2 then ?a\<lparr>schedule_started := 1\<rparr> else ?a)) = t"
      using bd(1) by (simp add: shell_literal_def t_def send_eoi_def outb_def cli_def shell_name_def)
    moreover have "switch_tasks (cli s) = execute (Local 2, 0) (shell_literal (send_eoi 0 (if k = 2 then ?a\<lparr>schedule_started := 1\<rparr> else ?a)))"
      using bd dec by (simp add: switch_tasks_def Let_def cli_def current_PCB_def)
    ultimately show ?thesis using that by (simp add: schedule_def Let_def)
  qed
  have cu: "current_PCB t = ?c" by (simp add: t_def current_PCB_def)
  obtain i where "program_at (mem s) (bootblock_ptr s) shell_name i" using bk by blast
  then have "fs_ready t" "image_safe t" "program_at (mem t) (bootblock_ptr t) (prog_name shell_name) i" "cstr (mem t) (Local 2, 0) shell_name"
    using bk shell_ready [of s i t] by (simp_all add: t_def)
  note rdy = this(1) and img = this(2) and pg = this(3) and cs = this(4) 
  have bits: "find (\<lambda>i. pid_bitpattern t ! i = 0) [0..<7] = Some k"
    using bk assms(2) by (intro find_unique) (simp_all add: t_def nth_append)
  have slot: "find (\<lambda>j. if p > 3 then word_of_int (priority_list_pid t ! j) = pid (pcbs t (current_PCB t)) else priority_list_pid t ! j \<le> 0) [0..<7] = Some k"
    using bk assms(2) p(3) by (intro find_unique) (simp_all add: t_def nth_append del: upt_Suc)
  have tb: "tables_ok t" "total_tasks t < 7" using bk assms(2) by (simp_all add: t_def tables_ok_def word_less_nat_alt unat_of_nat unat_word_ariths)
  have k: "k = 0 \<and> p = 1 \<or> k = 1 \<and> p = 2 \<or> k = 2 \<and> p = 3" 
  proof -
    have "k = 0 \<or> k = 1 \<or> k = 2" using assms(2) by auto
    then show ?thesis by (elim disjE) (simp_all add: p_def)
  qed
  have "unat (of_nat (2 - k) :: u32) < 3" using k by auto
  moreover have "proc_tables (s\<lparr>active_terminal := 0\<rparr>)" using bk by blast
  ultimately have pt: "proc_tables t" by (simp add: t_def proc_tables_def)
  have lists: "priority_list_pid s = map int [1..<Suc k] @ replicate (7 - k) (-1)" "pid_bitpattern s = replicate k 1 @ replicate (7 - k) 0" using bk by blast+
  obtain M F n' v where e: "execute (Local 2, 0) t = Some (t\<lparr>iflag := False, mem := M, pageDir := (pageDir t)[32 := user_page_addr p OR FOURMB_USER_PAGE],
        frames := F, tlb_user := Some (user_page_addr p), total_tasks := total_tasks t + 1, pid_bitpattern := (pid_bitpattern t)[k := 1],
        pcbs := (pcbs t)(pcb_addr p := n'), newPCB_var := v,
        priority_list_pid := (priority_list_pid t)[k := sint p], current_schedule := int k, tss_ss0 := KERNEL_DS, tss_esp0 := kernel_stack p,
        current_task := p, terminal_current_pid := (terminal_current_pid t)[unat (active_terminal t) := p]\<rparr>,
        Iret USER_DS 0x083FFFFC 0x0200 USER_CS (ld32 M (Global, CP_VADDR + 24)))" (is "_ = Some (?u, _)")
      and np: "new_pcb p (esp t) (ebp t) (prog_arg shell_name) t n'" "length (fileArray v) = 8" "length (args v) = 128"
      and M: "\<forall>r. \<not> in_user_page r \<and> fst r \<notin> Local ` {3, 5, 6, 7, 8, 9, 10} \<longrightarrow> M r = mem t r"
    using execute_result [OF rdy img tb(1) pt cs _ shell_command(4) _ _ tb(2) pg bits p_def slot] by (simp add: shell_command) blast
  define s' where "s' = ?u\<lparr>esp := tss_esp0 ?u - d, ebp := b\<rparr>"
  have bt: "boot_tick d b s = Some s'" by (simp add: boot_tick_def sw [OF e] s'_def)
  have pne: "pcb_addr x \<noteq> pcb_addr p" if "1 \<le> unat x" "unat x < Suc k" for x using pcb_addr_inj [of x p] that p(2) assms(2) by auto
  have n': "own_pcb ((pcbs t)(pcb_addr p := n')) p" using np(1) by (simp add: own_pcb_def new_pcb_def std_files_def)
  have sf: "same_fs (mem t) (bootblock_ptr t) M" by (rule same_fs_frame [OF img M])
  have kt: "kernel_ok t" using rdy tb(1) img pt by (simp add: kernel_ok_def)
  have "kernel_ok s'" using sf tb(1) pt np(2,3) by (intro kernel_ok_frame [OF kt]) (simp_all add: s'_def tables_ok_def proc_tables_def)
  moreover have "program_at (mem s') (bootblock_ptr s') shell_name i"
    using program_at_same(1) [OF _ sf pg] rdy by (simp add: shell_command s'_def fs_ready_def)
  moreover have "current_PCB s' = pcb_addr p" using stack_block [of p d] p(2) assms(2-4) by (simp add: current_PCB_def s'_def)
  moreover have "priority_list_pid s' = map int [1..<Suc (Suc k)] @ replicate (7 - Suc k) (-1)"
    using k by (auto simp: s'_def t_def lists(1) numeral_eq_Suc)
  moreover have "pid_bitpattern s' = replicate (Suc k) 1 @ replicate (7 - Suc k) 0"
    using k by (auto simp: s'_def t_def lists(2) numeral_eq_Suc)
  moreover have "own_pcb (pcbs s') x" if x: "1 \<le> unat x \<and> unat x \<le> Suc k" for x
  proof (cases "unat x = Suc k")
    case True
    then have "x = p" using p(2) by (simp add: word_unat_eq_iff)
    then show ?thesis using n' by (simp add: s'_def)
  next
    case False
    then have "own_pcb (pcbs s) x" using x bk by auto
    then show ?thesis using pne [of x] x False by (auto simp: own_pcb_def s'_def t_def)
  qed
  moreover have "in_stack (sesp (pcbs s' (pcb_addr x))) (pcb_addr x)" if x: "1 \<le> unat x \<and> unat x < Suc k" for x
  proof (cases "unat x = k")
    case True
    then have "x = of_nat k" "k \<noteq> 0" using x by auto
    then have "?c = pcb_addr x" "in_stack (esp s) ?c" using bk by (simp_all add: current_PCB_def)
    then show ?thesis using pne [of x] x by (simp add: s'_def t_def)
  next
    case False
    then have lt: "unat x < k" using x by simp
    have "?c \<noteq> pcb_addr x" using bk lt assms(2) pcb_addr_inj [of "of_nat k" x] x by (auto simp: unat_of_nat)
    moreover have "in_stack (sesp (pcbs s (pcb_addr x))) (pcb_addr x)" using bk x lt by blast
    ultimately show ?thesis using pne [of x] x by (simp add: s'_def t_def)
  qed
  moreover have "active_terminal s' = of_nat (3 - Suc k)" "schedule_started s' = (if Suc k = 3 then 1 else 0)" "total_tasks s' = of_nat (Suc k) + 1"
    "current_schedule s' = int (Suc k) - 1" "tlb_user s' = Some (user_page_addr (of_nat (Suc k)))" "tss_esp0 s' = kernel_stack (of_nat (Suc k))"
    using bk by (simp_all add: s'_def t_def p(1))
  moreover have "tables_ok s'" "fs_ready s'" "image_safe s'" "proc_tables (s'\<lparr>active_terminal := 0\<rparr>)"
    using \<open>kernel_ok s'\<close> by (simp_all add: kernel_ok_def proc_tables_def)
  ultimately have "booting (Suc k) s'"
    unfolding booting_def p(1) by (simp only: nat.distinct if_False simp_thms) blast
  with bt show ?thesis by blast
qed

lemma booted_represents:
  assumes "booting 3 s"
  shows "represents (tasks_demo\<lparr>turn := 2\<rparr>) s"
proof -
  note b = assms [unfolded booting_def, simplified]
  let ?a = "tasks_demo\<lparr>turn := 2\<rparr>"
  have l: "live ?a = {1, 2, 3}" "running ?a = 3" by (auto simp: live_def running_def tasks_demo_def)
  have w: "wf_tasks ?a" unfolding wf_tasks_def l by (simp add: tasks_demo_def)
  have k: "kernel_ok s" using b by (simp add: kernel_ok_def proc_tables_def)
  have pl: "priority_list_pid s = [1, 2, 3, -1, -1, -1, -1]" "pid_bitpattern s = [1, 1, 1, 0, 0, 0, 0]" using b by (simp_all add: numeral_eq_Suc)
  have own: "\<forall>p \<in> {1, 2, 3}. pid_bitpattern s ! (unat p - 1) \<noteq> 0 \<and> own_pcb (pcbs s) p"
  proof -
    have "own_pcb (pcbs s) p" if "1 \<le> unat p" "unat p \<le> 3" for p using b that by simp
    then show ?thesis by (simp add: pl(2))
  qed
  have sv: "in_stack (sesp (pcbs s (pcb_addr 1))) (pcb_addr 1)" "in_stack (sesp (pcbs s (pcb_addr 2))) (pcb_addr 2)" using b by simp_all
  have "\<forall>j < 7. j \<noteq> 2 \<and> stacks ?a ! j \<noteq> [] \<longrightarrow> in_stack (sesp (pcbs s (pcb_addr (hd (stacks ?a ! j))))) (pcb_addr (hd (stacks ?a ! j)))"
    unfolding less_7 using sv by (auto simp: tasks_demo_def)
  moreover have "\<forall>j < 7. linked (pcbs s) (stacks ?a ! j)" unfolding less_7 by (auto simp: tasks_demo_def)
  ultimately show ?thesis
    unfolding represents_def l using w k own pl b by (simp add: tasks_demo_def slot_pid_def)
qed

text \<open>
  C3: booting. From a kernel on the boot stack with an empty run queue and a file system that holds a program
  \<open>shell\<close>, the first three timer ticks each start a base shell, with process numbers 1, 2 and 3 on
  the terminals 2, 1 and 0, and the kernel then represents three stacks of one process each, with 4 in its counter of tasks, which the data
  section starts at 1: the states of the refinement theorem are the ones the kernel boots into.
\<close>

theorem boot_starts_shells:
  assumes "booting 0 s" and "\<forall>n < 3. 1 \<le> unat (d n) \<and> unat (d n) \<le> 8192"
  shows "\<exists>s1 s2 s3. boot_tick (d 0) (b 0) s = Some s1 \<and> boot_tick (d 1) (b 1) s1 = Some s2 \<and> boot_tick (d (2 :: nat)) (b 2) s2 = Some s3
    \<and> represents \<lparr>stacks = [[1], [2], [3], [], [], [], []], turn = 2\<rparr> s3 \<and> schedule_started s1 = 0 \<and> schedule_started s2 = 0"
proof -
  have d: "1 \<le> unat (d n)" "unat (d n) \<le> 8192" if "n < 3" for n using assms(2) that by blast+
  obtain s1 where s1: "boot_tick (d 0) (b 0) s = Some s1" "booting 1 s1" using boot_step [OF assms(1) _ d, of 0 "b 0"] by auto
  obtain s2 where s2: "boot_tick (d 1) (b 1) s1 = Some s2" "booting 2 s2" using boot_step [OF s1(2) _ d, of 1 "b 1"] by (auto simp: numeral_2_eq_2)
  obtain s3 where s3: "boot_tick (d 2) (b 2) s2 = Some s3" "booting 3 s3" using boot_step [OF s2(2) _ d, of 2 "b 2"] by (auto simp: numeral_3_eq_3)
  have "represents \<lparr>stacks = [[1], [2], [3], [], [], [], []], turn = 2\<rparr> s3" using booted_represents [OF s3(2)] by (simp add: tasks_demo_def)
  moreover have "schedule_started s1 = 0" "schedule_started s2 = 0" using s1(2) s2(2) by (simp_all add: booting_def)
  ultimately show ?thesis using s1(1) s2(1) s3(1) by blast
qed

text \<open>A small image whose only program is \<open>shell\<close>, and the kernel before its first tick.\<close>

definition shell_image :: mem where
  "shell_image = demo_image((Global, 0x400040) := 0x73, (Global, 0x400041) := 0x68, (Global, 0x400042) := 0x65, (Global, 0x400043) := 0x6C, (Global, 0x400044) := 0x6C)"

definition boot_demo :: proc_state where
  "boot_demo = proc_demo\<lparr>mem := shell_image, active_terminal := 3, schedule_started := 0, pid_bitpattern := replicate 7 0,
     priority_list_pid := replicate 7 (-1), total_tasks := total_tasks_init, esp := 0x7FFF00\<rparr>"

lemma shell_words:
  "ld32 shell_image (Global, 0x400000) = 1" "ld32 shell_image (Global, 0x400004) = 2" "ld32 shell_image (Global, 0x400008) = 3"
  "ld32 shell_image (Global, 0x402000) = 4100" "ld32 shell_image (Global, 0x402004) = 2" "ld32 shell_image (Global, 0x402008) = 0"
  "ld32 shell_image (Global, 0x400060) = 2" "ld32 shell_image (Global, 0x400064) = 1"
  by (simp_all add: ld32_def shell_image_def demo_image_def padd_def)

lemma shell_program: "program_at shell_image 0x400000 shell_name 1"
proof -
  have s: "shell_name = [0x73, 0x68, 0x65, 0x6C, 0x6C]" by (simp add: shell_name_def cbytes_def)
  have "cstr shell_image (Global, 0x400040) shell_name"
    by (simp add: s cstr_def bytes_at_def shell_image_def demo_image_def padd_def upt_conv_Cons)
  then have "entry_name shell_image 0x400000 0 = shell_name" by (simp add: entry_name_def dentry_at_def cstr_upto_nul s)
  then have l: "dir_lookup shell_image 0x400000 shell_name = Some 0" by (simp add: dir_lookup_def shell_words upt_conv_Cons s)
  have len: "file_length shell_image 0x400000 1 = 4100" by (simp add: file_length_def inode_length_def inode_addr_def shell_words)
  have "dblocks shell_image (inode_addr 0x400000 1) (of_nat k) < num_data shell_image 0x400000" if "k \<le> 1" for k
  proof -
    have "k = 0 \<or> k = 1" using that by auto
    then show ?thesis by (auto simp: dblocks_def inode_addr_def shell_words)
  qed
  then have wf: "inode_wf shell_image 0x400000 1" by (simp add: inode_wf_def len shell_words)
  have b: "dblocks shell_image 0x402000 0 = 2" by (simp add: dblocks_def shell_words)
  have "file_byte shell_image 0x400000 1 0 = 0x7F" "file_byte shell_image 0x400000 1 1 = 0x45" "file_byte shell_image 0x400000 1 2 = 0x4C"
    "file_byte shell_image 0x400000 1 3 = 0x46"
    by (simp_all add: file_byte_def data_addr_def shell_words b inode_addr_def) (simp_all add: shell_image_def demo_image_def)
  then have "take 4 (file_contents shell_image 0x400000 1) = [0x7F, 0x45, 0x4C, 0x46]"
    by (simp add: take_contents len upt_conv_Cons numeral_2_eq_2 numeral_3_eq_3)
  moreover have "filetype shell_image (dentry_at 0x400000 0) = 2" "idx_inode shell_image (dentry_at 0x400000 0) = 1"
    by (simp_all add: filetype_def idx_inode_def dentry_at_def padd_def shell_words)
  ultimately show ?thesis using l wf len by (simp add: program_at_def)
qed

lemma boot_stack: "1 \<le> unat p \<Longrightarrow> unat p \<le> 7 \<Longrightarrow> pcb_addr p \<noteq> 0x7FE000"
proof
  assume p: "1 \<le> unat p" "unat p \<le> 7" "pcb_addr p = 0x7FE000"
  have "unat (pcb_addr p) = (1023 - unat p) * 8192" by (rule pcb_addr_unat(1) [OF p(1,2)])
  then have "unat (pcb_addr p) < 0x7FE000" using p(1,2) by linarith
  then show False by (simp add: p(3))
qed

lemma boot_demo_booting: "booting 0 boot_demo"
proof -
  have f: "mem boot_demo = shell_image" "bootblock_ptr boot_demo = 0x400000" "inode_start_addr boot_demo = 0x401000" "data_start_addr boot_demo = 0x403000"
    by (simp_all add: boot_demo_def proc_demo_fs)
  have r: "fs_ready boot_demo" by (simp add: fs_ready_def fs_wf_def fs_size_def data_addr_def f shell_words)
  have "in_fs shell_image 0x400000 = in_fs demo_image 0x400000" by (simp add: in_fs_def fs_size_def shell_words demo_words)
  then have i: "image_safe boot_demo" using proc_demo_exec(2) by (simp add: image_safe_def f proc_demo_simps)
  have t: "tables_ok boot_demo" "proc_tables (boot_demo\<lparr>active_terminal := 0\<rparr>)"
    using proc_demo_exec(3,4) by (simp_all add: boot_demo_def tables_ok_def proc_tables_def)
  have c: "current_PCB boot_demo = 0x7FE000" by (simp add: boot_demo_def current_PCB_def)
  then have "\<forall>p. 1 \<le> unat p \<and> unat p \<le> 7 \<longrightarrow> current_PCB boot_demo \<noteq> pcb_addr p" using boot_stack by metis
  moreover have "\<exists>i. program_at (mem boot_demo) (bootblock_ptr boot_demo) shell_name i" using shell_program f by auto
  moreover have "active_terminal boot_demo = 3" "schedule_started boot_demo = 0" "pid_bitpattern boot_demo = replicate 7 0"
    "priority_list_pid boot_demo = replicate 7 (-1)" "total_tasks boot_demo = 1" by (simp_all add: boot_demo_def total_tasks_init_def)
  ultimately show ?thesis using r i t by (auto simp: booting_def)
qed

theorem boot_starts_shells_witness:
  "\<exists>s1 s2 s3. boot_tick 64 0 boot_demo = Some s1 \<and> boot_tick 64 0 s1 = Some s2 \<and> boot_tick 64 0 s2 = Some s3
    \<and> represents \<lparr>stacks = [[1], [2], [3], [], [], [], []], turn = 2\<rparr> s3"
  using boot_starts_shells [OF boot_demo_booting, of "\<lambda>_. 64" "\<lambda>_. 0"] by auto


text \<open>
  C13: halting a base shell breaks the run queue: the restarted shell gets its process number back but a second
  slot, so that the process is in the queue twice. The hypotheses are the ones of the refinement, with a base shell running and a slot free.
\<close>

theorem halt_base_shell_duplicates:
  assumes "represents a s" and "running a \<le> 3" and "program_at (mem s) (bootblock_ptr s) shell_name i"
    and "find (\<lambda>j. stacks a ! j = []) [0..<7] = Some j"
  shows "\<exists>s' entry. halt status s = Some (s', Iret USER_DS 0x083FFFFC 0x0200 USER_CS entry) \<and> j \<noteq> turn a
    \<and> priority_list_pid s' ! turn a = sint (running a) \<and> priority_list_pid s' ! j = sint (running a) \<and> current_schedule s' = int j"
proof -
  note d = representsD [OF assms(1)]
  let ?r = "running a" and ?c = "current_PCB s"
  have rl: "?r \<in> live a" by (rule running_live(1) [OF d(1)])
  have rr: "1 \<le> unat ?r" "unat ?r \<le> 3" using live_range [OF d(1) rl] assms(2) by (simp_all add: word_le_nat_alt)
  have pc: "pid (pcbs s ?c) = ?r" using d(4) [OF rl] by (simp add: own_pcb_def d(10))
  have j: "j < 7" "stacks a ! j = []" "\<And>l. l < j \<Longrightarrow> stacks a ! l \<noteq> []" using assms(4) by (auto simp: find_Some_iff)
  have r3: "\<not> ?r > 3" using assms(2) by (simp add: not_less)
  define n where "n = unat ?r - 1"
  have up: "unat (?r - 1) = n" using rr by (simp add: n_def unat_sub word_le_nat_alt)
  have n: "n < 3" "?r = of_nat n + 1" using rr by (simp_all add: n_def of_nat_diff)
  define t where "t = s\<lparr>iflag := False, total_tasks := total_tasks s - 1,
    pcbs := (pcbs s)(?c := (pcbs s ?c)\<lparr>fileArray := for_upto 0 8 (\<lambda>i fa. fa[i := closed_fd]) (fileArray (pcbs s ?c))\<rparr>),
    pid_bitpattern := (pid_bitpattern s)[n := 0], mem := put_bytes (mem s) (Local 2, 0) (shell_name @ [0])\<rparr>"
  have ok: "tables_ok s" "proc_tables s" "fs_ready s" "image_safe s" using d(2) by (simp_all add: kernel_ok_def)
  have h: "halt status s = Some (u, Iret ss usp fl cs ip)" if "execute (Local 2, 0) t = Some (u, Iret ss usp fl cs ip)" for u ss usp fl cs ip
  proof -
    have "arr_set (pid_bitpattern s) (unat (?r - 1)) 0 = Some ((pid_bitpattern s)[n := 0])" using ok(2) n(1) by (simp add: up proc_tables_def)
    then show ?thesis
      using that pc r3 by (simp add: halt_def Let_def cli_def current_PCB_def shell_literal_def t_def shell_name_def)
  qed
  have rdy: "fs_ready t" "image_safe t" "program_at (mem t) (bootblock_ptr t) (prog_name shell_name) i" "cstr (mem t) (Local 2, 0) shell_name"
    using shell_ready [OF ok(3,4) assms(3), of t] by (simp_all add: t_def)
  have pt: "tables_ok t" "proc_tables t" using ok by (simp_all add: t_def tables_ok_def proc_tables_def)
  have "concat (stacks a) \<noteq> []" using rl unfolding live_def by (metis empty_iff list.set(1))
  then obtain k where k: "length (concat (stacks a)) = Suc k" by (cases "concat (stacks a)") simp_all
  have tot: "total_tasks t < 7" using d(1,9) k by (simp add: t_def wf_tasks_def word_less_nat_alt unat_of_nat unat_word_ariths del: length_concat)
  have base: "pid_bitpattern s ! l \<noteq> 0" if "l < 3" for l
  proof -
    have "{1, 2, 3} \<subseteq> live a" using d(1) by (simp add: wf_tasks_def)
    then have "pid_bitpattern s ! 0 \<noteq> 0" "pid_bitpattern s ! 1 \<noteq> 0" "pid_bitpattern s ! 2 \<noteq> 0" using d(4) [of 1] d(4) [of 2] d(4) [of 3] by simp_all
    moreover have "l = 0 \<or> l = 1 \<or> l = 2" using that by auto
    ultimately show ?thesis by auto
  qed
  have bits: "find (\<lambda>i. pid_bitpattern t ! i = 0) [0..<7] = Some n"
    using base n(1) ok(2) by (intro find_unique) (simp_all add: t_def proc_tables_def)
  have slot: "find (\<lambda>j. if ?r > 3 then word_of_int (priority_list_pid t ! j) = pid (pcbs t (current_PCB t)) else priority_list_pid t ! j \<le> 0) [0..<7] = Some j"
    using r3 j top_slot(2) [OF d(1)] d(13) by (intro find_unique) (simp_all add: t_def d(7) slot_pid_def [of "[]"])
  have "fst (Local 2, 0 :: u32) \<noteq> Local 9" "length shell_name < 1024" "length (prog_arg shell_name) < 128" by (simp_all add: shell_command)
  from execute_result [OF rdy(1,2) pt rdy(4) this(1) shell_command(4) this(2,3) tot rdy(3) bits n(2) slot] obtain u entry where
    u: "execute (Local 2, 0) t = Some (u, Iret USER_DS 0x083FFFFC 0x0200 USER_CS entry)" "priority_list_pid u = (priority_list_pid t)[j := sint ?r]" "current_schedule u = int j"
    by (elim exE conjE) (rule that, assumption, simp_all)
  have tj: "j \<noteq> turn a" using j(2) d(15) by auto
  have "slot_pid (stacks a ! turn a) = sint ?r" using d(15) by (cases "stacks a ! turn a") (simp_all add: slot_pid_def running_def)
  then show ?thesis using h [OF u(1)] u(2,3) tj j(1) d(13,14) by (intro exI [of _ u] exI [of _ entry]) (simp add: t_def d(7))
qed


definition halting_demo :: proc_state where
  "halting_demo = multi_demo\<lparr>mem := shell_image\<rparr>"

lemma halting_demo_represents: "represents tasks_demo halting_demo"
proof -
  note d = representsD [OF demo_represents]
  have m: "mem multi_demo = demo_image" "bootblock_ptr multi_demo = 0x400000" "inode_start_addr multi_demo = 0x401000" "data_start_addr multi_demo = 0x403000"
    by (simp_all add: multi_demo_def sched_demo_def proc_demo_fs)
  have "fs_ready halting_demo" by (simp add: fs_ready_def fs_wf_def fs_size_def data_addr_def halting_demo_def m shell_words)
  moreover have "in_fs shell_image 0x400000 = in_fs demo_image 0x400000" by (simp add: in_fs_def fs_size_def shell_words demo_words)
  then have "image_safe halting_demo" using d(2) by (simp add: kernel_ok_def image_safe_def halting_demo_def m)
  ultimately have "kernel_ok halting_demo" using d(2) by (simp add: kernel_ok_def halting_demo_def tables_ok_def proc_tables_def)
  then show ?thesis using demo_represents by (simp add: represents_def halting_demo_def current_PCB_def)
qed

theorem halt_base_shell_duplicates_witness:
  "\<exists>s' c. halt 0 halting_demo = Some (s', c) \<and> priority_list_pid s' ! 0 = 1 \<and> priority_list_pid s' ! 3 = 1"
proof -
  have "[0..<7] = [0, 1, 2, 3, 4, 5, 6 :: nat]" by (simp add: upt_conv_Cons numeral_2_eq_2 numeral_3_eq_3)
  then have f: "find (\<lambda>j. stacks tasks_demo ! j = []) [0..<7] = Some 3" by (simp add: tasks_demo_def)
  have r: "running tasks_demo = 1" "turn tasks_demo = 0" by (simp_all add: running_def tasks_demo_def)
  have "program_at (mem halting_demo) (bootblock_ptr halting_demo) shell_name 1"
    using shell_program by (simp add: halting_demo_def multi_demo_def sched_demo_def proc_demo_fs)
  from halt_base_shell_duplicates [OF halting_demo_represents _ this f, of 0] show ?thesis unfolding r by auto
qed

end
