(* ===== verification/Idt.thy ===== *)
theory Idt
  imports Schedule
begin

text \<open>
  The interrupt descriptor table and the entry points of the kernel (\<open>student-distrib/idt.c\<close>, the
  descriptor types of \<open>x86_desc.h\<close>, and the dispatch of \<open>system_calls_wrapper.S\<close>). Handlers are named by a
  datatype; where the linker puts them is a function of the model. An exception handler ends in
  one of two ways: it returns from the exception, or it enters the empty endless loop, with the state it spins in.
\<close>

section \<open>Descriptors\<close>

record idt_desc_t =
  offset_15_00 :: u16
  seg_selector :: u16
  reserved4 :: u8
  reserved3 :: "1 word"
  reserved2 :: "1 word"
  reserved1 :: "1 word"
  gate_size :: "1 word"
  reserved0 :: "1 word"
  dpl :: "2 word"
  present :: "1 word"
  offset_31_16 :: u16

datatype handler =
    EX_DE | EX_DB | EX_NMI | EX_BP | EX_OF | EX_BR | EX_UD | EX_NM | EX_DF | EX_MF | EX_TS | EX_NP | EX_SS | EX_GP | EX_PF | EX_MA | EX_AC | EX_MC
  | EX_XF | EX_RESERVED | page_handler | handle_rtc_interrupt | handle_pit_interrupt | handle_keyboard_interrupt | system_calls_linkage

record idt_state = proc_state +
  idt :: "idt_desc_t list"
  idt_loaded :: bool

abbreviation KERNEL_CS :: u16 where "KERNEL_CS \<equiv> 0x0010"
abbreviation PIT_VECTOR :: nat where "PIT_VECTOR \<equiv> 0x20"
abbreviation KB_VECTOR :: nat where "KB_VECTOR \<equiv> 0x21"
abbreviation RTC_VECTOR :: nat where "RTC_VECTOR \<equiv> 0x28"
abbreviation SYSTEMCALL_VECTOR :: nat where "SYSTEMCALL_VECTOR \<equiv> 0x80"

definition SET_IDT_ENTRY :: "u32 \<Rightarrow> idt_desc_t \<Rightarrow> idt_desc_t" where
  "SET_IDT_ENTRY handler str =
     str\<lparr>offset_31_16 := ucast (drop_bit 16 (handler AND 0xFFFF0000)), offset_15_00 := ucast (handler AND 0xFFFF)\<rparr>"

section \<open>Setting up the table\<close>

text \<open>Entry 15 is the null pointer, which \<open>idt_init\<close> does not use.\<close>

definition exception_ptr_table :: "handler option list" where
  "exception_ptr_table = map Some [EX_DE, EX_DB, EX_NMI, EX_BP, EX_OF, EX_BR, EX_UD, EX_NM, EX_DF, EX_MF, EX_TS, EX_NP, EX_SS, EX_GP, EX_PF]
     @ None # map Some [EX_MA, EX_AC, EX_MC, EX_XF]"

definition exception_vector :: "idt_desc_t \<Rightarrow> idt_desc_t" where
  "exception_vector v = v\<lparr>seg_selector := KERNEL_CS, reserved4 := 0, reserved3 := 1, reserved2 := 1, reserved1 := 1, gate_size := 1, reserved0 := 0,
     dpl := 0, present := 1\<rparr>"

definition int_vector :: "idt_desc_t \<Rightarrow> idt_desc_t" where
  "int_vector v = (exception_vector v)\<lparr>reserved3 := 0\<rparr>"

definition syscall_vector :: "idt_desc_t \<Rightarrow> idt_desc_t" where
  "syscall_vector v = (int_vector v)\<lparr>dpl := 3\<rparr>"

definition set_entry :: "(handler \<Rightarrow> u32) \<Rightarrow> nat \<Rightarrow> handler \<Rightarrow> idt_desc_t list \<Rightarrow> idt_desc_t list option" where
  "set_entry addr i h table = do { d \<leftarrow> arr_get table i; arr_set table i (SET_IDT_ENTRY (addr h) d) }"

definition exception_entry :: "(handler \<Rightarrow> u32) \<Rightarrow> idt_desc_t \<Rightarrow> nat \<Rightarrow> idt_desc_t list \<Rightarrow> idt_desc_t list option" where
  "exception_entry addr v i table = do {
     table \<leftarrow> arr_set table i (exception_vector v);
     if i < 20 \<and> i \<noteq> 15 \<and> i \<noteq> 14 then do { p \<leftarrow> arr_get exception_ptr_table i; h \<leftarrow> p; set_entry addr i h table }
     else if i = 14 then set_entry addr i page_handler table
     else set_entry addr i EX_RESERVED table }"

definition idt_init :: "(handler \<Rightarrow> u32) \<Rightarrow> idt_desc_t \<Rightarrow> 'a idt_state_scheme \<Rightarrow> 'a idt_state_scheme option" where
  "idt_init addr v s = do {
     table \<leftarrow> foldo (exception_entry addr v) [0..<0x20] (idt s);
     table \<leftarrow> arr_set table RTC_VECTOR (int_vector v);
     table \<leftarrow> arr_set table PIT_VECTOR (int_vector v);
     table \<leftarrow> arr_set table KB_VECTOR (int_vector v);
     table \<leftarrow> arr_set table SYSTEMCALL_VECTOR (syscall_vector v);
     table \<leftarrow> set_entry addr RTC_VECTOR handle_rtc_interrupt table;
     table \<leftarrow> set_entry addr PIT_VECTOR handle_pit_interrupt table;
     table \<leftarrow> set_entry addr KB_VECTOR handle_keyboard_interrupt table;
     table \<leftarrow> set_entry addr SYSTEMCALL_VECTOR system_calls_linkage table;
     Some (s\<lparr>idt := table, idt_loaded := True\<rparr>) }"

section \<open>Entry points\<close>

text \<open>
  \<open>HANDLER\<close> turns its message, quotes included, into the argument of \<open>%s\<close>; \<open>msg\<close> is where the linker
  puts the message. The handlers of both kinds end in \<open>while(1);\<close>.
\<close>

datatype 's ending = Spins 's | Resumes 's


definition exception_message :: "handler \<Rightarrow> string" where
  "exception_message h = (case h of EX_DE \<Rightarrow> ''\"Divide Error\"'' | EX_DB \<Rightarrow> ''\"Debug\"'' | EX_NMI \<Rightarrow> ''\"Not Maskable Interrupt\"'' | EX_BP \<Rightarrow> ''\"Breakpoint\"''
     | EX_OF \<Rightarrow> ''\"Overflow\"'' | EX_BR \<Rightarrow> ''\"BOUND Range Exceeded\"'' | EX_UD \<Rightarrow> ''\"Invalid/Undefined Opcode\"''
     | EX_NM \<Rightarrow> ''\"Device Not Available (No Math coprocessor)\"'' | EX_DF \<Rightarrow> ''\"Double Fault\"'' | EX_MF \<Rightarrow> ''\"CoProcessor Segment Overrun\"''
     | EX_TS \<Rightarrow> ''\"Invalid TSS\"'' | EX_NP \<Rightarrow> ''\"Segment Not Present\"'' | EX_SS \<Rightarrow> ''\"Stack Segment Fault\"'' | EX_GP \<Rightarrow> ''\"General Protection!\"''
     | EX_PF \<Rightarrow> ''\"Page Fault\"'' | EX_MA \<Rightarrow> ''\"Floating-Point Error (Math Fault)\"'' | EX_AC \<Rightarrow> ''\"Alignment Check\"'' | EX_MC \<Rightarrow> ''\"Machine Check\"''
     | EX_XF \<Rightarrow> ''\"SIMD Floating-Point Exception\"'' | EX_RESERVED \<Rightarrow> ''\"Reserved!\"'' | _ \<Rightarrow> [])"

definition run_exception :: "(handler \<Rightarrow> u32) \<Rightarrow> handler \<Rightarrow> 'a idt_state_scheme \<Rightarrow> 'a idt_state_scheme ending option" where
  "run_exception msg h s = do { (s, _) \<leftarrow> print_literal (''%s'' @ [CHR 0x0A]) [msg h] s; Some (Spins s) }"

definition run_page_handler :: "u32 \<Rightarrow> 'a idt_state_scheme \<Rightarrow> 'a idt_state_scheme ending option" where
  "run_page_handler errorcode s = do {
     let fault = cr2 s;
     (s, _) \<leftarrow> print_literal (''Page fault address %x'' @ [CHR 0x0A]) [fault] s;
     (s, _) \<leftarrow> print_literal (''ERROR 0x%x'' @ [CHR 0x0A]) [errorcode] s;
     let s = s\<lparr>exception_halt := 1\<rparr>;
     Some (Spins s) }"

definition run_interrupt :: "device \<Rightarrow> handler \<Rightarrow> 'a idt_state_scheme \<Rightarrow> ('a idt_state_scheme \<times> control) option" where
  "run_interrupt dev h s = (case h of
       handle_rtc_interrupt \<Rightarrow> Some (rtc_interrupt dev s, Returns 0)
     | handle_pit_interrupt \<Rightarrow> schedule s
     | handle_keyboard_interrupt \<Rightarrow> map_option (\<lambda>s. (s, Returns 0)) (keyboard_handler dev s)
     | _ \<Rightarrow> None)"

text \<open>
  The dispatch on the call number in \<open>eax\<close>, compared unsigned, with up to three arguments in \<open>ebx\<close>, \<open>ecx\<close> and
  \<open>edx\<close>; the call runs with interrupts enabled.
\<close>

definition run_system_call ::
  "device \<Rightarrow> ('a idt_state_scheme \<Rightarrow> 'a idt_state_scheme option) list \<Rightarrow> u32 \<Rightarrow> u32 \<Rightarrow> u32 \<Rightarrow> u32 \<Rightarrow> 'a idt_state_scheme
   \<Rightarrow> ('a idt_state_scheme \<times> control \<times> ('a idt_state_scheme \<Rightarrow> 'a idt_state_scheme option) list) option"
where
  "run_system_call dev irqs eax ebx ecx edx s =
     (let ret = map_option (\<lambda>(s, r). (s, Returns r, irqs)); leave = map_option (\<lambda>(s, c). (s, c, irqs)) in
      if eax \<le> 0 \<or> eax \<ge> 11 then Some (s, Returns (-1), irqs)
      else let s = sti s in
        if eax = 1 then leave (halt (ucast ebx) s)
        else if eax = 2 then leave (execute (Global, ebx) s)
        else if eax = 3 then map_option (\<lambda>(s, r, irqs). (s, Returns r, irqs)) (sys_read irqs (sint ebx) (Global, ecx) (sint edx) s)
        else if eax = 4 then ret (sys_write dev (sint ebx) (Global, ecx) (sint edx) s)
        else if eax = 5 then ret (sys_open dev (Global, ebx) s)
        else if eax = 6 then ret (sys_close (sint ebx) s)
        else if eax = 7 then ret (getargs (Global, ebx) (sint ecx) s)
        else if eax = 8 then ret (vidmap ebx s)
        else if eax = 9 then ret (Some (set_handler (sint ebx) (Global, ecx) s))
        else ret (Some (sigreturn s)))"

section \<open>What the processor reads\<close>

text \<open>The two words of a descriptor, and the gate the processor takes them for.\<close>

definition gate_words :: "idt_desc_t \<Rightarrow> u32 \<times> u32" where
  "gate_words d = (ucast (offset_15_00 d) OR push_bit 16 (ucast (seg_selector d)),
     ucast (reserved4 d) OR push_bit 8 (ucast (reserved3 d)) OR push_bit 9 (ucast (reserved2 d)) OR push_bit 10 (ucast (reserved1 d))
     OR push_bit 11 (ucast (gate_size d)) OR push_bit 12 (ucast (reserved0 d)) OR push_bit 13 (ucast (dpl d)) OR push_bit 15 (ucast (present d))
     OR push_bit 16 (ucast (offset_31_16 d)))"

datatype gate = Not_Present | Interrupt_Gate u32 u32 nat | Trap_Gate u32 u32 nat | Other_Gate

definition decode_gate :: "u32 \<times> u32 \<Rightarrow> gate" where
  "decode_gate w = (case w of (lo, hi) \<Rightarrow>
     let offset = push_bit 16 (drop_bit 16 hi) OR take_bit 16 lo; sel = drop_bit 16 lo; kind = take_bit 5 (drop_bit 8 hi); priv = unat (take_bit 2 (drop_bit 13 hi))
     in if \<not> bit hi 15 then Not_Present
        else if kind = 0x0E then Interrupt_Gate sel offset priv
        else if kind = 0x0F then Trap_Gate sel offset priv else Other_Gate)"

lemma gate_offset:
  fixes h k :: u32
  assumes "take_bit 16 k = k"
  shows "push_bit 16 (drop_bit 16 (k OR push_bit 16 (ucast (ucast (drop_bit 16 (h AND 0xFFFF0000)) :: u16) :: u32)))
     OR take_bit 16 (ucast (ucast (h AND 0xFFFF) :: u16) OR push_bit 16 c) = h"
proof -
  have m: "(0xFFFF :: u32) = mask 16" "(0xFFFF0000 :: u32) = NOT (mask 16)" by (simp_all add: mask_eq_exp_minus_1)
  have "\<not> bit k n" if "16 \<le> n" for n using that assms by (metis bit_take_bit_iff not_le)
  then show ?thesis unfolding m by (auto simp: bit_eq_iff bit_simps)
qed

lemma gate_fields:
  fixes k z :: u32 and x :: u16
  shows "take_bit 5 (drop_bit 8 (k OR push_bit 16 z)) = take_bit 5 (drop_bit 8 k)"
    "take_bit 2 (drop_bit 13 (k OR push_bit 16 z)) = take_bit 2 (drop_bit 13 k)" "bit (k OR push_bit 16 z) 15 = bit k 15"
    "drop_bit 16 (ucast x OR push_bit 16 (0x10 :: u32)) = 0x10"
proof -
  show "take_bit 5 (drop_bit 8 (k OR push_bit 16 z)) = take_bit 5 (drop_bit 8 k)"
    "take_bit 2 (drop_bit 13 (k OR push_bit 16 z)) = take_bit 2 (drop_bit 13 k)" "bit (k OR push_bit 16 z) 15 = bit k 15"
    by (auto simp: bit_eq_iff bit_simps)
  have "drop_bit 16 (ucast x OR push_bit 16 (0x10 :: u32)) = drop_bit 16 (push_bit 16 (0x10 :: u32))" by (auto simp: bit_eq_iff bit_simps dest: bit_imp_le_length)
  then show "drop_bit 16 (ucast x OR push_bit 16 (0x10 :: u32)) = 0x10" by simp
qed

lemma gate_kinds:
  "decode_gate (gate_words (SET_IDT_ENTRY h (exception_vector v))) = Trap_Gate 0x10 h 0"
  "decode_gate (gate_words (SET_IDT_ENTRY h (int_vector v))) = Interrupt_Gate 0x10 h 0"
  "decode_gate (gate_words (SET_IDT_ENTRY h (syscall_vector v))) = Interrupt_Gate 0x10 h 3"
proof -
  let ?lo = "ucast (ucast (h AND 0xFFFF) :: u16) OR push_bit 16 0x10 :: u32" and ?hi = "push_bit 16 (ucast (ucast (drop_bit 16 (h AND 0xFFFF0000)) :: u16)) :: u32"
  have w: "gate_words (SET_IDT_ENTRY h (exception_vector v)) = (?lo, 0x8F00 OR ?hi)" "gate_words (SET_IDT_ENTRY h (int_vector v)) = (?lo, 0x8E00 OR ?hi)"
    "gate_words (SET_IDT_ENTRY h (syscall_vector v)) = (?lo, 0xEE00 OR ?hi)"
    by (simp_all add: gate_words_def SET_IDT_ENTRY_def syscall_vector_def int_vector_def exception_vector_def flip: or.assoc)
  have k: "take_bit 16 (0x8F00 :: u32) = 0x8F00" "take_bit 16 (0x8E00 :: u32) = 0x8E00" "take_bit 16 (0xEE00 :: u32) = 0xEE00" by simp_all
  note off = k [THEN gate_offset [of _ h "0x10"]]
  show "decode_gate (gate_words (SET_IDT_ENTRY h (exception_vector v))) = Trap_Gate 0x10 h 0"
    "decode_gate (gate_words (SET_IDT_ENTRY h (int_vector v))) = Interrupt_Gate 0x10 h 0"
    "decode_gate (gate_words (SET_IDT_ENTRY h (syscall_vector v))) = Interrupt_Gate 0x10 h 3"
    unfolding w decode_gate_def Let_def prod.case off gate_fields by simp_all
qed

section \<open>Correctness of the table\<close>

text \<open>The handler the table is meant to hold for each vector.\<close>

definition intended_handler :: "nat \<Rightarrow> handler option" where
  "intended_handler i =
     (if i = 0 then Some EX_DE else if i = 1 then Some EX_DB else if i = 2 then Some EX_NMI else if i = 3 then Some EX_BP else if i = 4 then Some EX_OF
      else if i = 5 then Some EX_BR else if i = 6 then Some EX_UD else if i = 7 then Some EX_NM else if i = 8 then Some EX_DF else if i = 9 then Some EX_MF
      else if i = 10 then Some EX_TS else if i = 11 then Some EX_NP else if i = 12 then Some EX_SS else if i = 13 then Some EX_GP else if i = 14 then Some page_handler
      else if i = 16 then Some EX_MA else if i = 17 then Some EX_AC else if i = 18 then Some EX_MC else if i = 19 then Some EX_XF else if i < 32 then Some EX_RESERVED
      else if i = 0x20 then Some handle_pit_interrupt else if i = 0x21 then Some handle_keyboard_interrupt else if i = 0x28 then Some handle_rtc_interrupt
      else if i = 0x80 then Some system_calls_linkage else None)"

lemma exception_handler_some: "i < 32 \<Longrightarrow> \<exists>h. intended_handler i = Some h"
  by (simp add: intended_handler_def)

lemma exception_table_entry:
  assumes "i < 20" and "i \<noteq> 14" and "i \<noteq> 15"
  shows "arr_get exception_ptr_table i = Some (intended_handler i)"
proof -
  have "i \<in> {0, 1, 2, 3, 4, 5, 6, 7, 8, 9, 10, 11, 12, 13, 16, 17, 18, 19}" using assms unfolding insert_iff empty_iff by presburger
  then show ?thesis by (auto simp: exception_ptr_table_def intended_handler_def arr_get_def)
qed

lemma exception_entry_result:
  assumes "i < 32" and "length table = 256" and "intended_handler i = Some h"
  shows "exception_entry addr v i table = Some (table[i := SET_IDT_ENTRY (addr h) (exception_vector v)])"
proof (cases "i < 20 \<and> i \<noteq> 14 \<and> i \<noteq> 15")
  case True
  then show ?thesis using assms exception_table_entry [of i] by (simp add: exception_entry_def set_entry_def arr_get_def)
next
  case False
  then have "i = 14 \<and> h = page_handler \<or> (i = 15 \<or> 20 \<le> i) \<and> h = EX_RESERVED" using assms(1,3) by (auto simp: intended_handler_def)
  then show ?thesis using assms(1,2) by (auto simp: exception_entry_def set_entry_def arr_get_def)
qed

lemma exception_entries:
  "n \<le> 32 \<Longrightarrow> length table = 256 \<Longrightarrow> \<exists>t. foldo (exception_entry addr v) [0..<n] table = Some t \<and> length t = 256
    \<and> (\<forall>i < 256. t ! i = (if i < n then SET_IDT_ENTRY (addr (the (intended_handler i))) (exception_vector v) else table ! i))"
proof (induction n)
  case (Suc n)
  then obtain t where t: "foldo (exception_entry addr v) [0..<n] table = Some t" "length t = 256"
    "\<forall>i < 256. t ! i = (if i < n then SET_IDT_ENTRY (addr (the (intended_handler i))) (exception_vector v) else table ! i)" by auto
  obtain h where h: "intended_handler n = Some h" using exception_handler_some [of n] Suc.prems(1) by auto
  have "exception_entry addr v n t = Some (t[n := SET_IDT_ENTRY (addr h) (exception_vector v)])"
    using exception_entry_result [OF _ t(2) h] Suc.prems(1) by simp
  then show ?case using t h Suc.prems(1) by (simp add: foldo_append nth_list_update)
qed simp

text \<open>The table after \<open>idt_init\<close>, entry by entry.\<close>

definition init_gate :: "(handler \<Rightarrow> u32) \<Rightarrow> idt_desc_t \<Rightarrow> nat \<Rightarrow> handler \<Rightarrow> idt_desc_t" where
  "init_gate addr v i h = SET_IDT_ENTRY (addr h) (if i < 32 then exception_vector v else if i = 0x80 then syscall_vector v else int_vector v)"

lemma idt_init_state:
  assumes "length (idt s) = 256"
  shows "\<exists>t. idt_init addr v s = Some (s\<lparr>idt := t, idt_loaded := True\<rparr>) \<and> length t = 256
    \<and> (\<forall>i < 256. t ! i = (case intended_handler i of None \<Rightarrow> idt s ! i | Some h \<Rightarrow> init_gate addr v i h))"
proof -
  obtain t where t: "foldo (exception_entry addr v) [0..<32] (idt s) = Some t" "length t = 256"
    "\<forall>i < 256. t ! i = (if i < 32 then SET_IDT_ENTRY (addr (the (intended_handler i))) (exception_vector v) else idt s ! i)"
    using exception_entries [of 32 "idt s" addr v] assms by auto
  let ?g = "\<lambda>i :: nat. \<lambda>h. SET_IDT_ENTRY (addr h) (if i = 0x80 then syscall_vector v else int_vector v)"
  define t' where "t' = t[0x28 := int_vector v, 0x20 := int_vector v, 0x21 := int_vector v, 0x80 := syscall_vector v,
    0x28 := ?g 0x28 handle_rtc_interrupt, 0x20 := ?g 0x20 handle_pit_interrupt, 0x21 := ?g 0x21 handle_keyboard_interrupt, 0x80 := ?g 0x80 system_calls_linkage]"
  have "idt_init addr v s = Some (s\<lparr>idt := t', idt_loaded := True\<rparr>)" "length t' = 256"
    using t(1,2) by (simp_all add: idt_init_def set_entry_def t'_def arr_get_def)
  moreover have "t' ! i = (case intended_handler i of None \<Rightarrow> idt s ! i | Some h \<Rightarrow> init_gate addr v i h)" if i: "i < 256" for i
  proof (cases "i < 32")
    case True
    then obtain h where "intended_handler i = Some h" using exception_handler_some by blast
    then show ?thesis using t(2,3) i True by (simp add: t'_def init_gate_def)
  next
    case False
    then show ?thesis using t(2,3) i by (simp add: t'_def intended_handler_def init_gate_def nth_list_update)
  qed
  ultimately show ?thesis by blast
qed

text \<open>
  C7: \<open>idt_init\<close> fills the interrupt descriptor table with gates as the processor reads them: the vectors 0 to
  31 are present trap gates to the exception handlers, callable from the kernel only, the timer, keyboard
  and clock vectors are interrupt gates to their handlers, and 0x80 is an interrupt gate that user programs may call;
  all run in the kernel code segment, and the other vectors stay as they were.
\<close>

theorem idt_init_correct:
  assumes "length (idt s) = 256"
  shows "\<exists>s'. idt_init addr v s = Some s' \<and> idt_loaded s' \<and> length (idt s') = 256 \<and> s' = s\<lparr>idt := idt s', idt_loaded := True\<rparr>
    \<and> (\<forall>i < 256. case intended_handler i of
          None \<Rightarrow> idt s' ! i = idt s ! i
        | Some h \<Rightarrow> decode_gate (gate_words (idt s' ! i)) =
            (if i < 32 then Trap_Gate 0x10 (addr h) 0 else Interrupt_Gate 0x10 (addr h) (if i = 0x80 then 3 else 0)))"
proof -
  obtain t where t: "idt_init addr v s = Some (s\<lparr>idt := t, idt_loaded := True\<rparr>)" "length t = 256"
    "\<forall>i < 256. t ! i = (case intended_handler i of None \<Rightarrow> idt s ! i | Some h \<Rightarrow> init_gate addr v i h)"
    using idt_init_state [OF assms] by blast
  have "\<forall>i < 256. case intended_handler i of None \<Rightarrow> t ! i = idt s ! i
      | Some h \<Rightarrow> decode_gate (gate_words (t ! i)) = (if i < 32 then Trap_Gate 0x10 (addr h) 0 else Interrupt_Gate 0x10 (addr h) (if i = 0x80 then 3 else 0))"
    using t(3) by (simp add: init_gate_def gate_kinds split: option.split)
  moreover define s' where s': "s' = s\<lparr>idt := t, idt_loaded := True\<rparr>"
  moreover have "idt s' = t" "idt_loaded s'" "s' = s\<lparr>idt := idt s', idt_loaded := True\<rparr>" by (simp_all add: s')
  ultimately show ?thesis using t(1,2) by (intro exI [of _ s']) (simp only: simp_thms)
qed

definition empty_gate :: idt_desc_t where
  "empty_gate = \<lparr>offset_15_00 = 0, seg_selector = 0, reserved4 = 0, reserved3 = 0, reserved2 = 0, reserved1 = 0, gate_size = 0, reserved0 = 0,
     dpl = 0, present = 0, offset_31_16 = 0\<rparr>"

definition idt_demo :: idt_state where
  "idt_demo = proc_state.extend sched_demo (idt_state.fields (replicate 256 empty_gate) False)"

theorem idt_init_correct_witness:
  "\<exists>s'. idt_init (\<lambda>h. 0x400123) empty_gate idt_demo = Some s'
    \<and> decode_gate (gate_words (idt s' ! 0x80)) = Interrupt_Gate 0x10 0x400123 3 \<and> idt s' ! 0x81 = empty_gate"
proof -
  have i: "idt idt_demo = replicate 256 empty_gate" by (simp add: idt_demo_def proc_state.defs idt_state.defs)
  then obtain s' where s': "idt_init (\<lambda>h. 0x400123) empty_gate idt_demo = Some s'"
    and g: "\<And>i. i < 256 \<Longrightarrow> case intended_handler i of None \<Rightarrow> idt s' ! i = idt idt_demo ! i
      | Some h \<Rightarrow> decode_gate (gate_words (idt s' ! i)) = (if i < 32 then Trap_Gate 0x10 0x400123 0 else Interrupt_Gate 0x10 0x400123 (if i = 0x80 then 3 else 0))"
    using idt_init_correct [of idt_demo "\<lambda>h. 0x400123" empty_gate] by auto
  from g [of "0x80"] g [of "0x81"] show ?thesis using s' i by (simp add: intended_handler_def)
qed

text \<open>An exception prints its message, a page fault the address and the error code, on the shown terminal; then the kernel spins.\<close>

lemma run_exception_prints:
  assumes "scr_ok s" and "cstr (mem s) (Global, msg h) (cbytes (exception_message h))"
  shows "\<exists>s'. run_exception msg h s = Some (Spins s') \<and> shown s' = fold tty_emit (cbytes (exception_message h) @ [0x0A]) (shown s)"
proof -
  let ?m = "put_bytes (mem s) (Local 2, 0) (cbytes (''%s'' @ [CHR 0x0A]) @ [0])"
  have f: "cbytes (''%s'' @ [CHR 0x0A]) = [37, 115, 10]" by (simp add: cbytes_def)
  have "cstr ?m (Local 2, 0) [37, 115, 10]" unfolding f by (rule cstr_put_bytes) simp_all
  moreover have "cstr ?m (Global, msg h) (cbytes (exception_message h))"
    using assms(2) only_locals_views(3) [OF only_locals_put, of "(Local 2, 0)" 2 "(Global, msg h)" "mem s"] by auto
  moreover have "render (\<lambda>v. if v = msg h then Some (cbytes (exception_message h)) else None) [37, 115, 10] [msg h] = Some (cbytes (exception_message h) @ [0x0A])"
    by (simp add: conversion_text_def)
  moreover have "scr_ok (s\<lparr>mem := ?m\<rparr>)" "shown (s\<lparr>mem := ?m\<rparr>) = shown s"
    using assms(1) by (simp_all add: scr_ok_def shown_def console_def cursor_pos_def)
  ultimately show ?thesis
    using printf_result [of "s\<lparr>mem := ?m\<rparr>" "(Local 2, 0)" "[37, 115, 10]" "\<lambda>v. if v = msg h then Some (cbytes (exception_message h)) else None" "[msg h]"]
    by (force simp: run_exception_def print_literal_def split: if_splits)
qed

lemma tty_frame_kbd:
  fixes s s' :: "'a kbd_state_scheme"
  assumes "tty_frame t (s\<lparr>mem := m\<rparr>) s'"
  shows "kbd_state.more s' = kbd_state.more s" "iflag s' = iflag s"
  using assms by (cases s; cases s'; simp add: tty_frame_def)+



end
