(* ===== verification/Boot.thy ===== *)
theory Boot
  imports Multitasking Idt
begin

text \<open>
  The start of the kernel (\<open>entry\<close> of \<open>student-distrib/kernel.c\<close>): checking and printing what the boot loader left, the
  descriptors of the local table and the task segment, and the initialisation of every device, ending in
  the idle loop. The structures of \<open>multiboot.h\<close> are read from memory at their offsets.
\<close>

section \<open>Segment descriptors\<close>

record seg_desc_t =
  seg_lim_15_00 :: u16
  base_15_00 :: u16
  base_23_16 :: u8
  seg_type :: "4 word"
  seg_sys :: "1 word"
  seg_dpl :: "2 word"
  seg_present :: "1 word"
  seg_lim_19_16 :: "4 word"
  seg_avail :: "1 word"
  seg_reserved :: "1 word"
  seg_opsize :: "1 word"
  seg_granularity :: "1 word"
  base_31_24 :: u8

record kernel_state = idt_state +
  process_request :: u32
  ldt_desc_ptr :: seg_desc_t
  tss_desc_ptr :: seg_desc_t
  ldtr :: u16
  task_register :: u16
  tss_ldt_segment_selector :: u16

text \<open>What the linker decides: the page tables, the handlers, the local table and the task segment.\<close>

record image =
  tables :: layout
  handlers :: "handler \<Rightarrow> u32"
  ldt_addr :: u32
  ldt_size :: u32
  tss_addr :: u32
  tss_size :: u32

definition SET_LDT_PARAMS :: "u32 \<Rightarrow> u32 \<Rightarrow> seg_desc_t \<Rightarrow> seg_desc_t" where
  "SET_LDT_PARAMS addr lim str =
     str\<lparr>base_31_24 := ucast (drop_bit 24 (addr AND 0xFF000000)), base_23_16 := ucast (drop_bit 16 (addr AND 0x00FF0000)),
       base_15_00 := ucast (addr AND 0x0000FFFF), seg_lim_19_16 := ucast (drop_bit 16 (lim AND 0x000F0000)), seg_lim_15_00 := ucast (lim AND 0x0000FFFF)\<rparr>"

definition SET_TSS_PARAMS :: "u32 \<Rightarrow> u32 \<Rightarrow> seg_desc_t \<Rightarrow> seg_desc_t" where
  "SET_TSS_PARAMS addr lim str =
     str\<lparr>base_31_24 := ucast (drop_bit 24 (addr AND 0xFF000000)), base_23_16 := ucast (drop_bit 16 (addr AND 0x00FF0000)),
       base_15_00 := ucast (addr AND 0x0000FFFF), seg_lim_19_16 := ucast (drop_bit 16 (lim AND 0x000F0000)), seg_lim_15_00 := ucast (lim AND 0x0000FFFF)\<rparr>"

text \<open>The descriptors start as the uninitialised local variable \<open>u\<close>.\<close>

definition the_ldt_desc :: "image \<Rightarrow> seg_desc_t \<Rightarrow> seg_desc_t" where
  "the_ldt_desc im u = SET_LDT_PARAMS (ldt_addr im) (ldt_size im)
     (u\<lparr>seg_granularity := 0, seg_opsize := 1, seg_reserved := 0, seg_avail := 0, seg_present := 1, seg_dpl := 0, seg_sys := 0, seg_type := 2\<rparr>)"

definition the_tss_desc :: "image \<Rightarrow> seg_desc_t \<Rightarrow> seg_desc_t" where
  "the_tss_desc im u = SET_TSS_PARAMS (tss_addr im) (tss_size im)
     (u\<lparr>seg_granularity := 0, seg_opsize := 0, seg_reserved := 0, seg_avail := 0, seg_lim_19_16 := ucast (104 AND 0x000F0000 :: u32), seg_present := 1,
        seg_dpl := 0, seg_sys := 0, seg_type := 9, seg_lim_15_00 := ucast (104 AND 0x0000FFFF :: u32)\<rparr>)"

definition load_segments :: "image \<Rightarrow> seg_desc_t \<Rightarrow> 'a kernel_state_scheme \<Rightarrow> 'a kernel_state_scheme" where
  "load_segments im u s =
     (let s = s\<lparr>ldt_desc_ptr := the_ldt_desc im u, ldtr := 0x0038\<rparr>;
          s = s\<lparr>tss_desc_ptr := the_tss_desc im u, tss_ldt_segment_selector := 0x0038, tss_ss0 := KERNEL_DS, tss_esp0 := 0x800000\<rparr>
      in s\<lparr>task_register := 0x0030\<rparr>)"

text \<open>How the processor reads a segment descriptor.\<close>

definition desc_base :: "seg_desc_t \<Rightarrow> u32" where
  "desc_base d = push_bit 24 (ucast (base_31_24 d)) OR push_bit 16 (ucast (base_23_16 d)) OR ucast (base_15_00 d)"

definition desc_limit :: "seg_desc_t \<Rightarrow> u32" where
  "desc_limit d = push_bit 16 (ucast (seg_lim_19_16 d)) OR ucast (seg_lim_15_00 d)"

section \<open>The boot information\<close>

abbreviation newline :: char where "newline \<equiv> CHR 0x0A"

definition kprintf :: "string \<Rightarrow> u32 list \<Rightarrow> 'a screen_state_scheme \<Rightarrow> 'a screen_state_scheme option" where
  "kprintf str vs s = map_option fst (print_literal str vs s)"

definition mbi_field :: "mem \<Rightarrow> u32 \<Rightarrow> u32 \<Rightarrow> u32" where
  "mbi_field m a off = ld32 m (Global, a + off)"

definition CHECK_FLAG :: "u32 \<Rightarrow> nat \<Rightarrow> bool" where
  "CHECK_FLAG fl b \<longleftrightarrow> fl AND push_bit b 1 \<noteq> 0"

definition print_module :: "u32 \<Rightarrow> u32 \<Rightarrow> 'a screen_state_scheme \<Rightarrow> 'a screen_state_scheme option" where
  "print_module n md s = do {
     s \<leftarrow> kprintf (''Module %d loaded at address: 0x%#x'' @ [newline]) [n, mbi_field (mem s) md 0] s;
     s \<leftarrow> kprintf (''Module %d ends at address: 0x%#x'' @ [newline]) [n, mbi_field (mem s) md 4] s;
     s \<leftarrow> kprintf (''First few bytes of module:'' @ [newline]) [] s;
     s \<leftarrow> foldo (\<lambda>i s. kprintf ''0x%x '' [scast (mem s (Global, mbi_field (mem s) md 0 + of_nat i))] s) [0..<16] s;
     kprintf [newline] [] s }"

partial_function (option) print_modules :: "u32 \<Rightarrow> u32 \<Rightarrow> u32 \<Rightarrow> 'a screen_state_scheme \<Rightarrow> 'a screen_state_scheme option" where
  "print_modules a md mod_count s =
     (if mod_count < mbi_field (mem s) a 20
      then do { s \<leftarrow> print_module mod_count md s; print_modules a (md + 16) (mod_count + 1) s }
      else Some s)"

partial_function (option) print_mmap :: "u32 \<Rightarrow> u32 \<Rightarrow> 'a screen_state_scheme \<Rightarrow> 'a screen_state_scheme option" where
  "print_mmap a mmap s =
     (if mmap < mbi_field (mem s) a 48 + mbi_field (mem s) a 44
      then do {
        let f = mbi_field (mem s) mmap;
        s \<leftarrow> kprintf (''    size = 0x%x, base_addr = 0x%#x%#x'' @ [newline] @ ''    type = 0x%x,  length    = 0x%#x%#x'' @ [newline])
               [f 0, f 8, f 4, f 20, f 16, f 12] s;
        print_mmap a (mmap + mbi_field (mem s) mmap 0 + 4) s }
      else Some s)"

text \<open>The address of the first module, if there is one, is where the file system is.\<close>

definition print_boot_info :: "u32 \<Rightarrow> 'a screen_state_scheme \<Rightarrow> ('a screen_state_scheme \<times> u32 option \<times> bool) option" where
  "print_boot_info a s = do {
     let f = (\<lambda>s. mbi_field (mem s) a);
     let flag = (\<lambda>s. CHECK_FLAG (f s 0));
     s \<leftarrow> kprintf (''flags = 0x%#x'' @ [newline]) [f s 0] s;
     s \<leftarrow> (if flag s 0 then kprintf (''mem_lower = %uKB, mem_upper = %uKB'' @ [newline]) [f s 4, f s 8] s else Some s);
     s \<leftarrow> (if flag s 1 then kprintf (''boot_device = 0x%#x'' @ [newline]) [f s 12] s else Some s);
     s \<leftarrow> (if flag s 2 then kprintf (''cmdline = %s'' @ [newline]) [f s 16] s else Some s);
     (s, disk_mount_addr) \<leftarrow>
       (if flag s 3
        then do { let md = f s 24; let start = mbi_field (mem s) md 0; s \<leftarrow> print_modules a md 0 s; Some (s, Some start) }
        else Some (s, None));
     if flag s 4 \<and> flag s 5
     then do { s \<leftarrow> kprintf (''Both bits 4 and 5 are set.'' @ [newline]) [] s; Some (s, disk_mount_addr, False) }
     else do {
       s \<leftarrow> (if flag s 5
             then kprintf (''elf_sec: num = %u, size = 0x%#x, addr = 0x%#x, shndx = 0x%#x'' @ [newline]) [f s 28, f s 32, f s 36, f s 40] s
             else Some s);
       s \<leftarrow> (if flag s 6
             then do { s \<leftarrow> kprintf (''mmap_addr = 0x%#x, mmap_length = 0x%x'' @ [newline]) [f s 48, f s 44] s; print_mmap a (f s 48) s }
             else Some s);
       Some (s, disk_mount_addr, True) } }"

section \<open>Initialisation\<close>

definition device_init :: "device \<Rightarrow> image \<Rightarrow> idt_desc_t \<Rightarrow> u32 option \<Rightarrow> 'a kernel_state_scheme \<Rightarrow> 'a kernel_state_scheme option" where
  "device_init dev im v disk s = do {
     s \<leftarrow> idt_init (handlers im) v s;
     let s = i8259_init s;
     s \<leftarrow> paging_exec (tables im) s;
     let s = pit_init s;
     let s = rtc_init dev s;
     let s = enableKeyboard s;
     disk_mount_addr \<leftarrow> disk;
     let s = filesystem_init disk_mount_addr s;
     scheduler_init s }"

text \<open>The result says whether the kernel got to its idle loop or returned to the boot code.\<close>

definition entry :: "device \<Rightarrow> image \<Rightarrow> idt_desc_t \<Rightarrow> seg_desc_t \<Rightarrow> u32 \<Rightarrow> u32 \<Rightarrow> 'a kernel_state_scheme \<Rightarrow> ('a kernel_state_scheme \<times> bool) option" where
  "entry dev im v u magic a s = do {
     let s = s\<lparr>process_request := 0\<rparr>;
     s \<leftarrow> clear 2 s;
     if magic \<noteq> 0x2BADB002
     then do { s \<leftarrow> kprintf (''Invalid magic number: 0x%#x'' @ [newline]) [magic] s; Some (s, False) }
     else do {
       (s, disk, ok) \<leftarrow> print_boot_info a s;
       if \<not> ok then Some (s, False)
       else do {
         let s = load_segments im u s;
         s \<leftarrow> device_init dev im v disk s;
         s \<leftarrow> kprintf (''Enabling Interrupts'' @ [newline]) [] s;
         let s = sti s;
         s \<leftarrow> kprintf (''this'' @ [newline]) [] s;
         Some (s, True) } } }"

section \<open>Lemmas: segments\<close>

lemma split_base:
  fixes a :: u32
  shows "push_bit 24 (ucast (ucast (drop_bit 24 a AND 0xFF) :: u8)) OR push_bit 16 (ucast (ucast (drop_bit 16 a AND 0xFF) :: u8))
    OR ucast (ucast (a AND 0xFFFF) :: u16) = a"
proof -
  have m: "(0xFF :: u32) = mask 8" "(0xFFFF :: u32) = mask 16" by (simp_all add: mask_eq_exp_minus_1)
  have "n - 16 < 8 \<or> bit a (24 + (n - 24)) = bit a n" for n
  proof (cases "n < 24")
    case False
    then have "24 + (n - 24) = n" by linarith
    then show ?thesis by (simp only: simp_thms)
  qed linarith
  then show ?thesis unfolding m by (auto simp: bit_eq_iff bit_simps)
qed

lemma split_limit:
  fixes a :: u32
  shows "push_bit 16 (ucast (ucast (drop_bit 16 a AND 0xF) :: 4 word)) OR ucast (ucast (a AND 0xFFFF) :: u16) = take_bit 20 a"
proof -
  have m: "(0xF :: u32) = mask 4" "(0xFFFF :: u32) = mask 16" by (simp_all add: mask_eq_exp_minus_1)
  show ?thesis unfolding m by (auto simp: bit_eq_iff bit_simps)
qed

text \<open>
  The descriptors of the local table and of the task segment are what the processor needs: whatever the
  uninitialised variable held, base and limit reassemble to the address and the size of the table or segment, both are present
  system segments for the kernel only, of type local table and available task segment, and the registers are loaded with their selectors, with the
  boot stack as the stack of the task.
\<close>

theorem load_segments_correct:
  assumes "ldt_size im < 2 ^ 20" and "tss_size im < 2 ^ 20"
  shows "let t = load_segments im u s; l = ldt_desc_ptr t; d = tss_desc_ptr t in
    desc_base l = ldt_addr im \<and> desc_limit l = ldt_size im \<and> seg_type l = 2 \<and> seg_sys l = 0 \<and> seg_present l = 1 \<and> seg_dpl l = 0 \<and> seg_granularity l = 0
    \<and> desc_base d = tss_addr im \<and> desc_limit d = tss_size im \<and> seg_type d = 9 \<and> seg_sys d = 0 \<and> seg_present d = 1 \<and> seg_dpl d = 0 \<and> seg_granularity d = 0
    \<and> ldtr t = 0x38 \<and> task_register t = 0x30 \<and> tss_ldt_segment_selector t = 0x38 \<and> tss_ss0 t = KERNEL_DS \<and> tss_esp0 t = 0x800000"
proof -
  have "take_bit 20 (ldt_size im) = ldt_size im" "take_bit 20 (tss_size im) = tss_size im" using assms by (simp_all add: word_less_nat_alt word_unat_eq_iff unsigned_take_bit_eq take_bit_nat_eq_self)
  then show ?thesis
    by (simp add: load_segments_def Let_def the_ldt_desc_def the_tss_desc_def SET_LDT_PARAMS_def SET_TSS_PARAMS_def desc_base_def desc_limit_def split_base split_limit)
qed

section \<open>Lemmas: initialisation step by step\<close>

lemma i8259_init_state:
  "master_mask s = 0xff \<Longrightarrow> slave_mask s = 0xff \<Longrightarrow> \<exists>L. i8259_init s = s\<lparr>master_mask := 0xfb, io_log := L\<rparr>"
  by (intro exI) (simp add: i8259_init_def Let_def outb_def enable_irq_def one_shl_def)

lemma late_devices_state:
  assumes "master_mask s = 0xfb" and "slave_mask s = 0xff"
  shows "\<exists>L m. enableKeyboard (rtc_init dev (pit_init s)) = s\<lparr>mem := m, slave_mask := 0xfe, master_mask := 0xf8, io_log := L\<rparr> \<and> only_locals {1} (mem s) m"
proof -
  have "\<exists>L. pit_init s = s\<lparr>master_mask := 0xfa, io_log := L\<rparr>"
    using assms by (intro exI) (simp add: pit_init_def Let_def outb_def enable_irq_def disable_irq_def one_shl_def)
  then obtain L where p: "pit_init s = s\<lparr>master_mask := 0xfa, io_log := L\<rparr>" by blast
  let ?m = "st32 (mem s) default_frequency_var 0"
  have "\<exists>L. rtc_init dev (pit_init s) = s\<lparr>master_mask := 0xfa, mem := ?m, slave_mask := 0xfe, io_log := L\<rparr>"
    unfolding p using assms by (intro exI) (simp add: rtc_init_def rtc_write_def inb_def outb_def Let_def enable_irq_def one_shl_def)
  then obtain L' where r: "rtc_init dev (pit_init s) = s\<lparr>master_mask := 0xfa, mem := ?m, slave_mask := 0xfe, io_log := L'\<rparr>" by blast
  have "\<exists>L. enableKeyboard (rtc_init dev (pit_init s)) = s\<lparr>mem := ?m, slave_mask := 0xfe, master_mask := 0xf8, io_log := L\<rparr>"
    unfolding r by (intro exI) (simp add: enableKeyboard_def Let_def cli_def restore_flags_def enable_irq_def outb_def one_shl_def)
  moreover have "only_locals {1} (mem s) ?m" by (rule only_locals_st32) (simp add: default_frequency_var_def)
  ultimately show ?thesis by blast
qed

lemma paging_exec_state:
  assumes "tables_ok s" and "scr_ok s"
  shows "\<exists>s'. paging_exec l s = Some s' \<and> tables_ok s' \<and> scr_ok s' \<and> bit (cr0 s') 31 \<and> master_mask s' = master_mask s \<and> slave_mask s' = slave_mask s
    \<and> (\<forall>r. \<not> in_user_page r \<and> fst r \<notin> Local ` {0, 2} \<longrightarrow> mem s' r = mem s r) \<and> paging_state.more s' = paging_state.more s"
proof -
  let ?s = "s\<lparr>pageDir := boot_dir l, pageTable := boot_table, pageTableUserVideo := replicate 1024 0\<rparr>"
  let ?t = "(load_cr3 (pageDir_addr l) ?s)\<lparr>cr4 := cr4 s OR 0x10, cr0 := cr0 s OR 0x80000003, pageFaultAddr := cr2 s\<rparr>"
  let ?str = "''Paging is enabled!'' @ [CHR 0x0A]"
  have "scr_ok ?t" using assms(2) by (simp add: scr_ok_def load_cr3_def Let_def)
  moreover have "0 \<notin> set (cbytes ?str)" "render Map.empty (cbytes ?str) [] = Some (cbytes ?str)" by (simp_all add: cbytes_def)
  ultimately obtain s' where s': "print_literal ?str [] ?t = Some (s', int (length ?str))" "scr_ok s'" "only_locals {0, 2} (mem ?t) (mem s')"
    "tty_frame (active_terminal ?t) (?t\<lparr>mem := mem s'\<rparr>) s'"
    using print_literal_result [of ?t ?str "[]" "cbytes ?str"] by auto
  have m: "screen_state.more s' = screen_state.more ?t" using s'(4) by (simp add: tty_frame_def)
  note f = paging_fields_more [OF m]
  have "tables_ok s'" "bit (cr0 s') 31"
    using f(1-3,5) by (simp_all add: tables_ok_def load_cr3_def Let_def boot_dir_nth boot_table_def bit_simps)
  moreover have "mem s' r = mem s r" if "\<not> in_user_page r" "fst r \<notin> Local ` {0, 2}" for r
    using only_locals_at [OF s'(3) that(2)] load_cr3_mem [OF that(1), of "pageDir_addr l" ?s] by simp
  moreover have "master_mask s' = master_mask s" "slave_mask s' = slave_mask s" using tty_frame_fields [OF s'(4)] by (simp_all add: load_cr3_def Let_def)
  moreover have "paging_state.more s' = paging_state.more s" using m by (cases s; cases s'; simp add: load_cr3_def Let_def)
  moreover have "paging_exec l s = Some s'"
    using s'(1) by (simp add: paging_exec_def fill_tables_result [OF assms(1)] paging_init_def Let_def load_cr3_def)
  ultimately show ?thesis using s'(2) by blast
qed

lemma boot_masks:
  assumes "master_mask s = 0xf8" and "slave_mask s = 0xfe" and "i < 16"
  shows "irq_masked s i \<longleftrightarrow> i \<notin> {0, 1, 2, 8}"
proof -
  have "i \<in> {0, 1, 2, 3, 4, 5, 6, 7, 8, 9, 10, 11, 12, 13, 14, 15}" using assms(3) unfolding insert_iff empty_iff by presburger
  then show ?thesis by (auto simp: irq_masked_def assms(1,2))
qed

lemma scheduler_init_state:
  "length (priority_list_pid s) = 7 \<Longrightarrow>
   scheduler_init s = Some (s\<lparr>schedule_started := 0, current_schedule := -1, active_terminal := 3, priority_list_pid := replicate 7 (-1)\<rparr>)"
proof -
  assume l: "length (priority_list_pid s) = 7"
  have "foldo (\<lambda>i pl. arr_set pl i (-1)) [0..<n] pl = Some (replicate n (-1) @ drop n pl)" if "n \<le> length pl" for n and pl :: "int list"
    using that
  proof (induction n)
    case (Suc n)
    have "(replicate n (-1) @ drop n pl)[n := -1] = replicate (Suc n) (-1) @ drop (Suc n) pl"
      using Suc.prems by (simp add: list_update_append replicate_append_same Cons_nth_drop_Suc [symmetric])
    then show ?case using Suc by (simp add: foldo_append)
  qed simp
  from this [of 7 "priority_list_pid s"] show ?thesis using l by (simp add: scheduler_init_def Let_def)
qed

text \<open>The machine as the boot loader hands it over, with the image of the file system at \<open>disk\<close>.\<close>

definition reset_state :: "u32 \<Rightarrow> 'a kernel_state_scheme \<Rightarrow> bool" where
  "reset_state disk s \<longleftrightarrow> length (idt s) = 256 \<and> master_mask s = 0xff \<and> slave_mask s = 0xff \<and> tables_ok s \<and> scr_ok s
     \<and> length (fileArray (newPCB_var s)) = 8 \<and> length (args (newPCB_var s)) = 128 \<and> length (terminal_current_pid s) = 3
     \<and> length (priority_list_pid s) = 7 \<and> pid_bitpattern s = pid_bitpattern_init \<and> total_tasks s = total_tasks_init \<and> current_PCB s = 0x7FE000
     \<and> fs_wf (mem s) disk \<and> (\<forall>r. in_fs (mem s) disk r \<longrightarrow> \<not> in_user_page r) \<and> (\<exists>i. program_at (mem s) disk shell_name i)"

lemma devices_state:
  assumes "length (idt s) = 256" and "master_mask s = 0xff" and "slave_mask s = 0xff" and "tables_ok s" and "scr_ok s"
  shows "\<exists>u. (\<forall>disk. device_init dev im v (Some disk) s = scheduler_init (filesystem_init disk u)) \<and> tables_ok u \<and> scr_ok u \<and> bit (cr0 u) 31
    \<and> master_mask u = 0xf8 \<and> slave_mask u = 0xfe \<and> (\<forall>r. \<not> in_user_page r \<and> fst r \<notin> Local ` {0, 1, 2} \<longrightarrow> mem u r = mem s r)
    \<and> paging_state.more u = paging_state.more (s\<lparr>idt := idt u, idt_loaded := True\<rparr>)"
proof -
  obtain t where t: "idt_init (handlers im) v s = Some (s\<lparr>idt := t, idt_loaded := True\<rparr>)" using idt_init_state [OF assms(1)] by blast
  let ?s1 = "s\<lparr>idt := t, idt_loaded := True\<rparr>"
  obtain L where L: "i8259_init ?s1 = ?s1\<lparr>master_mask := 0xfb, io_log := L\<rparr>" using i8259_init_state [of ?s1] assms(2,3) by auto
  let ?s2 = "?s1\<lparr>master_mask := 0xfb, io_log := L\<rparr>"
  have ok2: "tables_ok ?s2" "scr_ok ?s2" using assms(4,5) by (simp_all add: tables_ok_def scr_ok_def)
  obtain s3 where s3: "paging_exec (tables im) ?s2 = Some s3" "tables_ok s3" "scr_ok s3" "bit (cr0 s3) 31" "master_mask s3 = 0xfb" "slave_mask s3 = 0xff"
    "\<forall>r. \<not> in_user_page r \<and> fst r \<notin> Local ` {0, 2} \<longrightarrow> mem s3 r = mem s r" "paging_state.more s3 = paging_state.more ?s2"
    using paging_exec_state [OF ok2, of "tables im"] assms(3) by auto
  obtain L' m where m: "enableKeyboard (rtc_init dev (pit_init s3)) = s3\<lparr>mem := m, slave_mask := 0xfe, master_mask := 0xf8, io_log := L'\<rparr>" "only_locals {1} (mem s3) m"
    using late_devices_state [OF s3(5,6), of dev] by blast
  define u where "u = s3\<lparr>mem := m, slave_mask := 0xfe, master_mask := 0xf8, io_log := L'\<rparr>"
  have "device_init dev im v (Some disk) s = scheduler_init (filesystem_init disk u)" for disk
    using t L s3(1) m(1) by (simp add: device_init_def Let_def u_def)
  moreover have "tables_ok u" "scr_ok u" "bit (cr0 u) 31" "master_mask u = 0xf8" "slave_mask u = 0xfe"
    using s3(2-4) by (simp_all add: u_def tables_ok_def scr_ok_def)
  moreover have "mem u r = mem s r" if "\<not> in_user_page r" "fst r \<notin> Local ` {0, 1, 2}" for r
    using that only_locals_at [OF m(2), of r] spec [OF s3(7), of r] by (auto simp: u_def)
  moreover have "paging_state.more u = paging_state.more (s\<lparr>idt := idt u, idt_loaded := True\<rparr>)" using s3(8) by (cases s; cases s3; simp add: u_def)
  ultimately show ?thesis by blast
qed

lemma device_init_result:
  assumes "reset_state disk s"
  shows "\<exists>s'. device_init dev im v (Some disk) s = Some s' \<and> booting 0 s' \<and> bootblock_ptr s' = disk \<and> idt_loaded s' \<and> bit (cr0 s') 31
    \<and> (\<forall>i < 16. irq_masked s' i \<longleftrightarrow> i \<notin> {0, 1, 2, 8}) \<and> length (screen_x s') = 3"
proof -
  note r = assms [unfolded reset_state_def]
  have d: "length (idt s) = 256" "master_mask s = 0xff" "slave_mask s = 0xff" "tables_ok s" "scr_ok s" using r by blast+
  obtain u where u: "device_init dev im v (Some disk) s = scheduler_init (filesystem_init disk u)" "tables_ok u" "scr_ok u" "bit (cr0 u) 31"
    "master_mask u = 0xf8" "slave_mask u = 0xfe" "\<forall>r. \<not> in_user_page r \<and> fst r \<notin> Local ` {0, 1, 2} \<longrightarrow> mem u r = mem s r"
    "paging_state.more u = paging_state.more (s\<lparr>idt := idt u, idt_loaded := True\<rparr>)"
    using devices_state [OF d, of dev im v] by blast
  have pf: "total_tasks u = total_tasks s" "pid_bitpattern u = pid_bitpattern s" "terminal_current_pid u = terminal_current_pid s"
    "priority_list_pid u = priority_list_pid s" "esp u = esp s" "newPCB_var u = newPCB_var s" "idt_loaded u"
    using u(8) by (cases s; cases u; simp)+
  have sf: "same_fs (mem s) disk (mem u)" unfolding same_fs_def
  proof (intro allI impI)
    fix x assume x: "in_fs (mem s) disk x"
    have "\<not> in_user_page x" using r x by blast
    moreover have "fst x = Global" using x by (simp add: in_fs_def in_region_def)
    ultimately show "mem u x = mem s x" using spec [OF u(7), of x] by auto
  qed
  have wf: "fs_wf (mem s) disk" using r by blast
  note w = same_fs_wf [OF wf sf]
  define s' where "s' = (filesystem_init disk u)\<lparr>schedule_started := 0, current_schedule := -1, active_terminal := 3, priority_list_pid := replicate 7 (-1)\<rparr>"
  have f: "mem s' = mem u" "bootblock_ptr s' = disk" "inode_start_addr s' = disk + 4096" "data_start_addr s' = data_addr (mem u) disk" "screen_x s' = screen_x u"
    "master_mask s' = 0xf8" "slave_mask s' = 0xfe"
    by (simp_all add: s'_def filesystem_init_def Let_def data_addr_def add.commute u(5,6))
  have "device_init dev im v (Some disk) s = Some s'"
    using scheduler_init_state [of "filesystem_init disk u"] r pf by (simp add: u(1) s'_def filesystem_init_def Let_def)
  moreover have "program_at (mem s') (bootblock_ptr s') shell_name i" if "program_at (mem s) disk shell_name i" for i
    using program_at_same(1) [OF wf sf that] f by simp
  moreover have "fs_ready s'" "image_safe s'" using r w f by (simp_all add: fs_ready_def image_safe_def)
  moreover have "current_PCB s' = 0x7FE000" using r pf by (simp add: current_PCB_def s'_def filesystem_init_def Let_def)
  moreover have "tables_ok s'" "proc_tables (s'\<lparr>active_terminal := 0\<rparr>)" "pid_bitpattern s' = replicate 7 0" "total_tasks s' = 1" "idt_loaded s'" "bit (cr0 s') 31"
    using r pf u(2,4) by (simp_all add: tables_ok_def proc_tables_def s'_def filesystem_init_def Let_def total_tasks_init_def pid_bitpattern_init_def numeral_eq_Suc)
  moreover have "irq_masked s' i \<longleftrightarrow> i \<notin> {0, 1, 2, 8}" if "i < 16" for i using boot_masks [OF _ _ that, of s'] f by simp
  moreover have "length (screen_x s') = 3" using u(3) f by (simp add: scr_ok_def)
  ultimately show ?thesis using r boot_stack f(2) by (auto simp: booting_def s'_def)
qed

lemma print_off_screen:
  assumes "c # cs = cbytes str" and "c \<noteq> 0" and "c \<noteq> 0x25" and "length (screen_x s) \<le> unat (active_terminal s)"
  shows "kprintf str vs s = None"
proof -
  have "put_bytes (mem s) (Local 2, 0) (cbytes str @ [0]) (Local 2, 0) = c"
    using put_bytes_padd [of 0 "cbytes str @ [0]" "mem s" "(Local 2, 0)"] by (simp flip: assms(1))
  then show ?thesis
    using assms(2-4) by (simp add: kprintf_def print_literal_def printf_def printf_from.simps putc.simps get_cursor_def arr_get_def)
qed

section \<open>Reading the boot information\<close>

text \<open>Printing keeps everything but the screen and the scratch blocks of \<open>printf\<close>.\<close>

definition prints_only :: "'a screen_state_scheme \<Rightarrow> 'a screen_state_scheme \<Rightarrow> bool" where
  "prints_only s s' \<longleftrightarrow> scr_ok s' \<and> only_locals {0, 2} (mem s) (mem s') \<and> screen_state.more s' = screen_state.more s \<and> active_terminal s' = active_terminal s
     \<and> master_mask s' = master_mask s \<and> slave_mask s' = slave_mask s \<and> iflag s' = iflag s"

lemma prints_only_refl: "scr_ok s \<Longrightarrow> prints_only s s"
  by (simp add: prints_only_def)

lemma prints_only_trans: "prints_only s t \<Longrightarrow> prints_only t u \<Longrightarrow> prints_only s u"
  using only_locals_trans [of "{0, 2}" "mem s" "mem t" "{0, 2}" "mem u"] by (simp add: prints_only_def)

lemma prints_only_ok: "prints_only s s' \<Longrightarrow> scr_ok s'" "prints_only s s' \<Longrightarrow> mbi_field (mem s') = mbi_field (mem s)"
proof -
  show "prints_only s s' \<Longrightarrow> scr_ok s'" by (simp add: prints_only_def)
  assume "prints_only s s'"
  then have "mem s' (Global, x) = mem s (Global, x)" for x using only_locals_at [of "{0, 2}" "mem s" "mem s'" "(Global, x)"] by (auto simp: prints_only_def)
  then show "mbi_field (mem s') = mbi_field (mem s)" by (intro ext) (simp add: mbi_field_def ld32_def padd_def)
qed

lemma kprintf_result:
  assumes "scr_ok s" and "render strs (cbytes str) vs = Some out" and "0 \<notin> set (cbytes str)" and "length str < 2 ^ 31"
    and "\<And>v str2. strs v = Some str2 \<Longrightarrow> cstr (mem s) (Global, v) str2"
  shows "\<exists>s'. kprintf str vs s = Some s' \<and> prints_only s s' \<and> shown s' = fold tty_emit out (shown s)"
proof -
  let ?m = "put_bytes (mem s) (Local 2, 0) (cbytes str @ [0])"
  let ?s = "s\<lparr>mem := ?m\<rparr>"
  have len: "length (cbytes str) = length str" by (simp add: cbytes_def)
  have l: "only_locals {2} (mem s) ?m" by (rule only_locals_put) simp
  have "scr_ok ?s" "shown ?s = shown s" using assms(1) by (simp_all add: scr_ok_def shown_def console_def cursor_pos_def)
  moreover have "cstr (mem ?s) (Local 2, 0) (cbytes str)" using assms(3,4) len by (simp add: cstr_put_bytes)
  moreover have "cstr (mem ?s) (Global, v) str2" if "strs v = Some str2" for v str2
    using assms(5) [OF that] only_locals_views(3) [OF l, of "(Global, v)"] by auto
  ultimately obtain s' where s': "printf (Local 2, 0) vs ?s = Some (s', int (length str))" "scr_ok s'" "shown s' = fold tty_emit out (shown s)" "print_frame ?s s'"
    using printf_result [of ?s "(Local 2, 0)" "cbytes str" strs vs out] assms(2,4) len by auto
  have "only_locals {0} ?m (mem s')" using s'(4) by (auto simp: print_frame_def only_locals_def in_region_def conv_buf_def)
  from only_locals_trans [OF l this] have "only_locals {0, 2} (mem s) (mem s')" by (simp add: insert_commute)
  then show ?thesis using s' by (auto simp: kprintf_def print_literal_def prints_only_def print_frame_def tty_frame_def)
qed

definition printable :: "string \<Rightarrow> u32 list \<Rightarrow> bool" where
  "printable str vs \<longleftrightarrow> render Map.empty (cbytes str) vs \<noteq> None \<and> 0 \<notin> set (cbytes str) \<and> length str < 2 ^ 31"

text \<open>The text a format without strings stands for, and a step that prints a text on the shown terminal.\<close>

definition rtext :: "string \<Rightarrow> u32 list \<Rightarrow> u8 list" where
  "rtext str vs = (case render Map.empty (cbytes str) vs of None \<Rightarrow> [] | Some t \<Rightarrow> t)"

definition printed :: "u8 list \<Rightarrow> 'a screen_state_scheme \<Rightarrow> 'a screen_state_scheme \<Rightarrow> bool" where
  "printed out s s' \<longleftrightarrow> prints_only s s' \<and> shown s' = fold tty_emit out (shown s)"

lemma printed_refl: "scr_ok s \<Longrightarrow> printed [] s s"
  by (simp add: printed_def prints_only_refl)

lemma printed_trans: "printed o1 s t \<Longrightarrow> printed o2 t u \<Longrightarrow> printed (o1 @ o2) s u"
  using prints_only_trans by (auto simp: printed_def)

lemma printed_ok:
  assumes "printed out s s'"
  shows "scr_ok s'" "mbi_field (mem s') = mbi_field (mem s)" "\<And>x. mem s' (Global, x) = mem s (Global, x)"
proof -
  have p: "prints_only s s'" using assms by (simp add: printed_def)
  show "scr_ok s'" "mbi_field (mem s') = mbi_field (mem s)" using prints_only_ok [OF p] .
  show "mem s' (Global, x) = mem s (Global, x)" for x using only_locals_at [of "{0, 2}" "mem s" "mem s'" "(Global, x)"] p by (auto simp: prints_only_def)
qed

lemma kprintf_ok: "printable str vs \<Longrightarrow> scr_ok s \<Longrightarrow> \<exists>s'. kprintf str vs s = Some s' \<and> printed (rtext str vs) s s'"
  using kprintf_result [of s Map.empty str vs] by (auto simp: printable_def printed_def rtext_def)

lemma boot_texts:
  "printable (''flags = 0x%#x'' @ [newline]) [x]" "printable (''mem_lower = %uKB, mem_upper = %uKB'' @ [newline]) [x, y]"
  "printable (''boot_device = 0x%#x'' @ [newline]) [x]" "printable (''Both bits 4 and 5 are set.'' @ [newline]) []"
  "printable (''elf_sec: num = %u, size = 0x%#x, addr = 0x%#x, shndx = 0x%#x'' @ [newline]) [x, y, z, w]"
  "printable (''mmap_addr = 0x%#x, mmap_length = 0x%x'' @ [newline]) [x, y]"
  "printable (''Module %d loaded at address: 0x%#x'' @ [newline]) [x, y]" "printable (''Module %d ends at address: 0x%#x'' @ [newline]) [x, y]"
  "printable (''First few bytes of module:'' @ [newline]) []" "printable ''0x%x '' [x]" "printable [newline] []"
  "printable (''    size = 0x%x, base_addr = 0x%#x%#x'' @ [newline] @ ''    type = 0x%x,  length    = 0x%#x%#x'' @ [newline]) [x, y, z, w, p, q]"
  unfolding printable_def cbytes_def by (simp_all add: conversion_text_def Let_def)

text \<open>One printed step of a sequence, and a step that is skipped when its test fails.\<close>

lemma kprintf_bind:
  assumes "printable str vs" and "scr_ok s" and "\<And>s'. printed (rtext str vs) s s' \<Longrightarrow> \<exists>s2. k s' = Some s2 \<and> printed out s' s2"
  shows "\<exists>s2. Option.bind (kprintf str vs s) k = Some s2 \<and> printed (rtext str vs @ out) s s2"
proof -
  obtain s' where s': "kprintf str vs s = Some s'" "printed (rtext str vs) s s'" using kprintf_ok [OF assms(1,2)] by blast
  then show ?thesis using assms(3) [OF s'(2)] printed_trans [OF s'(2)] by auto
qed

lemma print_when:
  assumes "printed o1 r s" and "b \<Longrightarrow> \<exists>s'. p = Some s' \<and> printed o2 s s'"
  shows "\<exists>s'. (if b then p else Some s) = Some s' \<and> printed (o1 @ (if b then o2 else [])) r s'"
  using assms printed_trans [OF assms(1)] by (cases b) auto

text \<open>The report on a module, on all modules from the given one on, and on an entry of the memory map.\<close>

definition module_bytes_text :: "mem \<Rightarrow> u32 \<Rightarrow> nat list \<Rightarrow> u8 list" where
  "module_bytes_text m start is = concat (map (\<lambda>i. rtext ''0x%x '' [scast (m (Global, start + of_nat i))]) is)"

definition module_text :: "mem \<Rightarrow> u32 \<Rightarrow> u32 \<Rightarrow> u8 list" where
  "module_text m n md = rtext (''Module %d loaded at address: 0x%#x'' @ [newline]) [n, mbi_field m md 0]
     @ rtext (''Module %d ends at address: 0x%#x'' @ [newline]) [n, mbi_field m md 4]
     @ rtext (''First few bytes of module:'' @ [newline]) [] @ module_bytes_text m (mbi_field m md 0) [0..<16] @ rtext [newline] []"

primrec modules_text :: "mem \<Rightarrow> u32 \<Rightarrow> u32 \<Rightarrow> nat \<Rightarrow> u8 list" where
  "modules_text m md n 0 = []"
| "modules_text m md n (Suc k) = module_text m n md @ modules_text m (md + 16) (n + 1) k"

definition mmap_entry_text :: "mem \<Rightarrow> u32 \<Rightarrow> u8 list" where
  "mmap_entry_text m p = (let f = mbi_field m p in
     rtext (''    size = 0x%x, base_addr = 0x%#x%#x'' @ [newline] @ ''    type = 0x%x,  length    = 0x%#x%#x'' @ [newline]) [f 0, f 8, f 4, f 20, f 16, f 12])"

lemma report_same:
  assumes "printed out s t"
  shows "module_bytes_text (mem t) = module_bytes_text (mem s)" "module_text (mem t) = module_text (mem s)" "modules_text (mem t) md n k = modules_text (mem s) md n k"
    "mmap_entry_text (mem t) = mmap_entry_text (mem s)"
proof -
  note f = printed_ok(2,3) [OF assms]
  show b: "module_bytes_text (mem t) = module_bytes_text (mem s)" by (intro ext) (simp add: module_bytes_text_def f)
  show m: "module_text (mem t) = module_text (mem s)" by (intro ext) (simp add: module_text_def f b)
  show "modules_text (mem t) md n k = modules_text (mem s) md n k" by (induction k arbitrary: md n) (simp_all add: m)
  show "mmap_entry_text (mem t) = mmap_entry_text (mem s)" by (intro ext) (simp add: mmap_entry_text_def f)
qed

lemma module_bytes_shown:
  "scr_ok u \<Longrightarrow> \<exists>t. foldo (\<lambda>i s. kprintf ''0x%x '' [scast (mem s (Global, mbi_field (mem s) md 0 + of_nat i))] s) js u = Some t
    \<and> printed (module_bytes_text (mem u) (mbi_field (mem u) md 0) js) u t"
proof (induction js arbitrary: u)
  case (Cons j js)
  have e: "module_bytes_text (mem u) (mbi_field (mem u) md 0) (j # js) =
      rtext ''0x%x '' [scast (mem u (Global, mbi_field (mem u) md 0 + of_nat j))] @ module_bytes_text (mem u) (mbi_field (mem u) md 0) js"
    by (simp add: module_bytes_text_def)
  show ?case unfolding foldo.simps e
  proof (rule kprintf_bind [OF boot_texts(10) Cons.prems])
    fix t assume t: "printed (rtext ''0x%x '' [scast (mem u (Global, mbi_field (mem u) md 0 + of_nat j))]) u t"
    show "\<exists>s2. foldo (\<lambda>i s. kprintf ''0x%x '' [scast (mem s (Global, mbi_field (mem s) md 0 + of_nat i))] s) js t = Some s2
        \<and> printed (module_bytes_text (mem u) (mbi_field (mem u) md 0) js) t s2"
      using Cons.IH [OF printed_ok(1) [OF t]] by (simp add: report_same [OF t] printed_ok(2) [OF t])
  qed
qed (simp add: printed_refl module_bytes_text_def)

lemma print_module_ok:
  assumes "scr_ok s"
  shows "\<exists>s'. print_module n md s = Some s' \<and> printed (module_text (mem s) n md) s s'"
proof -
  let ?f = "mbi_field (mem s) md"
  have last: "\<exists>s2. (do { s \<leftarrow> foldo (\<lambda>i s. kprintf ''0x%x '' [scast (mem s (Global, mbi_field (mem s) md 0 + of_nat i))] s) [0..<16] u; kprintf [newline] [] s }) = Some s2
      \<and> printed (module_bytes_text (mem u) (mbi_field (mem u) md 0) [0..<16] @ rtext [newline] []) u s2" if u: "scr_ok u" for u
  proof -
    obtain t where t: "foldo (\<lambda>i s. kprintf ''0x%x '' [scast (mem s (Global, mbi_field (mem s) md 0 + of_nat i))] s) [0..<16] u = Some t"
      "printed (module_bytes_text (mem u) (mbi_field (mem u) md 0) [0..<16]) u t" using module_bytes_shown [OF u] by blast
    then show ?thesis using kprintf_ok [OF boot_texts(11) printed_ok(1) [OF t(2)]] printed_trans [OF t(2)] by auto
  qed
  show ?thesis unfolding print_module_def module_text_def
  proof (intro kprintf_bind [OF boot_texts(7) assms])
    fix t1 assume t1: "printed (rtext (''Module %d loaded at address: 0x%#x'' @ [newline]) [n, ?f 0]) s t1"
    show "\<exists>s2. (do { s \<leftarrow> kprintf (''Module %d ends at address: 0x%#x'' @ [newline]) [n, mbi_field (mem t1) md 4] t1; s \<leftarrow> kprintf (''First few bytes of module:'' @ [newline]) [] s;
        s \<leftarrow> foldo (\<lambda>i s. kprintf ''0x%x '' [scast (mem s (Global, mbi_field (mem s) md 0 + of_nat i))] s) [0..<16] s; kprintf [newline] [] s }) = Some s2
      \<and> printed (rtext (''Module %d ends at address: 0x%#x'' @ [newline]) [n, ?f 4] @ rtext (''First few bytes of module:'' @ [newline]) []
          @ module_bytes_text (mem s) (?f 0) [0..<16] @ rtext [newline] []) t1 s2"
      unfolding printed_ok(2) [OF t1]
    proof (intro kprintf_bind [OF boot_texts(8) printed_ok(1) [OF t1]] kprintf_bind [OF boot_texts(9)])
      fix t2 assume t2: "printed (rtext (''Module %d ends at address: 0x%#x'' @ [newline]) [n, ?f 4]) t1 t2"
      show "scr_ok t2" by (rule printed_ok(1) [OF t2])
      fix t3 assume t3: "printed (rtext (''First few bytes of module:'' @ [newline]) []) t2 t3"
      show "\<exists>s2. (do { s \<leftarrow> foldo (\<lambda>i s. kprintf ''0x%x '' [scast (mem s (Global, mbi_field (mem s) md 0 + of_nat i))] s) [0..<16] t3; kprintf [newline] [] s }) = Some s2
        \<and> printed (module_bytes_text (mem s) (?f 0) [0..<16] @ rtext [newline] []) t3 s2"
        using last [OF printed_ok(1) [OF t3]] by (simp only: report_same(1) [OF t3] report_same(1) [OF t2] report_same(1) [OF t1] printed_ok(2) [OF t3] printed_ok(2) [OF t2] printed_ok(2) [OF t1])
    qed
  qed
qed

lemma print_modules_ok:
  "scr_ok s \<Longrightarrow> unat n + k = unat (mbi_field (mem s) a 20) \<Longrightarrow> \<exists>s'. print_modules a md n s = Some s' \<and> printed (modules_text (mem s) md n k) s s'"
proof (induction k arbitrary: md n s)
  case 0
  then show ?case by (auto simp: print_modules.simps word_less_nat_alt printed_refl)
next
  case (Suc k)
  have lt: "n < mbi_field (mem s) a 20" using Suc.prems(2) by (simp add: word_less_nat_alt)
  then have n: "unat (n + 1) = Suc (unat n)" using Suc.prems(2) unat_u32_less [of "mbi_field (mem s) a 20"] by (simp add: unat_word_ariths)
  obtain t where t: "print_module n md s = Some t" "printed (module_text (mem s) n md) s t" using print_module_ok [OF Suc.prems(1)] by blast
  have "unat (n + 1) + k = unat (mbi_field (mem t) a 20)" using Suc.prems(2) n printed_ok(2) [OF t(2)] by simp
  from Suc.IH [OF printed_ok(1) [OF t(2)] this, of "md + 16"] obtain s' where "print_modules a (md + 16) (n + 1) t = Some s'" "printed (modules_text (mem s) (md + 16) (n + 1) k) t s'"
    unfolding report_same(3) [OF t(2)] by blast
  then show ?case using t lt printed_trans [OF t(2)] by (subst print_modules.simps) simp
qed

text \<open>
  The memory map as the Multiboot format lays it out: entries one after the other from \<open>p\<close> on, each preceded by its size, which does
  not count the size field itself. \<open>mmap_entries\<close> are their addresses and \<open>mmap_bytes\<close> is the space they take.
\<close>

primrec mmap_laid_out :: "mem \<Rightarrow> u32 \<Rightarrow> u32 list \<Rightarrow> bool" where
  "mmap_laid_out m p [] \<longleftrightarrow> True"
| "mmap_laid_out m p (z # zs) \<longleftrightarrow> mbi_field m p 0 = z \<and> mmap_laid_out m (p + z + 4) zs"

primrec mmap_entries :: "u32 \<Rightarrow> u32 list \<Rightarrow> u32 list" where
  "mmap_entries p [] = []"
| "mmap_entries p (z # zs) = p # mmap_entries (p + z + 4) zs"

definition mmap_bytes :: "u32 list \<Rightarrow> nat" where
  "mmap_bytes zs = sum_list (map (\<lambda>z. unat z + 4) zs)"

lemma mmap_laid_out_same: "mbi_field m' = mbi_field m \<Longrightarrow> mmap_laid_out m' p zs = mmap_laid_out m p zs"
  by (induction zs arbitrary: p) simp_all

lemma print_mmap_ok:
  "scr_ok s \<Longrightarrow> mmap_laid_out (mem s) p zs \<Longrightarrow> unat p + mmap_bytes zs = unat (mbi_field (mem s) a 48 + mbi_field (mem s) a 44) \<Longrightarrow>
   \<exists>s'. print_mmap a p s = Some s' \<and> printed (concat (map (mmap_entry_text (mem s)) (mmap_entries p zs))) s s'"
proof (induction zs arbitrary: p s)
  case Nil
  then show ?case by (auto simp: print_mmap.simps word_less_nat_alt mmap_bytes_def printed_refl)
next
  case (Cons z zs)
  let ?lim = "mbi_field (mem s) a 48 + mbi_field (mem s) a 44" and ?f = "mbi_field (mem s) p"
  have z: "?f 0 = z" "mmap_laid_out (mem s) (p + z + 4) zs" using Cons.prems(2) by simp_all
  have sum: "unat p + (unat z + 4) + mmap_bytes zs = unat ?lim" using Cons.prems(3) by (simp add: mmap_bytes_def)
  then have lt: "p < ?lim" by (simp add: word_less_nat_alt)
  have "unat p + (unat z + 4) < 2 ^ 32" using sum unat_u32_less [of ?lim] by simp
  then have "unat (p + z + 4) = unat p + (unat z + 4)" by (simp add: unat_word_ariths)
  then have sum': "unat (p + z + 4) + mmap_bytes zs = unat ?lim" using sum by simp
  have e: "mmap_entry_text (mem s) p =
    rtext (''    size = 0x%x, base_addr = 0x%#x%#x'' @ [newline] @ ''    type = 0x%x,  length    = 0x%#x%#x'' @ [newline]) [?f 0, ?f 8, ?f 4, ?f 20, ?f 16, ?f 12]"
    by (simp add: mmap_entry_text_def Let_def)
  have next_entry: "\<exists>s2. print_mmap a (p + mbi_field (mem t) p 0 + 4) t = Some s2 \<and> printed (concat (map (mmap_entry_text (mem s)) (mmap_entries (p + z + 4) zs))) t s2"
    if t: "printed out s t" for t out
    using Cons.IH [of t "p + z + 4"] printed_ok(1) [OF t] z sum' mmap_laid_out_same [OF printed_ok(2) [OF t]] report_same(4) [OF t] printed_ok(2) [OF t] by simp
  show ?case unfolding print_mmap.simps [of a p s] Let_def if_P [OF lt] mmap_entries.simps list.map concat.simps e
    by (rule kprintf_bind [OF boot_texts(12) Cons.prems(1)]) (rule next_entry)
qed

text \<open>What the loader promises: a command line that is a string \<open>cl\<close>, and a memory map with entries of the sizes \<open>zs\<close> that fills its space.\<close>

definition boot_info_ok :: "mem \<Rightarrow> u32 \<Rightarrow> u8 list \<Rightarrow> u32 list \<Rightarrow> bool" where
  "boot_info_ok m a cl zs \<longleftrightarrow> (CHECK_FLAG (mbi_field m a 0) 2 \<longrightarrow> cstr m (Global, mbi_field m a 16) cl)
     \<and> (CHECK_FLAG (mbi_field m a 0) 6 \<longrightarrow> mmap_laid_out m (mbi_field m a 48) zs \<and> unat (mbi_field m a 44) = mmap_bytes zs
         \<and> unat (mbi_field m a 48) + unat (mbi_field m a 44) < 2 ^ 32)"

definition boot_text :: "mem \<Rightarrow> u32 \<Rightarrow> u8 list \<Rightarrow> u32 list \<Rightarrow> u8 list" where
  "boot_text m a cl zs = (let f = mbi_field m a; fl = CHECK_FLAG (f 0) in
     rtext (''flags = 0x%#x'' @ [newline]) [f 0]
     @ (if fl 0 then rtext (''mem_lower = %uKB, mem_upper = %uKB'' @ [newline]) [f 4, f 8] else [])
     @ (if fl 1 then rtext (''boot_device = 0x%#x'' @ [newline]) [f 12] else [])
     @ (if fl 2 then cbytes ''cmdline = '' @ cl @ [0x0A] else [])
     @ (if fl 3 then modules_text m (f 24) 0 (unat (f 20)) else [])
     @ (if fl 4 \<and> fl 5 then rtext (''Both bits 4 and 5 are set.'' @ [newline]) []
        else (if fl 5 then rtext (''elf_sec: num = %u, size = 0x%#x, addr = 0x%#x, shndx = 0x%#x'' @ [newline]) [f 28, f 32, f 36, f 40] else [])
          @ (if fl 6 then rtext (''mmap_addr = 0x%#x, mmap_length = 0x%x'' @ [newline]) [f 48, f 44] @ concat (map (mmap_entry_text m) (mmap_entries (f 48) zs)) else [])))"

lemma print_cmdline:
  assumes "scr_ok s" and "cstr (mem s) (Global, v) str"
  shows "\<exists>s'. kprintf (''cmdline = %s'' @ [newline]) [v] s = Some s' \<and> printed (cbytes ''cmdline = '' @ str @ [0x0A]) s s'"
proof -
  let ?f = "\<lambda>x. if x = v then Some str else None"
  have "render ?f (cbytes (''cmdline = %s'' @ [newline])) [v] = Some (cbytes ''cmdline = '' @ str @ [0x0A])"
    "0 \<notin> set (cbytes (''cmdline = %s'' @ [newline]))" "length (''cmdline = %s'' @ [newline]) < 2 ^ 31"
    by (simp_all add: cbytes_def conversion_text_def)
  moreover have "cstr (mem s) (Global, x) str2" if "?f x = Some str2" for x str2 using that assms(2) by (simp split: if_splits)
  ultimately show ?thesis using kprintf_result [OF assms(1), of ?f] unfolding printed_def by blast
qed

text \<open>The memory map, when it is announced.\<close>

lemma print_map_part:
  assumes "scr_ok s" and "mmap_laid_out (mem s) (mbi_field (mem s) a 48) zs" and "unat (mbi_field (mem s) a 44) = mmap_bytes zs"
    and "unat (mbi_field (mem s) a 48) + unat (mbi_field (mem s) a 44) < 2 ^ 32"
  shows "\<exists>s'. (do { t \<leftarrow> kprintf (''mmap_addr = 0x%#x, mmap_length = 0x%x'' @ [newline]) [mbi_field (mem s) a 48, mbi_field (mem s) a 44] s; print_mmap a (mbi_field (mem t) a 48) t }) = Some s'
    \<and> printed (rtext (''mmap_addr = 0x%#x, mmap_length = 0x%x'' @ [newline]) [mbi_field (mem s) a 48, mbi_field (mem s) a 44]
        @ concat (map (mmap_entry_text (mem s)) (mmap_entries (mbi_field (mem s) a 48) zs))) s s'"
proof (rule kprintf_bind [OF boot_texts(6) assms(1)])
  fix t assume t: "printed (rtext (''mmap_addr = 0x%#x, mmap_length = 0x%x'' @ [newline]) [mbi_field (mem s) a 48, mbi_field (mem s) a 44]) s t"
  have "unat (mbi_field (mem s) a 48) + mmap_bytes zs = unat (mbi_field (mem s) a 48 + mbi_field (mem s) a 44)" using assms(3,4) by (simp add: unat_word_ariths)
  then show "\<exists>s2. print_mmap a (mbi_field (mem t) a 48) t = Some s2 \<and> printed (concat (map (mmap_entry_text (mem s)) (mmap_entries (mbi_field (mem s) a 48) zs))) t s2"
    using print_mmap_ok [OF printed_ok(1) [OF t], of "mbi_field (mem s) a 48" zs a] assms(2) mmap_laid_out_same [OF printed_ok(2) [OF t]]
    by (simp add: report_same(4) [OF t] printed_ok(2) [OF t])
qed

text \<open>
  C5: reading the boot information ends, and prints what the loader left. Whatever flags are set, if the command line is a string and the memory map
  is laid out as the Multiboot format says, the shown terminal shows exactly the announced parts of the information, with every module and every entry of the
  memory map; nothing but the screen is touched; the start of the first module is taken as the file
  system exactly when there are modules, and the kernel gives up exactly when both symbol table formats are announced.
\<close>

theorem boot_info_read:
  assumes "scr_ok s" and "boot_info_ok (mem s) a cl zs"
  shows "\<exists>s'. print_boot_info a s = Some (s',
      (if CHECK_FLAG (mbi_field (mem s) a 0) 3 then Some (mbi_field (mem s) (mbi_field (mem s) a 24) 0) else None),
      \<not> (CHECK_FLAG (mbi_field (mem s) a 0) 4 \<and> CHECK_FLAG (mbi_field (mem s) a 0) 5)) \<and> prints_only s s'
    \<and> shown s' = fold tty_emit (boot_text (mem s) a cl zs) (shown s)"
proof -
  let ?fl = "CHECK_FLAG (mbi_field (mem s) a 0)" and ?f = "mbi_field (mem s) a"
  obtain s1 o1 where s1: "kprintf (''flags = 0x%#x'' @ [newline]) [?f 0] s = Some s1" "printed o1 s s1" and o1: "o1 = rtext (''flags = 0x%#x'' @ [newline]) [?f 0]"
    using kprintf_ok [OF boot_texts(1) assms(1)] by blast
  obtain s2 o2 where s2: "(if ?fl 0 then kprintf (''mem_lower = %uKB, mem_upper = %uKB'' @ [newline]) [?f 4, ?f 8] s1 else Some s1) = Some s2" "printed o2 s s2"
    and o2: "o2 = o1 @ (if ?fl 0 then rtext (''mem_lower = %uKB, mem_upper = %uKB'' @ [newline]) [?f 4, ?f 8] else [])"
    using print_when [OF s1(2) kprintf_ok [OF boot_texts(2) printed_ok(1) [OF s1(2)]]] by blast
  obtain s3 o3 where s3: "(if ?fl 1 then kprintf (''boot_device = 0x%#x'' @ [newline]) [?f 12] s2 else Some s2) = Some s3" "printed o3 s s3"
    and o3: "o3 = o2 @ (if ?fl 1 then rtext (''boot_device = 0x%#x'' @ [newline]) [?f 12] else [])"
    using print_when [OF s2(2) kprintf_ok [OF boot_texts(3) printed_ok(1) [OF s2(2)]]] by blast
  have "cstr (mem s3) (Global, ?f 16) cl" if "?fl 2"
    using assms(2) that only_locals_views(3) [of "{0, 2}" "mem s" "mem s3" "(Global, ?f 16)"] s3(2) by (auto simp: boot_info_ok_def printed_def prints_only_def)
  from print_when [OF s3(2) print_cmdline [OF printed_ok(1) [OF s3(2)] this]] obtain s4 o4
    where s4: "(if ?fl 2 then kprintf (''cmdline = %s'' @ [newline]) [?f 16] s3 else Some s3) = Some s4" "printed o4 s s4"
      and o4: "o4 = o3 @ (if ?fl 2 then cbytes ''cmdline = '' @ cl @ [0x0A] else [])" by blast
  have "\<exists>t. print_modules a (?f 24) 0 s4 = Some t \<and> printed (modules_text (mem s) (?f 24) 0 (unat (?f 20))) s4 t"
    using print_modules_ok [OF printed_ok(1) [OF s4(2)], of 0 "unat (?f 20)" a "?f 24"] printed_ok(2) [OF s4(2)] by (simp add: report_same(3) [OF s4(2)])
  from print_when [OF s4(2) this, of "?fl 3"] obtain s5 o5 where s5: "(if ?fl 3 then print_modules a (?f 24) 0 s4 else Some s4) = Some s5" "printed o5 s s5"
    and o5: "o5 = o4 @ (if ?fl 3 then modules_text (mem s) (?f 24) 0 (unat (?f 20)) else [])" by blast
  note fs = printed_ok(2) [OF s1(2)] printed_ok(2) [OF s2(2)] printed_ok(2) [OF s3(2)] printed_ok(2) [OF s4(2)] printed_ok(2) [OF s5(2)]
  have "(if ?fl 3 then do { s \<leftarrow> print_modules a (?f 24) 0 s4; Some (s, Some (mbi_field (mem s4) (?f 24) 0)) } else Some (s4, None))
      = Some (s5, if ?fl 3 then Some (mbi_field (mem s) (?f 24) 0) else None)"
    using s5(1) by (cases "?fl 3") (simp_all add: fs)
  note steps = s1(1) s2(1) s3(1) s4(1) this [unfolded fs]
  note texts = boot_text_def Let_def o5 o4 o3 o2 o1 append_assoc
  show ?thesis
  proof (cases "?fl 4 \<and> ?fl 5")
    case True
    obtain s6 where s6: "kprintf (''Both bits 4 and 5 are set.'' @ [newline]) [] s5 = Some s6" "printed (o5 @ rtext (''Both bits 4 and 5 are set.'' @ [newline]) []) s s6"
      using kprintf_ok [OF boot_texts(4) printed_ok(1) [OF s5(2)]] printed_trans [OF s5(2)] by blast
    then have "printed (boot_text (mem s) a cl zs) s s6" using True unfolding texts by simp
    then show ?thesis using s6(1) unfolding print_boot_info_def printed_def
      by (simp only: Let_def steps fs True simp_thms if_True Option.bind.bind_lunit prod.case) blast
  next
    case False
    obtain s6 o6 where s6: "(if ?fl 5 then kprintf (''elf_sec: num = %u, size = 0x%#x, addr = 0x%#x, shndx = 0x%#x'' @ [newline]) [?f 28, ?f 32, ?f 36, ?f 40] s5 else Some s5) = Some s6"
      "printed o6 s s6" and o6: "o6 = o5 @ (if ?fl 5 then rtext (''elf_sec: num = %u, size = 0x%#x, addr = 0x%#x, shndx = 0x%#x'' @ [newline]) [?f 28, ?f 32, ?f 36, ?f 40] else [])"
      using print_when [OF s5(2) kprintf_ok [OF boot_texts(5) printed_ok(1) [OF s5(2)]]] by blast
    note f6 = printed_ok(2) [OF s6(2)]
    have "\<exists>t. (do { t \<leftarrow> kprintf (''mmap_addr = 0x%#x, mmap_length = 0x%x'' @ [newline]) [?f 48, ?f 44] s6; print_mmap a (mbi_field (mem t) a 48) t }) = Some t
        \<and> printed (rtext (''mmap_addr = 0x%#x, mmap_length = 0x%x'' @ [newline]) [?f 48, ?f 44] @ concat (map (mmap_entry_text (mem s)) (mmap_entries (?f 48) zs))) s6 t"
      if "?fl 6"
    proof -
      have "mmap_laid_out (mem s) (?f 48) zs" "unat (?f 44) = mmap_bytes zs" "unat (?f 48) + unat (?f 44) < 2 ^ 32" using assms(2) that by (simp_all add: boot_info_ok_def)
      then show ?thesis using print_map_part [OF printed_ok(1) [OF s6(2)], of a zs] unfolding f6 mmap_laid_out_same [OF f6] report_same(4) [OF s6(2)] by blast
    qed
    from print_when [OF s6(2) this]
    obtain s7 where s7: "(if ?fl 6 then do { t \<leftarrow> kprintf (''mmap_addr = 0x%#x, mmap_length = 0x%x'' @ [newline]) [?f 48, ?f 44] s6; print_mmap a (mbi_field (mem t) a 48) t }
      else Some s6) = Some s7" "printed (o6 @ (if ?fl 6 then rtext (''mmap_addr = 0x%#x, mmap_length = 0x%x'' @ [newline]) [?f 48, ?f 44]
        @ concat (map (mmap_entry_text (mem s)) (mmap_entries (?f 48) zs)) else [])) s s7" by blast
    have "printed (boot_text (mem s) a cl zs) s s7" using s7(2) False unfolding o6 texts by (simp only: if_False append_assoc)
    then show ?thesis unfolding print_boot_info_def printed_def
      by (simp only: Let_def steps s6(1) s7(1) fs f6 False simp_thms if_False Option.bind.bind_lunit prod.case) blast
  qed
qed

text \<open>A loader that announces memory sizes, boot device, command line, one module and a memory map of two entries.\<close>

definition boot_mem :: mem where
  "boot_mem = fold (\<lambda>(x, v) m. st32 m (Global, x) v)
     [(0x9000, 0x4F), (0x9004, 639), (0x9008, 0x1F800), (0x900C, 0x80000000), (0x9010, 0x9100), (0x9014, 1), (0x9018, 0x9040), (0x902C, 48), (0x9030, 0x9200),
      (0x9040, 0x400000), (0x9044, 0x409000), (0x9100, 0x6E72656B), (0x9104, 0x6C65), (0x9200, 20), (0x9214, 1), (0x9218, 20), (0x922C, 2)] shell_image"

lemma boot_mem_fields:
  "mbi_field boot_mem 0x9000 0 = 0x4F" "mbi_field boot_mem 0x9000 16 = 0x9100" "mbi_field boot_mem 0x9000 20 = 1" "mbi_field boot_mem 0x9000 24 = 0x9040" "mbi_field boot_mem 0x9040 0 = 0x400000"
  "mbi_field boot_mem 0x9000 44 = 48" "mbi_field boot_mem 0x9000 48 = 0x9200" "mbi_field boot_mem 0x9200 0 = 20" "mbi_field boot_mem 0x9218 0 = 20"
  by (simp_all add: mbi_field_def boot_mem_def ld32_def st32_def padd_def)

lemma boot_mem_cmdline: "cstr boot_mem (Global, 0x9100) (cbytes ''kernel'')"
proof -
  have "cbytes ''kernel'' = [0x6B, 0x65, 0x72, 0x6E, 0x65, 0x6C]" by (simp add: cbytes_def)
  moreover have "[0..<6] = [0, 1, 2, 3, 4, 5 :: nat]" by (simp add: upt_conv_Cons)
  ultimately show ?thesis by (simp add: cstr_def bytes_at_def boot_mem_def st32_def padd_def)
qed

theorem boot_info_read_witness:
  "\<exists>s'. print_boot_info 0x9000 (boot_demo\<lparr>active_terminal := 0, mem := boot_mem\<rparr>) = Some (s', Some 0x400000, True)
    \<and> shown s' = fold tty_emit (boot_text boot_mem 0x9000 (cbytes ''kernel'') [20, 20]) (shown (boot_demo\<lparr>active_terminal := 0, mem := boot_mem\<rparr>))"
proof -
  note f = boot_mem_fields
  have "scr_ok proc_demo" using proc_demo_simps(10) by (simp add: kbd_ok_def)
  then have "scr_ok (boot_demo\<lparr>active_terminal := 0, mem := boot_mem\<rparr>)" by (simp add: boot_demo_def scr_ok_def)
  moreover have "boot_info_ok boot_mem 0x9000 (cbytes ''kernel'') [20, 20]" using boot_mem_cmdline by (simp add: boot_info_ok_def f mmap_bytes_def)
  ultimately show ?thesis using boot_info_read [of "boot_demo\<lparr>active_terminal := 0, mem := boot_mem\<rparr>" "0x9000" "cbytes ''kernel''" "[20, 20]"] by (auto simp: f CHECK_FLAG_def)
qed

section \<open>Starting up\<close>

text \<open>A machine as a boot loader leaves it, with a disk that holds a shell.\<close>

definition empty_segment :: seg_desc_t where
  "empty_segment = \<lparr>seg_lim_15_00 = 0, base_15_00 = 0, base_23_16 = 0, seg_type = 0, seg_sys = 0, seg_dpl = 0, seg_present = 0, seg_lim_19_16 = 0,
     seg_avail = 0, seg_reserved = 0, seg_opsize = 0, seg_granularity = 0, base_31_24 = 0\<rparr>"

definition reset_demo :: kernel_state where
  "reset_demo = idt_state.extend
     (proc_state.extend (boot_demo\<lparr>active_terminal := 0, master_mask := 0xff, slave_mask := 0xff\<rparr>) (idt_state.fields (replicate 256 empty_gate) False))
     (kernel_state.fields 0 empty_segment empty_segment 0 0 0)"

definition image_demo :: image where
  "image_demo = \<lparr>tables = \<lparr>pageDir_addr = 0x407000, pageTable_addr = 0x408000, pageTableUserVideo_addr = 0x409000\<rparr>, handlers = (\<lambda>h. 0x400123), ldt_addr = 0x405000, ldt_size = 39, tss_addr = 0x405100, tss_size = 104\<rparr>"

theorem load_segments_correct_witness: "desc_base (tss_desc_ptr (load_segments image_demo empty_segment reset_demo)) = 0x405100"
proof -
  have "ldt_size image_demo < 2 ^ 20" "tss_size image_demo < 2 ^ 20" "tss_addr image_demo = 0x405100" by (simp_all add: image_demo_def)
  then show ?thesis using load_segments_correct [of image_demo empty_segment reset_demo] by (simp add: Let_def)
qed

lemma reset_demo_state: "reset_state 0x400000 reset_demo"
proof -
  have f: "mem reset_demo = shell_image" "idt reset_demo = replicate 256 empty_gate" "master_mask reset_demo = 0xff" "slave_mask reset_demo = 0xff"
    by (simp_all add: reset_demo_def boot_demo_def idt_state.defs proc_state.defs kernel_state.defs)
  have t: "tables_ok reset_demo" using proc_demo_exec(3) by (simp add: reset_demo_def boot_demo_def idt_state.defs proc_state.defs kernel_state.defs tables_ok_def)
  have "scr_ok proc_demo" using proc_demo_simps(10) by (simp add: kbd_ok_def)
  then have s: "scr_ok reset_demo" by (simp add: reset_demo_def boot_demo_def idt_state.defs proc_state.defs kernel_state.defs scr_ok_def)
  have p: "length (fileArray (newPCB_var reset_demo)) = 8" "length (args (newPCB_var reset_demo)) = 128" "length (terminal_current_pid reset_demo) = 3"
    "length (priority_list_pid reset_demo) = 7" "pid_bitpattern reset_demo = pid_bitpattern_init" "total_tasks reset_demo = total_tasks_init" "current_PCB reset_demo = 0x7FE000"
    using proc_demo_exec(4)
    by (simp_all add: reset_demo_def boot_demo_def idt_state.defs proc_state.defs kernel_state.defs proc_tables_def current_PCB_def pid_bitpattern_init_def numeral_eq_Suc)
  have b: "fs_ready boot_demo" "image_safe boot_demo" using boot_demo_booting by (simp_all add: booting_def)
  have "mem boot_demo = shell_image" "bootblock_ptr boot_demo = 0x400000" by (simp_all add: boot_demo_def proc_demo_fs)
  with b have "fs_wf shell_image 0x400000" "\<forall>r. in_fs shell_image 0x400000 r \<longrightarrow> \<not> in_user_page r" by (simp_all add: fs_ready_def image_safe_def)
  then show ?thesis using t s p shell_program by (auto simp: reset_state_def f)
qed

text \<open>
  C4: the initialisation in \<open>entry\<close> succeeds on a machine as the boot loader leaves it, and reaches the state
  from which the first timer ticks start the shells: descriptor table loaded, paging on, exactly the
  timer, keyboard, cascade and clock lines unmasked, the file system found at the module's address, the
  run queue empty and scheduling not yet started.
\<close>

theorem device_init_boots:
  assumes "reset_state disk s"
  shows "\<exists>s'. device_init dev im v (Some disk) s = Some s' \<and> booting 0 s' \<and> bootblock_ptr s' = disk \<and> idt_loaded s' \<and> bit (cr0 s') 31
    \<and> (\<forall>i < 16. irq_masked s' i \<longleftrightarrow> i \<notin> {0, 1, 2, 8})"
  using device_init_result [OF assms] by blast

theorem device_init_boots_witness:
  "\<exists>s'. device_init (\<lambda>_ _. 0) image_demo empty_gate (Some 0x400000) reset_demo = Some s' \<and> booting 0 s' \<and> \<not> irq_masked s' 0 \<and> irq_masked s' 3"
  using device_init_boots [OF reset_demo_state, of "\<lambda>_ _. 0" image_demo empty_gate] by fastforce

text \<open>
  C6: the messages \<open>entry\<close> prints after the initialisation go to a terminal that does not exist: \<open>scheduler_init\<close> has
  set \<open>active_terminal\<close> to 3, and the first character reads the cursor of terminal 3 from arrays of three.
\<close>

theorem entry_prints_off_screen:
  assumes "reset_state disk s"
  shows "\<exists>s'. device_init dev im v (Some disk) s = Some s' \<and> kprintf (''Enabling Interrupts'' @ [newline]) [] s' = None"
proof -
  obtain s' where "device_init dev im v (Some disk) s = Some s'" "booting 0 s'" "length (screen_x s') = 3" using device_init_result [OF assms] by blast
  moreover have "of_char CHR ''E'' # cbytes (''nabling Interrupts'' @ [newline]) = cbytes (''Enabling Interrupts'' @ [newline])" by (simp add: cbytes_def)
  ultimately show ?thesis using print_off_screen [of "of_char CHR ''E''" _ _ s' "[]"] by (force simp: booting_def)
qed

theorem entry_prints_off_screen_witness:
  "\<exists>s'. device_init (\<lambda>_ _. 0) image_demo empty_gate (Some 0x400000) reset_demo = Some s' \<and> kprintf (''Enabling Interrupts'' @ [newline]) [] s' = None"
  by (rule entry_prints_off_screen [OF reset_demo_state])

text \<open>
  A boot loader that is not compliant is refused: with a wrong magic number \<open>entry\<close> prints the number on the
  cleared screen and returns without initialising anything.
\<close>

theorem entry_rejects_magic:
  assumes "scr_ok s" and "magic \<noteq> 0x2BADB002"
  shows "\<exists>s' t. entry dev im v u magic a s = Some (s', False) \<and> clear 2 (s\<lparr>process_request := 0\<rparr>) = Some t \<and> prints_only t s'
    \<and> shown s' = fold tty_emit (cbytes ''Invalid magic number: 0x'' @ replicate (8 - length (digits_text 16 (unat magic))) 0x30
        @ digits_text 16 (unat magic) @ [0x0A]) (shown t)"
proof -
  let ?str = "''Invalid magic number: 0x%#x'' @ [newline]"
  have "scr_ok (s\<lparr>process_request := 0\<rparr>)" using assms(1) by (simp add: scr_ok_def)
  from clear_result [OF this, of 2] obtain t where t: "clear 2 (s\<lparr>process_request := 0\<rparr>) = Some t" "scr_ok t" by auto
  have "render Map.empty (cbytes ?str) [magic] = Some (cbytes ''Invalid magic number: 0x'' @ replicate (8 - length (digits_text 16 (unat magic))) 0x30
        @ digits_text 16 (unat magic) @ [0x0A])" "0 \<notin> set (cbytes ?str)" "length ?str < 2 ^ 31"
    by (simp_all add: cbytes_def conversion_text_def Let_def)
  from kprintf_result [OF t(2) this] show ?thesis using t(1) assms(2) by (force simp: entry_def Let_def)
qed

theorem entry_rejects_magic_witness: "\<exists>s'. entry (\<lambda>_ _. 0) image_demo empty_gate empty_segment 0x1BADB002 0x9000 reset_demo = Some (s', False)"
  using entry_rejects_magic [of reset_demo "0x1BADB002" "\<lambda>_ _. 0" image_demo empty_gate empty_segment "0x9000"] reset_demo_state by (auto simp: reset_state_def)

end
