(* ===== verification/User_Support.thy ===== *)
theory User_Support
  imports Lib_Printf
begin

text \<open>
  The support library of the user programs (\<open>syscalls/ece391support.c\<close>): string functions and number
  conversion, related to the functions of the same purpose in the kernel. Pointers
  advance here where the kernel's loops count an index.
\<close>

section \<open>The functions\<close>

partial_function (option) ece391_strlen_loop :: "mem \<Rightarrow> ptr \<Rightarrow> u32 \<Rightarrow> u32 option" where
  "ece391_strlen_loop m s len = (if m s \<noteq> 0 then ece391_strlen_loop m (padd s 1) (len + 1) else Some len)"

definition ece391_strlen :: "mem \<Rightarrow> ptr \<Rightarrow> u32 option" where
  "ece391_strlen m s = ece391_strlen_loop m s 0"

partial_function (option) ece391_strcpy :: "mem \<Rightarrow> ptr \<Rightarrow> ptr \<Rightarrow> mem option" where
  "ece391_strcpy m dst src =
     (let c = m src; m = m(dst := c) in if c \<noteq> 0 then ece391_strcpy m (padd dst 1) (padd src 1) else Some m)"

partial_function (option) ece391_strcmp :: "mem \<Rightarrow> ptr \<Rightarrow> ptr \<Rightarrow> int option" where
  "ece391_strcmp m s1 s2 =
     (if m s1 = m s2
      then if m s1 = 0 then Some 0 else ece391_strcmp m (padd s1 1) (padd s2 1)
      else Some (uint (m s1) - uint (m s2)))"

partial_function (option) ece391_strncmp_loop :: "mem \<Rightarrow> ptr \<Rightarrow> ptr \<Rightarrow> u32 \<Rightarrow> int option" where
  "ece391_strncmp_loop m s1 s2 n =
     (if m s1 = m s2
      then if m s1 = 0 \<or> n - 1 = 0 then Some 0 else ece391_strncmp_loop m (padd s1 1) (padd s2 1) (n - 1)
      else Some (uint (m s1) - uint (m s2)))"

definition ece391_strncmp :: "mem \<Rightarrow> ptr \<Rightarrow> ptr \<Rightarrow> u32 \<Rightarrow> int option" where
  "ece391_strncmp m s1 s2 n = (if n = 0 then Some 0 else ece391_strncmp_loop m s1 s2 n)"

function ece391_strrev_loop :: "mem \<Rightarrow> ptr \<Rightarrow> int \<Rightarrow> int \<Rightarrow> mem" where
  "ece391_strrev_loop m s beg end' =
     (if beg < end'
      then let tmp = m (padd s (word_of_int end'));
               m = m(padd s (word_of_int end') := m (padd s (word_of_int beg)));
               m = m(padd s (word_of_int beg) := tmp)
           in ece391_strrev_loop m s (beg + 1) (end' - 1)
      else m)"
  by pat_completeness auto
termination
  by (relation "measure (\<lambda>(m, s, beg, end'). nat (end' - beg))") auto

definition ece391_strrev :: "mem \<Rightarrow> ptr \<Rightarrow> mem option" where
  "ece391_strrev m s = do {
     n \<leftarrow> ece391_strlen m s;
     let end' = sint (n - 1);
     Some (if end' \<le> 0 then m else ece391_strrev_loop m s 0 end') }"

definition ece391_lookup :: "u8 list" where
  "ece391_lookup = cbytes ''0123456789ABCDEFGHIJKLMNOPQRSTUVWXYZ'' @ [0]"

partial_function (option) ece391_itoa_loop :: "mem \<Rightarrow> ptr \<Rightarrow> u32 \<Rightarrow> u32 \<Rightarrow> (mem \<times> ptr) option" where
  "ece391_itoa_loop m newbuf newval radix =
     (if newval > 0
      then if radix = 0 then None
           else do {
             c \<leftarrow> arr_get ece391_lookup (unat (newval mod radix));
             ece391_itoa_loop (m(newbuf := c)) (padd newbuf 1) (newval div radix) radix }
      else Some (m, newbuf))"

definition ece391_itoa :: "mem \<Rightarrow> u32 \<Rightarrow> ptr \<Rightarrow> int \<Rightarrow> mem option" where
  "ece391_itoa m value buf radix =
     (if value = 0 then Some (m(buf := 48, padd buf 1 := 0))
      else do {
        (m, newbuf) \<leftarrow> ece391_itoa_loop m buf value (word_of_int radix);
        ece391_strrev (m(newbuf := 0)) buf })"

declare ece391_strrev_loop.simps [simp del]

section \<open>Lemmas: the kernel's functions\<close>

lemma option_eqI: "(\<And>y. x = Some y \<Longrightarrow> x' = Some y) \<Longrightarrow> (\<And>y. x' = Some y \<Longrightarrow> x = Some y) \<Longrightarrow> x = x'"
  by (cases x; cases x') auto

lemma strlen_loop_index: "ece391_strlen_loop m (padd s len) len = strlen_from m s len"
proof (rule option_eqI)
  have "\<forall>s. p = padd s len \<longrightarrow> strlen_from m s len = Some y" if ret: "ece391_strlen_loop m p len = Some y" for p y
  proof (rule ece391_strlen_loop.raw_induct [where P = "\<lambda>m p len y. \<forall>s. p = padd s len \<longrightarrow> strlen_from m s len = Some y", OF _ ret], intro allI impI)
    fix f m p len y s
    assume IH: "\<And>m p len y. f m p len = Some y \<Longrightarrow> \<forall>s. p = padd s len \<longrightarrow> strlen_from m s len = Some y"
      and eq: "(if m p \<noteq> 0 then f m (padd p 1) (len + 1) else Some len) = Some y" and p: "p = padd s len"
    show "strlen_from m s len = Some y"
    proof (cases "m p = 0")
      case False
      then have "f m (padd p 1) (len + 1) = Some y" using eq by simp
      from IH [OF this, rule_format, of s] show ?thesis using False p by (subst strlen_from.simps) simp
    qed (use eq p in \<open>simp add: strlen_from.simps\<close>)
  qed
  then show "ece391_strlen_loop m (padd s len) len = Some y \<Longrightarrow> strlen_from m s len = Some y" for y by blast
next
  show "ece391_strlen_loop m (padd s len) len = Some y" if ret: "strlen_from m s len = Some y" for y
  proof (rule strlen_from.raw_induct [where P = "\<lambda>m s len y. ece391_strlen_loop m (padd s len) len = Some y", OF _ ret])
    fix f m s len y
    assume IH: "\<And>m s len y. f m s len = Some y \<Longrightarrow> ece391_strlen_loop m (padd s len) len = Some y"
      and eq: "(if m (padd s len) \<noteq> 0 then f m s (len + 1) else Some len) = Some y"
    show "ece391_strlen_loop m (padd s len) len = Some y"
      using IH [of m s "len + 1" y] eq by (subst ece391_strlen_loop.simps) (auto split: if_splits)
  qed
qed

lemma ece391_strlen_eq: "ece391_strlen m s = strlen m s"
  using strlen_loop_index [of m s 0] by (simp add: ece391_strlen_def strlen_def)

lemma strcpy_index: "ece391_strcpy m (padd dst i) (padd src i) = strcpy_from m dst src i"
proof (rule option_eqI)
  have "\<forall>dst src i. d = padd dst i \<and> p = padd src i \<longrightarrow> strcpy_from m dst src i = Some y" if ret: "ece391_strcpy m d p = Some y" for d p y
  proof (rule ece391_strcpy.raw_induct [where P = "\<lambda>m d p y. \<forall>dst src i. d = padd dst i \<and> p = padd src i \<longrightarrow> strcpy_from m dst src i = Some y", OF _ ret],
      intro allI impI)
    fix f m d p y dst src i
    assume IH: "\<And>m d p y. f m d p = Some y \<Longrightarrow> \<forall>dst src i. d = padd dst i \<and> p = padd src i \<longrightarrow> strcpy_from m dst src i = Some y"
      and eq: "(let c = m p; m = m(d := c) in if c \<noteq> 0 then f m (padd d 1) (padd p 1) else Some m) = Some y"
      and d: "d = padd dst i \<and> p = padd src i"
    show "strcpy_from m dst src i = Some y"
    proof (cases "m p = 0")
      case False
      then have "f (m(d := m p)) (padd d 1) (padd p 1) = Some y" using eq by (simp add: Let_def)
      from IH [OF this, rule_format, of dst "i + 1" src] show ?thesis using False d by (subst strcpy_from.simps) simp
    qed (use eq d in \<open>simp add: strcpy_from.simps Let_def\<close>)
  qed
  then show "ece391_strcpy m (padd dst i) (padd src i) = Some y \<Longrightarrow> strcpy_from m dst src i = Some y" for y by blast
next
  show "ece391_strcpy m (padd dst i) (padd src i) = Some y" if ret: "strcpy_from m dst src i = Some y" for y
  proof (rule strcpy_from.raw_induct [where P = "\<lambda>m dst src i y. ece391_strcpy m (padd dst i) (padd src i) = Some y", OF _ ret])
    fix f m dst src i y
    assume IH: "\<And>m dst src i y. f m dst src i = Some y \<Longrightarrow> ece391_strcpy m (padd dst i) (padd src i) = Some y"
      and eq: "(if m (padd src i) \<noteq> 0 then f (m(padd dst i := m (padd src i))) dst src (i + 1) else Some (m(padd dst i := 0))) = Some y"
    show "ece391_strcpy m (padd dst i) (padd src i) = Some y"
      using IH [of "m(padd dst i := m (padd src i))" dst src "i + 1" y] eq by (subst ece391_strcpy.simps) (auto simp: Let_def split: if_splits)
  qed
qed

lemma ece391_strcpy_eq: "ece391_strcpy m dst src = strcpy m dst src"
  using strcpy_index [of m dst 0 src] by (simp add: strcpy_def)

lemma strrev_loop_eq: "ece391_strrev_loop m s b e = strrev_loop m s b e"
proof (induction m s b e rule: strrev_loop.induct)
  case (1 m s b e)
  show ?case
  proof (cases "b < e")
    case True
    with 1 [OF True refl refl refl] show ?thesis unfolding ece391_strrev_loop.simps [of m s b e] strrev_loop.simps [of m s b e] by (simp only: Let_def if_True)
  qed (simp add: ece391_strrev_loop.simps [of m s b e] strrev_loop.simps [of m s b e])
qed

lemma ece391_strrev_eq: "ece391_strrev m s = strrev m s"
proof -
  have "strrev_loop m s 0 e = m" if "e \<le> 0" for e using that by (subst strrev_loop.simps) simp
  then show ?thesis by (cases "strlen m s") (simp_all add: ece391_strrev_def strrev_def ece391_strlen_eq strrev_loop_eq Let_def)
qed

lemma itoa_loop_eq: "ece391_itoa_loop m p v radix = itoa_loop m p v radix"
proof (rule option_eqI)
  have l: "ece391_lookup = lookup" by (simp only: ece391_lookup_def lookup_def)
  show "itoa_loop m p v radix = Some y" if ret: "ece391_itoa_loop m p v radix = Some y" for y
  proof (rule ece391_itoa_loop.raw_induct [where P = "\<lambda>m p v radix y. itoa_loop m p v radix = Some y", OF _ ret])
    fix f m p v radix y
    assume "\<And>m p v radix y. f m p v radix = Some y \<Longrightarrow> itoa_loop m p v radix = Some y"
      and "(if v > 0 then if radix = 0 then None else do { c \<leftarrow> arr_get ece391_lookup (unat (v mod radix)); f (m(p := c)) (padd p 1) (v div radix) radix }
        else Some (m, p)) = Some y"
    then show "itoa_loop m p v radix = Some y" by (subst itoa_loop.simps) (auto simp: l split: if_splits option.splits Option.bind_splits)
  qed
  show "ece391_itoa_loop m p v radix = Some y" if ret: "itoa_loop m p v radix = Some y" for y
  proof (rule itoa_loop.raw_induct [where P = "\<lambda>m p v radix y. ece391_itoa_loop m p v radix = Some y", OF _ ret])
    fix f m p v radix y
    assume "\<And>m p v radix y. f m p v radix = Some y \<Longrightarrow> ece391_itoa_loop m p v radix = Some y"
      and "(if v > 0 then if radix = 0 then None else do { c \<leftarrow> arr_get lookup (unat (v mod radix)); f (m(p := c)) (padd p 1) (v div radix) radix }
        else Some (m, p)) = Some y"
    then show "ece391_itoa_loop m p v radix = Some y" by (subst ece391_itoa_loop.simps) (auto simp: l split: if_splits option.splits Option.bind_splits)
  qed
qed

lemma ece391_itoa_eq: "ece391_itoa m v buf radix = itoa m v buf radix"
  by (simp add: ece391_itoa_def itoa_def ece391_strrev_eq itoa_loop_eq)

lemma uint_u8_iff: "uint (a :: u8) = 0 \<longleftrightarrow> a = 0" "uint a = uint b \<longleftrightarrow> a = b"
  by (auto simp: uint_0_iff intro: word_uint_eqI)

lemma strncmp_loop_index:
  "0 < n \<Longrightarrow> \<exists>r. ece391_strncmp_loop m s1 s2 n = Some r
    \<and> (r = 0 \<longleftrightarrow> upto_nul (bytes_at m s1 (unat n)) = upto_nul (bytes_at m s2 (unat n)))"
proof (induction "unat n" arbitrary: s1 s2 n)
  case 0
  then show ?case by (simp add: unat_eq_0)
next
  case (Suc k)
  have k: "k = unat (n - 1)" using Suc.hyps(2) Suc.prems unat_minus_one [of n] by simp
  have n: "unat n = Suc (unat (n - 1))" using Suc.hyps(2) k by simp
  show ?case
  proof (cases "m s1 = m s2 \<and> m s1 \<noteq> 0 \<and> n - 1 \<noteq> 0")
    case True
    then have "0 < n - 1" by (simp add: word_gt_0)
    from Suc.hyps(1) [OF k this, of "padd s1 1" "padd s2 1"] show ?thesis
      unfolding n bytes_at_Suc using True by (subst ece391_strncmp_loop.simps) simp
  next
    case False
    have "unat (n - 1) = 0" if "n - 1 = 0" using that by simp
    then show ?thesis unfolding n bytes_at_Suc using False
      by (subst ece391_strncmp_loop.simps) (auto simp: bytes_at_def uint_u8_iff)
  qed
qed

lemma ece391_strncmp_total:
  "\<exists>r. ece391_strncmp m s1 s2 n = Some r \<and> (r = 0 \<longleftrightarrow> upto_nul (bytes_at m s1 (unat n)) = upto_nul (bytes_at m s2 (unat n)))"
  using strncmp_loop_index [of n m s1 s2] by (cases "n = 0") (simp_all add: ece391_strncmp_def bytes_at_def word_gt_0)

lemma ece391_strcmp_cstr:
  "cstr m s1 a \<Longrightarrow> cstr m s2 b \<Longrightarrow> \<exists>r. ece391_strcmp m s1 s2 = Some r \<and> (r = 0 \<longleftrightarrow> a = b)"
proof (induction a arbitrary: s1 s2 b)
  case Nil
  have z: "m s1 = 0" using cstr_end [OF Nil.prems(1)] by simp
  show ?case
  proof (cases b)
    case Nil
    then show ?thesis using z cstr_end [OF Nil.prems(2)] by (simp add: ece391_strcmp.simps)
  next
    case (Cons c cs)
    then have "m s2 = c" "c \<noteq> 0" using cstr_tl Nil.prems(2) by blast+
    then show ?thesis using z Cons by (auto simp: ece391_strcmp.simps uint_u8_iff)
  qed
next
  case (Cons x xs)
  note x = cstr_tl [OF Cons.prems(1)]
  show ?case
  proof (cases b)
    case Nil
    then show ?thesis using x cstr_end [OF Cons.prems(2)] by (auto simp: ece391_strcmp.simps uint_u8_iff)
  next
    case b: (Cons c cs)
    then have c: "m s2 = c" "cstr m (padd s2 1) cs" using cstr_tl Cons.prems(2) by blast+
    obtain r where "ece391_strcmp m (padd s1 1) (padd s2 1) = Some r" "r = 0 \<longleftrightarrow> xs = cs" using Cons.IH c(2) x by blast
    then show ?thesis using x c(1) b by (subst ece391_strcmp.simps) (auto simp: uint_u8_iff)
  qed
qed

section \<open>Correctness\<close>

text \<open>
  C29: the support library computes what the kernel's library computes. Length, copy, reversal and number
  conversion agree with the kernel's functions on every memory, whether the strings end or not; the bounded comparison always
  returns, and is 0 exactly when the kernel's is, although the other results differ, since it compares bytes unsigned.
\<close>

theorem support_equals_lib:
  "ece391_strlen m p = strlen m p \<and> ece391_strcpy m p q = strcpy m p q \<and> ece391_strrev m p = strrev m p \<and> ece391_itoa m v p radix = itoa m v p radix
    \<and> (\<exists>r. ece391_strncmp m p q n = Some r \<and> (r = 0 \<longleftrightarrow> strncmp m p q n = 0))"
  using ece391_strncmp_total [of m p q n]
  by (auto simp: ece391_strlen_eq ece391_strcpy_eq ece391_strrev_eq ece391_itoa_eq strncmp_def strncmp_from_zero_iff [of 0, simplified])

end
