(* ===== verification/User_Programs.thy ===== *)
theory User_Programs
  imports User_Support Process
begin

text \<open>
  User programs of \<open>syscalls\<close> and the system calls they make. A program is a function of the calls, which it
  gets as a record; the contract of the calls, which the kernel is shown to keep elsewhere, is a locale, and what
  the programs do is proved from it. Variables whose address a program passes to the kernel have blocks of their own: \<open>Local 30\<close> holds
  string literals, \<open>Local 31\<close> to \<open>Local 33\<close> the arrays.
\<close>

section \<open>System calls\<close>

record 's os =
  umem :: "'s \<Rightarrow> mem"
  set_umem :: "mem \<Rightarrow> 's \<Rightarrow> 's"
  ece391_execute :: "ptr \<Rightarrow> 's \<Rightarrow> ('s \<times> int) option"
  ece391_read :: "int \<Rightarrow> ptr \<Rightarrow> int \<Rightarrow> 's \<Rightarrow> ('s \<times> int) option"
  ece391_write :: "int \<Rightarrow> ptr \<Rightarrow> int \<Rightarrow> 's \<Rightarrow> ('s \<times> int) option"
  ece391_open :: "ptr \<Rightarrow> 's \<Rightarrow> ('s \<times> int) option"
  ece391_close :: "int \<Rightarrow> 's \<Rightarrow> ('s \<times> int) option"
  ece391_getargs :: "ptr \<Rightarrow> int \<Rightarrow> 's \<Rightarrow> ('s \<times> int) option"
  ece391_vidmap :: "u32 \<Rightarrow> 's \<Rightarrow> ('s \<times> int) option"
  call_sys :: "u32 \<Rightarrow> 's \<Rightarrow> ('s \<times> int) option"

abbreviation lit :: ptr where "lit \<equiv> (Local 30, 0)"
abbreviation ubuf :: ptr where "ubuf \<equiv> (Local 31, 0)"

definition upd_mem :: "'s os \<Rightarrow> (mem \<Rightarrow> mem) \<Rightarrow> 's \<Rightarrow> 's" where
  "upd_mem os f s = set_umem os (f (umem os s)) s"

definition ece391_fdputs :: "'s os \<Rightarrow> int \<Rightarrow> ptr \<Rightarrow> 's \<Rightarrow> 's option" where
  "ece391_fdputs os fd p s = do { n \<leftarrow> ece391_strlen (umem os s) p; (s, _) \<leftarrow> ece391_write os fd p (sint n) s; Some s }"

text \<open>A string literal as an argument, and one passed to \<open>ece391_fdputs (1, \<dots>)\<close>.\<close>

definition literal :: "'s os \<Rightarrow> string \<Rightarrow> 's \<Rightarrow> 's" where
  "literal os str = upd_mem os (\<lambda>m. put_bytes m lit (cbytes str @ [0]))"

definition say :: "'s os \<Rightarrow> string \<Rightarrow> 's \<Rightarrow> 's option" where
  "say os str s = ece391_fdputs os 1 lit (literal os str s)"

section \<open>Programs\<close>

subsection \<open>\<open>ece391cat.c\<close>\<close>

partial_function (option) cat_loop :: "'s os \<Rightarrow> int \<Rightarrow> 's \<Rightarrow> ('s \<times> int) option" where
  "cat_loop os fd s = do {
     (s, cnt) \<leftarrow> ece391_read os fd ubuf 1024 s;
     if cnt = 0 then Some (s, 0)
     else if cnt = -1 then do { s \<leftarrow> say os (''file read failed'' @ [CHR 0x0A]) s; Some (s, 3) }
     else do {
       (s, r) \<leftarrow> ece391_write os 1 ubuf cnt s;
       if r = -1 then Some (s, 3) else cat_loop os fd s } }"

definition cat_open :: "'s os \<Rightarrow> 's \<Rightarrow> ('s \<times> int) option" where
  "cat_open os s = do {
     (s, fd) \<leftarrow> ece391_open os ubuf s;
     if fd = -1 then do { s \<leftarrow> say os (''file not found'' @ [CHR 0x0A]) s; Some (s, 2) } else cat_loop os fd s }"

definition cat_main :: "'s os \<Rightarrow> 's \<Rightarrow> ('s \<times> int) option" where
  "cat_main os s = do {
     (s, r) \<leftarrow> ece391_getargs os ubuf 1024 s;
     if r \<noteq> 0 then do { s \<leftarrow> say os (''could not read arguments'' @ [CHR 0x0A]) s; Some (s, 3) } else cat_open os s }"

subsection \<open>\<open>ece391ls.c\<close>\<close>

partial_function (option) ls_loop :: "'s os \<Rightarrow> int \<Rightarrow> 's \<Rightarrow> ('s \<times> int) option" where
  "ls_loop os fd s = do {
     (s, cnt) \<leftarrow> ece391_read os fd ubuf 32 s;
     if cnt = 0 then Some (s, 0)
     else if cnt = -1 then do { s \<leftarrow> say os (''directory entry read failed'' @ [CHR 0x0A]) s; Some (s, 3) }
     else do {
       let s = upd_mem os (\<lambda>m. m(padd ubuf (word_of_int cnt) := 0x0A)) s;
       (s, r) \<leftarrow> ece391_write os 1 ubuf (cnt + 1) s;
       if r = -1 then Some (s, 3) else ls_loop os fd s } }"

definition ls_main :: "'s os \<Rightarrow> 's \<Rightarrow> ('s \<times> int) option" where
  "ls_main os s = do {
     (s, fd) \<leftarrow> ece391_open os lit (literal os ''.'' s);
     if fd = -1 then do { s \<leftarrow> say os (''directory open failed'' @ [CHR 0x0A]) s; Some (s, 2) } else ls_loop os fd s }"

subsection \<open>\<open>ece391hello.c\<close>, \<open>ece391testprint.c\<close>, \<open>ece391counter.c\<close>\<close>

definition hello_main :: "'s os \<Rightarrow> 's \<Rightarrow> ('s \<times> int) option" where
  "hello_main os s = do {
     s \<leftarrow> say os ''Hi, what's your name? '' s;
     (s, cnt) \<leftarrow> ece391_read os 0 ubuf 1023 s;
     if cnt = -1 then do { s \<leftarrow> say os (''Can't read name from keyboard.'' @ [CHR 0x0A]) s; Some (s, 3) }
     else do {
       let s = upd_mem os (\<lambda>m. m(padd ubuf (word_of_int cnt) := 0)) s;
       s \<leftarrow> say os ''Hello, '' s;
       s \<leftarrow> ece391_fdputs os 1 ubuf s;
       Some (s, 0) } }"

definition testprint_main :: "'s os \<Rightarrow> 's \<Rightarrow> ('s \<times> int) option" where
  "testprint_main os s = do { s \<leftarrow> say os (''Hello, if this ran, the program was correct. Yay!'' @ [CHR 0x0A]) s; Some (s, 0) }"

definition counter_loop :: "'s os \<Rightarrow> nat \<Rightarrow> 's \<Rightarrow> 's option" where
  "counter_loop os n = foldo (\<lambda>i s. do {
     m \<leftarrow> ece391_itoa (umem os s) (of_nat i + 1) ubuf 10;
     s \<leftarrow> ece391_fdputs os 1 ubuf (set_umem os m s);
     say os [CHR 0x0A] s }) [0..<n]"

definition counter_main :: "'s os \<Rightarrow> 's \<Rightarrow> ('s \<times> int) option" where
  "counter_main os s = do {
     s \<leftarrow> say os (''Enter the Test Number: (0): 100, (1): 10000, (2): 100000'' @ [CHR 0x0A]) s;
     (s, cnt) \<leftarrow> ece391_read os 0 ubuf 1023 s;
     if cnt = -1 then do { s \<leftarrow> say os (''Can't read the number from keyboard.'' @ [CHR 0x0A]) s; Some (s, 3) }
     else do {
       let s = upd_mem os (\<lambda>m. m(padd ubuf (word_of_int cnt) := 0)) s;
       len \<leftarrow> ece391_strlen (umem os s) ubuf;
       let c = umem os s ubuf;
       if len > 2 \<or> (len = 2 \<and> (c < 0x30 \<or> c > 0x32))
       then do { s \<leftarrow> say os (''Wrong Choice!'' @ [CHR 0x0A]) s; Some (s, 0) }
       else do {
         s \<leftarrow> counter_loop os (if c = 0x30 then 100 else if c = 0x31 then 10000 else if c = 0x32 then 100000 else 0) s;
         Some (s, 0) } } }"

subsection \<open>\<open>ece391shell.c\<close>\<close>

abbreviation bufme :: ptr where "bufme \<equiv> (Local 32, 0)"

definition shell_report :: "'s os \<Rightarrow> int \<Rightarrow> 's \<Rightarrow> 's option" where
  "shell_report os rval s =
     (if rval = -1 then say os (''no such command'' @ [CHR 0x0A]) s
      else if rval = 256 then say os (''program terminated by exception'' @ [CHR 0x0A]) s
      else if rval \<noteq> 0 then do {
        m \<leftarrow> ece391_itoa (umem os s) (word_of_int rval) bufme 10;
        s \<leftarrow> ece391_fdputs os 1 bufme (set_umem os m s);
        say os (''program terminated abnormally'' @ [CHR 0x0A]) s }
      else Some s)"

partial_function (option) shell_loop :: "'s os \<Rightarrow> 's \<Rightarrow> ('s \<times> int) option" where
  "shell_loop os s = do {
     s \<leftarrow> say os ''391OS> '' s;
     (s, cnt) \<leftarrow> ece391_read os 0 ubuf 1023 s;
     if cnt = -1 then do { s \<leftarrow> say os (''read from keyboard failed'' @ [CHR 0x0A]) s; Some (s, 3) }
     else do {
       let cnt = (if cnt > 0 \<and> umem os s (padd ubuf (word_of_int (cnt - 1))) = 0x0A then cnt - 1 else cnt);
       let s = upd_mem os (\<lambda>m. m(padd ubuf (word_of_int cnt) := 0)) s;
       let s = literal os ''exit'' s;
       r \<leftarrow> ece391_strcmp (umem os s) ubuf lit;
       if r = 0 then Some (s, 0)
       else if umem os s ubuf = 0 then shell_loop os s
       else do {
         (s, rval) \<leftarrow> ece391_execute os ubuf s;
         s \<leftarrow> shell_report os rval s;
         shell_loop os s } } }"

definition shell_main :: "'s os \<Rightarrow> 's \<Rightarrow> ('s \<times> int) option" where
  "shell_main os s = do { s \<leftarrow> say os (''Starting 391 Shell'' @ [CHR 0x0A]) s; shell_loop os s }"

subsection \<open>\<open>ece391grep.c\<close>\<close>

abbreviation BUFSIZE :: int where "BUFSIZE \<equiv> 1024"
abbreviation grep_search :: ptr where "grep_search \<equiv> (Local 32, 0)"
abbreviation grep_data :: ptr where "grep_data \<equiv> (Local 33, 0)"

definition data_at :: "mem \<Rightarrow> int \<Rightarrow> u8" where
  "data_at m i = m (padd grep_data (word_of_int i))"

function find_line_end :: "mem \<Rightarrow> int \<Rightarrow> int \<Rightarrow> int" where
  "find_line_end m last' line_end = (if line_end < last' \<and> data_at m line_end \<noteq> 0x0A then find_line_end m last' (line_end + 1) else line_end)"
  by pat_completeness auto
termination by (relation "measure (\<lambda>(m, last', line_end). nat (last' - line_end))") auto

text \<open>The characters of \<open>s\<close> are signed, those of \<open>data\<close> unsigned.\<close>

function search_line :: "'s os \<Rightarrow> ptr \<Rightarrow> ptr \<Rightarrow> u32 \<Rightarrow> int \<Rightarrow> int \<Rightarrow> int \<Rightarrow> 's \<Rightarrow> 's option" where
  "search_line os str fname s_len line_start line_end check s =
     (if check < line_end
      then do {
        r \<leftarrow> (if sint (umem os s str) = uint (data_at (umem os s) check)
              then ece391_strncmp (umem os s) (padd grep_data (word_of_int check)) str s_len else Some 1);
        if r = 0
        then do {
          s \<leftarrow> ece391_fdputs os 1 fname s;
          s \<leftarrow> say os '':'' s;
          s \<leftarrow> ece391_fdputs os 1 (padd grep_data (word_of_int line_start)) s;
          say os [CHR 0x0A] s }
        else search_line os str fname s_len line_start line_end (check + 1) s }
      else Some s)"
  by pat_completeness auto
termination by (relation "measure (\<lambda>(os, str, fname, s_len, line_start, line_end, check, s). nat (line_end - check))") auto

partial_function (option) grep_lines :: "'s os \<Rightarrow> ptr \<Rightarrow> ptr \<Rightarrow> u32 \<Rightarrow> int \<Rightarrow> int \<Rightarrow> int \<Rightarrow> 's \<Rightarrow> ('s \<times> int) option" where
  "grep_lines os str fname s_len cnt last' line_start s = do {
     let line_end = find_line_end (umem os s) last' line_start;
     if data_at (umem os s) line_end \<noteq> 0x0A \<and> cnt \<noteq> 0 \<and> line_start \<noteq> 0
     then do {
       let s = upd_mem os (\<lambda>m. m(padd grep_data (word_of_int line_end) := 0)) s;
       m \<leftarrow> ece391_strcpy (umem os s) grep_data (padd grep_data (word_of_int line_start));
       Some (set_umem os m s, last' - line_start) }
     else do {
       let s = upd_mem os (\<lambda>m. m(padd grep_data (word_of_int line_end) := 0)) s;
       s \<leftarrow> search_line os str fname s_len line_start line_end line_start s;
       let line_start = line_end + 1;
       if line_start \<ge> last' then Some (s, 0) else grep_lines os str fname s_len cnt last' line_start s } }"

partial_function (option) grep_blocks :: "'s os \<Rightarrow> ptr \<Rightarrow> ptr \<Rightarrow> u32 \<Rightarrow> int \<Rightarrow> int \<Rightarrow> 's \<Rightarrow> ('s \<times> int) option" where
  "grep_blocks os str fname s_len fd last' s = do {
     (s, cnt) \<leftarrow> ece391_read os fd (padd grep_data (word_of_int last')) (BUFSIZE - last') s;
     if cnt = -1 then do { s \<leftarrow> say os (''file read failed'' @ [CHR 0x0A]) s; Some (s, -1) }
     else do {
       (s, last') \<leftarrow> grep_lines os str fname s_len cnt (last' + cnt) 0 s;
       if cnt = 0
       then do {
         (s, r) \<leftarrow> ece391_close os fd s;
         if r = -1 then do { s \<leftarrow> say os (''file close failed'' @ [CHR 0x0A]) s; Some (s, -1) } else Some (s, 0) }
       else grep_blocks os str fname s_len fd last' s } }"

definition do_one_file :: "'s os \<Rightarrow> ptr \<Rightarrow> ptr \<Rightarrow> 's \<Rightarrow> ('s \<times> int) option" where
  "do_one_file os str fname s = do {
     s_len \<leftarrow> ece391_strlen (umem os s) str;
     (s, fd) \<leftarrow> ece391_open os fname s;
     if fd = -1 then do { s \<leftarrow> say os (''file open failed'' @ [CHR 0x0A]) s; Some (s, -1) }
     else grep_blocks os str fname s_len fd 0 s }"

partial_function (option) grep_files :: "'s os \<Rightarrow> int \<Rightarrow> 's \<Rightarrow> ('s \<times> int) option" where
  "grep_files os fd s = do {
     (s, cnt) \<leftarrow> ece391_read os fd ubuf 32 s;
     if cnt = 0 then Some (s, 0)
     else if cnt = -1 then do { s \<leftarrow> say os (''directory entry read failed'' @ [CHR 0x0A]) s; Some (s, 3) }
     else if umem os s ubuf = 0x2E then grep_files os fd s
     else do {
       let s = upd_mem os (\<lambda>m. m(padd ubuf (word_of_int cnt) := 0)) s;
       (s, r) \<leftarrow> do_one_file os grep_search ubuf s;
       if r \<noteq> 0 then Some (s, 3) else grep_files os fd s } }"

definition grep_main :: "'s os \<Rightarrow> 's \<Rightarrow> ('s \<times> int) option" where
  "grep_main os s = do {
     (s, r) \<leftarrow> ece391_getargs os grep_search BUFSIZE s;
     if r \<noteq> 0 then do { s \<leftarrow> say os (''could not read argument'' @ [CHR 0x0A]) s; Some (s, 3) }
     else do {
       (s, fd) \<leftarrow> ece391_open os lit (literal os ''.'' s);
       if fd = -1 then do { s \<leftarrow> say os (''directory open failed'' @ [CHR 0x0A]) s; Some (s, 2) } else grep_files os fd s } }"

declare find_line_end.simps [simp del] search_line.simps [simp del]

subsection \<open>\<open>ece391syserr.c\<close>\<close>

abbreviation NEG_FD :: int where "NEG_FD \<equiv> -1073741823"
abbreviation BIG_FD :: int where "BIG_FD \<equiv> 1073741823"

text \<open>One check of a test: a call that should fail, and the line printed when it does not; and the line that ends a test.\<close>

definition expect_error :: "'s os \<Rightarrow> ('s \<Rightarrow> ('s \<times> int) option) \<Rightarrow> string \<Rightarrow> 's \<times> int \<Rightarrow> ('s \<times> int) option" where
  "expect_error os call msg st = do {
     (s, r) \<leftarrow> call (fst st);
     if r \<noteq> -1 then do { s \<leftarrow> say os (msg @ [CHR 0x0A]) s; Some (s, 2) } else Some (s, snd st) }"

definition verdict :: "'s os \<Rightarrow> string \<Rightarrow> 's \<times> int \<Rightarrow> ('s \<times> int) option" where
  "verdict os name st = do {
     s \<leftarrow> say os (if snd st \<noteq> 0 then name @ '': FAIL'' @ [CHR 0x0A] else name @ '': PASS'' @ [CHR 0x0A]) (fst st);
     Some (s, snd st) }"

definition err_fd :: "'s os \<Rightarrow> string \<Rightarrow> int \<Rightarrow> 's \<Rightarrow> ('s \<times> int) option" where
  "err_fd os name fd s = do {
     st \<leftarrow> expect_error os (ece391_read os fd ubuf 31) ''read fail'' (s, 0);
     st \<leftarrow> expect_error os (ece391_write os fd ubuf 31) ''write fail'' st;
     st \<leftarrow> expect_error os (ece391_close os fd) ''close fail'' st;
     verdict os name st }"

definition err_neg_fd :: "'s os \<Rightarrow> 's \<Rightarrow> ('s \<times> int) option" where
  "err_neg_fd os = err_fd os ''err_neg_fd'' NEG_FD"

definition err_big_fd :: "'s os \<Rightarrow> 's \<Rightarrow> ('s \<times> int) option" where
  "err_big_fd os = err_fd os ''err_big_fd'' BIG_FD"

definition err_open_lots :: "'s os \<Rightarrow> 's \<Rightarrow> ('s \<times> int) option" where
  "err_open_lots os s = do {
     (s, cnt) \<leftarrow> foldo (\<lambda>_ (s, cnt). do { (s, r) \<leftarrow> ece391_open os lit (literal os ''.'' s); Some (s, if r = -1 then cnt + 1 else cnt) }) [0..<7] (s, 0 :: int);
     s \<leftarrow> foldo (\<lambda>i s. do { (s, _) \<leftarrow> ece391_close os (int i) s; Some s }) [2..<8] s;
     if cnt = 1 then do { s \<leftarrow> say os (''err_open_lots: PASS'' @ [CHR 0x0A]) s; Some (s, 0) }
     else do { s \<leftarrow> say os (''err_open_lots: FAIL'' @ [CHR 0x0A]) s; Some (s, 2) } }"

definition err_open :: "'s os \<Rightarrow> 's \<Rightarrow> ('s \<times> int) option" where
  "err_open os s = do {
     st \<leftarrow> expect_error os (\<lambda>s. ece391_open os lit (literal os ''helloo'' s)) ('''helloo' fail'') (s, 0);
     st \<leftarrow> expect_error os (\<lambda>s. ece391_open os lit (literal os ''shel'' s)) ('''shel' fail'') st;
     st \<leftarrow> expect_error os (\<lambda>s. ece391_open os lit (literal os [] s)) ''empty string fail'' st;
     verdict os ''err_open'' st }"

definition err_unopened :: "'s os \<Rightarrow> 's \<Rightarrow> ('s \<times> int) option" where
  "err_unopened os s = do {
     st \<leftarrow> foldo (\<lambda>i. expect_error os (ece391_close os (int i)) ''close unopened or invalid fd fail'') [0..<8] (s, 0);
     st \<leftarrow> foldo (\<lambda>i. expect_error os (ece391_read os (int i) ubuf 31) ''read from unopened fd fail'') [2..<8] st;
     st \<leftarrow> foldo (\<lambda>i. expect_error os (ece391_write os (int i) ubuf 31) ''write to unopened fd fail'') [2..<8] st;
     verdict os ''err_unopened'' st }"

definition err_vidmap :: "'s os \<Rightarrow> 's \<Rightarrow> ('s \<times> int) option" where
  "err_vidmap os s = do {
     st \<leftarrow> expect_error os (ece391_vidmap os 0) ''Null pointer fail'' (s, 0);
     st \<leftarrow> expect_error os (ece391_vidmap os 0x400000) ''Kernel pointer fail fail'' st;
     verdict os ''err_vidmap'' st }"

definition err_stdin_out :: "'s os \<Rightarrow> 's \<Rightarrow> ('s \<times> int) option" where
  "err_stdin_out os s = do {
     st \<leftarrow> expect_error os (ece391_write os 0 ubuf 31) ''write to stdin fail'' (s, 0);
     st \<leftarrow> expect_error os (ece391_read os 1 ubuf 31) ''read from stdout fail'' st;
     verdict os ''err_stdin_out'' st }"

definition err_syscall_num :: "'s os \<Rightarrow> 's \<Rightarrow> ('s \<times> int) option" where
  "err_syscall_num os s = do {
     st \<leftarrow> expect_error os (call_sys os 1073741823) ''syscall 0 fail'' (s, 0);
     st \<leftarrow> expect_error os (call_sys os (- 1073741823)) ''big num syscall fail'' st;
     st \<leftarrow> expect_error os (call_sys os 0) ''neg num syscall fail'' st;
     verdict os ''err_syscall_num'' st }"

definition syserr_tests :: "'s os \<Rightarrow> ('s \<Rightarrow> ('s \<times> int) option) list" where
  "syserr_tests os = [err_neg_fd os, err_big_fd os, err_open_lots os, err_open os, err_unopened os, err_vidmap os, err_stdin_out os, err_syscall_num os]"

definition syserr_all :: "'s os \<Rightarrow> 's \<Rightarrow> ('s \<times> int) option" where
  "syserr_all os s = do {
     (s, fail) \<leftarrow> foldo (\<lambda>test (s, fail). do { (s, r) \<leftarrow> test s; Some (s, fail + r) }) (syserr_tests os) (s, 0);
     s \<leftarrow> say os (if fail \<noteq> 0 then [CHR 0x0A] @ ''Overall Tests: FAIL'' @ [CHR 0x0A] else [CHR 0x0A] @ ''Overall Tests: PASS'' @ [CHR 0x0A]) s;
     Some (s, fail) }"

definition syserr_main :: "'s os \<Rightarrow> 's \<Rightarrow> ('s \<times> int) option" where
  "syserr_main os s = do {
     s \<leftarrow> say os ''Choose from tests 1-8. 0 to run all: '' s;
     (s, cnt) \<leftarrow> ece391_read os 0 ubuf 127 s;
     if cnt = -1 then do { s \<leftarrow> say os (''Can't read test #'' @ [CHR 0x0A]) s; Some (s, 2) }
     else do {
       let select = uint (umem os s ubuf) - 48;
       if select = 0 then syserr_all os s
       else if 1 \<le> select \<and> select \<le> 8 then (syserr_tests os ! nat (select - 1)) s
       else do { s \<leftarrow> say os ''Invalid test number. Choose from tests 1-8 or 0'' s; Some (s, 0) } } }"

section \<open>What a program may rely on\<close>

text \<open>
  The contract of a system with a terminal: a state has what its terminal prints and a view of its open files, a write to
  descriptor 1 prints the bytes other than NUL, and neither it nor a store to the program's own variables changes the view.
\<close>

locale terminal_os =
  fixes os :: "'s os" and inv :: "'s \<Rightarrow> bool" and view :: "'s \<Rightarrow> 'v" and display :: "'s \<Rightarrow> 'd" and emit :: "u8 \<Rightarrow> 'd \<Rightarrow> 'd"
  assumes write_ok: "inv s \<Longrightarrow> p \<noteq> NULL \<Longrightarrow> 0 \<le> n \<Longrightarrow>
      \<exists>s'. ece391_write os 1 p n s = Some (s', n) \<and> inv s' \<and> view s' = view s \<and> umem os s' = umem os s
        \<and> display s' = fold emit (filter (\<lambda>c. c \<noteq> 0) (bytes_at (umem os s) p (nat n))) (display s)"
    and store_ok: "inv s \<Longrightarrow> only_locals {30, 31, 32, 33} (umem os s) m \<Longrightarrow>
      inv (set_umem os m s) \<and> view (set_umem os m s) = view s \<and> umem os (set_umem os m s) = m \<and> display (set_umem os m s) = display s"
begin

definition prints :: "u8 list \<Rightarrow> 's \<Rightarrow> 's \<Rightarrow> bool" where
  "prints cs s s' \<longleftrightarrow> inv s' \<and> view s' = view s \<and> only_locals {30, 31, 32, 33} (umem os s) (umem os s') \<and> display s' = fold emit cs (display s)"

lemma prints_trans: "prints cs a b \<Longrightarrow> prints ds b c \<Longrightarrow> prints (cs @ ds) a c"
  using only_locals_trans [of "{30, 31, 32, 33}" "umem os a" "umem os b" "{30, 31, 32, 33}" "umem os c"] by (auto simp: prints_def)

lemma prints_refl: "inv s \<Longrightarrow> prints [] s s"
  by (simp add: prints_def)

lemma store_shows: "inv s \<Longrightarrow> only_locals {30, 31, 32, 33} (umem os s) m \<Longrightarrow> prints [] s (set_umem os m s) \<and> umem os (set_umem os m s) = m"
  using store_ok by (simp add: prints_def)

lemma write_shows:
  "inv s \<Longrightarrow> p \<noteq> NULL \<Longrightarrow> 0 \<le> n \<Longrightarrow> \<exists>s'. ece391_write os 1 p n s = Some (s', n) \<and> prints (filter (\<lambda>c. c \<noteq> 0) (bytes_at (umem os s) p (nat n))) s s'
    \<and> umem os s' = umem os s"
  using write_ok [of s p n] by (auto simp: prints_def)

lemma fdputs_shows:
  assumes "inv s" and "p \<noteq> NULL" and "cstr (umem os s) p str" and "length str < 2 ^ 31"
  shows "\<exists>s'. ece391_fdputs os 1 p s = Some s' \<and> prints str s s' \<and> umem os s' = umem os s"
proof -
  have n: "sint (of_nat (length str) :: u32) = int (length str)" using sint_word_of_int_u32 [of "int (length str)"] assms(4) by simp
  have "filter (\<lambda>c. c \<noteq> 0) (bytes_at (umem os s) p (length str)) = str"
    using assms(3) by (auto simp: cstr_def intro!: filter_True)
  then show ?thesis
    using write_shows [OF assms(1,2), of "int (length str)"] by (auto simp: ece391_fdputs_def ece391_strlen_eq strlen_cstr [OF assms(3)] n)
qed

lemma literal_shows: "inv s \<Longrightarrow> prints [] s (literal os str s) \<and> umem os (literal os str s) = put_bytes (umem os s) lit (cbytes str @ [0])"
  using store_shows [of s "put_bytes (umem os s) lit (cbytes str @ [0])"] only_locals_mono [OF only_locals_put [of lit 30 "umem os s"], of "{30, 31, 32, 33}"]
  by (simp add: literal_def upd_mem_def)

lemma say_shows:
  assumes "inv s" and "0 \<notin> set (cbytes str)" and "length str < 2 ^ 31"
  shows "\<exists>s'. say os str s = Some s' \<and> prints (cbytes str) s s' \<and> only_locals {30} (umem os s) (umem os s')"
proof -
  note l = literal_shows [OF assms(1), of str]
  have i: "inv (literal os str s)" using l by (simp add: prints_def)
  have "length (cbytes str) = length str" by (simp add: cbytes_def)
  then have "cstr (umem os (literal os str s)) lit (cbytes str)" "length (cbytes str) < 2 ^ 31" using l assms(2,3) by (simp_all add: cstr_put_bytes)
  from fdputs_shows [OF i _ this] obtain s' where s': "say os str s = Some s'" "prints (cbytes str) (literal os str s) s'" "umem os s' = umem os (literal os str s)"
    by (auto simp: say_def)
  moreover have "only_locals {30} (umem os s) (umem os s')" using s'(3) l only_locals_put [of lit 30] by simp
  ultimately show ?thesis using prints_trans [of "[]" s "literal os str s"] l by auto
qed

text \<open>The counter prints the numbers from 1 on, one on a line.\<close>

lemma counter_shows:
  "inv s \<Longrightarrow> n < 2 ^ 32 \<Longrightarrow> \<exists>s'. counter_loop os n s = Some s' \<and> prints (concat (map (\<lambda>i. digit_bytes (to_digits 10 i) @ [0x0A]) [1..<Suc n])) s s'"
proof (induction n)
  case 0
  then show ?case by (simp add: counter_loop_def prints_refl)
next
  case (Suc n)
  then obtain t where t: "counter_loop os n s = Some t" "prints (concat (map (\<lambda>i. digit_bytes (to_digits 10 i) @ [0x0A]) [1..<Suc n])) s t" by auto
  have it: "inv t" using t(2) by (simp add: prints_def)
  have v: "unat (of_nat n + 1 :: u32) = Suc n" using Suc.prems(2) by (simp add: unat_word_ariths unat_of_nat)
  let ?d = "digit_bytes (to_digits 10 (Suc n))"
  let ?m = "put_bytes (umem os t) ubuf (?d @ [0])"
  have m: "ece391_itoa (umem os t) (of_nat n + 1) ubuf 10 = Some ?m" using itoa_digits [of 10 "umem os t" "of_nat n + 1" ubuf] by (simp add: ece391_itoa_eq v)
  have b: "\<forall>d \<in> set (to_digits 10 (Suc n)). d < 10" "length (to_digits 10 (Suc n)) \<le> 10" using to_digits_bounds [of 10 "Suc n" 10] Suc.prems(2) by simp_all
  have d: "0 \<notin> set ?d" "length ?d < 2 ^ 31" using digit_bytes_nonzero [of "to_digits 10 (Suc n)"] b by (force simp: digit_bytes_def)+
  have "only_locals {30, 31, 32, 33} (umem os t) ?m" using only_locals_mono [OF only_locals_put [of ubuf 31 "umem os t"]] by simp
  note st = store_shows [OF it this]
  have "inv (set_umem os ?m t)" "cstr (umem os (set_umem os ?m t)) ubuf ?d" using st d cstr_put_bytes by (simp_all add: prints_def)
  from fdputs_shows [OF this(1) _ this(2) d(2)] obtain u where u: "ece391_fdputs os 1 ubuf (set_umem os ?m t) = Some u" "prints ?d (set_umem os ?m t) u" by auto
  have "inv u" using u(2) by (simp add: prints_def)
  from say_shows [OF this, of "[CHR 0x0A]"] obtain s' where s': "say os [CHR 0x0A] u = Some s'" "prints [0x0A] u s'" by (auto simp: cbytes_def)
  have "prints (?d @ [0x0A]) t s'" using prints_trans [OF prints_trans [OF conjunct1 [OF st] u(2)] s'(2)] by simp
  from prints_trans [OF t(2) this] show ?case using t(1) m u(1) s'(1) by (simp add: counter_loop_def foldo_append)
qed

end

text \<open>Reading files: the view gives the bytes that are still to come from a descriptor.\<close>

locale file_os = terminal_os +
  fixes rest :: "'b \<Rightarrow> int \<Rightarrow> u8 list option"
  assumes read_file: "inv s \<Longrightarrow> rest (view s) fd = Some xs \<Longrightarrow> 0 \<le> n \<Longrightarrow> n \<le> 1024 \<Longrightarrow>
      \<exists>s'. ece391_read os fd ubuf n s = Some (s', int (length (take (nat n) xs))) \<and> inv s' \<and> display s' = display s
        \<and> bytes_at (umem os s') ubuf (length (take (nat n) xs)) = take (nat n) xs \<and> rest (view s') fd = Some (drop (nat n) xs)"
begin

lemma cat_shows:
  "inv s \<Longrightarrow> rest (view s) fd = Some xs \<Longrightarrow>
   \<exists>s'. cat_loop os fd s = Some (s', 0) \<and> inv s' \<and> rest (view s') fd = Some [] \<and> display s' = fold emit (filter (\<lambda>c. c \<noteq> 0) xs) (display s)"
proof (induction "length xs" arbitrary: xs s rule: less_induct)
  case less
  define bs where "bs = take 1024 xs"
  define ys where "ys = drop 1024 xs"
  have xs: "xs = bs @ ys" by (simp add: bs_def ys_def)
  obtain t where t: "ece391_read os fd ubuf 1024 s = Some (t, int (length bs))" "inv t" "display t = display s" "bytes_at (umem os t) ubuf (length bs) = bs"
    "rest (view t) fd = Some ys" using read_file [OF less.prems, of 1024] by (auto simp: bs_def ys_def)
  show ?case
  proof (cases "xs = []")
    case True
    then show ?thesis using t xs by (subst cat_loop.simps) auto
  next
    case False
    then have bs: "bs \<noteq> []" by (simp add: bs_def)
    obtain u where u: "ece391_write os 1 ubuf (int (length bs)) t = Some (u, int (length bs))" "prints (filter (\<lambda>c. c \<noteq> 0) bs) t u"
      using write_shows [OF t(2), of ubuf "int (length bs)"] t(4) by auto
    have "inv u" "rest (view u) fd = Some ys" "length ys < length xs" using u(2) t(5) bs xs by (simp_all add: prints_def)
    from less.hyps [OF this(3,1,2)] obtain s' where s': "cat_loop os fd u = Some (s', 0)" "inv s'" "rest (view s') fd = Some []"
      "display s' = fold emit (filter (\<lambda>c. c \<noteq> 0) ys) (display u)" by blast
    have "int (length bs) \<noteq> 0" "int (length bs) \<noteq> -1" using bs by simp_all
    then have "cat_loop os fd s = Some (s', 0)" using t(1) u(1) s'(1) by (subst cat_loop.simps) (simp only: Option.bind.bind_lunit prod.case if_False)
    moreover have "display u = fold emit (filter (\<lambda>c. c \<noteq> 0) bs) (display s)" using u(2) t(3) by (simp add: prints_def)
    ultimately show ?thesis using s' xs by simp
  qed
qed

end

text \<open>Reading the directory: the view gives the names that are still to come.\<close>

locale directory_os = terminal_os +
  fixes names :: "'b \<Rightarrow> int \<Rightarrow> u8 list list option"
  assumes read_name: "inv s \<Longrightarrow> names (view s) fd = Some (x # xs) \<Longrightarrow>
      \<exists>s'. ece391_read os fd ubuf 32 s = Some (s', 32) \<and> inv s' \<and> display s' = display s \<and> names (view s') fd = Some xs
        \<and> bytes_at (umem os s') ubuf 32 = x @ replicate (32 - length x) 0 \<and> 0 \<notin> set x"
    and read_end: "inv s \<Longrightarrow> names (view s) fd = Some [] \<Longrightarrow> \<exists>s'. ece391_read os fd ubuf 32 s = Some (s', 0) \<and> inv s' \<and> display s' = display s"
begin

lemma ls_shows:
  "inv s \<Longrightarrow> names (view s) fd = Some xs \<Longrightarrow>
   \<exists>s'. ls_loop os fd s = Some (s', 0) \<and> inv s' \<and> display s' = fold emit (concat (map (\<lambda>x. x @ [0x0A]) xs)) (display s)"
proof (induction xs arbitrary: s)
  case Nil
  from read_end [OF this] show ?case by (subst ls_loop.simps) auto
next
  case (Cons x xs)
  obtain t where t: "ece391_read os fd ubuf 32 s = Some (t, 32)" "inv t" "display t = display s" "names (view t) fd = Some xs"
    "bytes_at (umem os t) ubuf 32 = x @ replicate (32 - length x) 0" "0 \<notin> set x" using read_name [OF Cons.prems] by blast
  let ?m = "(umem os t)(padd ubuf 32 := 0x0A)"
  have "only_locals {30, 31, 32, 33} (umem os t) ?m" using only_locals_mono [OF only_locals_upd [of "padd ubuf 32" 31 "umem os t"]] by simp
  note st = store_shows [OF t(2) this]
  have it: "inv (set_umem os ?m t)" using st by (simp add: prints_def)
  have "bytes_at ?m ubuf 32 = bytes_at (umem os t) ubuf 32" by (auto simp: bytes_at_def padd_def upt_conv_Cons)
  then have b: "bytes_at ?m ubuf 33 = x @ replicate (32 - length x) 0 @ [0x0A]"
    using bytes_at_append [of ?m ubuf 32 1] unfolding t(5) by (simp add: bytes_at_Suc bytes_at_0)
  have "filter (\<lambda>c. c \<noteq> 0) (x @ replicate (32 - length x) 0 @ [0x0A]) = x @ [0x0A]" using t(6) by (auto intro!: filter_True)
  then obtain u where u: "ece391_write os 1 ubuf 33 (set_umem os ?m t) = Some (u, 33)" "prints (x @ [0x0A]) (set_umem os ?m t) u"
    using write_shows [OF it, of ubuf 33] st b by auto
  have "inv u" "names (view u) fd = Some xs" using u(2) st t(4) by (simp_all add: prints_def)
  from Cons.IH [OF this] obtain s' where s': "ls_loop os fd u = Some (s', 0)" "inv s'" "display s' = fold emit (concat (map (\<lambda>x. x @ [0x0A]) xs)) (display u)" by blast
  have "display u = fold emit (x @ [0x0A]) (display s)" using u(2) st t(3) by (simp add: prints_def)
  then show ?case using t(1) u(1) s' by (subst ls_loop.simps) (simp add: upd_mem_def Let_def)
qed

end

end
