(* ===== verification/User_Kernel.thy ===== *)
theory User_Kernel
  imports Idt User_Programs
begin

text \<open>
  The user programs on the kernel: the system calls of the kernel keep the contract that the programs
  rely on, so that what was proved of the programs holds of their runs on this kernel. What a program leaves on the screen is what
  the abstract console of the terminal of its process shows.
\<close>

section \<open>The kernel's calls\<close>

text \<open>
  The calls as the kernel provides them, interrupts enabled: the state is the kernel's and the interrupts that are
  still to come. What a program started by \<open>execute\<close> does until it halts is the parameter \<open>run\<close>; \<open>regs\<close> are the
  argument registers of a call made by number alone.
\<close>

type_synonym 'a world = "'a idt_state_scheme \<times> ('a idt_state_scheme \<Rightarrow> 'a idt_state_scheme option) list"

definition kernel_os :: "device \<Rightarrow> (ptr \<Rightarrow> 'a world \<Rightarrow> ('a world \<times> int) option) \<Rightarrow> u32 \<times> u32 \<times> u32 \<Rightarrow> 'a world os" where
  "kernel_os dev run regs =
     (let call = (\<lambda>f (s, q). map_option (\<lambda>(s, r). ((s, q), r)) (f (sti s))) in
      \<lparr>umem = (\<lambda>(s, q). mem s), set_umem = (\<lambda>m (s, q). (s\<lparr>mem := m\<rparr>, q)),
       ece391_execute = run,
       ece391_read = (\<lambda>fd buf n (s, q). map_option (\<lambda>(s, r, q). ((s, q), r)) (sys_read q fd buf n (sti s))),
       ece391_write = (\<lambda>fd buf n. call (sys_write dev fd buf n)),
       ece391_open = (\<lambda>p. call (sys_open dev p)),
       ece391_close = (\<lambda>fd. call (sys_close fd)),
       ece391_getargs = (\<lambda>buf n. call (getargs buf n)),
       ece391_vidmap = (\<lambda>p. call (vidmap p)),
       call_sys = (\<lambda>n (s, q). case regs of (b, c, d) \<Rightarrow>
         (case run_system_call dev q n b c d s of Some (s, Returns r, q) \<Rightarrow> Some ((s, q), r) | _ \<Rightarrow> None))\<rparr>)"

lemma kernel_calls:
  "umem (kernel_os dev run regs) (s, q) = mem s" "set_umem (kernel_os dev run regs) m (s, q) = (s\<lparr>mem := m\<rparr>, q)"
  "ece391_read (kernel_os dev run regs) fd buf n (s, q) = map_option (\<lambda>(s, r, q). ((s, q), r)) (sys_read q fd buf n (sti s))"
  "ece391_write (kernel_os dev run regs) fd buf n (s, q) = map_option (\<lambda>(s, r). ((s, q), r)) (sys_write dev fd buf n (sti s))"
  "ece391_open (kernel_os dev run regs) p (s, q) = map_option (\<lambda>(s, r). ((s, q), r)) (sys_open dev p (sti s))"
  "ece391_close (kernel_os dev run regs) fd (s, q) = map_option (\<lambda>(s, r). ((s, q), r)) (sys_close fd (sti s))"
  "ece391_vidmap (kernel_os dev run regs) x (s, q) = map_option (\<lambda>(s, r). ((s, q), r)) (vidmap x (sti s))"
  by (simp_all add: kernel_os_def Let_def)

section \<open>The kernel keeps the contract\<close>

definition user_ok :: "'a world \<Rightarrow> bool" where
  "user_ok w \<longleftrightarrow> (let s = fst w in kbd_ok s \<and> fs_ready s \<and> length (cur_files s) = 8
     \<and> flags (cur_files s ! 1) = IN_USE \<and> fd_jumptable (cur_files s ! 1) = Some terminal_jumptable)"

text \<open>What a descriptor of a regular file has still to deliver, and a descriptor of the directory.\<close>

definition regular_inode :: "mem \<Rightarrow> u32 \<Rightarrow> u32 \<Rightarrow> bool" where
  "regular_inode m bb i \<longleftrightarrow> inode_wf m bb i
     \<and> (\<exists>k < unat (num_dir m bb). idx_inode m (dentry_at bb (of_nat k)) = i \<and> filetype m (dentry_at bb (of_nat k)) = 2
          \<and> (\<forall>l < k. idx_inode m (dentry_at bb (of_nat l)) \<noteq> i))"

definition file_rest :: "'a proc_state_scheme \<Rightarrow> int \<Rightarrow> u8 list option" where
  "file_rest s fd =
     (let m = mem s; bb = bootblock_ptr s; d = cur_files s ! nat fd; i = inode_indx d in
      if 2 \<le> fd \<and> fd < 8 \<and> flags d = IN_USE \<and> fd_jumptable d = Some filesystem_reg_jumptable \<and> regular_inode m bb i
         \<and> unat (file_position d) \<le> file_length m bb i
      then Some (drop (unat (file_position d)) (file_contents m bb i)) else None)"

definition names_rest :: "'a proc_state_scheme \<Rightarrow> int \<Rightarrow> u8 list list option" where
  "names_rest s fd =
     (let m = mem s; bb = bootblock_ptr s; d = cur_files s ! nat fd in
      if 2 \<le> fd \<and> fd < 8 \<and> flags d = IN_USE \<and> fd_jumptable d = Some filesystem_dir_jumptable \<and> unat (file_position d) \<le> unat (num_dir m bb)
      then Some (map (listed_name m bb) [unat (file_position d)..<unat (num_dir m bb)]) else None)"

text \<open>A process on the terminal that is shown, with an empty line and no modifier key held.\<close>

definition at_prompt :: "'a kbd_state_scheme \<Rightarrow> bool" where
  "at_prompt s \<longleftrightarrow> no_modifiers s \<and> pcb_terminal s = active_terminal s \<and> line s (unat (active_terminal s)) = []"

definition user_view :: "'a world \<Rightarrow> (int \<Rightarrow> u8 list option) \<times> (int \<Rightarrow> u8 list list option) \<times> u32 \<times> file_descriptor list \<times> bool" where
  "user_view w = (let s = fst w in (file_rest s, names_rest s, bootblock_ptr s, cur_files s, at_prompt s))"

definition user_display :: "'a world \<Rightarrow> u32 \<times> grid \<times> grid \<times> nat" where
  "user_display w = pcb_shown (fst w)"

lemma entry_name_locals: "only_locals B m m' \<Longrightarrow> entry_name m' = entry_name m"
  by (intro ext, subst (1 2) entry_name_def, subst only_locals_views(2)) (auto simp: dentry_at_def)

lemma listed_name_locals: "only_locals B m m' \<Longrightarrow> m' (Local 12, 31) = m (Local 12, 31) \<Longrightarrow> listed_name m' = listed_name m"
  by (intro ext) (simp add: listed_name_def entry_name_locals)

lemma dir_lookup_locals: "only_locals B m m' \<Longrightarrow> dir_lookup m' bb name = dir_lookup m bb name"
  by (simp add: dir_lookup_def entry_name_locals only_locals_fs(1))

lemma regular_inode_locals: "only_locals B m m' \<Longrightarrow> regular_inode m' bb i = regular_inode m bb i"
  unfolding regular_inode_def by (simp only: only_locals_fs)

lemma user_view_same:
  assumes "only_locals B (mem s) (mem s')" and "12 \<notin> B" and "bootblock_ptr s' = bootblock_ptr s" and "cur_files s' = cur_files s" and "at_prompt s' = at_prompt s"
  shows "user_view (s', q') = user_view (s, q)"
proof -
  note f = only_locals_fs [OF assms(1)] regular_inode_locals [OF assms(1)]
  have "mem s' (Local 12, 31) = mem s (Local 12, 31)" using only_locals_at [OF assms(1), of "(Local 12, 31)"] assms(2) by auto
  note n = listed_name_locals [OF assms(1) this]
  have "file_rest s' = file_rest s" "names_rest s' = names_rest s"
    by (intro ext; simp only: file_rest_def names_rest_def Let_def assms(3,4) f n)+
  then show ?thesis by (simp add: user_view_def Let_def assms(3-5))
qed

lemma fs_fields_more:
  fixes s s' :: "'a proc_state_scheme"
  assumes "kbd_state.more s' = kbd_state.more s"
  shows "bootblock_ptr s' = bootblock_ptr s" "cur_files s' = cur_files s" "inode_start_addr s' = inode_start_addr s" "data_start_addr s' = data_start_addr s"
  using assms by (cases s; cases s'; simp add: current_PCB_def)+

lemma sti_user: "user_ok (sti s, q) = user_ok (s, q)" "user_view (sti s, q) = user_view (s, q)" "user_display (sti s, q) = user_display (s, q)" "mem (sti s) = mem s"
  "cur_files (sti s) = cur_files s" "kbd_ok (sti s) = kbd_ok s" "fs_ready (sti s) = fs_ready s"
  by (simp_all add: user_ok_def sti_def kbd_ok_def scr_ok_def fs_ready_def current_PCB_def user_view_def Let_def file_rest_def names_rest_def fun_eq_iff user_display_def at_prompt_def no_modifiers_def line_def
      pcb_shown_def console_def cursor_pos_def)

lemma sys_write_terminal: "user_ok (s, q) \<Longrightarrow> p \<noteq> NULL \<Longrightarrow> sys_write dev 1 p n (sti s) = terminal_write 1 p n (sti s)"
  using get_fd_nth [of 1 "sti s"] by (simp add: user_ok_def Let_def sti_user sys_write_def fops_write_def)

interpretation kos: terminal_os "kernel_os dev run regs" user_ok user_view user_display tty_emit
  for dev :: device and run :: "ptr \<Rightarrow> 'a world \<Rightarrow> ('a world \<times> int) option" and regs
proof
  fix w :: "'a world" and p :: ptr and n :: int
  assume w: "user_ok w" and p: "p \<noteq> NULL" and n: "0 \<le> n"
  obtain s q where sq: "w = (s, q)" by (cases w)
  let ?t = "sti s"
  have t: "kbd_ok ?t" "fs_ready s" "length (cur_files s) = 8" "flags (cur_files s ! 1) = 1" "fd_jumptable (cur_files s ! 1) = Some terminal_jumptable"
    using w by (simp_all add: sq user_ok_def Let_def sti_user(6))
  have sw: "sys_write dev 1 p n ?t = terminal_write 1 p n ?t" using sys_write_terminal [OF _ p] w by (simp add: sq)
  obtain s' where s': "terminal_write 1 p n ?t = Some (s', n)" "kbd_ok s'"
    "pcb_shown s' = fold tty_emit (filter (\<lambda>c. c \<noteq> 0) (bytes_at (mem ?t) p (nat n))) (pcb_shown ?t)" "mem s' = mem ?t" "kbd_state.more s' = kbd_state.more ?t" "at_prompt s' = at_prompt ?t"
    using terminal_write_result [OF t(1) n p, of 1] by (auto simp: at_prompt_def)
  note f = fs_fields_more [OF s'(5)]
  have ok: "user_ok (s', q)" using s'(2,4) f t by (simp add: user_ok_def Let_def fs_ready_def sti_user) (simp add: sti_def)
  have v: "user_view (s', q) = user_view (s, q)"
    using user_view_same [of "{}" ?t s' q q] s'(4,6) f sti_user(2) [of s q] by simp
  have "ece391_write (kernel_os dev run regs) 1 p n w = Some ((s', q), n)" using sw s'(1) by (simp add: kernel_calls Let_def sq)
  moreover have "umem (kernel_os dev run regs) (s', q) = umem (kernel_os dev run regs) w" using s'(4) by (simp add: kernel_calls Let_def sq sti_user(4))
  moreover have "user_display (s', q) = fold tty_emit (filter (\<lambda>c. c \<noteq> 0) (bytes_at (umem (kernel_os dev run regs) w) p (nat n))) (user_display w)"
    using s'(3) sti_user(3) [of s q] by (simp add: kernel_calls Let_def sq user_display_def sti_user(4))
  ultimately show "\<exists>s'. ece391_write (kernel_os dev run regs) 1 p n w = Some (s', n) \<and> user_ok s' \<and> user_view s' = user_view w
      \<and> umem (kernel_os dev run regs) s' = umem (kernel_os dev run regs) w
      \<and> user_display s' = fold tty_emit (filter (\<lambda>c. c \<noteq> 0) (bytes_at (umem (kernel_os dev run regs) w) p (nat n))) (user_display w)"
    using ok v sq by blast
next
  fix w :: "'a world" and m
  assume w: "user_ok w" and m: "only_locals {30, 31, 32, 33} (umem (kernel_os dev run regs) w) m"
  obtain s q where sq: "w = (s, q)" by (cases w)
  have o: "only_locals {30, 31, 32, 33} (mem s) m" using m by (simp add: kernel_calls Let_def sq)
  have "user_ok (s\<lparr>mem := m\<rparr>, q)" using w only_locals_ready [OF o] by (simp add: user_ok_def Let_def sq kbd_ok_def scr_ok_def current_PCB_def)
  moreover have "user_view (s\<lparr>mem := m\<rparr>, q) = user_view w" using user_view_same [of _ s "s\<lparr>mem := m\<rparr>" q q] o by (simp add: sq at_prompt_def no_modifiers_def line_def)
  moreover have "user_display (s\<lparr>mem := m\<rparr>, q) = user_display w" by (simp add: user_display_def sq pcb_shown_def console_def cursor_pos_def)
  ultimately show "user_ok (set_umem (kernel_os dev run regs) m w) \<and> user_view (set_umem (kernel_os dev run regs) m w) = user_view w
      \<and> umem (kernel_os dev run regs) (set_umem (kernel_os dev run regs) m w) = m \<and> user_display (set_umem (kernel_os dev run regs) m w) = user_display w"
    by (simp add: kernel_calls Let_def sq)
qed

text \<open>A change of one descriptor leaves the files behind the others as they are.\<close>

lemma file_rest_other:
  assumes "only_locals B (mem s) (mem s')" and "bootblock_ptr s' = bootblock_ptr s" and "cur_files s' = (cur_files s)[nat fd := d]" and "0 \<le> fd" and "fd' \<noteq> fd"
  shows "file_rest s' fd' = file_rest s fd'"
proof (cases "2 \<le> fd'")
  case True
  then have "nat fd \<noteq> nat fd'" using assms(4,5) by simp
  then show ?thesis by (simp add: file_rest_def Let_def assms(2,3) only_locals_fs [OF assms(1)] regular_inode_locals [OF assms(1)])
qed (simp add: file_rest_def Let_def)

lemma read_file_kernel:
  assumes "user_ok (s, q)" and "file_rest s fd = Some xs" and "0 \<le> n" and "n \<le> 1024" and "bs = take (nat n) xs" and "fst p = Local j"
  shows "\<exists>s'. sys_read q fd p n s = Some (s', int (length bs), q) \<and> user_ok (s', q) \<and> user_display (s', q) = user_display (s, q)
    \<and> bytes_at (mem s') p (length bs) = bs \<and> file_rest s' = (file_rest s)(fd \<mapsto> drop (nat n) xs) \<and> only_locals {4, 11, j} (mem s) (mem s')
    \<and> (bs = [] \<longrightarrow> only_locals {4, 11} (mem s) (mem s')) \<and> (\<exists>d. cur_files s' = (cur_files s)[nat fd := d])"
proof -
  let ?m = "mem s" and ?bb = "bootblock_ptr s"
  define d where "d = cur_files s ! nat fd"
  have u: "fs_ready s" "kbd_ok s" "length (cur_files s) = 8" using assms(1) by (simp_all add: user_ok_def Let_def)
  have fd: "2 \<le> fd" "fd < 8" "0 \<le> fd" and d: "flags d = IN_USE" "fd_jumptable d = Some filesystem_reg_jumptable" "inode_wf ?m ?bb (inode_indx d)"
    "unat (file_position d) \<le> file_length ?m ?bb (inode_indx d)" "regular_inode ?m ?bb (inode_indx d)" and xs: "xs = drop (unat (file_position d)) (file_contents ?m ?bb (inode_indx d))"
    using assms(2) by (auto simp: file_rest_def regular_inode_def Let_def d_def split: if_splits)
  obtain k where k: "k < unat (num_dir ?m ?bb)" "idx_inode ?m (dentry_at ?bb (of_nat k)) = inode_indx d" "\<And>l. l < k \<Longrightarrow> idx_inode ?m (dentry_at ?bb (of_nat l)) \<noteq> inode_indx d"
    "filetype ?m (dentry_at ?bb (of_nat k)) = 2"
    using d(5) by (auto simp: regular_inode_def)
  have fl: "file_length ?m ?bb (inode_indx d) < 1023 * 4096" using d(3) by (simp add: inode_wf_def)
  have lb: "length bs \<le> 1024" "length bs mod 65536 = length bs" using assms(4,5) by simp_all
  have "unat (file_position d) + nat n < 2 ^ 32" using d(4) fl assms(4) by simp
  moreover have "\<not> in_fs ?m ?bb x" if "in_region p (length bs) x" for x
    using that not_in_fs_local [of ?m ?bb j] assms(6) by (cases x) (auto simp: in_region_def)
  ultimately obtain m' where m': "read_fs fd p n s = Some ((with_files ((cur_files s)[nat fd := d\<lparr>file_position := file_position d + of_nat (length bs)\<rparr>]) s)
      \<lparr>mem := put_bytes m' p bs\<rparr>, int (length bs))" "only_locals {4, 11} ?m m'"
    using read_fs_result [OF u(1) refl u(3) fd(3,2) d_def k d(3) assms(3), of bs p] assms(5) xs unfolding lb(2) by auto
  define s' where "s' = (with_files ((cur_files s)[nat fd := d\<lparr>file_position := file_position d + of_nat (length bs)\<rparr>]) s)\<lparr>mem := put_bytes m' p bs\<rparr>"
  have "get_fd fd s = Some d" using get_fd_nth [OF fd(3), of s] u(3) fd(2) by (simp add: d_def)
  then have "sys_read q fd p n s = Some (s', int (length bs), q)" using m'(1) d(1,2) fd assms(6) by (auto simp: sys_read_def fops_read_def s'_def)
  moreover have ol: "only_locals {4, 11, j} ?m (mem s')" using only_locals_trans [OF m'(2) only_locals_put [OF assms(6), of m' bs]] by (simp add: s'_def insert_commute)
  moreover have cf: "cur_files s' = (cur_files s)[nat fd := d\<lparr>file_position := file_position d + of_nat (length bs)\<rparr>]" "bootblock_ptr s' = ?bb" by (simp_all add: s'_def with_files_def current_PCB_def)
  moreover have "user_ok (s', q)"
    using assms(1) fd only_locals_ready [OF ol u(1)] cf by (simp add: user_ok_def Let_def s'_def fs_ready_def with_files_def kbd_ok_def scr_ok_def current_PCB_def)
  moreover have "user_display (s', q) = user_display (s, q)" by (simp add: user_display_def s'_def with_files_def pcb_shown_def console_def cursor_pos_def)
  moreover have "bytes_at (mem s') p (length bs) = bs" using lb(1) by (simp add: s'_def bytes_at_put_bytes)
  moreover have own: "file_rest s' fd = Some (drop (nat n) xs)"
  proof -
    have "unat (file_position d) + length bs \<le> file_length ?m ?bb (inode_indx d)" using d(4) assms(5) xs by (simp add: file_contents_def)
    then have pos: "unat (file_position d + of_nat (length bs)) = unat (file_position d) + length bs" using fl lb(1) by (simp add: unat_word_ariths unat_of_nat)
    have "drop (unat (file_position d) + length bs) (file_contents ?m ?bb (inode_indx d)) = drop (nat n) xs"
      using assms(5) xs by (auto simp: min_def add.commute)
    then show ?thesis
      using fd u(3) d k pos \<open>unat (file_position d) + length bs \<le> file_length ?m ?bb (inode_indx d)\<close>
      by (auto simp: file_rest_def Let_def cf only_locals_fs [OF ol] regular_inode_locals [OF ol])
  qed
  moreover have "file_rest s' fd' = file_rest s fd'" if "fd' \<noteq> fd" for fd' by (rule file_rest_other [OF ol cf(2,1) fd(3) that])
  then have "file_rest s' = (file_rest s)(fd \<mapsto> drop (nat n) xs)" using own by (simp add: fun_eq_iff)
  moreover have "bs = [] \<longrightarrow> only_locals {4, 11} ?m (mem s')" using m'(2) by (simp add: s'_def)
  ultimately show ?thesis by blast
qed

lemma read_name_kernel:
  assumes "user_ok (s, q)" and "names_rest s fd = Some xs"
  shows "\<exists>s'. sys_read q fd ubuf 32 s = Some (s', if xs = [] then 0 else 32, q) \<and> user_ok (s', q) \<and> user_display (s', q) = user_display (s, q)
    \<and> (xs \<noteq> [] \<longrightarrow> names_rest s' fd = Some (tl xs) \<and> bytes_at (mem s') ubuf 32 = hd xs @ replicate (32 - length (hd xs)) 0 \<and> 0 \<notin> set (hd xs))"
proof -
  let ?m = "mem s" and ?bb = "bootblock_ptr s"
  define d where "d = cur_files s ! nat fd"
  define pos where "pos = unat (file_position d)"
  define name where "name = take (nat 32) (listed_name ?m ?bb pos)"
  have u: "fs_ready s" "kbd_ok s" "length (cur_files s) = 8" using assms(1) by (simp_all add: user_ok_def Let_def)
  have fd: "2 \<le> fd" "fd < 8" "0 \<le> fd" and d: "flags d = IN_USE" "fd_jumptable d = Some filesystem_dir_jumptable" "pos \<le> unat (num_dir ?m ?bb)"
    and xs: "xs = map (listed_name ?m ?bb) [pos..<unat (num_dir ?m ?bb)]"
    using assms(2) by (auto simp: names_rest_def Let_def d_def pos_def split: if_splits)
  define s1 where "s1 = with_files ((cur_files s)[nat fd := d\<lparr>file_position := file_position d + 1\<rparr>]) s"
  have "get_fd fd s = Some d" using get_fd_nth [OF fd(3), of s] u(3) fd(2) by (simp add: d_def)
  then have rd: "sys_read q fd ubuf 32 s = map_option (\<lambda>(s, r). (s, r, q)) (read_fs_dir fd ubuf 32 s)" using d(1,2) fd by (simp add: sys_read_def fops_read_def)
  have keep: "user_ok (s1\<lparr>mem := m\<rparr>, q) \<and> user_display (s1\<lparr>mem := m\<rparr>, q) = user_display (s, q)" if "only_locals B ?m m" for B m
    using assms(1) fd only_locals_ready [OF that u(1)]
    by (simp add: user_ok_def Let_def s1_def fs_ready_def with_files_def kbd_ok_def scr_ok_def current_PCB_def user_display_def pcb_shown_def console_def cursor_pos_def)
  note res = read_fs_dir_result [OF u(1) refl u(3) fd(3,2) d_def pos_def _ _ _ _ s1_def name_def, of ubuf, simplified]
  show ?thesis
  proof (cases "pos < unat (num_dir ?m ?bb)")
    case False
    then have "read_fs_dir fd ubuf 32 s = Some (s1, 0)" using res by simp
    moreover have "s1\<lparr>mem := ?m\<rparr> = s1" by (cases s; simp add: s1_def with_files_def)
    ultimately show ?thesis using rd xs False keep [OF only_locals_refl] by simp
  next
    case True
    have len: "length (listed_name ?m ?bb pos) \<le> 32" using listed_name_length [of ?m ?bb pos] by simp
    then have nm: "name = listed_name ?m ?bb pos" by (simp add: name_def)
    obtain m' where m': "read_fs_dir fd ubuf 32 s = Some (s1\<lparr>mem := put_bytes m' ubuf (name @ replicate (32 - length name) 0)\<rparr>, 32)" "only_locals {4, 12} ?m m'" "m' (Local 12, 31) = ?m (Local 12, 31)"
      using res True by auto
    define s' where "s' = s1\<lparr>mem := put_bytes m' ubuf (name @ replicate (32 - length name) 0)\<rparr>"
    have ol: "only_locals {4, 12, 31} ?m (mem s')" using only_locals_trans [OF m'(2) only_locals_put [of ubuf 31]] by (simp add: s'_def insert_commute)
    have cf: "cur_files s' = (cur_files s)[nat fd := d\<lparr>file_position := file_position d + 1\<rparr>]" "bootblock_ptr s' = ?bb"
      by (simp_all add: s'_def s1_def with_files_def current_PCB_def)
    have pos: "unat (file_position d + 1) = Suc pos" using unat_add_1_less [of "file_position d" "num_dir ?m ?bb"] True by (simp add: pos_def word_less_nat_alt)
    have "mem s' (Local 12, 31) = ?m (Local 12, 31)" using m'(3) by (simp add: s'_def put_bytes_other in_region_def)
    note ln = listed_name_locals [OF ol this]
    have x: "xs = name # map (listed_name ?m ?bb) [Suc pos..<unat (num_dir ?m ?bb)]" using xs True nm by (simp add: upt_conv_Cons)
    have "names_rest s' fd = Some (tl xs)" using fd u(3) d(1,2) pos True x by (simp add: names_rest_def Let_def cf only_locals_fs [OF ol] ln)
    moreover have "bytes_at (mem s') ubuf 32 = name @ replicate (32 - length name) 0"
      using bytes_at_put_bytes [of 32 "name @ replicate (32 - length name) 0" m' ubuf] len nm by (simp add: s'_def)
    moreover have "0 \<notin> set name" unfolding nm by (rule listed_name_nonzero)
    moreover have "user_ok (s', q) \<and> user_display (s', q) = user_display (s, q)" using keep [of "{4, 12, 31}" "mem s'"] ol by (simp add: s'_def)
    moreover have "sys_read q fd ubuf 32 s = Some (s', 32, q)" using rd m'(1) by (simp add: s'_def)
    ultimately show ?thesis using x by simp
  qed
qed

interpretation kfiles: file_os "kernel_os dev run regs" user_ok user_view user_display tty_emit fst
  for dev :: device and run :: "ptr \<Rightarrow> 'a world \<Rightarrow> ('a world \<times> int) option" and regs
proof
  fix w :: "'a world" and fd xs and n :: int
  assume w: "user_ok w" "fst (user_view w) fd = Some xs" and n: "0 \<le> n" "n \<le> 1024"
  obtain s q where sq: "w = (s, q)" by (cases w)
  have "user_ok (sti s, q)" "file_rest (sti s) fd = Some xs" using w sti_user(1,2) [of s q] by (simp_all add: sq user_view_def Let_def)
  from read_file_kernel [OF this n refl, of ubuf 31] obtain s' where
    "sys_read q fd ubuf n (sti s) = Some (s', int (length (take (nat n) xs)), q)" "user_ok (s', q)" "user_display (s', q) = user_display (sti s, q)"
    "bytes_at (mem s') ubuf (length (take (nat n) xs)) = take (nat n) xs" "file_rest s' fd = Some (drop (nat n) xs)" by auto
  then show "\<exists>s'. ece391_read (kernel_os dev run regs) fd ubuf n w = Some (s', int (length (take (nat n) xs))) \<and> user_ok s' \<and> user_display s' = user_display w
      \<and> bytes_at (umem (kernel_os dev run regs) s') ubuf (length (take (nat n) xs)) = take (nat n) xs \<and> fst (user_view s') fd = Some (drop (nat n) xs)"
    by (intro exI [of _ "(s', q)"]) (simp add: kernel_calls Let_def sq user_view_def sti_user(3))
qed

interpretation kdir: directory_os "kernel_os dev run regs" user_ok user_view user_display tty_emit "\<lambda>v. fst (snd v)"
  for dev :: device and run :: "ptr \<Rightarrow> 'a world \<Rightarrow> ('a world \<times> int) option" and regs
proof -
  have read: "\<exists>w'. ece391_read (kernel_os dev run regs) fd ubuf 32 w = Some (w', if xs = [] then 0 else 32) \<and> user_ok w' \<and> user_display w' = user_display w
      \<and> (xs \<noteq> [] \<longrightarrow> fst (snd (user_view w')) fd = Some (tl xs) \<and> bytes_at (umem (kernel_os dev run regs) w') ubuf 32 = hd xs @ replicate (32 - length (hd xs)) 0 \<and> 0 \<notin> set (hd xs))"
    if w: "user_ok w" "fst (snd (user_view w)) fd = Some xs" for w :: "'a world" and fd xs
  proof -
    obtain s q where sq: "w = (s, q)" by (cases w)
    have "user_ok (sti s, q)" "names_rest (sti s) fd = Some xs" using w sti_user(1,2) [of s q] by (simp_all add: sq user_view_def Let_def)
    from read_name_kernel [OF this] obtain s' where
      "sys_read q fd ubuf 32 (sti s) = Some (s', if xs = [] then 0 else 32, q)" "user_ok (s', q)" "user_display (s', q) = user_display (sti s, q)"
      "xs \<noteq> [] \<longrightarrow> names_rest s' fd = Some (tl xs) \<and> bytes_at (mem s') ubuf 32 = hd xs @ replicate (32 - length (hd xs)) 0 \<and> 0 \<notin> set (hd xs)" by blast
    then show ?thesis by (intro exI [of _ "(s', q)"]) (simp add: kernel_calls Let_def sq user_view_def sti_user(3))
  qed
  show "directory_os (kernel_os dev run regs) user_ok user_view user_display tty_emit (\<lambda>v. fst (snd v))"
    by unfold_locales (use read in \<open>force+\<close>)
qed


section \<open>Opening files\<close>

text \<open>The descriptor the next \<open>open\<close> gets.\<close>

definition first_fd :: "'a proc_state_scheme \<Rightarrow> nat option" where
  "first_fd s = fds.first_free (cur_files s)"

lemma first_fd_range: "first_fd s = Some fd \<Longrightarrow> 2 \<le> fd \<and> fd < 8"
  by (simp add: first_fd_def fds.first_free_Some)

lemma user_fields_more:
  fixes s s' :: "'a idt_state_scheme"
  assumes "pic_state.more s' = pic_state.more (s\<lparr>pcbs := P\<rparr>)"
  shows "kbd_ok s' = kbd_ok s" "pcb_shown s' = pcb_shown s" "bootblock_ptr s' = bootblock_ptr s" "inode_start_addr s' = inode_start_addr s" "data_start_addr s' = data_start_addr s"
  using assms by (cases s; cases s'; simp add: kbd_ok_def scr_ok_def pcb_shown_def console_def cursor_pos_def)+

lemma open_kernel:
  assumes "user_ok (s, q)" and "cstr (mem s) p name" and "fst p \<in> {Local 30, Local 31}"
    and "\<And>k. name \<noteq> [] \<Longrightarrow> dir_lookup (mem s) (bootblock_ptr s) name = Some k \<Longrightarrow> filetype (mem s) (dentry_at (bootblock_ptr s) (of_nat k)) \<le> 2"
  shows "\<exists>s' r. sys_open dev p s = Some (s', r) \<and> user_ok (s', q) \<and> user_display (s', q) = user_display (s, q) \<and> only_locals {1, 2, 13} (mem s) (mem s')
    \<and> bootblock_ptr s' = bootblock_ptr s
    \<and> (case (if name = [] then None else dir_lookup (mem s) (bootblock_ptr s) name, first_fd s) of
        (Some k, Some fd) \<Rightarrow> let e = dentry_at (bootblock_ptr s) (of_nat k) in r = int fd
          \<and> cur_files s' = (cur_files s)[fd := opened_fd (fop_tables ! unat (filetype (mem s) e)) (if filetype (mem s) e = 2 then idx_inode (mem s) e else 0)]
      | _ \<Rightarrow> r = -1 \<and> cur_files s' = cur_files s)"
proof -
  have u: "fs_ready s" "length (cur_files s) = 8" "kbd_ok s" "flags (cur_files s ! 1) = IN_USE" "fd_jumptable (cur_files s ! 1) = Some terminal_jumptable"
    using assms(1) by (simp_all add: user_ok_def Let_def)
  have p: "p \<noteq> NULL" "fst p \<notin> {Local 2, Local 13}" using assms(3) by auto
  have lk: "lookup_name (mem s) (bootblock_ptr s) p = dir_lookup (mem s) (bootblock_ptr s) name" by (rule lookup_name_dir [OF assms(2)])
  obtain s' r where s': "sys_open dev p s = Some (s', r)" "only_locals {1, 2, 13} (mem s) (mem s')" "esp s' = esp s" "pic_state.more s' = pic_state.more (s\<lparr>pcbs := pcbs s'\<rparr>)"
    "case (if name = [] then None else dir_lookup (mem s) (bootblock_ptr s) name, first_fd s) of
        (Some k, Some fd) \<Rightarrow> let e = dentry_at (bootblock_ptr s) (of_nat k) in r = int fd
          \<and> pcbs s' = pcbs (with_files ((cur_files s)[fd := opened_fd (fop_tables ! unat (filetype (mem s) e))
                       (if filetype (mem s) e = 2 then idx_inode (mem s) e else 0)]) s)
      | _ \<Rightarrow> r = -1 \<and> pcbs s' = pcbs s"
    using sys_open_result [OF u(1) assms(2) p u(2) refl, of dev, unfolded lk, folded first_fd_def, OF assms(4)] by auto
  note f = user_fields_more [OF s'(4)]
  have cp: "current_PCB s' = current_PCB s" using s'(3) by (simp add: current_PCB_def)
  have cf: "case (if name = [] then None else dir_lookup (mem s) (bootblock_ptr s) name, first_fd s) of
        (Some k, Some fd) \<Rightarrow> let e = dentry_at (bootblock_ptr s) (of_nat k) in r = int fd
          \<and> cur_files s' = (cur_files s)[fd := opened_fd (fop_tables ! unat (filetype (mem s) e)) (if filetype (mem s) e = 2 then idx_inode (mem s) e else 0)]
      | _ \<Rightarrow> r = -1 \<and> cur_files s' = cur_files s"
    using s'(5) unfolding cp by (auto simp: Let_def with_files_def split: option.splits if_splits)
  have "\<forall>fd. first_fd s = Some fd \<longrightarrow> fd \<noteq> 1" using first_fd_range by fastforce
  then have "length (cur_files s') = 8 \<and> cur_files s' ! 1 = cur_files s ! 1" using cf u(2) by (auto simp: Let_def split: option.splits if_splits)
  then have "user_ok (s', q)" using u f only_locals_ready [OF s'(2) u(1)] by (simp add: user_ok_def Let_def fs_ready_def)
  then show ?thesis using s'(1,2) f(2,3) cf by (auto simp: user_display_def)
qed

text \<open>Opening a file by a literal name.\<close>

lemma open_literal_kernel:
  fixes dev :: device and run :: "ptr \<Rightarrow> 'a world \<Rightarrow> ('a world \<times> int) option" and s :: "'a idt_state_scheme"
  assumes "user_ok (s, q)" and "0 \<notin> set (cbytes str)" and "length str < 1000"
    and "lk = (if str = [] then None else dir_lookup (mem s) (bootblock_ptr s) (cbytes str))"
    and "\<And>k. lk = Some k \<Longrightarrow> filetype (mem s) (dentry_at (bootblock_ptr s) (of_nat k)) \<le> 2"
  shows "\<exists>s' r. ece391_open (kernel_os dev run regs) lit (literal (kernel_os dev run regs) str (s, q)) = Some ((s', q), r)
    \<and> user_ok (s', q) \<and> user_display (s', q) = user_display (s, q) \<and> only_locals {1, 2, 13, 30} (mem s) (mem s') \<and> bootblock_ptr s' = bootblock_ptr s
    \<and> (case (lk, first_fd s) of
        (Some k, Some fd) \<Rightarrow> let x = dentry_at (bootblock_ptr s) (of_nat k) in r = int fd
          \<and> cur_files s' = (cur_files s)[fd := opened_fd (fop_tables ! unat (filetype (mem s) x)) (if filetype (mem s) x = 2 then idx_inode (mem s) x else 0)]
      | _ \<Rightarrow> r = -1 \<and> cur_files s' = cur_files s)"
proof -
  let ?os = "kernel_os dev run regs"
  let ?m = "put_bytes (mem s) lit (cbytes str @ [0])"
  have lit: "literal ?os str (s, q) = (s\<lparr>mem := ?m\<rparr>, q)" by (simp add: literal_def upd_mem_def kernel_calls)
  define t where "t = sti (s\<lparr>mem := ?m\<rparr>)"
  have ol: "only_locals {30} (mem s) ?m" by (rule only_locals_put) simp
  note l = kos.literal_shows [OF assms(1), of dev run regs str, unfolded lit kos.prints_def]
  have t: "user_ok (t, q)" "user_display (t, q) = user_display (s, q)" "mem t = ?m" "bootblock_ptr t = bootblock_ptr s" "cur_files t = cur_files s"
    using l sti_user(1,3) [of "s\<lparr>mem := ?m\<rparr>" q] by (simp_all add: t_def sti_user(4)) (simp_all add: sti_def current_PCB_def)
  have c: "cstr (mem t) lit (cbytes str)" unfolding t(3) by (rule cstr_put_bytes) (use assms(2,3) in \<open>simp_all add: cbytes_def\<close>)
  have e: "cbytes str = [] \<longleftrightarrow> str = []" "first_fd t = first_fd s" by (simp_all add: cbytes_def first_fd_def t(5))
  obtain s' r where s': "sys_open dev lit t = Some (s', r)" "user_ok (s', q)" "user_display (s', q) = user_display (s, q)" "only_locals {1, 2, 13} ?m (mem s')" "bootblock_ptr s' = bootblock_ptr s"
    "case (lk, first_fd s) of
        (Some k, Some fd) \<Rightarrow> let x = dentry_at (bootblock_ptr s) (of_nat k) in r = int fd
          \<and> cur_files s' = (cur_files s)[fd := opened_fd (fop_tables ! unat (filetype (mem s) x)) (if filetype (mem s) x = 2 then idx_inode (mem s) x else 0)]
      | _ \<Rightarrow> r = -1 \<and> cur_files s' = cur_files s"
    using open_kernel [OF t(1) c, of dev, unfolded Let_def t e dir_lookup_locals [OF ol] only_locals_fs [OF ol], folded assms(4)]
      assms(4,5) unfolding Let_def by auto
  have "only_locals {1, 2, 13, 30} (mem s) (mem s')" using only_locals_trans [OF ol s'(4)] by (simp add: insert_commute)
  moreover have "ece391_open ?os lit (literal ?os str (s, q)) = Some ((s', q), r)" unfolding lit kernel_calls using s'(1) by (simp add: t_def)
  ultimately show ?thesis using s' by auto
qed

section \<open>Correctness\<close>

lemma cstr_put_prefix: "0 \<notin> set s \<Longrightarrow> length s + length t < 2 ^ 32 - 1 \<Longrightarrow> cstr (put_bytes m p (s @ 0 # t)) p s"
  unfolding cstr_def bytes_at_eq_iff
  by (auto simp: put_bytes_def fill_region_apply unat_of_nat nth_append intro!: nth_equalityI)

lemma upto_nul_split: "0 \<in> set bs \<Longrightarrow> \<exists>rest. bs = upto_nul bs @ 0 # rest"
  by (induction bs) auto

lemma upto_nul_zero: "0 \<notin> set (upto_nul bs)"
  by (induction bs) auto

text \<open>Once a file's name is in its buffer, \<open>cat\<close> prints the file.\<close>

lemma cat_open_prints:
  assumes "user_ok (s, q)" and "cstr (mem s) ubuf name" and "name \<noteq> []" and "bb = bootblock_ptr s" and "dir_lookup (mem s) bb name = Some k" and "e = dentry_at bb (of_nat k)"
    and "filetype (mem s) e = 2" and "regular_inode (mem s) bb (idx_inode (mem s) e)" and "first_fd s \<noteq> None"
  shows "\<exists>w. cat_open (kernel_os dev run regs) (s, q) = Some (w, 0)
    \<and> user_display w = fold tty_emit (filter (\<lambda>c. c \<noteq> 0) (file_contents (mem s) bb (idx_inode (mem s) e))) (user_display (s, q))"
proof -
  let ?i = "idx_inode (mem s) e"
  obtain fd where fd: "first_fd s = Some fd" using assms(9) by blast
  then have fd2: "2 \<le> fd" "fd < 8" using first_fd_range by blast+
  have st: "user_ok (sti s, q)" "cstr (mem (sti s)) ubuf name" "bootblock_ptr (sti s) = bb" using assms(1,2,4) by (simp_all add: sti_user) (simp add: sti_def)
  have ft: "filetype (mem (sti s)) (dentry_at bb (of_nat j)) \<le> 2" if "dir_lookup (mem (sti s)) bb name = Some j" for j
    using that assms(5-7) by (simp add: sti_user)
  obtain s' where s': "sys_open dev ubuf (sti s) = Some (s', int fd)" "user_ok (s', q)" "user_display (s', q) = user_display (s, q)" "only_locals {1, 2, 13} (mem s) (mem s')"
    "bootblock_ptr s' = bb" "cur_files s' = (cur_files s)[fd := opened_fd filesystem_reg_jumptable ?i]"
    using open_kernel [OF st(1,2), of dev] ft assms(3,5-7) fd by (auto simp: st(3) sti_user first_fd_def fop_tables_def Let_def)
  have "length (cur_files s) = 8" using assms(1) by (simp add: user_ok_def Let_def)
  then have "file_rest s' (int fd) = Some (file_contents (mem s) bb ?i)"
    using s'(5,6) fd2 assms(8) by (simp add: file_rest_def Let_def opened_fd_def only_locals_fs [OF s'(4)] regular_inode_locals [OF s'(4)])
  then have "fst (user_view (s', q)) (int fd) = Some (file_contents (mem s) bb ?i)" by (simp add: user_view_def Let_def)
  from kfiles.cat_shows [OF s'(2) this, of dev run regs] obtain w where w: "cat_loop (kernel_os dev run regs) (int fd) (s', q) = Some (w, 0)"
    "user_display w = fold tty_emit (filter (\<lambda>c. c \<noteq> 0) (file_contents (mem s) bb ?i)) (user_display (s', q))" by blast
  have "ece391_open (kernel_os dev run regs) ubuf (s, q) = Some ((s', q), int fd)" using s'(1) by (simp add: kernel_calls)
  then show ?thesis using w s'(3) by (simp add: cat_open_def)
qed

text \<open>
  \<open>cat\<close> and \<open>grep\<close> ask for 1024 bytes of arguments. The kernel keeps 128, and copies as many as are asked
  for, so with an argument both read past the end of the control block's array.
\<close>

lemma getargs_overrun:
  assumes "length (args (pcbs s (current_PCB s))) = 128" and "args (pcbs s (current_PCB s)) ! 0 \<noteq> 0"
  shows "cat_main (kernel_os dev run regs) (s, q) = None" "grep_main (kernel_os dev run regs) (s, q) = None"
proof -
  have "pcbs (sti s) (current_PCB (sti s)) = pcbs s (current_PCB s)" by (simp add: sti_def current_PCB_def)
  then have "getargs p 1024 (sti s) = None" if "p \<noteq> NULL" for p using getargs_correct [of "sti s" p 1024] assms that by simp
  then have "ece391_getargs (kernel_os dev run regs) p 1024 (s, q) = None" if "p \<noteq> NULL" for p using that by (simp add: kernel_os_def Let_def)
  then show "cat_main (kernel_os dev run regs) (s, q) = None" "grep_main (kernel_os dev run regs) (s, q) = None" by (simp_all add: cat_main_def grep_main_def)
qed

text \<open>
  C21: what \<open>cat\<close> does on this kernel. Without an argument it prints that it could not read its arguments and returns 3. With an argument it
  has no defined result: it asks \<open>getargs\<close> for 1024 bytes, and the kernel reads as many from an array of 128. Whatever 896 bytes
  the kernel finds behind the array, if the argument names a regular file and a descriptor is free, then \<open>cat\<close> prints from there on the whole file, byte for byte except for zeros,
  and returns 0.
\<close>

theorem cat_prints_file:
  assumes "user_ok (s, q)" and "bb = bootblock_ptr s" and "a = args (pcbs s (current_PCB s))" and "length a = 128"
  shows "(a ! 0 = 0 \<longrightarrow> (\<exists>w. cat_main (kernel_os dev run regs) (s, q) = Some (w, 3)
      \<and> user_display w = fold tty_emit (cbytes (''could not read arguments'' @ [CHR 0x0A])) (user_display (s, q))))
    \<and> (a ! 0 \<noteq> 0 \<longrightarrow> cat_main (kernel_os dev run regs) (s, q) = None)
    \<and> (\<forall>behind k. length behind = 896 \<and> a ! 0 \<noteq> 0 \<and> 0 \<in> set a \<and> dir_lookup (mem s) bb (upto_nul a) = Some k \<and> filetype (mem s) (dentry_at bb (of_nat k)) = 2
        \<and> regular_inode (mem s) bb (idx_inode (mem s) (dentry_at bb (of_nat k))) \<and> first_fd s \<noteq> None \<longrightarrow>
      (\<exists>w. cat_open (kernel_os dev run regs) (s\<lparr>mem := put_bytes (mem s) ubuf (a @ behind)\<rparr>, q) = Some (w, 0)
        \<and> user_display w = fold tty_emit (filter (\<lambda>c. c \<noteq> 0) (file_contents (mem s) bb (idx_inode (mem s) (dentry_at bb (of_nat k))))) (user_display (s, q))))"
proof (intro conjI impI allI)
  assume z: "a ! 0 = 0"
  have a: "args (pcbs (sti s) (current_PCB (sti s))) = a" by (simp add: assms(3) sti_def current_PCB_def)
  have "getargs ubuf 1024 (sti s) = Some (sti s, -1)" using getargs_correct [of "sti s" ubuf 1024] a assms(4) z by simp
  then have g: "ece391_getargs (kernel_os dev run regs) ubuf 1024 (s, q) = Some ((sti s, q), -1)" by (simp add: kernel_os_def Let_def)
  have "user_ok (sti s, q)" "0 \<notin> set (cbytes (''could not read arguments'' @ [CHR 0x0A]))" using assms(1) by (simp_all add: sti_user cbytes_def)
  from kos.say_shows [OF this, of dev run regs] obtain w where "say (kernel_os dev run regs) (''could not read arguments'' @ [CHR 0x0A]) (sti s, q) = Some w"
    "user_display w = fold tty_emit (cbytes (''could not read arguments'' @ [CHR 0x0A])) (user_display (sti s, q))" by (auto simp: kos.prints_def)
  then show "\<exists>w. cat_main (kernel_os dev run regs) (s, q) = Some (w, 3)
      \<and> user_display w = fold tty_emit (cbytes (''could not read arguments'' @ [CHR 0x0A])) (user_display (s, q))"
    using g by (simp add: cat_main_def sti_user)
next
  assume "a ! 0 \<noteq> 0"
  then show "cat_main (kernel_os dev run regs) (s, q) = None" using getargs_overrun(1) [of s] assms(3,4) by simp
next
  fix behind :: "u8 list" and k
  assume h: "length behind = 896 \<and> a ! 0 \<noteq> 0 \<and> 0 \<in> set a \<and> dir_lookup (mem s) bb (upto_nul a) = Some k \<and> filetype (mem s) (dentry_at bb (of_nat k)) = 2
    \<and> regular_inode (mem s) bb (idx_inode (mem s) (dentry_at bb (of_nat k))) \<and> first_fd s \<noteq> None"
  define m where "m = put_bytes (mem s) ubuf (a @ behind)"
  have ol: "only_locals {31} (mem s) m" unfolding m_def by (rule only_locals_put) simp
  obtain rest where r: "a = upto_nul a @ 0 # rest" using h upto_nul_split by blast
  have "m = put_bytes (mem s) ubuf (upto_nul a @ 0 # (rest @ behind))" unfolding m_def by (subst r) simp
  then have c: "cstr m ubuf (upto_nul a)" using cstr_put_prefix [of "upto_nul a" "rest @ behind" "mem s" ubuf] arg_cong [OF r, of length] h assms(4) by (simp add: upto_nul_zero)
  have ne: "upto_nul a \<noteq> []" using h r by (cases a) (auto simp: upto_nul_def)
  have u: "user_ok (s\<lparr>mem := m\<rparr>, q)" "user_display (s\<lparr>mem := m\<rparr>, q) = user_display (s, q)"
    using kos.store_ok [OF assms(1), of dev run regs m] only_locals_mono [OF ol, of "{30, 31, 32, 33}"] by (simp_all add: kernel_calls)
  have "first_fd (s\<lparr>mem := m\<rparr>) = first_fd s" by (simp add: first_fd_def current_PCB_def)
  from cat_open_prints [OF u(1) _ ne, of "bb" k "dentry_at bb (of_nat k)" dev run regs] this u(2) h c ol assms(2)
  show "\<exists>w. cat_open (kernel_os dev run regs) (s\<lparr>mem := put_bytes (mem s) ubuf (a @ behind)\<rparr>, q) = Some (w, 0)
        \<and> user_display w = fold tty_emit (filter (\<lambda>c. c \<noteq> 0) (file_contents (mem s) bb (idx_inode (mem s) (dentry_at bb (of_nat k))))) (user_display (s, q))"
    by (simp add: only_locals_fs [OF ol] regular_inode_locals [OF ol] dir_lookup_locals [OF ol] flip: m_def)
qed

text \<open>
  C28: \<open>ls\<close> on this kernel lists the directory. With a free descriptor and an entry \<open>.\<close> of the directory type, \<open>ls\<close>
  prints the names of all directory entries in order, one on a line, and returns 0. A name of up to 30 bytes is printed as it is; of a longer one the
  first 31 bytes are printed, followed by the byte that the kernel's uninitialised copy of the entry happens to hold there, unless that is 0; the
  block of that variable holds it throughout the run.
\<close>

theorem ls_lists_directory:
  assumes "user_ok (s, q)" and "bb = bootblock_ptr s" and "dir_lookup (mem s) bb (cbytes ''.'') = Some k" and "filetype (mem s) (dentry_at bb (of_nat k)) = 1"
    and "first_fd s \<noteq> None"
  shows "\<exists>w. ls_main (kernel_os dev run regs) (s, q) = Some (w, 0)
    \<and> user_display w = fold tty_emit (concat (map (\<lambda>k. (let name = upto_nul (bytes_at (mem s) (dentry_at bb (of_nat k)) 31) in
          if length name < 31 then name else name @ filter (\<lambda>c. c \<noteq> 0) [mem s (Local 12, 31)]) @ [0x0A]) [0..<unat (num_dir (mem s) bb)])) (user_display (s, q))"
proof -
  let ?os = "kernel_os dev run regs"
  obtain fd where fd: "first_fd s = Some fd" using assms(5) by blast
  then have fd2: "2 \<le> fd" "fd < 8" using first_fd_range by blast+
  have n: "0 \<notin> set (cbytes ''.'')" "length ''.'' < 1000" by (simp_all add: cbytes_def)
  have dl: "dir_lookup (mem s) (bootblock_ptr s) (cbytes ''.'') = Some k" "filetype (mem s) (dentry_at (bootblock_ptr s) (of_nat k)) = 1" using assms(2-4) by simp_all
  obtain s' where s': "ece391_open ?os lit (literal ?os ''.'' (s, q)) = Some ((s', q), int fd)" "user_ok (s', q)" "user_display (s', q) = user_display (s, q)"
    "only_locals {1, 2, 13, 30} (mem s) (mem s')" "bootblock_ptr s' = bb" "cur_files s' = (cur_files s)[fd := opened_fd filesystem_dir_jumptable 0]"
    using open_literal_kernel [OF assms(1) n refl, of dev run regs] dl fd assms(2) by (auto simp: fop_tables_def)
  note ol = s'(4)
  have "length (cur_files s) = 8" using assms(1) by (simp add: user_ok_def Let_def)
  moreover have "mem s' (Local 12, 31) = mem s (Local 12, 31)" using only_locals_at [OF ol, of "(Local 12, 31)"] by auto
  note ln = listed_name_locals [OF ol this]
  ultimately have "names_rest s' (int fd) = Some (map (listed_name (mem s) bb) [0..<unat (num_dir (mem s) bb)])"
    using s'(5,6) fd2 by (simp add: names_rest_def Let_def opened_fd_def only_locals_fs [OF ol] ln)
  then have "fst (snd (user_view (s', q))) (int fd) = Some (map (listed_name (mem s) bb) [0..<unat (num_dir (mem s) bb)])" by (simp add: user_view_def Let_def)
  from kdir.ls_shows [OF s'(2) this, of dev run regs] obtain w where w: "ls_loop ?os (int fd) (s', q) = Some (w, 0)"
    "user_display w = fold tty_emit (concat (map (\<lambda>k. listed_name (mem s) bb k @ [0x0A]) [0..<unat (num_dir (mem s) bb)])) (user_display (s', q))" by (auto simp: comp_def)
  then show ?thesis using s'(1,3) by (simp add: ls_main_def listed_name_alt)
qed

text \<open>
  The loop of \<open>counter\<close> prints the numbers from 1 to its bound in decimal, one on a line, on
  the terminal of its process, for every bound that fits the variable, and returns.
\<close>

theorem counter_counts:
  assumes "user_ok w" and "n < 2 ^ 32"
  shows "\<exists>w'. counter_loop (kernel_os dev run regs) n w = Some w'
    \<and> user_display w' = fold tty_emit (concat (map (\<lambda>i. digit_bytes (to_digits 10 i) @ [0x0A]) [1..<Suc n])) (user_display w)"
  using kos.counter_shows [OF assms, of dev run regs] unfolding kos.prints_def by blast

section \<open>Reading a line\<close>

text \<open>Printing a literal, with what it leaves of the keyboard: no line is pending.\<close>

lemma say_kernel:
  fixes dev :: device and run :: "ptr \<Rightarrow> 'a world \<Rightarrow> ('a world \<times> int) option"
  assumes "user_ok (s, q)" and "0 \<notin> set (cbytes str)" and "length str < 2 ^ 31"
  shows "\<exists>s'. say (kernel_os dev run regs) str (s, q) = Some (s', q) \<and> kos.prints dev run regs (cbytes str) (s, q) (s', q) \<and> only_locals {30} (mem s) (mem s')
    \<and> enterStatus s' = 0 \<and> kbd_state.more s' = kbd_state.more s"
proof -
  let ?os = "kernel_os dev run regs"
  obtain s' q' where w: "say ?os str (s, q) = Some (s', q')" "kos.prints dev run regs (cbytes str) (s, q) (s', q')" "only_locals {30} (mem s) (mem s')"
    using kos.say_shows [OF assms, of dev run regs] by (auto simp: kernel_calls)
  define t where "t = s\<lparr>mem := put_bytes (mem s) lit (cbytes str @ [0])\<rparr>"
  have lt: "literal ?os str (s, q) = (t, q)" by (simp add: literal_def upd_mem_def kernel_calls t_def)
  have ok: "user_ok (t, q)" using kos.literal_shows [OF assms(1), of dev run regs str] by (simp add: lt kos.prints_def)
  have len: "length (cbytes str) = length str" by (simp add: cbytes_def)
  have "cstr (mem t) lit (cbytes str)" using assms(2,3) len by (simp add: t_def cstr_put_bytes)
  from strlen_cstr [OF this] have n: "ece391_strlen (mem t) lit = Some (of_nat (length str))" by (simp add: ece391_strlen_eq len)
  have i: "sint (of_nat (length str) :: u32) = int (length str)" using sint_word_of_int_u32 [of "int (length str)"] assms(3) by simp
  have "kbd_ok (sti t)" using ok by (simp add: user_ok_def Let_def sti_user)
  from terminal_write_result [OF this, of "int (length str)" lit 1] obtain u where u: "terminal_write 1 lit (int (length str)) (sti t) = Some (u, int (length str))" "enterStatus u = 0"
    "kbd_state.more u = kbd_state.more (sti t)" by auto
  have "say ?os str (s, q) = Some (u, q)" using n i u(1) by (simp add: say_def ece391_fdputs_def lt kernel_calls sys_write_terminal [OF ok])
  moreover have "kbd_state.more u = kbd_state.more s" using u(3) by (simp add: t_def sti_def)
  ultimately show ?thesis using w u(2) by auto
qed

lemma read_line_kernel:
  assumes "user_ok (s, q)" and "at_prompt s" and "enterStatus s = 0" and "flags (cur_files s ! 0) = IN_USE" and "fd_jumptable (cur_files s ! 0) = Some keyboard_jumptable"
    and "\<forall>sc \<in> set scs. plain_key sc \<and> sc \<noteq> ENTER" and "length scs < 128" and "128 \<le> n"
    and "q = map (\<lambda>sc. keyboard_handler (\<lambda>_ _. sc)) (scs @ [ENTER]) @ rest" and "name = map (\<lambda>sc. keyboardUS ! unat sc) scs @ [10]"
  shows "\<exists>s'. sys_read q 0 ubuf n s = Some (s', int (length name), rest) \<and> user_ok (s', rest) \<and> mem s' = put_bytes (mem s) ubuf name
    \<and> user_display (s', rest) = fold tty_emit name (user_display (s, q)) \<and> cur_files s' = cur_files s
    \<and> at_prompt s' \<and> enterStatus s' = 0 \<and> kbd_state.more s' = kbd_state.more s"
proof -
  have u: "kbd_ok s" "fs_ready s" "length (cur_files s) = 8" using assms(1) by (simp_all add: user_ok_def Let_def)
  have a: "no_modifiers s" "pcb_terminal s = active_terminal s" "line s (unat (active_terminal s)) = []" using assms(2) by (simp_all add: at_prompt_def)
  have m: "length name = min (length name) (nat n)" "ubuf \<noteq> NULL" "0 < n" using assms(7,8,10) by simp_all
  obtain s' where s': "keyboard_read q 0 ubuf n s = Some (s', int (length name), rest)" "mem s' = put_bytes (mem s) ubuf name" "kbd_ok s'"
    "pcb_shown s' = fold tty_emit name (pcb_shown s)" "kbd_state.more s' = kbd_state.more s" "at_prompt s'" "enterStatus s' = 0"
    using read_typed_line [OF u(1) a(1) assms(6,7) refl a(3) assms(3) a(2) m(3,2) assms(10) m(1), of rest 0] a(2) unfolding assms(9) by (auto simp: at_prompt_def)
  have "get_fd 0 s = Some (cur_files s ! 0)" using get_fd_nth [of 0 s] u(3) by simp
  then have "sys_read q 0 ubuf n s = Some (s', int (length name), rest)" using s'(1) assms(4,5) by (simp add: sys_read_def fops_read_def)
  moreover note f = fs_fields_more [OF s'(5)]
  have "only_locals {31} (mem s) (mem s')" unfolding s'(2) by (rule only_locals_put) simp
  from only_locals_ready [OF this u(2)] have "fs_ready s'" using f by (simp add: fs_ready_def)
  then have "user_ok (s', rest)" using assms(1) s'(3) f by (simp add: user_ok_def Let_def)
  ultimately show ?thesis using s'(2,4-7) f(2) by (simp add: user_display_def)
qed

text \<open>
  C20: a session with \<open>hello\<close>. In a process on the shown terminal, while \<open>hello\<close> waits for a name, the keys of fewer than 128 printable characters are pressed and then
  enter: the terminal shows the question, the name as it is typed, and the greeting with the same
  name, and the program returns 0 with later interrupts untouched.
\<close>

theorem hello_greets:
  assumes "user_ok (s, q)" and "at_prompt s" and "flags (cur_files s ! 0) = IN_USE" and "fd_jumptable (cur_files s ! 0) = Some keyboard_jumptable"
    and "\<forall>sc \<in> set scs. plain_key sc \<and> sc \<noteq> ENTER" and "length scs < 128"
    and "q = map (\<lambda>sc. keyboard_handler (\<lambda>_ _. sc)) (scs @ [ENTER]) @ rest" and "name = map (\<lambda>sc. keyboardUS ! unat sc) scs @ [10]"
  shows "\<exists>s'. hello_main (kernel_os dev run regs) (s, q) = Some ((s', rest), 0)
    \<and> user_display (s', rest) = fold tty_emit (cbytes ''Hi, what's your name? '' @ name @ cbytes ''Hello, '' @ name) (user_display (s, q))"
proof -
  let ?os = "kernel_os dev run regs"
  have z: "0 \<notin> set name" "length name \<le> 128" using assms(5,6,8) by (auto simp: plain_key_def)
  have l: "0 \<notin> set (cbytes ''Hi, what's your name? '')" "0 \<notin> set (cbytes ''Hello, '')" by (simp_all add: cbytes_def)
  obtain s1 where s1: "say ?os ''Hi, what's your name? '' (s, q) = Some (s1, q)" "kos.prints dev run regs (cbytes ''Hi, what's your name? '') (s, q) (s1, q)" "enterStatus s1 = 0"
    using say_kernel [OF assms(1) l(1), of dev run regs] by auto
  note p1 = s1(2) [unfolded kos.prints_def]
  have u1: "user_ok (sti s1, q)" "at_prompt (sti s1)" "cur_files (sti s1) = cur_files s" "enterStatus (sti s1) = 0" "user_display (sti s1, q) = user_display (s1, q)"
    using p1 assms(2) s1(3) sti_user(1-3) [of s1 q] by (simp_all add: user_view_def Let_def sti_user) (simp add: sti_def)
  obtain s2 where s2: "sys_read q 0 ubuf 1023 (sti s1) = Some (s2, int (length name), rest)" "user_ok (s2, rest)" "mem s2 = put_bytes (mem (sti s1)) ubuf name"
    "user_display (s2, rest) = fold tty_emit name (user_display (s1, q))"
    using read_line_kernel [OF u1(1,2,4) _ _ assms(5,6) _ assms(7,8), of 1023] assms(3,4) u1(3,5) by auto
  define t where "t = s2\<lparr>mem := (mem s2)(padd ubuf (of_nat (length name)) := 0)\<rparr>"
  have mt: "mem t = put_bytes (mem s1) ubuf (name @ [0])" using s2(3) z(2) by (simp add: t_def put_bytes_snoc sti_user)
  have ol: "only_locals {31} (mem s2) (mem t)" unfolding t_def using only_locals_put [of "padd ubuf (of_nat (length name))" 31 "mem s2" "[0]"] by (simp add: padd_def put_bytes_def fill_region_1)
  have st: "upd_mem ?os (\<lambda>m. m(padd ubuf (of_nat (length name)) := 0)) (s2, rest) = (t, rest)" by (simp add: upd_mem_def kernel_calls t_def)
  have pt: "kos.prints dev run regs [] (s2, rest) (t, rest)"
    using kos.store_shows [OF s2(2), of dev run regs "mem t"] only_locals_mono [OF ol, of "{30, 31, 32, 33}"] by (simp add: kernel_calls t_def)
  then have ut: "user_ok (t, rest)" by (simp add: kos.prints_def)
  obtain s3 where s3: "say ?os ''Hello, '' (t, rest) = Some (s3, rest)" "kos.prints dev run regs (cbytes ''Hello, '') (t, rest) (s3, rest)" "only_locals {30} (mem t) (mem s3)"
    using say_kernel [OF ut l(2), of dev run regs] by auto
  have "cstr (mem t) ubuf name" unfolding mt by (rule cstr_put_bytes) (use z in simp_all)
  then have "cstr (mem s3) ubuf name" using only_locals_views(3) [OF s3(3), of ubuf] by simp
  moreover have "user_ok (s3, rest)" using s3(2) by (simp add: kos.prints_def)
  ultimately obtain w where w: "ece391_fdputs ?os 1 ubuf (s3, rest) = Some w" "kos.prints dev run regs name (s3, rest) w"
    using kos.fdputs_shows [of "(s3, rest)" ubuf dev run regs name] z by (auto simp: kernel_calls)
  obtain s4 where s4: "w = (s4, rest)" using w(1) by (auto simp: ece391_fdputs_def kernel_calls bind_eq_Some_conv)
  have "hello_main ?os (s, q) = Some ((s4, rest), 0)" using s1(1) s2(1) s3(1) w(1) z(2) by (simp add: hello_main_def kernel_calls st s4)
  moreover have "user_display (s4, rest) = fold tty_emit (cbytes ''Hi, what's your name? '' @ name @ cbytes ''Hello, '' @ name) (user_display (s, q))"
    using p1 s2(4) pt s3(2) w(2) s4 by (simp add: kos.prints_def)
  ultimately show ?thesis by blast
qed

section \<open>The error tests\<close>

text \<open>
  A process on a disk like the one the tests expect, with the descriptors of \<open>A\<close> in use beside the first two: there is an entry for the
  directory itself, and none with the misspelt names.
\<close>

definition test_ready :: "nat set \<Rightarrow> u32 \<times> grid \<times> grid \<times> nat \<Rightarrow> 'a world \<Rightarrow> bool" where
  "test_ready A d w \<longleftrightarrow> user_ok w \<and> user_display w = d \<and> (let s = fst w; m = mem s; bb = bootblock_ptr s in
     (\<forall>i. 2 \<le> i \<and> i < 8 \<longrightarrow> flags (cur_files s ! i) = (if i \<in> A then 1 else 0))
     \<and> (\<exists>k. dir_lookup m bb (cbytes ''.'') = Some k \<and> filetype m (dentry_at bb (of_nat k)) = 1)
     \<and> dir_lookup m bb (cbytes ''helloo'') = None \<and> dir_lookup m bb (cbytes ''shel'') = None)"

lemma test_ready_step:
  assumes "test_ready A d (s, q)" and "user_ok (s', q')" and "user_display (s', q') = d'" and "only_locals B (mem s) (mem s')" and "bootblock_ptr s' = bootblock_ptr s"
    and "\<And>i. 2 \<le> i \<Longrightarrow> i < 8 \<Longrightarrow> flags (cur_files s' ! i) = (if i \<in> A' then 1 else 0)"
  shows "test_ready A' d' (s', q')"
  using assms by (simp add: test_ready_def Let_def dir_lookup_locals [OF assms(4)] only_locals_fs [OF assms(4)])

lemma test_ready_sti: "test_ready A d (s, q) \<Longrightarrow> test_ready A d (sti s, q)"
  by (simp add: test_ready_def sti_user Let_def) (simp add: sti_def)

text \<open>Sequences of checks that all find the error they expect.\<close>

lemma expect_error_ok: "call w = Some (w', -1) \<Longrightarrow> expect_error os call msg (w, f) = Some (w', f)"
  by (simp add: expect_error_def)

lemma expect_errors_ok:
  assumes "\<And>i w. i \<in> set is \<Longrightarrow> P w \<Longrightarrow> \<exists>w'. call i w = Some (w', -1) \<and> P w'" and "P w"
  shows "\<exists>w'. foldo (\<lambda>i. expect_error os (call i) msg) is (w, f) = Some (w', f) \<and> P w'"
  using assms
proof (induction "is" arbitrary: w)
  case (Cons i "is")
  obtain w' where w': "call i w = Some (w', -1)" "P w'" using Cons.prems by (meson list.set_intros(1))
  obtain v where "foldo (\<lambda>i. expect_error os (call i) msg) is (w', f) = Some (v, f)" "P v" using Cons.IH [OF _ w'(2)] Cons.prems(1) by (meson list.set_intros(2))
  then show ?case using expect_error_ok [of "call i", OF w'(1)] by simp
qed simp

lemma verdict_pass:
  fixes dev :: device and run :: "ptr \<Rightarrow> 'a world \<Rightarrow> ('a world \<times> int) option"
  assumes "test_ready A d w" and "0 \<notin> set (cbytes str)" and "length str < 2 ^ 31"
  shows "\<exists>w'. say (kernel_os dev run regs) str w = Some w' \<and> test_ready A (fold tty_emit (cbytes str) d) w'"
proof -
  obtain s q where sq: "w = (s, q)" by (cases w)
  have u: "user_ok (s, q)" "user_display (s, q) = d" using assms(1) by (simp_all add: sq test_ready_def)
  obtain w' where w': "say (kernel_os dev run regs) str (s, q) = Some w'" "kos.prints dev run regs (cbytes str) (s, q) w'"
    using kos.say_shows [OF u(1) assms(2,3)] by blast
  obtain s' q' where sq': "w' = (s', q')" by (cases w')
  note p = w'(2) [unfolded kos.prints_def sq' kernel_calls]
  have v: "bootblock_ptr s' = bootblock_ptr s" "cur_files s' = cur_files s" using p by (simp_all add: user_view_def Let_def)
  have "test_ready A (fold tty_emit (cbytes str) d) (s', q')"
    by (rule test_ready_step [OF assms(1) [unfolded sq], where B = "{30, 31, 32, 33}"]) (use p u v assms(1) in \<open>simp_all add: sq test_ready_def Let_def\<close>)
  then show ?thesis using w'(1) by (simp add: sq sq')
qed

text \<open>The calls that are refused.\<close>

lemma refused_calls:
  fixes dev :: device and run :: "ptr \<Rightarrow> 'a world \<Rightarrow> ('a world \<times> int) option" and regs :: "u32 \<times> u32 \<times> u32" and fd :: int
  defines "os \<equiv> kernel_os dev run regs"
  assumes "test_ready {} d w"
  shows "fd \<noteq> 0 \<Longrightarrow> \<exists>w'. ece391_read os fd ubuf 31 w = Some (w', -1) \<and> test_ready {} d w'"
    "fd \<noteq> 1 \<Longrightarrow> \<exists>w'. ece391_write os fd ubuf 31 w = Some (w', -1) \<and> test_ready {} d w'"
    "\<exists>w'. ece391_close os fd w = Some (w', -1) \<and> test_ready {} d w'"
    "p < 0x08000000 \<Longrightarrow> \<exists>w'. ece391_vidmap os p w = Some (w', -1) \<and> test_ready {} d w'"
    "num = 0 \<or> 11 \<le> num \<Longrightarrow> \<exists>w'. call_sys os num w = Some (w', -1) \<and> test_ready {} d w'"
proof -
  obtain s q where sq: "w = (s, q)" by (cases w)
  have r: "test_ready {} d (sti s, q)" using assms(2) test_ready_sti by (simp add: sq)
  have f: "flags (cur_files (sti s) ! nat fd) = 0" if "2 \<le> fd" "fd < 8"
  proof -
    have "2 \<le> nat fd" "nat fd < 8" using that by linarith+
    then show ?thesis using r by (simp add: test_ready_def Let_def)
  qed
  have l: "length (cur_files (sti s)) = 8" using r by (simp add: test_ready_def user_ok_def Let_def)
  have rg: "fd < 0 \<or> fd = 0 \<or> fd = 1 \<or> 2 \<le> fd \<and> fd < 8 \<or> 8 \<le> fd" by linarith
  have "sys_read q fd ubuf 31 (sti s) = Some (sti s, -1, q)" if "fd \<noteq> 0" using that rg f by (intro fd_rejected(1) [OF l]) blast
  then show "fd \<noteq> 0 \<Longrightarrow> \<exists>w'. ece391_read os fd ubuf 31 w = Some (w', -1) \<and> test_ready {} d w'" using r by (simp add: os_def sq kernel_calls)
  have "sys_write dev fd ubuf 31 (sti s) = Some (sti s, -1)" if "fd \<noteq> 1" using that rg f by (intro fd_rejected(2) [OF l]) blast
  then show "fd \<noteq> 1 \<Longrightarrow> \<exists>w'. ece391_write os fd ubuf 31 w = Some (w', -1) \<and> test_ready {} d w'" using r by (simp add: os_def sq kernel_calls)
  have "sys_close fd (sti s) = Some (sti s, -1)" using rg f by (intro fd_rejected(3) [OF l]) linarith
  then show "\<exists>w'. ece391_close os fd w = Some (w', -1) \<and> test_ready {} d w'" using r by (simp add: os_def sq kernel_calls)
  show "p < 0x08000000 \<Longrightarrow> \<exists>w'. ece391_vidmap os p w = Some (w', -1) \<and> test_ready {} d w'" using r by (simp add: os_def sq kernel_calls vidmap_def Let_def)
  show "num = 0 \<or> 11 \<le> num \<Longrightarrow> \<exists>w'. call_sys os num w = Some (w', -1) \<and> test_ready {} d w'" 
    using assms(2) by (cases regs) (auto simp: os_def sq kernel_os_def Let_def run_system_call_def word_le_nat_alt)
qed

text \<open>One test passes: it returns 0, prints that it passed, and leaves the process as it found it.\<close>

definition passes :: "('a world \<Rightarrow> ('a world \<times> int) option) \<Rightarrow> string \<Rightarrow> bool" where
  "passes test name \<longleftrightarrow> (\<forall>d w. test_ready {} d w \<longrightarrow>
     (\<exists>w'. test w = Some (w', 0) \<and> test_ready {} (fold tty_emit (cbytes (name @ '': PASS'' @ [CHR 0x0A])) d) w'))"

lemma verdict_passes:
  assumes "test_ready {} d w" and "0 \<notin> set (cbytes name)" and "length name < 1000"
  shows "\<exists>w'. verdict (kernel_os dev run regs) name (w, 0) = Some (w', 0) \<and> test_ready {} (fold tty_emit (cbytes (name @ '': PASS'' @ [CHR 0x0A])) d) w'"
proof -
  have "0 \<notin> set (cbytes (name @ '': PASS'' @ [CHR 0x0A]))" "length (name @ '': PASS'' @ [CHR 0x0A]) < 2 ^ 31" using assms(2,3) by (auto simp: cbytes_def)
  from verdict_pass [OF assms(1) this, of dev run regs] show ?thesis by (auto simp: verdict_def)
qed

lemma err_fd_passes:
  assumes "fd < 0 \<or> 8 \<le> fd" and "0 \<notin> set (cbytes name)" and "length name < 1000"
  shows "passes (err_fd (kernel_os dev run regs) name fd) name"
  unfolding passes_def
proof (intro allI impI)
  fix d and w :: "'a world"
  assume "test_ready {} d w"
  have fd: "fd \<noteq> 0" "fd \<noteq> 1" using assms(1) by auto
  obtain w1 where w1: "ece391_read (kernel_os dev run regs) fd ubuf 31 w = Some (w1, -1)" "test_ready {} d w1" using refused_calls(1) [OF \<open>test_ready {} d w\<close> fd(1)] by blast
  obtain w2 where w2: "ece391_write (kernel_os dev run regs) fd ubuf 31 w1 = Some (w2, -1)" "test_ready {} d w2" using refused_calls(2) [OF w1(2) fd(2)] by blast
  obtain w3 where w3: "ece391_close (kernel_os dev run regs) fd w2 = Some (w3, -1)" "test_ready {} d w3" using refused_calls(3) [OF w2(2)] by blast
  show "\<exists>w'. err_fd (kernel_os dev run regs) name fd w = Some (w', 0) \<and> test_ready {} (fold tty_emit (cbytes (name @ '': PASS'' @ [CHR 0x0A])) d) w'"
    using verdict_passes [OF w3(2) assms(2,3)] by (simp add: err_fd_def expect_error_ok w1 w2 w3)
qed

lemma err_unopened_passes: "passes (err_unopened (kernel_os dev run regs)) ''err_unopened''"
  unfolding passes_def
proof (intro allI impI)
  fix d and w :: "'a world"
  assume w: "test_ready {} d w"
  let ?os = "kernel_os dev run regs"
  obtain w1 where w1: "foldo (\<lambda>i. expect_error ?os (ece391_close ?os (int i)) ''close unopened or invalid fd fail'') [0..<8] (w, 0) = Some (w1, 0)" "test_ready {} d w1"
    using expect_errors_ok [where P = "test_ready {} d" and call = "\<lambda>i. ece391_close ?os (int i)" and f = 0, OF refused_calls(3) w] by blast
  have "\<exists>w'. ece391_read ?os (int i) ubuf 31 v = Some (w', -1) \<and> test_ready {} d w'" if "i \<in> set [2..<8]" "test_ready {} d v" for i v
    using that by (intro refused_calls(1)) auto
  then obtain w2 where w2: "foldo (\<lambda>i. expect_error ?os (ece391_read ?os (int i) ubuf 31) ''read from unopened fd fail'') [2..<8] (w1, 0) = Some (w2, 0)" "test_ready {} d w2"
    using expect_errors_ok [where P = "test_ready {} d" and call = "\<lambda>i. ece391_read ?os (int i) ubuf 31" and f = 0, OF _ w1(2)] by blast
  have "\<exists>w'. ece391_write ?os (int i) ubuf 31 v = Some (w', -1) \<and> test_ready {} d w'" if "i \<in> set [2..<8]" "test_ready {} d v" for i v
    using that by (intro refused_calls(2)) auto
  then obtain w3 where w3: "foldo (\<lambda>i. expect_error ?os (ece391_write ?os (int i) ubuf 31) ''write to unopened fd fail'') [2..<8] (w2, 0) = Some (w3, 0)" "test_ready {} d w3"
    using expect_errors_ok [where P = "test_ready {} d" and call = "\<lambda>i. ece391_write ?os (int i) ubuf 31" and f = 0, OF _ w2(2)] by blast
  have n: "0 \<notin> set (cbytes ''err_unopened'')" "length ''err_unopened'' < 1000" by (simp_all add: cbytes_def)
  show "\<exists>w'. err_unopened ?os w = Some (w', 0) \<and> test_ready {} (fold tty_emit (cbytes (''err_unopened'' @ '': PASS'' @ [CHR 0x0A])) d) w'"
    using verdict_passes [OF w3(2) n] unfolding err_unopened_def by (simp only: w1(1) w2(1) w3(1) Option.bind.bind_lunit)
qed

lemma err_vidmap_passes: "passes (err_vidmap (kernel_os dev run regs)) ''err_vidmap''"
  unfolding passes_def
proof (intro allI impI)
  fix d and w :: "'a world"
  assume w: "test_ready {} d w"
  let ?os = "kernel_os dev run regs"
  obtain w1 where w1: "ece391_vidmap ?os 0 w = Some (w1, -1)" "test_ready {} d w1" using refused_calls(4) [where dev = dev and run = run and regs = regs and p = 0, OF w] by auto
  obtain w2 where w2: "ece391_vidmap ?os 0x400000 w1 = Some (w2, -1)" "test_ready {} d w2" using refused_calls(4) [where dev = dev and run = run and regs = regs and p = "0x400000", OF w1(2)] by auto
  have n: "0 \<notin> set (cbytes ''err_vidmap'')" "length ''err_vidmap'' < 1000" by (simp_all add: cbytes_def)
  show "\<exists>w'. err_vidmap ?os w = Some (w', 0) \<and> test_ready {} (fold tty_emit (cbytes (''err_vidmap'' @ '': PASS'' @ [CHR 0x0A])) d) w'"
    using verdict_passes [OF w2(2) n] unfolding err_vidmap_def by (simp add: expect_error_ok w1 w2)
qed

lemma err_stdin_out_passes: "passes (err_stdin_out (kernel_os dev run regs)) ''err_stdin_out''"
  unfolding passes_def
proof (intro allI impI)
  fix d and w :: "'a world"
  assume w: "test_ready {} d w"
  let ?os = "kernel_os dev run regs"
  obtain w1 where w1: "ece391_write ?os 0 ubuf 31 w = Some (w1, -1)" "test_ready {} d w1" using refused_calls(2) [where dev = dev and run = run and regs = regs and fd = 0, OF w] by auto
  obtain w2 where w2: "ece391_read ?os 1 ubuf 31 w1 = Some (w2, -1)" "test_ready {} d w2" using refused_calls(1) [where dev = dev and run = run and regs = regs and fd = 1, OF w1(2)] by auto
  have n: "0 \<notin> set (cbytes ''err_stdin_out'')" "length ''err_stdin_out'' < 1000" by (simp_all add: cbytes_def)
  show "\<exists>w'. err_stdin_out ?os w = Some (w', 0) \<and> test_ready {} (fold tty_emit (cbytes (''err_stdin_out'' @ '': PASS'' @ [CHR 0x0A])) d) w'"
    using verdict_passes [OF w2(2) n] unfolding err_stdin_out_def by (simp add: expect_error_ok w1 w2)
qed

lemma err_syscall_num_passes: "passes (err_syscall_num (kernel_os dev run regs)) ''err_syscall_num''"
  unfolding passes_def
proof (intro allI impI)
  fix d and w :: "'a world"
  assume w: "test_ready {} d w"
  let ?os = "kernel_os dev run regs"
  obtain w1 where w1: "call_sys ?os 1073741823 w = Some (w1, -1)" "test_ready {} d w1" using refused_calls(5) [where dev = dev and run = run and regs = regs and num = 1073741823, OF w] by auto
  obtain w2 where w2: "call_sys ?os (- 1073741823) w1 = Some (w2, -1)" "test_ready {} d w2" using refused_calls(5) [where dev = dev and run = run and regs = regs and num = "- 1073741823", OF w1(2)] by auto
  obtain w3 where w3: "call_sys ?os 0 w2 = Some (w3, -1)" "test_ready {} d w3" using refused_calls(5) [where dev = dev and run = run and regs = regs and num = 0, OF w2(2)] by auto
  have n: "0 \<notin> set (cbytes ''err_syscall_num'')" "length ''err_syscall_num'' < 1000" by (simp_all add: cbytes_def)
  show "\<exists>w'. err_syscall_num ?os w = Some (w', 0) \<and> test_ready {} (fold tty_emit (cbytes (''err_syscall_num'' @ '': PASS'' @ [CHR 0x0A])) d) w'"
    using verdict_passes [OF w3(2) n] unfolding err_syscall_num_def
    by (simp add: expect_error_ok w1 w2 w3)
qed

text \<open>Opening files and closing them, in a test.\<close>

lemma test_open:
  fixes dev :: device and run :: "ptr \<Rightarrow> 'a world \<Rightarrow> ('a world \<times> int) option" and w :: "'a world"
  assumes "test_ready A d w" and "0 \<notin> set (cbytes str)" and "length str < 1000"
    and "lk = (if str = [] then None else dir_lookup (mem (fst w)) (bootblock_ptr (fst w)) (cbytes str))"
    and "\<And>k. lk = Some k \<Longrightarrow> filetype (mem (fst w)) (dentry_at (bootblock_ptr (fst w)) (of_nat k)) \<le> 2"
  shows "\<exists>w' r. ece391_open (kernel_os dev run regs) lit (literal (kernel_os dev run regs) str w) = Some (w', r)
    \<and> (case (lk, first_fd (fst w)) of (Some k, Some fd) \<Rightarrow> r = int fd \<and> test_ready (insert fd A) d w' | _ \<Rightarrow> r = -1 \<and> test_ready A d w')"
proof -
  obtain s q where sq: "w = (s, q)" by (cases w)
  have u: "user_ok (s, q)" "user_display (s, q) = d" "length (cur_files s) = 8" using assms(1) by (simp_all add: sq test_ready_def user_ok_def Let_def)
  obtain s' r where s': "ece391_open (kernel_os dev run regs) lit (literal (kernel_os dev run regs) str (s, q)) = Some ((s', q), r)" "user_ok (s', q)" "user_display (s', q) = d"
    "only_locals {1, 2, 13, 30} (mem s) (mem s')" "bootblock_ptr s' = bootblock_ptr s"
    "case (lk, first_fd s) of
        (Some k, Some fd) \<Rightarrow> let x = dentry_at (bootblock_ptr s) (of_nat k) in r = int fd
          \<and> cur_files s' = (cur_files s)[fd := opened_fd (fop_tables ! unat (filetype (mem s) x)) (if filetype (mem s) x = 2 then idx_inode (mem s) x else 0)]
      | _ \<Rightarrow> r = -1 \<and> cur_files s' = cur_files s"
    using open_literal_kernel [OF u(1) assms(2,3) assms(4,5) [unfolded sq fst_conv], of dev run regs] u(2) by auto
  have same: "test_ready A' d (s', q)" if "\<And>i. 2 \<le> i \<Longrightarrow> i < 8 \<Longrightarrow> flags (cur_files s' ! i) = (if i \<in> A' then 1 else 0)" for A'
    by (rule test_ready_step [OF assms(1) [unfolded sq] s'(2,3,4,5) that])
  have fl: "flags (cur_files s ! i) = (if i \<in> A then 1 else 0)" if "2 \<le> i" "i < 8" for i using that assms(1) by (simp add: sq test_ready_def Let_def)
  have op: "flags ((cur_files s)[f := opened_fd j n] ! i) = (if i = f \<or> i \<in> A then 1 else 0)" if "2 \<le> i" "i < 8" for f j n i
    using that fl [OF that] u(3) by (cases "i = f") (simp_all add: opened_fd_def)
  have "case (lk, first_fd s) of (Some k, Some fd) \<Rightarrow> r = int fd \<and> test_ready (insert fd A) d (s', q) | _ \<Rightarrow> r = -1 \<and> test_ready A d (s', q)"
    using s'(6) by (auto simp: Let_def fl op split: option.splits intro!: same)
  then show ?thesis using s'(1) by (auto simp: sq)
qed

lemma test_close:
  fixes w :: "'a world"
  assumes "test_ready A d w" and "fd \<in> A" and "2 \<le> fd" and "fd < 8"
  shows "\<exists>w'. ece391_close (kernel_os dev run regs) (int fd) w = Some (w', 0) \<and> test_ready (A - {fd}) d w'"
proof -
  obtain s q where sq: "w = (s, q)" by (cases w)
  let ?t = "sti s"
  have r: "test_ready A d (?t, q)" using assms(1) test_ready_sti by (simp add: sq)
  then have t: "length (cur_files ?t) = 8" "flags (cur_files ?t ! fd) = 1" using assms(2-4) by (simp_all add: test_ready_def user_ok_def Let_def)
  define s' where "s' = with_files ((cur_files ?t)[fd := closed_fd]) ?t"
  have cl: "sys_close (int fd) ?t = Some (s', 0)"
    using get_fd_nth [of "int fd" ?t] set_fd_nth [of "int fd" ?t] t assms(3,4) by (simp add: sys_close_def closed_fd_def s'_def)
  have c: "cur_files s' = (cur_files ?t)[fd := closed_fd]" by (simp add: s'_def with_files_def current_PCB_def)
  have "user_ok (s', q)" using r assms(3,4) c by (simp add: test_ready_def user_ok_def Let_def s'_def fs_ready_def with_files_def kbd_ok_def scr_ok_def current_PCB_def)
  moreover have "user_display (s', q) = d" using r by (simp add: test_ready_def user_display_def s'_def with_files_def pcb_shown_def console_def cursor_pos_def)
  moreover have "only_locals {} (mem ?t) (mem s')" "bootblock_ptr s' = bootblock_ptr ?t" by (simp_all add: s'_def with_files_def)
  ultimately have "test_ready (A - {fd}) d (s', q)"
    by (rule test_ready_step [OF r]) (use r t assms(3,4) in \<open>auto simp: c nth_list_update closed_fd_def test_ready_def Let_def\<close>)
  then show ?thesis using cl by (simp add: sq kernel_calls)
qed

lemma test_first_fd:
  assumes "test_ready {2..<2 + j} d w" and "j \<le> 6"
  shows "first_fd (fst w) = (if j < 6 then Some (2 + j) else None)"
  using assms by (cases "j < 6") (auto simp: first_fd_def fds.first_free_Some fds.first_free_None test_ready_def Let_def)

lemma err_open_passes: "passes (err_open (kernel_os dev run regs)) ''err_open''"
  unfolding passes_def
proof (intro allI impI)
  fix d and w :: "'a world"
  assume w: "test_ready {} d w"
  let ?os = "kernel_os dev run regs"
  have miss: "\<exists>w'. ece391_open ?os lit (literal ?os str v) = Some (w', -1) \<and> test_ready {} d w'"
    if "test_ready {} d v" "str \<in> {''helloo'', ''shel''}" for v str
    using test_open [OF that(1) _ _ refl, of str dev run regs] that by (auto simp: test_ready_def Let_def cbytes_def)
  obtain w1 where w1: "ece391_open ?os lit (literal ?os ''helloo'' w) = Some (w1, -1)" "test_ready {} d w1" using miss [OF w] by blast
  obtain w2 where w2: "ece391_open ?os lit (literal ?os ''shel'' w1) = Some (w2, -1)" "test_ready {} d w2" using miss [OF w1(2)] by blast
  obtain w3 where w3: "ece391_open ?os lit (literal ?os [] w2) = Some (w3, -1)" "test_ready {} d w3" 
    using test_open [OF w2(2) _ _ refl, of "[]" dev run regs] by (auto simp: cbytes_def dir_lookup_def)
  have n: "0 \<notin> set (cbytes ''err_open'')" "length ''err_open'' < 1000" by (simp_all add: cbytes_def)
  show "\<exists>w'. err_open ?os w = Some (w', 0) \<and> test_ready {} (fold tty_emit (cbytes (''err_open'' @ '': PASS'' @ [CHR 0x0A])) d) w'"
    using verdict_passes [OF w3(2) n] unfolding err_open_def by (simp add: expect_error_ok w1 w2 w3)
qed

lemma open_dots:
  fixes w :: "'a world"
  assumes "test_ready {} d w" and "j \<le> 6"
  shows "\<exists>w'. foldo (\<lambda>_ (s, cnt). do { (s, r) \<leftarrow> ece391_open (kernel_os dev run regs) lit (literal (kernel_os dev run regs) ''.'' s); Some (s, if r = -1 then cnt + 1 else cnt) })
      [0..<j] (w, c) = Some (w', c) \<and> test_ready {2..<2 + j} d w'"
  using assms(2)
proof (induction j)
  case (Suc j)
  then obtain v where v: "test_ready {2..<2 + j} d v" "foldo (\<lambda>_ (s, cnt). do { (s, r) \<leftarrow> ece391_open (kernel_os dev run regs) lit (literal (kernel_os dev run regs) ''.'' s);
      Some (s, if r = -1 then cnt + 1 else cnt) }) [0..<j] (w, c) = Some (v, c)" by auto
  have "first_fd (fst v) = Some (2 + j)" using test_first_fd [OF v(1)] Suc.prems by simp
  moreover have "insert (2 + j) {2..<2 + j} = {2..<2 + Suc j}" by auto
  moreover obtain k where "dir_lookup (mem (fst v)) (bootblock_ptr (fst v)) (cbytes ''.'') = Some k" "filetype (mem (fst v)) (dentry_at (bootblock_ptr (fst v)) (of_nat k)) = 1"
    using v(1) by (auto simp: test_ready_def Let_def)
  ultimately obtain w' where "ece391_open (kernel_os dev run regs) lit (literal (kernel_os dev run regs) ''.'' v) = Some (w', int (2 + j))" "test_ready {2..<2 + Suc j} d w'"
    using test_open [OF v(1) _ _ refl, of "''.''" dev run regs] by (auto simp: cbytes_def)
  then show ?case using v(2) by (simp add: foldo_append)
qed (use assms(1) in simp)

lemma close_dots:
  fixes w :: "'a world"
  assumes "test_ready {2..<8} d w" and "j \<le> 6"
  shows "\<exists>w'. foldo (\<lambda>i s. do { (s, _) \<leftarrow> ece391_close (kernel_os dev run regs) (int i) s; Some s }) [2..<2 + j] w = Some w' \<and> test_ready {2 + j..<8} d w'"
  using assms(2)
proof (induction j)
  case (Suc j)
  then obtain v where v: "test_ready {2 + j..<8} d v" "foldo (\<lambda>i s. do { (s, _) \<leftarrow> ece391_close (kernel_os dev run regs) (int i) s; Some s }) [2..<2 + j] w = Some v" by auto
  have "{2 + j..<8} - {2 + j} = {2 + Suc j..<8}" by auto
  then obtain w' where "ece391_close (kernel_os dev run regs) (int (2 + j)) v = Some (w', 0)" "test_ready {2 + Suc j..<8} d w'"
    using test_close [OF v(1), of "2 + j" dev run regs] Suc.prems by auto
  then show ?case using v(2) by (simp add: foldo_append)
qed (use assms(1) in simp)

lemma err_open_lots_passes: "passes (err_open_lots (kernel_os dev run regs)) ''err_open_lots''"
  unfolding passes_def
proof (intro allI impI)
  fix d and w :: "'a world"
  assume w: "test_ready {} d w"
  let ?os = "kernel_os dev run regs"
  let ?open = "\<lambda>_ (s, cnt). do { (s, r) \<leftarrow> ece391_open ?os lit (literal ?os ''.'' s); Some (s, if r = -1 then cnt + 1 else cnt) }"
  obtain w1 where w1: "foldo ?open [0..<6] (w, 0 :: int) = Some (w1, 0)" "test_ready {2..<8} d w1" using open_dots [OF w, of 6 dev run regs 0] by auto
  have "first_fd (fst w1) = None" using test_first_fd [of 6 d w1] w1(2) by simp
  then obtain w2 where w2: "ece391_open ?os lit (literal ?os ''.'' w1) = Some (w2, -1)" "test_ready {2..<8} d w2"
    using test_open [OF w1(2) _ _ refl, of "''.''" dev run regs] w1(2) by (auto simp: cbytes_def test_ready_def Let_def)
  have "[0..<7] = [0..<6] @ [6]" by (simp add: upt_rec)
  then have o7: "foldo ?open [0..<7] (w, 0 :: int) = Some (w2, 1)" using w1(1) w2(1) by (simp add: foldo_append del: upt_rec_numeral)
  obtain w3 where w3: "foldo (\<lambda>i s. do { (s, _) \<leftarrow> ece391_close ?os (int i) s; Some s }) [2..<8] w2 = Some w3" "test_ready {} d w3" using close_dots [OF w2(2), of 6 dev run regs] by auto
  have n: "0 \<notin> set (cbytes (''err_open_lots: PASS'' @ [CHR 0x0A]))" "length (''err_open_lots: PASS'' @ [CHR 0x0A]) < 2 ^ 31" by (simp_all add: cbytes_def)
  from verdict_pass [OF w3(2) n, of dev run regs]
  show "\<exists>w'. err_open_lots ?os w = Some (w', 0) \<and> test_ready {} (fold tty_emit (cbytes (''err_open_lots'' @ '': PASS'' @ [CHR 0x0A])) d) w'"
    unfolding err_open_lots_def o7 Option.bind.bind_lunit prod.case w3(1) by auto
qed

lemma passesD: "passes test name \<Longrightarrow> test_ready {} d w
    \<Longrightarrow> \<exists>w'. test w = Some (w', 0) \<and> test_ready {} (fold tty_emit (cbytes (name @ '': PASS'' @ [CHR 0x0A])) d) w'"
  unfolding passes_def by blast

lemma passes_sequence:
  assumes "\<forall>(test, name) \<in> set ts. passes test name" and "test_ready {} d w"
  shows "\<exists>w'. foldo (\<lambda>test (s, fail). do { (s, r) \<leftarrow> test s; Some (s, fail + r) }) (map fst ts) (w, c) = Some (w', c)
    \<and> test_ready {} (fold tty_emit (concat (map (\<lambda>(_, name). cbytes (name @ '': PASS'' @ [CHR 0x0A])) ts)) d) w'"
  using assms
proof (induction ts arbitrary: d w)
  case (Cons tn ts)
  obtain test name where tn: "tn = (test, name)" by (cases tn)
  obtain v where v: "test w = Some (v, 0)" "test_ready {} (fold tty_emit (cbytes (name @ '': PASS'' @ [CHR 0x0A])) d) v"
    using passesD [OF _ Cons.prems(2), of test name] Cons.prems(1) by (auto simp: tn)
  then show ?case using Cons.IH [OF _ v(2)] Cons.prems(1) by (simp add: tn)
qed simp

definition syserr_names :: "string list" where
  "syserr_names = [''err_neg_fd'', ''err_big_fd'', ''err_open_lots'', ''err_open'', ''err_unopened'', ''err_vidmap'', ''err_stdin_out'', ''err_syscall_num'']"

lemma syserr_tests_pass: "\<forall>(test, name) \<in> set (zip (syserr_tests (kernel_os dev run regs)) syserr_names). passes test name"
  by (simp add: err_open_lots_passes err_open_passes err_unopened_passes err_vidmap_passes err_stdin_out_passes err_syscall_num_passes
      syserr_tests_def syserr_names_def err_neg_fd_def err_big_fd_def err_fd_passes cbytes_def)

text \<open>
  C18: the kernel passes the repository's own tests of its error paths. In a process with no open files on a disk with the entry
  \<open>.\<close> and without the misspelt names, the run of all tests of \<open>syserr\<close> (descriptors that are negative, too big or not open, opening too many files,
  unknown and empty names, pointers outside the process for \<open>vidmap\<close>, reading the output, writing the
  input, unknown call numbers) returns 0 and prints that each test and the whole pass.
\<close>

theorem syserr_passes:
  assumes "test_ready {} d w"
  shows "\<exists>w'. syserr_all (kernel_os dev run regs) w = Some (w', 0)
    \<and> user_display w' = fold tty_emit (concat (map (\<lambda>name. cbytes (name @ '': PASS'' @ [CHR 0x0A])) syserr_names) @ cbytes ([CHR 0x0A] @ ''Overall Tests: PASS'' @ [CHR 0x0A])) d"
proof -
  let ?os = "kernel_os dev run regs"
  have z: "map fst (zip (syserr_tests ?os) syserr_names) = syserr_tests ?os" "map (\<lambda>(_, name). f name) (zip (syserr_tests ?os) syserr_names) = map f syserr_names" for f :: "string \<Rightarrow> u8 list"
    by (simp_all add: syserr_tests_def syserr_names_def)
  obtain v where v: "foldo (\<lambda>test (s, fail). do { (s, r) \<leftarrow> test s; Some (s, fail + r) }) (syserr_tests ?os) (w, 0) = Some (v, 0)"
    "test_ready {} (fold tty_emit (concat (map (\<lambda>name. cbytes (name @ '': PASS'' @ [CHR 0x0A])) syserr_names)) d) v"
    using passes_sequence [OF syserr_tests_pass [of dev run regs] assms, of 0] unfolding z by blast
  have n: "0 \<notin> set (cbytes ([CHR 0x0A] @ ''Overall Tests: PASS'' @ [CHR 0x0A]))" "length ([CHR 0x0A] @ ''Overall Tests: PASS'' @ [CHR 0x0A]) < 2 ^ 31" by (simp_all add: cbytes_def)
  obtain w' where "say ?os ([CHR 0x0A] @ ''Overall Tests: PASS'' @ [CHR 0x0A]) v = Some w'" "test_ready {} (fold tty_emit (cbytes ([CHR 0x0A] @ ''Overall Tests: PASS'' @ [CHR 0x0A]))
      (fold tty_emit (concat (map (\<lambda>name. cbytes (name @ '': PASS'' @ [CHR 0x0A])) syserr_names)) d)) w'" using verdict_pass [OF v(2) n, of dev run regs] by blast
  then show ?thesis using v(1) by (simp add: syserr_all_def test_ready_def)
qed

section \<open>A process on a small disk\<close>

text \<open>The disk of one program with an entry for the directory added, and a process with no files open that was given the program's name.\<close>

definition user_image :: mem where
  "user_image = demo_image((Global, 0x400000) := 2, (Global, 0x400080) := 0x2E, (Global, 0x4000A0) := 1, (Local 31, 0) := 0x68, (Local 31, 1) := 0x69)"

definition user_demo :: "unit world" where
  "user_demo = (idt_demo\<lparr>mem := user_image\<rparr>, [])"

lemma user_words:
  "ld32 user_image (Global, 0x400000) = 2" "ld32 user_image (Global, 0x400004) = 2" "ld32 user_image (Global, 0x400008) = 3"
  "ld32 user_image (Global, 0x402000) = 4100" "ld32 user_image (Global, 0x402004) = 2" "ld32 user_image (Global, 0x402008) = 0"
  "ld32 user_image (Global, 0x400060) = 2" "ld32 user_image (Global, 0x400064) = 1" "ld32 user_image (Global, 0x4000A0) = 1"
  by (simp_all add: ld32_def user_image_def demo_image_def padd_def)

lemma user_names:
  "cstr user_image ubuf [0x68, 0x69]" "entry_name user_image 0x400000 0 = [0x68, 0x69]" "entry_name user_image 0x400000 1 = [0x2E]" "entry_name user_image 0x400000 2 = []"
proof -
  have "cstr user_image (Global, 0x400040) [0x68, 0x69]" "cstr user_image (Global, 0x400080) [0x2E]" "cstr user_image (Global, 0x4000C0) []"
    by (simp_all add: cstr_def bytes_at_def user_image_def demo_image_def padd_def upt_conv_Cons)
  then show "entry_name user_image 0x400000 0 = [0x68, 0x69]" "entry_name user_image 0x400000 1 = [0x2E]" "entry_name user_image 0x400000 2 = []"
    by (simp_all add: entry_name_def dentry_at_def cstr_upto_nul)
  show "cstr user_image ubuf [0x68, 0x69]" by (simp add: cstr_def bytes_at_def user_image_def demo_image_def padd_def upt_conv_Cons)
qed

lemma user_lookup:
  "dir_lookup user_image 0x400000 [0x68, 0x69] = Some 0" "dir_lookup user_image 0x400000 (cbytes ''.'') = Some 1"
  "dir_lookup user_image 0x400000 (cbytes ''helloo'') = None" "dir_lookup user_image 0x400000 (cbytes ''shel'') = None"
proof -
  have "[0..<Suc 2] = [0, 1, 2]" by (simp add: upt_rec)
  then show "dir_lookup user_image 0x400000 [0x68, 0x69] = Some 0" "dir_lookup user_image 0x400000 (cbytes ''.'') = Some 1"
    "dir_lookup user_image 0x400000 (cbytes ''helloo'') = None" "dir_lookup user_image 0x400000 (cbytes ''shel'') = None"
    unfolding dir_lookup_def user_words by (simp_all add: user_names cbytes_def user_names(3) [simplified])
qed

lemma user_types:
  "filetype user_image (dentry_at 0x400000 0) = 2" "idx_inode user_image (dentry_at 0x400000 0) = 1" "filetype user_image (dentry_at 0x400000 1) = 1"
  by (simp_all add: filetype_def idx_inode_def dentry_at_def padd_def user_words)

lemma user_inode: "regular_inode user_image 0x400000 1"
proof -
  have l: "file_length user_image 0x400000 1 = 4100" by (simp add: file_length_def inode_length_def inode_addr_def user_words)
  have "dblocks user_image (inode_addr 0x400000 1) (of_nat k) < num_data user_image 0x400000" if "k \<le> 1" for k
  proof -
    have "k = 0 \<or> k = 1" using that by auto
    then show ?thesis by (auto simp: dblocks_def inode_addr_def user_words)
  qed
  then have "inode_wf user_image 0x400000 1" by (simp add: inode_wf_def l user_words)
  then show ?thesis unfolding regular_inode_def using user_types user_words by (intro conjI exI [of _ 0]) simp_all
qed

text \<open>The demonstration process over a disk with at most 62 directory entries, two inodes and three data blocks.\<close>

lemma demo_world:
  assumes "ld32 m (Global, 0x400000) \<le> 62" and "ld32 m (Global, 0x400004) = 2" and "ld32 m (Global, 0x400008) = 3"
  shows "user_ok (idt_demo\<lparr>mem := m\<rparr>, [])" "bootblock_ptr (idt_demo\<lparr>mem := m\<rparr>) = 0x400000" "cur_files (idt_demo\<lparr>mem := m\<rparr>) = fileArray demo_pcb"
    "first_fd (idt_demo\<lparr>mem := m\<rparr>) = Some 2"
proof -
  have k: "kbd_ok (idt_demo\<lparr>mem := m\<rparr>) = kbd_ok proc_demo" by (simp add: idt_demo_def sched_demo_def kbd_ok_def scr_ok_def proc_state.defs idt_state.defs)
  have f: "bootblock_ptr idt_demo = 0x400000" "inode_start_addr idt_demo = 0x401000" "data_start_addr idt_demo = 0x403000"
    by (simp_all add: idt_demo_def sched_demo_def proc_state.defs idt_state.defs proc_demo_fs)
  have r: "fs_ready (idt_demo\<lparr>mem := m\<rparr>)" using assms(1) by (simp add: fs_ready_def fs_wf_def fs_size_def data_addr_def f assms(2,3) word_le_nat_alt)
  have "esp idt_demo = 0x7FDF00" by (simp add: idt_demo_def sched_demo_def proc_state.defs idt_state.defs proc_demo_simps)
  then show c: "cur_files (idt_demo\<lparr>mem := m\<rparr>) = fileArray demo_pcb"
    by (simp add: current_PCB_def) (simp add: idt_demo_def sched_demo_def proc_state.defs idt_state.defs)
  show "bootblock_ptr (idt_demo\<lparr>mem := m\<rparr>) = 0x400000" using f by simp
  show "user_ok (idt_demo\<lparr>mem := m\<rparr>, [])" using k r c proc_demo_simps(10) by (simp add: user_ok_def Let_def) (simp add: demo_pcb_def opened_fd_def)
  show "first_fd (idt_demo\<lparr>mem := m\<rparr>) = Some 2" unfolding first_fd_def fds.first_free_Some c by (simp add: demo_pcb_def closed_fd_def)
qed

lemma user_demo_state:
  "user_ok user_demo" "mem (fst user_demo) = user_image" "bootblock_ptr (fst user_demo) = 0x400000" "cur_files (fst user_demo) = fileArray demo_pcb"
  "first_fd (fst user_demo) = Some 2"
  using demo_world [OF _ user_words(2,3)] by (simp_all add: user_demo_def user_words(1))

lemma user_demo_ready: "test_ready {} (user_display user_demo) user_demo"
proof -
  have "flags (fileArray demo_pcb ! i) = 0" if "2 \<le> i" "i < 8" for i using that by (simp add: demo_pcb_def nth_append closed_fd_def)
  then show ?thesis using user_lookup user_types user_demo_state by (simp add: test_ready_def Let_def)
qed

lemma user_demo_prompt: "at_prompt (fst user_demo)"
proof -
  have "at_prompt (fst user_demo) = at_prompt (kbd_state.truncate proc_demo)"
    by (simp add: user_demo_def idt_demo_def sched_demo_def at_prompt_def no_modifiers_def line_def proc_state.defs idt_state.defs kbd_state.defs)
  also have "\<dots>" unfolding proc_demo_fs using kbd_boot_ok proc_demo_simps(9) by (simp add: at_prompt_def no_modifiers_def line_def)
  finally show ?thesis .
qed

abbreviation demo_os :: "unit world os" where
  "demo_os \<equiv> kernel_os (\<lambda>_ _. 0) (\<lambda>_ _. None) (0, 0, 0)"

text \<open>The same process with the program's name as its argument.\<close>

definition cat_demo :: idt_state where
  "cat_demo = idt_demo\<lparr>mem := user_image, pcbs := (\<lambda>_. demo_pcb\<lparr>args := [0x68, 0x69] @ replicate 126 0\<rparr>)\<rparr>"

theorem cat_prints_file_witness:
  "cat_main demo_os (cat_demo, []) = None
    \<and> (\<exists>w. cat_open demo_os (cat_demo\<lparr>mem := put_bytes user_image ubuf (args (demo_pcb\<lparr>args := [0x68, 0x69] @ replicate 126 0\<rparr>) @ replicate 896 7)\<rparr>, []) = Some (w, 0)
      \<and> user_display w = fold tty_emit (filter (\<lambda>c. c \<noteq> 0) (file_contents user_image 0x400000 1)) (user_display (cat_demo, [])))"
proof -
  let ?a = "[0x68, 0x69] @ replicate 126 0 :: u8 list"
  note d = user_demo_state
  have f: "mem cat_demo = user_image" "bootblock_ptr cat_demo = 0x400000" "args (pcbs cat_demo (current_PCB cat_demo)) = ?a" "cur_files cat_demo = fileArray demo_pcb"
    using d(3) by (simp_all add: cat_demo_def user_demo_def)
  have "user_ok (cat_demo, []) = user_ok user_demo" using f d(2-4) by (simp add: user_ok_def Let_def cat_demo_def user_demo_def kbd_ok_def scr_ok_def fs_ready_def)
  then have u: "user_ok (cat_demo, [])" using d(1) by simp
  have n: "first_fd cat_demo \<noteq> None" using d(5) by (simp add: first_fd_def f(4) d(4))
  have "upto_nul ?a = [0x68, 0x69]" "length ?a = 128" "?a ! 0 \<noteq> 0" "0 \<in> set ?a" by (simp_all add: upto_nul_def)
  with cat_prints_file [OF u f(2,3) [symmetric], of "\<lambda>_ _. 0" "\<lambda>_ _. None" "(0, 0, 0)"] n user_lookup(1) user_types user_inode show ?thesis
    by (simp add: f(1))
qed

text \<open>The disk with a name of 32 bytes from the repository's own image in place of the program's, and a kernel whose copy of an entry holds an exclamation mark in byte 31.\<close>

definition long_name :: "u8 list" where
  "long_name = cbytes ''verylargetextwithverylongname.tx''"

definition long_image :: mem where
  "long_image = (put_bytes user_image (Global, 0x400040) long_name)((Local 12, 31) := 0x21)"

lemma long_image_rest: "\<not> in_region (Global, 0x400040) 32 r \<Longrightarrow> r \<noteq> (Local 12, 31) \<Longrightarrow> long_image r = user_image r"
proof -
  have "length long_name = 32" by (simp add: long_name_def cbytes_def)
  then show "\<not> in_region (Global, 0x400040) 32 r \<Longrightarrow> r \<noteq> (Local 12, 31) \<Longrightarrow> long_image r = user_image r" by (simp add: long_image_def put_bytes_other)
qed

lemma long_words:
  "ld32 long_image (Global, 0x400000) = 2" "ld32 long_image (Global, 0x400004) = 2" "ld32 long_image (Global, 0x400008) = 3" "filetype long_image (dentry_at 0x400000 1) = 1"
proof -
  have "ld32 long_image (Global, a) = ld32 user_image (Global, a)" if "\<forall>i \<in> {0, 1, 2, 3}. \<not> in_region (Global, 0x400040) 32 (Global, a + i)" for a
    using that by (simp add: ld32_def padd_def long_image_rest)
  then show "ld32 long_image (Global, 0x400000) = 2" "ld32 long_image (Global, 0x400004) = 2" "ld32 long_image (Global, 0x400008) = 3" "filetype long_image (dentry_at 0x400000 1) = 1"
    by (simp_all add: in_region_def user_words filetype_def dentry_at_def padd_def)
qed

lemma long_names: "bytes_at long_image (Global, 0x400040) 31 = take 31 long_name" "entry_name long_image 0x400000 1 = [0x2E]"
proof -
  have l: "length long_name = 32" by (simp add: long_name_def cbytes_def)
  have "bytes_at long_image (Global, 0x400040) 32 = bytes_at (put_bytes user_image (Global, 0x400040) long_name) (Global, 0x400040) 32"
    by (rule nth_equalityI) (simp_all add: long_image_def padd_def)
  also have "\<dots> = long_name" using bytes_at_put_bytes [of 32 long_name] l by simp
  finally show "bytes_at long_image (Global, 0x400040) 31 = take 31 long_name" using bytes_at_take [of 31 32 long_image "(Global, 0x400040)"] by simp
  have "cstr long_image (Global, 0x400080) [0x2E]"
    by (simp add: cstr_def bytes_at_def padd_def long_image_rest in_region_def) (simp add: user_image_def demo_image_def)
  then show "entry_name long_image 0x400000 1 = [0x2E]" by (simp add: entry_name_def dentry_at_def cstr_upto_nul)
qed

theorem ls_lists_directory_witness:
  "\<exists>w. ls_main demo_os (idt_demo\<lparr>mem := long_image\<rparr>, []) = Some (w, 0)
    \<and> user_display w = fold tty_emit (cbytes (''verylargetextwithverylongname.t!'' @ [CHR 0x0A] @ ''.'' @ [CHR 0x0A])) (user_display (idt_demo\<lparr>mem := long_image\<rparr>, []))"
proof -
  note d = demo_world [OF _ long_words(2,3)]
  have l: "upto_nul (take 31 long_name) = take 31 long_name" "length (take 31 long_name) = 31" "take 31 long_name = cbytes ''verylargetextwithverylongname.t''"
    by (simp_all add: long_name_def cbytes_def upto_nul_def)
  have u: "[0..<2] = [0, 1]" "[0..<3] = [0, Suc 0, 2]" by (simp_all add: upt_rec)
  have n: "upto_nul (bytes_at long_image (dentry_at 0x400000 (of_nat 0)) 31) = take 31 long_name" "upto_nul (bytes_at long_image (dentry_at 0x400000 (of_nat 1)) 31) = [0x2E]"
    using long_names l(1) by (simp_all add: dentry_at_def entry_name_def)
  then have "entry_name long_image 0x400000 0 = take 31 long_name" by (simp add: entry_name_def)
  then have "dir_lookup long_image 0x400000 (cbytes ''.'') = Some 1"
    unfolding dir_lookup_def long_words using long_names(2) l(3) by (simp add: u cbytes_def)
  then have a: "dir_lookup (mem (idt_demo\<lparr>mem := long_image\<rparr>)) 0x400000 (cbytes ''.'') = Some 1" "filetype (mem (idt_demo\<lparr>mem := long_image\<rparr>)) (dentry_at 0x400000 (of_nat 1)) = 1"
    "first_fd (idt_demo\<lparr>mem := long_image\<rparr>) \<noteq> None" "user_ok (idt_demo\<lparr>mem := long_image\<rparr>, [])" "0x400000 = bootblock_ptr (idt_demo\<lparr>mem := long_image\<rparr>)" using d long_words by simp_all
  have j: "mem (idt_demo\<lparr>mem := long_image\<rparr>) = long_image" "long_image (Local 12, 31) = 0x21" "unat (num_dir long_image 0x400000) = 2" using long_words(1) by (simp_all add: long_image_def)
  have t: "concat (map (\<lambda>k. (let name = upto_nul (bytes_at long_image (dentry_at 0x400000 (of_nat k)) 31) in
        if length name < 31 then name else name @ filter (\<lambda>c. c \<noteq> 0) [0x21]) @ [0x0A]) [0..<2])
      = cbytes (''verylargetextwithverylongname.t!'' @ [CHR 0x0A] @ ''.'' @ [CHR 0x0A])"
    unfolding u list.map n using l(2) by (simp add: Let_def) (simp add: l(3) cbytes_def)
  from ls_lists_directory [OF a(4,5,1-3)] show ?thesis unfolding j t .
qed

theorem counter_counts_witness:
  "\<exists>w. counter_loop demo_os 3 user_demo = Some w \<and> user_display w = fold tty_emit [0x31, 0x0A, 0x32, 0x0A, 0x33, 0x0A] (user_display user_demo)"
proof -
  have "ldigits 10 1 = [1]" "ldigits 10 2 = [2]" "ldigits 10 3 = [3]" by (subst ldigits.simps; simp add: ldigits.simps)+
  moreover have "[1..<Suc 3] = [1, 2, 3]" by (simp add: upt_rec)
  ultimately show ?thesis using counter_counts [OF user_demo_state(1), of 3 "\<lambda>_ _. 0" "\<lambda>_ _. None" "(0, 0, 0)"] by (simp add: digit_bytes_def to_digits_def lookup_def cbytes_def)
qed

theorem syserr_passes_witness:
  "\<exists>w. syserr_all demo_os user_demo = Some (w, 0)
    \<and> user_display w = fold tty_emit (concat (map (\<lambda>name. cbytes (name @ '': PASS'' @ [CHR 0x0A])) syserr_names) @ cbytes ([CHR 0x0A] @ ''Overall Tests: PASS'' @ [CHR 0x0A]))
        (user_display user_demo)"
  by (rule syserr_passes [OF user_demo_ready])

theorem hello_greets_witness:
  "\<exists>s'. hello_main demo_os (fst user_demo, map (\<lambda>sc. keyboard_handler (\<lambda>_ _. sc)) [35, 23, 28]) = Some ((s', []), 0)
    \<and> user_display (s', []) = fold tty_emit (cbytes ''Hi, what's your name? '' @ [0x68, 0x69, 0x0A] @ cbytes ''Hello, '' @ [0x68, 0x69, 0x0A]) (user_display user_demo)"
proof -
  let ?s = "fst user_demo"
  have d: "at_prompt ?s" "flags (cur_files ?s ! 0) = IN_USE" "fd_jumptable (cur_files ?s ! 0) = Some keyboard_jumptable"
    using user_demo_prompt user_demo_state(4) by (simp_all add: demo_pcb_def opened_fd_def)
  have u: "user_ok (?s, r)" for r using user_demo_state(1) by (simp add: user_ok_def Let_def)
  have "\<forall>sc \<in> set [35, 23]. plain_key sc \<and> sc \<noteq> ENTER" by (simp add: plain_key_def keyboardUS_def cbytes_def)
  moreover have "[0x68, 0x69, 0x0A] = map (\<lambda>sc. keyboardUS ! unat sc) [35, 23 :: u8] @ [10]" by (simp add: keyboardUS_def cbytes_def)
  moreover have "user_display (?s, r) = user_display user_demo" for r by (simp add: user_display_def)
  ultimately show ?thesis
    using hello_greets [OF u d, of "[35, 23]" _ "[]" "[0x68, 0x69, 0x0A]" "\<lambda>_ _. 0" "\<lambda>_ _. None" "(0, 0, 0)"] by simp
qed

end
