(* ===== verification/Pingpong.thy ===== *)
theory Pingpong
  imports User_Programs
begin

text \<open>
  The program \<open>ece391pingpong.c\<close>, which moves a letter between two walls at the pace of the clock, and the contract of a system with a clock, which \<open>fish\<close> relies on
  too. The program never ends; it is modelled by the rounds it has done.
\<close>

section \<open>The program\<close>

text \<open>The row is in the array \<open>buf\<close> of 81 bytes; \<open>garbage\<close> and \<open>ret_val\<close> are variables whose address is passed on.\<close>

abbreviation garbage :: ptr where "garbage \<equiv> (Local 33, 0)"
abbreviation ret_val :: ptr where "ret_val \<equiv> (Local 33, 4)"
abbreviation pbuf :: "nat \<Rightarrow> ptr" where "pbuf i \<equiv> padd ubuf (of_nat i)"
abbreviation BUFMAX :: nat where "BUFMAX \<equiv> 81"
abbreviation STARTLOOP :: nat where "STARTLOOP \<equiv> 2"
abbreviation LOOPMAX :: nat where "LOOPMAX \<equiv> 78"
abbreviation STARTCHAR :: u8 where "STARTCHAR \<equiv> 0x41"
abbreviation ENDCHAR :: u8 where "ENDCHAR \<equiv> 0x5A"

definition pingpong_walls :: "mem \<Rightarrow> mem" where
  "pingpong_walls m = (for_upto 0 BUFMAX (\<lambda>i m. m(pbuf i := 0x20)) m)(pbuf 80 := 0, pbuf 79 := 0x0A, pbuf 78 := 0x7C, pbuf 1 := 0x7C)"

definition pingpong_draw :: "'s os \<Rightarrow> int \<Rightarrow> u8 \<Rightarrow> nat \<Rightarrow> 's \<Rightarrow> 's option" where
  "pingpong_draw os rtc_fd curchar j s = do {
     let s = upd_mem os (\<lambda>m. (for_upto STARTLOOP LOOPMAX (\<lambda>i m. m(pbuf i := 0x20)) m)(pbuf j := curchar)) s;
     s \<leftarrow> ece391_fdputs os 1 ubuf s;
     (s, _) \<leftarrow> ece391_read os rtc_fd garbage 4 s;
     Some s }"

definition pingpong_next :: "u8 \<Rightarrow> u8" where
  "pingpong_next curchar = (if curchar = ENDCHAR then STARTCHAR else curchar + 1)"

definition pingpong_round :: "'s os \<Rightarrow> int \<Rightarrow> u8 \<Rightarrow> 's \<Rightarrow> 's option" where
  "pingpong_round os rtc_fd curchar s = do {
     s \<leftarrow> foldo (pingpong_draw os rtc_fd curchar) [STARTLOOP..<LOOPMAX] s;
     foldo (pingpong_draw os rtc_fd curchar) (rev [STARTLOOP..<LOOPMAX]) s }"

fun pingpong_rounds :: "'s os \<Rightarrow> int \<Rightarrow> nat \<Rightarrow> u8 \<Rightarrow> 's \<Rightarrow> 's option" where
  "pingpong_rounds os rtc_fd 0 curchar s = Some s"
| "pingpong_rounds os rtc_fd (Suc n) curchar s = pingpong_round os rtc_fd curchar s \<bind> pingpong_rounds os rtc_fd n (pingpong_next curchar)"

text \<open>The program up to the end of its \<open>n\<close>-th round.\<close>

definition pingpong_main :: "'s os \<Rightarrow> nat \<Rightarrow> 's \<Rightarrow> 's option" where
  "pingpong_main os n s = do {
     let s = upd_mem os pingpong_walls s;
     (s, rtc_fd) \<leftarrow> ece391_open os lit (literal os ''rtc'' s);
     (s, _) \<leftarrow> ece391_write os rtc_fd ret_val 4 (upd_mem os (\<lambda>m. st32 m ret_val 32) s);
     pingpong_rounds os rtc_fd n STARTCHAR s }"

section \<open>What is shown\<close>

text \<open>A row with the letter at place \<open>j\<close>, and the rows of a round and of several.\<close>

definition pp_row :: "u8 \<Rightarrow> nat \<Rightarrow> u8 list" where
  "pp_row c j = [0x20, 0x7C] @ replicate (j - 2) 0x20 @ c # replicate (77 - j) 0x20 @ [0x7C, 0x0A]"

definition pp_round :: "u8 \<Rightarrow> u8 list" where
  "pp_round c = concat (map (pp_row c) ([2..<78] @ rev [2..<78]))"

definition pp_rows :: "nat \<Rightarrow> u8 list" where
  "pp_rows n = concat (map (\<lambda>k. pp_round (STARTCHAR + of_nat (k mod 26))) [0..<n])"

text \<open>The letters go round.\<close>

lemma pingpong_next_letter: "pingpong_next (STARTCHAR + of_nat (k mod 26)) = STARTCHAR + of_nat (Suc k mod 26)"
proof (cases "k mod 26 = 25")
  case True
  then have "Suc k mod 26 = 0" by (simp add: mod_Suc)
  then show ?thesis unfolding True by (simp add: pingpong_next_def)
next
  case False
  then have k: "k mod 26 < 25" "Suc k mod 26 = Suc (k mod 26)" using mod_less_divisor [of 26 k] by (simp_all add: mod_Suc)
  have "(of_nat (k mod 26) :: u8) \<noteq> 25"
  proof
    assume "(of_nat (k mod 26) :: u8) = 25"
    then have "unat (of_nat (k mod 26) :: u8) = 25" by simp
    then show False using k(1) by (simp add: unat_of_nat)
  qed
  moreover have "STARTCHAR + x = ENDCHAR \<longleftrightarrow> x = 25" for x :: u8 using eq_diff_eq [of x ENDCHAR STARTCHAR] by (simp add: add.commute)
  ultimately show ?thesis using k(2) by (simp add: pingpong_next_def add.assoc)
qed

text \<open>The array between two drawings: the walls stand. A drawing makes it the row.\<close>

definition walls :: "mem \<Rightarrow> bool" where
  "walls m \<longleftrightarrow> m (pbuf 0) = 0x20 \<and> m (pbuf 1) = 0x7C \<and> m (pbuf 78) = 0x7C \<and> m (pbuf 79) = 0x0A \<and> m (pbuf 80) = 0"

lemma for_upto_blank: "b \<le> 2 ^ 32 \<Longrightarrow> for_upto a b (\<lambda>i m. m(pbuf i := 0x20)) m q = (if \<exists>i. a \<le> i \<and> i < b \<and> q = pbuf i then 0x20 else m q)"
proof (induction b)
  case (Suc b)
  show ?case
  proof (cases "a \<le> b")
    case True
    then show ?thesis using Suc by (auto simp: for_upto_last less_Suc_eq)
  qed (auto simp: for_upto_def)
qed (simp add: for_upto_def)

lemma pbuf_eq: "i < 2 ^ 32 \<Longrightarrow> j < 2 ^ 32 \<Longrightarrow> pbuf i = pbuf j \<longleftrightarrow> i = j"
  by (simp add: word_unat_eq_iff unat_of_nat)

lemma pbuf_other: "c \<noteq> Local 31 \<Longrightarrow> (c, d) \<noteq> padd ubuf k"
  by (simp add: padd_def)

lemma blank_at:
  fixes m :: mem
  shows "i < 2 ^ 32 \<Longrightarrow> b \<le> 2 ^ 32 \<Longrightarrow> for_upto a b (\<lambda>i m. m(pbuf i := 0x20)) m (pbuf i) = (if a \<le> i \<and> i < b then 0x20 else m (pbuf i))"
  "b \<le> 2 ^ 32 \<Longrightarrow> c \<noteq> Local 31 \<Longrightarrow> for_upto a b (\<lambda>i m. m(pbuf i := 0x20)) m (c, d) = m (c, d)"
proof -
  assume i: "i < 2 ^ 32" and b: "b \<le> 2 ^ 32"
  have "pbuf i = pbuf k \<longleftrightarrow> i = k" if "k < b" for k using pbuf_eq [OF i, of k] that b by linarith
  then have "(\<exists>k. a \<le> k \<and> k < b \<and> pbuf i = pbuf k) \<longleftrightarrow> a \<le> i \<and> i < b" by blast
  then show "for_upto a b (\<lambda>i m. m(pbuf i := 0x20)) m (pbuf i) = (if a \<le> i \<and> i < b then 0x20 else m (pbuf i))" unfolding for_upto_blank [OF b] by (simp only:)
qed (simp add: for_upto_blank pbuf_other)

lemma pp_row_nth:
  assumes "2 \<le> j" and "j < 78" and "i < 80"
  shows "pp_row c j ! i = (if i = 1 \<or> i = 78 then 0x7C else if i = 79 then 0x0A else if i = j then c else 0x20)"
proof -
  define xs ys :: "u8 list" where "xs = [0x20, 0x7C] @ replicate (j - 2) 0x20" and "ys = replicate (77 - j) 0x20"
  have p: "pp_row c j = xs @ c # ys @ [0x7C, 0x0A]" by (simp add: pp_row_def xs_def ys_def)
  have l: "length xs = j" "length ys = 77 - j" using assms(1) by (simp_all add: xs_def ys_def)
  have x: "xs ! k = (if k = 1 then 0x7C else 0x20)" if "k < j" for k using that by (simp add: xs_def nth_Cons')
  have y: "ys ! k = 0x20" if "k < 77 - j" for k using that by (simp add: ys_def)
  consider "i < j" | "i = j" | "j < i" "i < 78" | "i = 78" | "i = 79" using assms by linarith
  then show ?thesis
  proof cases
    case 1
    then show ?thesis using assms(2) x [OF 1] by (simp add: p nth_append l)
  next
    case 2
    then show ?thesis using assms(1,2) by (simp add: p nth_append l)
  next
    case 3
    then have "i - j = Suc (i - Suc j)" "i - Suc j < 77 - j" by simp_all
    then show ?thesis using 3 assms(1) y by (simp add: p nth_append l)
  next
    case 4
    then have "i - j = Suc (77 - j)" using assms(2) by simp
    then show ?thesis using 4 assms(2) by (simp add: p nth_append l)
  next
    case 5
    then have "i - j = Suc (Suc (77 - j))" using assms(2) by simp
    then show ?thesis using 5 assms(2) by (simp add: p nth_append l)
  qed
qed

lemma pingpong_walls_stand: "walls (pingpong_walls m)" "only_locals {31} m (pingpong_walls m)"
  using blank_at(1) [of 0 BUFMAX 0 m] by (simp_all add: walls_def pingpong_walls_def) (auto simp: only_locals_def blank_at(2) pbuf_other)

lemma row_drawn:
  fixes m :: mem
  defines "m' c j \<equiv> (for_upto STARTLOOP LOOPMAX (\<lambda>i m. m(pbuf i := 0x20)) m)(pbuf j := c)"
  assumes "walls m" and "2 \<le> j" and "j < 78" and "c \<noteq> 0"
  shows "cstr (m' c j) ubuf (pp_row c j)" and "walls (m' c j)" and "only_locals {31} m (m' c j)"
proof -
  have at: "m' c j (pbuf i) = (if i = j then c else if 2 \<le> i \<and> i < 78 then 0x20 else m (pbuf i))" if "i < 2 ^ 32" for i
    using that assms(4) pbuf_eq [of i j] blank_at(1) [of i 78 2 m] unfolding m'_def by simp
  have "m' c j (pbuf i) = pp_row c j ! i" if "i < 80" for i
    using that assms(2-4) at [of i] pp_row_nth [OF assms(3,4) that, of c] by (cases "i = 0"; cases "i = 1"; cases "i = 78"; cases "i = 79") (auto simp: walls_def)
  moreover have len: "length (pp_row c j) = 80" using assms(3,4) by (simp add: pp_row_def)
  ultimately have "bytes_at (m' c j) ubuf (length (pp_row c j)) = pp_row c j" by (intro nth_equalityI) simp_all
  moreover have "0 \<notin> set (pp_row c j)" using assms(5) by (auto simp: pp_row_def)
  moreover have "m' c j (pbuf 80) = 0" using at [of 80] assms(2,4) by (simp add: walls_def)
  ultimately show "cstr (m' c j) ubuf (pp_row c j)" using len by (simp add: cstr_def)
  show "walls (m' c j)" using at [of 0] at [of 1] at [of 78] at [of 79] at [of 80] assms(2-4) by (simp add: walls_def)
  show "only_locals {31} m (m' c j)" by (auto simp: m'_def only_locals_def blank_at(2) pbuf_other)
qed

section \<open>What the programs may rely on\<close>

text \<open>The contract of a system with a clock: \<open>clock\<close> gives the ticks that are still to come at a descriptor of the clock. A read waits for one of them.\<close>

locale clock_os = terminal_os +
  fixes clock :: "'b \<Rightarrow> int \<Rightarrow> nat option"
  assumes tick: "inv s \<Longrightarrow> clock (view s) fd = Some (Suc k) \<Longrightarrow>
      \<exists>s'. ece391_read os fd garbage 4 s = Some (s', 0) \<and> inv s' \<and> clock (view s') fd = Some k \<and> umem os s' = umem os s \<and> display s' = display s"
    and set_rate: "inv s \<Longrightarrow> clock (view s) fd = Some k \<Longrightarrow>
      \<exists>s' r. ece391_write os fd ret_val 4 s = Some (s', r) \<and> inv s' \<and> clock (view s') fd = Some k \<and> umem os s' = umem os s \<and> display s' = display s"
begin

lemma rate_set:
  assumes "inv s" and "clock (view s) fd = Some k"
  shows "\<exists>s' r. ece391_write os fd ret_val 4 (upd_mem os (\<lambda>m. st32 m ret_val 32) s) = Some (s', r) \<and> inv s' \<and> clock (view s') fd = Some k
    \<and> only_locals {33} (umem os s) (umem os s') \<and> display s' = display s"
proof -
  let ?m = "st32 (umem os s) ret_val 32"
  have o: "only_locals {33} (umem os s) ?m" by (rule only_locals_st32) simp
  have "only_locals {30, 31, 32, 33} (umem os s) ?m" by (rule only_locals_mono [OF o]) simp
  note st = store_ok [OF assms(1) this]
  then have "clock (view (set_umem os ?m s)) fd = Some k" using assms(2) by simp
  from set_rate [OF conjunct1 [OF st] this] show ?thesis using st o by (auto simp: upd_mem_def)
qed

lemma draw_shows:
  assumes "inv s" and "walls (umem os s)" and "clock (view s) fd = Some (Suc k)" and "2 \<le> j" and "j < 78" and "c \<noteq> 0"
  shows "\<exists>s'. pingpong_draw os fd c j s = Some s' \<and> inv s' \<and> walls (umem os s') \<and> clock (view s') fd = Some k \<and> display s' = fold emit (pp_row c j) (display s)"
proof -
  define m where "m = (for_upto STARTLOOP LOOPMAX (\<lambda>i m. m(pbuf i := 0x20)) (umem os s))(pbuf j := c)"
  note d = row_drawn [OF assms(2,4-6), folded m_def]
  have "only_locals {30, 31, 32, 33} (umem os s) m" by (rule only_locals_mono [OF d(3)]) simp
  note st = store_ok [OF assms(1) this]
  have "length (pp_row c j) < 2 ^ 31" using assms(4,5) by (simp add: pp_row_def)
  with fdputs_shows [of "set_umem os m s" ubuf "pp_row c j"] st d(1) obtain t where t: "ece391_fdputs os 1 ubuf (set_umem os m s) = Some t" "inv t" "view t = view s"
    "display t = fold emit (pp_row c j) (display s)" "umem os t = m" by (auto simp: prints_def)
  have "clock (view t) fd = Some (Suc k)" using assms(3) t(3) by simp
  from tick [OF t(2) this] show ?thesis using t d(2) by (auto simp: pingpong_draw_def upd_mem_def m_def [symmetric] Let_def)
qed

lemma draws_show:
  assumes "inv s" and "walls (umem os s)" and "clock (view s) fd = Some (length js + k)" and "\<forall>j \<in> set js. 2 \<le> j \<and> j < 78" and "c \<noteq> 0"
  shows "\<exists>s'. foldo (pingpong_draw os fd c) js s = Some s' \<and> inv s' \<and> walls (umem os s') \<and> clock (view s') fd = Some k
    \<and> display s' = fold emit (concat (map (pp_row c) js)) (display s)"
  using assms
proof (induction js arbitrary: s)
  case (Cons j js)
  then obtain t where t: "pingpong_draw os fd c j s = Some t" "inv t" "walls (umem os t)" "clock (view t) fd = Some (length js + k)" "display t = fold emit (pp_row c j) (display s)"
    using draw_shows [of s fd "length js + k" j c] by auto
  from Cons.IH [OF t(2-4)] Cons.prems(4,5) t(1,5) show ?case by auto
qed simp

lemma rounds_show:
  assumes "inv s" and "walls (umem os s)" and "clock (view s) fd = Some (152 * n + k)"
  shows "\<exists>s'. pingpong_rounds os fd n (STARTCHAR + of_nat (i mod 26)) s = Some s' \<and> inv s' \<and> clock (view s') fd = Some k
    \<and> display s' = fold emit (concat (map (\<lambda>k. pp_round (STARTCHAR + of_nat (k mod 26))) [i..<i + n])) (display s)"
  using assms
proof (induction n arbitrary: i s)
  case (Suc n)
  let ?c = "STARTCHAR + of_nat (i mod 26) :: u8" and ?js = "[2..<78] :: nat list"
  have "i mod 26 < 26" by simp
  then have "unat ?c = 65 + i mod 26" by (simp add: unat_word_ariths unat_of_nat)
  then have nz: "?c \<noteq> 0" by auto
  have "length ?js = 76" unfolding length_upt by simp
  then have ck: "clock (view s) fd = Some (length ?js + (length ?js + (152 * n + k)))" using Suc.prems(3) by (simp del: upt_rec_numeral)
  have js: "\<forall>j \<in> set ?js. 2 \<le> j \<and> j < 78" "\<forall>j \<in> set (rev ?js). 2 \<le> j \<and> j < 78" "length (rev ?js) = length ?js" unfolding set_rev set_upt length_rev by auto
  obtain t where t: "foldo (pingpong_draw os fd ?c) ?js s = Some t" "inv t" "walls (umem os t)" "clock (view t) fd = Some (length (rev ?js) + (152 * n + k))"
    "display t = fold emit (concat (map (pp_row ?c) ?js)) (display s)"
    using draws_show [OF Suc.prems(1,2) ck js(1) nz] unfolding js(3) by blast
  obtain u where u: "foldo (pingpong_draw os fd ?c) (rev ?js) t = Some u" "inv u" "walls (umem os u)" "clock (view u) fd = Some (152 * n + k)"
    "display u = fold emit (concat (map (pp_row ?c) (rev ?js))) (display t)"
    using draws_show [OF t(2-4) js(2) nz] by blast
  have r: "pingpong_round os fd ?c s = Some u" unfolding pingpong_round_def t(1) using u(1) by (simp only: Option.bind.bind_lunit)
  have du: "display u = fold emit (pp_round ?c) (display s)" unfolding u(5) t(5) pp_round_def map_append concat_append fold_append comp_def ..
  obtain s' where s': "pingpong_rounds os fd n (STARTCHAR + of_nat (Suc i mod 26)) u = Some s'" "inv s'" "clock (view s') fd = Some k"
    "display s' = fold emit (concat (map (\<lambda>k. pp_round (STARTCHAR + of_nat (k mod 26))) [Suc i..<Suc i + n])) (display u)" using Suc.IH [OF u(2-4), of "Suc i"] by blast
  moreover have "[i..<i + Suc n] = i # [Suc i..<Suc i + n]" by (simp add: upt_conv_Cons)
  ultimately show ?case using r du by (simp add: pingpong_next_letter)
qed simp

end

end
