(* ===== verification/Blink.thy ===== *)
theory Blink
  imports Prelude
begin

text \<open>
  The blinking engine of the fish animation (\<open>fish/blink.S\<close>) with the allocator it calls in \<open>fish/fish.c\<close>: a linked list of
  characters that alternate on the screen, in an array of 2000 structures, refined to a list. Pointers to structures are indices of the array,
  \<open>None\<close> is the null pointer. A copy of \<open>STRUCT_SIZE\<close> bytes from structure to structure is an assignment of records. The mapped video page is
  a function of the byte offset.
\<close>

section \<open>Data\<close>

record mp1_blink_struct =
  location :: u16
  on_char :: u8
  off_char :: u8
  on_length :: u16
  off_length :: u16
  countdown :: u16
  status :: u16
  next_blink :: "nat option"

record blink_state =
  blink_array :: "mp1_blink_struct list"
  mp1_list_head :: "nat option"
  vmem :: "u32 \<Rightarrow> u8"

abbreviation BLINKS :: nat where "BLINKS \<equiv> 2000"

definition zero_blink :: mp1_blink_struct where
  "zero_blink = \<lparr>location = 0, on_char = 0, off_char = 0, on_length = 0, off_length = 0, countdown = 0, status = 0, next_blink = None\<rparr>"

section \<open>The allocator\<close>

fun mp1_malloc_from :: "mp1_blink_struct list \<Rightarrow> nat \<Rightarrow> nat option" where
  "mp1_malloc_from [] i = None"
| "mp1_malloc_from (b # bs) i = (if location b = 0 then Some i else mp1_malloc_from bs (i + 1))"

definition mp1_malloc :: "blink_state \<Rightarrow> nat option" where
  "mp1_malloc s = mp1_malloc_from (take BLINKS (blink_array s)) 0"

definition mp1_free :: "nat \<Rightarrow> blink_state \<Rightarrow> blink_state option" where
  "mp1_free p s = map_option (\<lambda>a. s\<lparr>blink_array := a\<rparr>) (arr_set (blink_array s) p zero_blink)"

section \<open>The engine\<close>

definition mp1_poke :: "u8 \<Rightarrow> u32 \<Rightarrow> blink_state \<Rightarrow> blink_state" where
  "mp1_poke c off s = s\<lparr>vmem := (vmem s)(off := c)\<rparr>"

text \<open>One structure of the list at a tick: the new structure, and the character shown if it changes.\<close>

definition blink_tick :: "mp1_blink_struct \<Rightarrow> mp1_blink_struct \<times> u8 option" where
  "blink_tick b =
     (let b = b\<lparr>countdown := countdown b - 1\<rparr> in
      if 0 <s countdown b then (b, None)
      else if status b AND 1 \<noteq> 0 then (b\<lparr>countdown := off_length b, status := status b XOR 1\<rparr>, Some (off_char b))
      else (b\<lparr>countdown := on_length b, status := status b XOR 1\<rparr>, Some (on_char b)))"

partial_function (option) tasklet_loop :: "nat option \<Rightarrow> blink_state \<Rightarrow> blink_state option" where
  "tasklet_loop p s = (case p of None \<Rightarrow> Some s
     | Some i \<Rightarrow> do {
         b \<leftarrow> arr_get (blink_array s) i;
         a \<leftarrow> arr_set (blink_array s) i (fst (blink_tick b));
         let s = s\<lparr>blink_array := a\<rparr>;
         let s = (case snd (blink_tick b) of None \<Rightarrow> s | Some c \<Rightarrow> mp1_poke c (push_bit 1 (ucast (location b))) s);
         tasklet_loop (next_blink b) s })"

definition mp1_rtc_tasklet :: "blink_state \<Rightarrow> blink_state option" where
  "mp1_rtc_tasklet s = tasklet_loop (mp1_list_head s) s"

text \<open>The location is valid below \<open>80 * 25\<close>, as an unsigned number.\<close>

definition mp1_ioctl_add :: "mp1_blink_struct \<Rightarrow> blink_state \<Rightarrow> (blink_state \<times> int) option" where
  "mp1_ioctl_add arg s =
     (if location arg \<ge> 2000 then Some (s, -1)
      else let b = arg\<lparr>status := 1, countdown := on_length arg\<rparr> in
        (case mp1_malloc s of None \<Rightarrow> Some (s, -1)
         | Some p \<Rightarrow> do {
             a \<leftarrow> arr_set (blink_array s) p (b\<lparr>next_blink := mp1_list_head s\<rparr>);
             let s = s\<lparr>blink_array := a, mp1_list_head := Some p\<rparr>;
             Some (mp1_poke (on_char b) (push_bit 1 (ucast (location b))) s, 0) }))"

partial_function (option) find_loop :: "u16 \<Rightarrow> nat option \<Rightarrow> blink_state \<Rightarrow> nat option option" where
  "find_loop ax p s = (case p of None \<Rightarrow> Some None
     | Some i \<Rightarrow> do {
         b \<leftarrow> arr_get (blink_array s) i;
         if location b = ax then Some p else find_loop ax (next_blink b) s })"

definition mp1_find_helper :: "u16 \<Rightarrow> blink_state \<Rightarrow> nat option option" where
  "mp1_find_helper ax s = find_loop ax (mp1_list_head s) s"

text \<open>The link that leads to a structure: the head of the list, or the \<open>next\<close> of another structure.\<close>

datatype link = Head | Next nat

definition get_link :: "link \<Rightarrow> blink_state \<Rightarrow> nat option option" where
  "get_link l s = (case l of Head \<Rightarrow> Some (mp1_list_head s) | Next i \<Rightarrow> map_option next_blink (arr_get (blink_array s) i))"

definition set_link :: "link \<Rightarrow> nat option \<Rightarrow> blink_state \<Rightarrow> blink_state option" where
  "set_link l v s = (case l of Head \<Rightarrow> Some (s\<lparr>mp1_list_head := v\<rparr>)
     | Next i \<Rightarrow> do {
         b \<leftarrow> arr_get (blink_array s) i;
         a \<leftarrow> arr_set (blink_array s) i (b\<lparr>next_blink := v\<rparr>);
         Some (s\<lparr>blink_array := a\<rparr>) })"

text \<open>Following the null pointer here would read low memory: no defined result.\<close>

partial_function (option) remove_find_prev :: "nat \<Rightarrow> link \<Rightarrow> blink_state \<Rightarrow> link option" where
  "remove_find_prev i l s = do {
     v \<leftarrow> get_link l s;
     if v = Some i then Some l
     else (case v of None \<Rightarrow> None | Some j \<Rightarrow> remove_find_prev i (Next j) s) }"

definition mp1_ioctl_remove :: "u32 \<Rightarrow> blink_state \<Rightarrow> (blink_state \<times> int) option" where
  "mp1_ioctl_remove arg s = do {
     r \<leftarrow> mp1_find_helper (ucast arg) s;
     (case r of None \<Rightarrow> Some (s, -1)
      | Some i \<Rightarrow> do {
          l \<leftarrow> remove_find_prev i Head s;
          b \<leftarrow> arr_get (blink_array s) i;
          s \<leftarrow> set_link l (next_blink b) s;
          s \<leftarrow> mp1_free i s;
          Some (s, 0) }) }"

text \<open>\<open>testb\<close> clears the sign and overflow flags, so \<open>cmovl\<close> never takes the other character.\<close>

definition mp1_ioctl_sync :: "u32 \<Rightarrow> blink_state \<Rightarrow> (blink_state \<times> int) option" where
  "mp1_ioctl_sync arg s = do {
     r \<leftarrow> mp1_find_helper (ucast (drop_bit 16 arg)) s;
     (case r of None \<Rightarrow> Some (s, -1)
      | Some si \<Rightarrow> do {
          r \<leftarrow> mp1_find_helper (ucast (arg AND 0xFFFF)) s;
          (case r of None \<Rightarrow> Some (s, -1)
           | Some di \<Rightarrow> do {
               x \<leftarrow> arr_get (blink_array s) si;
               y \<leftarrow> arr_get (blink_array s) di;
               a \<leftarrow> arr_set (blink_array s) di
                 (y\<lparr>on_length := on_length x, off_length := off_length x, countdown := countdown x, status := status x\<rparr>);
               Some (mp1_poke (off_char y) (push_bit 1 (ucast (location y))) (s\<lparr>blink_array := a\<rparr>), 0) }) }) }"

text \<open>\<open>find\<close> copies the structure with the given location to the caller's.\<close>

definition mp1_ioctl_find :: "mp1_blink_struct \<Rightarrow> blink_state \<Rightarrow> (mp1_blink_struct \<times> int) option" where
  "mp1_ioctl_find arg s = do {
     r \<leftarrow> mp1_find_helper (location arg) s;
     (case r of None \<Rightarrow> Some (arg, -1) | Some i \<Rightarrow> do { b \<leftarrow> arr_get (blink_array s) i; Some (b, 0) }) }"

text \<open>The commands, as the jump through \<open>call_table\<close> selects them; \<open>find\<close>, which no caller uses, has its own result.\<close>

datatype ioctl = RTC_ADD mp1_blink_struct | RTC_REMOVE u32 | RTC_SYNC u32

definition mp1_ioctl :: "ioctl \<Rightarrow> blink_state \<Rightarrow> (blink_state \<times> int) option" where
  "mp1_ioctl cmd = (case cmd of RTC_ADD b \<Rightarrow> mp1_ioctl_add b | RTC_REMOVE l \<Rightarrow> mp1_ioctl_remove l | RTC_SYNC l \<Rightarrow> mp1_ioctl_sync l)"

section \<open>Specification\<close>

text \<open>The structures as a list, newest first, without the links, and the video page.\<close>

type_synonym blinks = "mp1_blink_struct list \<times> (u32 \<Rightarrow> u8)"

definition cell :: "u16 \<Rightarrow> u32" where
  "cell l = push_bit 1 (ucast l)"

definition unlinked :: "mp1_blink_struct \<Rightarrow> mp1_blink_struct" where
  "unlinked b = b\<lparr>next_blink := None\<rparr>"

definition spec_add :: "mp1_blink_struct \<Rightarrow> blinks \<Rightarrow> blinks \<times> int" where
  "spec_add b = (\<lambda>(es, v). if location b \<ge> 2000 \<or> length es = BLINKS then ((es, v), -1)
     else ((unlinked (b\<lparr>status := 1, countdown := on_length b\<rparr>) # es, v(cell (location b) := on_char b)), 0))"

fun del_blink :: "u16 \<Rightarrow> mp1_blink_struct list \<Rightarrow> mp1_blink_struct list" where
  "del_blink l [] = []"
| "del_blink l (b # bs) = (if location b = l then bs else b # del_blink l bs)"

definition find_blink :: "u16 \<Rightarrow> mp1_blink_struct list \<Rightarrow> mp1_blink_struct option" where
  "find_blink l = find (\<lambda>b. location b = l)"

definition spec_remove :: "u16 \<Rightarrow> blinks \<Rightarrow> blinks \<times> int" where
  "spec_remove l = (\<lambda>(es, v). case find_blink l es of None \<Rightarrow> ((es, v), -1) | Some _ \<Rightarrow> ((del_blink l es, v), 0))"

fun upd_blink :: "u16 \<Rightarrow> (mp1_blink_struct \<Rightarrow> mp1_blink_struct) \<Rightarrow> mp1_blink_struct list \<Rightarrow> mp1_blink_struct list" where
  "upd_blink l f [] = []"
| "upd_blink l f (b # bs) = (if location b = l then f b # bs else b # upd_blink l f bs)"

definition spec_sync :: "u16 \<Rightarrow> u16 \<Rightarrow> blinks \<Rightarrow> blinks \<times> int" where
  "spec_sync src dst = (\<lambda>(es, v). case (find_blink src es, find_blink dst es) of
       (Some x, Some y) \<Rightarrow> ((upd_blink dst (\<lambda>y. y\<lparr>on_length := on_length x, off_length := off_length x, countdown := countdown x, status := status x\<rparr>) es,
           v(cell dst := off_char y)), 0)
     | _ \<Rightarrow> ((es, v), -1))"

definition spec_ioctl :: "ioctl \<Rightarrow> blinks \<Rightarrow> blinks \<times> int" where
  "spec_ioctl cmd = (case cmd of RTC_ADD b \<Rightarrow> spec_add b | RTC_REMOVE l \<Rightarrow> spec_remove (ucast l)
     | RTC_SYNC l \<Rightarrow> spec_sync (ucast (drop_bit 16 l)) (ucast l))"

text \<open>A tick: every structure counts down; one that reaches 0 shows its other character and starts to count its other interval. Where two are at the same place, the older
  shows. The counter is a signed number, and bit 0 of the status says that the on character is shown.\<close>

definition spec_due :: "mp1_blink_struct \<Rightarrow> bool" where
  "spec_due b \<longleftrightarrow> sint (countdown b - 1) \<le> 0"

definition spec_tick :: "mp1_blink_struct \<Rightarrow> mp1_blink_struct" where
  "spec_tick b =
     (if spec_due b then b\<lparr>countdown := (if bit (status b) 0 then off_length b else on_length b), status := flip_bit 0 (status b)\<rparr>
      else b\<lparr>countdown := countdown b - 1\<rparr>)"

definition show_tick :: "mp1_blink_struct \<Rightarrow> (u32 \<Rightarrow> u8) \<Rightarrow> (u32 \<Rightarrow> u8)" where
  "show_tick b v = (if spec_due b then v(cell (location b) := (if bit (status b) 0 then off_char b else on_char b)) else v)"

definition spec_tasklet :: "blinks \<Rightarrow> blinks" where
  "spec_tasklet = (\<lambda>(es, v). (map spec_tick es, fold show_tick es v))"

lemma blink_tick_spec:
  "fst (blink_tick b) = spec_tick b" "show_tick b v = (case snd (blink_tick b) of None \<Rightarrow> v | Some c \<Rightarrow> v(cell (location b) := c))"
proof -
  have "0 <s countdown b - 1 \<longleftrightarrow> \<not> spec_due b" "status b AND 1 \<noteq> 0 \<longleftrightarrow> bit (status b) 0" "status b XOR 1 = flip_bit 0 (status b)"
    by (auto simp: spec_due_def word_sless_alt and_one_eq bit_0 flip_bit_eq_xor odd_iff_mod_2_eq_one)
  then show "fst (blink_tick b) = spec_tick b" "show_tick b v = (case snd (blink_tick b) of None \<Rightarrow> v | Some c \<Rightarrow> v(cell (location b) := c))"
    by (simp_all add: blink_tick_def spec_tick_def show_tick_def Let_def)
qed

text \<open>The list of nodes from a pointer, and when a state represents a list of nodes.\<close>

primrec blink_path :: "mp1_blink_struct list \<Rightarrow> nat option \<Rightarrow> nat list \<Rightarrow> bool" where
  "blink_path a p [] \<longleftrightarrow> p = None"
| "blink_path a p (i # is) \<longleftrightarrow> p = Some i \<and> i < length a \<and> blink_path a (next_blink (a ! i)) is"

definition blink_ok :: "blink_state \<Rightarrow> nat list \<Rightarrow> bool" where
  "blink_ok s is \<longleftrightarrow> length (blink_array s) = BLINKS \<and> distinct is \<and> blink_path (blink_array s) (mp1_list_head s) is
     \<and> (\<forall>i < BLINKS. location (blink_array s ! i) \<noteq> 0 \<longleftrightarrow> i \<in> set is)"

definition blinks_of :: "blink_state \<Rightarrow> nat list \<Rightarrow> blinks" where
  "blinks_of s is = (map (\<lambda>i. unlinked (blink_array s ! i)) is, vmem s)"

definition represents_blinks :: "blinks \<Rightarrow> blink_state \<Rightarrow> bool" where
  "represents_blinks bs s \<longleftrightarrow> (\<exists>is. blink_ok s is \<and> blinks_of s is = bs)"

section \<open>Lemmas\<close>

lemma blink_path_upd: "i \<notin> set is \<Longrightarrow> blink_path (a[i := b]) p is = blink_path a p is"
  by (induction "is" arbitrary: p) auto

lemma blink_path_keep: "next_blink b = next_blink (a ! i) \<Longrightarrow> blink_path (a[i := b]) p is = blink_path a p is"
proof (induction "is" arbitrary: p)
  case (Cons j "is")
  have "next_blink (a[i := b] ! j) = next_blink (a ! j)" if "j < length a" using Cons.prems that by (cases "j = i") simp_all
  then show ?case by (simp add: Cons.IH [OF Cons.prems] cong: conj_cong)
qed simp

lemma blink_path_less: "blink_path a p is \<Longrightarrow> i \<in> set is \<Longrightarrow> i < length a"
  by (induction "is" arbitrary: p) auto

lemma find_map: "find P (map f xs) = map_option f (find (\<lambda>x. P (f x)) xs)"
  by (induction xs) simp_all

lemma malloc_from: "mp1_malloc_from bs k = map_option (\<lambda>i. i + k) (find (\<lambda>i. location (bs ! i) = 0) [0..<length bs])"
proof (induction bs arbitrary: k)
  case (Cons b bs)
  have "find (\<lambda>i. location ((b # bs) ! i) = 0) [1..<Suc (length bs)] = map_option Suc (find (\<lambda>i. location (bs ! i) = 0) [0..<length bs])"
    by (simp add: map_Suc_upt [symmetric] find_map comp_def del: upt_Suc)
  then show ?case using Cons by (simp add: upt_conv_Cons option.map_comp comp_def del: upt_Suc)
qed simp

text \<open>An allocated structure is not in the list; there is one unless the list has all of them.\<close>

lemma malloc_free:
  assumes "blink_ok s is"
  shows "mp1_malloc s = Some p \<Longrightarrow> p < BLINKS \<and> p \<notin> set is" "mp1_malloc s = None \<longleftrightarrow> length is = BLINKS"
proof -
  have l: "length (blink_array s) = BLINKS" using assms by (simp add: blink_ok_def)
  have m: "mp1_malloc s = find (\<lambda>i. location (blink_array s ! i) = 0) [0..<BLINKS]"
    using l by (simp add: mp1_malloc_def malloc_from option.map_ident del: upt_rec_numeral)
  show "p < BLINKS \<and> p \<notin> set is" if "mp1_malloc s = Some p"
    using that assms unfolding m find_Some_iff blink_ok_def by (auto simp del: upt_rec_numeral)
  have sub: "set is \<subseteq> {..<BLINKS}" using assms l blink_path_less [of "blink_array s" "mp1_list_head s" "is"] by (auto simp: blink_ok_def)
  have "mp1_malloc s = None \<longleftrightarrow> {..<BLINKS} \<subseteq> set is" unfolding m find_None_iff using assms unfolding blink_ok_def by (auto simp del: upt_rec_numeral)
  also have "\<dots> \<longleftrightarrow> card (set is) = BLINKS" using sub by (metis card_lessThan card_subset_eq finite_lessThan finite_set subset_antisym)
  also have "\<dots> \<longleftrightarrow> length is = BLINKS" using assms by (simp add: blink_ok_def distinct_card)
  finally show "mp1_malloc s = None \<longleftrightarrow> length is = BLINKS" .
qed

text \<open>The search and the walk to the link that leads to a node.\<close>

lemma find_loop_path:
  "blink_path (blink_array s) p is \<Longrightarrow> find_loop l p s = Some (find (\<lambda>i. location (blink_array s ! i) = l) is)"
proof (induction "is" arbitrary: p)
  case (Cons i "is")
  then show ?case by (subst find_loop.simps) (simp add: arr_get_def)
qed (simp add: find_loop.simps)

lemma find_helper_ok:
  assumes "blink_ok s is"
  shows "mp1_find_helper l s = Some (find (\<lambda>i. location (blink_array s ! i) = l) is)"
    "find_blink l (fst (blinks_of s is)) = map_option (\<lambda>i. unlinked (blink_array s ! i)) (find (\<lambda>i. location (blink_array s ! i) = l) is)"
  using assms find_loop_path [of s "mp1_list_head s" "is" l]
  by (simp_all add: mp1_find_helper_def blink_ok_def find_blink_def blinks_of_def find_map unlinked_def)

text \<open>The list splits at the first node with a location.\<close>

lemma find_split:
  "find P xs = Some x \<Longrightarrow> \<exists>ys zs. xs = ys @ x # zs \<and> P x \<and> (\<forall>y \<in> set ys. \<not> P y)"
proof (induction xs)
  case (Cons a xs)
  show ?case
  proof (cases "P a")
    case True
    then show ?thesis using Cons.prems by (intro exI [of _ "[]"] exI [of _ xs]) simp
  next
    case False
    then obtain ys zs where "xs = ys @ x # zs" "P x" "\<forall>y \<in> set ys. \<not> P y" using Cons by auto
    then show ?thesis using False by (intro exI [of _ "a # ys"] exI [of _ zs]) simp
  qed
qed simp

lemma del_blink_split: "\<forall>b \<in> set bs. location b \<noteq> location c \<Longrightarrow> del_blink (location c) (bs @ c # cs) = bs @ cs"
  by (induction bs) simp_all

lemma upd_blink_split: "\<forall>b \<in> set bs. location b \<noteq> location c \<Longrightarrow> upd_blink (location c) f (bs @ c # cs) = bs @ f c # cs"
  by (induction bs) simp_all

primrec last_link :: "link \<Rightarrow> nat list \<Rightarrow> link" where
  "last_link l [] = l"
| "last_link l (i # is) = last_link (Next i) is"

lemma find_prev_path:
  assumes "get_link l s = Some p" and "blink_path (blink_array s) p (is @ i # js)" and "i \<notin> set is"
  shows "remove_find_prev i l s = Some (last_link l is)"
  using assms
proof (induction "is" arbitrary: l p)
  case Nil
  then show ?case by (subst remove_find_prev.simps) simp
next
  case (Cons k "is")
  then have "get_link (Next k) s = Some (next_blink (blink_array s ! k))" by (simp add: get_link_def arr_get_def)
  from Cons.IH [OF this] Cons.prems show ?case by (subst remove_find_prev.simps) simp
qed

text \<open>Taking a node out of the path.\<close>

lemma splice:
  assumes "get_link l s = Some p" and "blink_path (blink_array s) p (ys @ i # zs)" and "distinct (ys @ i # zs)" and "\<forall>k. l = Next k \<longrightarrow> k \<notin> set (ys @ i # zs)"
  shows "\<exists>s' p'. set_link (last_link l ys) (next_blink (blink_array s ! i)) s = Some s' \<and> get_link l s' = Some p' \<and> blink_path (blink_array s') p' (ys @ zs)
    \<and> length (blink_array s') = length (blink_array s) \<and> (\<forall>j. unlinked (blink_array s' ! j) = unlinked (blink_array s ! j)) \<and> vmem s' = vmem s"
  using assms
proof (induction ys arbitrary: l p)
  case Nil
  show ?case
  proof (cases l)
    case (Next k)
    have k: "k < length (blink_array s)" "k \<notin> set zs" using Nil Next by (auto simp: get_link_def arr_get_def split: if_splits)
    then show ?thesis using Nil Next by (simp add: set_link_def get_link_def arr_get_def arr_set_def blink_path_upd nth_list_update unlinked_def)
  qed (use Nil in \<open>simp add: set_link_def get_link_def\<close>)
next
  case (Cons k ys)
  have g: "get_link (Next k) s = Some (next_blink (blink_array s ! k))" using Cons.prems by (simp add: get_link_def arr_get_def)
  obtain s' p' where s': "set_link (last_link (Next k) ys) (next_blink (blink_array s ! i)) s = Some s'" "get_link (Next k) s' = Some p'"
    "blink_path (blink_array s') p' (ys @ zs)" "length (blink_array s') = length (blink_array s)" "\<forall>j. unlinked (blink_array s' ! j) = unlinked (blink_array s ! j)" "vmem s' = vmem s"
    using Cons.IH [OF g] Cons.prems by auto
  have ll: "\<exists>j \<in> set (k # ys). last_link (Next k) ys = Next j" for k ys by (induction ys arbitrary: k) auto
  obtain j where j: "last_link (Next k) ys = Next j" "j \<in> set (k # ys)" using ll by blast
  have lj: "l \<noteq> Next j" using Cons.prems(4) j(2) by auto
  have "get_link l s' = get_link l s"
    using s'(1) lj unfolding j(1) by (cases l) (auto simp: set_link_def get_link_def arr_get_def arr_set_def nth_list_update split: if_splits)
  then have "get_link l s' = Some (Some k)" using Cons.prems(1,2) by simp
  moreover have "blink_path (blink_array s') (Some k) ((k # ys) @ zs)" using s'(2,3) by (auto simp: get_link_def arr_get_def split: if_splits)
  ultimately show ?case using s' by auto
qed

lemma remove_ok:
  assumes "blink_ok s is"
  shows "\<exists>s' is'. mp1_ioctl_remove arg s = Some (s', snd (spec_remove (ucast arg) (blinks_of s is))) \<and> blink_ok s' is'
    \<and> blinks_of s' is' = fst (spec_remove (ucast arg) (blinks_of s is))"
proof (cases "find (\<lambda>i. location (blink_array s ! i) = ucast arg) is")
  case None
  then show ?thesis using assms find_helper_ok [OF assms, of "ucast arg"] by (auto simp: mp1_ioctl_remove_def spec_remove_def split_beta)
next
  case (Some i)
  let ?a = "blink_array s"
  obtain ys zs where sp: "is = ys @ i # zs" "location (?a ! i) = ucast arg" "\<forall>y \<in> set ys. location (?a ! y) \<noteq> ucast arg" using find_split [OF Some] by blast
  have ok: "length ?a = BLINKS" "distinct (ys @ i # zs)" "blink_path ?a (mp1_list_head s) (ys @ i # zs)" "\<And>j. j < BLINKS \<Longrightarrow> location (?a ! j) \<noteq> 0 \<longleftrightarrow> j \<in> set is"
    using assms by (simp_all add: blink_ok_def sp(1))
  have i: "i < BLINKS" using blink_path_less [OF ok(3), of i] ok(1) by simp
  have g: "get_link Head s = Some (mp1_list_head s)" by (simp add: get_link_def)
  obtain s1 p1 where s1: "set_link (last_link Head ys) (next_blink (?a ! i)) s = Some s1" "get_link Head s1 = Some p1" "blink_path (blink_array s1) p1 (ys @ zs)"
    "length (blink_array s1) = BLINKS" "\<forall>j. unlinked (blink_array s1 ! j) = unlinked (?a ! j)" "vmem s1 = vmem s"
    using splice [OF g ok(3,2)] ok(1) by auto
  define s2 where "s2 = s1\<lparr>blink_array := (blink_array s1)[i := zero_blink]\<rparr>"
  have loc: "location (blink_array s1 ! j) = location (?a ! j)" for j using arg_cong [OF s1(5) [rule_format, of j], of location] by (simp add: unlinked_def)
  have pr: "remove_find_prev i Head s = Some (last_link Head ys)" by (rule find_prev_path [OF g ok(3)]) (use ok(2) in simp)
  have "mp1_ioctl_remove arg s = Some (s2, 0)"
    using find_helper_ok(1) [OF assms, of "ucast arg"] Some pr s1(1,4) i ok(1) by (simp add: mp1_ioctl_remove_def arr_get_def arr_set_def mp1_free_def s2_def)
  moreover have "blink_ok s2 (ys @ zs)"
    using s1(2,3,4) ok(2,4) i sp(1) by (auto simp: blink_ok_def s2_def get_link_def blink_path_upd nth_list_update loc zero_blink_def)
  moreover have "fst (spec_remove (ucast arg) (blinks_of s is)) = blinks_of s2 (ys @ zs)" "snd (spec_remove (ucast arg) (blinks_of s is)) = 0"
  proof -
    let ?u = "\<lambda>i. unlinked (?a ! i)"
    have "del_blink (location (?u i)) (map ?u ys @ ?u i # map ?u zs) = map ?u ys @ map ?u zs" by (rule del_blink_split) (use sp(2,3) in \<open>simp add: unlinked_def\<close>)
    then have "del_blink (ucast arg) (map ?u is) = map ?u (ys @ zs)" using sp by (simp add: unlinked_def)
    moreover have "unlinked (blink_array s2 ! j) = ?u j" if "j \<in> set (ys @ zs)" for j
    proof -
      have "i \<noteq> j" using that ok(2) by auto
      then show ?thesis using s1(5) by (simp add: s2_def)
    qed
    then have "map (\<lambda>i. unlinked (blink_array s2 ! i)) (ys @ zs) = map ?u (ys @ zs)" by (intro map_cong) simp_all
    ultimately show "fst (spec_remove (ucast arg) (blinks_of s is)) = blinks_of s2 (ys @ zs)" "snd (spec_remove (ucast arg) (blinks_of s is)) = 0"
      using find_helper_ok(2) [OF assms, of "ucast arg"] Some s1(6) by (simp_all add: spec_remove_def blinks_of_def s2_def)
  qed
  ultimately show ?thesis by metis
qed

lemma unlinked_simps [simp]:
  "location (unlinked b) = location b" "on_char (unlinked b) = on_char b" "off_char (unlinked b) = off_char b" "on_length (unlinked b) = on_length b"
  "off_length (unlinked b) = off_length b" "countdown (unlinked b) = countdown b" "status (unlinked b) = status b" "unlinked (b\<lparr>next_blink := p\<rparr>) = unlinked b"
  by (simp_all add: unlinked_def)

lemma blinks_of_upd:
  assumes "distinct (ys @ i # zs)" and "i < length (blink_array s)"
  shows "map (\<lambda>j. unlinked ((blink_array s)[i := b] ! j)) (ys @ i # zs)
    = map (\<lambda>j. unlinked (blink_array s ! j)) ys @ unlinked b # map (\<lambda>j. unlinked (blink_array s ! j)) zs"
proof -
  have "unlinked ((blink_array s)[i := b] ! j) = unlinked (blink_array s ! j)" if "j \<in> set (ys @ zs)" for j
  proof -
    have "i \<noteq> j" using that assms(1) by auto
    then show ?thesis by simp
  qed
  then show ?thesis using assms(2) by simp
qed

lemma add_ok:
  assumes "blink_ok s is" and "location arg \<noteq> 0"
  shows "\<exists>s' is'. mp1_ioctl_add arg s = Some (s', snd (spec_add arg (blinks_of s is))) \<and> blink_ok s' is'
    \<and> blinks_of s' is' = fst (spec_add arg (blinks_of s is))"
proof (cases "location arg \<ge> 2000 \<or> mp1_malloc s = None")
  case True
  then show ?thesis using assms malloc_free(2) [OF assms(1)] by (auto simp: mp1_ioctl_add_def spec_add_def blinks_of_def Let_def)
next
  case False
  then obtain p where p: "mp1_malloc s = Some p" by auto
  let ?a = "blink_array s" and ?b = "arg\<lparr>status := 1, countdown := on_length arg\<rparr>"
  have ok: "length ?a = BLINKS" "distinct is" "blink_path ?a (mp1_list_head s) is" "\<forall>j < BLINKS. location (?a ! j) \<noteq> 0 \<longleftrightarrow> j \<in> set is"
    using assms(1) by (simp_all add: blink_ok_def)
  have q: "p < BLINKS" "p \<notin> set is" using malloc_free(1) [OF assms(1) p] by simp_all
  define s' where "s' = s\<lparr>blink_array := ?a[p := ?b\<lparr>next_blink := mp1_list_head s\<rparr>], mp1_list_head := Some p, vmem := (vmem s)(cell (location arg) := on_char arg)\<rparr>"
  have "mp1_ioctl_add arg s = Some (s', 0)" using False p q ok(1) by (simp add: mp1_ioctl_add_def arr_set_def mp1_poke_def s'_def Let_def cell_def)
  moreover have "blink_ok s' (p # is)"
    using q ok assms(2) by (auto simp: blink_ok_def s'_def blink_path_upd nth_list_update)
  moreover have "length is \<noteq> BLINKS" using malloc_free(2) [OF assms(1)] p by auto
  then have "spec_add arg (blinks_of s is) = (blinks_of s' (p # is), 0)"
    using False blinks_of_upd [of "[]" p "is" s "?b\<lparr>next_blink := mp1_list_head s\<rparr>"] q ok(1,2) by (simp add: spec_add_def blinks_of_def s'_def)
  ultimately show ?thesis by (metis fst_conv snd_conv)
qed

lemma sync_ok:
  assumes "blink_ok s is"
  shows "\<exists>s' is'. mp1_ioctl_sync arg s = Some (s', snd (spec_sync (ucast (drop_bit 16 arg)) (ucast arg) (blinks_of s is))) \<and> blink_ok s' is'
    \<and> blinks_of s' is' = fst (spec_sync (ucast (drop_bit 16 arg)) (ucast arg) (blinks_of s is))"
proof -
  let ?a = "blink_array s" and ?f = "\<lambda>l. find (\<lambda>i. location (blink_array s ! i) = l) is" and ?src = "ucast (drop_bit 16 arg) :: u16" and ?dst = "ucast arg :: u16"
  have m: "ucast (arg AND 0xFFFF) = ?dst"
  proof -
    have "arg AND 0xFFFF = take_bit 16 arg" using take_bit_eq_mask [of 16 arg] by (simp add: mask_eq_exp_minus_1)
    then show ?thesis by (intro bit_word_eqI) (simp add: bit_simps)
  qed
  note fh = find_helper_ok [OF assms]
  show ?thesis
  proof (cases "?f ?src = None \<or> ?f ?dst = None")
    case True
    then show ?thesis using assms fh [of ?src] fh [of ?dst] by (auto simp: mp1_ioctl_sync_def m spec_sync_def split_beta split: option.splits)
  next
    case False
    then obtain si i where si: "?f ?src = Some si" and i: "?f ?dst = Some i" by auto
    obtain ys zs where sp: "is = ys @ i # zs" "location (?a ! i) = ?dst" "\<forall>y \<in> set ys. location (?a ! y) \<noteq> ?dst" using find_split [OF i] by blast
    have "si \<in> set is" using find_split [OF si] by auto
    have ok: "length ?a = BLINKS" "distinct (ys @ i # zs)" "blink_path ?a (mp1_list_head s) is" "\<forall>j < BLINKS. location (?a ! j) \<noteq> 0 \<longleftrightarrow> j \<in> set is"
      using assms by (simp_all add: blink_ok_def sp(1))
    have lt: "si < BLINKS" "i < BLINKS" using blink_path_less [OF ok(3)] ok(1) \<open>si \<in> set is\<close> sp(1) by auto
    let ?x = "?a ! si" and ?g = "\<lambda>y. y\<lparr>on_length := on_length (?a ! si), off_length := off_length (?a ! si), countdown := countdown (?a ! si), status := status (?a ! si)\<rparr>"
    define s' where "s' = s\<lparr>blink_array := ?a[i := ?g (?a ! i)], vmem := (vmem s)(cell ?dst := off_char (?a ! i))\<rparr>"
    have "mp1_ioctl_sync arg s = Some (s', 0)"
      using fh(1) si i lt ok(1) sp(2) by (simp add: mp1_ioctl_sync_def m arr_get_def arr_set_def mp1_poke_def s'_def cell_def)
    moreover have "blink_ok s' is" using ok lt assms by (auto simp: blink_ok_def s'_def blink_path_keep nth_list_update)
    moreover have "spec_sync ?src ?dst (blinks_of s is) = (blinks_of s' is, 0)"
    proof -
      let ?u = "\<lambda>j. unlinked (?a ! j)"
      have "upd_blink (location (?u i)) ?g (map ?u ys @ ?u i # map ?u zs) = map ?u ys @ ?g (?u i) # map ?u zs" by (rule upd_blink_split) (use sp(2,3) in simp)
      moreover have "?g (?u i) = unlinked (?g (?a ! i))" by (simp add: unlinked_def)
      ultimately have "upd_blink ?dst ?g (map ?u is) = map (\<lambda>j. unlinked (?a[i := ?g (?a ! i)] ! j)) is" 
        using blinks_of_upd [OF ok(2), of s "?g (?a ! i)"] sp(1,2) lt ok(1) by simp
      then show ?thesis using fh(2) [of ?src] fh(2) [of ?dst] si i by (simp add: spec_sync_def blinks_of_def s'_def)
    qed
    ultimately show ?thesis by (metis fst_conv snd_conv)
  qed
qed

text \<open>The tick visits every structure of the list once.\<close>

lemma blink_tick_keeps:
  "location (fst (blink_tick b)) = location b" "next_blink (fst (blink_tick b)) = next_blink b" "unlinked (fst (blink_tick b)) = fst (blink_tick (unlinked b))"
  "snd (blink_tick (unlinked b)) = snd (blink_tick b)"
  by (simp_all add: blink_tick_def Let_def unlinked_def)

lemma tasklet_loop_path:
  assumes "blink_path (blink_array s) p is" and "distinct is"
  shows "\<exists>s'. tasklet_loop p s = Some s' \<and> mp1_list_head s' = mp1_list_head s \<and> length (blink_array s') = length (blink_array s)
    \<and> (\<forall>j. blink_array s' ! j = (if j \<in> set is then fst (blink_tick (blink_array s ! j)) else blink_array s ! j))
    \<and> vmem s' = fold show_tick (map (\<lambda>i. unlinked (blink_array s ! i)) is) (vmem s)"
  using assms
proof (induction "is" arbitrary: p s)
  case Nil
  then show ?case by (simp add: tasklet_loop.simps)
next
  case (Cons i "is")
  let ?b = "blink_array s ! i"
  define s1 where "s1 = s\<lparr>blink_array := (blink_array s)[i := fst (blink_tick ?b)], vmem := show_tick ?b (vmem s)\<rparr>"
  have i: "p = Some i" "i < length (blink_array s)" "blink_path (blink_array s) (next_blink ?b) is" "i \<notin> set is" using Cons.prems by simp_all
  have "tasklet_loop p s = tasklet_loop (next_blink ?b) s1"
    using i(1,2) by (subst tasklet_loop.simps) (auto simp: arr_get_def arr_set_def s1_def blink_tick_spec(2) mp1_poke_def cell_def Let_def split: option.splits)
  moreover have "blink_path (blink_array s1) (next_blink ?b) is" using i(3,4) by (simp add: s1_def blink_path_upd)
  from Cons.IH [OF this] obtain s' where s': "tasklet_loop (next_blink ?b) s1 = Some s'" "mp1_list_head s' = mp1_list_head s" "length (blink_array s') = length (blink_array s)"
    "\<forall>j. blink_array s' ! j = (if j \<in> set is then fst (blink_tick (blink_array s1 ! j)) else blink_array s1 ! j)"
    "vmem s' = fold show_tick (map (\<lambda>i. unlinked (blink_array s1 ! i)) is) (vmem s1)"
    using Cons.prems(2) by (auto simp: s1_def)
  moreover have o: "blink_array s1 ! j = blink_array s ! j" if "j \<noteq> i" for j using that by (simp add: s1_def)
  then have "map (\<lambda>i. unlinked (blink_array s1 ! i)) is = map (\<lambda>i. unlinked (blink_array s ! i)) is" using i(4) by (intro map_cong refl) metis
  moreover have "blink_array s1 ! i = fst (blink_tick ?b)" using i(2) by (simp add: s1_def)
  moreover have "show_tick (unlinked ?b) = show_tick ?b" by (intro ext) (simp add: blink_tick_spec(2) blink_tick_keeps split: option.split)
  moreover have "vmem s1 = show_tick ?b (vmem s)" by (simp add: s1_def)
  moreover have "blink_array s' ! j = (if j \<in> set (i # is) then fst (blink_tick (blink_array s ! j)) else blink_array s ! j)" for j
    using s'(4) i(4) o [of j] \<open>blink_array s1 ! i = fst (blink_tick ?b)\<close> by (cases "j = i") simp_all
  ultimately show ?case by simp
qed

lemma tasklet_ok:
  assumes "blink_ok s is"
  shows "\<exists>s'. mp1_rtc_tasklet s = Some s' \<and> blink_ok s' is \<and> blinks_of s' is = spec_tasklet (blinks_of s is)"
proof -
  let ?a = "blink_array s"
  have ok: "length ?a = BLINKS" "distinct is" "blink_path ?a (mp1_list_head s) is" "\<forall>j < BLINKS. location (?a ! j) \<noteq> 0 \<longleftrightarrow> j \<in> set is"
    using assms by (simp_all add: blink_ok_def)
  obtain s' where s': "tasklet_loop (mp1_list_head s) s = Some s'" "mp1_list_head s' = mp1_list_head s" "length (blink_array s') = length ?a"
    "\<forall>j. blink_array s' ! j = (if j \<in> set is then fst (blink_tick (?a ! j)) else ?a ! j)" "vmem s' = fold show_tick (map (\<lambda>i. unlinked (?a ! i)) is) (vmem s)"
    using tasklet_loop_path [OF ok(3,2)] by blast
  have nx: "next_blink (blink_array s' ! j) = next_blink (?a ! j)" "location (blink_array s' ! j) = location (?a ! j)" for j using s'(4) by (simp_all add: blink_tick_keeps)
  have "blink_path (blink_array s') p js = blink_path ?a p js" for p js by (induction js arbitrary: p) (simp_all add: nx s'(3))
  then have "blink_ok s' is" using ok s'(2,3) nx by (simp add: blink_ok_def)
  moreover have "blinks_of s' is = spec_tasklet (blinks_of s is)" using s'(4,5) by (simp add: blinks_of_def spec_tasklet_def blink_tick_keeps flip: blink_tick_spec(1))
  ultimately show ?thesis using s'(1) by (simp add: mp1_rtc_tasklet_def)
qed

section \<open>Correctness\<close>

lemma ioctl_ok:
  assumes "represents_blinks bs s" and "case cmd of RTC_ADD b \<Rightarrow> location b \<noteq> 0 | _ \<Rightarrow> True"
  shows "\<exists>s'. mp1_ioctl cmd s = Some (s', snd (spec_ioctl cmd bs)) \<and> represents_blinks (fst (spec_ioctl cmd bs)) s'"
proof -
  obtain "is" where ok: "blink_ok s is" "blinks_of s is = bs" using assms(1) by (auto simp: represents_blinks_def)
  show ?thesis
  proof (cases cmd)
    case (RTC_ADD b)
    then show ?thesis using assms(2) add_ok [OF ok(1), of b] by (auto simp: mp1_ioctl_def spec_ioctl_def represents_blinks_def ok(2))
  next
    case (RTC_REMOVE l)
    then show ?thesis using remove_ok [OF ok(1), of l] by (auto simp: mp1_ioctl_def spec_ioctl_def represents_blinks_def ok(2))
  next
    case (RTC_SYNC l)
    then show ?thesis using sync_ok [OF ok(1), of l] by (auto simp: mp1_ioctl_def spec_ioctl_def represents_blinks_def ok(2))
  qed
qed

lemma tick_ok: "represents_blinks bs s \<Longrightarrow> \<exists>s'. mp1_rtc_tasklet s = Some s' \<and> represents_blinks (spec_tasklet bs) s'"
  using tasklet_ok unfolding represents_blinks_def by blast

text \<open>
  C24: the blinking engine refines a plain list. On a state that represents a list of structures, every command (add at a location other than
  0, remove, synchronise) and every tick returns, its result is the one of the list operation, and the new state represents the new list
  and shows the same characters: structures are added at the front while there is room, a command acts on the
  first structure with its location, and a tick counts down every structure of the list once.
\<close>

theorem blink_refines:
  assumes "represents_blinks bs s"
  shows "(\<forall>cmd. (case cmd of RTC_ADD b \<Rightarrow> location b \<noteq> 0 | _ \<Rightarrow> True) \<longrightarrow>
      (\<exists>s'. mp1_ioctl cmd s = Some (s', snd (spec_ioctl cmd bs)) \<and> represents_blinks (fst (spec_ioctl cmd bs)) s'))
    \<and> (\<exists>s'. mp1_rtc_tasklet s = Some s' \<and> represents_blinks (spec_tasklet bs) s')"
  using ioctl_ok [OF assms] tick_ok [OF assms] by blast

definition blink_boot :: blink_state where
  "blink_boot = \<lparr>blink_array = replicate BLINKS zero_blink, mp1_list_head = None, vmem = (\<lambda>_. 0)\<rparr>"

lemma blink_boot_ok: "blink_ok blink_boot []"
proof -
  have "location (replicate BLINKS zero_blink ! i) = 0" if "i < BLINKS" for i using that by (simp add: zero_blink_def)
  then show ?thesis unfolding blink_ok_def blink_boot_def by simp
qed

text \<open>The character that \<open>fish\<close> adds.\<close>

definition fish_blink :: mp1_blink_struct where
  "fish_blink = zero_blink\<lparr>location := 540, on_char := 0x49, off_char := 0x4D, on_length := 7, off_length := 6\<rparr>"

theorem blink_refines_witness:
  "\<exists>s'. mp1_ioctl (RTC_ADD fish_blink) blink_boot = Some (s', 0) \<and> represents_blinks ([fish_blink\<lparr>status := 1, countdown := 7\<rparr>], (\<lambda>_. 0)(1080 := 0x49)) s'"
proof -
  have "represents_blinks ([], \<lambda>_. 0) blink_boot" using blink_boot_ok by (auto simp: represents_blinks_def blinks_of_def blink_boot_def)
  from conjunct1 [OF blink_refines [OF this], rule_format, of "RTC_ADD fish_blink"]
  show ?thesis by (simp add: spec_ioctl_def spec_add_def fish_blink_def zero_blink_def unlinked_def cell_def)
qed

text \<open>
  A structure at location 0, the top left corner, is added, but its place in the array still counts as free: the next structure is stored over it and linked to itself, so that the
  following tick never ends.
\<close>

lemma self_loop_hangs:
  assumes "i < length (blink_array s)" and "next_blink (blink_array s ! i) = Some i"
  shows "tasklet_loop (Some i) s = None"
proof -
  have "\<not> (p = Some i \<and> i < length (blink_array s) \<and> next_blink (blink_array s ! i) = Some i)" if "tasklet_loop p s = Some y" for p s y
  proof (rule tasklet_loop.raw_induct [where P = "\<lambda>p s y. \<not> (p = Some i \<and> i < length (blink_array s) \<and> next_blink (blink_array s ! i) = Some i)", OF _ that], intro notI)
    fix f p s y
    assume IH: "\<And>p s y. f p s = Some y \<Longrightarrow> \<not> (p = Some i \<and> i < length (blink_array s) \<and> next_blink (blink_array s ! i) = Some i)"
      and ret: "(case p of None \<Rightarrow> Some s
         | Some i \<Rightarrow> do {
             b \<leftarrow> arr_get (blink_array s) i;
             a \<leftarrow> arr_set (blink_array s) i (fst (blink_tick b));
             let s = s\<lparr>blink_array := a\<rparr>;
             let s = (case snd (blink_tick b) of None \<Rightarrow> s | Some c \<Rightarrow> mp1_poke c (push_bit 1 (ucast (location b))) s);
             f (next_blink b) s }) = Some y"
      and p: "p = Some i \<and> i < length (blink_array s) \<and> next_blink (blink_array s ! i) = Some i"
    obtain t where "f (Some i) t = Some y" "blink_array t = (blink_array s)[i := fst (blink_tick (blink_array s ! i))]"
      using ret p by (auto simp: arr_get_def arr_set_def mp1_poke_def Let_def split: option.splits)
    then show False using IH [of "Some i" t y] p by (simp add: blink_tick_keeps)
  qed
  then show ?thesis using assms by (cases "tasklet_loop (Some i) s") blast+
qed

lemma zero_location_hangs:
  assumes "blink_ok s []" and "location x = 0" and "location y < 2000"
  shows "\<exists>s1 s2. mp1_ioctl_add x s = Some (s1, 0) \<and> mp1_ioctl_add y s1 = Some (s2, 0) \<and> mp1_rtc_tasklet s2 = None"
proof -
  let ?a = "blink_array s"
  have len: "length ?a = BLINKS" and z: "\<forall>i < BLINKS. location (?a ! i) = 0" using assms(1) by (simp_all add: blink_ok_def)
  obtain b bs where a: "?a = b # bs" using len by (cases ?a) auto
  then have l0: "location b = 0" using z by (metis nth_Cons_0 zero_less_numeral)
  have mal: "mp1_malloc t = Some 0" if "blink_array t = c # cs" "location c = 0" for t c cs using that by (simp add: mp1_malloc_def take_Cons' )
  define s1 where "s1 = mp1_poke (on_char x) 0 (s\<lparr>blink_array := (x\<lparr>status := 1, countdown := on_length x, next_blink := mp1_list_head s\<rparr>) # bs, mp1_list_head := Some 0\<rparr>)"
  define s2 where "s2 = mp1_poke (on_char y) (cell (location y)) (s1\<lparr>blink_array := (y\<lparr>status := 1, countdown := on_length y, next_blink := Some 0\<rparr>) # bs, mp1_list_head := Some 0\<rparr>)"
  have "mp1_ioctl_add x s = Some (s1, 0)" using mal [OF a l0] a assms(2) by (simp add: mp1_ioctl_add_def Let_def arr_set_def s1_def)
  moreover have "mp1_malloc s1 = Some 0" 
    using mal [of s1 "x\<lparr>status := 1, countdown := on_length x, next_blink := mp1_list_head s\<rparr>" bs] assms(2) by (simp add: s1_def mp1_poke_def)
  then have "mp1_ioctl_add y s1 = Some (s2, 0)" using assms(3) by (simp add: mp1_ioctl_add_def Let_def arr_set_def s2_def s1_def mp1_poke_def cell_def)
  moreover have "mp1_rtc_tasklet s2 = None" using self_loop_hangs [of 0 s2] by (simp add: mp1_rtc_tasklet_def s2_def mp1_poke_def)
  ultimately show ?thesis by blast
qed

end
