(* ===== verification/Fish.thy ===== *)
theory Fish
  imports Pingpong Blink
begin

text \<open>
  The fish animation (\<open>fish/fish.c\<close>) over the blinking engine: it reads two text files, the frames of the picture, side by side and makes every place where
  one of them has a character blink between the two, then lets the clock drive the engine. The state is the system's with the engine's; the variables \<open>c0\<close> and \<open>c1\<close>,
  \<open>garbage\<close> and \<open>ret_val\<close>, whose addresses are passed on, are in blocks of their own.
\<close>

section \<open>The program\<close>

abbreviation c0p :: ptr where "c0p \<equiv> (Local 31, 0)"
abbreviation c1p :: ptr where "c1p \<equiv> (Local 32, 0)"

definition ece391_memset :: "mem \<Rightarrow> ptr \<Rightarrow> u8 \<Rightarrow> int \<Rightarrow> mem" where
  "ece391_memset m p c n = fold (\<lambda>i m. m(padd p (of_nat i) := c)) [0..<nat n] m"

definition ece391_memcpy :: "mem \<Rightarrow> ptr \<Rightarrow> ptr \<Rightarrow> int \<Rightarrow> mem \<times> int" where
  "ece391_memcpy m dest src n = (fold (\<lambda>i m. m(padd dest (of_nat i) := m (padd src (of_nat i)))) [0..<nat n] m, 0)"

text \<open>\<open>addr\<close> is the address of \<open>vmem_base_addr\<close>.\<close>

definition mp1_set_video_mode :: "'s os \<Rightarrow> u32 \<Rightarrow> 's \<Rightarrow> ('s \<times> u32) option" where
  "mp1_set_video_mode os addr s = do {
     (s, r) \<leftarrow> ece391_vidmap os addr s;
     Some (s, if r = -1 then 0 else ld32 (umem os s) (Global, addr)) }"

text \<open>One character of a frame; and one row of both frames. The members of the structure that are not set are overwritten by the engine.\<close>

definition frame_char :: "'s os \<Rightarrow> int \<Rightarrow> ptr \<Rightarrow> 's \<times> int \<Rightarrow> ('s \<times> int) option" where
  "frame_char os fd p = (\<lambda>(s, eof).
     if umem os s p \<noteq> 0x0A
     then do {
       (s, num_bytes) \<leftarrow> ece391_read os fd p 1 s;
       Some (if num_bytes = 0 then (upd_mem os (\<lambda>m. m(p := 0x0A)) s, 1) else (s, eof)) }
     else Some (s, eof))"

definition frame_blink :: "int \<Rightarrow> int \<Rightarrow> u8 \<Rightarrow> u8 \<Rightarrow> mp1_blink_struct" where
  "frame_blink row col c0 c1 = zero_blink\<lparr>on_length := 15, off_length := 15, on_char := (if c0 = 0x0A then 0x20 else c0),
     off_char := (if c1 = 0x0A then 0x20 else c1), location := word_of_int (row * 80 + col + 40)\<rparr>"

partial_function (option) frame_row :: "'s os \<Rightarrow> int \<Rightarrow> int \<Rightarrow> int \<Rightarrow> int \<Rightarrow> 's \<Rightarrow> blink_state \<Rightarrow> int \<Rightarrow> int \<Rightarrow> ('s \<times> blink_state \<times> int \<times> int) option" where
  "frame_row os fd0 fd1 row col s b eof0 eof1 = do {
     (s, eof0) \<leftarrow> frame_char os fd0 c0p (s, eof0);
     (s, eof1) \<leftarrow> frame_char os fd1 c1p (s, eof1);
     let c0 = umem os s c0p;
     let c1 = umem os s c1p;
     if c0 = 0x0A \<and> c1 = 0x0A then Some (s, b, eof0, eof1)
     else do {
       b \<leftarrow> (if (c0 \<noteq> 0x20 \<and> c0 \<noteq> 0x0A) \<or> (c1 \<noteq> 0x20 \<and> c1 \<noteq> 0x0A)
            then map_option fst (mp1_ioctl (RTC_ADD (frame_blink row col c0 c1)) b) else Some b);
       frame_row os fd0 fd1 row (col + 1) s b eof0 eof1 } }"

definition frame_end :: "'s os \<Rightarrow> int \<Rightarrow> ptr \<Rightarrow> int \<Rightarrow> 's \<Rightarrow> 's option" where
  "frame_end os fd p eof s =
     (if eof \<noteq> 0 then do { (s, _) \<leftarrow> ece391_close os fd (upd_mem os (\<lambda>m. m(p := 0x0A)) s); Some s }
      else Some (upd_mem os (\<lambda>m. m(p := 0x30)) s))"

partial_function (option) frame_rows :: "'s os \<Rightarrow> int \<Rightarrow> int \<Rightarrow> int \<Rightarrow> 's \<Rightarrow> blink_state \<Rightarrow> int \<Rightarrow> int \<Rightarrow> ('s \<times> blink_state) option" where
  "frame_rows os fd0 fd1 row s b eof0 eof1 =
     (if eof0 = 0 \<or> eof1 = 0
      then do {
        (s, b, eof0, eof1) \<leftarrow> frame_row os fd0 fd1 row 0 s b eof0 eof1;
        s \<leftarrow> frame_end os fd0 c0p eof0 s;
        s \<leftarrow> frame_end os fd1 c1p eof1 s;
        frame_rows os fd0 fd1 (row + 1) s b eof0 eof1 }
      else Some (s, b))"

text \<open>A program that halts returns its status in the last place.\<close>

definition add_frames :: "'s os \<Rightarrow> string \<Rightarrow> string \<Rightarrow> 's \<Rightarrow> blink_state \<Rightarrow> ('s \<times> blink_state \<times> int option) option" where
  "add_frames os f0 f1 s b = do {
     let s = upd_mem os (\<lambda>m. m(c0p := 0x30, c1p := 0x30)) s;
     (s, fd0) \<leftarrow> ece391_open os lit (literal os f0 s);
     if fd0 < 0 then Some (s, b, Some (-1))
     else do {
       (s, fd1) \<leftarrow> ece391_open os lit (literal os f1 s);
       if fd1 < 0 then Some (s, b, Some (-1))
       else do { (s, b) \<leftarrow> frame_rows os fd0 fd1 0 s b 0 0; Some (s, b, None) } } }"

definition fish_wait :: "'s os \<Rightarrow> int \<Rightarrow> nat \<Rightarrow> 's \<times> blink_state \<Rightarrow> ('s \<times> blink_state) option" where
  "fish_wait os rtc_fd n = foldo (\<lambda>_ (s, b). do { (s, _) \<leftarrow> ece391_read os rtc_fd garbage 4 s; b \<leftarrow> mp1_rtc_tasklet b; Some (s, b) }) [0..<n]"

abbreviation WAIT :: nat where "WAIT \<equiv> 100"

text \<open>The waits with what \<open>main\<close> does between them, what it does once the video page is mapped, and \<open>main\<close>.\<close>

definition fish_acts :: "'s os \<Rightarrow> int \<Rightarrow> 's \<times> blink_state \<Rightarrow> ('s \<times> blink_state) option" where
  "fish_acts os rtc_fd sb = do {
     (s, b) \<leftarrow> fish_wait os rtc_fd WAIT sb;
     (b, _) \<leftarrow> mp1_ioctl (RTC_ADD fish_blink) b;
     (s, b) \<leftarrow> fish_wait os rtc_fd WAIT (s, b);
     (b, _) \<leftarrow> mp1_ioctl (RTC_SYNC (push_bit 16 40 OR (6 * 80 + 60))) b;
     (s, b) \<leftarrow> fish_wait os rtc_fd WAIT (s, b);
     (b, _) \<leftarrow> mp1_ioctl (RTC_REMOVE (6 * 80 + 60)) b;
     fish_wait os rtc_fd WAIT (s, b) }"

definition fish_show :: "'s os \<Rightarrow> 's \<Rightarrow> blink_state \<Rightarrow> ('s \<times> blink_state \<times> int) option" where
  "fish_show os s b = do {
     (s, rtc_fd) \<leftarrow> ece391_open os lit (literal os ''rtc'' s);
     (s, b, halted) \<leftarrow> add_frames os ''frame0.txt'' ''frame1.txt'' s b;
     (case halted of Some r \<Rightarrow> Some (s, b, r)
      | None \<Rightarrow> do {
          (s, _) \<leftarrow> ece391_write os rtc_fd ret_val 4 (upd_mem os (\<lambda>m. st32 m ret_val 32) s);
          (s, b) \<leftarrow> fish_acts os rtc_fd (s, b);
          (s, _) \<leftarrow> ece391_close os rtc_fd s;
          Some (s, b, 0) }) }"

definition fish_main :: "'s os \<Rightarrow> u32 \<Rightarrow> 's \<Rightarrow> blink_state \<Rightarrow> ('s \<times> blink_state \<times> int) option" where
  "fish_main os addr s b = do {
     let b = b\<lparr>blink_array := replicate BLINKS zero_blink\<rparr>;
     (s, base) \<leftarrow> mp1_set_video_mode os addr s;
     if base = 0 then Some (s, b, -1) else fish_show os s b }"

section \<open>Block operations\<close>

text \<open>The byte loops fill and copy blocks as the kernel's routines do.\<close>

lemma fold_upt_Suc: "fold f [0..<Suc k] m = f k (fold f [0..<k] m)"
  by simp

lemma ece391_memset_fill: "nat n \<le> 2 ^ 32 \<Longrightarrow> ece391_memset m p c n = fill_region m p (nat n) (\<lambda>_. c)"
proof -
  have "fold (\<lambda>i m. m(padd p (of_nat i) := c)) [0..<k] m = fill_region m p k (\<lambda>_. c)" if "k \<le> 2 ^ 32" for k
    using that
  proof (induction k)
    case (Suc k)
    then have "k < 2 ^ 32" "k \<le> 2 ^ 32" by simp_all
    then show ?case unfolding fold_upt_Suc Suc.IH [OF \<open>k \<le> 2 ^ 32\<close>] by (intro fill_region_upd_last)
  qed simp
  then show "nat n \<le> 2 ^ 32 \<Longrightarrow> ece391_memset m p c n = fill_region m p (nat n) (\<lambda>_. c)" by (simp add: ece391_memset_def)
qed

lemma ece391_memcpy_copy:
  assumes "separate d (nat n) p (nat n)" and "nat n \<le> 2 ^ 32"
  shows "ece391_memcpy m d p n = (copy_region m d p (nat n), 0)"
proof -
  have "fold (\<lambda>i m. m(padd d (of_nat i) := m (padd p (of_nat i)))) [0..<k] m = copy_region m d p k" if "k \<le> nat n" for k
    using that
  proof (induction k)
    case (Suc k)
    have "in_region p (nat n) (padd p (of_nat k))" using Suc.prems assms(2) by (simp add: in_region_padd unat_of_nat)
    then have "\<not> in_region d (nat n) (padd p (of_nat k))" using separate_not_both [OF assms(1)] by blast
    then have "\<not> in_region d k (padd p (of_nat k))" using Suc.prems by (auto simp: in_region_def)
    then have "copy_region m d p k (padd p (of_nat k)) = m (padd p (of_nat k))" by (simp add: copy_region_def)
    moreover have "(copy_region m d p k)(padd d (of_nat k) := m (padd p (of_nat k))) = copy_region m d p (Suc k)"
      unfolding copy_region_eq_fill using fill_region_upd_last [of k m d "\<lambda>k. m (padd p k)"] Suc.prems assms(2) by simp
    moreover have "k \<le> nat n" using Suc.prems by simp
    ultimately show ?case unfolding fold_upt_Suc Suc.IH [OF \<open>k \<le> nat n\<close>] by (simp only:)
  qed simp
  then show ?thesis by (simp add: ece391_memcpy_def)
qed

interpretation fish_cp: block_copy "\<lambda>m d p n. fst (ece391_memcpy m d p (uint n))" "\<lambda>d p n. separate d n p n"
proof
  fix d p and n :: u32 and m
  assume "separate d (unat n) p (unat n)"
  then show "fst (ece391_memcpy m d p (uint n)) = copy_region m d p (unat n)"
    using ece391_memcpy_copy [of d "uint n" p m] unat_u32_less [of n] by simp
qed

section \<open>The picture\<close>

text \<open>The rows of a text, the places of a row where a character stands in one of the frames, and those of all rows; a frame with fewer rows or a shorter row is blank there.\<close>

fun split_rows :: "u8 list \<Rightarrow> u8 list list" where
  "split_rows [] = [[]]"
| "split_rows (c # cs) = (if c = 0x0A then [] # split_rows cs else (c # hd (split_rows cs)) # tl (split_rows cs))"

fun join_rows :: "u8 list list \<Rightarrow> u8 list" where
  "join_rows [] = []"
| "join_rows [r] = r"
| "join_rows (r # rs) = r @ 0x0A # join_rows rs"

text \<open>What a place of the two frames gives: nothing where both are blank, otherwise a structure that shows each frame's character for 15 ticks in turn, in the right half of the screen.\<close>

definition frame_cell :: "int \<Rightarrow> int \<Rightarrow> u8 \<Rightarrow> u8 \<Rightarrow> mp1_blink_struct list" where
  "frame_cell row col a b =
     (let blank = {0x20, 0x0A}; seen = (\<lambda>c. if c \<in> blank then 0x20 else c) in
      if a \<in> blank \<and> b \<in> blank then []
      else [\<lparr>location = word_of_int (80 * row + (40 + col)), on_char = seen a, off_char = seen b, on_length = 15, off_length = 15, countdown = 0, status = 0, next_blink = None\<rparr>])"

lemma frame_cell_blink:
  "frame_cell row col a b = (if (a \<noteq> 0x20 \<and> a \<noteq> 0x0A) \<or> (b \<noteq> 0x20 \<and> b \<noteq> 0x0A) then [frame_blink row col a b] else [])"
proof -
  have "80 * row + (40 + col) = row * 80 + col + 40" by simp
  then show ?thesis by (auto simp: frame_cell_def frame_blink_def zero_blink_def Let_def)
qed

fun frame_cells :: "int \<Rightarrow> int \<Rightarrow> u8 list \<Rightarrow> u8 list \<Rightarrow> mp1_blink_struct list" where
  "frame_cells row col [] [] = []"
| "frame_cells row col (a # as) [] = frame_cell row col a 0x0A @ frame_cells row (col + 1) as []"
| "frame_cells row col [] (b # bs) = frame_cell row col 0x0A b @ frame_cells row (col + 1) [] bs"
| "frame_cells row col (a # as) (b # bs) = frame_cell row col a b @ frame_cells row (col + 1) as bs"

fun frame_picture :: "int \<Rightarrow> u8 list list \<Rightarrow> u8 list list \<Rightarrow> mp1_blink_struct list" where
  "frame_picture row [] [] = []"
| "frame_picture row (a # as) [] = frame_cells row 0 a [] @ frame_picture (row + 1) as []"
| "frame_picture row [] (b # bs) = frame_cells row 0 [] b @ frame_picture (row + 1) [] bs"
| "frame_picture row (a # as) (b # bs) = frame_cells row 0 a b @ frame_picture (row + 1) as bs"

lemma split_rows_join: "join_rows (split_rows xs) = xs" "split_rows xs \<noteq> []" "r \<in> set (split_rows xs) \<Longrightarrow> 0x0A \<notin> set r"
proof -
  show ne: "split_rows xs \<noteq> []" for xs by (induction xs) auto
  show "join_rows (split_rows xs) = xs"
  proof (induction xs)
    case (Cons c cs)
    obtain r rs where r: "split_rows cs = r # rs" using ne [of cs] by (cases "split_rows cs") auto
    then show ?case using Cons by (cases rs) auto
  qed simp
  show "r \<in> set (split_rows xs) \<Longrightarrow> 0x0A \<notin> set r"
  proof (induction xs arbitrary: r)
    case (Cons c cs)
    obtain q qs where q: "split_rows cs = q # qs" using ne [of cs] by (cases "split_rows cs") auto
    then show ?case using Cons.IH [of q] Cons.IH [of r] Cons.prems by (auto split: if_splits)
  qed simp
qed

lemma join_rows_Cons: "join_rows (r # rs) = r @ (if rs = [] then [] else 0x0A # join_rows rs)"
  by (cases rs) simp_all

lemma frame_cells_step:
  "r0 \<noteq> [] \<or> r1 \<noteq> [] \<Longrightarrow> frame_cells row col r0 r1
    = frame_cell row col (if r0 = [] then 0x0A else hd r0) (if r1 = [] then 0x0A else hd r1) @ frame_cells row (col + 1) (tl r0) (tl r1)"
  by (cases r0; cases r1) simp_all

lemma frame_picture_step:
  "rs0 \<noteq> [] \<or> rs1 \<noteq> [] \<Longrightarrow> frame_picture row rs0 rs1
    = frame_cells row 0 (if rs0 = [] then [] else hd rs0) (if rs1 = [] then [] else hd rs1) @ frame_picture (row + 1) (tl rs0) (tl rs1)"
  by (cases rs0; cases rs1) simp_all

text \<open>Adding a sequence of structures.\<close>

definition add_all :: "mp1_blink_struct list \<Rightarrow> blink_state \<Rightarrow> blink_state option" where
  "add_all = foldo (\<lambda>c b. map_option fst (mp1_ioctl (RTC_ADD c) b))"

lemma add_all_simps: "add_all [] b = Some b" "add_all [c] b = map_option fst (mp1_ioctl (RTC_ADD c) b)" "add_all (xs @ ys) b = add_all xs b \<bind> add_all ys"
  by (simp_all add: add_all_def foldo_append) (cases "mp1_ioctl (RTC_ADD c) b"; simp)

text \<open>On a state that represents a list, a sequence of structures is added in order, as far as there is room.\<close>

definition spec_add_all :: "mp1_blink_struct list \<Rightarrow> blinks \<Rightarrow> blinks" where
  "spec_add_all cs bs = fold (\<lambda>c bs. fst (spec_add c bs)) cs bs"

lemma add_all_ok:
  "represents_blinks bs b \<Longrightarrow> \<forall>c \<in> set cs. location c \<noteq> 0 \<Longrightarrow> \<exists>b'. add_all cs b = Some b' \<and> represents_blinks (spec_add_all cs bs) b'"
proof (induction cs arbitrary: bs b)
  case (Cons c cs)
  obtain b1 where b1: "mp1_ioctl (RTC_ADD c) b = Some (b1, snd (spec_add c bs))" "represents_blinks (fst (spec_add c bs)) b1"
    using ioctl_ok [OF Cons.prems(1), of "RTC_ADD c"] Cons.prems(2) by (auto simp: spec_ioctl_def)
  from Cons.IH [OF b1(2)] show ?case using Cons.prems(2) b1(1) by (auto simp: add_all_def spec_add_all_def)
qed (simp add: add_all_def spec_add_all_def)

section \<open>What the program may rely on\<close>

text \<open>The contract of a system with files that are read one byte at a time: a read delivers the next byte and touches neither the other character nor the other
  files, and the program may close the files that are its own.\<close>

locale frame_os = terminal_os +
  fixes rest :: "'b \<Rightarrow> int \<Rightarrow> u8 list option" and mine :: "int \<Rightarrow> bool"
  assumes read_char: "inv s \<Longrightarrow> rest (view s) fd = Some xs \<Longrightarrow> p \<in> {c0p, c1p} \<Longrightarrow>
      \<exists>s'. ece391_read os fd p 1 s = Some (s', if xs = [] then 0 else 1) \<and> inv s' \<and> rest (view s') = (rest (view s))(fd \<mapsto> tl xs)
        \<and> umem os s' p = (if xs = [] then umem os s p else hd xs) \<and> (\<forall>q \<in> {c0p, c1p}. q \<noteq> p \<longrightarrow> umem os s' q = umem os s q)"
    and close_keeps: "inv s \<Longrightarrow> mine fd \<Longrightarrow> \<exists>s' r. ece391_close os fd s = Some (s', r) \<and> inv s' \<and> umem os s' = umem os s \<and> (\<forall>fd'. fd' \<noteq> fd \<longrightarrow> rest (view s') fd' = rest (view s) fd')"
begin

text \<open>One file within a row: \<open>r\<close> is still to come in it; then the file ends, if \<open>e = 1\<close>, or goes on with \<open>ys\<close>.\<close>

definition in_row :: "'a \<Rightarrow> int \<Rightarrow> ptr \<Rightarrow> int \<Rightarrow> u8 list \<Rightarrow> u8 list \<Rightarrow> int \<Rightarrow> bool" where
  "in_row s fd p eof r ys e \<longleftrightarrow>
     (if umem os s p = 0x0A then r = [] \<and> eof = e \<and> (e = 0 \<longrightarrow> rest (view s) fd = Some ys)
      else eof = 0 \<and> 0x0A \<notin> set r \<and> rest (view s) fd = Some (r @ (if e = 1 then [] else 0x0A # ys)))"

lemma store_char: "inv s \<Longrightarrow> p \<in> {c0p, c1p} \<Longrightarrow> inv (upd_mem os (\<lambda>m. m(p := c)) s) \<and> view (upd_mem os (\<lambda>m. m(p := c)) s) = view s
    \<and> umem os (upd_mem os (\<lambda>m. m(p := c)) s) = (umem os s)(p := c)"
proof -
  assume a: "inv s" "p \<in> {c0p, c1p}"
  have "only_locals {30, 31, 32, 33} (umem os s) ((umem os s)(p := c))" using a(2) by (auto simp: only_locals_def)
  from store_ok [OF a(1) this] show ?thesis by (simp add: upd_mem_def)
qed

lemma frame_char_step:
  assumes "inv s" and "in_row s fd p eof r ys e" and "p \<in> {c0p, c1p}" and "e = 0 \<or> e = 1"
  shows "\<exists>s' eof'. frame_char os fd p (s, eof) = Some (s', eof') \<and> inv s' \<and> in_row s' fd p eof' (tl r) ys e \<and> umem os s' p = (if r = [] then 0x0A else hd r)
    \<and> (\<forall>fd'. fd' \<noteq> fd \<longrightarrow> rest (view s') fd' = rest (view s) fd') \<and> (\<forall>q \<in> {c0p, c1p}. q \<noteq> p \<longrightarrow> umem os s' q = umem os s q)"
proof (cases "umem os s p = 0x0A")
  case True
  then show ?thesis using assms by (auto simp: frame_char_def in_row_def)
next
  case False
  define xs where "xs = r @ (if e = 1 then [] else 0x0A # ys)"
  have r: "eof = 0" "0x0A \<notin> set r" "rest (view s) fd = Some xs" using assms(2) False by (simp_all add: in_row_def xs_def)
  obtain t where t: "ece391_read os fd p 1 s = Some (t, if xs = [] then 0 else 1)" "inv t" "rest (view t) = (rest (view s))(fd \<mapsto> tl xs)"
    "umem os t p = (if xs = [] then umem os s p else hd xs)" "\<forall>q \<in> {c0p, c1p}. q \<noteq> p \<longrightarrow> umem os t q = umem os s q"
    using read_char [OF assms(1) r(3) assms(3)] by blast
  show ?thesis
  proof (cases "xs = []")
    case True
    then have "r = []" "e = 1" by (auto simp: xs_def split: if_splits)
    then show ?thesis using t True False r store_char [OF t(2) assms(3), of "0x0A"] by (auto simp: frame_char_def in_row_def)
  next
    case ne: False
    have "frame_char os fd p (s, eof) = Some (t, eof)" using t(1) ne False by (simp add: frame_char_def)
    moreover have "in_row t fd p eof (tl r) ys e" "umem os t p = (if r = [] then 0x0A else hd r)"
      using t(3,4) ne r assms(4) by (cases r; auto simp: in_row_def xs_def split: if_splits)+
    ultimately show ?thesis using t by auto
  qed
qed

lemma in_row_keep:
  assumes "in_row s fd p eof r ys e" and "umem os s' p = umem os s p" and "rest (view s') fd = rest (view s) fd"
  shows "in_row s' fd p eof r ys e"
  using assms by (simp add: in_row_def)

lemma frame_row_cells:
  assumes "inv s" and "in_row s fd0 c0p eof0 r0 ys0 e0" and "in_row s fd1 c1p eof1 r1 ys1 e1" and "fd0 \<noteq> fd1" and "e0 = 0 \<or> e0 = 1" and "e1 = 0 \<or> e1 = 1"
    and "add_all (frame_cells row col r0 r1) b = Some b'"
  shows "\<exists>s'. frame_row os fd0 fd1 row col s b eof0 eof1 = Some (s', b', e0, e1) \<and> inv s' \<and> umem os s' c0p = 0x0A \<and> umem os s' c1p = 0x0A
    \<and> (e0 = 0 \<longrightarrow> rest (view s') fd0 = Some ys0) \<and> (e1 = 0 \<longrightarrow> rest (view s') fd1 = Some ys1)"
  using assms
proof (induction "length r0 + length r1" arbitrary: r0 r1 s b eof0 eof1 col rule: less_induct)
  case less
  let ?c0 = "if r0 = [] then 0x0A else hd r0" and ?c1 = "if r1 = [] then 0x0A else hd r1"
  obtain t eof0' where t: "frame_char os fd0 c0p (s, eof0) = Some (t, eof0')" "inv t" "in_row t fd0 c0p eof0' (tl r0) ys0 e0" "umem os t c0p = ?c0"
    "rest (view t) fd1 = rest (view s) fd1" "umem os t c1p = umem os s c1p"
    using frame_char_step [OF less.prems(1,2) _ less.prems(5)] less.prems(4) by auto
  have "in_row t fd1 c1p eof1 r1 ys1 e1" by (rule in_row_keep [OF less.prems(3) t(6,5)])
  from frame_char_step [OF t(2) this _ less.prems(6)] obtain u eof1' where u: "frame_char os fd1 c1p (t, eof1) = Some (u, eof1')" "inv u" "in_row u fd1 c1p eof1' (tl r1) ys1 e1"
    "umem os u c1p = ?c1" "rest (view u) fd0 = rest (view t) fd0" "umem os u c0p = umem os t c0p"
    using less.prems(4) by auto
  have iu: "in_row u fd0 c0p eof0' (tl r0) ys0 e0" by (rule in_row_keep [OF t(3) u(6,5)])
  have nl: "0x0A \<notin> set r0" "0x0A \<notin> set r1" using less.prems(2,3) by (simp_all add: in_row_def split: if_splits)
  show ?case
  proof (cases "r0 = [] \<and> r1 = []")
    case True
    then have "frame_row os fd0 fd1 row col s b eof0 eof1 = Some (u, b, eof0', eof1')" using t(1,4) u(1,4,6) by (subst frame_row.simps) simp
    then show ?thesis using True iu u t(4) less.prems(7) by (auto simp: in_row_def add_all_def)
  next
    case False
    then have c: "\<not> (?c0 = 0x0A \<and> ?c1 = 0x0A)" using nl by (auto dest: hd_in_set)
    obtain b1 where b1: "add_all (frame_cell row col ?c0 ?c1) b = Some b1" "add_all (frame_cells row (col + 1) (tl r0) (tl r1)) b1 = Some b'"
      using less.prems(7) frame_cells_step [of r0 r1 row col] False by (cases "add_all (frame_cell row col ?c0 ?c1) b") (simp_all add: add_all_simps)
    have "(if ?c0 \<noteq> 0x20 \<and> ?c0 \<noteq> 0x0A \<or> ?c1 \<noteq> 0x20 \<and> ?c1 \<noteq> 0x0A then map_option fst (mp1_ioctl (RTC_ADD (frame_blink row col ?c0 ?c1)) b) else Some b) = Some b1"
      using b1(1) unfolding frame_cell_blink if_distrib [of "\<lambda>xs. add_all xs b"] add_all_simps by simp
    then have "frame_row os fd0 fd1 row col s b eof0 eof1 = frame_row os fd0 fd1 row (col + 1) u b1 eof0' eof1'"
      using t(1,4) u(1,4,6) c by (subst frame_row.simps) (simp only: Option.bind.bind_lunit prod.case Let_def if_False)
    moreover have "length (tl r0) + length (tl r1) < length r0 + length r1" using False by (cases r0; cases r1) simp_all
    ultimately show ?thesis using less.hyps [OF _ u(2) iu u(3) less.prems(4-6) b1(2)] by simp
  qed
qed

lemma frame_end_step:
  assumes "inv s" and "p \<in> {c0p, c1p}" and "mine fd"
  shows "\<exists>s'. frame_end os fd p e s = Some s' \<and> inv s' \<and> umem os s' = (umem os s)(p := if e = 0 then 0x30 else 0x0A)
    \<and> (\<forall>fd'. e = 0 \<or> fd' \<noteq> fd \<longrightarrow> rest (view s') fd' = rest (view s) fd')"
proof (cases "e = 0")
  case True
  then show ?thesis using store_char [OF assms(1,2), of "0x30"] by (simp add: frame_end_def)
next
  case False
  note st = store_char [OF assms(1,2), of "0x0A"]
  then have "inv (upd_mem os (\<lambda>m. m(p := 0x0A)) s)" by blast
  from close_keeps [OF this assms(3)] show ?thesis using False st by (auto simp: frame_end_def)
qed

text \<open>One file between two rows, with the rows still to come.\<close>

definition at_row :: "'a \<Rightarrow> int \<Rightarrow> ptr \<Rightarrow> int \<Rightarrow> u8 list list \<Rightarrow> bool" where
  "at_row s fd p eof rs \<longleftrightarrow>
     (if rs = [] then umem os s p = 0x0A \<and> eof = 1
      else umem os s p \<noteq> 0x0A \<and> eof = 0 \<and> (\<forall>r \<in> set rs. 0x0A \<notin> set r) \<and> rest (view s) fd = Some (join_rows rs))"

lemma at_row_in_row:
  "at_row s fd p eof rs \<Longrightarrow> in_row s fd p eof (if rs = [] then [] else hd rs) (join_rows (tl rs)) (if tl rs = [] then 1 else 0)"
  by (cases rs) (auto simp: at_row_def in_row_def join_rows_Cons)

lemma at_row_next:
  assumes "at_row s fd p eof rs" and "e = (if tl rs = [] then 1 else 0)" and "umem os s' p = (if e = 0 then 0x30 else 0x0A)" and "e = 0 \<Longrightarrow> rest (view s') fd = Some (join_rows (tl rs))"
  shows "at_row s' fd p e (tl rs)"
  using assms by (cases rs) (auto simp: at_row_def split: if_splits)

lemma frame_rows_picture:
  assumes "inv s" and "at_row s fd0 c0p eof0 rs0" and "at_row s fd1 c1p eof1 rs1" and "fd0 \<noteq> fd1" and "add_all (frame_picture row rs0 rs1) b = Some b'" and "mine fd0" and "mine fd1"
  shows "\<exists>s'. frame_rows os fd0 fd1 row s b eof0 eof1 = Some (s', b') \<and> inv s'"
  using assms
proof (induction "length rs0 + length rs1" arbitrary: rs0 rs1 s b eof0 eof1 row rule: less_induct)
  case less
  let ?e0 = "if tl rs0 = [] then 1 else 0 :: int" and ?e1 = "if tl rs1 = [] then 1 else 0 :: int"
  show ?case
  proof (cases "rs0 = [] \<and> rs1 = []")
    case True
    then show ?thesis using less.prems by (subst frame_rows.simps) (simp add: at_row_def add_all_simps)
  next
    case False
    obtain b1 where b1: "add_all (frame_cells row 0 (if rs0 = [] then [] else hd rs0) (if rs1 = [] then [] else hd rs1)) b = Some b1"
      "add_all (frame_picture (row + 1) (tl rs0) (tl rs1)) b1 = Some b'"
      using less.prems(5) frame_picture_step [of rs0 rs1 row] False
      by (cases "add_all (frame_cells row 0 (if rs0 = [] then [] else hd rs0) (if rs1 = [] then [] else hd rs1)) b") (simp_all add: add_all_simps)
    have "?e0 = 0 \<or> ?e0 = 1" "?e1 = 0 \<or> ?e1 = 1" by auto
    from frame_row_cells [OF less.prems(1) at_row_in_row [OF less.prems(2)] at_row_in_row [OF less.prems(3)] less.prems(4) this b1(1)]
    obtain t where t: "frame_row os fd0 fd1 row 0 s b eof0 eof1 = Some (t, b1, ?e0, ?e1)" "inv t" "?e0 = 0 \<longrightarrow> rest (view t) fd0 = Some (join_rows (tl rs0))"
      "?e1 = 0 \<longrightarrow> rest (view t) fd1 = Some (join_rows (tl rs1))" by blast
    obtain u where u: "frame_end os fd0 c0p ?e0 t = Some u" "inv u" "umem os u = (umem os t)(c0p := if ?e0 = 0 then 0x30 else 0x0A)"
      "\<forall>fd'. ?e0 = 0 \<or> fd' \<noteq> fd0 \<longrightarrow> rest (view u) fd' = rest (view t) fd'" using frame_end_step [OF t(2) _ less.prems(6), of c0p ?e0] by blast
    obtain v where v: "frame_end os fd1 c1p ?e1 u = Some v" "inv v" "umem os v = (umem os u)(c1p := if ?e1 = 0 then 0x30 else 0x0A)"
      "\<forall>fd'. ?e1 = 0 \<or> fd' \<noteq> fd1 \<longrightarrow> rest (view v) fd' = rest (view u) fd'" using frame_end_step [OF u(2) _ less.prems(7), of c1p ?e1] by blast
    have "at_row v fd0 c0p ?e0 (tl rs0)" by (rule at_row_next [OF less.prems(2) refl]) (use u(3,4) v(3,4) t(3) less.prems(4) in auto)
    moreover have "at_row v fd1 c1p ?e1 (tl rs1)" by (rule at_row_next [OF less.prems(3) refl]) (use u(4) v(3,4) t(4) less.prems(4) in auto)
    moreover have "length (tl rs0) + length (tl rs1) < length rs0 + length rs1" using False by (cases rs0; cases rs1) simp_all
    ultimately obtain s' where s': "frame_rows os fd0 fd1 (row + 1) v b1 ?e0 ?e1 = Some (s', b')" "inv s'" using less.hyps [OF _ v(2)] less.prems(4,6,7) b1(2) by blast
    have "eof0 = 0 \<or> eof1 = 0" using less.prems(2,3) False by (auto simp: at_row_def split: if_splits)
    then have "frame_rows os fd0 fd1 row s b eof0 eof1 = Some (s', b')"
      using t(1) u(1) v(1) s'(1) by (subst frame_rows.simps) (simp only: if_True Option.bind.bind_lunit prod.case)
    then show ?thesis using s'(2) by blast
  qed
qed

end

section \<open>Waiting\<close>

text \<open>
  Every tick of the clock is a tick of the engine. Between four times of 100 ticks there is the extra character, its synchronisation with the top left place of the picture and its removal.
\<close>

definition fish_story :: "blinks \<Rightarrow> blinks" where
  "fish_story bs =
     (let bs = (spec_tasklet ^^ WAIT) bs;
          bs = (spec_tasklet ^^ WAIT) (fst (spec_add fish_blink bs));
          bs = (spec_tasklet ^^ WAIT) (fst (spec_sync 40 540 bs))
      in (spec_tasklet ^^ WAIT) (fst (spec_remove 540 bs)))"

context clock_os begin

lemma fish_wait_ticks:
  assumes "inv s" and "clock (view s) fd = Some (n + k)" and "represents_blinks bs b"
  shows "\<exists>s' b'. fish_wait os fd n (s, b) = Some (s', b') \<and> inv s' \<and> clock (view s') fd = Some k \<and> represents_blinks ((spec_tasklet ^^ n) bs) b'"
  using assms
proof (induction n arbitrary: k)
  case 0
  then show ?case by (simp add: fish_wait_def)
next
  case (Suc n)
  then obtain t b1 where t: "fish_wait os fd n (s, b) = Some (t, b1)" "inv t" "clock (view t) fd = Some (Suc k)" "represents_blinks ((spec_tasklet ^^ n) bs) b1" by auto
  obtain s' where s': "ece391_read os fd garbage 4 t = Some (s', 0)" "inv s'" "clock (view s') fd = Some k" using tick [OF t(2,3)] by blast
  obtain b' where b': "mp1_rtc_tasklet b1 = Some b'" "represents_blinks ((spec_tasklet ^^ Suc n) bs) b'" using tick_ok [OF t(4)] by auto
  have "fish_wait os fd (Suc n) (s, b) = Some (s', b')" using t(1) s'(1) b'(1) by (simp add: fish_wait_def foldo_append)
  then show ?case using s'(2,3) b'(2) by blast
qed

lemma fish_acts_story:
  assumes "inv s" and "clock (view s) fd = Some (400 + k)" and "represents_blinks bs b"
  shows "\<exists>s' b'. fish_acts os fd (s, b) = Some (s', b') \<and> inv s' \<and> represents_blinks (fish_story bs) b'"
proof -
  let ?T = "spec_tasklet ^^ WAIT"
  have "(2621980 :: u16) = 540" by (simp add: word_uint_eq_iff)
  have c: "clock (view s) fd = Some (WAIT + (300 + k))" using assms(2) by simp
  obtain s1 b1 where s1: "fish_wait os fd WAIT (s, b) = Some (s1, b1)" "inv s1" "clock (view s1) fd = Some (WAIT + (200 + k))" "represents_blinks (?T bs) b1"
    using fish_wait_ticks [OF assms(1) c assms(3)] by auto
  obtain b2 r2 where b2: "mp1_ioctl (RTC_ADD fish_blink) b1 = Some (b2, r2)" "represents_blinks (fst (spec_add fish_blink (?T bs))) b2"
    using ioctl_ok [OF s1(4), of "RTC_ADD fish_blink"] by (auto simp: spec_ioctl_def fish_blink_def)
  obtain s3 b3 where s3: "fish_wait os fd WAIT (s1, b2) = Some (s3, b3)" "inv s3" "clock (view s3) fd = Some (WAIT + (100 + k))" "represents_blinks (?T (fst (spec_add fish_blink (?T bs)))) b3"
    using fish_wait_ticks [OF s1(2,3) b2(2)] by auto
  obtain b4 r4 where b4: "mp1_ioctl (RTC_SYNC (push_bit 16 40 OR (6 * 80 + 60))) b3 = Some (b4, r4)" "represents_blinks (fst (spec_sync 40 540 (?T (fst (spec_add fish_blink (?T bs)))))) b4"
    using ioctl_ok [OF s3(4), of "RTC_SYNC (push_bit 16 40 OR (6 * 80 + 60))"] \<open>(2621980 :: u16) = 540\<close> by (auto simp: spec_ioctl_def)
  obtain s5 b5 where s5: "fish_wait os fd WAIT (s3, b4) = Some (s5, b5)" "inv s5" "clock (view s5) fd = Some (WAIT + k)" "represents_blinks (?T (fst (spec_sync 40 540 (?T (fst (spec_add fish_blink (?T bs))))))) b5"
    using fish_wait_ticks [OF s3(2,3) b4(2)] by auto
  obtain b6 r6 where b6: "mp1_ioctl (RTC_REMOVE (6 * 80 + 60)) b5 = Some (b6, r6)" "represents_blinks (fst (spec_remove 540 (?T (fst (spec_sync 40 540 (?T (fst (spec_add fish_blink (?T bs))))))))) b6"
    using ioctl_ok [OF s5(4), of "RTC_REMOVE (6 * 80 + 60)"] by (auto simp: spec_ioctl_def)
  obtain s7 b7 where s7: "fish_wait os fd WAIT (s5, b6) = Some (s7, b7)" "inv s7" "represents_blinks (fish_story bs) b7"
    using fish_wait_ticks [OF s5(2,3) b6(2)] by (auto simp: fish_story_def Let_def)
  have "fish_acts os fd (s, b) = Some (s7, b7)" unfolding fish_acts_def s1(1) using b2(1) s3(1) b4(1) s5(1) b6(1) s7(1) by simp
  then show ?thesis using s7(2,3) by blast
qed

end

end
