(* ===== verification/Clock_Kernel.thy ===== *)
theory Clock_Kernel
  imports User_Kernel Fish
begin

text \<open>
  The clock of this kernel: reads of a descriptor of the real-time clock take the clock's interrupts among those to come, as the contract \<open>clock_os\<close> has it, so that \<open>pingpong\<close> moves its letter by one place with every interrupt.
\<close>

section \<open>The kernel keeps the contract\<close>

lemma clock_fields:
  fixes s s' :: "'a idt_state_scheme"
  assumes "pic_state.more s' = pic_state.more (s\<lparr>interrupt_occurred := x\<rparr>)"
  shows "kbd_ok s' = kbd_ok s" "pcb_shown s' = pcb_shown s" "bootblock_ptr s' = bootblock_ptr s" "inode_start_addr s' = inode_start_addr s" "data_start_addr s' = data_start_addr s"
    "cur_files s' = cur_files s" "at_prompt s' = at_prompt s"
  using assms by (cases s; cases s'; simp add: kbd_ok_def scr_ok_def pcb_shown_def console_def cursor_pos_def current_PCB_def at_prompt_def no_modifiers_def line_def)+

lemma clock_keeps:
  fixes s s' :: "'a idt_state_scheme"
  assumes "mem s' = mem s" and "pic_state.more s' = pic_state.more (s\<lparr>interrupt_occurred := x\<rparr>)"
  shows "user_ok (s', q') = user_ok (s, q)" "user_view (s', q') = user_view (s, q)" "user_display (s', q') = user_display (s, q)"
proof -
  note f = clock_fields [OF assms(2)]
  show "user_ok (s', q') = user_ok (s, q)" using f by (simp add: user_ok_def Let_def fs_ready_def assms(1))
  show "user_display (s', q') = user_display (s, q)" using f by (simp add: user_display_def)
  show "user_view (s', q') = user_view (s, q)" by (rule user_view_same [of "{}"]) (simp_all add: f assms(1))
qed

text \<open>The interrupt of the clock, and the clock's interrupts that come next.\<close>

definition clock_tick :: "device \<Rightarrow> 'a idt_state_scheme \<Rightarrow> 'a idt_state_scheme option" where
  "clock_tick dev t = Some (rtc_interrupt dev t)"

definition clock_view :: "'a world \<Rightarrow> _" where
  "clock_view w = (cur_files (fst w), user_view w, snd w)"

definition ticks_to_come :: "device \<Rightarrow> file_descriptor list \<times> 'v \<times> ('a idt_state_scheme \<Rightarrow> 'a idt_state_scheme option) list \<Rightarrow> int \<Rightarrow> nat option" where
  "ticks_to_come dev = (\<lambda>(fs, _, q) fd. let d = fs ! nat fd in
     if 2 \<le> fd \<and> fd < 8 \<and> flags d = IN_USE \<and> fd_jumptable d = Some rtc_jumptable then Some (length (takeWhile (\<lambda>h. h = clock_tick dev) q)) else None)"

lemma rtc_interrupt_more:
  "mem (rtc_interrupt dev t) = mem t" "pic_state.more ((rtc_interrupt dev t)\<lparr>interrupt_occurred := 0\<rparr>) = pic_state.more (t\<lparr>interrupt_occurred := 0\<rparr>)"
  by (cases t; simp add: rtc_interrupt_def inb_def outb_def cli_def restore_flags_def send_eoi_def enable_irq_def disable_irq_def Let_def)+

lemma rtc_read_tick:
  fixes s :: "'a idt_state_scheme"
  shows "\<exists>s'. rtc_read (clock_tick dev # q) fd buf n s = Some (s', 0, q) \<and> mem s' = mem s \<and> pic_state.more s' = pic_state.more (s\<lparr>interrupt_occurred := 0\<rparr>)"
proof -
  let ?t = "sti (enable_irq RTC_IRQ ((disable_irq RTC_IRQ (cli s))\<lparr>interrupt_occurred := 0\<rparr>))" and ?P = "\<lambda>s. interrupt_occurred s \<noteq> 0"
  have t: "interrupt_occurred ?t = 0" "mem ?t = mem s" "pic_state.more (?t\<lparr>interrupt_occurred := 0\<rparr>) = pic_state.more (s\<lparr>interrupt_occurred := 0\<rparr>)"
    by (cases s; simp add: sti_def cli_def enable_irq_def disable_irq_def outb_def Let_def)+
  let ?u = "rtc_interrupt dev ?t"
  have u: "?P ?u" "mem ?u = mem s" "pic_state.more (?u\<lparr>interrupt_occurred := 0\<rparr>) = pic_state.more (s\<lparr>interrupt_occurred := 0\<rparr>)"
    using t rtc_interrupt_more [of dev ?t] by (simp_all add: rtc_interrupt_effect(1))
  have "wait_until ?P (clock_tick dev # q) ?t = Some (?u, q)" using t(1) u(1) by (cases q) (simp_all add: clock_tick_def)
  then show ?thesis using u(2,3) by (simp add: rtc_read_def Let_def restore_flags_def)
qed

lemma rtc_write_keeps: "mem (fst (rtc_write dev fd p n s)) = mem s" "pic_state.more (fst (rtc_write dev fd p n s)) = pic_state.more s"
  by (simp_all add: rtc_write_def Let_def split_beta outb_def inb_def enable_irq_def disable_irq_def split: option.splits)

interpretation kclock: clock_os "kernel_os dev run regs" user_ok clock_view user_display tty_emit "ticks_to_come dev"
  for dev :: device and run :: "ptr \<Rightarrow> 'a world \<Rightarrow> ('a world \<times> int) option" and regs
proof
  fix w :: "'a world" and p :: ptr and n :: int
  assume w: "user_ok w" and p: "p \<noteq> NULL" "0 \<le> n"
  obtain w' where w': "ece391_write (kernel_os dev run regs) 1 p n w = Some (w', n)" "user_ok w'" "user_view w' = user_view w" "umem (kernel_os dev run regs) w' = umem (kernel_os dev run regs) w"
    "user_display w' = fold tty_emit (filter (\<lambda>c. c \<noteq> 0) (bytes_at (umem (kernel_os dev run regs) w) p (nat n))) (user_display w)" using kos.write_ok [OF w p] by blast
  have "snd w' = snd w" using w'(1) by (cases w) (auto simp: kernel_calls)
  moreover have "cur_files (fst w') = cur_files (fst w)" using w'(3) by (simp add: user_view_def Let_def)
  ultimately have "clock_view w' = clock_view w" using w'(3) by (simp add: clock_view_def)
  then show "\<exists>w'. ece391_write (kernel_os dev run regs) 1 p n w = Some (w', n) \<and> user_ok w' \<and> clock_view w' = clock_view w \<and> umem (kernel_os dev run regs) w' = umem (kernel_os dev run regs) w
      \<and> user_display w' = fold tty_emit (filter (\<lambda>c. c \<noteq> 0) (bytes_at (umem (kernel_os dev run regs) w) p (nat n))) (user_display w)" using w' by blast
next
  fix w :: "'a world" and m
  assume w: "user_ok w" "only_locals {30, 31, 32, 33} (umem (kernel_os dev run regs) w) m"
  have "clock_view (set_umem (kernel_os dev run regs) m w) = clock_view w"
    using kos.store_ok [OF w] by (cases w) (simp add: clock_view_def kernel_calls current_PCB_def)
  then show "user_ok (set_umem (kernel_os dev run regs) m w) \<and> clock_view (set_umem (kernel_os dev run regs) m w) = clock_view w
      \<and> umem (kernel_os dev run regs) (set_umem (kernel_os dev run regs) m w) = m \<and> user_display (set_umem (kernel_os dev run regs) m w) = user_display w"
    using kos.store_ok [OF w] by blast
next
  fix w :: "'a world" and fd k
  assume w: "user_ok w" "ticks_to_come dev (clock_view w) fd = Some (Suc k)"
  obtain s q where sq: "w = (s, q)" by (cases w)
  have d: "2 \<le> fd" "fd < 8" "flags (cur_files s ! nat fd) = IN_USE" "fd_jumptable (cur_files s ! nat fd) = Some rtc_jumptable" "length (takeWhile (\<lambda>h. h = clock_tick dev) q) = Suc k"
    using w(2) by (auto simp: ticks_to_come_def clock_view_def sq Let_def split: if_splits)
  then obtain q' where q: "q = clock_tick dev # q'" "length (takeWhile (\<lambda>h. h = clock_tick dev) q') = k" by (cases q) (auto split: if_splits)
  obtain s' where s': "rtc_read q fd garbage 4 (sti s) = Some (s', 0, q')" "mem s' = mem s" "pic_state.more s' = pic_state.more (s\<lparr>interrupt_occurred := 0\<rparr>)"
    using rtc_read_tick [of dev q' fd garbage 4 "sti s"] by (cases s) (auto simp: q(1) sti_def)
  note c = clock_keeps [OF s'(2,3), of q' q]
  have "length (cur_files (sti s)) = 8" using w(1) by (simp add: sq user_ok_def Let_def sti_user)
  then have "get_fd fd (sti s) = Some (cur_files s ! nat fd)" using get_fd_nth [of fd "sti s"] d(1,2) by (simp add: sti_user)
  then have "ece391_read (kernel_os dev run regs) fd garbage 4 w = Some ((s', q'), 0)" using s'(1) d by (simp add: sq kernel_calls sys_read_def fops_read_def)
  moreover have "cur_files s' = cur_files s" using c(2) by (simp add: user_view_def Let_def)
  then have "ticks_to_come dev (clock_view (s', q')) fd = Some k" using d q(2) by (simp add: ticks_to_come_def clock_view_def Let_def)
  ultimately show "\<exists>s'. ece391_read (kernel_os dev run regs) fd garbage 4 w = Some (s', 0) \<and> user_ok s' \<and> ticks_to_come dev (clock_view s') fd = Some k
      \<and> umem (kernel_os dev run regs) s' = umem (kernel_os dev run regs) w \<and> user_display s' = user_display w"
    using c(1,3) w(1) s'(2) by (intro exI [of _ "(s', q')"]) (simp add: sq kernel_calls)
next
  fix w :: "'a world" and fd k
  assume w: "user_ok w" "ticks_to_come dev (clock_view w) fd = Some k"
  obtain s q where sq: "w = (s, q)" by (cases w)
  have d: "2 \<le> fd" "fd < 8" "flags (cur_files s ! nat fd) = IN_USE" "fd_jumptable (cur_files s ! nat fd) = Some rtc_jumptable"
    using w(2) by (auto simp: ticks_to_come_def clock_view_def sq Let_def split: if_splits)
  define s' where "s' = fst (rtc_write dev fd ret_val 4 (sti s))"
  have m: "mem s' = mem s" "pic_state.more s' = pic_state.more s" using rtc_write_keeps [of dev fd ret_val 4 "sti s"] by (simp_all add: s'_def sti_def)
  have "pic_state.more s' = pic_state.more (s\<lparr>interrupt_occurred := interrupt_occurred s\<rparr>)" using m(2) by simp
  note c = clock_keeps [OF m(1) this, of q q]
  have "length (cur_files (sti s)) = 8" using w(1) by (simp add: sq user_ok_def Let_def sti_user)
  then have "get_fd fd (sti s) = Some (cur_files s ! nat fd)" using get_fd_nth [of fd "sti s"] d(1,2) by (simp add: sti_user)
  then have "ece391_write (kernel_os dev run regs) fd ret_val 4 w = Some ((s', q), snd (rtc_write dev fd ret_val 4 (sti s)))"
    using d by (simp add: sq kernel_calls sys_write_def fops_write_def s'_def split_beta)
  moreover have "cur_files s' = cur_files s" using c(2) by (simp add: user_view_def Let_def)
  ultimately show "\<exists>s' r. ece391_write (kernel_os dev run regs) fd ret_val 4 w = Some (s', r) \<and> user_ok s' \<and> ticks_to_come dev (clock_view s') fd = Some k
      \<and> umem (kernel_os dev run regs) s' = umem (kernel_os dev run regs) w \<and> user_display s' = user_display w"
    using c(1,3) w m(1) by (intro exI [of _ "(s', q)"] exI) (simp add: sq kernel_calls clock_view_def ticks_to_come_def)
qed

section \<open>The bouncing letter\<close>

text \<open>Opening the clock by its name: all its interrupts that come next are still to be read.\<close>

lemma open_clock_kernel:
  fixes dev :: device and run :: "ptr \<Rightarrow> 'a world \<Rightarrow> ('a world \<times> int) option" and s :: "'a idt_state_scheme"
  assumes "user_ok (s, q)" and "dir_lookup (mem s) (bootblock_ptr s) (cbytes ''rtc'') = Some k" and "filetype (mem s) (dentry_at (bootblock_ptr s) (of_nat k)) = 0"
    and "first_fd s = Some fd"
  shows "\<exists>s'. ece391_open (kernel_os dev run regs) lit (literal (kernel_os dev run regs) ''rtc'' (s, q)) = Some ((s', q), int fd) \<and> user_ok (s', q)
    \<and> user_display (s', q) = user_display (s, q) \<and> only_locals {1, 2, 13, 30} (mem s) (mem s') \<and> bootblock_ptr s' = bootblock_ptr s
    \<and> cur_files s' = (cur_files s)[fd := opened_fd rtc_jumptable 0]
    \<and> ticks_to_come dev (clock_view (s', q)) (int fd) = Some (length (takeWhile (\<lambda>h. h = clock_tick dev) q))"
proof -
  let ?os = "kernel_os dev run regs"
  have fd: "2 \<le> fd" "fd < 8" using first_fd_range [OF assms(4)] by simp_all
  have len: "length (cur_files s) = 8" using assms(1) by (simp add: user_ok_def Let_def)
  have n: "0 \<notin> set (cbytes ''rtc'')" "length ''rtc'' < 1000" by (simp_all add: cbytes_def)
  obtain s' where s': "ece391_open ?os lit (literal ?os ''rtc'' (s, q)) = Some ((s', q), int fd)" "user_ok (s', q)" "user_display (s', q) = user_display (s, q)"
    "only_locals {1, 2, 13, 30} (mem s) (mem s')" "bootblock_ptr s' = bootblock_ptr s" "cur_files s' = (cur_files s)[fd := opened_fd rtc_jumptable 0]"
    using open_literal_kernel [OF assms(1) n refl, of dev run regs] assms(2-4) by (auto simp: fop_tables_def)
  moreover have "ticks_to_come dev (clock_view (s', q)) (int fd) = Some (length (takeWhile (\<lambda>h. h = clock_tick dev) q))"
    using fd len by (simp add: ticks_to_come_def clock_view_def s'(6)) (simp add: opened_fd_def)
  ultimately show ?thesis by blast
qed

text \<open>
  C23: \<open>pingpong\<close> on this kernel draws a letter that moves from the left wall to the right one and back, one place with every interrupt of the clock, and goes on with the next letter
  of the alphabet, after \<open>Z\<close> with \<open>A\<close>: with the clock in the directory, a free descriptor and 152 interrupts for every round, it does \<open>n\<close> rounds and the terminal shows their rows in order.
\<close>

theorem pingpong_bounces:
  fixes dev :: device and run :: "ptr \<Rightarrow> 'a world \<Rightarrow> ('a world \<times> int) option" and s :: "'a idt_state_scheme"
  assumes "user_ok (s, q)" and "dir_lookup (mem s) (bootblock_ptr s) (cbytes ''rtc'') = Some k" and "filetype (mem s) (dentry_at (bootblock_ptr s) (of_nat k)) = 0"
    and "first_fd s \<noteq> None" and "q = replicate (152 * n) (clock_tick dev) @ q'"
  shows "\<exists>w. pingpong_main (kernel_os dev run regs) n (s, q) = Some w \<and> user_ok w \<and> user_display w = fold tty_emit (pp_rows n) (user_display (s, q))"
proof -
  let ?os = "kernel_os dev run regs"
  obtain fd where fd: "first_fd s = Some fd" using assms(4) by blast
  define t where "t = s\<lparr>mem := pingpong_walls (mem s)\<rparr>"
  note ol = pingpong_walls_stand(2) [of "mem s"]
  have t: "upd_mem ?os pingpong_walls (s, q) = (t, q)" "mem t = pingpong_walls (mem s)" "bootblock_ptr t = bootblock_ptr s" "first_fd t = Some fd"
    using fd by (simp_all add: upd_mem_def kernel_calls t_def current_PCB_def first_fd_def)
  have "only_locals {30, 31, 32, 33} (umem ?os (s, q)) (pingpong_walls (mem s))" unfolding kernel_calls by (rule only_locals_mono [OF ol]) simp
  from kos.store_ok [OF assms(1) this] have ut: "user_ok (t, q)" "user_display (t, q) = user_display (s, q)" by (simp_all add: kernel_calls t_def)
  have lk: "dir_lookup (mem t) (bootblock_ptr t) (cbytes ''rtc'') = Some k" "filetype (mem t) (dentry_at (bootblock_ptr t) (of_nat k)) = 0"
    using assms(2,3) by (simp_all add: t(2,3) dir_lookup_locals [OF ol] only_locals_fs [OF ol])
  obtain r where r: "length (takeWhile (\<lambda>h. h = clock_tick dev) q) = 152 * n + r" unfolding assms(5) by (simp add: takeWhile_append)
  obtain u where u: "ece391_open ?os lit (literal ?os ''rtc'' (t, q)) = Some ((u, q), int fd)" "user_ok (u, q)" "user_display (u, q) = user_display (t, q)"
    "only_locals {1, 2, 13, 30} (mem t) (mem u)" "ticks_to_come dev (clock_view (u, q)) (int fd) = Some (152 * n + r)"
    using open_clock_kernel [OF ut(1) lk t(4), of dev run regs] r by auto
  obtain v r0 where v: "ece391_write ?os (int fd) ret_val 4 (upd_mem ?os (\<lambda>m. st32 m ret_val 32) (u, q)) = Some (v, r0)" "user_ok v"
    "ticks_to_come dev (clock_view v) (int fd) = Some (152 * n + r)" "only_locals {33} (mem u) (umem ?os v)" "user_display v = user_display (s, q)"
    using kclock.rate_set [OF u(2,5), of run regs] u(3) ut(2) by (auto simp: kernel_calls)
  have "umem ?os v (pbuf i) = mem t (pbuf i)" for i using only_locals_at [OF u(4), of "pbuf i"] only_locals_at [OF v(4), of "pbuf i"] by simp
  then have "walls (umem ?os v)" using pingpong_walls_stand(1) [of "mem s"] by (simp only: walls_def t(2))
  from kclock.rounds_show [OF v(2) this v(3), of 0] obtain w where "pingpong_rounds ?os (int fd) n STARTCHAR v = Some w" "user_ok w"
    "user_display w = fold tty_emit (pp_rows n) (user_display (s, q))" using v(5) by (auto simp: pp_rows_def)
  then show ?thesis using v(1) u(1) unfolding pingpong_main_def t(1) Let_def by simp
qed

text \<open>A disk with the clock as its second entry.\<close>

definition clock_image :: mem where
  "clock_image = user_image((Global, 0x400080) := 0x72, (Global, 0x400081) := 0x74, (Global, 0x400082) := 0x63, (Global, 0x4000A0) := 0)"

lemma clock_words:
  "ld32 clock_image (Global, 0x400000) = 2" "ld32 clock_image (Global, 0x400004) = 2" "ld32 clock_image (Global, 0x400008) = 3" "ld32 clock_image (Global, 0x4000A0) = 0"
  by (simp_all add: ld32_def clock_image_def user_image_def demo_image_def padd_def)

lemma clock_entry: "dir_lookup clock_image 0x400000 (cbytes ''rtc'') = Some 1" "filetype clock_image (dentry_at 0x400000 (of_nat 1)) = 0"
proof -
  have "cstr clock_image (Global, 0x400040) [0x68, 0x69]" "cstr clock_image (Global, 0x400080) [0x72, 0x74, 0x63]"
    by (simp_all add: cstr_def bytes_at_def clock_image_def user_image_def demo_image_def padd_def upt_conv_Cons)
  then have n: "entry_name clock_image 0x400000 0 = [0x68, 0x69]" "entry_name clock_image 0x400000 1 = [0x72, 0x74, 0x63]" by (simp_all add: entry_name_def dentry_at_def cstr_upto_nul)
  have "entry_name clock_image 0x400000 (Suc 0) = [0x72, 0x74, 0x63]" using n(2) by simp
  then show "dir_lookup clock_image 0x400000 (cbytes ''rtc'') = Some 1" unfolding dir_lookup_def clock_words using n by (simp add: cbytes_def upt_conv_Cons)
  show "filetype clock_image (dentry_at 0x400000 (of_nat 1)) = 0" by (simp add: filetype_def dentry_at_def padd_def clock_words)
qed

theorem pingpong_bounces_witness:
  "\<exists>w. pingpong_main demo_os 1 (idt_demo\<lparr>mem := clock_image\<rparr>, replicate (152 * 1) (clock_tick (\<lambda>_ _. 0)) @ []) = Some w
    \<and> user_display w = fold tty_emit (pp_rows 1) (user_display (idt_demo\<lparr>mem := clock_image\<rparr>, []))"
proof -
  have "ld32 clock_image (Global, 0x400000) \<le> 62" by (simp add: clock_words)
  note d = demo_world [OF this clock_words(2,3)]
  let ?s = "idt_demo\<lparr>mem := clock_image\<rparr>" and ?q = "replicate (152 * 1) (clock_tick (\<lambda>_ _. 0)) @ []"
  have ok: "user_ok (?s, ?q)" "user_display (?s, ?q) = user_display (?s, [])" using d(1) by (simp_all only: user_ok_def user_display_def fst_conv)
  have lk: "dir_lookup (mem ?s) (bootblock_ptr ?s) (cbytes ''rtc'') = Some 1" "filetype (mem ?s) (dentry_at (bootblock_ptr ?s) (of_nat 1)) = 0" using clock_entry d(2) by simp_all
  have "first_fd ?s \<noteq> None" using d(4) by simp
  from pingpong_bounces [OF ok(1) lk this refl, of "\<lambda>_ _. None" "(0, 0, 0)"] show ?thesis unfolding ok(2) by blast
qed

end
