(* ===== verification/Fish_Kernel.thy ===== *)
theory Fish_Kernel
  imports Clock_Kernel Fish
begin

text \<open>
  The fish animation on the kernel: the kernel's files keep the contract of \<open>frame_os\<close> while a descriptor of the clock stays open, so that the picture made of two files on the disk is what the blinking engine shows,
  at the pace of the clock.
\<close>

section \<open>The kernel keeps the contract\<close>

lemma close_kernel:
  assumes "user_ok (s, q)"
  shows "\<exists>s' r. sys_close fd s = Some (s', r) \<and> user_ok (s', q) \<and> mem s' = mem s \<and> (\<forall>fd'. fd' \<noteq> fd \<longrightarrow> file_rest s' fd' = file_rest s fd')
    \<and> (\<exists>d. cur_files s' = (cur_files s)[nat fd := d])"
proof (cases "fd < 2 \<or> 8 \<le> fd \<or> flags (cur_files s ! nat fd) = 0")
  case True
  then have "sys_close fd s = Some (s, -1)" using fd_rejected(3) [of s fd] assms by (auto simp: user_ok_def Let_def)
  moreover have "cur_files s = (cur_files s)[nat fd := cur_files s ! nat fd]" by simp
  ultimately show ?thesis using assms by blast
next
  case False
  have len: "length (cur_files s) = 8" using assms by (simp add: user_ok_def Let_def)
  have fd: "2 \<le> fd" "fd < 8" "nat fd < 8" "0 \<le> fd" using False by linarith+
  define s' where "s' = with_files ((cur_files s)[nat fd := closed_fd]) s"
  have cl: "sys_close fd s = Some (s', 0)"
    using get_fd_nth [OF fd(4), of s] set_fd_nth [OF fd(4), of s] len fd False by (simp add: sys_close_def closed_fd_def s'_def)
  have c: "cur_files s' = (cur_files s)[nat fd := closed_fd]" "mem s' = mem s" "bootblock_ptr s' = bootblock_ptr s" by (simp_all add: s'_def with_files_def current_PCB_def)
  have "user_ok (s', q)" using assms fd c by (simp add: user_ok_def Let_def s'_def fs_ready_def with_files_def kbd_ok_def scr_ok_def current_PCB_def)
  moreover have "file_rest s' fd' = file_rest s fd'" if "fd' \<noteq> fd" for fd'
    using file_rest_other [of "{}" s s' fd closed_fd fd'] c fd(4) that by (simp add: only_locals_def)
  ultimately show ?thesis using cl c(1,2) by blast
qed

text \<open>A state with the clock open at \<open>fdr\<close>.\<close>

definition with_clock :: "device \<Rightarrow> int \<Rightarrow> ('a idt_state_scheme \<Rightarrow> 'a idt_state_scheme option) list \<Rightarrow> 'a world \<Rightarrow> bool" where
  "with_clock dev fdr q w \<longleftrightarrow> user_ok w \<and> snd w = q \<and> ticks_to_come dev (clock_view w) fdr = Some (length (takeWhile (\<lambda>h. h = clock_tick dev) q))"

lemma with_clock_step:
  assumes "with_clock dev fdr q (s, q)" and "user_ok (s', q)" and "fd \<noteq> fdr" and "0 \<le> fd" and "cur_files s' = (cur_files s)[nat fd := d]"
  shows "with_clock dev fdr q (s', q)"
proof -
  have "2 \<le> fdr" using assms(1) by (auto simp: with_clock_def ticks_to_come_def clock_view_def Let_def split: if_splits)
  then have "nat fd \<noteq> nat fdr" using assms(3,4) by simp
  then show ?thesis using assms(1,2,5) by (simp add: with_clock_def ticks_to_come_def clock_view_def)
qed

interpretation kframes: frame_os "kernel_os dev run regs" "with_clock dev fdr q" user_view user_display tty_emit fst "\<lambda>fd. 0 \<le> fd \<and> fd \<noteq> fdr"
  for dev :: device and run :: "ptr \<Rightarrow> 'a world \<Rightarrow> ('a world \<times> int) option" and regs fdr q
proof
  fix w :: "'a world" and p :: ptr and n :: int
  assume w: "with_clock dev fdr q w" and p: "p \<noteq> NULL" "0 \<le> n"
  then have "user_ok w" by (simp add: with_clock_def)
  from kclock.write_ok [OF this p, of dev run regs] show "\<exists>w'. ece391_write (kernel_os dev run regs) 1 p n w = Some (w', n) \<and> with_clock dev fdr q w' \<and> user_view w' = user_view w \<and> umem (kernel_os dev run regs) w' = umem (kernel_os dev run regs) w
      \<and> user_display w' = fold tty_emit (filter (\<lambda>c. c \<noteq> 0) (bytes_at (umem (kernel_os dev run regs) w) p (nat n))) (user_display w)"
    using w by (auto simp: with_clock_def clock_view_def)
next
  fix w :: "'a world" and m
  assume w: "with_clock dev fdr q w" "only_locals {30, 31, 32, 33} (umem (kernel_os dev run regs) w) m"
  then have "user_ok w" by (simp add: with_clock_def)
  from kclock.store_ok [OF this w(2)] show "with_clock dev fdr q (set_umem (kernel_os dev run regs) m w) \<and> user_view (set_umem (kernel_os dev run regs) m w) = user_view w
      \<and> umem (kernel_os dev run regs) (set_umem (kernel_os dev run regs) m w) = m \<and> user_display (set_umem (kernel_os dev run regs) m w) = user_display w"
    using w(1) by (auto simp: with_clock_def clock_view_def)
next
  fix w :: "'a world" and fd xs and p :: ptr
  assume w: "with_clock dev fdr q w" "fst (user_view w) fd = Some xs" and p: "p \<in> {c0p, c1p}"
  obtain s where sq: "w = (s, q)" using w(1) by (cases w) (auto simp: with_clock_def)
  obtain j where j: "p = (Local j, 0)" "j = 31 \<or> j = 32" using p by auto
  have v: "user_ok (sti s, q)" "file_rest (sti s) = file_rest s" using w sti_user(1,2) [of s q] by (simp_all add: sq user_view_def Let_def with_clock_def)
  have x: "file_rest (sti s) fd = Some xs" using w v(2) by (simp add: sq user_view_def Let_def)
  have fd: "fd \<noteq> fdr" "0 \<le> fd" using w by (auto simp: sq user_view_def Let_def file_rest_def with_clock_def ticks_to_come_def clock_view_def split: if_splits)
  obtain s' d where s': "sys_read q fd p 1 (sti s) = Some (s', int (length (take 1 xs)), q)" "user_ok (s', q)" "bytes_at (mem s') p (length (take 1 xs)) = take 1 xs"
    "file_rest s' = (file_rest s)(fd \<mapsto> drop 1 xs)" "only_locals {4, 11, j} (mem s) (mem s')" "take 1 xs = [] \<Longrightarrow> only_locals {4, 11} (mem s) (mem s')" "cur_files s' = (cur_files s)[nat fd := d]"
    using read_file_kernel [OF v(1) x, of 1 "take 1 xs" p j] j(1) v(2) by (auto simp: sti_user(4,5))
  have "mem s' q' = mem s q'" if "q' \<in> {c0p, c1p}" "q' \<noteq> p" for q' using that only_locals_at [OF s'(5), of q'] j by auto
  moreover have "mem s' p = (if xs = [] then mem s p else hd xs)"
  proof (cases xs)
    case Nil
    then show ?thesis using only_locals_at [OF s'(6), of p] j by auto
  next
    case (Cons c cs)
    then show ?thesis using s'(3) by (simp add: bytes_at_def)
  qed
  moreover have "with_clock dev fdr q (s', q)" by (rule with_clock_step [OF w(1) [unfolded sq] s'(2) fd s'(7)])
  ultimately show "\<exists>s'. ece391_read (kernel_os dev run regs) fd p 1 w = Some (s', if xs = [] then 0 else 1) \<and> with_clock dev fdr q s' \<and> fst (user_view s') = (fst (user_view w))(fd \<mapsto> tl xs)
      \<and> umem (kernel_os dev run regs) s' p = (if xs = [] then umem (kernel_os dev run regs) w p else hd xs)
      \<and> (\<forall>q \<in> {c0p, c1p}. q \<noteq> p \<longrightarrow> umem (kernel_os dev run regs) s' q = umem (kernel_os dev run regs) w q)"
    using s'(1,4) by (intro exI [of _ "(s', q)"]) (cases xs; simp add: kernel_calls sq user_view_def Let_def)
next
  fix w :: "'a world" and fd
  assume w: "with_clock dev fdr q w" and fd: "0 \<le> fd \<and> fd \<noteq> fdr"
  obtain s where sq: "w = (s, q)" using w(1) by (cases w) (auto simp: with_clock_def)
  have v: "user_ok (sti s, q)" "file_rest (sti s) = file_rest s" using w sti_user(1,2) [of s q] by (simp_all add: sq user_view_def Let_def with_clock_def)
  from close_kernel [OF v(1), of fd] obtain s' r d where s': "sys_close fd (sti s) = Some (s', r)" "user_ok (s', q)" "mem s' = mem s" "\<forall>fd'. fd' \<noteq> fd \<longrightarrow> file_rest s' fd' = file_rest s fd'"
    "cur_files s' = (cur_files s)[nat fd := d]" by (auto simp: v(2) sti_user(4,5))
  have "with_clock dev fdr q (s', q)" by (rule with_clock_step [OF w [unfolded sq] s'(2) _ _ s'(5)]) (use fd in auto)
  then show "\<exists>s' r. ece391_close (kernel_os dev run regs) fd w = Some (s', r) \<and> with_clock dev fdr q s' \<and> umem (kernel_os dev run regs) s' = umem (kernel_os dev run regs) w
      \<and> (\<forall>fd'. fd' \<noteq> fd \<longrightarrow> fst (user_view s') fd' = fst (user_view w) fd')"
    using s'(1,3,4) by (intro exI [of _ "(s', q)"] exI [of _ r]) (simp add: kernel_calls sq user_view_def Let_def)
qed

section \<open>The picture on the screen\<close>

text \<open>A file of the directory by its name, with its contents.\<close>

definition text_file :: "mem \<Rightarrow> u32 \<Rightarrow> string \<Rightarrow> u8 list \<Rightarrow> bool" where
  "text_file m bb name xs \<longleftrightarrow> name \<noteq> [] \<and> 0 \<notin> set (cbytes name) \<and> length name < 1000
     \<and> (case dir_lookup m bb (cbytes name) of None \<Rightarrow> False
        | Some k \<Rightarrow> let x = dentry_at bb (of_nat k) in filetype m x = 2 \<and> regular_inode m bb (idx_inode m x) \<and> xs = file_contents m bb (idx_inode m x))"

lemma text_file_locals: "only_locals B m m' \<Longrightarrow> text_file m' bb name xs = text_file m bb name xs"
  by (simp add: text_file_def dir_lookup_locals only_locals_fs regular_inode_locals Let_def split: option.splits)

text \<open>Opening a file by a literal name: its contents are then to come from the new descriptor, the other files stay as they are.\<close>

lemma open_text_kernel:
  fixes dev :: device and run :: "ptr \<Rightarrow> 'a world \<Rightarrow> ('a world \<times> int) option" and s :: "'a idt_state_scheme"
  assumes "user_ok (s, q)" and "text_file (mem s) (bootblock_ptr s) name xs" and "first_fd s = Some fd"
  shows "\<exists>s' t i. ece391_open (kernel_os dev run regs) lit (literal (kernel_os dev run regs) name (s, q)) = Some ((s', q), int fd) \<and> user_ok (s', q)
    \<and> only_locals {1, 2, 13, 30} (mem s) (mem s') \<and> bootblock_ptr s' = bootblock_ptr s \<and> cur_files s' = (cur_files s)[fd := opened_fd t i]
    \<and> file_rest s' = (file_rest s)(int fd \<mapsto> xs)"
proof -
  let ?os = "kernel_os dev run regs" and ?bb = "bootblock_ptr s"
  from assms(2) obtain k where n: "name \<noteq> []" "0 \<notin> set (cbytes name)" "length name < 1000" and k: "dir_lookup (mem s) ?bb (cbytes name) = Some k"
    and x: "filetype (mem s) (dentry_at ?bb (of_nat k)) = 2" "regular_inode (mem s) ?bb (idx_inode (mem s) (dentry_at ?bb (of_nat k)))"
      "xs = file_contents (mem s) ?bb (idx_inode (mem s) (dentry_at ?bb (of_nat k)))"
    by (auto simp: text_file_def Let_def split: option.splits)
  let ?i = "idx_inode (mem s) (dentry_at ?bb (of_nat k))"
  have fd: "2 \<le> fd" "fd < 8" using first_fd_range [OF assms(3)] by simp_all
  obtain s' where s': "ece391_open ?os lit (literal ?os name (s, q)) = Some ((s', q), int fd)" "user_ok (s', q)"
    "only_locals {1, 2, 13, 30} (mem s) (mem s')" "bootblock_ptr s' = ?bb" "cur_files s' = (cur_files s)[fd := opened_fd filesystem_reg_jumptable ?i]"
    using open_literal_kernel [OF assms(1) n(2,3) refl, of dev run regs] n(1) k x(1) assms(3) by (auto simp: fop_tables_def Let_def)
  have len: "length (cur_files s) = 8" using assms(1) by (simp add: user_ok_def Let_def)
  have "file_rest s' fd' = ((file_rest s)(int fd \<mapsto> xs)) fd'" for fd'
  proof (cases "fd' = int fd")
    case True
    then show ?thesis using fd len x(2,3)
      by (simp add: file_rest_def Let_def s'(4,5) only_locals_fs [OF s'(3)] regular_inode_locals [OF s'(3)]) (simp add: opened_fd_def)
  next
    case False
    then show ?thesis using file_rest_other [OF s'(3,4), of "int fd"] s'(5) by simp
  qed
  then show ?thesis using s' by blast
qed

text \<open>The two frames, with the clock open: the engine gets the picture.\<close>

lemma open_frame_kernel:
  fixes dev :: device and run :: "ptr \<Rightarrow> 'a world \<Rightarrow> ('a world \<times> int) option" and s :: "'a idt_state_scheme"
  assumes "with_clock dev fdr q (s, q)" and "text_file (mem s) (bootblock_ptr s) name xs" and "fds.used (cur_files s) < 6"
  shows "\<exists>s' fd. ece391_open (kernel_os dev run regs) lit (literal (kernel_os dev run regs) name (s, q)) = Some ((s', q), fd) \<and> with_clock dev fdr q (s', q)
    \<and> only_locals {1, 2, 13, 30} (mem s) (mem s') \<and> bootblock_ptr s' = bootblock_ptr s \<and> fds.used (cur_files s') = Suc (fds.used (cur_files s))
    \<and> file_rest s' = (file_rest s)(fd \<mapsto> xs) \<and> file_rest s fd = None \<and> 0 \<le> fd \<and> fd \<noteq> fdr"
proof -
  have ok: "user_ok (s, q)" using assms(1) by (simp add: with_clock_def)
  then have len: "length (cur_files s) = 8" by (simp add: user_ok_def Let_def)
  obtain f where f: "first_fd s = Some f" using fds.first_free_iff [of "cur_files s"] assms(3) by (auto simp: first_fd_def)
  then have free: "flags (cur_files s ! f) = 0" unfolding first_fd_def fds.first_free_Some by simp
  obtain s' t i where s': "ece391_open (kernel_os dev run regs) lit (literal (kernel_os dev run regs) name (s, q)) = Some ((s', q), int f)" "user_ok (s', q)"
    "only_locals {1, 2, 13, 30} (mem s) (mem s')" "bootblock_ptr s' = bootblock_ptr s" "cur_files s' = (cur_files s)[f := opened_fd t i]" "file_rest s' = (file_rest s)(int f \<mapsto> xs)"
    using open_text_kernel [OF ok assms(2) f, of dev run regs] by blast
  have ne: "int f \<noteq> fdr" using assms(1) free by (auto simp: with_clock_def ticks_to_come_def clock_view_def Let_def split: if_splits)
  have "with_clock dev fdr q (s', q)" by (rule with_clock_step [OF assms(1) s'(2) ne]) (use s'(5) in simp_all)
  moreover have "fds.used (cur_files s') = Suc (fds.used (cur_files s))" using fds.used_occupy [OF len f [unfolded first_fd_def]] s'(5) by simp
  moreover have "file_rest s (int f) = None" using free by (simp add: file_rest_def)
  ultimately show ?thesis using s'(1,3,4,6) ne by (intro exI [of _ s'] exI [of _ "int f"]) simp
qed

lemma frames_kernel:
  fixes dev :: device and run :: "ptr \<Rightarrow> 'a world \<Rightarrow> ('a world \<times> int) option" and s :: "'a idt_state_scheme"
  assumes "with_clock dev fdr q (s, q)" and "text_file (mem s) (bootblock_ptr s) f0 xs0" and "text_file (mem s) (bootblock_ptr s) f1 xs1" and "fds.used (cur_files s) < 5"
    and "add_all (frame_picture 0 (split_rows xs0) (split_rows xs1)) b = Some b'"
  shows "\<exists>w. add_frames (kernel_os dev run regs) f0 f1 (s, q) b = Some (w, b', None) \<and> with_clock dev fdr q w"
proof -
  let ?os = "kernel_os dev run regs" and ?m = "(mem s)(c0p := 0x30, c1p := 0x30)"
  define t where "t = s\<lparr>mem := ?m\<rparr>"
  have ol: "only_locals {30, 31, 32, 33} (mem s) ?m" by (auto simp: only_locals_def)
  have up: "upd_mem ?os (\<lambda>m. m(c0p := 0x30, c1p := 0x30)) (s, q) = (t, q)" by (simp add: upd_mem_def kernel_calls t_def)
  have t: "with_clock dev fdr q (t, q)" "mem t = ?m" "bootblock_ptr t = bootblock_ptr s" "cur_files t = cur_files s"
    using kframes.store_ok [OF assms(1), of run regs ?m] ol by (simp_all add: kernel_calls t_def current_PCB_def)
  obtain u fd where u: "ece391_open ?os lit (literal ?os f0 (t, q)) = Some ((u, q), fd)" "with_clock dev fdr q (u, q)" "only_locals {1, 2, 13, 30} ?m (mem u)" "bootblock_ptr u = bootblock_ptr s"
    "fds.used (cur_files u) < 6" "file_rest u = (file_rest t)(fd \<mapsto> xs0)" "0 \<le> fd \<and> fd \<noteq> fdr"
    using open_frame_kernel [OF t(1), of f0 xs0 run regs] assms(2,4) t(2-4) text_file_locals [OF ol] by auto
  obtain v fd1 where v: "ece391_open ?os lit (literal ?os f1 (u, q)) = Some ((v, q), fd1)" "with_clock dev fdr q (v, q)" "only_locals {1, 2, 13, 30} (mem u) (mem v)"
    "file_rest v = (file_rest u)(fd1 \<mapsto> xs1)" "file_rest u fd1 = None" "0 \<le> fd1 \<and> fd1 \<noteq> fdr"
    using open_frame_kernel [OF u(2) _ u(5), of f1 xs1 run regs] assms(3) u(4) text_file_locals [OF ol] text_file_locals [OF u(3)] by auto
  have ne: "fd \<noteq> fd1" using v(5) u(6) by auto
  have c: "mem v c0p = 0x30" "mem v c1p = 0x30" using only_locals_at [OF v(3), of c0p] only_locals_at [OF u(3), of c0p] only_locals_at [OF v(3), of c1p] only_locals_at [OF u(3), of c1p] by simp_all
  have at: "kframes.at_row dev run regs (v, q) fd c0p 0 (split_rows xs0)" "kframes.at_row dev run regs (v, q) fd1 c1p 0 (split_rows xs1)"
    using c split_rows_join v(4) u(6) ne by (auto simp: kframes.at_row_def kernel_calls user_view_def Let_def)
  from kframes.frame_rows_picture [OF v(2) at ne assms(5) u(7) v(6)] obtain w where "frame_rows ?os fd fd1 0 (v, q) b 0 0 = Some (w, b')" "with_clock dev fdr q w" by blast
  then show ?thesis using u(1,7) v(1,6) unfolding add_frames_def up Let_def by auto
qed

text \<open>
  C22: the animation on this kernel. With the clock and both frame files on the disk, three free descriptors and 400 interrupts of the clock to come, \<open>fish\<close> returns 0 once the video page is mapped, and what the blinking engine
  then holds and shows is what the plain list does: one structure for every place of a row where one of the frames has a character other than a blank, in the order of the text, a shorter frame or row counting as blank;
  100 ticks; one more character; 100 ticks; its synchronisation with the top left place of the picture; 100 ticks; its removal; 100 ticks.
\<close>

theorem fish_animates:
  fixes dev :: device and run :: "ptr \<Rightarrow> 'a world \<Rightarrow> ('a world \<times> int) option" and s :: "'a idt_state_scheme"
  assumes "user_ok (s, q)" and "dir_lookup (mem s) (bootblock_ptr s) (cbytes ''rtc'') = Some k" and "filetype (mem s) (dentry_at (bootblock_ptr s) (of_nat k)) = 0"
    and "text_file (mem s) (bootblock_ptr s) ''frame0.txt'' xs0" and "text_file (mem s) (bootblock_ptr s) ''frame1.txt'' xs1" and "fds.used (cur_files s) \<le> 3" and "q = replicate 400 (clock_tick dev) @ q'"
    and "represents_blinks bs b" and "\<forall>c \<in> set (frame_picture 0 (split_rows xs0) (split_rows xs1)). location c \<noteq> 0"
  shows "\<exists>w b'. fish_show (kernel_os dev run regs) (s, q) b = Some (w, b', 0) \<and> user_ok w \<and> represents_blinks (fish_story (spec_add_all (frame_picture 0 (split_rows xs0) (split_rows xs1)) bs)) b'"
proof -
  let ?os = "kernel_os dev run regs" and ?pic = "frame_picture 0 (split_rows xs0) (split_rows xs1)"
  have len: "length (cur_files s) = 8" using assms(1) by (simp add: user_ok_def Let_def)
  obtain f where f: "first_fd s = Some f" using fds.first_free_iff [of "cur_files s"] assms(6) by (auto simp: first_fd_def)
  obtain k where k: "length (takeWhile (\<lambda>h. h = clock_tick dev) q) = 400 + k" unfolding assms(7) by (simp add: takeWhile_append)
  obtain t where t: "ece391_open ?os lit (literal ?os ''rtc'' (s, q)) = Some ((t, q), int f)" "user_ok (t, q)" "only_locals {1, 2, 13, 30} (mem s) (mem t)" "bootblock_ptr t = bootblock_ptr s"
    "cur_files t = (cur_files s)[f := opened_fd rtc_jumptable 0]" "with_clock dev (int f) q (t, q)"
    using open_clock_kernel [OF assms(1-3) f, of dev run regs] by (auto simp: with_clock_def)
  have used: "fds.used (cur_files t) < 5" using fds.used_occupy [OF len f [unfolded first_fd_def]] assms(6) t(5) by simp
  obtain b1 where b1: "add_all ?pic b = Some b1" "represents_blinks (spec_add_all ?pic bs) b1" using add_all_ok [OF assms(8,9)] by blast
  obtain u where u: "add_frames ?os ''frame0.txt'' ''frame1.txt'' (t, q) b = Some (u, b1, None)" "with_clock dev (int f) q u"
    using frames_kernel [OF t(6) _ _ used b1(1), of "''frame0.txt''" "''frame1.txt''" run regs] assms(4,5) t(4) text_file_locals [OF t(3)] by auto
  have ck: "user_ok u" "ticks_to_come dev (clock_view u) (int f) = Some (400 + k)" using u(2) k by (auto simp: with_clock_def)
  obtain v r0 where v: "ece391_write ?os (int f) ret_val 4 (upd_mem ?os (\<lambda>m. st32 m ret_val 32) u) = Some (v, r0)" "user_ok v" "ticks_to_come dev (clock_view v) (int f) = Some (400 + k)"
    using kclock.rate_set [OF ck, of run regs] by auto
  obtain x y b' where w: "fish_acts ?os (int f) (v, b1) = Some ((x, y), b')" "user_ok (x, y)" "represents_blinks (fish_story (spec_add_all ?pic bs)) b'"
    using kclock.fish_acts_story [OF v(2,3) b1(2), of run regs] by auto
  have "user_ok (sti x, y)" using w(2) by (simp add: sti_user)
  from close_kernel [OF this, of "int f"] obtain x' r where "sys_close (int f) (sti x) = Some (x', r)" "user_ok (x', y)" by auto
  then show ?thesis using t(1) u(1) v(1) w(1,3) unfolding fish_show_def by (simp add: kernel_calls)
qed

text \<open>A disk with the clock and two frames, which share an inode with the four bytes of a data block.\<close>

definition fish_image :: mem where
  "fish_image = put_bytes (put_bytes (put_bytes (user_image((Global, 0x400000) := 3, (Global, 0x400060) := 0, (Global, 0x400064) := 9, (Global, 0x4000A0) := 2, (Global, 0x4000A4) := 1,
       (Global, 0x4000E0) := 2, (Global, 0x4000E4) := 1, (Global, 0x402000) := 4, (Global, 0x402001) := 0))
     (Global, 0x400040) (cbytes ''rtc'' @ [0])) (Global, 0x400080) (cbytes ''frame0.txt'' @ [0])) (Global, 0x4000C0) (cbytes ''frame1.txt'' @ [0])"

lemma fish_words:
  "ld32 fish_image (Global, 0x400000) = 3" "ld32 fish_image (Global, 0x400004) = 2" "ld32 fish_image (Global, 0x400008) = 3"
  "ld32 fish_image (Global, 0x400060) = 0" "ld32 fish_image (Global, 0x400064) = 9" "ld32 fish_image (Global, 0x4000A0) = 2" "ld32 fish_image (Global, 0x4000A4) = 1"
  "ld32 fish_image (Global, 0x4000E0) = 2" "ld32 fish_image (Global, 0x4000E4) = 1" "ld32 fish_image (Global, 0x402000) = 4" "ld32 fish_image (Global, 0x402004) = 2"
  by (simp_all add: ld32_def fish_image_def user_image_def demo_image_def padd_def cbytes_def put_bytes_def fill_region_def in_region_def)

lemma cstr_put_other:
  assumes "cstr m p xs" and "separate p (Suc (length xs)) r (length bs)"
  shows "cstr (put_bytes m r bs) p xs"
proof (rule cstr_cong [OF assms(1)])
  fix k assume "k \<le> length xs"
  moreover have "length xs < 2 ^ 32" using assms(1) by (simp add: cstr_def)
  ultimately have "in_region p (Suc (length xs)) (padd p (of_nat k))" by (simp add: in_region_padd unat_of_nat)
  then show "put_bytes m r bs (padd p (of_nat k)) = m (padd p (of_nat k))" using separate_not_both [OF assms(2)] by (intro put_bytes_other) blast
qed

lemma fish_names:
  "entry_name fish_image 0x400000 0 = cbytes ''rtc''" "entry_name fish_image 0x400000 (Suc 0) = cbytes ''frame0.txt''" "entry_name fish_image 0x400000 2 = cbytes ''frame1.txt''"
proof -
  have nm: "entry_name fish_image 0x400000 i = nm" if "cstr fish_image (dentry_at 0x400000 (of_nat i)) nm" "length nm < 31" for i nm
    using that by (simp add: entry_name_def cstr_upto_nul)
  have z: "0 \<notin> set (cbytes ''rtc'')" "0 \<notin> set (cbytes ''frame0.txt'')" "0 \<notin> set (cbytes ''frame1.txt'')" by (simp_all add: cbytes_def)
  have l: "length (cbytes ''rtc'') = 3" "length (cbytes ''frame0.txt'') = 10" "length (cbytes ''frame1.txt'') = 10" by (simp_all add: cbytes_def)
  have "cstr fish_image (Global, 0x4000C0) (cbytes ''frame1.txt'')" unfolding fish_image_def by (rule cstr_put_bytes [OF z(3)]) (simp add: l)
  moreover have "cstr fish_image (Global, 0x400080) (cbytes ''frame0.txt'')"
    unfolding fish_image_def by (rule cstr_put_other [OF cstr_put_bytes [OF z(2)]]) (simp_all add: l separate_def)
  moreover have "cstr fish_image (Global, 0x400040) (cbytes ''rtc'')"
    unfolding fish_image_def by (rule cstr_put_other [OF cstr_put_other [OF cstr_put_bytes [OF z(1)]]]) (simp_all add: l separate_def)
  ultimately show "entry_name fish_image 0x400000 0 = cbytes ''rtc''" "entry_name fish_image 0x400000 (Suc 0) = cbytes ''frame0.txt''" "entry_name fish_image 0x400000 2 = cbytes ''frame1.txt''"
    using nm [of 0] nm [of "Suc 0"] nm [of 2] l by (simp_all add: dentry_at_def)
qed

lemma fish_entries:
  "dir_lookup fish_image 0x400000 (cbytes ''rtc'') = Some 0" "dir_lookup fish_image 0x400000 (cbytes ''frame0.txt'') = Some 1" "dir_lookup fish_image 0x400000 (cbytes ''frame1.txt'') = Some 2"
  "filetype fish_image (dentry_at 0x400000 0) = 0" "filetype fish_image (dentry_at 0x400000 1) = 2" "filetype fish_image (dentry_at 0x400000 2) = 2"
  "idx_inode fish_image (dentry_at 0x400000 0) = 9" "idx_inode fish_image (dentry_at 0x400000 1) = 1" "idx_inode fish_image (dentry_at 0x400000 2) = 1"
proof -
  have "[0..<4] = [0, Suc 0, 2, 3 :: nat]" by (simp add: upt_rec)
  then have "dir_lookup fish_image 0x400000 x = find (\<lambda>k. entry_name fish_image 0x400000 k = take 31 x) [0, Suc 0, 2, 3]" for x unfolding dir_lookup_def fish_words by simp
  then show "dir_lookup fish_image 0x400000 (cbytes ''rtc'') = Some 0" "dir_lookup fish_image 0x400000 (cbytes ''frame0.txt'') = Some 1" "dir_lookup fish_image 0x400000 (cbytes ''frame1.txt'') = Some 2"
    by (simp_all add: fish_names cbytes_def)
qed (simp_all add: filetype_def idx_inode_def dentry_at_def padd_def fish_words)

lemma fish_files: "text_file fish_image 0x400000 ''frame0.txt'' [0x7F, 0x45, 0x4C, 0x46]" "text_file fish_image 0x400000 ''frame1.txt'' [0x7F, 0x45, 0x4C, 0x46]"
proof -
  have l: "file_length fish_image 0x400000 1 = 4" by (simp add: file_length_def inode_length_def inode_addr_def fish_words)
  have "dblocks fish_image (inode_addr 0x400000 1) 0 < num_data fish_image 0x400000" by (simp add: dblocks_def inode_addr_def fish_words)
  then have w: "inode_wf fish_image 0x400000 1" by (simp add: inode_wf_def l fish_words)
  have "file_contents fish_image 0x400000 1 = [0x7F, 0x45, 0x4C, 0x46]"
    by (simp add: file_contents_def l upt_conv_Cons file_byte_def data_addr_def dblocks_def inode_addr_def fish_words)
      (simp add: fish_image_def user_image_def demo_image_def put_bytes_def fill_region_def in_region_def cbytes_def)
  moreover have "regular_inode fish_image 0x400000 1" unfolding regular_inode_def using w fish_entries fish_words(1) by (intro conjI exI [of _ 1]) (simp_all add: less_Suc_eq)
  ultimately show "text_file fish_image 0x400000 ''frame0.txt'' [0x7F, 0x45, 0x4C, 0x46]" "text_file fish_image 0x400000 ''frame1.txt'' [0x7F, 0x45, 0x4C, 0x46]"
    using fish_entries by (simp_all add: text_file_def Let_def) (simp_all add: cbytes_def)
qed

theorem fish_animates_witness:
  "\<exists>w b'. fish_show demo_os (idt_demo\<lparr>mem := fish_image\<rparr>, replicate 400 (clock_tick (\<lambda>_ _. 0)) @ []) blink_boot = Some (w, b', 0) \<and> user_ok w
    \<and> represents_blinks (fish_story (spec_add_all [frame_blink 0 0 0x7F 0x7F, frame_blink 0 1 0x45 0x45, frame_blink 0 2 0x4C 0x4C, frame_blink 0 3 0x46 0x46] ([], \<lambda>_. 0))) b'"
proof -
  let ?s = "idt_demo\<lparr>mem := fish_image\<rparr>" and ?q = "replicate 400 (clock_tick (\<lambda>_ _. 0)) @ []" and ?xs = "[0x7F, 0x45, 0x4C, 0x46] :: u8 list"
  have b: "represents_blinks ([], \<lambda>_. 0) blink_boot" using blink_boot_ok by (auto simp: represents_blinks_def blinks_of_def blink_boot_def)
  have p: "frame_picture 0 (split_rows ?xs) (split_rows ?xs) = [frame_blink 0 0 0x7F 0x7F, frame_blink 0 1 0x45 0x45, frame_blink 0 2 0x4C 0x4C, frame_blink 0 3 0x46 0x46]" by (simp add: frame_cell_blink)
  have l: "\<forall>c \<in> set (frame_picture 0 (split_rows ?xs) (split_rows ?xs)). location c \<noteq> 0" unfolding p by (simp add: frame_blink_def)
  have "ld32 fish_image (Global, 0x400000) \<le> 62" by (simp add: fish_words)
  note d = demo_world [OF this fish_words(2,3)]
  have ok: "user_ok (?s, ?q)" using d(1) by (simp only: user_ok_def fst_conv)
  have lk: "dir_lookup (mem ?s) (bootblock_ptr ?s) (cbytes ''rtc'') = Some 0" "filetype (mem ?s) (dentry_at (bootblock_ptr ?s) (of_nat 0)) = 0" using fish_entries d(2) by simp_all
  have f: "text_file (mem ?s) (bootblock_ptr ?s) ''frame0.txt'' ?xs" "text_file (mem ?s) (bootblock_ptr ?s) ''frame1.txt'' ?xs" using fish_files d(2) by simp_all
  have "{i \<in> {2..<8}. flags (fileArray demo_pcb ! i) \<noteq> 0} = {}" by (auto simp: demo_pcb_def closed_fd_def nth_append)
  then have "fds.used (cur_files ?s) \<le> 3" unfolding d(3) fds.used_def by (simp only: card.empty zero_le)
  from fish_animates [OF ok lk f this refl b l, of "\<lambda>_ _. None" "(0, 0, 0)"] show ?thesis unfolding p .
qed

end
