(* ===== verification/Shell.thy ===== *)
theory Shell
  imports User_Programs
begin

text \<open>
  The shell (\<open>syscalls/ece391shell.c\<close>) as its user sees it: a session with it, from the contract of a system on
  which lines are typed and commands are run.
\<close>

section \<open>A session\<close>

text \<open>What the shell prints about the value a command returned, and what a line typed at its prompt leaves on the terminal: \<open>res\<close>
  is what the command prints itself and the value it returns.\<close>

definition report_text :: "int \<Rightarrow> u8 list" where
  "report_text r =
     (if r = -1 then cbytes (''no such command'' @ [CHR 0x0A])
      else if r = 256 then cbytes (''program terminated by exception'' @ [CHR 0x0A])
      else if r \<noteq> 0 then digit_bytes (to_digits 10 (unat (word_of_int r :: u32))) @ cbytes (''program terminated abnormally'' @ [CHR 0x0A])
      else [])"

definition dialogue :: "(u8 list \<Rightarrow> u8 list \<times> int) \<Rightarrow> u8 list \<Rightarrow> u8 list" where
  "dialogue res l = cbytes ''391OS> '' @ l @ [0x0A] @ (if l = [] then [] else fst (res l) @ report_text (snd (res l)))"

section \<open>The contract\<close>

text \<open>
  \<open>ahead ls cs\<close>: the lines \<open>ls\<close> will be typed next, and the commands \<open>cs\<close> are those that the system can be asked to run.
\<close>

locale shell_os = terminal_os os inv view display emit
  for os :: "'s os" and inv :: "'s \<Rightarrow> bool" and view :: "'s \<Rightarrow> 'v" and display :: "'s \<Rightarrow> 'd" and emit :: "u8 \<Rightarrow> 'd \<Rightarrow> 'd" +
  fixes ahead :: "u8 list list \<Rightarrow> u8 list list \<Rightarrow> 'v \<Rightarrow> bool" and res :: "u8 list \<Rightarrow> u8 list \<times> int"
  assumes read_line: "inv s \<Longrightarrow> ahead (l # ls) cs (view s) \<Longrightarrow>
      \<exists>s'. ece391_read os 0 ubuf 1023 s = Some (s', int (length l) + 1) \<and> inv s' \<and> ahead ls cs (view s')
        \<and> umem os s' = put_bytes (umem os s) ubuf (l @ [0x0A]) \<and> display s' = fold emit (l @ [0x0A]) (display s)"
    and run_command: "inv s \<Longrightarrow> ahead ls (c # cs) (view s) \<Longrightarrow> cstr (umem os s) ubuf c \<Longrightarrow> c \<noteq> [] \<Longrightarrow>
      \<exists>s'. ece391_execute os ubuf s = Some (s', snd (res c)) \<and> inv s' \<and> ahead ls cs (view s') \<and> display s' = fold emit (fst (res c)) (display s)"
begin

lemma report_shows:
  assumes "inv s"
  shows "\<exists>s'. shell_report os r s = Some s' \<and> prints (report_text r) s s'"
proof (cases "r = -1 \<or> r = 256 \<or> r = 0")
  case True
  have "0 \<notin> set (cbytes (''no such command'' @ [CHR 0x0A]))" "0 \<notin> set (cbytes (''program terminated by exception'' @ [CHR 0x0A]))" by (simp_all add: cbytes_def)
  then show ?thesis
    using True say_shows [OF assms, of "''no such command'' @ [CHR 0x0A]"] say_shows [OF assms, of "''program terminated by exception'' @ [CHR 0x0A]"] prints_refl [OF assms]
    by (auto simp: shell_report_def report_text_def)
next
  case False
  let ?v = "word_of_int r :: u32"
  let ?d = "digit_bytes (to_digits 10 (unat ?v))"
  let ?m = "put_bytes (umem os s) bufme (?d @ [0])"
  have m: "ece391_itoa (umem os s) ?v bufme 10 = Some ?m" using itoa_digits [of 10 "umem os s" ?v bufme] by (simp add: ece391_itoa_eq)
  have b: "\<forall>d \<in> set (to_digits 10 (unat ?v)). d < 10" "length (to_digits 10 (unat ?v)) \<le> 10"
    using to_digits_bounds [of 10 "unat ?v" 10] unsigned_less [of ?v, where ?'a = nat] by simp_all
  have d: "0 \<notin> set ?d" "length ?d < 2 ^ 31" using digit_bytes_nonzero [of "to_digits 10 (unat ?v)"] b by (force simp: digit_bytes_def)+
  have "only_locals {30, 31, 32, 33} (umem os s) ?m" using only_locals_mono [OF only_locals_put [of bufme 32 "umem os s"]] by simp
  note st = store_shows [OF assms this]
  have "inv (set_umem os ?m s)" "cstr (umem os (set_umem os ?m s)) bufme ?d" using st d cstr_put_bytes by (simp_all add: prints_def)
  from fdputs_shows [OF this(1) _ this(2) d(2)] obtain u where u: "ece391_fdputs os 1 bufme (set_umem os ?m s) = Some u" "prints ?d (set_umem os ?m s) u" by auto
  have "inv u" using u(2) by (simp add: prints_def)
  moreover have "0 \<notin> set (cbytes (''program terminated abnormally'' @ [CHR 0x0A]))" by (simp add: cbytes_def)
  ultimately obtain s' where s': "say os (''program terminated abnormally'' @ [CHR 0x0A]) u = Some s'" "prints (cbytes (''program terminated abnormally'' @ [CHR 0x0A])) u s'"
    using say_shows [of u "''program terminated abnormally'' @ [CHR 0x0A]"] by auto
  then show ?thesis
    using False m u(1) prints_trans [OF prints_trans [OF conjunct1 [OF st] u(2)] s'(2)] by (simp add: shell_report_def report_text_def)
qed

text \<open>One turn of the loop: the prompt, the line, and the comparison with \<open>exit\<close>.\<close>

lemma shell_turn:
  assumes "inv s" and "ahead (l # ls) cs (view s)" and "0 \<notin> set l" and "length l < 1023"
  shows "\<exists>t. shell_loop os s = (if l = cbytes ''exit'' then Some (t, 0) else if l = [] then shell_loop os t
        else do { (s, rval) \<leftarrow> ece391_execute os ubuf t; s \<leftarrow> shell_report os rval s; shell_loop os s })
    \<and> inv t \<and> ahead ls cs (view t) \<and> cstr (umem os t) ubuf l \<and> display t = fold emit (cbytes ''391OS> '' @ l @ [0x0A]) (display s)"
proof -
  have z: "0 \<notin> set (cbytes ''391OS> '')" "0 \<notin> set (cbytes ''exit'')" by (simp_all add: cbytes_def)
  obtain s1 where s1: "say os ''391OS> '' s = Some s1" "prints (cbytes ''391OS> '') s s1" using say_shows [OF assms(1) z(1)] by auto
  have i1: "inv s1" "view s1 = view s" using s1(2) by (simp_all add: prints_def)
  then obtain s2 where s2: "ece391_read os 0 ubuf 1023 s1 = Some (s2, int (length l) + 1)" "inv s2" "ahead ls cs (view s2)"
    "umem os s2 = put_bytes (umem os s1) ubuf (l @ [0x0A])" "display s2 = fold emit (l @ [0x0A]) (display s1)"
    using read_line [of s1 l ls cs] assms(2) by auto
  let ?e = "padd ubuf (of_nat (length l))"
  define m where "m = (umem os s2)(?e := 0)"
  have "length l < 2 ^ 32" using assms(4) by simp
  note sn = put_bytes_snoc [OF this, of "umem os s1" ubuf]
  have nl: "umem os s2 ?e = 0x0A" by (simp add: s2(4) flip: sn)
  have mm: "m = put_bytes (umem os s1) ubuf (l @ [0])" unfolding m_def s2(4) by (simp flip: sn)
  have "only_locals {31} (umem os s2) m" unfolding m_def by (rule only_locals_upd) simp
  then have "only_locals {30, 31, 32, 33} (umem os s2) m" by (rule only_locals_mono) simp
  note p3 = store_shows [OF s2(2) this]
  define s3 where "s3 = set_umem os m s2"
  have i3: "inv s3" using p3 by (simp add: prints_def s3_def)
  note p4 = literal_shows [OF i3, of "''exit''"]
  define t where "t = literal os ''exit'' s3"
  have pt: "prints [] s2 t" using prints_trans [of "[]" s2 s3 "[]" t] p3 p4 by (simp add: s3_def t_def)
  have mt: "umem os t = put_bytes m lit (cbytes ''exit'' @ [0])" using p3 p4 by (simp add: t_def s3_def)
  have "cstr m ubuf l" unfolding mm by (rule cstr_put_bytes) (use assms(3,4) in simp_all)
  then have cb: "cstr (umem os t) ubuf l" unfolding mt using only_locals_views(3) [OF only_locals_put [of lit 30 m], of ubuf] by simp
  have "cstr (umem os t) lit (cbytes ''exit'')" unfolding mt by (rule cstr_put_bytes) (simp_all add: cbytes_def)
  from ece391_strcmp_cstr [OF cb this] obtain r where r: "ece391_strcmp (umem os t) ubuf lit = Some r" "r = 0 \<longleftrightarrow> l = cbytes ''exit''" by auto
  have first: "umem os t ubuf = 0 \<longleftrightarrow> l = []" using cb cstr_Nil [of "umem os t" ubuf] cstr_nth(2) [OF cb, of 0] cstr_nth(1) [OF cb, of 0] by (cases l) auto
  have "shell_loop os s = (if r = 0 then Some (t, 0) else if umem os t ubuf = 0 then shell_loop os t
        else do { (s, rval) \<leftarrow> ece391_execute os ubuf t; s \<leftarrow> shell_report os rval s; shell_loop os s })"
    by (subst shell_loop.simps) (use s1(1) s2(1) nl r(1) in \<open>simp add: upd_mem_def Let_def flip: m_def s3_def t_def\<close>)
  then have "shell_loop os s = (if l = cbytes ''exit'' then Some (t, 0) else if l = [] then shell_loop os t
        else do { (s, rval) \<leftarrow> ece391_execute os ubuf t; s \<leftarrow> shell_report os rval s; shell_loop os s })"
    unfolding r(2) first .
  moreover have "display t = fold emit (cbytes ''391OS> '' @ l @ [0x0A]) (display s)" using s1(2) pt s2(5) by (simp add: prints_def)
  ultimately show ?thesis using pt s2(3) cb by (intro exI [of _ t]) (auto simp: prints_def)
qed

text \<open>Lines up to \<open>exit\<close>: the shell answers each in turn and returns 0.\<close>

lemma shell_session:
  assumes "inv s" and "ahead (ls @ [cbytes ''exit'']) (filter (\<lambda>l. l \<noteq> []) ls) (view s)" and "\<forall>l \<in> set ls. l \<noteq> cbytes ''exit'' \<and> 0 \<notin> set l \<and> length l < 1023"
  shows "\<exists>s'. shell_loop os s = Some (s', 0) \<and> inv s' \<and> ahead [] [] (view s')
    \<and> display s' = fold emit (concat (map (dialogue res) ls) @ cbytes (''391OS> exit'' @ [CHR 0x0A])) (display s)"
  using assms
proof (induction ls arbitrary: s)
  case Nil
  have "0 \<notin> set (cbytes ''exit'')" "length (cbytes ''exit'') < 1023" by (simp_all add: cbytes_def)
  then obtain t where "shell_loop os s = Some (t, 0)" "inv t" "ahead [] [] (view t)" "display t = fold emit (cbytes ''391OS> '' @ cbytes ''exit'' @ [0x0A]) (display s)"
    using shell_turn [of s "cbytes ''exit''" "[]" "[]"] Nil by auto
  moreover have "cbytes ''391OS> '' @ cbytes ''exit'' @ [0x0A] = cbytes (''391OS> exit'' @ [CHR 0x0A])" by (simp add: cbytes_def)
  ultimately show ?case by simp
next
  case (Cons l ls)
  let ?cs = "filter (\<lambda>l. l \<noteq> []) ls" and ?ls = "ls @ [cbytes ''exit'']"
  have l: "0 \<notin> set l" "length l < 1023" "l \<noteq> cbytes ''exit''" using Cons.prems(3) by simp_all
  have a: "ahead (l # ?ls) (if l = [] then ?cs else l # ?cs) (view s)" using Cons.prems(2) by (cases "l = []") simp_all
  obtain t where t: "shell_loop os s = (if l = [] then shell_loop os t else do { (s, rval) \<leftarrow> ece391_execute os ubuf t; s \<leftarrow> shell_report os rval s; shell_loop os s })"
    "inv t" "ahead ?ls (if l = [] then ?cs else l # ?cs) (view t)" "cstr (umem os t) ubuf l" "display t = fold emit (cbytes ''391OS> '' @ l @ [0x0A]) (display s)"
    using shell_turn [OF Cons.prems(1) a l(1,2)] l(3) by auto
  have "\<exists>u. shell_loop os s = shell_loop os u \<and> inv u \<and> ahead ?ls ?cs (view u) \<and> display u = fold emit (dialogue res l) (display s)"
  proof (cases "l = []")
    case True
    then show ?thesis using t by (intro exI [of _ t]) (simp add: dialogue_def)
  next
    case False
    obtain u where u: "ece391_execute os ubuf t = Some (u, snd (res l))" "inv u" "ahead ?ls ?cs (view u)" "display u = fold emit (fst (res l)) (display t)"
      using run_command [OF t(2) _ t(4) False] t(3) False by auto
    obtain v where v: "shell_report os (snd (res l)) u = Some v" "prints (report_text (snd (res l))) u v" using report_shows [OF u(2)] by blast
    show ?thesis using False t(1,5) u v by (intro exI [of _ v]) (simp add: dialogue_def prints_def)
  qed
  then obtain u where u: "shell_loop os s = shell_loop os u" "inv u" "ahead ?ls ?cs (view u)" "display u = fold emit (dialogue res l) (display s)" by blast
  from Cons.IH [OF u(2,3)] Cons.prems(3) show ?case by (auto simp: u(1,4))
qed

end

end
