(* ===== verification/Shell_Kernel.thy ===== *)
theory Shell_Kernel
  imports User_Kernel Multitasking Shell
begin

text \<open>
  The shell on the kernel: what is typed goes through the keyboard driver to the shell, the command to \<open>execute\<close>, which turns it down
  or starts a program; the program runs in its own process, \<open>halt\<close> returns to the shell, and what both print is on the screen.
\<close>

section \<open>Running a command\<close>

text \<open>
  A user program's variables are blocks of their own in the model, but the process has them in its page, so that a page switch exchanges them. The first 4 KB of
  each block are kept at a fixed place of the page: \<open>store_vars\<close> is memory with the page as the blocks say, \<open>show_vars\<close> with the blocks as the mapped page says.
\<close>

abbreviation VARS :: u32 where "VARS \<equiv> 0x083F8000"

definition store_vars :: "mem \<Rightarrow> mem" where
  "store_vars m r = (let d = snd r - VARS in
     if fst r = Global \<and> d < 0x4000 then m (Local (30 + unat (drop_bit 12 d)), take_bit 12 d) else m r)"

definition show_vars :: "mem \<Rightarrow> mem" where
  "show_vars m r = (case r of
     (Local j, off) \<Rightarrow> if 30 \<le> j \<and> j \<le> 33 \<and> off < 0x1000 then m (Global, VARS + (push_bit 12 (of_nat (j - 30)) + off)) else m r
   | _ \<Rightarrow> m r)"

text \<open>
  Entering the kernel with \<open>int 0x80\<close>: the processor takes the stack that the task segment names and pushes five words, \<open>system_calls_linkage\<close> pushes
  34 bytes of registers and enables interrupts, the call pushes its return address and the called function the old frame pointer, 62 bytes in all. Below
  are the local variables of the called function, \<open>fr\<close> bytes, which is the compiler's choice.
\<close>

definition syscall_entry :: "12 word \<Rightarrow> 'a proc_state_scheme \<Rightarrow> 'a proc_state_scheme" where
  "syscall_entry fr s = (sti s)\<lparr>esp := tss_esp0 s - 62 - ucast fr, ebp := tss_esp0 s - 62\<rparr>"

text \<open>A program from its entry point on: \<open>code\<close> is what it does up to the return of \<open>main\<close>, whose value \<open>_start\<close> passes to \<open>halt\<close>.\<close>

definition run_start :: "(u32 \<Rightarrow> 'a world \<Rightarrow> ('a world \<times> int) option) \<Rightarrow> u32 \<Rightarrow> 'a world \<Rightarrow> ('a world \<times> control) option" where
  "run_start code ip w = do {
     ((s, q), eax) \<leftarrow> code ip w;
     (s, c) \<leftarrow> halt (word_of_int eax) (sti s);
     Some ((s, q), c) }"

text \<open>
  The system call \<open>execute\<close> up to its return. A program that is started sees the variables of its own page and makes its system calls on the stack that the task
  segment now names. The \<open>leave; ret\<close> at the end of its \<open>halt\<close> takes the frame pointer from the frame it is given and pops the return address of the
  parent's call; the parent sees the variables of the page that \<open>halt\<close> has mapped.
\<close>

definition kernel_execute :: "12 word \<Rightarrow> (u32 \<Rightarrow> 'a world \<Rightarrow> ('a world \<times> int) option) \<Rightarrow> ptr \<Rightarrow> 'a world \<Rightarrow> ('a world \<times> int) option" where
  "kernel_execute fr code command w = do {
     let (s, q) = w;
     (t, c) \<leftarrow> execute command (syscall_entry fr (s\<lparr>mem := store_vars (mem s)\<rparr>));
     (case c of
        Returns r \<Rightarrow> Some ((t, q), r)
      | Iret ss usp fl cs ip \<Rightarrow> do {
          ((v, q), c) \<leftarrow> run_start code ip (syscall_entry fr (t\<lparr>mem := show_vars (mem t)\<rparr>), q);
          (case c of Leave_Ret e b eax \<Rightarrow> Some ((v\<lparr>esp := b + 8, ebp := ld32 (mem v) (Global, b), mem := show_vars (mem v)\<rparr>, q), sint eax)
           | _ \<Rightarrow> None) }
      | Leave_Ret e b eax \<Rightarrow> None) }"

section \<open>What a session needs\<close>

text \<open>A program that does nothing but print: what it prints and the status it returns, wherever it is loaded.\<close>

definition only_prints :: "(u32 \<Rightarrow> 'a world \<Rightarrow> ('a world \<times> int) option) \<Rightarrow> u8 list \<Rightarrow> u8 list \<times> int \<Rightarrow> bool" where
  "only_prints code f r \<longleftrightarrow> 0 \<le> snd r \<and> snd r < 256 \<and>
     (\<forall>s q. user_ok (s, q) \<and> at_prompt s \<and> enterStatus s = 0 \<and> bytes_at (mem s) (Global, CP_VADDR) (length f) = f \<longrightarrow>
       (\<exists>s'. code (ld32 (mem s) (Global, CP_VADDR + 24)) (s, q) = Some ((s', q), snd r) \<and> user_ok (s', q) \<and> at_prompt s' \<and> enterStatus s' = 0
         \<and> only_locals {30, 31, 32, 33} (mem s) (mem s') \<and> kbd_state.more s' = kbd_state.more s
         \<and> user_display (s', q) = fold tty_emit (fst r) (user_display (s, q))))"

text \<open>The commands the kernel can answer one after the other: those it turns down, and programs, of which no more than there are free process numbers.\<close>

definition can_run :: "(u32 \<Rightarrow> 'a world \<Rightarrow> ('a world \<times> int) option) \<Rightarrow> (u8 list \<Rightarrow> u8 list \<times> int) \<Rightarrow> u8 list list \<Rightarrow> 'a idt_state_scheme \<Rightarrow> bool" where
  "can_run code res cs s \<longleftrightarrow> (let m = mem s; bb = bootblock_ptr s in
     (\<forall>c \<in> set cs. length c < 1024 \<and> length (prog_arg c) < 128 \<and>
        (if rejected s c then res c = ([], -1)
         else \<exists>i. program_at m bb (prog_name c) i \<and> only_prints code (file_contents m bb i) (res c)))
     \<and> length (filter (\<lambda>c. \<not> rejected s c) cs) \<le> length (filter (\<lambda>b. b = 0) (pid_bitpattern s)))"

text \<open>The interrupts that are still to come type the lines, and then those of \<open>rest\<close> follow.\<close>

definition typed_lines :: "('a kbd_state_scheme \<Rightarrow> 'a kbd_state_scheme option) list \<Rightarrow> u8 list list \<Rightarrow> ('a kbd_state_scheme \<Rightarrow> 'a kbd_state_scheme option) list \<Rightarrow> bool" where
  "typed_lines q ls rest \<longleftrightarrow> (\<exists>scss. q = concat (map (\<lambda>scs. map (\<lambda>sc. keyboard_handler (\<lambda>_ _. sc)) (scs @ [ENTER])) scss) @ rest
     \<and> ls = map (map (\<lambda>sc. keyboardUS ! unat sc)) scss \<and> (\<forall>scs \<in> set scss. length scs < 128 \<and> (\<forall>sc \<in> set scs. plain_key sc \<and> sc \<noteq> ENTER)))"

definition shell_ready :: "'a world \<Rightarrow> bool" where
  "shell_ready w \<longleftrightarrow> (let s = fst w in user_ok w \<and> at_prompt s \<and> enterStatus s = 0
     \<and> flags (cur_files s ! 0) = IN_USE \<and> fd_jumptable (cur_files s ! 0) = Some keyboard_jumptable
     \<and> (\<exists>a. represents a s) \<and> exception_halt s \<noteq> 1)"

definition shell_view :: "(u32 \<Rightarrow> 'a world \<Rightarrow> ('a world \<times> int) option) \<Rightarrow> (u8 list \<Rightarrow> u8 list \<times> int) \<Rightarrow> 'a world
    \<Rightarrow> ('a idt_state_scheme \<Rightarrow> 'a idt_state_scheme option) list \<times> (u8 list list \<Rightarrow> bool)" where
  "shell_view code res w = (snd w, \<lambda>cs. can_run code res cs (fst w))"

definition session_ahead :: "('a idt_state_scheme \<Rightarrow> 'a idt_state_scheme option) list \<Rightarrow> u8 list list \<Rightarrow> u8 list list
    \<Rightarrow> ('a idt_state_scheme \<Rightarrow> 'a idt_state_scheme option) list \<times> (u8 list list \<Rightarrow> bool) \<Rightarrow> bool" where
  "session_ahead rest ls cs v \<longleftrightarrow> typed_lines (fst v) ls rest \<and> snd v cs"

section \<open>Lemmas: what stays\<close>

lemma represents_more:
  assumes "represents a s" and "kbd_state.more s' = kbd_state.more s" and "same_fs (mem s) (bootblock_ptr s) (mem s')" and "unat (active_terminal s') < 3"
  shows "represents a s'"
proof -
  note d = representsD [OF assms(1)] and f = proc_same_more [OF assms(2)] fs_fields_more [OF assms(2)]
  have "kernel_ok s'" using d(2) assms(3,4) f by (intro kernel_ok_frame [OF d(2)]) (simp_all add: kernel_ok_def proc_tables_def)
  then show ?thesis using assms(1) f by (simp add: represents_def)
qed

lemma rejected_imp:
  assumes "rejected s c" and "fs_wf (mem s) (bootblock_ptr s)" and "same_fs (mem s) (bootblock_ptr s) (mem s')" and "bootblock_ptr s' = bootblock_ptr s" and "total_tasks s' = total_tasks s"
  shows "rejected s' c"
proof -
  let ?bb = "bootblock_ptr s"
  have l: "dir_lookup (mem s') ?bb (prog_name c) = dir_lookup (mem s) ?bb (prog_name c)" by (rule same_fs_lookup [OF assms(2,3)])
  show ?thesis
  proof (cases "dir_lookup (mem s) ?bb (prog_name c)")
    case None
    then show ?thesis using l by (simp add: rejected_def Let_def assms(4))
  next
    case (Some k)
    have k: "k \<le> 62" by (rule dir_lookup_le [OF assms(2) Some])
    note d = same_fs_dentry(2,3) [OF assms(2,3) k]
    show ?thesis
    proof (cases "filetype (mem s) (dentry_at ?bb (of_nat k)) = 2")
      case False
      then show ?thesis using l d Some by (simp add: rejected_def Let_def assms(4))
    next
      case True
      then have "inode_wf (mem s) ?bb (idx_inode (mem s) (dentry_at ?bb (of_nat k)))" using assms(1) Some by (simp add: rejected_def Let_def)
      note c = same_fs_contents [OF assms(2,3) this]
      show ?thesis using assms(1) l d c Some True by (simp add: rejected_def Let_def assms(4,5))
    qed
  qed
qed

lemma same_fs_sym: "fs_wf m bb \<Longrightarrow> same_fs m bb m' \<Longrightarrow> same_fs m' bb m"
  using same_fs_wf(2) [of m bb m'] by (simp add: same_fs_def)

lemma rejected_same:
  assumes "fs_wf (mem s) (bootblock_ptr s)" and "same_fs (mem s) (bootblock_ptr s) (mem s')" and "bootblock_ptr s' = bootblock_ptr s" and "total_tasks s' = total_tasks s"
  shows "rejected s' c = rejected s c"
proof
  have b: "fs_wf (mem s') (bootblock_ptr s')" "same_fs (mem s') (bootblock_ptr s') (mem s)" unfolding assms(3) by (rule same_fs_wf(1) [OF assms(1,2)], rule same_fs_sym [OF assms(1,2)])
  show "rejected s c" if "rejected s' c" by (rule rejected_imp [OF that b assms(3,4) [symmetric]])
  show "rejected s' c" if "rejected s c" by (rule rejected_imp [OF that assms])
qed

lemma can_run_frame:
  assumes "fs_wf (mem s) (bootblock_ptr s)" and "same_fs (mem s) (bootblock_ptr s) (mem s')" and "bootblock_ptr s' = bootblock_ptr s" and "total_tasks s' = total_tasks s"
    and "can_run code res cs s" and "length (filter (\<lambda>c. \<not> rejected s c) cs) \<le> length (filter (\<lambda>b. b = 0) (pid_bitpattern s'))"
  shows "can_run code res cs s'"
proof -
  have r: "rejected s' c = rejected s c" for c by (rule rejected_same [OF assms(1-4)])
  have p: "\<exists>i. program_at (mem s') (bootblock_ptr s) (prog_name c) i \<and> only_prints code (file_contents (mem s') (bootblock_ptr s) i) (res c)"
    if "\<exists>i. program_at (mem s) (bootblock_ptr s) (prog_name c) i \<and> only_prints code (file_contents (mem s) (bootblock_ptr s) i) (res c)" for c
    using that program_at_same(1,2) [OF assms(1,2), of "prog_name c"] by metis
  show ?thesis unfolding can_run_def Let_def r assms(3)
  proof (intro conjI ballI)
    fix c assume "c \<in> set cs"
    then have c: "length c < 1024" "length (prog_arg c) < 128" "if rejected s c then res c = ([], -1)
        else \<exists>i. program_at (mem s) (bootblock_ptr s) (prog_name c) i \<and> only_prints code (file_contents (mem s) (bootblock_ptr s) i) (res c)"
      using assms(5) by (simp_all add: can_run_def Let_def)
    show "length c < 1024" "length (prog_arg c) < 128" by (rule c)+
    show "if rejected s c then res c = ([], -1)
        else \<exists>i. program_at (mem s') (bootblock_ptr s) (prog_name c) i \<and> only_prints code (file_contents (mem s') (bootblock_ptr s) i) (res c)"
      using c(3) p by (cases "rejected s c") simp_all
  qed (rule assms(6))
qed

lemma can_run_same:
  assumes "fs_wf (mem s) (bootblock_ptr s)" and "same_fs (mem s) (bootblock_ptr s) (mem s')" and "bootblock_ptr s' = bootblock_ptr s" and "total_tasks s' = total_tasks s"
    and "pid_bitpattern s' = pid_bitpattern s"
  shows "can_run code res cs s' = can_run code res cs s"
proof -
  have b: "fs_wf (mem s') (bootblock_ptr s')" "same_fs (mem s') (bootblock_ptr s') (mem s)" unfolding assms(3) by (rule same_fs_wf(1) [OF assms(1,2)], rule same_fs_sym [OF assms(1,2)])
  have "length (filter (\<lambda>c. \<not> rejected u c) cs) \<le> length (filter (\<lambda>b. b = 0) (pid_bitpattern u))" if "can_run code res cs u" for u :: "'a idt_state_scheme"
    using that by (simp add: can_run_def Let_def)
  then show ?thesis using can_run_frame [OF assms(1-4)] can_run_frame [OF b assms(3,4) [symmetric]] assms(5) by metis
qed

text \<open>Printing, reading and stores to the shell's own variables keep what a session needs.\<close>

lemma shell_keeps:
  assumes "shell_ready (s, q)" and "kbd_state.more s' = kbd_state.more s" and "only_locals B (mem s) (mem s')" and "user_ok (s', q')" and "at_prompt s'" and "enterStatus s' = 0"
  shows "shell_ready (s', q')" "can_run code res cs s' = can_run code res cs s"
proof -
  note f = proc_same_more [OF assms(2)] fs_fields_more [OF assms(2)]
  have r: "user_ok (s, q)" "\<exists>a. represents a s" using assms(1) by (simp_all add: shell_ready_def Let_def)
  have sf: "same_fs (mem s) (bootblock_ptr s) (mem s')" by (rule only_locals_same_fs [OF assms(3)])
  have "unat (active_terminal s') < 3" using assms(4) by (intro active_less) (simp add: user_ok_def Let_def)
  then have "\<exists>a. represents a s'" using r(2) represents_more [OF _ assms(2) sf] by blast
  then show "shell_ready (s', q')" using assms(1,4-6) f by (simp add: shell_ready_def Let_def)
  have "fs_wf (mem s) (bootblock_ptr s)" using r(1) by (simp add: user_ok_def Let_def fs_ready_def)
  then show "can_run code res cs s' = can_run code res cs s" by (rule can_run_same [OF _ sf f(16,2,3)])
qed

lemma shell_write:
  assumes "shell_ready (s, q)" and "p \<noteq> NULL" and "0 \<le> n"
  shows "\<exists>s'. sys_write dev 1 p n (sti s) = Some (s', n) \<and> shell_ready (s', q) \<and> (\<forall>cs. can_run code res cs s' = can_run code res cs s) \<and> mem s' = mem s
    \<and> user_display (s', q) = fold tty_emit (filter (\<lambda>c. c \<noteq> 0) (bytes_at (mem s) p (nat n))) (user_display (s, q))"
proof -
  have u: "user_ok (s, q)" "at_prompt s" using assms(1) by (simp_all add: shell_ready_def Let_def)
  have "kbd_ok (sti s)" using u(1) by (simp add: user_ok_def Let_def sti_user)
  from terminal_write_result [OF this assms(3,2), of 1] obtain s' where s': "terminal_write 1 p n (sti s) = Some (s', n)" "kbd_ok s'"
    "pcb_shown s' = fold tty_emit (filter (\<lambda>c. c \<noteq> 0) (bytes_at (mem (sti s)) p (nat n))) (pcb_shown (sti s))" "mem s' = mem s" "enterStatus s' = 0"
    "kbd_state.more s' = kbd_state.more (sti s)" "at_prompt s' = at_prompt (sti s)"
    by (auto simp: at_prompt_def sti_user)
  have m: "kbd_state.more s' = kbd_state.more s" "at_prompt s'" using s'(6,7) u(2) by (simp_all add: sti_def at_prompt_def no_modifiers_def line_def)
  note f = fs_fields_more [OF m(1)]
  have "user_ok (s', q)" using u(1) s'(2,4) f by (simp add: user_ok_def Let_def fs_ready_def)
  note k = shell_keeps [OF assms(1) m(1) _ this m(2) s'(5), of "{}"]
  have "user_display (s', q) = fold tty_emit (filter (\<lambda>c. c \<noteq> 0) (bytes_at (mem s) p (nat n))) (user_display (s, q))"
    using s'(3) sti_user(3) [of s q] by (simp add: user_display_def sti_user)
  then show ?thesis using s'(1,4) k sys_write_terminal [OF u(1) assms(2)] by simp
qed

lemma shell_read:
  assumes "shell_ready (s, q)" and "typed_lines q (l # ls) rest"
  shows "\<exists>s' q'. sys_read q 0 ubuf 1023 (sti s) = Some (s', int (length l) + 1, q') \<and> typed_lines q' ls rest \<and> shell_ready (s', q')
    \<and> (\<forall>cs. can_run code res cs s' = can_run code res cs s) \<and> mem s' = put_bytes (mem s) ubuf (l @ [0x0A])
    \<and> user_display (s', q') = fold tty_emit (l @ [0x0A]) (user_display (s, q))"
proof -
  have u: "user_ok (s, q)" "at_prompt s" "enterStatus s = 0" "flags (cur_files s ! 0) = IN_USE" "fd_jumptable (cur_files s ! 0) = Some keyboard_jumptable"
    using assms(1) by (simp_all add: shell_ready_def Let_def)
  have v: "user_ok (sti s, q)" "at_prompt (sti s)" "enterStatus (sti s) = 0" "flags (cur_files (sti s) ! 0) = IN_USE" "fd_jumptable (cur_files (sti s) ! 0) = Some keyboard_jumptable"
    using u by (simp_all add: sti_user) (simp_all add: sti_def at_prompt_def no_modifiers_def line_def)
  obtain scs scss where sc: "q = concat (map (\<lambda>scs. map (\<lambda>sc. keyboard_handler (\<lambda>_ _. sc)) (scs @ [ENTER])) (scs # scss)) @ rest"
    "l = map (\<lambda>sc. keyboardUS ! unat sc) scs" "ls = map (map (\<lambda>sc. keyboardUS ! unat sc)) scss"
    "length scs < 128" "\<forall>sc \<in> set scs. plain_key sc \<and> sc \<noteq> ENTER" "\<forall>scs \<in> set scss. length scs < 128 \<and> (\<forall>sc \<in> set scs. plain_key sc \<and> sc \<noteq> ENTER)"
    using assms(2) by (auto simp: typed_lines_def Cons_eq_map_conv)
  define q' where "q' = concat (map (\<lambda>scs. map (\<lambda>sc. keyboard_handler (\<lambda>_ _. sc)) (scs @ [ENTER])) scss) @ rest"
  have q: "q = map (\<lambda>sc. keyboard_handler (\<lambda>_ _. sc)) (scs @ [ENTER]) @ q'" by (simp add: sc(1) q'_def)
  have t: "typed_lines q' ls rest" unfolding typed_lines_def using sc(3,6) by (intro exI [of _ scss]) (simp add: q'_def)
  have l: "l @ [10] = map (\<lambda>sc. keyboardUS ! unat sc) scs @ [10]" by (simp add: sc(2))
  obtain s' where s': "sys_read q 0 ubuf 1023 (sti s) = Some (s', int (length l) + 1, q')" "user_ok (s', q')" "mem s' = put_bytes (mem (sti s)) ubuf (l @ [10])"
    "user_display (s', q') = fold tty_emit (l @ [10]) (user_display (sti s, q))" "at_prompt s'" "enterStatus s' = 0" "kbd_state.more s' = kbd_state.more (sti s)"
    using read_line_kernel [OF v sc(5,4) _ q l, of 1023] by (auto simp: add.commute)
  have m: "kbd_state.more s' = kbd_state.more s" using s'(7) by (simp add: sti_def)
  have "only_locals {31} (mem s) (mem s')" unfolding s'(3) sti_user(4) by (rule only_locals_put) simp
  note k = shell_keeps [OF assms(1) m this s'(2,5,6)]
  show ?thesis using s'(1,3,4) t k by (intro exI [of _ s'] exI [of _ q']) (simp add: sti_user)
qed

section \<open>Lemmas: variables and pages\<close>

lemma store_vars_other: "\<not> in_user_page r \<Longrightarrow> store_vars m r = m r"
proof -
  assume n: "\<not> in_user_page r"
  have "snd r - USR_LOW_BOUND < FOURMB" if lt: "snd r - VARS < 0x4000"
  proof -
    define d where "d = snd r - VARS"
    have e: "snd r - USR_LOW_BOUND = d + 0x3F8000" by (simp add: d_def)
    have "unat d < 0x4000" using lt by (simp add: d_def [symmetric] word_less_nat_alt)
    then have "unat (d + 0x3F8000) < 0x400000" by (simp add: unat_word_ariths)
    then show ?thesis unfolding e by (simp add: word_less_nat_alt)
  qed
  then show "store_vars m r = m r" using n by (auto simp: store_vars_def in_user_page_def Let_def)
qed

lemma show_vars_locals: "only_locals {30, 31, 32, 33} m (show_vars m)"
proof -
  have "30 \<le> j \<and> j \<le> 33 \<longleftrightarrow> j \<in> {30, 31, 32, 33 :: nat}" for j by auto
  then show ?thesis by (auto simp: only_locals_def show_vars_def split: blk.splits)
qed

text \<open>Variables that were stored in a page come back when memory shows that page again.\<close>

lemma show_stored_vars:
  assumes "j \<in> {30, 31, 32, 33}" and "off < 0x1000" and "\<And>o'. o' < FOURMB \<Longrightarrow> m' (Global, USR_LOW_BOUND + o') = store_vars m (Global, USR_LOW_BOUND + o')"
  shows "show_vars m' (Local j, off) = m (Local j, off)"
proof -
  define d where "d = (push_bit 12 (of_nat (j - 30)) + off :: u32)"
  have o: "unat off < 4096" using assms(2) by (simp add: word_less_nat_alt)
  have j: "j - 30 < 4" "30 + (j - 30) = j" using assms(1) by auto
  have ud: "unat d = (j - 30) * 4096 + unat off" using o j(1) by (simp add: d_def push_bit_eq_mult unat_word_ariths unat_of_nat)
  then have lt: "d < 0x4000" "0x3F8000 + d < FOURMB" using o j(1) by (simp_all add: word_less_nat_alt unat_word_ariths)
  have "unat (drop_bit 12 d) = j - 30" "unat (take_bit 12 d) = unat off" using o by (simp_all add: unat_drop_bit unat_take_bit ud)
  then have p: "unat (drop_bit 12 d) = j - 30" "take_bit 12 d = off" by (simp_all add: word_unat_eq_iff)
  have "show_vars m' (Local j, off) = m' (Global, USR_LOW_BOUND + (0x3F8000 + d))" using assms(1,2) by (auto simp: show_vars_def d_def algebra_simps)
  also have "\<dots> = store_vars m (Global, VARS + d)" using assms(3) [OF lt(2)] by (simp add: algebra_simps)
  also have "\<dots> = m (Local j, off)" using lt(1) j(2) p by (simp add: store_vars_def Let_def)
  finally show ?thesis .
qed

text \<open>While another process's page is mapped, a process's own page rests in its frame.\<close>

lemma page_kept:
  assumes "tlb_user s = Some (user_page_addr r)" and "tlb_user t = Some (user_page_addr p)" and "frames t = physical s"
    and "1 \<le> unat p" "unat p \<le> 7" "1 \<le> unat r" "unat r \<le> 7" "p \<noteq> r" and "off < FOURMB"
  shows "physical t (user_page_addr r + off) = mem s (Global, USR_LOW_BOUND + off)"
proof -
  have "\<not> user_page_addr r + off - user_page_addr p < FOURMB"
    using user_pages_disjoint [OF assms(4-8), of "user_page_addr r + off - user_page_addr p" off] assms(9) by auto
  then show ?thesis using assms(1-3,9) by (simp add: physical_def)
qed

lemma frames_more: "kbd_state.more s' = kbd_state.more s \<Longrightarrow> frames s' = frames s" for s s' :: "'a proc_state_scheme"
  by (cases s; cases s'; simp)

section \<open>Lemmas: a program from start to halt\<close>

text \<open>Anywhere in the kernel stack of the running process.\<close>

lemma entry_stack:
  assumes "represents a s"
  shows "in_stack (tss_esp0 s - 62 - ucast (fr :: 12 word)) (current_PCB s)" "in_stack (tss_esp0 s - 62 + 8) (current_PCB s)"
proof -
  note d = representsD [OF assms]
  note rr = live_range [OF d(1) running_live(1) [OF d(1)]]
  have f: "unat (ucast fr :: u32) < 4096" using unsigned_less [of fr, where ?'a = nat] by (simp add: unsigned_ucast_eq take_bit_nat_eq_self)
  then have "unat (62 + ucast fr :: u32) = 62 + unat (ucast fr :: u32)" by (simp add: unat_word_ariths)
  then show "in_stack (tss_esp0 s - 62 - ucast fr) (current_PCB s)"
    using stack_block [of "running a" "62 + ucast fr"] rr f d(10,12) by (simp add: algebra_simps)
  have "1 \<le> unat (54 :: u32)" "unat (54 :: u32) \<le> 8192" by simp_all
  from stack_block [OF conjunct1 [OF rr] conjunct2 [OF rr] this] show "in_stack (tss_esp0 s - 62 + 8) (current_PCB s)" by (simp add: d(10,12))
qed

lemma with_own_files: "with_files (cur_files s) s = s"
  by (simp add: with_files_def)

lemma entry_represents:
  assumes "represents a s" and "same_fs (mem s) (bootblock_ptr s) m" and "unat (active_terminal s) < 3"
  shows "represents a (syscall_entry fr (s\<lparr>mem := m\<rparr>))"
proof -
  note d = representsD [OF assms(1)]
  let ?u = "s\<lparr>esp := tss_esp0 s - 62 - ucast fr, ebp := tss_esp0 s - 62, mem := m\<rparr>"
  have "length (cur_files s) = 8" using d(4) [OF running_live(1) [OF d(1)]] by (simp add: own_pcb_def d(10))
  then have "kstep Run s ?u" using krun [OF entry_stack(1) [OF assms(1), of fr] assms(2), of "cur_files s" "tss_esp0 s - 62"] by (simp add: with_own_files)
  from run_represents [OF assms(1) this] have u: "represents a ?u" .
  have "syscall_entry fr (s\<lparr>mem := m\<rparr>) = ?u\<lparr>iflag := True\<rparr>" by (simp add: syscall_entry_def sti_def)
  then have "kbd_state.more (syscall_entry fr (s\<lparr>mem := m\<rparr>)) = kbd_state.more ?u" by simp
  from represents_more [OF u this] show ?thesis using assms(3) by (simp add: syscall_entry_def sti_def same_fs_def)
qed

text \<open>The shell in the kernel, about to run \<open>execute\<close>.\<close>

lemma entry_ready:
  assumes "shell_ready (s, q)" and "represents a s" and "s0 = syscall_entry fr (s\<lparr>mem := store_vars (mem s)\<rparr>)"
  shows "shell_ready (s0, q)" "represents a s0" "current_PCB s0 = current_PCB s" "in_stack (ebp s0 + 8) (current_PCB s)" "user_display (s0, q) = user_display (s, q)"
    "same_fs (mem s) (bootblock_ptr s) (mem s0)" "can_run code res cs s0 = can_run code res cs s"
proof -
  have u: "user_ok (s, q)" using assms(1) by (simp add: shell_ready_def Let_def)
  have act: "unat (active_terminal s) < 3" using u by (intro active_less) (simp add: user_ok_def Let_def)
  note d = representsD [OF assms(2)]
  have "same_fs (mem s) (bootblock_ptr s) (store_vars (mem s))"
    using d(2) store_vars_other by (intro same_fs_frame [where B = "{}"]) (auto simp: kernel_ok_def)
  then show sf: "same_fs (mem s) (bootblock_ptr s) (mem s0)" by (simp add: assms(3) syscall_entry_def sti_def)
  show r: "represents a s0" unfolding assms(3) using sf act by (intro entry_represents [OF assms(2)]) (simp_all add: assms(3) syscall_entry_def sti_def)
  have f: "bootblock_ptr s0 = bootblock_ptr s" "total_tasks s0 = total_tasks s" "pid_bitpattern s0 = pid_bitpattern s" "ebp s0 = tss_esp0 s - 62" "pcbs s0 = pcbs s" "exception_halt s0 = exception_halt s"
    by (simp_all add: assms(3) syscall_entry_def sti_def)
  show c: "current_PCB s0 = current_PCB s" using representsD(10) [OF r] d(10) by simp
  show "in_stack (ebp s0 + 8) (current_PCB s)" using entry_stack(2) [OF assms(2)] by (simp add: f)
  have e: "kbd_ok s0 = kbd_ok s" "at_prompt s0 = at_prompt s" "enterStatus s0 = enterStatus s" "pcb_shown s0 = pcb_shown s"
    by (simp_all add: assms(3) syscall_entry_def sti_def kbd_ok_def scr_ok_def at_prompt_def no_modifiers_def line_def pcb_shown_def console_def cursor_pos_def)
  show "user_display (s0, q) = user_display (s, q)" by (simp add: user_display_def e(4))
  have "fs_ready s0" using representsD(2) [OF r] by (simp add: kernel_ok_def)
  then show "shell_ready (s0, q)" using assms(1) r c e f by (auto simp: shell_ready_def user_ok_def Let_def)
  have "fs_wf (mem s) (bootblock_ptr s)" using u by (simp add: user_ok_def Let_def fs_ready_def)
  then show "can_run code res cs s0 = can_run code res cs s" by (rule can_run_same [OF _ sf f(1-3)])
qed

lemma pop_push: "turn a < length (stacks a) \<Longrightarrow> pop (push p a) = a"
  by (simp add: pop_def push_def)

lemma free_pid:
  assumes "represents a s" and "0 \<in> set (pid_bitpattern s)"
  shows "\<exists>n. find (\<lambda>i. pid_bitpattern s ! i = 0) [0..<7] = Some n \<and> 3 \<le> n \<and> n < 7 \<and> pid_bitpattern s ! n = 0"
proof -
  note d = representsD [OF assms(1)]
  have len: "length (pid_bitpattern s) = 7" using d(2) by (simp add: kernel_ok_def proc_tables_def)
  then have "find (\<lambda>i. pid_bitpattern s ! i = 0) [0..<7] \<noteq> None" using assms(2) by (auto simp: find_None_iff in_set_conv_nth)
  then obtain n where f: "find (\<lambda>i. pid_bitpattern s ! i = 0) [0..<7] = Some n" by blast
  then have n: "n < 7" "pid_bitpattern s ! n = 0" by (auto simp: find_Some_iff)
  have "{1, 2, 3} \<subseteq> live a" using d(1) by (simp add: wf_tasks_def)
  then have "pid_bitpattern s ! 0 \<noteq> 0" "pid_bitpattern s ! 1 \<noteq> 0" "pid_bitpattern s ! 2 \<noteq> 0" using d(4) [of 1] d(4) [of 2] d(4) [of 3] by simp_all
  then have "3 \<le> n" using n(2) by (cases "n = 0 \<or> n = 1 \<or> n = 2") auto
  then show ?thesis using f n by blast
qed

text \<open>Starting a program from the process whose turn it is.\<close>

lemma spawn_state:
  assumes "represents a s" and "cstr (mem s) command cmd" and "fst command \<noteq> Local 9" and "cmd \<noteq> []" and "length cmd < 1024" and "length (prog_arg cmd) < 128"
    and "total_tasks s < 7" and "program_at (mem s) (bootblock_ptr s) (prog_name cmd) i" and "in_stack (ebp s + 8) (current_PCB s)" and "0 \<in> set (pid_bitpattern s)"
  shows "\<exists>M F b v n p p'. execute command s = Some (s\<lparr>iflag := False, mem := M, pageDir := (pageDir s)[32 := user_page_addr p OR FOURMB_USER_PAGE],
        frames := F, tlb_user := Some (user_page_addr p), total_tasks := total_tasks s + 1, pid_bitpattern := (pid_bitpattern s)[n := 1],
        pcbs := (pcbs s)(pcb_addr p := b), newPCB_var := v,
        priority_list_pid := (priority_list_pid s)[turn a := sint p], current_schedule := int (turn a), tss_ss0 := KERNEL_DS, tss_esp0 := kernel_stack p,
        current_task := p, terminal_current_pid := (terminal_current_pid s)[unat (active_terminal s) := p]\<rparr>,
        Iret USER_DS 0x083FFFFC 0x0200 USER_CS (ld32 M (Global, CP_VADDR + 24)))
    \<and> (\<forall>t c. execute command s = Some (t, c) \<longrightarrow> represents (push p' a) (t\<lparr>esp := tss_esp0 t - 20, ebp := ebp t\<rparr>))
    \<and> bytes_at M (Global, CP_VADDR) (file_length (mem s) (bootblock_ptr s) i) = file_contents (mem s) (bootblock_ptr s) i
    \<and> new_pcb p (esp s) (ebp s) (prog_arg cmd) s b \<and> n < 7 \<and> pid_bitpattern s ! n = 0 \<and> 3 < p \<and> unat p \<le> 7 \<and> pcb_addr p \<noteq> current_PCB s
    \<and> (\<forall>r. \<not> in_user_page r \<and> fst r \<notin> Local ` {3, 5, 6, 7, 8, 9, 10} \<longrightarrow> M r = mem s r) \<and> F = physical s"
proof -
  note d = representsD [OF assms(1)]
  have ok: "fs_ready s" "image_safe s" "tables_ok s" "proc_tables s" using d(2) by (simp_all add: kernel_ok_def)
  obtain n where n: "find (\<lambda>i. pid_bitpattern s ! i = 0) [0..<7] = Some n" "3 \<le> n" "n < 7" "pid_bitpattern s ! n = 0" using free_pid [OF assms(1,10)] by blast
  define p where "p = (of_nat n + 1 :: u32)"
  have up: "unat p = n + 1" using n(3) by (simp add: p_def unat_add_lem [THEN iffD1] unat_of_nat unat_word_ariths)
  have p3: "3 < p" "unat p \<le> 7" using up n(2,3) by (simp_all add: word_less_nat_alt)
  have rl: "running a \<in> live a" by (rule running_live(1) [OF d(1)])
  have rr: "1 \<le> unat (running a)" "unat (running a) \<le> 7" "pid_bitpattern s ! (unat (running a) - 1) \<noteq> 0" "pid (pcbs s (current_PCB s)) = running a"
    using live_range [OF d(1) rl] d(4) [OF rl] by (simp_all add: own_pcb_def d(10))
  have "p \<noteq> running a" using rr(3) n(4) up by auto
  then have ne: "pcb_addr p \<noteq> current_PCB s" using pcb_addr_inj [of p "running a"] up p3(2) rr(1,2) d(10) by auto
  have sl: "find (\<lambda>j. if p > 3 then word_of_int (priority_list_pid s ! j) = pid (pcbs s (current_PCB s)) else priority_list_pid s ! j \<le> 0) [0..<7] = Some (turn a)"
    using find_running [OF d(1)] p3(1) by (simp add: rr(4) d(7) del: upt_Suc)
  have rep: "\<exists>p'. represents (push p' a) (t\<lparr>esp := tss_esp0 t - 20, ebp := ebp t\<rparr>)" if e: "execute command s = Some (t, Iret ss usp fl cs ip)" for t ss usp fl cs ip
  proof -
    have "kstep Spawn s (t\<lparr>esp := tss_esp0 t - 20, ebp := ebp t\<rparr>)" by (rule kspawn [OF assms(2-9) e]) simp_all
    from spawn_represents [OF assms(1) this] show ?thesis by blast
  qed
  from execute_result [OF ok assms(2-8) n(1) p_def sl] obtain M F b v where
    e: "execute command s = Some (s\<lparr>iflag := False, mem := M, pageDir := (pageDir s)[32 := user_page_addr p OR FOURMB_USER_PAGE],
        frames := F, tlb_user := Some (user_page_addr p), total_tasks := total_tasks s + 1, pid_bitpattern := (pid_bitpattern s)[n := 1],
        pcbs := (pcbs s)(pcb_addr p := b), newPCB_var := v,
        priority_list_pid := (priority_list_pid s)[turn a := sint p], current_schedule := int (turn a), tss_ss0 := KERNEL_DS, tss_esp0 := kernel_stack p,
        current_task := p, terminal_current_pid := (terminal_current_pid s)[unat (active_terminal s) := p]\<rparr>,
        Iret USER_DS 0x083FFFFC 0x0200 USER_CS (ld32 M (Global, CP_VADDR + 24)))"
    and M: "bytes_at M (Global, CP_VADDR) (file_length (mem s) (bootblock_ptr s) i) = file_contents (mem s) (bootblock_ptr s) i"
      "new_pcb p (esp s) (ebp s) (prog_arg cmd) s b" "\<forall>r. \<not> in_user_page r \<and> fst r \<notin> Local ` {3, 5, 6, 7, 8, 9, 10} \<longrightarrow> M r = mem s r" "F = physical s"
    by blast
  from rep [OF e] obtain p' where "\<forall>t c. execute command s = Some (t, c) \<longrightarrow> represents (push p' a) (t\<lparr>esp := tss_esp0 t - 20, ebp := ebp t\<rparr>)" by (auto simp: e)
  with e M n(3,4) p3 ne show ?thesis by blast
qed

lemma status_value:
  assumes "0 \<le> r" and "r < 256"
  shows "sint (ucast (word_of_int r :: u8) :: u32) = r"
proof -
  have "uint (word_of_int r :: u8) = r" using assms by (simp add: uint_word_of_int)
  then have "uint (ucast (word_of_int r :: u8) :: u32) = r" using assms by (simp add: uint_up_ucast is_up)
  then show ?thesis using sint_eq_uint_u32 [of "ucast (word_of_int r :: u8)"] assms(2) by simp
qed

lemma not_rejected: "\<not> rejected s c \<Longrightarrow> program_at (mem s) (bootblock_ptr s) (prog_name c) i \<Longrightarrow> total_tasks s < 7 \<and> c \<noteq> []"
  by (auto simp: rejected_def program_at_def Let_def not_le)

text \<open>The state in which a program takes over: its descriptors are the standard ones, the terminal is its parent's.\<close>

lemma child_state:
  assumes "user_ok (s, q)" and "at_prompt s" and "enterStatus s = 0" and "represents a' s1" and "kbd_state.truncate (s1\<lparr>mem := mem s, iflag := iflag s\<rparr>) = kbd_state.truncate s"
    and "current_PCB s1 = pcb_addr p" and "fileArray (pcbs s1 (pcb_addr p)) = std_files"
  shows "user_ok (s1, q)" "at_prompt s1" "enterStatus s1 = 0" "user_display (s1, q) = user_display (s, q)"
proof -
  have e: "kbd_ok s1 = kbd_ok s" "at_prompt s1 = at_prompt s" "enterStatus s1 = enterStatus s" "pcb_shown s1 = pcb_shown s"
    using assms(5) by (cases s; cases s1; simp add: kbd_state.defs kbd_ok_def scr_ok_def at_prompt_def no_modifiers_def line_def pcb_shown_def console_def cursor_pos_def)+
  have "fs_ready s1" using representsD(2) [OF assms(4)] by (simp add: kernel_ok_def)
  then show "user_ok (s1, q)" using assms(1,6,7) e(1) by (simp add: user_ok_def Let_def std_files_def opened_fd_def)
  show "at_prompt s1" "enterStatus s1 = 0" "user_display (s1, q) = user_display (s, q)" using assms(2,3) e by (simp_all add: user_display_def)
qed

text \<open>The end of a program: its parent is back with its own descriptors, and memory outside the user page is as it was.\<close>

lemma halt_state:
  assumes "represents (push p' a) u" and "turn a < length (stacks a)" and "current_PCB u = pcb_addr p" and "pcbs u (pcb_addr p) = b" and "pid b = p" and "3 < p"
    and "length (fileArray b) = 8" and "parent_addr b = c" and "c \<noteq> pcb_addr p" and "exception_halt u \<noteq> 1"
  shows "\<exists>v. halt status u = Some (v, Leave_Ret (kebp b) (kebp b) (ucast status)) \<and> represents a (v\<lparr>esp := kebp b + 8, ebp := e\<rparr>)
    \<and> kbd_state.truncate (v\<lparr>mem := mem u, iflag := iflag u\<rparr>) = kbd_state.truncate u \<and> pcbs v c = pcbs u c \<and> total_tasks v = total_tasks u - 1
    \<and> pid_bitpattern v = pid_bitpattern u \<and> exception_halt v \<noteq> 1 \<and> bootblock_ptr v = bootblock_ptr u \<and> (\<forall>r. \<not> in_user_page r \<longrightarrow> mem v r = mem u r)
    \<and> (\<forall>off < FOURMB. mem v (Global, USR_LOW_BOUND + off) = physical u (user_page_addr (pid (pcbs u c)) + off))"
proof -
  have "tables_ok u" using representsD(2) [OF assms(1)] by (simp add: kernel_ok_def)
  from halt_child_result [OF this, of b "pcbs u c" status] assms(3-10) obtain v where
    v: "halt status u = Some (v, Leave_Ret (kebp b) (kebp b) (ucast status))" "kbd_state.truncate (v\<lparr>mem := mem u, iflag := iflag u\<rparr>) = kbd_state.truncate u" "pcbs v c = pcbs u c"
      "total_tasks v = total_tasks u - 1" "pid_bitpattern v = pid_bitpattern u" "exception_halt v \<noteq> 1" "bootblock_ptr v = bootblock_ptr u" "\<forall>r. \<not> in_user_page r \<longrightarrow> mem v r = mem u r"
      "\<forall>off < FOURMB. mem v (Global, USR_LOW_BOUND + off) = physical u (user_page_addr (pid (pcbs u c)) + off)"
    by (auto simp: kbd_state.defs simp del: upt_Suc)
  have "kstep Exit u (v\<lparr>esp := kebp b + 8, ebp := e\<rparr>)" by (rule kexit [OF _ v(1)]) (simp add: assms(3-6))
  from exit_represents [OF assms(1) this] have "represents a (v\<lparr>esp := kebp b + 8, ebp := e\<rparr>)" by (auto simp: pop_push [OF assms(2)])
  then show ?thesis using v by blast
qed

lemma program_starts:
  assumes "shell_ready (s, q)" and "represents a s" and "cstr (mem s) ubuf c" and "length c < 1024" and "length (prog_arg c) < 128" and "\<not> rejected s c"
    and "program_at (mem s) (bootblock_ptr s) (prog_name c) i" and "0 \<in> set (pid_bitpattern s)" and "f = file_contents (mem s) (bootblock_ptr s) i" and "in_stack (ebp s + 8) (current_PCB s)"
  shows "\<exists>t s1 b n p p'. execute ubuf s = Some (t, Iret USER_DS 0x083FFFFC 0x0200 USER_CS (ld32 (mem s1) (Global, CP_VADDR + 24))) \<and> s1 = syscall_entry fr (t\<lparr>mem := show_vars (mem t)\<rparr>)
    \<and> represents (push p' a) s1 \<and> user_ok (s1, q) \<and> at_prompt s1 \<and> enterStatus s1 = 0 \<and> user_display (s1, q) = user_display (s, q)
    \<and> bytes_at (mem s1) (Global, CP_VADDR) (length f) = f \<and> (\<forall>r. \<not> in_user_page r \<and> fst r \<notin> Local ` {3, 5, 6, 7, 8, 9, 10, 30, 31, 32, 33} \<longrightarrow> mem s1 r = mem s r)
    \<and> current_PCB s1 = pcb_addr p \<and> pcbs s1 = (pcbs s)(pcb_addr p := b) \<and> pid b = p \<and> kebp b = ebp s \<and> length (fileArray b) = 8 \<and> parent_addr b = current_PCB s
    \<and> 3 < p \<and> unat p \<le> 7 \<and> current_PCB s \<noteq> pcb_addr p \<and> n < 7 \<and> pid_bitpattern s ! n = 0 \<and> pid_bitpattern s1 = (pid_bitpattern s)[n := 1]
    \<and> total_tasks s1 = total_tasks s + 1 \<and> exception_halt s1 = exception_halt s \<and> bootblock_ptr s1 = bootblock_ptr s \<and> frames s1 = physical s \<and> tlb_user s1 = Some (user_page_addr p)"
proof -
  have u: "user_ok (s, q)" "at_prompt s" "enterStatus s = 0" using assms(1) by (auto simp: shell_ready_def Let_def)
  have act: "unat (active_terminal s) < 3" using u(1) by (intro active_less) (simp add: user_ok_def Let_def)
  have tt: "total_tasks s < 7" "c \<noteq> []" using not_rejected [OF assms(6,7)] by simp_all
  have ub: "fst ubuf \<noteq> Local 9" by simp
  obtain t M b n p p' where e: "execute ubuf s = Some (t, Iret USER_DS 0x083FFFFC 0x0200 USER_CS (ld32 M (Global, CP_VADDR + 24)))"
    and rt: "represents (push p' a) (t\<lparr>esp := tss_esp0 t - 20, ebp := ebp t\<rparr>)" and M: "mem t = M" "bytes_at M (Global, CP_VADDR) (length f) = f"
      "\<forall>r. \<not> in_user_page r \<and> fst r \<notin> Local ` {3, 5, 6, 7, 8, 9, 10} \<longrightarrow> M r = mem s r"
    and b: "new_pcb p (esp s) (ebp s) (prog_arg c) s b" "pcbs t = (pcbs s)(pcb_addr p := b)" and n: "n < 7" "pid_bitpattern s ! n = 0" "pid_bitpattern t = (pid_bitpattern s)[n := 1]"
    and p: "3 < p" "unat p \<le> 7" "pcb_addr p \<noteq> current_PCB s" and tf: "kbd_state.truncate (t\<lparr>mem := mem s, iflag := iflag s\<rparr>) = kbd_state.truncate s"
      "total_tasks t = total_tasks s + 1" "tss_esp0 t = kernel_stack p" "exception_halt t = exception_halt s" "bootblock_ptr t = bootblock_ptr s" "frames t = physical s" "tlb_user t = Some (user_page_addr p)"
    using spawn_state [OF assms(2,3) ub tt(2) assms(4,5) tt(1) assms(7,10,8)]
    by (elim exE conjE) (rule that, assumption, simp_all add: assms(9) file_contents_def kbd_state.defs)
  have b': "pid b = p" "kebp b = ebp s" "fileArray b = std_files" "length (fileArray b) = 8" "parent_addr b = current_PCB s"
    using b(1) p(1) by (simp_all add: new_pcb_def std_files_def)
  define s1 where "s1 = syscall_entry fr (t\<lparr>mem := show_vars (mem t)\<rparr>)"
  let ?t = "t\<lparr>esp := tss_esp0 t - 20, ebp := ebp t\<rparr>"
  note ol = show_vars_locals [of M]
  have a1: "active_terminal t = active_terminal s" using tf(1) by (cases s; cases t; simp add: kbd_state.defs)
  have "syscall_entry fr (?t\<lparr>mem := show_vars (mem t)\<rparr>) = s1" by (cases t) (simp add: s1_def syscall_entry_def sti_def)
  then have r1: "represents (push p' a) s1" using entry_represents [OF rt, of "show_vars (mem t)" fr] only_locals_same_fs [OF ol] act a1 M(1) by simp
  have m1: "mem s1 = show_vars M" by (simp add: s1_def syscall_entry_def sti_def M(1))
  have cu: "tss_esp0 t = tss_esp0 ?t" by simp
  have up: "1 \<le> unat p" using p(1) by (simp add: word_less_nat_alt)
  have "current_PCB ?t = pcb_addr p" using stack_block [OF up p(2), of 20] by (simp add: current_PCB_def tf(3))
  then have c1: "current_PCB s1 = pcb_addr p" using representsD(10) [OF r1] representsD(10) [OF rt] by simp
  have k1: "kbd_state.truncate (s1\<lparr>mem := mem s, iflag := iflag s\<rparr>) = kbd_state.truncate s" using tf(1) by (simp add: s1_def syscall_entry_def sti_def kbd_state.defs)
  have f1: "pcbs s1 = (pcbs s)(pcb_addr p := b)" "pid_bitpattern s1 = (pid_bitpattern s)[n := 1]" "total_tasks s1 = total_tasks s + 1" "exception_halt s1 = exception_halt s"
    "bootblock_ptr s1 = bootblock_ptr s" "frames s1 = physical s" "tlb_user s1 = Some (user_page_addr p)" using b(2) n(3) tf by (simp_all add: s1_def syscall_entry_def sti_def)
  have "fileArray (pcbs s1 (pcb_addr p)) = std_files" using f1(1) b'(3) by simp
  note cs = child_state [OF u r1 k1 c1 this]
  have g: "mem s1 (Global, x) = M (Global, x)" for x unfolding m1 using only_locals_at [OF ol, of "(Global, x)"] by auto
  have "bytes_at (mem s1) (Global, CP_VADDR) (length f) = f" "ld32 (mem s1) (Global, CP_VADDR + 24) = ld32 M (Global, CP_VADDR + 24)"
    using M(2) by (simp_all add: bytes_at_def padd_def g ld32_def)
  moreover have "\<forall>r. \<not> in_user_page r \<and> fst r \<notin> Local ` {3, 5, 6, 7, 8, 9, 10, 30, 31, 32, 33} \<longrightarrow> mem s1 r = mem s r"
    unfolding m1 using M(3) only_locals_at [OF ol] by (auto simp: image_iff)
  ultimately show ?thesis using e r1 cs c1 b' p(1,2) p(3) [symmetric] n(1,2) s1_def f1
    by (intro exI [of _ t] exI [of _ s1] exI [of _ b] exI [of _ n] exI [of _ p] exI [of _ p']) simp
qed

text \<open>The parent after a program's \<open>halt\<close>.\<close>

lemma parent_back:
  assumes "shell_ready (s, q)" and "user_ok (s2, q)" and "at_prompt s2" and "enterStatus s2 = 0" and "represents a (v\<lparr>esp := b + 8, ebp := e\<rparr>)"
    and "kbd_state.truncate (v\<lparr>mem := mem s2, iflag := iflag s2\<rparr>) = kbd_state.truncate s2" and "pcbs v (current_PCB s) = pcbs s (current_PCB s)" and "exception_halt v \<noteq> 1"
    and "in_stack (b + 8) (current_PCB s)" and "s' = v\<lparr>esp := b + 8, ebp := e, mem := show_vars (mem v)\<rparr>"
  shows "shell_ready (s', q)" "user_display (s', q) = user_display (s2, q)"
proof -
  have e: "kbd_ok s' = kbd_ok s2" "at_prompt s' = at_prompt s2" "enterStatus s' = enterStatus s2" "pcb_shown s' = pcb_shown s2" "active_terminal s' = active_terminal s2"
    using assms(6) by (cases v; cases s2; simp add: assms(10) kbd_state.defs kbd_ok_def scr_ok_def at_prompt_def no_modifiers_def line_def pcb_shown_def console_def cursor_pos_def)+
  have "unat (active_terminal s') < 3" using assms(2) e(5) active_less [of s2] by (simp add: user_ok_def Let_def)
  moreover have "kbd_state.more s' = kbd_state.more (v\<lparr>esp := b + 8, ebp := e\<rparr>)" by (cases v) (simp add: assms(10))
  ultimately have r: "represents a s'" using only_locals_same_fs [OF show_vars_locals] by (intro represents_more [OF assms(5)]) (simp_all add: assms(10))
  have c: "current_PCB s' = current_PCB s" using assms(9) by (simp add: assms(10) current_PCB_def)
  have files: "cur_files s' = cur_files s" unfolding c by (simp add: assms(7,10))
  have "fs_ready s'" using representsD(2) [OF r] by (simp add: kernel_ok_def)
  then have "user_ok (s', q)" using assms(1,2) e(1) files by (simp add: user_ok_def shell_ready_def Let_def)
  moreover have "exception_halt s' \<noteq> 1" using assms(8) by (simp add: assms(10))
  ultimately show "shell_ready (s', q)" using assms(1,3,4) e(2,3) r files by (auto simp: shell_ready_def Let_def)
  show "user_display (s', q) = user_display (s2, q)" by (simp add: user_display_def e(4))
qed

lemma program_runs:
  assumes "shell_ready (s, q)" and "cstr (mem s) ubuf c" and "length c < 1024" and "length (prog_arg c) < 128" and "\<not> rejected s c"
    and "program_at (mem s) (bootblock_ptr s) (prog_name c) i" and "only_prints code (file_contents (mem s) (bootblock_ptr s) i) r" and "0 \<in> set (pid_bitpattern s)"
  shows "\<exists>s' n. kernel_execute fr code ubuf (s, q) = Some ((s', q), snd r) \<and> shell_ready (s', q) \<and> same_fs (mem s) (bootblock_ptr s) (mem s')
    \<and> bootblock_ptr s' = bootblock_ptr s \<and> total_tasks s' = total_tasks s \<and> n < 7 \<and> pid_bitpattern s ! n = 0 \<and> pid_bitpattern s' = (pid_bitpattern s)[n := 1]
    \<and> user_display (s', q) = fold tty_emit (fst r) (user_display (s, q))
    \<and> (\<forall>j \<in> {30, 31, 32, 33}. \<forall>off < 0x1000. mem s' (Local j, off) = mem s (Local j, off))"
proof -
  obtain a where a: "represents a s" and xh: "exception_halt s \<noteq> 1" using assms(1) by (auto simp: shell_ready_def Let_def)
  note d = representsD [OF a]
  have wf: "fs_wf (mem s) (bootblock_ptr s)" using d(2) by (simp add: kernel_ok_def fs_ready_def)
  define s0 where "s0 = syscall_entry fr (s\<lparr>mem := store_vars (mem s)\<rparr>)"
  note en = entry_ready [OF assms(1) a s0_def]
  have f0: "mem s0 = store_vars (mem s)" "bootblock_ptr s0 = bootblock_ptr s" "total_tasks s0 = total_tasks s" "pid_bitpattern s0 = pid_bitpattern s" "pcbs s0 = pcbs s" "exception_halt s0 = exception_halt s"
    by (simp_all add: s0_def syscall_entry_def sti_def)
  have c0: "cstr (mem s0) ubuf c" using not_user_page_local store_vars_other by (intro cstr_cong [OF assms(2)]) (auto simp: f0(1) padd_def)
  have rj: "\<not> rejected s0 c" using assms(5) rejected_same [OF wf en(6) f0(2,3)] by simp
  have pg: "program_at (mem s0) (bootblock_ptr s0) (prog_name c) i" "file_contents (mem s) (bootblock_ptr s) i = file_contents (mem s0) (bootblock_ptr s0) i"
    using program_at_same(1,2) [OF wf en(6) assms(6)] by (simp_all add: f0(2))
  have ps: "0 \<in> set (pid_bitpattern s0)" "in_stack (ebp s0 + 8) (current_PCB s0)" using assms(8) en(3,4) by (simp_all add: f0)
  obtain t s1 b n p p' where e: "execute ubuf s0 = Some (t, Iret USER_DS 0x083FFFFC 0x0200 USER_CS (ld32 (mem s1) (Global, CP_VADDR + 24)))" "s1 = syscall_entry fr (t\<lparr>mem := show_vars (mem t)\<rparr>)"
    and r1: "represents (push p' a) s1" and u1: "user_ok (s1, q)" "at_prompt s1" "enterStatus s1 = 0" "user_display (s1, q) = user_display (s0, q)"
    and m1: "bytes_at (mem s1) (Global, CP_VADDR) (length (file_contents (mem s) (bootblock_ptr s) i)) = file_contents (mem s) (bootblock_ptr s) i"
      "\<forall>r. \<not> in_user_page r \<and> fst r \<notin> Local ` {3, 5, 6, 7, 8, 9, 10, 30, 31, 32, 33} \<longrightarrow> mem s1 r = mem s0 r"
    and b: "current_PCB s1 = pcb_addr p" "pcbs s1 = (pcbs s0)(pcb_addr p := b)" "pid b = p" "kebp b = ebp s0" "length (fileArray b) = 8" "parent_addr b = current_PCB s0" "3 < p" "unat p \<le> 7" "current_PCB s0 \<noteq> pcb_addr p"
    and n: "n < 7" "pid_bitpattern s0 ! n = 0" "pid_bitpattern s1 = (pid_bitpattern s0)[n := 1]" "total_tasks s1 = total_tasks s0 + 1" "exception_halt s1 = exception_halt s0" "bootblock_ptr s1 = bootblock_ptr s0"
    and fm: "frames s1 = physical s0" "tlb_user s1 = Some (user_page_addr p)"
    using program_starts [OF en(1,2) c0 assms(3,4) rj pg(1) ps(1) pg(2) ps(2), of fr] by metis
  obtain s2 where s2: "code (ld32 (mem s1) (Global, CP_VADDR + 24)) (s1, q) = Some ((s2, q), snd r)" "user_ok (s2, q)" "at_prompt s2" "enterStatus s2 = 0"
    "only_locals {30, 31, 32, 33} (mem s1) (mem s2)" "kbd_state.more s2 = kbd_state.more s1" "user_display (s2, q) = fold tty_emit (fst r) (user_display (s1, q))"
    using assms(7) u1(1-3) m1(1) unfolding only_prints_def by metis
  have sr: "0 \<le> snd r" "snd r < 256" using assms(7) by (simp_all add: only_prints_def)
  define s3 where "s3 = sti s2"
  have m3: "kbd_state.more s3 = kbd_state.more s1" "mem s3 = mem s2" using s2(6) by (simp_all add: s3_def sti_def)
  have "unat (active_terminal s2) < 3" using s2(2) by (intro active_less) (simp add: user_ok_def Let_def)
  then have r3: "represents (push p' a) s3" using only_locals_same_fs [OF s2(5)] by (intro represents_more [OF r1 m3(1)]) (simp_all add: s3_def sti_def)
  have p3: "current_PCB s3 = pcb_addr p" "pcbs s3 (pcb_addr p) = b" "exception_halt s3 \<noteq> 1" "pcbs s3 (current_PCB s) = pcbs s (current_PCB s)"
    "total_tasks s3 = total_tasks s + 1" "pid_bitpattern s3 = (pid_bitpattern s)[n := 1]" "bootblock_ptr s3 = bootblock_ptr s" "tlb_user s3 = Some (user_page_addr p)" "frames s3 = physical s0"
    using proc_same_more [OF m3(1)] fs_fields_more [OF m3(1)] frames_more [OF m3(1)] b(1,2,9) n(3-6) xh fm en(3) by (simp_all add: f0)
  have pb: "parent_addr b = current_PCB s" "current_PCB s \<noteq> pcb_addr p" using b(6,9) en(3) by simp_all
  let ?x = "\<lambda>v. ld32 (mem v) (Global, ebp s0)"
  obtain v where v: "halt (word_of_int (snd r)) s3 = Some (v, Leave_Ret (ebp s0) (ebp s0) (ucast (word_of_int (snd r) :: u8)))"
    "kbd_state.truncate (v\<lparr>mem := mem s3, iflag := iflag s3\<rparr>) = kbd_state.truncate s3" "pcbs v (current_PCB s) = pcbs s3 (current_PCB s)" "total_tasks v = total_tasks s3 - 1"
    "pid_bitpattern v = pid_bitpattern s3" "exception_halt v \<noteq> 1" "bootblock_ptr v = bootblock_ptr s3" "\<forall>r. \<not> in_user_page r \<longrightarrow> mem v r = mem s3 r"
    "\<forall>off < FOURMB. mem v (Global, USR_LOW_BOUND + off) = physical s3 (user_page_addr (pid (pcbs s3 (current_PCB s))) + off)"
    using halt_state [OF r3 _ p3(1,2) b(3,7,5) pb p3(3), of "word_of_int (snd r)" 0] d(13,14) unfolding b(4) by auto
  have rv: "represents a (v\<lparr>esp := ebp s0 + 8, ebp := ?x v\<rparr>)"
    using halt_state [OF r3 _ p3(1,2) b(3,7,5) pb p3(3), of "word_of_int (snd r)" "?x v"] d(13,14) v(1) unfolding b(4) by auto
  define s' where "s' = v\<lparr>esp := ebp s0 + 8, ebp := ?x v, mem := show_vars (mem v)\<rparr>"
  have "user_ok (s3, q)" "at_prompt s3" "enterStatus s3 = 0" "user_display (s3, q) = user_display (s2, q)"
    unfolding s3_def sti_user using s2(2-4) by (simp_all add: sti_def at_prompt_def no_modifiers_def line_def)
  note s' = parent_back [OF assms(1) this(1-3) rv v(2) _ v(6) en(4) s'_def] this(4)
  have "mem s' r = mem s r" if "\<not> in_user_page r" "fst r \<notin> Local ` {3, 5, 6, 7, 8, 9, 10, 30, 31, 32, 33}" for r
    using that spec [OF m1(2), of r] spec [OF v(8), of r] m3(2) only_locals_at [OF s2(5), of r] only_locals_at [OF show_vars_locals [of "mem v"], of r] store_vars_other [OF that(1), of "mem s"]
    by (auto simp: s'_def f0(1))
  then have sf: "same_fs (mem s) (bootblock_ptr s) (mem s')"
    using d(2) by (intro same_fs_frame [where B = "{3, 5, 6, 7, 8, 9, 10, 30, 31, 32, 33}"]) (simp_all add: kernel_ok_def)
  have "kernel_execute fr code ubuf (s, q) = Some ((s', q), snd r)"
    using e s2(1) v(1) status_value [OF sr] by (simp add: kernel_execute_def run_start_def flip: s3_def s'_def s0_def)
  moreover have "user_display (s', q) = fold tty_emit (fst r) (user_display (s, q))" using s'(2,3) s2(7) u1(4) v(3) p3(4) en(5) by simp
  moreover have "bootblock_ptr s' = bootblock_ptr s" "total_tasks s' = total_tasks s" "pid_bitpattern s' = (pid_bitpattern s)[n := 1]"
    using v(4,5,7) p3(5-7) by (simp_all add: s'_def)
  moreover have "mem s' (Local j, off) = mem s (Local j, off)" if "j \<in> {30, 31, 32, 33}" "off < 0x1000" for j off
  proof -
    let ?r = "running a"
    have rl: "?r \<in> live a" by (rule running_live(1) [OF d(1)])
    have pr: "pid (pcbs s (current_PCB s)) = ?r" "tlb_user s0 = Some (user_page_addr ?r)" using d(4) [OF rl] representsD(11) [OF en(2)] by (simp_all add: own_pcb_def d(10))
    have "p \<noteq> ?r" using pb(2) d(10) by auto
    then have "mem v (Global, USR_LOW_BOUND + o') = store_vars (mem s) (Global, USR_LOW_BOUND + o')" if "o' < FOURMB" for o'
      using page_kept [OF pr(2) p3(8,9) _ b(8) _ _ _ that] live_range [OF d(1) rl] b(7) v(9) that p3(4) pr(1) by (simp add: f0(1) word_less_nat_alt)
    from show_stored_vars [OF that this] show ?thesis by (simp add: s'_def)
  qed
  ultimately show ?thesis using s'(1) v(3) p3(4) sf n(1,2) by (auto simp: f0)
qed

section \<open>The kernel keeps the shell's contract\<close>

lemma take_free: "n < length xs \<Longrightarrow> xs ! n = (0 :: u32) \<Longrightarrow> length (filter (\<lambda>b. b = 0) xs) = Suc (length (filter (\<lambda>b. b = 0) (xs[n := 1])))"
proof (induction xs arbitrary: n)
  case (Cons x xs)
  then show ?case by (cases n) auto
qed simp

lemma rejected_runs:
  assumes "shell_ready (s, q)" and "cstr (mem s) ubuf c" and "length c < 1024" and "length (prog_arg c) < 128" and "rejected s c"
  shows "\<exists>s'. kernel_execute fr code ubuf (s, q) = Some ((s', q), -1) \<and> shell_ready (s', q) \<and> (\<forall>cs. can_run code res cs s' = can_run code res cs s)
    \<and> user_display (s', q) = user_display (s, q)"
proof -
  obtain a where a: "represents a s" using assms(1) by (auto simp: shell_ready_def Let_def)
  define s0 where "s0 = syscall_entry fr (s\<lparr>mem := store_vars (mem s)\<rparr>)"
  note en = entry_ready [OF assms(1) a s0_def]
  have u: "user_ok (s0, q)" "at_prompt s0" "enterStatus s0 = 0" using en(1) by (simp_all add: shell_ready_def Let_def)
  have wf: "fs_wf (mem s) (bootblock_ptr s)" using representsD(2) [OF a] by (simp add: kernel_ok_def fs_ready_def)
  have f0: "mem s0 = store_vars (mem s)" "bootblock_ptr s0 = bootblock_ptr s" "total_tasks s0 = total_tasks s" by (simp_all add: s0_def syscall_entry_def sti_def)
  have c0: "cstr (mem s0) ubuf c" using not_user_page_local store_vars_other by (intro cstr_cong [OF assms(2)]) (auto simp: f0(1) padd_def)
  have rj: "rejected s0 c" using assms(5) rejected_same [OF wf en(6) f0(2,3)] by simp
  have "fs_ready s0" using u(1) by (simp add: user_ok_def Let_def)
  then have "\<exists>m'. execute ubuf s0 = Some (s0\<lparr>iflag := False, mem := m'\<rparr>, Returns (-1)) \<and> only_locals {7, 8, 9, 10} (mem s0) m'"
    using rj [unfolded rejected_def Let_def] by (intro execute_rejects_result [OF _ c0 _ assms(3,4) refl]) (simp, simp, blast+)
  then obtain m where m: "execute ubuf s0 = Some (s0\<lparr>iflag := False, mem := m\<rparr>, Returns (-1))" "only_locals {7, 8, 9, 10} (mem s0) m" by auto
  define s' where "s' = s0\<lparr>iflag := False, mem := m\<rparr>"
  have mo: "kbd_state.more s' = kbd_state.more s0" "mem s' = m" by (simp_all add: s'_def)
  have e: "kbd_ok s' = kbd_ok s0" "at_prompt s' = at_prompt s0" "enterStatus s' = enterStatus s0" "pcb_shown s' = pcb_shown s0"
    by (simp_all add: s'_def kbd_ok_def scr_ok_def at_prompt_def no_modifiers_def line_def pcb_shown_def console_def cursor_pos_def)
  have "fs_ready s'" using only_locals_ready [OF m(2)] u(1) by (simp add: s'_def user_ok_def Let_def fs_ready_def)
  then have "user_ok (s', q)" using u(1) e(1) fs_fields_more(2) [OF mo(1)] by (simp add: user_ok_def Let_def)
  note k = shell_keeps [OF en(1) mo(1) m(2) [folded mo(2)] this]
  have "kernel_execute fr code ubuf (s, q) = Some ((s', q), -1)" using m(1) by (simp add: kernel_execute_def s'_def flip: s0_def)
  then show ?thesis using k u(2,3) e en(5,7) by (auto simp: user_display_def)
qed

lemma command_runs:
  assumes "shell_ready (s, q)" and "can_run code res (c # cs) s" and "cstr (mem s) ubuf c"
  shows "\<exists>s'. kernel_execute fr code ubuf (s, q) = Some ((s', q), snd (res c)) \<and> shell_ready (s', q) \<and> can_run code res cs s'
    \<and> user_display (s', q) = fold tty_emit (fst (res c)) (user_display (s, q))"
proof -
  have c: "length c < 1024" "length (prog_arg c) < 128" using assms(2) by (simp_all add: can_run_def Let_def)
  have cs: "can_run code res cs s" using assms(2) by (auto simp: can_run_def Let_def split: if_splits)
  show ?thesis
  proof (cases "rejected s c")
    case True
    moreover have "res c = ([], -1)" using assms(2) True by (simp add: can_run_def Let_def)
    ultimately show ?thesis using rejected_runs [OF assms(1,3) c, of fr code res] cs by auto
  next
    case False
    obtain i where i: "program_at (mem s) (bootblock_ptr s) (prog_name c) i" "only_prints code (file_contents (mem s) (bootblock_ptr s) i) (res c)"
      using assms(2) False by (auto simp: can_run_def Let_def)
    have free: "Suc (length (filter (\<lambda>c. \<not> rejected s c) cs)) \<le> length (filter (\<lambda>b. b = 0) (pid_bitpattern s))" using assms(2) False by (simp add: can_run_def Let_def)
    then have "filter (\<lambda>b. b = 0) (pid_bitpattern s) \<noteq> []" by auto
    then have "0 \<in> set (pid_bitpattern s)" by (auto simp: filter_empty_conv)
    from program_runs [OF assms(1,3) c False i this, of fr] obtain s' n where s': "kernel_execute fr code ubuf (s, q) = Some ((s', q), snd (res c))" "shell_ready (s', q)"
      "same_fs (mem s) (bootblock_ptr s) (mem s')" "bootblock_ptr s' = bootblock_ptr s" "total_tasks s' = total_tasks s" "n < 7" "pid_bitpattern s ! n = 0"
      "pid_bitpattern s' = (pid_bitpattern s)[n := 1]" "user_display (s', q) = fold tty_emit (fst (res c)) (user_display (s, q))" by blast
    obtain a where "represents a s" using assms(1) by (auto simp: shell_ready_def Let_def)
    from representsD(2) [OF this] have k: "length (pid_bitpattern s) = 7" "fs_wf (mem s) (bootblock_ptr s)" by (simp_all add: kernel_ok_def proc_tables_def fs_ready_def)
    have "can_run code res cs s'" using free take_free [of n "pid_bitpattern s"] s'(6-8) k(1) by (intro can_run_frame [OF k(2) s'(3-5) cs]) simp
    then show ?thesis using s' by blast
  qed
qed

interpretation kshell: shell_os "kernel_os dev (kernel_execute fr code) regs" shell_ready "shell_view code res" user_display tty_emit "session_ahead rest" res
  for dev :: device and fr :: "12 word" and code :: "u32 \<Rightarrow> 'a world \<Rightarrow> ('a world \<times> int) option" and regs res rest
proof
  fix w :: "'a world" and p :: ptr and n :: int
  assume a: "shell_ready w" "p \<noteq> NULL" "0 \<le> n"
  obtain s q where sq: "w = (s, q)" by (cases w)
  from shell_write [OF a(1) [unfolded sq] a(2,3), of dev code res]
  show "\<exists>s'. ece391_write (kernel_os dev (kernel_execute fr code) regs) 1 p n w = Some (s', n) \<and> shell_ready s' \<and> shell_view code res s' = shell_view code res w
      \<and> umem (kernel_os dev (kernel_execute fr code) regs) s' = umem (kernel_os dev (kernel_execute fr code) regs) w
      \<and> user_display s' = fold tty_emit (filter (\<lambda>c. c \<noteq> 0) (bytes_at (umem (kernel_os dev (kernel_execute fr code) regs) w) p (nat n))) (user_display w)"
    by (auto simp: sq kernel_calls shell_view_def)
next
  fix w :: "'a world" and m
  assume a: "shell_ready w" "only_locals {30, 31, 32, 33} (umem (kernel_os dev (kernel_execute fr code) regs) w) m"
  obtain s q where sq: "w = (s, q)" by (cases w)
  have u: "user_ok (s, q)" "at_prompt s" "enterStatus s = 0" using a(1) by (simp_all add: sq shell_ready_def Let_def)
  have ol: "only_locals {30, 31, 32, 33} (mem s) m" using a(2) by (simp add: sq kernel_calls)
  have "user_ok (s\<lparr>mem := m\<rparr>, q)" "user_display (s\<lparr>mem := m\<rparr>, q) = user_display (s, q)" using kos.store_ok [OF u(1), of dev undefined regs m] ol by (simp_all add: kernel_calls)
  moreover have "at_prompt (s\<lparr>mem := m\<rparr>)" using u(2) by (simp add: at_prompt_def no_modifiers_def line_def)
  moreover note k = shell_keeps [of s q "s\<lparr>mem := m\<rparr>" "{30, 31, 32, 33}" q]
  ultimately show "shell_ready (set_umem (kernel_os dev (kernel_execute fr code) regs) m w) \<and> shell_view code res (set_umem (kernel_os dev (kernel_execute fr code) regs) m w) = shell_view code res w
      \<and> umem (kernel_os dev (kernel_execute fr code) regs) (set_umem (kernel_os dev (kernel_execute fr code) regs) m w) = m
      \<and> user_display (set_umem (kernel_os dev (kernel_execute fr code) regs) m w) = user_display w"
    using a(1) u ol by (simp add: sq kernel_calls shell_view_def)
next
  fix w :: "'a world" and l ls cs
  assume a: "shell_ready w" "session_ahead rest (l # ls) cs (shell_view code res w)"
  obtain s q where sq: "w = (s, q)" by (cases w)
  have t: "typed_lines q (l # ls) rest" "can_run code res cs s" using a(2) by (simp_all add: sq session_ahead_def shell_view_def)
  from shell_read [OF a(1) [unfolded sq] t(1), of code res] t(2)
  show "\<exists>s'. ece391_read (kernel_os dev (kernel_execute fr code) regs) 0 ubuf 1023 w = Some (s', int (length l) + 1) \<and> shell_ready s' \<and> session_ahead rest ls cs (shell_view code res s')
      \<and> umem (kernel_os dev (kernel_execute fr code) regs) s' = put_bytes (umem (kernel_os dev (kernel_execute fr code) regs) w) ubuf (l @ [0x0A])
      \<and> user_display s' = fold tty_emit (l @ [0x0A]) (user_display w)"
    by (auto simp: sq kernel_calls shell_view_def session_ahead_def)
next
  fix w :: "'a world" and ls c cs
  assume a: "shell_ready w" "session_ahead rest ls (c # cs) (shell_view code res w)" "cstr (umem (kernel_os dev (kernel_execute fr code) regs) w) ubuf c"
  obtain s q where sq: "w = (s, q)" by (cases w)
  have t: "typed_lines q ls rest" "can_run code res (c # cs) s" "cstr (mem s) ubuf c" using a(2,3) by (simp_all add: sq session_ahead_def shell_view_def kernel_calls)
  have x: "ece391_execute (kernel_os dev (kernel_execute fr code) regs) = kernel_execute fr code" by (simp add: kernel_os_def Let_def)
  from command_runs [OF a(1) [unfolded sq] t(2,3), of fr] t(1)
  show "\<exists>s'. ece391_execute (kernel_os dev (kernel_execute fr code) regs) ubuf w = Some (s', snd (res c)) \<and> shell_ready s' \<and> session_ahead rest ls cs (shell_view code res s')
      \<and> user_display s' = fold tty_emit (fst (res c)) (user_display w)"
    by (auto simp: x sq shell_view_def session_ahead_def)
qed

section \<open>A session with the shell\<close>

lemma typed_line: "typed_lines q ls rest \<Longrightarrow> l \<in> set ls \<Longrightarrow> 0 \<notin> set l \<and> length l < 128"
  by (force simp: typed_lines_def plain_key_def)


text \<open>\<open>testprint\<close> does nothing but print.\<close>

abbreviation testprint_text :: string where
  "testprint_text \<equiv> ''Hello, if this ran, the program was correct. Yay!'' @ [CHR 0x0A]"

lemma testprint_only_prints: "only_prints (\<lambda>_. testprint_main (kernel_os dev run regs)) f (cbytes testprint_text, 0)"
  unfolding only_prints_def
proof (intro conjI allI impI)
  fix s :: "'a idt_state_scheme" and q
  assume a: "user_ok (s, q) \<and> at_prompt s \<and> enterStatus s = 0 \<and> bytes_at (mem s) (Global, CP_VADDR) (length f) = f"
  have z: "0 \<notin> set (cbytes testprint_text)" by (simp add: cbytes_def)
  obtain s' where s': "say (kernel_os dev run regs) testprint_text (s, q) = Some (s', q)" "kos.prints dev run regs (cbytes testprint_text) (s, q) (s', q)"
    "only_locals {30} (mem s) (mem s')" "enterStatus s' = 0" "kbd_state.more s' = kbd_state.more s"
    using say_kernel [OF conjunct1 [OF a] z, of dev run regs] by auto
  have "user_ok (s', q)" "at_prompt s'" "user_display (s', q) = fold tty_emit (cbytes testprint_text) (user_display (s, q))"
    using s'(2) a unfolding kos.prints_def by (simp_all add: user_view_def Let_def)
  then show "\<exists>s'. testprint_main (kernel_os dev run regs) (s, q) = Some ((s', q), snd (cbytes testprint_text, 0)) \<and> user_ok (s', q) \<and> at_prompt s' \<and> enterStatus s' = 0
      \<and> only_locals {30, 31, 32, 33} (mem s) (mem s') \<and> kbd_state.more s' = kbd_state.more s
      \<and> user_display (s', q) = fold tty_emit (fst (cbytes testprint_text, 0)) (user_display (s, q))"
    using s'(1,4,5) only_locals_mono [OF s'(3), of "{30, 31, 32, 33}"] by (simp add: testprint_main_def)
qed simp_all

text \<open>The first of three shells on the small disk.\<close>

definition shell_demo :: idt_state where
  "shell_demo = proc_state.extend multi_demo (idt_state.fields (replicate 256 empty_gate) False)"

lemma shell_demo_state:
  "mem shell_demo = demo_image" "bootblock_ptr shell_demo = 0x400000" "total_tasks shell_demo = 4" "pid_bitpattern shell_demo = [1, 1, 1, 0, 0, 0, 0]"
  "current_PCB shell_demo = 0x7FC000" "ebp shell_demo = 0x7FDF40" "exception_halt shell_demo = 0" "cur_files shell_demo = fileArray demo_pcb" "represents tasks_demo shell_demo"
  "kbd_ok shell_demo" "at_prompt shell_demo" "enterStatus shell_demo = 0"
proof -
  have e: "current_PCB shell_demo = 0x7FC000" using proc_demo_simps(5) by (simp add: shell_demo_def multi_demo_def sched_demo_def proc_state.defs idt_state.defs current_PCB_def)
  then show "current_PCB shell_demo = 0x7FC000" .
  show "mem shell_demo = demo_image" "bootblock_ptr shell_demo = 0x400000" using proc_demo_fs by (simp_all add: shell_demo_def multi_demo_def sched_demo_def proc_state.defs idt_state.defs)
  show "total_tasks shell_demo = 4" "pid_bitpattern shell_demo = [1, 1, 1, 0, 0, 0, 0]" "ebp shell_demo = 0x7FDF40" "exception_halt shell_demo = 0"
    by (simp_all add: shell_demo_def multi_demo_def sched_demo_def proc_demo_def paging_state.defs proc_state.defs idt_state.defs)
  show "cur_files shell_demo = fileArray demo_pcb" unfolding e by (simp add: shell_demo_def multi_demo_def proc_state.defs idt_state.defs)
  have "represents tasks_demo (proc_state.extend s m) = represents tasks_demo s" for s :: proc_state and m :: "unit idt_state_ext"
    by (simp add: represents_def kernel_ok_def tables_ok_def proc_tables_def fs_ready_def image_safe_def current_PCB_def proc_state.defs)
  then show "represents tasks_demo shell_demo" using demo_represents by (simp add: shell_demo_def)
  have k: "kbd_state.truncate proc_demo = kbd_boot\<lparr>mem := demo_image\<rparr>" by (rule proc_demo_fs(5))
  have t: "kbd_ok shell_demo = kbd_ok (kbd_state.truncate proc_demo)" "at_prompt shell_demo = at_prompt (kbd_state.truncate proc_demo)" "enterStatus shell_demo = enterStatus (kbd_state.truncate proc_demo)"
    by (simp_all add: shell_demo_def multi_demo_def sched_demo_def kbd_ok_def scr_ok_def at_prompt_def no_modifiers_def line_def proc_state.defs idt_state.defs kbd_state.defs)
  show "kbd_ok shell_demo" "at_prompt shell_demo" "enterStatus shell_demo = 0"
    unfolding t k using kbd_boot_ok by (simp_all add: kbd_ok_def scr_ok_def at_prompt_def no_modifiers_def line_def)
qed

lemma shell_demo_ready: "shell_ready (shell_demo, q)"
proof -
  note d = shell_demo_state
  have "fs_ready shell_demo" using representsD(2) [OF d(9)] by (simp add: kernel_ok_def)
  then have "user_ok (shell_demo, q)" using d(8,10) by (simp add: user_ok_def Let_def demo_pcb_def opened_fd_def)
  then show ?thesis using d by (auto simp: shell_ready_def Let_def demo_pcb_def opened_fd_def)
qed

definition demo_res :: "u8 list \<Rightarrow> u8 list \<times> int" where
  "demo_res c = (if c = cbytes ''hi'' then (cbytes testprint_text, 0) else ([], -1))"

lemma shell_demo_runs: "can_run (\<lambda>_. testprint_main demo_os) demo_res [cbytes ''x'', cbytes ''hi''] shell_demo"
proof -
  note d = shell_demo_state
  have h: "cbytes ''hi'' = [0x68, 0x69]" "cbytes ''x'' = [0x78]" by (simp_all add: cbytes_def)
  have "cstr demo_image (Global, 0x400040) [0x68, 0x69]" "cstr demo_image (Global, 0x400080) []" by (simp_all add: cstr_def bytes_at_def demo_image_def padd_def upt_conv_Cons)
  then have "entry_name demo_image 0x400000 0 = [0x68, 0x69]" "entry_name demo_image 0x400000 1 = []" by (simp_all add: entry_name_def dentry_at_def cstr_upto_nul)
  then have l: "dir_lookup demo_image 0x400000 [0x78] = None" by (simp add: dir_lookup_def demo_words upt_rec)
  have n: "prog_name [0x78] = [0x78]" "prog_arg [0x78] = []" by (simp_all add: prog_name_def prog_arg_def word_end_def)
  have x: "rejected shell_demo [0x78]" by (simp add: rejected_def Let_def d n l)
  have p: "program_at demo_image 0x400000 [0x68, 0x69] 1" using proc_demo_exec(7) by (simp add: proc_demo_fs)
  then have r: "\<not> rejected shell_demo [0x68, 0x69]" by (auto simp: rejected_def program_at_def Let_def d proc_demo_exec(8))
  have "filter (\<lambda>b. b = 0) [1, 1, 1, 0, 0, 0, 0 :: u32] = [0, 0, 0, 0]" by simp
  moreover have "\<exists>i. program_at demo_image 0x400000 [0x68, 0x69] i \<and> only_prints (\<lambda>_. testprint_main demo_os) (file_contents demo_image 0x400000 i) (cbytes testprint_text, 0)"
    using p testprint_only_prints by blast
  ultimately show ?thesis using x r n by (simp add: can_run_def Let_def d demo_res_def h proc_demo_exec(8,9))
qed


end
