(* ===== verification/Emulation.thy ===== *)
theory Emulation
  imports User_Support Process
begin

text \<open>
  The emulation of the system calls on Linux (\<open>syscalls/ece391emulate.c\<close>, which \<open>fish\<close> has a copy of): with it in place of the kernel's linkage a user program runs under Linux. The calls
  of Linux and of its C library are a record of functions, parameters of every operation here. The state is the static variables, the memory and the host.
  The command buffer of \<open>ece391_execute\<close> is the block \<open>Local 35\<close>, the literals are in \<open>Local 34\<close>.
\<close>

section \<open>The emulated calls\<close>

text \<open>How a child ended, as \<open>wait\<close> reports it; or \<open>execv\<close> returned in the child, or \<open>fork\<close> failed and there is no child.\<close>

datatype wait_status = WIFEXITED u8 | WTERMSIG nat

datatype child_end = Ended wait_status | No_Exec | No_Fork

text \<open>
  A system call returns the content of \<open>EAX\<close>. A directory stream delivers names, \<open>mmap\<close> the address of the low memory. A child that \<open>fork\<close> has made and that
  runs another program by \<open>execv\<close> ends in some way.
\<close>

record ('w, 'd) linux =
  linux_read :: "int \<Rightarrow> ptr \<Rightarrow> int \<Rightarrow> mem \<times> 'w \<Rightarrow> (mem \<times> 'w) \<times> u32"
  linux_write :: "int \<Rightarrow> ptr \<Rightarrow> int \<Rightarrow> mem \<times> 'w \<Rightarrow> (mem \<times> 'w) \<times> u32"
  linux_open :: "ptr \<Rightarrow> mem \<times> 'w \<Rightarrow> (mem \<times> 'w) \<times> u32"
  linux_close :: "int \<Rightarrow> mem \<times> 'w \<Rightarrow> (mem \<times> 'w) \<times> u32"
  libc_open :: "string \<Rightarrow> 'w \<Rightarrow> 'w \<times> int"
  libc_close :: "int \<Rightarrow> 'w \<Rightarrow> 'w"
  opendir :: "string \<Rightarrow> 'w \<Rightarrow> 'w \<times> 'd option"
  readdir :: "'d \<Rightarrow> 'w \<Rightarrow> 'w \<times> u8 list option"
  closedir :: "'d \<Rightarrow> 'w \<Rightarrow> 'w"
  mmap_low :: "int \<Rightarrow> 'w \<Rightarrow> 'w \<times> u32 option"
  execv_child :: "ptr \<Rightarrow> ptr list \<Rightarrow> mem \<times> 'w \<Rightarrow> 'w \<times> child_end"

record ('w, 'd) emu =
  start_esp :: u32
  dir_fd :: int
  dir :: "'d option"
  mem_fd :: int
  emem :: mem
  host :: 'w

text \<open>The wrapper of a system call turns an error of Linux into -1.\<close>

definition DO_CALL :: "(mem \<times> 'w \<Rightarrow> (mem \<times> 'w) \<times> u32) \<Rightarrow> ('w, 'd) emu \<Rightarrow> ('w, 'd) emu \<times> int" where
  "DO_CALL call s = (let ((m, w), eax) = call (emem s, host s) in (s\<lparr>emem := m, host := w\<rparr>, if eax \<le> 0xFFFFC000 then sint eax else -1))"

text \<open>The start of a program: the stack pointer is kept for the arguments, and the program halts with what \<open>main\<close> returns.\<close>

definition emu_start :: "(('w, 'd) emu \<Rightarrow> (('w, 'd) emu \<times> int) option) \<Rightarrow> u32 \<Rightarrow> ('w, 'd) emu \<Rightarrow> (('w, 'd) emu \<times> int) option" where
  "emu_start main esp' s = main (s\<lparr>start_esp := esp'\<rparr>)"

abbreviation emu_buf :: ptr where "emu_buf \<equiv> (Local 35, 0)"

partial_function (option) skip_blanks :: "mem \<Rightarrow> ptr \<Rightarrow> ptr option" where
  "skip_blanks m scan = (if m scan = 0x20 then skip_blanks m (padd scan 1) else Some scan)"

text \<open>The array of arguments has 1024 places.\<close>

partial_function (option) parse_args :: "mem \<Rightarrow> ptr \<Rightarrow> ptr list \<Rightarrow> (mem \<times> ptr list) option" where
  "parse_args m scan args' = do {
     scan \<leftarrow> skip_blanks m scan;
     if m scan = 0 \<or> m scan = 0x0A then Some (m(scan := 0), args')
     else if length args' < 1024
     then do {
       let args' = args' @ [scan];
       scan \<leftarrow> scan_word m scan;
       if m scan \<noteq> 0 then parse_args (m(scan := 0)) (padd scan 1) args' else parse_args m scan args' }
     else None }"

definition emu_command :: "ptr \<Rightarrow> mem \<Rightarrow> (mem \<times> ptr list) option" where
  "emu_command command m = do {
     m \<leftarrow> ece391_strcpy (m(emu_buf := 0x2E, padd emu_buf 1 := 0x2F)) (padd emu_buf 2) command;
     scan \<leftarrow> scan_word m (padd emu_buf 2);
     (m, args') \<leftarrow> (if m scan \<noteq> 0 then parse_args (m(scan := 0)) (padd scan 1) [emu_buf] else Some (m, [emu_buf]));
     if length args' < 1024 then Some (m, args') else None }"

text \<open>A child in which \<open>execv\<close> returned kills itself with signal 9. Without a child \<open>wait\<close> leaves \<open>status\<close> uninitialised, and what is made of it is not defined.\<close>

definition ece391_execute :: "('w, 'd) linux \<Rightarrow> ptr \<Rightarrow> ('w, 'd) emu \<Rightarrow> (('w, 'd) emu \<times> int) option" where
  "ece391_execute lx command s = do {
     n \<leftarrow> ece391_strlen (emem s) command;
     if 1023 < n then Some (s, -1)
     else do {
       (m, args') \<leftarrow> emu_command command (emem s);
       let (w, ended) = execv_child lx emu_buf args' (m, host s);
       let s = s\<lparr>emem := m, host := w\<rparr>;
       (case ended of
          No_Fork \<Rightarrow> None
        | No_Exec \<Rightarrow> Some (s, -1)
        | Ended (WIFEXITED c) \<Rightarrow> Some (s, uint c)
        | Ended (WTERMSIG n) \<Rightarrow> Some (s, if n = 9 then -1 else 256)) } }"

definition ece391_open :: "('w, 'd) linux \<Rightarrow> ptr \<Rightarrow> ('w, 'd) emu \<Rightarrow> (('w, 'd) emu \<times> int) option" where
  "ece391_open lx filename s = do {
     let s = s\<lparr>emem := put_bytes (emem s) (Local 34, 0) (cbytes ''.'' @ [0])\<rparr>;
     r \<leftarrow> ece391_strcmp (emem s) filename (Local 34, 0);
     Some (if r = 0
       then let (w, d) = opendir lx ''.'' (host s);
                (w, fd) = libc_open lx ''/dev/null'' w
            in (s\<lparr>host := w, dir := d, dir_fd := fd\<rparr>, fd)
       else DO_CALL (linux_open lx filename) s) }"

text \<open>\<open>argv\<close> is on the stack the program was started with.\<close>

definition emu_argv :: "mem \<Rightarrow> u32 \<Rightarrow> int \<Rightarrow> ptr" where
  "emu_argv m esp' idx = (Global, ld32 m (Global, esp' + 4 + 4 * word_of_int idx))"

function getargs_loop :: "mem \<Rightarrow> u32 \<Rightarrow> int \<Rightarrow> ptr \<Rightarrow> int \<Rightarrow> int \<Rightarrow> (mem \<times> int) option" where
  "getargs_loop m esp' argc buf nbytes idx =
     (if idx < argc
      then do {
        n \<leftarrow> ece391_strlen m (emu_argv m esp' idx);
        let len = sint n;
        if len > nbytes then Some (m, -1)
        else do {
          m' \<leftarrow> ece391_strcpy m buf (emu_argv m esp' idx);
          let buf = padd buf (word_of_int len);
          let nbytes = nbytes - len;
          if idx + 1 \<ge> argc then Some (if nbytes < 1 then (m', -1) else (m'(buf := 0), 0))
          else if nbytes < 1 then Some (m', -1)
          else getargs_loop (m'(buf := 0x20)) esp' argc (padd buf 1) (nbytes - 1) (idx + 1) } }
      else Some (if nbytes < 1 then (m, -1) else (m(buf := 0), 0)))"
  by pat_completeness auto
termination by (relation "measure (\<lambda>(m, esp', argc, buf, nbytes, idx). nat (argc - idx))") auto

declare getargs_loop.simps [simp del]

definition ece391_getargs :: "ptr \<Rightarrow> int \<Rightarrow> ('w, 'd) emu \<Rightarrow> (('w, 'd) emu \<times> int) option" where
  "ece391_getargs buf nbytes s = do {
     (m, r) \<leftarrow> getargs_loop (emem s) (start_esp s) (sint (ld32 (emem s) (Global, start_esp s))) buf nbytes 1;
     Some (s\<lparr>emem := m\<rparr>, r) }"

definition ece391_vidmap :: "('w, 'd) linux \<Rightarrow> ptr \<Rightarrow> ('w, 'd) emu \<Rightarrow> ('w, 'd) emu \<times> int" where
  "ece391_vidmap lx screen_start s =
     (let s = (if mem_fd s = -1 then let (w, fd) = libc_open lx ''/dev/mem'' (host s) in s\<lparr>host := w, mem_fd := fd\<rparr> else s);
          (w, image) = mmap_low lx (mem_fd s) (host s);
          s = s\<lparr>host := w\<rparr>
      in case image of None \<Rightarrow> (s, -1) | Some a \<Rightarrow> (s\<lparr>emem := st32 (emem s) screen_start (a + 0xB8000)\<rparr>, 0))"

text \<open>Copying a name, at most 32 bytes of it, and the zeros behind it; the last component says that the call returns at once.\<close>

fun copy_name :: "mem \<Rightarrow> ptr \<Rightarrow> u8 list \<Rightarrow> int \<Rightarrow> int \<Rightarrow> mem \<times> ptr \<times> int \<times> bool" where
  "copy_name m to [] nbytes copied = (m, to, copied, False)"
| "copy_name m to (c # from) nbytes copied =
     (if c = 0 then (m, to, copied, False)
      else let m = m(to := c); to = padd to 1; copied = copied + 1
           in if copied = nbytes then (m, to, nbytes, True) else if copied = 32 then (m, to, 32, True) else copy_name m to from nbytes copied)"

function pad_name :: "mem \<Rightarrow> ptr \<Rightarrow> int \<Rightarrow> int \<Rightarrow> mem \<times> int" where
  "pad_name m to nbytes copied = (if nbytes > copied \<and> 32 > copied then pad_name (m(to := 0)) (padd to 1) nbytes (copied + 1) else (m, copied))"
  by pat_completeness auto
termination by (relation "measure (\<lambda>(m, to, nbytes, copied). nat (32 - copied))") auto

declare pad_name.simps [simp del]

definition ece391_read :: "('w, 'd) linux \<Rightarrow> int \<Rightarrow> ptr \<Rightarrow> int \<Rightarrow> ('w, 'd) emu \<Rightarrow> ('w, 'd) emu \<times> int" where
  "ece391_read lx fd buf nbytes s =
     (case dir s of
        Some d \<Rightarrow> if dir_fd s \<noteq> fd then DO_CALL (linux_read lx fd buf nbytes) s
          else (case readdir lx d (host s) of
             (w, None) \<Rightarrow> (s\<lparr>host := w\<rparr>, 0)
           | (w, Some name) \<Rightarrow>
               let (m, to, copied, done) = copy_name (emem s) buf name nbytes 0;
                   (m, copied) = (if done then (m, copied) else pad_name m to nbytes copied)
               in (s\<lparr>emem := m, host := w\<rparr>, copied))
      | None \<Rightarrow> DO_CALL (linux_read lx fd buf nbytes) s)"

definition ece391_write :: "('w, 'd) linux \<Rightarrow> int \<Rightarrow> ptr \<Rightarrow> int \<Rightarrow> ('w, 'd) emu \<Rightarrow> ('w, 'd) emu \<times> int" where
  "ece391_write lx fd buf nbytes s = (if dir s = None \<or> dir_fd s \<noteq> fd then DO_CALL (linux_write lx fd buf nbytes) s else (s, -1))"

definition ece391_close :: "('w, 'd) linux \<Rightarrow> int \<Rightarrow> ('w, 'd) emu \<Rightarrow> ('w, 'd) emu \<times> int" where
  "ece391_close lx fd s =
     (case dir s of
        Some d \<Rightarrow> if dir_fd s \<noteq> fd then DO_CALL (linux_close lx fd) s
          else (s\<lparr>host := libc_close lx (dir_fd s) (closedir lx d (host s)), dir := None, dir_fd := -1\<rparr>, 0)
      | None \<Rightarrow> DO_CALL (linux_close lx fd) s)"

section \<open>The command line\<close>

text \<open>
  The words of the text behind the program's name: blanks separate them, and so does a newline at the end of a word; a newline after a blank ends the command.
\<close>

function emu_words :: "u8 list \<Rightarrow> u8 list list" where
  "emu_words zs =
     (let ys = dropWhile (\<lambda>c. c = 0x20) zs; w = takeWhile (\<lambda>c. \<not> word_end c) ys
      in if ys = [] \<or> hd ys = 0x0A then [] else w # emu_words (drop (Suc (length w)) ys))"
  by pat_completeness auto
termination
proof (relation "measure length")
  fix zs ys w :: "u8 list"
  assume ys: "ys = dropWhile (\<lambda>c. c = 0x20) zs" and ne: "\<not> (ys = [] \<or> hd ys = 0x0A)"
  have "length ys \<le> length zs" unfolding ys by (rule length_dropWhile_le)
  moreover have "length ys - Suc (length w) < length ys" using ne by (intro diff_less) auto
  ultimately show "(drop (Suc (length w)) ys, zs) \<in> measure length" by simp
qed simp

declare emu_words.simps [simp del]

lemma skip_blanks_cstr: "cstr m p zs \<Longrightarrow> skip_blanks m p = Some (padd p (of_nat (length (takeWhile (\<lambda>c. c = 0x20) zs))))"
proof (induction zs arbitrary: p)
  case Nil
  then show ?case by (subst skip_blanks.simps) (simp add: cstr_Nil)
next
  case (Cons c zs)
  then have "m p = c" "cstr m (padd p 1) zs" using cstr_tl by blast+
  with Cons.IH [OF this(2)] show ?case by (subst skip_blanks.simps) (simp add: add.commute)
qed

text \<open>The loop leaves a string for every word, and writes only behind its start.\<close>

lemma parse_args_Nil: "m scan = 0 \<Longrightarrow> parse_args m scan as = Some (m, as)"
  by (subst parse_args.simps, subst skip_blanks.simps) (simp add: fun_upd_idem)

lemma cstr_behind:
  assumes "cstr m p ys" and "n < length ys"
  shows "cstr (m(padd p (of_nat n) := c)) (padd p (of_nat (Suc n))) (drop (Suc n) ys)"
proof (rule cstr_cong)
  show "cstr m (padd p (of_nat (Suc n))) (drop (Suc n) ys)" using cstr_drop [OF assms(1), of "Suc n"] assms(2) by simp
  fix j assume j: "j \<le> length (drop (Suc n) ys)"
  have "length ys < 2 ^ 32" using assms(1) by (simp add: cstr_def)
  then have "(of_nat (Suc n) + of_nat j :: u32) \<noteq> of_nat n" using j assms(2) unfolding of_nat_add [symmetric] by (simp add: word_unat_eq_iff unat_of_nat del: of_nat_Suc of_nat_add)
  then show "(m(padd p (of_nat n) := c)) (padd (padd p (of_nat (Suc n))) (of_nat j)) = m (padd (padd p (of_nat (Suc n))) (of_nat j))" by (simp del: of_nat_Suc)
qed

lemma word_kept:
  assumes "cstr m p ys" and "n < length ys" and "\<And>q. \<not> in_region (padd p (of_nat (Suc n))) (length ys - n) q \<Longrightarrow> m' q = (m(padd p (of_nat n) := 0)) q"
  shows "cstr m' p (take n ys)" and "\<not> in_region p (Suc (length ys)) q \<Longrightarrow> m' q = m q"
proof -
  have len: "Suc (length ys) \<le> 2 ^ 32" using assms(1) by (simp add: cstr_def)
  have e: "Suc n + (length ys - n) = Suc (length ys)" using assms(2) by simp
  note off = in_region_offset [of "Suc n" "length ys - n" p, unfolded e, OF len]
  have cut: "cstr (m(padd p (of_nat n) := 0)) p (take n ys)" using cstr_cut [OF assms(1), of n] assms(2) by simp
  show "cstr m' p (take n ys)"
  proof (rule cstr_cong [OF cut])
    fix k assume "k \<le> length (take n ys)"
    then show "m' (padd p (of_nat k)) = (m(padd p (of_nat n) := 0)) (padd p (of_nat k))"
      using assms(2) len by (intro assms(3)) (simp add: off in_region_padd unat_of_nat del: of_nat_Suc)
  qed
  show "m' q = m q" if q: "\<not> in_region p (Suc (length ys)) q"
  proof -
    have "q \<noteq> padd p (of_nat n)" using q assms(2) len by (auto simp: in_region_padd unat_of_nat)
    then show ?thesis using assms(3) [of q] q by (simp add: off del: of_nat_Suc)
  qed
qed

lemma parse_args_words:
  assumes "cstr m scan zs" and "length as + length zs < 1024"
  shows "\<exists>m' ps. parse_args m scan as = Some (m', as @ ps) \<and> list_all2 (cstr m') ps (emu_words zs) \<and> length as + length ps < 1024
    \<and> (\<forall>q. \<not> in_region scan (Suc (length zs)) q \<longrightarrow> m' q = m q)"
  using assms
proof (induction zs arbitrary: m scan as rule: emu_words.induct)
  case (1 zs)
  define ys where "ys = dropWhile (\<lambda>c. c = 0x20) zs"
  define k where "k = length (takeWhile (\<lambda>c. c = 0x20) zs)"
  define w where "w = takeWhile (\<lambda>c. \<not> word_end c) ys"
  let ?n = "length w"
  have zs: "ys = drop k zs" "k \<le> length zs" "length zs = k + length ys"
    unfolding ys_def k_def by (simp_all add: dropWhile_eq_drop length_takeWhile_le)
  let ?p = "padd scan (of_nat k)"
  have sk: "skip_blanks m scan = Some ?p" using skip_blanks_cstr [OF "1.prems"(1)] by (simp add: k_def)
  have c: "cstr m ?p ys" using cstr_drop [OF "1.prems"(1) zs(2)] zs(1) by simp
  have small: "Suc (length zs) \<le> 2 ^ 32" using "1.prems"(2) by simp
  show ?case
  proof (cases "ys = [] \<or> hd ys = 0x0A")
    case True
    then have "m ?p = 0 \<or> m ?p = 0x0A" using c cstr_tl [of m ?p "hd ys" "tl ys"] by (cases ys) (auto simp: cstr_Nil)
    then have "parse_args m scan as = Some (m(?p := 0), as @ [])" using sk by (subst parse_args.simps) simp
    moreover have "emu_words zs = []" using True by (subst emu_words.simps) (simp add: ys_def)
    moreover have "in_region scan (Suc (length zs)) ?p" using zs(2) small by (simp add: in_region_padd unat_of_nat)
    ultimately show ?thesis using "1.prems"(2) by (intro exI conjI) (assumption | auto)+
  next
    case False
    then obtain c' cs where ys: "ys = c' # cs" "c' \<noteq> 0x0A" by (cases ys) auto
    have mc: "m ?p = c'" "c' \<noteq> 0" using c ys cstr_tl by blast+
    have nw: "?n \<le> length ys" by (simp add: w_def length_takeWhile_le)
    let ?q = "padd ?p (of_nat ?n)" and ?as = "as @ [?p]"
    have sc: "scan_word m ?p = Some ?q" using scan_word_cstr [OF c] by (simp add: w_def)
    have ew: "emu_words zs = w # emu_words (drop (Suc ?n) ys)" using False by (subst emu_words.simps) (simp add: ys_def [symmetric] w_def Let_def)
    have st: "parse_args m scan as = (if m ?q \<noteq> 0 then parse_args (m(?q := 0)) (padd ?q 1) ?as else parse_args m ?q ?as)"
      using sk sc mc ys(2) "1.prems"(2) by (subst parse_args.simps) (simp add: Let_def)
    have tw: "take ?n ys = w" unfolding w_def by (rule takeWhile_eq_take [symmetric])
    have cut: "cstr (m(?q := 0)) ?p w" using cstr_cut [OF c nw] tw by simp
    have lz: "length as + 1 + (length ys - 1) < 1024" "length as < 1023" using "1.prems"(2) zs(3) ys(1) by auto
    show ?thesis
    proof (cases "m ?q = 0")
      case True
      then have "?n = length ys" using c nw cstr_nth(2) [of m ?p ys ?n] by (cases "?n = length ys") auto
      moreover from this have "emu_words (drop (Suc ?n) ys) = []" by (subst emu_words.simps) simp
      moreover have "m(?q := 0) = m" using True by (simp add: fun_upd_idem)
      ultimately show ?thesis using st True parse_args_Nil [of m ?q ?as] ew cut lz by (intro exI [of _ m] exI [of _ "[?p]"]) simp
    next
      case ne: False
      have lt: "?n < length ys" using ne c nw cstr_end [OF c] by (cases "?n = length ys") auto
      have pq: "padd ?q 1 = padd ?p (of_nat (Suc ?n))" by (simp add: add.commute)
      have c1: "cstr (m(?q := 0)) (padd ?q 1) (drop (Suc ?n) ys)" unfolding pq using cstr_behind [OF c lt] by simp
      have "length ?as + length (drop (Suc ?n) ys) < 1024" using lz by simp
      from "1.IH" [OF ys_def w_def False c1 this] obtain m' ps where IH: "parse_args (m(?q := 0)) (padd ?q 1) ?as = Some (m', ?as @ ps)"
        "list_all2 (cstr m') ps (emu_words (drop (Suc ?n) ys))" "length ?as + length ps < 1024"
        "\<forall>q. \<not> in_region (padd ?q 1) (Suc (length (drop (Suc ?n) ys))) q \<longrightarrow> m' q = (m(?q := 0)) q" by blast
      have d: "Suc (length (drop (Suc ?n) ys)) = length ys - ?n" using lt by simp
      have out: "m' q = (m(?q := 0)) q" if "\<not> in_region (padd ?p (of_nat (Suc ?n))) (length ys - ?n) q" for q using IH(4) that unfolding pq d by blast
      have "cstr m' ?p w" using word_kept(1) [OF c lt out] tw by simp
      moreover have "m' q = m q" if "\<not> in_region scan (Suc (length zs)) q" for q
        using word_kept(2) [OF c lt out] that in_region_offset [of k "Suc (length ys)" scan q] zs(3) small by auto
      ultimately show ?thesis using IH(1-3) st ne ew by (intro exI [of _ m'] exI [of _ "?p # ps"]) simp
    qed
  qed
qed

text \<open>The whole command: the program's name behind \<open>./\<close>, and a string for every word; nothing but the buffer changes, and the array of arguments is large enough.\<close>

abbreviation emu_path :: "u8 list \<Rightarrow> u8 list" where
  "emu_path cmd \<equiv> 0x2E # 0x2F # prog_name cmd"

abbreviation emu_args :: "u8 list \<Rightarrow> u8 list list" where
  "emu_args cmd \<equiv> emu_words (drop (Suc (length (prog_name cmd))) cmd)"

lemma emu_words_Nil [simp]: "emu_words [] = []"
  by (subst emu_words.simps) simp

lemma strcpy_bytes:
  assumes "cstr m src xs" and "fst dst \<noteq> fst src"
  shows "ece391_strcpy m dst src = Some (put_bytes m dst (xs @ [0]))"
proof -
  have "bytes_at m src (Suc (length xs)) = xs @ [0]" using assms(1) bytes_at_append [of m src "length xs" 1] by (simp add: cstr_def bytes_at_def)
  then show ?thesis using strcpy_copy [OF assms(1), of dst] copy_region_put_bytes [of "Suc (length xs)" m dst src] assms by (simp add: ece391_strcpy_eq separate_def cstr_def)
qed

lemma emu_command_words:
  assumes "cstr m command cmd" and "fst command \<noteq> Local 35" and "length cmd \<le> 1023"
  shows "\<exists>m' ps. emu_command command m = Some (m', emu_buf # ps) \<and> cstr m' emu_buf (emu_path cmd) \<and> list_all2 (cstr m') ps (emu_args cmd)
    \<and> (\<forall>q. \<not> in_region emu_buf 1026 q \<longrightarrow> m' q = m q)"
proof -
  let ?n = "length (prog_name cmd)" and ?m1 = "m(emu_buf := 0x2E, padd emu_buf 1 := 0x2F)" and ?ys = "0x2E # 0x2F # cmd" and ?b = "padd emu_buf 2"
  define m2 where "m2 = put_bytes m emu_buf (?ys @ [0])"
  have c1: "cstr ?m1 command cmd" using cstr_upd_other assms(1,2) by (metis fst_conv fst_padd)
  have z: "0 \<notin> set cmd" using assms(1) by (simp add: cstr_def)
  have "ece391_strcpy ?m1 ?b command = Some (put_bytes ?m1 ?b (cmd @ [0]))"
    using strcpy_bytes [OF c1, of ?b] assms(2) by (metis fst_conv fst_padd)
  moreover have "put_bytes ?m1 ?b (cmd @ [0]) = m2"
    using put_bytes_append [of "[0x2E, 0x2F]" "cmd @ [0]" m emu_buf] put_bytes_Cons [of "[0x2F]" m emu_buf "0x2E"] assms(3)
    by (simp add: m2_def put_bytes_def [of _ _ "[0x2F]"] fill_region_1)
  ultimately have cp: "ece391_strcpy ?m1 ?b command = Some m2" by simp
  have y: "cstr m2 emu_buf ?ys" unfolding m2_def by (rule cstr_put_bytes) (use z assms(3) in auto)
  have b: "cstr m2 ?b cmd" using cstr_drop [OF y, of 2] by simp
  have sc: "scan_word m2 ?b = Some (padd ?b (of_nat ?n))" using scan_word_cstr [OF b] by (simp add: prog_name_def)
  have n: "?n \<le> length cmd" by (simp add: prog_name_def length_takeWhile_le)
  have t: "take ?n cmd = prog_name cmd" unfolding prog_name_def by (rule takeWhile_eq_take [symmetric])
  have q: "padd ?b (of_nat ?n) = padd emu_buf (of_nat (?n + 2))" by (simp add: add.commute)
  have o2: "m2 q = m q" if "\<not> in_region emu_buf 1026 q" for q using that assms(3) in_region_mono [of emu_buf "length (?ys @ [0])" q 1026] by (auto simp: m2_def intro!: put_bytes_other)
  show ?thesis
  proof (cases "?n = length cmd")
    case True
    then have "m2 (padd ?b (of_nat ?n)) = 0" "prog_name cmd = cmd" using cstr_end [OF b] t by simp_all
    then show ?thesis using cp sc y o2 by (simp add: emu_command_def)
  next
    case False
    then have lt: "?n + 2 < length ?ys" using n by simp
    let ?m3 = "m2(padd emu_buf (of_nat (?n + 2)) := 0)" and ?p = "padd emu_buf (of_nat (Suc (?n + 2)))" and ?zs = "drop (Suc ?n) cmd"
    have ne: "m2 (padd emu_buf (of_nat (?n + 2))) \<noteq> 0" by (rule cstr_nth(2) [OF y lt])
    have c3: "cstr ?m3 ?p ?zs" using cstr_behind [OF y lt, of 0] by simp
    have "length [emu_buf] + length ?zs < 1024" using assms(3) by simp
    from parse_args_words [OF c3 this] obtain m' ps where P: "parse_args ?m3 ?p [emu_buf] = Some (m', [emu_buf] @ ps)" "list_all2 (cstr m') ps (emu_words ?zs)"
      "length [emu_buf] + length ps < 1024" "\<forall>q. \<not> in_region ?p (Suc (length ?zs)) q \<longrightarrow> m' q = ?m3 q" by blast
    have d: "Suc (length ?zs) = length ?ys - (?n + 2)" using lt by simp
    have out: "m' q = ?m3 q" if "\<not> in_region ?p (length ?ys - (?n + 2)) q" for q using P(4) that unfolding d by blast
    have "cstr m' emu_buf (emu_path cmd)" using word_kept(1) [OF y lt out] t by simp
    moreover have "m' q = m q" if "\<not> in_region emu_buf 1026 q" for q
      using word_kept(2) [OF y lt out, of q] o2 [OF that] that assms(3) in_region_mono [of emu_buf "Suc (length ?ys)" q 1026] by auto
    moreover have "padd (padd emu_buf (of_nat (?n + 2))) 1 = ?p" by (simp add: add.commute)
    then have "emu_command command m = Some (m', emu_buf # ps)" unfolding emu_command_def cp using sc ne P(1,3) unfolding q by (simp del: of_nat_add of_nat_Suc padd_padd)
    ultimately show ?thesis using P(2) by blast
  qed
qed

section \<open>Running a program\<close>

text \<open>What the code relies on: a program is started by the strings behind the pointers.\<close>

definition exec_by_strings :: "('w, 'd) linux \<Rightarrow> (u8 list \<Rightarrow> u8 list list \<Rightarrow> 'w \<Rightarrow> 'w \<times> child_end) \<Rightarrow> bool" where
  "exec_by_strings lx exec \<longleftrightarrow> (\<forall>m p ps path ws w. cstr m p path \<and> list_all2 (cstr m) ps ws \<longrightarrow> execv_child lx p ps (m, w) = exec path ws w)"

text \<open>
  C25: the emulated \<open>ece391_execute\<close> runs the program the command names. A command of more than 1023 bytes is refused; any other starts \<open>./\<close> followed by the first word,
  with that path and every further word as the program's arguments, and returns the exit code, -1 when the program could not be started or was killed, and 256 when another signal ended it. It
  writes nothing but its buffer of 1026 bytes. When \<open>fork\<close> fails, the result is not defined.
\<close>

theorem emulated_execute:
  assumes "cstr (emem s) command cmd" and "fst command \<noteq> Local 35" and "exec_by_strings lx exec" and "exec (emu_path cmd) (emu_path cmd # emu_args cmd) (host s) = (w, ended)"
  shows "if length cmd > 1023 then ece391_execute lx command s = Some (s, -1)
    else if ended = No_Fork then ece391_execute lx command s = None
    else \<exists>m'. ece391_execute lx command s = Some (s\<lparr>emem := m', host := w\<rparr>,
        case ended of Ended (WIFEXITED c) \<Rightarrow> uint c | Ended (WTERMSIG n) \<Rightarrow> if n = 9 then -1 else 256 | _ \<Rightarrow> -1)
      \<and> (\<forall>q. \<not> in_region emu_buf 1026 q \<longrightarrow> m' q = emem s q)"
proof (cases "length cmd > 1023")
  case True
  have "length cmd < 2 ^ 32" using assms(1) by (simp add: cstr_def)
  then have "1023 < (of_nat (length cmd) :: u32)" using True by (simp add: word_less_nat_alt unat_of_nat)
  then show ?thesis using True strlen_cstr [OF assms(1)] by (simp add: ece391_execute_def ece391_strlen_eq)
next
  case False
  then have n: "\<not> 1023 < (of_nat (length cmd) :: u32)" by (simp add: word_less_nat_alt unat_of_nat)
  from False emu_command_words [OF assms(1,2)] obtain m' ps where m': "emu_command command (emem s) = Some (m', emu_buf # ps)" "cstr m' emu_buf (emu_path cmd)"
    "list_all2 (cstr m') ps (emu_args cmd)" "\<forall>q. \<not> in_region emu_buf 1026 q \<longrightarrow> m' q = emem s q" by auto
  have "list_all2 (cstr m') (emu_buf # ps) (emu_path cmd # emu_args cmd)" using m'(2,3) by simp
  with m'(2) assms(3) have "execv_child lx emu_buf (emu_buf # ps) (m', host s) = exec (emu_path cmd) (emu_path cmd # emu_args cmd) (host s)" unfolding exec_by_strings_def by blast
  then have "execv_child lx emu_buf (emu_buf # ps) (m', host s) = (w, ended)" unfolding assms(4) .
  then show ?thesis using False n m'(1,4) strlen_cstr [OF assms(1)] by (auto simp: ece391_execute_def ece391_strlen_eq Let_def split: child_end.splits wait_status.splits)
qed

text \<open>A host that keeps the number of arguments and whose programs exit with code 7, and a program with the command \<open>ls  a\<close> in its memory.\<close>

definition demo_linux :: "(nat, unit) linux" where
  "demo_linux = \<lparr>linux_read = (\<lambda>_ _ _ w. (w, 0xFFFFFFF7)), linux_write = (\<lambda>_ _ _ w. (w, 0xFFFFFFF7)), linux_open = (\<lambda>_ w. (w, 0xFFFFFFFE)), linux_close = (\<lambda>_ w. (w, 0)),
     libc_open = (\<lambda>_ w. (w, 5)), libc_close = (\<lambda>_ w. w), opendir = (\<lambda>_ w. (w, Some ())), readdir = (\<lambda>_ w. (w + 1, if w = 0 then Some (cbytes ''hi'') else None)),
     closedir = (\<lambda>_ w. w), mmap_low = (\<lambda>_ w. (w, None)), execv_child = (\<lambda>_ ps (m, w). (length ps, Ended (WIFEXITED 7)))\<rparr>"

definition demo_emu :: "(nat, unit) emu" where
  "demo_emu = \<lparr>start_esp = 0x1000, dir_fd = -1, dir = None, mem_fd = -1, emem = put_bytes (\<lambda>_. 0) (Local 31, 0) (cbytes ''ls  a'' @ [0]), host = 0\<rparr>"

theorem emulated_execute_witness:
  "\<exists>m'. ece391_execute demo_linux (Local 31, 0) demo_emu = Some (demo_emu\<lparr>emem := m', host := 2\<rparr>, 7)"
proof -
  have e: "emu_args (cbytes ''ls  a'') = [cbytes ''a'']" by (subst emu_words.simps) (simp add: prog_name_def word_end_def cbytes_def)
  have c: "cstr (emem demo_emu) (Local 31, 0) (cbytes ''ls  a'')" unfolding demo_emu_def emu.simps by (rule cstr_put_bytes) (simp_all add: cbytes_def)
  have x: "exec_by_strings demo_linux (\<lambda>path ws w. (length ws, Ended (WIFEXITED 7)))" by (auto simp: exec_by_strings_def demo_linux_def dest: list_all2_lengthD)
  have h: "(\<lambda>path ws w. (length ws, Ended (WIFEXITED 7))) (emu_path (cbytes ''ls  a'')) (emu_path (cbytes ''ls  a'') # emu_args (cbytes ''ls  a'')) (host demo_emu) = (2, Ended (WIFEXITED 7))"
    unfolding e by simp
  have "\<not> length (cbytes ''ls  a'') > 1023" by (simp add: cbytes_def)
  then show ?thesis using emulated_execute [OF c _ x h] by auto
qed

section \<open>The arguments\<close>

text \<open>The program's stack holds the number of its arguments, its name with them, and pointers to the strings; \<open>ws\<close> are those behind the name.\<close>

fun unwords :: "u8 list list \<Rightarrow> u8 list" where
  "unwords [] = []"
| "unwords [w] = w"
| "unwords (w # ws) = w @ 0x20 # unwords ws"

definition argv_at :: "mem \<Rightarrow> u32 \<Rightarrow> int \<Rightarrow> u8 list list \<Rightarrow> bool" where
  "argv_at m esp' idx ws \<longleftrightarrow> (\<forall>i < length ws. cstr m (emu_argv m esp' (idx + int i)) (ws ! i) \<and> length (ws ! i) < 2 ^ 31)"

lemma unwords_Cons: "ws \<noteq> [] \<Longrightarrow> unwords (w # ws) = w @ 0x20 # unwords ws"
  by (cases ws) simp_all

lemma argv_at_keep: 
  assumes "argv_at m esp' idx ws" and "\<And>a. m' (Global, a) = m (Global, a)"
  shows "argv_at m' esp' idx ws"
proof -
  have "emu_argv m' esp' i = emu_argv m esp' i" for i by (simp add: emu_argv_def ld32_def padd_def assms(2))
  moreover have "cstr m' p w" if "cstr m p w" "fst p = Global" for p w by (rule cstr_cong [OF that(1)]) (use that(2) assms(2) in \<open>simp add: padd_def\<close>)
  moreover have "fst (emu_argv m esp' i) = Global" for i by (simp add: emu_argv_def)
  ultimately show ?thesis using assms(1) unfolding argv_at_def by metis
qed

lemma argv_at_Cons: "argv_at m esp' idx (w # ws) \<longleftrightarrow> cstr m (emu_argv m esp' idx) w \<and> length w < 2 ^ 31 \<and> argv_at m esp' (idx + 1) ws"
  unfolding argv_at_def by (auto simp: nth_Cons add.assoc split: nat.splits)

lemma put_bytes_within: "\<not> in_region p n q \<Longrightarrow> length bs \<le> n \<Longrightarrow> put_bytes m p bs q = m q"
  by (metis in_region_mono put_bytes_other)

lemma getargs_loop_join:
  assumes "argv_at m esp' idx ws" and "argc = idx + int (length ws)" and "fst buf \<noteq> Global" and "nbytes < 2 ^ 31"
  shows "\<exists>m'. getargs_loop m esp' argc buf nbytes idx = Some (m', if int (length (unwords ws)) < nbytes then 0 else -1)
    \<and> (int (length (unwords ws)) < nbytes \<longrightarrow> m' = put_bytes m buf (unwords ws @ [0])) \<and> (\<forall>q. \<not> in_region buf (Suc (nat nbytes)) q \<longrightarrow> m' q = m q)"
  using assms
proof (induction ws arbitrary: m idx buf nbytes)
  case Nil
  then have "getargs_loop m esp' argc buf nbytes idx = Some (if nbytes < 1 then (m, -1) else (m(buf := 0), 0))" by (subst getargs_loop.simps) simp
  moreover have "m(buf := 0) = put_bytes m buf [0]" by (simp add: put_bytes_def fill_region_1)
  ultimately show ?case using put_bytes_within [of buf "Suc (nat nbytes)" _ "[0]" m] by auto
next
  case (Cons w ws)
  have c: "cstr m (emu_argv m esp' idx) w" "length w < 2 ^ 31" "argv_at m esp' (idx + 1) ws" using Cons.prems(1) by (simp_all add: argv_at_Cons)
  let ?n = "int (length w)" and ?m1 = "put_bytes m buf (w @ [0])" and ?b = "padd buf (of_nat (length w))"
  have sl: "ece391_strlen m (emu_argv m esp' idx) = Some (of_nat (length w))" "sint (of_nat (length w) :: u32) = ?n"
    using strlen_cstr [OF c(1)] c(2) sint_word_of_int_u32 [of ?n] by (simp_all add: ece391_strlen_eq)
  have cp: "ece391_strcpy m buf (emu_argv m esp' idx) = Some ?m1" using strcpy_bytes [OF c(1), of buf] Cons.prems(3) by (simp add: emu_argv_def)
  have put: "?m1(?b := x) = put_bytes m buf (w @ [x])" for x
  proof -
    have "length w < 2 ^ 32" using c(2) by simp
    show ?thesis unfolding put_bytes_snoc [OF \<open>length w < 2 ^ 32\<close>, symmetric] by (rule fun_upd_upd)
  qed
  note step = getargs_loop.simps [of m esp' argc buf nbytes idx]
  consider "?n > nbytes" | "?n \<le> nbytes" "ws = []" | "?n = nbytes" "ws \<noteq> []" | "?n < nbytes" "ws \<noteq> []" by linarith
  then show ?case
  proof cases
    case 1
    then have "getargs_loop m esp' argc buf nbytes idx = Some (m, -1)" using step sl Cons.prems(2) by simp
    moreover have "\<not> int (length (unwords (w # ws))) < nbytes" using 1 by (cases ws) simp_all
    ultimately show ?thesis by simp
  next
    case 2
    then have "getargs_loop m esp' argc buf nbytes idx = Some (if nbytes - ?n < 1 then (?m1, -1) else (?m1, 0))"
      using step sl cp put [of 0] Cons.prems(2) by simp
    then show ?thesis using 2 put_bytes_within [of buf "Suc (nat nbytes)" _ "w @ [0]" m] by auto
  next
    case 3
    then have "getargs_loop m esp' argc buf nbytes idx = Some (?m1, -1)" using step sl cp Cons.prems(2) by simp
    moreover have "\<not> int (length (unwords (w # ws))) < nbytes" using 3 by (simp add: unwords_Cons)
    ultimately show ?thesis using 3 put_bytes_within [of buf "Suc (nat nbytes)" _ "w @ [0]" m] by auto
  next
    case 4
    let ?m2 = "put_bytes m buf (w @ [0x20])" and ?b1 = "padd ?b 1" and ?k = "nbytes - ?n - 1"
    have st: "getargs_loop m esp' argc buf nbytes idx = getargs_loop ?m2 esp' argc ?b1 ?k (idx + 1)"
      using step sl cp put [of "0x20"] Cons.prems(2) 4 by simp
    have "argv_at ?m2 esp' (idx + 1) ws" by (rule argv_at_keep [OF c(3)]) (use Cons.prems(3) in \<open>simp add: put_bytes_other in_region_def\<close>)
    from Cons.IH [OF this, of ?b1 ?k] Cons.prems(2-4) obtain m' where IH: "getargs_loop ?m2 esp' argc ?b1 ?k (idx + 1) = Some (m', if int (length (unwords ws)) < ?k then 0 else -1)"
      "int (length (unwords ws)) < ?k \<longrightarrow> m' = put_bytes ?m2 ?b1 (unwords ws @ [0])" "\<forall>q. \<not> in_region ?b1 (Suc (nat ?k)) q \<longrightarrow> m' q = ?m2 q" by auto
    have u: "unwords (w # ws) = w @ 0x20 # unwords ws" using 4(2) by (simp add: unwords_Cons)
    have "put_bytes ?m2 ?b1 xs = put_bytes m buf (w @ 0x20 # xs)" if "int (length xs) \<le> nbytes" for xs
      using put_bytes_append [of "w @ [0x20]" xs m buf] that c(2) Cons.prems(4) by (simp add: add.commute)
    moreover have "m' q = m q" if "\<not> in_region buf (Suc (nat nbytes)) q" for q
    proof -
      have "\<not> in_region ?b1 (Suc (nat ?k)) q" using that in_region_offset [of "Suc (length w)" "Suc (nat ?k)" buf q] 4(1) Cons.prems(4) by (simp add: add.commute nat_diff_distrib)
      with IH(3) have "m' q = ?m2 q" by blast
      then show ?thesis using put_bytes_within [OF that, of "w @ [0x20]" m] 4(1) by simp
    qed
    ultimately show ?thesis using IH(1,2) st u by auto
  qed
qed

lemma unwords_words:
  "\<forall>w \<in> set ws. w \<noteq> [] \<and> (\<forall>c \<in> set w. \<not> word_end c) \<Longrightarrow> emu_words (unwords ws) = ws"
proof (induction ws)
  case (Cons w ws)
  let ?r = "if ws = [] then [] else 0x20 # unwords ws"
  have u: "unwords (w # ws) = w @ ?r" by (simp add: unwords_Cons)
  obtain c cs where w: "w = c # cs" using Cons.prems by (cases w) auto
  have nc: "c \<noteq> 0x20" "c \<noteq> 0x0A" using Cons.prems w by (auto simp: word_end_def)
  have "takeWhile (\<lambda>c. \<not> word_end c) (w @ ?r) = w" using Cons.prems by (auto simp: takeWhile_append2 word_end_def)
  then have "emu_words (unwords (w # ws)) = w # emu_words (drop (Suc (length w)) (w @ ?r))" using w nc unfolding u by (subst emu_words.simps) (simp add: Let_def)
  then show ?case using Cons by (cases ws) simp_all
qed simp

text \<open>
  C26: the emulated \<open>ece391_getargs\<close> delivers the arguments the program was started with, joined by blanks, and 0 if they fit into the buffer with their terminator, -1 if not; it
  writes at most one byte behind the buffer. For arguments that are words, the text is one that \<open>ece391_execute\<close> would take apart into the same arguments.
\<close>

theorem emulated_getargs:
  assumes "argv_at (emem s) (start_esp s) 1 ws" and "sint (ld32 (emem s) (Global, start_esp s)) = int (length ws) + 1" and "fst buf \<noteq> Global" and "nbytes < 2 ^ 31"
  shows "(\<exists>m'. ece391_getargs buf nbytes s = Some (s\<lparr>emem := m'\<rparr>, if int (length (unwords ws)) < nbytes then 0 else -1)
      \<and> (int (length (unwords ws)) < nbytes \<longrightarrow> m' = put_bytes (emem s) buf (unwords ws @ [0])) \<and> (\<forall>q. \<not> in_region buf (Suc (nat nbytes)) q \<longrightarrow> m' q = emem s q))
    \<and> ((\<forall>w \<in> set ws. w \<noteq> [] \<and> (\<forall>c \<in> set w. \<not> word_end c)) \<longrightarrow> emu_words (unwords ws) = ws)"
  using getargs_loop_join [OF assms(1), of "int (length ws) + 1" buf nbytes] assms(2-4) unwords_words [of ws] by (auto simp: ece391_getargs_def)

text \<open>A program that was started with the arguments \<open>a\<close> and \<open>b\<close>.\<close>

definition child_emu :: "(nat, unit) emu" where
  "child_emu = demo_emu\<lparr>emem := (\<lambda>_. 0)((Global, 0x1000) := 3, (Global, 0x1009) := 0x20, (Global, 0x100D) := 0x30, (Global, 0x2000) := 0x61, (Global, 0x3000) := 0x62)\<rparr>"

theorem emulated_getargs_witness:
  "ece391_getargs (Local 31, 0) 8 child_emu = Some (child_emu\<lparr>emem := put_bytes (emem child_emu) (Local 31, 0) [0x61, 0x20, 0x62, 0]\<rparr>, 0) \<and> emu_words [0x61, 0x20, 0x62] = [[0x61], [0x62]]"
proof -
  have a: "argv_at (emem child_emu) (start_esp child_emu) 1 [[0x61], [0x62]]"
    by (auto simp: argv_at_def less_Suc_eq child_emu_def demo_emu_def emu_argv_def ld32_def padd_def cstr_def bytes_at_def)
  have n: "sint (ld32 (emem child_emu) (Global, start_esp child_emu)) = int (length [[0x61 :: u8], [0x62]]) + 1"
    by (simp add: child_emu_def demo_emu_def ld32_def padd_def)
  show ?thesis using emulated_getargs [OF a n, of "(Local 31, 0)" 8] by (auto simp: word_end_def)
qed

text \<open>The copy of an argument is stored before the test for its terminator: an argument as long as the buffer puts a NUL behind it.\<close>

lemma getargs_overflow:
  assumes "argv_at (emem s) (start_esp s) 1 [w]" and "sint (ld32 (emem s) (Global, start_esp s)) = 2" and "fst buf \<noteq> Global"
  shows "\<exists>s'. ece391_getargs buf (int (length w)) s = Some (s', -1) \<and> emem s' (padd buf (of_nat (length w))) = 0"
proof -
  have c: "cstr (emem s) (emu_argv (emem s) (start_esp s) 1) w" "length w < 2 ^ 31" using assms(1) by (simp_all add: argv_at_def)
  have cp: "ece391_strcpy (emem s) buf (emu_argv (emem s) (start_esp s) 1) = Some (put_bytes (emem s) buf (w @ [0]))" using strcpy_bytes [OF c(1), of buf] assms(3) by (simp add: emu_argv_def)
  have "put_bytes (emem s) buf (w @ [0]) (padd buf (of_nat (length w))) = 0" using put_bytes_snoc [of w "emem s" buf 0, symmetric] c(2) by simp
  moreover have "sint (of_nat (length w) :: u32) = int (length w)" using c(2) sint_word_of_int_u32 [of "int (length w)"] by simp
  ultimately show ?thesis using strlen_cstr [OF c(1)] cp assms(2) by (simp add: ece391_getargs_def ece391_strlen_eq getargs_loop.simps)
qed

section \<open>The directory\<close>

lemma copy_name_result:
  assumes "0 \<notin> set name" and "0 \<le> copied" and "copied < min nbytes 32" and "k = nat (min nbytes 32 - copied)"
  shows "copy_name m to name nbytes copied
    = (if length name < k then (put_bytes m to name, padd to (of_nat (length name)), copied + int (length name), False)
       else (put_bytes m to (take k name), padd to (of_nat k), min nbytes 32, True))"
  using assms
proof (induction name arbitrary: m to copied k)
  case (Cons c name)
  have z: "c \<noteq> 0" "0 \<notin> set name" using Cons.prems(1) by auto
  have k: "0 < k" "k \<le> 32" using Cons.prems(2-4) by auto
  show ?case
  proof (cases "copied + 1 = min nbytes 32")
    case True
    then have "k = 1" using Cons.prems(4) by simp
    then show ?thesis using z(1) True by (auto simp: Let_def put_bytes_def fill_region_1 min_def)
  next
    case False
    have "copy_name m to (c # name) nbytes copied = copy_name (m(to := c)) (padd to 1) name nbytes (copied + 1)" using z(1) False Cons.prems(3) by (auto simp: Let_def min_def split: if_splits)
    moreover obtain k' where k': "k = Suc k'" using k(1) gr0_implies_Suc by blast
    moreover have "0 \<le> copied + 1" "copied + 1 < min nbytes 32" "k' = nat (min nbytes 32 - (copied + 1))" using Cons.prems(2-4) False k' by linarith+
    note Cons.IH [OF z(2) this, of "m(to := c)" "padd to 1"]
    moreover have "put_bytes (m(to := c)) (padd to 1) xs = put_bytes m to (c # xs)" if "length xs \<le> k'" for xs using put_bytes_Cons [of xs m to c] that k k' by simp
    ultimately show ?thesis by (simp del: fun_upd_apply copy_name.simps)
  qed
qed simp

lemma pad_name_result:
  "0 \<le> copied \<Longrightarrow> copied \<le> min nbytes 32 \<Longrightarrow> pad_name m to nbytes copied = (put_bytes m to (replicate (nat (min nbytes 32 - copied)) 0), min nbytes 32)"
proof (induction m to nbytes copied rule: pad_name.induct)
  case (1 m to nbytes copied)
  show ?case
  proof (cases "nbytes > copied \<and> 32 > copied")
    case True
    let ?k = "nat (min nbytes 32 - (copied + 1))"
    have k: "nat (min nbytes 32 - copied) = Suc ?k" "?k < 2 ^ 32" using True "1.prems" by auto
    show ?thesis using True "1.IH" [OF True] "1.prems" put_bytes_Cons [of "replicate ?k 0" m to 0] k by (subst pad_name.simps) (simp add: fun_upd_def)
  next
    case False
    then have "copied = min nbytes 32" using "1.prems" by linarith
    then have "pad_name m to nbytes copied = (m, copied)" using False by (subst pad_name.simps) (simp only: if_False)
    then show ?thesis using \<open>copied = min nbytes 32\<close> by simp
  qed
qed

text \<open>
  C27: the emulated directory. While the directory is open, a read from its descriptor into a buffer of at least one byte delivers the next name the host has, cut at the size of the buffer and at 32
  bytes and filled up with zeros to that length, and returns the length; it returns 0 at the end of the directory. Nothing but those bytes changes. A write to the descriptor fails, and closing it ends the emulation of
  the directory.
\<close>

theorem emulated_directory:
  assumes "dir s = Some d" and "0 < nbytes" and "case name of None \<Rightarrow> True | Some xs \<Rightarrow> 0 \<notin> set xs" and "readdir lx d (host s) = (w, name)"
  shows "ece391_read lx (dir_fd s) buf nbytes s = (case name of None \<Rightarrow> (s\<lparr>host := w\<rparr>, 0)
      | Some xs \<Rightarrow> (s\<lparr>emem := put_bytes (emem s) buf (take (nat (min nbytes 32)) (xs @ replicate 32 0)), host := w\<rparr>, min nbytes 32))
    \<and> ece391_write lx (dir_fd s) buf nbytes s = (s, -1) \<and> snd (ece391_close lx (dir_fd s) s) = 0 \<and> dir (fst (ece391_close lx (dir_fd s) s)) = None"
proof (cases name)
  case None
  then show ?thesis using assms by (simp add: ece391_read_def ece391_write_def ece391_close_def)
next
  case (Some xs)
  define k where "k = nat (min nbytes 32)"
  have k: "k \<le> 32" "k = nat (min nbytes 32 - 0)" "int k = min nbytes 32" using assms(2) by (auto simp: k_def)
  have c: "copy_name (emem s) buf xs nbytes 0 = (if length xs < k then (put_bytes (emem s) buf xs, padd buf (of_nat (length xs)), int (length xs), False)
       else (put_bytes (emem s) buf (take k xs), padd buf (of_nat k), min nbytes 32, True))"
    using copy_name_result [of xs 0 nbytes k "emem s" buf] k(2) assms(2,3) Some by simp
  have p: "pad_name (put_bytes (emem s) buf xs) (padd buf (of_nat (length xs))) nbytes (int (length xs)) = (put_bytes (emem s) buf (take k (xs @ replicate 32 0)), min nbytes 32)" if "length xs < k"
  proof -
    have "nat (min nbytes 32 - int (length xs)) = k - length xs" "take k (xs @ replicate 32 0) = xs @ replicate (k - length xs) 0" using that k(1,3) by auto
    then show ?thesis using pad_name_result [of "int (length xs)" nbytes "put_bytes (emem s) buf xs" "padd buf (of_nat (length xs))"]
        put_bytes_append [of xs "replicate (k - length xs) 0" "emem s" buf] that k(1,3) by simp
  qed
  have "ece391_read lx (dir_fd s) buf nbytes s = (s\<lparr>emem := put_bytes (emem s) buf (take k (xs @ replicate 32 0)), host := w\<rparr>, min nbytes 32)"
    using assms(1,4) Some c p by (cases "length xs < k") (simp_all add: ece391_read_def)
  then show ?thesis using assms(1) Some by (simp add: ece391_write_def ece391_close_def k_def)
qed

definition dir_emu :: "(nat, unit) emu" where
  "dir_emu = demo_emu\<lparr>dir := Some (), dir_fd := 5\<rparr>"

theorem emulated_directory_witness:
  "ece391_read demo_linux 5 (Local 32, 0) 4 dir_emu = (dir_emu\<lparr>emem := put_bytes (emem dir_emu) (Local 32, 0) [0x68, 0x69, 0, 0], host := 1\<rparr>, 4)"
proof -
  have "readdir demo_linux () (host dir_emu) = (1, Some (cbytes ''hi''))" by (simp add: demo_linux_def dir_emu_def demo_emu_def)
  moreover have "0 \<notin> set (cbytes ''hi'')" by (simp add: cbytes_def)
  moreover have "replicate 2 (0 :: u8) = [0, 0]" by (simp add: numeral_2_eq_2)
  ultimately show ?thesis using emulated_directory [of dir_emu "()" 4 "Some (cbytes ''hi'')" demo_linux 1 "(Local 32, 0)"] by (simp add: dir_emu_def cbytes_def)
qed

end
