(* ===== verification/Spec2Isabelle.thy ===== *)
theory Spec2Isabelle
  imports Boot Fish_Kernel Shell_Kernel Emulation
begin

text \<open>
  Verification of a small x86 operating system: the kernel in \<open>student-distrib\<close> and the user programs in \<open>syscalls\<close> and \<open>fish\<close>.

  \<^bold>\<open>The system.\<close> \<open>entry\<close> (\<open>kernel.c\<close>) reads the boot information, loads the segments and initialises the interrupt table, the interrupt
  controller, the clock, the keyboard, paging, the file system and the scheduler. The first three timer ticks start one shell on
  each of three terminals. Programs run in user mode in a 4 MB page of their own, enter the kernel by
  system calls (\<open>read\<close>, \<open>write\<close>, \<open>open\<close>, \<open>close\<close>, \<open>getargs\<close>, \<open>vidmap\<close>, \<open>execute\<close>, \<open>halt\<close>), and are switched by the timer. Each has a kernel
  stack with its control block at the bottom; files, directory, clock and terminal are reached through a table of operations per open descriptor.

  \<^bold>\<open>State.\<close> Each component extends the record of the components below it, so that an operation of a low component runs unchanged on
  the state of a high one: \<open>machine\<close> (memory, port writes, interrupt flag; \<open>Prelude\<close>), \<open>pic_state\<close> (\<open>I8259\<close>), \<open>screen_state\<close>
  (\<open>Lib_Screen\<close>), \<open>rtc_state\<close> (\<open>Rtc\<close>), \<open>kbd_state\<close> (\<open>Keyboard\<close>), \<open>fs_state\<close> (\<open>Filesystem\<close>), \<open>paging_state\<close> (\<open>Paging\<close>), \<open>proc_state\<close>
  (\<open>System_Calls\<close>), \<open>idt_state\<close> (\<open>Idt\<close>), \<open>kernel_state\<close> (\<open>Boot\<close>). Operations return an option: \<open>None\<close> stands for behaviour that the C program does
  not define (an array index out of range, division by zero, a call through a null table, a status that \<open>wait\<close> has not set) and for loops that do not end.

  \<^bold>\<open>Memory.\<close> A pointer is a block and a 32-bit offset. Block \<open>Global\<close> is the address space of the kernel, with the image of the file system in it; a local array whose address is
  passed on has a block \<open>Local n\<close> of its own: 0 \<open>conv_buf\<close> of \<open>printf\<close>, 1 \<open>default_frequency\<close> of \<open>rtc_open\<close>, 2 string literals of the kernel, 3 the entry of
  \<open>get_filesize_by_name\<close>, 4 \<open>current_dir\<close>, 5 and 6 \<open>loadProcess\<close>, 7 and 8 \<open>is_executable\<close>, 9 and 10 \<open>execute\<close>, 11 \<open>read_fs\<close>,
  12 \<open>read_fs_dir\<close>, 13 \<open>open\<close>, 30 string literals of user programs, 31 to 33 their arrays, 34 and 35 the emulation's literal and command buffer. A block has no size of its own: bounds of such arrays are not checked. A local array that the code does not initialise holds what its block held before, which theorems leave open. Arrays that
  are fields or global variables of the kernel are lists, and an access out of range is \<open>None\<close>. Video memory is a grid of cells for each page. Machine integers are words of their
  width; \<open>int32_t\<close> values that stay in range are \<open>int\<close>.

  \<^bold>\<open>Initial values.\<close> The theorems on booting start from the data section as the sources initialise it (\<open>reset_state\<close> in \<open>Boot\<close>): \<open>total_tasks\<close> is 1, no process number is taken. The
  counter stays one above the number of processes, so that the limit of seven in \<open>execute\<close> admits six of them: the three base shells and three children.

  \<^bold>\<open>Interrupts.\<close> Code that waits (\<open>rtc_read\<close>, \<open>keyboard_read\<close>) takes the list of interrupt handlers that will run while it waits, each applied when the flag is
  tested; running out of them is \<open>None\<close>, since the wait then does not end. Timer ticks and system calls of different processes
  are events of a step relation (\<open>Multitasking\<close>).

  \<^bold>\<open>Theories and sources.\<close>
  \<^item> \<open>Prelude\<close>: types, memory, ports, loops over lists of indices, the collections of rules.
  \<^item> \<open>Lib_Memory\<close>, \<open>Lib_String\<close>, \<open>Lib_Screen\<close>, \<open>Lib_Printf\<close>: \<open>lib.c\<close>. The copying loops with their alignment equal plain copies; \<open>itoa\<close> writes the digits of its number; \<open>putc\<close>
    refines an abstract console and \<open>printf\<close> the text its format stands for.
  \<^item> \<open>I8259\<close>, \<open>Rtc\<close>: \<open>i8259.c\<close>, \<open>rtc.c\<close>, \<open>pit.c\<close> as sequences of port writes.
  \<^item> \<open>Keyboard\<close>: \<open>keyboard.c\<close>, \<open>terminal.c\<close>. The handler keeps the line buffers in range; a typed line is what the reader gets.
  \<^item> \<open>Filesystem\<close>: \<open>filesystem.c\<close>. Lookup, reading and loading return what the image holds.
  \<^item> \<open>Paging\<close>: \<open>paging.c\<close>. The tables translate as intended; the user page is a window on physical memory that changes at a flush of the
    translation buffer, and what one process stores there another does not see.
  \<^item> \<open>System_Calls\<close>, \<open>Process\<close>: \<open>system_calls.c\<close>, \<open>system_calls.h\<close>, \<open>system_calls_wrapper.S\<close>. Descriptor tables and process numbers are instances of one locale of allocation tables. \<open>execute\<close> loads and enters a program, and
    \<open>halt\<close> returns to the frame of the parent.
  \<^item> \<open>Schedule\<close>, \<open>Multitasking\<close>: \<open>schedule.c\<close>. One tick resumes the next process of the run queue, every process is resumed within seven ticks, and the
    kernel's events refine a machine of process stacks that take turns, so that its invariant holds in every reachable state.
  \<^item> \<open>Idt\<close>, \<open>Boot\<close>: \<open>idt.c\<close>, \<open>kernel.c\<close>, \<open>multiboot.h\<close>, \<open>x86_desc.h\<close>. The gates and segments are well formed. The handlers of exceptions end in an endless loop, which is the value \<open>Spins\<close>. The boot
    information is printed as a text of its own definition, for a memory map laid out as the multiboot format has it, and the initialisation reaches the state from which the first three ticks
    lead to the states of the refinement.
  \<^item> \<open>User_Support\<close>, \<open>User_Programs\<close>: the programs of \<open>syscalls\<close> as functions of a record of system calls. What \<open>cat\<close>, \<open>ls\<close> and \<open>counter\<close>
    do is proved from the contracts \<open>terminal_os\<close>, \<open>file_os\<close> and \<open>directory_os\<close>.
  \<^item> \<open>User_Kernel\<close>: the kernel's calls keep these contracts, so the programs do the same on the kernel, with what is particular to it: \<open>ls\<close> shows 31 bytes of a longer name and a byte that was never set, and \<open>cat\<close> with an argument reads
    beyond the argument in the control block, so that what it prints is stated from there on, for any bytes behind; a session with \<open>hello\<close> goes from the keys to the screen; and the kernel passes the error tests of \<open>ece391syserr.c\<close>.
  \<^item> \<open>Shell\<close>, \<open>Shell_Kernel\<close>: \<open>ece391shell.c\<close>. A session with the shell follows from the contract \<open>shell_os\<close>, which the kernel keeps: a line goes from the keys to \<open>execute\<close>, a program that is
    started runs as a process of the machine of stacks until its \<open>halt\<close>, and the shell reports on it. The variables of the program that runs lie in its user page (\<open>store_vars\<close>, \<open>show_vars\<close>), so that
    the shell finds its own again because \<open>halt\<close> maps its page; \<open>syscall_entry\<close> is the entry to the kernel through the task segment, with the size of the frame of the called function as a parameter.
  \<^item> \<open>Pingpong\<close>: \<open>ece391pingpong.c\<close>, and \<open>clock_os\<close>, the contract of a system with a clock.
  \<^item> \<open>Blink\<close>, \<open>Fish\<close>: \<open>fish/blink.S\<close>, \<open>fish/fish.c\<close>. The linked list of the blinking engine refines a plain list; two text files are read side by side into the picture, from the contract \<open>frame_os\<close>.
  \<^item> \<open>Clock_Kernel\<close>, \<open>Fish_Kernel\<close>: the kernel keeps both contracts, with the clock's interrupts as the ticks, so that \<open>pingpong\<close> and the animation run on it.
  \<^item> \<open>Emulation\<close>: \<open>ece391emulate.c\<close>. The command line is taken apart into the words a program is started with, \<open>getargs\<close> joins them again, and a directory of the host reads as one of the kernel's does.

  \<^bold>\<open>Loops.\<close> Loops with a bound are recursive functions with a measure or folds over their indices. Loops whose end depends on memory or on the environment (\<open>strlen\<close>,
  \<open>next_slot\<close>, the module list, \<open>cat\<close>) are partial functions, and that they return is part of their theorems. No fuel is used; the endless loop of \<open>pingpong\<close> is
  modelled by the number of rounds it has done.

  \<^bold>\<open>Parameters.\<close> What the hardware answers on a port read is a function \<open>device\<close>; the addresses the linker gives to tables and handlers are a record and a function;
  what a started program does until it halts is a parameter of the user programs' \<open>execute\<close>, for the shell what it does until its \<open>main\<close> returns, of which a session only asks that it prints; the calls of Linux and of the C library are a record of functions for the emulation, of which only
  that \<open>execv\<close> goes by the strings behind its pointers is assumed.

  \<^bold>\<open>Not modelled.\<close> The assembly of \<open>boot.S\<close> and the register saving of the linkage code, which have no counterpart in C state; \<open>tests.c\<close>, the
  kernel's own tests, and \<open>debug.h\<close>; \<open>ece391sigtest.c\<close>, a test of signals, which the kernel does not have: without a handler it stores through a null pointer; the mapping between the
  video page of the blinking engine, a state of its own, and the page that \<open>vidmap\<close> makes visible. \<open>execute\<close>, \<open>halt\<close> and the
  scheduler disable interrupts; for the other system calls the theorems are about runs in which interrupts arrive only in the waiting loops of \<open>read\<close>.
\<close>

end
